(* ===== verification/Prelude.thy ===== *)
theory Prelude
  imports Main "HOL-Library.Char_ord" "HOL-Library.List_Lexorder"
begin

text \<open>
  What every component of the development shares.

  A Rust \<open>String\<close> or \<open>&str\<close> is a sequence of bytes in UTF-8, and so is a \<open>string\<close> here: each
  \<open>char\<close> is one byte. \<open>str.len()\<close> is \<open>length\<close>, byte slices are \<open>take\<close> and \<open>drop\<close>, and the byte
  order of \<open>Ord for String\<close> is the lexicographic order of \<open>List_Lexorder\<close>. Where the code iterates
  over \<open>char\<close>s, \<open>chars\<close> splits the bytes into one byte sequence per character. Where it converts
  bytes back to a string, \<open>from_utf8\<close> checks them.

  An error of a handler is a pair of a reason code and a message, so a fallible function returns
  \<open>stage_err + 'a\<close>.
\<close>

named_theorems byte_simps \<open>unfolding the byte classes\<close>
named_theorems string_simps \<open>unfolding the string searches\<close>

type_synonym stage_err = "string \<times> string"

subsection \<open>Bytes\<close>

definition byte :: "char \<Rightarrow> nat" where
  "byte c = of_char c"

definition is_digit :: "char \<Rightarrow> bool" where
  [byte_simps]: "is_digit c \<longleftrightarrow> 48 \<le> byte c \<and> byte c \<le> 57"

definition is_upper :: "char \<Rightarrow> bool" where
  [byte_simps]: "is_upper c \<longleftrightarrow> 65 \<le> byte c \<and> byte c \<le> 90"

definition is_lower :: "char \<Rightarrow> bool" where
  [byte_simps]: "is_lower c \<longleftrightarrow> 97 \<le> byte c \<and> byte c \<le> 122"

definition is_alnum :: "char \<Rightarrow> bool" where
  [byte_simps]: "is_alnum c \<longleftrightarrow> is_digit c \<or> is_upper c \<or> is_lower c"

definition is_hexdigit :: "char \<Rightarrow> bool" where
  [byte_simps]: "is_hexdigit c \<longleftrightarrow> is_digit c \<or> (65 \<le> byte c \<and> byte c \<le> 70) \<or> (97 \<le> byte c \<and> byte c \<le> 102)"

text \<open>\<open>u8::is_ascii_whitespace\<close>: space, tab, line feed, form feed, carriage return.\<close>

definition is_space :: "char \<Rightarrow> bool" where
  [byte_simps]: "is_space c \<longleftrightarrow> byte c = 32 \<or> byte c = 9 \<or> byte c = 10 \<or> byte c = 12 \<or> byte c = 13"

definition is_ascii :: "char \<Rightarrow> bool" where
  [byte_simps]: "is_ascii c \<longleftrightarrow> byte c < 128"

text \<open>\<open>to_ascii_uppercase\<close> and \<open>to_ascii_lowercase\<close> clear and set the bit of value 32 of a letter.\<close>

primrec with_bit5 :: "bool \<Rightarrow> char \<Rightarrow> char" where
  "with_bit5 b (Char b0 b1 b2 b3 b4 b5 b6 b7) = Char b0 b1 b2 b3 b4 b b6 b7"

definition to_upper :: "char \<Rightarrow> char" where
  "to_upper c = (if is_lower c then with_bit5 False c else c)"

definition to_lower :: "char \<Rightarrow> char" where
  "to_lower c = (if is_upper c then with_bit5 True c else c)"

lemma byte_less [simp]: "byte c < 256"
  by (simp add: byte_def)

lemma byte_nibbles [simp]: "byte c div 16 < 16" "byte c mod 16 < 16"
  using byte_less [of c] by (simp_all add: less_mult_imp_div_less)

lemma byte_eq_iff: "byte c = byte d \<longleftrightarrow> c = d"
  by (simp add: byte_def)

lemma char_of_byte [simp]: "char_of (byte c) = c"
  by (simp add: byte_def)

lemma byte_char_of: "n < 256 \<Longrightarrow> byte (char_of n) = n"
  by (simp add: byte_def)

lemma byte_Char [simp]: "byte (Char b0 b1 b2 b3 b4 b5 b6 b7) =
    of_bool b0 + 2 * (of_bool b1 + 2 * (of_bool b2 + 2 * (of_bool b3 + 2 * (of_bool b4 +
      2 * (of_bool b5 + 2 * (of_bool b6 + 2 * of_bool b7))))))"
  by (simp add: byte_def)

lemma byte_to_upper: "byte (to_upper c) = (if is_lower c then byte c - 32 else byte c)"
proof (cases c)
  case (Char b0 b1 b2 b3 b4 b5 b6 b7)
  then show ?thesis
    by (cases b0; cases b1; cases b2; cases b3; cases b4; cases b5; cases b6; cases b7)
      (simp_all add: to_upper_def is_lower_def)
qed

lemma byte_to_lower: "byte (to_lower c) = (if is_upper c then byte c + 32 else byte c)"
proof (cases c)
  case (Char b0 b1 b2 b3 b4 b5 b6 b7)
  then show ?thesis
    by (cases b0; cases b1; cases b2; cases b3; cases b4; cases b5; cases b6; cases b7)
      (simp_all add: to_lower_def is_upper_def)
qed

lemma to_upper_is_alnum [simp]: "is_alnum (to_upper c) = is_alnum c"
  by (auto simp: byte_to_upper byte_simps)

lemma to_upper_idem [simp]: "to_upper (to_upper c) = to_upper c"
proof -
  have "\<not> is_lower (to_upper c)" by (auto simp: byte_to_upper byte_simps)
  then show ?thesis by (simp add: to_upper_def [of "to_upper c"])
qed

lemma to_upper_eq_nonletter:
  assumes "\<not> is_upper d" shows "to_upper c = d \<longleftrightarrow> c = d \<and> \<not> is_lower d"
proof (cases "is_lower c")
  case True
  then have "is_upper (to_upper c)" by (auto simp: byte_to_upper byte_simps)
  then show ?thesis using assms True by (metis)
next
  case False
  then show ?thesis by (auto simp: to_upper_def)
qed

subsection \<open>Searching strings\<close>

definition starts_with :: "string \<Rightarrow> string \<Rightarrow> bool" where
  "starts_with s p \<longleftrightarrow> take (length p) s = p"

definition ends_with :: "string \<Rightarrow> string \<Rightarrow> bool" where
  "ends_with s p \<longleftrightarrow> starts_with (rev s) (rev p)"

definition strip_prefix :: "string \<Rightarrow> string \<Rightarrow> string option" where
  "strip_prefix s p = (if starts_with s p then Some (drop (length p) s) else None)"

text \<open>\<open>find_str p s\<close> is \<open>s.find(p)\<close>: the first byte position where \<open>p\<close> occurs.\<close>

fun find_str :: "string \<Rightarrow> string \<Rightarrow> nat option" where
  "find_str p [] = (if p = [] then Some 0 else None)"
| "find_str p (c # s) = (if starts_with (c # s) p then Some 0 else map_option Suc (find_str p s))"

definition contains :: "string \<Rightarrow> string \<Rightarrow> bool" where
  "contains s p \<longleftrightarrow> find_str p s \<noteq> None"

text \<open>\<open>split_once\<close> at the first occurrence, \<open>rsplit_once\<close> at the last one of a single byte.\<close>

definition split_once :: "string \<Rightarrow> string \<Rightarrow> (string \<times> string) option" where
  "split_once s p =
     (case find_str p s of None \<Rightarrow> None | Some i \<Rightarrow> Some (take i s, drop (i + length p) s))"

definition rsplit_once :: "char \<Rightarrow> string \<Rightarrow> (string \<times> string) option" where
  "rsplit_once c s =
     (if c \<in> set s
      then Some (rev (tl (dropWhile (\<lambda>d. d \<noteq> c) (rev s))), rev (takeWhile (\<lambda>d. d \<noteq> c) (rev s)))
      else None)"

text \<open>\<open>rsplit_once\<close> at the last occurrence of a text, and the text after the last \<open>::\<close>, which is
  \<open>rsplit("::").next()\<close>.\<close>

definition rsplit_str :: "string \<Rightarrow> string \<Rightarrow> (string \<times> string) option" where
  "rsplit_str s p = map_option (\<lambda>(a, b). (rev b, rev a)) (split_once (rev s) (rev p))"

definition after_colons :: "string \<Rightarrow> string" where
  "after_colons s = (case rsplit_str s ''::'' of Some (a, b) \<Rightarrow> b | None \<Rightarrow> s)"

text \<open>\<open>split_on p s\<close> is \<open>s.split(p)\<close> for a non-empty pattern: the pieces between the leftmost,
  non-overlapping occurrences of \<open>p\<close>. The accumulator holds the current piece, reversed.\<close>

function split_acc :: "string \<Rightarrow> string \<Rightarrow> string \<Rightarrow> string list" where
  "split_acc p acc [] = [rev acc]"
| "split_acc p acc (c # s) =
     (if p \<noteq> [] \<and> starts_with (c # s) p then rev acc # split_acc p [] (drop (length p) (c # s))
      else split_acc p (c # acc) s)"
  by pat_completeness auto
termination
proof (relation "measure (\<lambda>(p, acc, s). length s)", goal_cases)
  case (2 p acc c s)
  then have "0 < length p" by simp
  then show ?case by simp
qed auto

definition split_on :: "string \<Rightarrow> string \<Rightarrow> string list" where
  "split_on p s = split_acc p [] s"

lemma starts_with_iff: "starts_with s p \<longleftrightarrow> (\<exists>r. s = p @ r)"
  unfolding starts_with_def by (metis append_eq_conv_conj append_take_drop_id)

lemma starts_with_append [simp]: "starts_with (p @ r) p"
  by (simp add: starts_with_def)

lemma starts_with_Nil [simp]: "starts_with s []"
  by (simp add: starts_with_def)

lemma ends_with_iff: "ends_with s p \<longleftrightarrow> (\<exists>r. s = r @ p)"
  unfolding ends_with_def starts_with_iff by (metis rev_append rev_rev_ident)

lemma strip_prefix_Some: "strip_prefix s p = Some r \<longleftrightarrow> s = p @ r"
  by (auto simp: strip_prefix_def starts_with_iff)

lemma find_str_Some:
  "find_str p s = Some i \<Longrightarrow> i \<le> length s \<and> starts_with (drop i s) p"
  by (induction p s arbitrary: i rule: find_str.induct) (auto split: if_splits)

lemma find_str_Some_split:
  "find_str p s = Some i \<Longrightarrow> s = take i s @ p @ drop (i + length p) s"
proof -
  assume "find_str p s = Some i"
  then have "starts_with (drop i s) p" by (rule find_str_Some [THEN conjunct2])
  then obtain r where r: "drop i s = p @ r" by (auto simp: starts_with_iff)
  have "drop (i + length p) s = drop (length p) (drop i s)"
    by (simp only: drop_drop add.commute)
  then have "drop (i + length p) s = r" by (simp add: r)
  then have "take i s @ p @ drop (i + length p) s = take i s @ drop i s" by (simp add: r)
  then show ?thesis by simp
qed

lemma find_str_None: "find_str p s = None \<longleftrightarrow> (\<forall>a b. s \<noteq> a @ p @ b)"
proof (induction s)
  case Nil
  then show ?case by auto
next
  case (Cons c s)
  show ?case
  proof (cases "starts_with (c # s) p")
    case True
    then obtain r where r: "c # s = [] @ p @ r" by (auto simp: starts_with_iff)
    have "find_str p (c # s) = Some 0" using True by simp
    moreover have "\<not> (\<forall>a b. c # s \<noteq> a @ p @ b)" using r by blast
    ultimately show ?thesis by simp
  next
    case False
    then have nb: "c # s \<noteq> p @ b" for b by (metis starts_with_iff)
    have "(\<forall>a b. c # s \<noteq> a @ p @ b) \<longleftrightarrow> (\<forall>a b. s \<noteq> a @ p @ b)"
    proof
      assume "\<forall>a b. c # s \<noteq> a @ p @ b"
      then show "\<forall>a b. s \<noteq> a @ p @ b" by (metis append_Cons)
    next
      assume h: "\<forall>a b. s \<noteq> a @ p @ b"
      show "\<forall>a b. c # s \<noteq> a @ p @ b"
      proof (intro allI notI)
        fix a b assume e: "c # s = a @ p @ b"
        show False
        proof (cases a)
          case Nil
          with e nb show False by simp
        next
          case (Cons d a')
          with e h show False by simp
        qed
      qed
    qed
    with Cons False show ?thesis by simp
  qed
qed

lemma contains_iff: "contains s p \<longleftrightarrow> (\<exists>a b. s = a @ p @ b)"
  by (auto simp: contains_def find_str_None)

lemma rsplit_once_Some:
  assumes "rsplit_once c s = Some (h, t)"
  shows "s = h @ c # t" "c \<notin> set t"
proof -
  let ?r = "rev s"
  have c: "c \<in> set ?r" using assms by (auto simp: rsplit_once_def split: if_splits)
  have ne: "dropWhile (\<lambda>d. d \<noteq> c) ?r \<noteq> []" using c by (auto simp: dropWhile_eq_Nil_conv)
  have hd: "hd (dropWhile (\<lambda>d. d \<noteq> c) ?r) = c" using hd_dropWhile [OF ne] by simp
  have "?r = takeWhile (\<lambda>d. d \<noteq> c) ?r @ c # tl (dropWhile (\<lambda>d. d \<noteq> c) ?r)"
    using takeWhile_dropWhile_id [of "\<lambda>d. d \<noteq> c" ?r] ne hd by (metis list.collapse)
  moreover have h: "h = rev (tl (dropWhile (\<lambda>d. d \<noteq> c) ?r))"
    and t: "t = rev (takeWhile (\<lambda>d. d \<noteq> c) ?r)"
    using assms by (auto simp: rsplit_once_def split: if_splits)
  ultimately have "rev s = rev t @ c # rev h" by simp
  then have "rev (rev s) = rev (rev t @ c # rev h)" by simp
  then show "s = h @ c # t" by simp
  show "c \<notin> set t" using t by (auto dest: set_takeWhileD)
qed

subsection \<open>UTF-8\<close>

definition is_cont :: "char \<Rightarrow> bool" where
  "is_cont c \<longleftrightarrow> 128 \<le> byte c \<and> byte c < 192"

text \<open>The second byte of a three- or four-byte sequence, which excludes overlong forms,
  surrogates and code points past \<open>0x10FFFF\<close>.\<close>

definition second_ok :: "nat \<Rightarrow> char \<Rightarrow> bool" where
  "second_ok b c \<longleftrightarrow>
     (if b = 224 then 160 \<le> byte c \<and> byte c < 192
      else if b = 237 then 128 \<le> byte c \<and> byte c < 160
      else if b = 240 then 144 \<le> byte c \<and> byte c < 192
      else if b = 244 then 128 \<le> byte c \<and> byte c < 144
      else is_cont c)"

fun utf8_valid :: "string \<Rightarrow> bool" where
  "utf8_valid [] = True"
| "utf8_valid (c # s) =
     (if byte c < 128 then utf8_valid s
      else if 194 \<le> byte c \<and> byte c < 224 then
        (case s of c1 # r \<Rightarrow> is_cont c1 \<and> utf8_valid r | _ \<Rightarrow> False)
      else if 224 \<le> byte c \<and> byte c < 240 then
        (case s of c1 # c2 # r \<Rightarrow> second_ok (byte c) c1 \<and> is_cont c2 \<and> utf8_valid r | _ \<Rightarrow> False)
      else if 240 \<le> byte c \<and> byte c < 245 then
        (case s of c1 # c2 # c3 # r \<Rightarrow>
           second_ok (byte c) c1 \<and> is_cont c2 \<and> is_cont c3 \<and> utf8_valid r | _ \<Rightarrow> False)
      else False)"

definition from_utf8 :: "string \<Rightarrow> string option" where
  "from_utf8 s = (if utf8_valid s then Some s else None)"

text \<open>The bytes of the first character, by the lead byte, as \<open>Chars::next\<close> reads them.\<close>

definition char_width :: "char \<Rightarrow> nat" where
  "char_width c = (if byte c < 128 then 1 else if byte c < 224 then 2 else if byte c < 240 then 3 else 4)"

text \<open>\<open>char::is_whitespace\<close>, the Unicode property \<open>White_Space\<close>, on the bytes of one character:
  U+0009-000D, U+0020, U+0085, U+00A0, U+1680, U+2000-200A, U+2028, U+2029, U+202F, U+205F, U+3000.\<close>

definition is_whitespace :: "string \<Rightarrow> bool" where
  "is_whitespace c \<longleftrightarrow>
     (case map byte c of
        [a] \<Rightarrow> 9 \<le> a \<and> a \<le> 13 \<or> a = 32
      | [a, b] \<Rightarrow> a = 194 \<and> (b = 133 \<or> b = 160)
      | [a, b, d] \<Rightarrow>
          (a = 225 \<and> b = 154 \<and> d = 128)
          \<or> (a = 226 \<and> b = 128 \<and> (128 \<le> d \<and> d \<le> 138 \<or> d = 168 \<or> d = 169 \<or> d = 175))
          \<or> (a = 226 \<and> b = 129 \<and> d = 159)
          \<or> (a = 227 \<and> b = 128 \<and> d = 128)
      | _ \<Rightarrow> False)"

text \<open>\<open>char::from_u32\<close> followed by \<open>String::push\<close>: the bytes of a code point, \<open>None\<close> for a surrogate
  or a number past \<open>0x10FFFF\<close>.\<close>

definition utf8_char :: "nat \<Rightarrow> string option" where
  "utf8_char n =
     (if n < 128 then Some [char_of n]
      else if n < 2048 then Some [char_of (192 + n div 64), char_of (128 + n mod 64)]
      else if 55296 \<le> n \<and> n < 57344 then None
      else if n < 65536 then
        Some [char_of (224 + n div 4096), char_of (128 + n div 64 mod 64), char_of (128 + n mod 64)]
      else if n < 1114112 then
        Some [char_of (240 + n div 262144), char_of (128 + n div 4096 mod 64),
              char_of (128 + n div 64 mod 64), char_of (128 + n mod 64)]
      else None)"

text \<open>\<open>from_str_radix(_, 16)\<close> of an unsigned type below \<open>bound\<close>: an optional \<open>+\<close>, then at least one
  hexadecimal digit; overflow is an error.\<close>

definition hex_value :: "char \<Rightarrow> nat" where
  "hex_value c = (if is_digit c then byte c - 48 else if byte c < 97 then byte c - 55 else byte c - 87)"

definition parse_hex :: "nat \<Rightarrow> string \<Rightarrow> nat option" where
  "parse_hex bound s =
     (let ds = (if starts_with s ''+'' then drop 1 s else s);
          v = foldl (\<lambda>acc c. 16 * acc + hex_value c) 0 ds
      in if ds \<noteq> [] \<and> list_all is_hexdigit ds \<and> v < bound then Some v else None)"

text \<open>\<open>format!("{b:02X}")\<close> and its lower-case form.\<close>

definition hex_digit_upper :: "nat \<Rightarrow> char" where
  "hex_digit_upper n = (if n < 10 then char_of (48 + n) else char_of (55 + n))"

definition hex_digit_lower :: "nat \<Rightarrow> char" where
  "hex_digit_lower n = (if n < 10 then char_of (48 + n) else char_of (87 + n))"

lemma char_width_pos [simp]: "0 < char_width c"
  by (simp add: char_width_def)

function chars :: "string \<Rightarrow> string list" where
  "chars [] = []"
| "chars (c # s) = take (char_width c) (c # s) # chars (drop (char_width c) (c # s))"
  by pat_completeness auto
termination
  by (relation "measure length") (auto simp: char_width_def)

lemma concat_chars [simp]: "concat (chars s) = s"
  by (induction s rule: chars.induct) (simp_all add: append_take_drop_id)

lemma utf8_char_valid:
  assumes "utf8_char n = Some s" shows "utf8_valid s"
proof -
  consider "n < 128" | "128 \<le> n \<and> n < 2048" | "2048 \<le> n \<and> n < 65536" | "65536 \<le> n \<and> n < 1114112"
    using assms by (fastforce simp: utf8_char_def split: if_splits)
  then show ?thesis
  proof cases
    case 1
    with assms show ?thesis by (auto simp: utf8_char_def byte_char_of)
  next
    case 2
    then have "2 \<le> n div 64" "n div 64 < 32" by auto
    with 2 assms show ?thesis by (auto simp: utf8_char_def byte_char_of is_cont_def)
  next
    case 3
    define m where "m = n div 64"
    define d where "d = n mod 64"
    have n: "n = 64 * m + d" "d < 64" by (simp_all add: m_def d_def)
    have sg: "\<not> (55296 \<le> n \<and> n < 57344)"
    proof
      assume "55296 \<le> n \<and> n < 57344"
      then have "utf8_char n = None" by (simp add: utf8_char_def)
      with assms show False by simp
    qed
    have "2048 \<le> n" "n < 65536" using 3 by simp_all
    with n have m12: "32 \<le> m" "m < 1024" by linarith+
    have "\<not> (864 \<le> m \<and> m < 896)"
    proof
      assume "864 \<le> m \<and> m < 896"
      then have "55296 \<le> n" "n < 57344" using n by linarith+
      with sg show False by simp
    qed
    note m = m12 this
    have md: "n div 4096 = m div 64" by (simp add: m_def div_mult2_eq [symmetric])
    define a where "a = m div 64"
    define b where "b = m mod 64"
    have mm: "m = 64 * a + b" "b < 64" by (simp_all add: a_def b_def)
    have low: "32 \<le> b" if "a = 0" using mm(1) m(1) unfolding that by linarith
    have sur: "b < 32" if "a = 13"
    proof (rule ccontr)
      assume "\<not> b < 32"
      then have "864 \<le> m" "m < 896" using mm unfolding that by linarith+
      with m(3) show False by simp
    qed
    have lt: "a < 16" using mm m(2) by linarith
    have eb: "n div 64 mod 64 = b" "n mod 64 = d" by (simp_all add: m_def b_def d_def)
    have s: "s = [char_of (224 + a), char_of (128 + b), char_of (128 + d)]"
      using \<open>2048 \<le> n\<close> \<open>n < 65536\<close> assms sg by (simp add: utf8_char_def eb md a_def)
    have bytes: "byte (char_of (224 + a)) = 224 + a" "byte (char_of (128 + b)) = 128 + b"
      "byte (char_of (128 + d)) = 128 + d"
      using lt mm(2) n(2) by (simp_all add: byte_char_of)
    show ?thesis unfolding s using lt low sur mm(2) n(2) by (simp add: bytes is_cont_def second_ok_def)
  next
    case 4
    define m where "m = n div 4096"
    have n: "n = 4096 * m + n mod 4096" "n mod 4096 < 4096" by (simp_all add: m_def)
    have m: "16 \<le> m" "m < 272" using 4 n by linarith+
    have md: "n div 262144 = m div 64" by (simp add: m_def div_mult2_eq [symmetric])
    have hi: "n div 262144 < 5" using m by (simp add: md)
    have lo: "n div 4096 mod 64 < 64" "n div 64 mod 64 < 64" "n mod 64 < 64" by auto
    define a where "a = n div 262144"
    define b where "b = n div 4096 mod 64"
    define c where "c = n div 64 mod 64"
    define d where "d = n mod 64"
    have ab: "a = m div 64" "b = m mod 64" by (simp_all add: a_def b_def md) (simp add: m_def)
    have mm: "m = 64 * a + b" unfolding ab by simp
    have low: "16 \<le> b" if "a = 0" using mm m(1) unfolding that by linarith
    have high: "b < 16" if "a = 4" using mm m(2) unfolding that by linarith
    have lt: "a < 5" "b < 64" "c < 64" "d < 64" using hi lo by (simp_all add: a_def b_def c_def d_def)
    have s: "s = [char_of (240 + a), char_of (128 + b), char_of (128 + c), char_of (128 + d)]"
      using 4 assms by (simp add: utf8_char_def a_def b_def c_def d_def)
    have bytes: "byte (char_of (240 + a)) = 240 + a" "byte (char_of (128 + b)) = 128 + b"
      "byte (char_of (128 + c)) = 128 + c" "byte (char_of (128 + d)) = 128 + d"
      using lt by (simp_all add: byte_char_of)
    show ?thesis unfolding s using lt low high by (simp add: bytes is_cont_def second_ok_def)
  qed
qed

lemma byte_hex_digit_upper: "n < 16 \<Longrightarrow> byte (hex_digit_upper n) = (if n < 10 then 48 + n else 55 + n)"
  by (auto simp: hex_digit_upper_def byte_char_of)

lemma hex_value_hex_digit_upper [simp]: "n < 16 \<Longrightarrow> hex_value (hex_digit_upper n) = n"
  by (auto simp: hex_value_def byte_simps byte_hex_digit_upper)

lemma is_hexdigit_hex_digit_upper [simp]: "n < 16 \<Longrightarrow> is_hexdigit (hex_digit_upper n)"
  by (auto simp: byte_simps byte_hex_digit_upper)

lemma is_alnum_hex_digit_upper [simp]: "n < 16 \<Longrightarrow> is_alnum (hex_digit_upper n)"
  by (auto simp: byte_simps byte_hex_digit_upper)

lemma parse_hex_byte: "b < 256 \<Longrightarrow> parse_hex 256 [hex_digit_upper (b div 16), hex_digit_upper (b mod 16)] = Some b"
proof -
  assume b: "b < 256"
  then have "b div 16 < 16" by auto
  moreover have "hex_digit_upper (b div 16) \<noteq> CHR ''+''"
    using byte_hex_digit_upper [OF calculation] by (auto split: if_splits)
  moreover have "b div 16 * 16 + b mod 16 = b" by simp
  ultimately show ?thesis using b by (simp add: parse_hex_def starts_with_def mult.commute)
qed

lemma second_ok_high: "second_ok b c \<Longrightarrow> 128 \<le> byte c"
  by (auto simp: second_ok_def is_cont_def split: if_splits)

text \<open>An ASCII byte is always a character of its own, so a valid string may be cut at one.\<close>

lemma utf8_valid_cut:
  "byte c < 128 \<Longrightarrow> utf8_valid (a @ c # b) \<longleftrightarrow> utf8_valid a \<and> utf8_valid b"
proof (induction a rule: utf8_valid.induct)
  case 1
  then show ?case by simp
next
  case (2 d s)
  consider "byte d < 128" | "194 \<le> byte d \<and> byte d < 224" | "224 \<le> byte d \<and> byte d < 240"
    | "240 \<le> byte d \<and> byte d < 245" | "128 \<le> byte d \<and> byte d < 194 \<or> 245 \<le> byte d"
    by linarith
  then show ?case
  proof cases
    case 1
    with 2 show ?thesis by simp
  next
    case 2
    then show ?thesis using "2.IH"(2) "2.prems"
      by (cases s) (auto simp: is_cont_def)
  next
    case 3
    then show ?thesis using "2.IH"(3) "2.prems"
      by (cases s; cases "tl s"; cases b) (auto simp: is_cont_def dest: second_ok_high)
  next
    case 4
    then show ?thesis using "2.IH"(4) "2.prems"
      by (cases s; cases "tl s"; cases "tl (tl s)"; cases b; cases "tl b")
        (auto simp: is_cont_def dest: second_ok_high)
  next
    case 5
    then show ?thesis by auto
  qed
qed

lemma utf8_valid_Cons_ascii [simp]: "byte c < 128 \<Longrightarrow> utf8_valid (c # s) = utf8_valid s"
  by simp

declare utf8_valid.simps(2) [simp del]

lemma utf8_valid_ascii: "list_all is_ascii s \<Longrightarrow> utf8_valid s"
  by (induction s) (auto simp: is_ascii_def)

lemma utf8_valid_ascii_append [simp]:
  "list_all is_ascii a \<Longrightarrow> utf8_valid (a @ s) = utf8_valid s"
  by (induction a) (auto simp: is_ascii_def)

subsection \<open>Lists and options\<close>

text \<open>\<open>unique_match\<close>-like scans and \<open>dedup\<close>: \<open>dedup_adj\<close> is \<open>Vec::dedup\<close>, which removes
  consecutive repetitions.\<close>

fun dedup_adj :: "'a list \<Rightarrow> 'a list" where
  "dedup_adj (x # y # xs) = (if x = y then dedup_adj (y # xs) else x # dedup_adj (y # xs))"
| "dedup_adj xs = xs"

lemma set_dedup_adj [simp]: "set (dedup_adj xs) = set xs"
  by (induction xs rule: dedup_adj.induct) auto

lemma dedup_adj_eq_Nil [simp]: "dedup_adj xs = [] \<longleftrightarrow> xs = []"
  by (metis set_dedup_adj set_empty)

lemma distinct_dedup_adj: "sorted (map f xs) \<Longrightarrow> inj_on f (set xs) \<Longrightarrow> distinct (dedup_adj xs)"
proof (induction xs rule: dedup_adj.induct)
  case (1 x y xs)
  have IH: "distinct (dedup_adj (y # xs))"
    using 1 by (cases "x = y") (auto simp: inj_on_def)
  show ?case
  proof (cases "x = y")
    case True
    with IH show ?thesis by simp
  next
    case False
    have "f x \<le> f y" "f x \<noteq> f y" using "1.prems" False by (auto simp: inj_on_def)
    then have lt: "f x < f y" by simp
    have "x \<notin> set (y # xs)"
    proof
      assume "x \<in> set (y # xs)"
      with False have "x \<in> set xs" by simp
      then have "f y \<le> f x" using "1.prems"(1) by auto
      with lt show False by simp
    qed
    with IH False show ?thesis by simp
  qed
qed auto

lemma dedup_adj_distinct: "distinct xs \<Longrightarrow> dedup_adj xs = xs"
  by (induction xs rule: dedup_adj.induct) auto

lemma sorted_dedup_adj: "sorted (map f xs) \<Longrightarrow> sorted (map f (dedup_adj xs))"
proof (induction xs rule: dedup_adj.induct)
  case (1 x y xs)
  then show ?case by (cases "x = y") auto
qed auto

lemma map_option_eq_None [simp]: "(map_option f x = None) = (x = None)"
  by simp

lemma dedup_adj_idem [simp]: "dedup_adj (dedup_adj xs) = dedup_adj xs"
proof (induction xs rule: dedup_adj.induct)
  case (1 x y xs)
  show ?case
  proof (cases "x = y")
    case False
    obtain z zs where z: "dedup_adj (y # xs) = z # zs" "z = y"
      by (induction xs arbitrary: y) (auto, metis dedup_adj.simps(1))
    with 1 False show ?thesis by simp
  qed (use 1 in simp)
qed auto

text \<open>\<open>[T]::join\<close>.\<close>

fun join_with :: "string \<Rightarrow> string list \<Rightarrow> string" where
  "join_with sep [] = []"
| "join_with sep [x] = x"
| "join_with sep (x # y # xs) = x @ sep @ join_with sep (y # xs)"

lemma find_Some_filter: "find P xs = Some x \<longleftrightarrow> (\<exists>ys. filter P xs = x # ys)"
  by (induction xs) auto

subsection \<open>Decimal numbers\<close>

text \<open>\<open>format!("{n}")\<close> of an unsigned integer, and \<open>format!("{n:02}")\<close>, which pads with zeros on the
  left up to a width.\<close>

fun dec :: "nat \<Rightarrow> string" where
  "dec n = (if n < 10 then [char_of (48 + n)] else dec (n div 10) @ [char_of (48 + n mod 10)])"

declare dec.simps [simp del]

definition dec_pad :: "nat \<Rightarrow> nat \<Rightarrow> string" where
  "dec_pad width n = replicate (width - length (dec n)) CHR ''0'' @ dec n"

definition digit_value :: "char \<Rightarrow> nat" where
  "digit_value c = byte c - 48"

text \<open>\<open>str::parse\<close> to an unsigned type with the values below \<open>bound\<close>: an optional \<open>+\<close>, then at least
  one decimal digit; overflow is an error.\<close>

definition parse_dec :: "nat \<Rightarrow> string \<Rightarrow> nat option" where
  "parse_dec bound s =
     (let ds = (if starts_with s ''+'' then drop 1 s else s);
          v = foldl (\<lambda>acc c. 10 * acc + digit_value c) 0 ds
      in if ds \<noteq> [] \<and> list_all is_digit ds \<and> v < bound then Some v else None)"

lemma byte_dec_digit: "n < 10 \<Longrightarrow> byte (char_of (48 + n)) = 48 + n"
  by (simp add: byte_char_of)

lemma dec_not_Nil [simp]: "dec n \<noteq> []"
  by (subst dec.simps) simp

lemma dec_digits: "list_all is_digit (dec n)"
proof (induction n rule: dec.induct)
  case (1 n)
  have "is_digit (char_of (48 + m))" if "m < 10" for m :: nat
    using that by (simp only: is_digit_def byte_dec_digit) simp
  with 1 show ?case by (subst dec.simps) auto
qed

lemma dec_pad_digits: "list_all is_digit (dec_pad w n)"
  using dec_digits [of n] by (auto simp: dec_pad_def list_all_iff) (simp_all add: byte_simps)

lemma dec_value: "foldl (\<lambda>acc c. 10 * acc + digit_value c) 0 (dec n) = n"
proof (induction n rule: dec.induct)
  case (1 n)
  then show ?case by (subst dec.simps) (simp add: digit_value_def byte_dec_digit)
qed

lemma dec_no_plus: "\<not> starts_with (dec n) ''+''"
proof
  assume "starts_with (dec n) ''+''"
  then have "CHR ''+'' \<in> set (dec n)" by (auto simp: starts_with_iff)
  then have "is_digit CHR ''+''" using dec_digits [of n] by (auto simp: list_all_iff)
  then show False by (simp add: byte_simps)
qed

lemma parse_dec_dec: "n < bound \<Longrightarrow> parse_dec bound (dec n) = Some n"
  by (simp add: parse_dec_def dec_no_plus dec_value dec_digits)

lemma dec_length: "n < 10 ^ k \<Longrightarrow> 0 < k \<Longrightarrow> length (dec n) \<le> k"
proof (induction k arbitrary: n)
  case (Suc k)
  show ?case
  proof (cases "n < 10")
    case False
    then have "0 < k" using Suc.prems by (cases k) auto
    moreover have "n div 10 < 10 ^ k" using Suc.prems by auto
    ultimately show ?thesis using Suc.IH [of "n div 10"] False by (subst dec.simps) simp
  qed (subst dec.simps, simp)
qed simp

subsection \<open>Ordered maps\<close>

text \<open>A \<open>BTreeMap\<close> with string keys is an association list in the order of its keys.\<close>

fun btree_insert :: "string \<Rightarrow> 'a \<Rightarrow> (string \<times> 'a) list \<Rightarrow> (string \<times> 'a) list" where
  "btree_insert k v [] = [(k, v)]"
| "btree_insert k v ((k', v') # m) =
     (if k = k' then (k, v) # m else if k < k' then (k, v) # (k', v') # m else (k', v') # btree_insert k v m)"

lemma btree_insert_keys: "set (map fst (btree_insert k v m)) = insert k (set (map fst m))"
  by (induction k v m rule: btree_insert.induct) auto

lemma map_of_btree_insert: "map_of (btree_insert k v m) = (map_of m)(k \<mapsto> v)"
  by (induction k v m rule: btree_insert.induct) (auto simp: fun_eq_iff)

definition ordered_keys :: "(string \<times> 'a) list \<Rightarrow> bool" where
  "ordered_keys m \<longleftrightarrow> sorted_wrt (<) (map fst m)"

lemma ordered_btree_insert: "ordered_keys m \<Longrightarrow> ordered_keys (btree_insert k v m)"
proof (induction k v m rule: btree_insert.induct)
  case (2 k v k' v' m)
  show ?case
  proof (cases "k < k' \<or> k = k'")
    case True
    with 2 show ?thesis by (auto simp: ordered_keys_def)
  next
    case False
    with 2 btree_insert_keys [of k v m] show ?thesis
      by (auto simp: ordered_keys_def simp del: set_map)
  qed
qed (simp add: ordered_keys_def)

lemma btree_insert_last: "(\<And>x. x \<in> set (map fst m) \<Longrightarrow> x < k) \<Longrightarrow> btree_insert k v m = m @ [(k, v)]"
  by (induction k v m rule: btree_insert.induct) (auto dest: less_not_sym)

lemma foldl_btree_insert:
  "ordered_keys (acc @ m) \<Longrightarrow> foldl (\<lambda>acc (k, x). btree_insert k x acc) acc m = acc @ m"
proof (induction m arbitrary: acc)
  case (Cons p m)
  obtain k x where p: "p = (k, x)" by (cases p)
  have "btree_insert k x acc = acc @ [(k, x)]"
    using Cons.prems by (intro btree_insert_last) (auto simp: ordered_keys_def sorted_wrt_append p)
  with Cons show ?case by (simp add: p)
qed simp

lemma ordered_foldl: "ordered_keys acc \<Longrightarrow> ordered_keys (foldl (\<lambda>acc (k, x). btree_insert k x acc) acc m)"
  by (induction m arbitrary: acc) (auto simp: ordered_btree_insert)

lemma ordered_distinct: "ordered_keys m \<Longrightarrow> distinct (map fst m)"
  by (auto simp: ordered_keys_def intro: strict_sorted_imp_sorted dest: strict_sorted_iff [THEN iffD1])

lemma ordered_map_eq:
  assumes "ordered_keys m" "ordered_keys m'" "map_of m = map_of m'"
  shows "m = m'"
proof -
  have own: "xs = map (\<lambda>k. (k, the (map_of xs k))) (map fst xs)" if "distinct (map fst xs)" for xs :: "(string \<times> 'a) list"
    using map_idI [of xs "\<lambda>p. (fst p, the (map_of xs (fst p)))"] that by (auto simp: o_def)
  have "set (map fst m) = set (map fst m')" using assms(3) by (metis dom_map_of_conv_image_fst list.set_map)
  then have "map fst m = map fst m'"
    using assms(1,2) by (metis ordered_keys_def strict_sorted_equal)
  then show ?thesis using own [OF ordered_distinct [OF assms(1)]] own [OF ordered_distinct [OF assms(2)]] assms(3) by metis
qed

subsection \<open>Fallible functions\<close>

text \<open>The operator \<open>?\<close>: an error returns at once, a value goes on.\<close>

definition and_then :: "'e + 'a \<Rightarrow> ('a \<Rightarrow> 'e + 'b) \<Rightarrow> 'e + 'b" where
  "and_then r k = (case r of Inl e \<Rightarrow> Inl e | Inr x \<Rightarrow> k x)"

lemma and_then_simps [simp]: "and_then (Inl e) k = Inl e" "and_then (Inr x) k = k x"
  by (simp_all add: and_then_def)

lemma and_then_Inr: "and_then r k = Inr y \<longleftrightarrow> (\<exists>x. r = Inr x \<and> k x = Inr y)"
  by (cases r) auto

lemma and_then_Inl: "and_then r k = Inl e \<longleftrightarrow> r = Inl e \<or> (\<exists>x. r = Inr x \<and> k x = Inl e)"
  by (cases r) auto

definition ok_or :: "'e \<Rightarrow> 'a option \<Rightarrow> 'e + 'a" where
  "ok_or e r = (case r of None \<Rightarrow> Inl e | Some x \<Rightarrow> Inr x)"

lemma ok_or_simps [simp]: "ok_or e None = Inl e" "ok_or e (Some x) = Inr x"
  by (simp_all add: ok_or_def)

lemma ok_or_Inr: "ok_or e r = Inr x \<longleftrightarrow> r = Some x"
  by (cases r) auto

definition map_err :: "('e \<Rightarrow> 'f) \<Rightarrow> 'e + 'a \<Rightarrow> 'f + 'a" where
  "map_err f r = map_sum f id r"

lemma map_err_Inr [simp]: "map_err f r = Inr x \<longleftrightarrow> r = Inr x"
  by (cases r) (auto simp: map_err_def)

lemma map_err_simps [simp]: "map_err f (Inl e) = Inl (f e)" "map_err f (Inr x) = Inr x"
  by (simp_all add: map_err_def)

end
