(* ===== verification/ReadOnlyGate.thy ===== *)
theory ReadOnlyGate
  imports Prelude
begin

text \<open>
  The lexical read-only gate of \<open>query_graph\<close>, \<open>src/query_handlers/read_only_gate.rs\<close>: masking of
  literals and comments, the keyword-token scan, the procedure allowlist of \<open>CALL\<close>, the
  one-statement check, and the verdict \<open>forbidden_cypher_keyword\<close>.

  The scanning loops of the source run an index over the bytes. Here a loop recurses on the bytes
  that are left, and \<open>skip_quoted\<close> and \<open>skip_block\<close> return how many bytes they consumed next to
  the rest, which is the index of the source relative to the start of the run.
\<close>

subsection \<open>Constants\<close>

definition FORBIDDEN_CYPHER_KEYWORDS :: "string list" where
  "FORBIDDEN_CYPHER_KEYWORDS =
     [''CREATE'', ''DELETE'', ''MERGE'', ''SET'', ''REMOVE'', ''DROP'', ''ALTER'', ''LOAD'', ''COPY'',
      ''EXPORT'', ''IMPORT'', ''ATTACH'', ''DETACH'', ''USE'']"

definition READ_ONLY_PROCEDURES :: "string list" where
  "READ_ONLY_PROCEDURES = [''TABLE_INFO'', ''SHOW_TABLES'']"

definition MASKED_TOKEN :: char where
  "MASKED_TOKEN = CHR 0x01"

definition is_ident_char :: "char \<Rightarrow> bool" where
  "is_ident_char b \<longleftrightarrow> is_alnum b \<or> b = CHR ''_''"

definition is_separator :: "char \<Rightarrow> bool" where
  "is_separator b \<longleftrightarrow> is_space b"

definition is_quote :: "char \<Rightarrow> bool" where
  "is_quote c \<longleftrightarrow> c = CHR 0x27 \<or> c = CHR 0x22 \<or> c = CHR 0x60"

subsection \<open>Masking\<close>

text \<open>\<open>skip_quoted q r\<close>: \<open>r\<close> is what follows the opening quote \<open>q\<close>. The result is the number of
  bytes up to and including the closing quote, and the bytes after it; \<open>None\<close> when the run is not
  closed. A backslash escapes the next byte, but not in a backticked identifier.\<close>

fun skip_quoted :: "char \<Rightarrow> string \<Rightarrow> (nat \<times> string) option" where
  "skip_quoted q [] = None"
| "skip_quoted q [c] = (if c = q then Some (1, []) else None)"
| "skip_quoted q (c # d # r) =
     (if c = CHR 0x5C \<and> q \<noteq> CHR 0x60
      then map_option (\<lambda>(n, r'). (n + 2, r')) (skip_quoted q r)
      else if c = q then Some (1, d # r)
      else map_option (\<lambda>(n, r'). (n + 1, r')) (skip_quoted q (d # r)))"

text \<open>The inner loop of a block comment, after its opening two bytes.\<close>

fun skip_block :: "string \<Rightarrow> (nat \<times> string) option" where
  "skip_block (c # d # r) =
     (if c = CHR ''*'' \<and> d = CHR ''/'' then Some (2, r)
      else map_option (\<lambda>(n, r'). (n + 1, r')) (skip_block (d # r)))"
| "skip_block _ = None"

lemma skip_quoted_length: "skip_quoted q s = Some (n, r) \<Longrightarrow> n + length r = length s \<and> 0 < n"
  by (induction q s arbitrary: n r rule: skip_quoted.induct) (auto split: if_splits)

lemma skip_block_length: "skip_block s = Some (n, r) \<Longrightarrow> n + length r = length s \<and> 0 < n"
  by (induction s arbitrary: n r rule: skip_block.induct) (auto split: if_splits)

function mask_bytes :: "string \<Rightarrow> string option" where
  "mask_bytes [] = Some []"
| "mask_bytes (c # s) =
     (if is_quote c then
        (case skip_quoted c s of
           None \<Rightarrow> None
         | Some (n, r) \<Rightarrow> map_option ((@) (replicate (Suc n) MASKED_TOKEN)) (mask_bytes r))
      else if c = CHR ''/'' \<and> starts_with s ''/'' then
        map_option ((@) (replicate (Suc (length (takeWhile (\<lambda>b. b \<noteq> CHR 0x0A) s))) CHR '' ''))
          (mask_bytes (dropWhile (\<lambda>b. b \<noteq> CHR 0x0A) s))
      else if c = CHR ''/'' \<and> starts_with s ''*'' then
        (case skip_block (drop 1 s) of
           None \<Rightarrow> None
         | Some (n, r) \<Rightarrow> map_option ((@) (replicate (n + 2) CHR '' '')) (mask_bytes r))
      else map_option ((#) c) (mask_bytes s))"
  by pat_completeness auto
termination
  by (relation "measure length")
    (auto simp: le_imp_less_Suc length_dropWhile_le dest!: skip_quoted_length skip_block_length)

text \<open>The final \<open>String::from_utf8(out).ok()\<close> included.\<close>

definition mask_non_executable :: "string \<Rightarrow> string option" where
  "mask_non_executable query = Option.bind (mask_bytes query) from_utf8"

subsection \<open>Keyword tokens\<close>

datatype IdentifierExemption = SigilOnly | SigilOrAlias

text \<open>The look-back of \<open>in_identifier_position\<close> reads the bytes before \<open>start\<close>, nearest first, past
  the separators; \<open>introducer\<close> is its decision on what it stops at.\<close>

definition introducer :: "IdentifierExemption \<Rightarrow> string \<Rightarrow> bool" where
  "introducer exemption before_token =
     (case before_token of
        [] \<Rightarrow> False
      | b1 # before \<Rightarrow>
          if b1 = CHR ''.'' \<or> b1 = CHR '':'' then True
          else if exemption = SigilOnly then False
          else (case before of
              [] \<Rightarrow> False
            | b2 # before' \<Rightarrow>
                to_lower b2 = CHR ''a'' \<and> to_lower b1 = CHR ''s''
                \<and> (before' = [] \<or> \<not> is_ident_char (hd before'))))"

definition in_identifier_position :: "string \<Rightarrow> nat \<Rightarrow> IdentifierExemption \<Rightarrow> bool" where
  "in_identifier_position bytes start exemption =
     introducer exemption (dropWhile is_separator (rev (take start bytes)))"

definition token_at :: "string \<Rightarrow> string \<Rightarrow> IdentifierExemption \<Rightarrow> nat \<Rightarrow> bool" where
  "token_at bytes needle exemption i \<longleftrightarrow>
     starts_with (drop i bytes) needle
     \<and> (i = 0 \<or> \<not> is_ident_char (bytes ! (i - 1)))
     \<and> (i + length needle = length bytes \<or> \<not> is_ident_char (bytes ! (i + length needle)))
     \<and> \<not> in_identifier_position bytes i exemption"

definition keyword_token_positions :: "string \<Rightarrow> string \<Rightarrow> IdentifierExemption \<Rightarrow> nat list" where
  "keyword_token_positions haystack needle exemption =
     (if needle = [] \<or> length haystack < length needle then []
      else filter (token_at haystack needle exemption) [0 ..< Suc (length haystack - length needle)])"

definition contains_keyword_token :: "string \<Rightarrow> string \<Rightarrow> bool" where
  "contains_keyword_token haystack needle \<longleftrightarrow> keyword_token_positions haystack needle SigilOnly \<noteq> []"

text \<open>\<open>from_utf8_lossy\<close> of identifier bytes is the bytes themselves, since they are ASCII.\<close>

definition procedure_name_at :: "string \<Rightarrow> nat \<Rightarrow> string" where
  "procedure_name_at bytes j = takeWhile is_ident_char (dropWhile is_space (drop j bytes))"

definition carries_unlisted_procedure :: "string \<Rightarrow> bool" where
  "carries_unlisted_procedure executable_upper \<longleftrightarrow>
     list_ex (\<lambda>start. procedure_name_at executable_upper (start + length ''CALL'')
                        \<notin> set READ_ONLY_PROCEDURES)
       (keyword_token_positions executable_upper ''CALL'' SigilOnly)"

subsection \<open>The verdicts\<close>

definition forbidden_cypher_keyword :: "string \<Rightarrow> string option" where
  "forbidden_cypher_keyword query =
     (case mask_non_executable query of
        None \<Rightarrow> Some ''UNTERMINATED_LITERAL''
      | Some executable \<Rightarrow>
          let upper = map to_upper executable in
          (case find (contains_keyword_token upper) FORBIDDEN_CYPHER_KEYWORDS of
             Some kw \<Rightarrow> Some kw
           | None \<Rightarrow> if carries_unlisted_procedure upper then Some ''CALL'' else None))"

definition is_multi_statement :: "string \<Rightarrow> bool" where
  "is_multi_statement query =
     (case mask_non_executable query of
        None \<Rightarrow> True
      | Some executable \<Rightarrow>
          (case split_once executable '';'' of
             Some (_, rest) \<Rightarrow> \<not> list_all is_whitespace (chars rest)
           | None \<Rightarrow> False))"

text \<open>\<open>query_handlers.rs\<close>: the clause detectors and the row bound that \<open>query_graph\<close> injects.\<close>

definition has_limit_clause :: "string \<Rightarrow> bool" where
  "has_limit_clause query \<longleftrightarrow>
     (let executable = (case mask_non_executable query of None \<Rightarrow> [] | Some e \<Rightarrow> e)
      in keyword_token_positions (map to_lower executable) ''limit'' SigilOrAlias \<noteq> [])"

definition has_order_by_clause :: "string \<Rightarrow> bool" where
  "has_order_by_clause query \<longleftrightarrow>
     (let executable = (case mask_non_executable query of None \<Rightarrow> [] | Some e \<Rightarrow> e);
          lower = map to_lower executable
      in list_ex (\<lambda>start.
           let after = drop (start + length ''order'') lower;
               had_ws = (after \<noteq> [] \<and> is_space (hd after));
               rest = dropWhile is_space after
           in had_ws \<and> starts_with rest ''by''
              \<and> (length rest \<le> length ''by'' \<or> \<not> is_ident_char (rest ! length ''by'')))
         (keyword_token_positions lower ''order'' SigilOrAlias))"

text \<open>The end index of \<open>executable_prefix\<close>: trailing separators go, then one \<open>;\<close>.\<close>

definition executable_end :: "string \<Rightarrow> nat" where
  "executable_end masked =
     (let tr = dropWhile is_separator (rev masked)
      in case tr of
           [] \<Rightarrow> 0
         | b # before \<Rightarrow> if b = CHR '';'' then length before else length tr)"

text \<open>\<open>str::get(..end)\<close>: \<open>None\<close> when the cut is not at a character boundary.\<close>

definition str_get_to :: "nat \<Rightarrow> string \<Rightarrow> string option" where
  "str_get_to k s =
     (if k \<le> length s \<and> (k = length s \<or> \<not> is_cont (s ! k)) then Some (take k s) else None)"

definition executable_prefix :: "string \<Rightarrow> string" where
  "executable_prefix query =
     (case mask_non_executable query of
        None \<Rightarrow> query
      | Some masked \<Rightarrow>
          (case str_get_to (executable_end masked) query of Some p \<Rightarrow> p | None \<Rightarrow> query))"

definition inject_limit_if_absent :: "string \<Rightarrow> nat \<Rightarrow> string \<times> bool" where
  "inject_limit_if_absent query limit =
     (if has_limit_clause query then (query, False)
      else (executable_prefix query @ [CHR 0x0A] @ ''LIMIT '' @ dec limit, True))"

subsection \<open>Masking: shape\<close>

lemma skip_quoted_split:
  "q \<noteq> CHR 0x5C \<Longrightarrow> skip_quoted q s = Some (n, r) \<Longrightarrow>
     \<exists>p. s = p @ r \<and> length p = n \<and> p \<noteq> [] \<and> last p = q
       \<and> (\<forall>r'. skip_quoted q (p @ r') = Some (n, r'))"
proof (induction q s arbitrary: n r rule: skip_quoted.induct)
  case (2 q c)
  then have "c = q" "n = 1" "r = []" by (auto split: if_splits)
  moreover have "skip_quoted q (q # r') = Some (1, r')" for r'
    using "2.prems"(1) by (cases r') auto
  ultimately show ?case by (intro exI [of _ "[c]"]) auto
next
  case (3 q c d rest)
  show ?case
  proof (cases "c = CHR 0x5C \<and> q \<noteq> CHR 0x60")
    case True
    with "3.prems" obtain n' where n': "n = n' + 2" "skip_quoted q rest = Some (n', r)" by auto
    from "3.IH"(1) [OF True "3.prems"(1) n'(2)] obtain p where
      "rest = p @ r" "length p = n'" "p \<noteq> []" "last p = q"
      "\<forall>r'. skip_quoted q (p @ r') = Some (n', r')" by auto
    with True n' show ?thesis by (intro exI [of _ "c # d # p"]) auto
  next
    case esc: False
    show ?thesis
    proof (cases "c = q")
      case True
      with esc "3.prems" have "n = 1" "r = d # rest" by (auto split: if_splits)
      moreover have "skip_quoted q (q # r') = Some (1, r')" for r'
        using esc True by (cases r') auto
      ultimately show ?thesis using True by (intro exI [of _ "[c]"]) auto
    next
      case False
      with esc "3.prems" obtain n' where n': "n = n' + 1" "skip_quoted q (d # rest) = Some (n', r)"
        by auto
      from "3.IH"(2) [OF esc False "3.prems"(1) n'(2)] obtain p where
        p: "d # rest = p @ r" "length p = n'" "p \<noteq> []" "last p = q"
          "\<forall>r'. skip_quoted q (p @ r') = Some (n', r')" by auto
      then obtain p' where p': "p = d # p'" by (cases p) auto
      with p esc False n' show ?thesis by (intro exI [of _ "c # p"]) auto
    qed
  qed
qed simp

lemma skip_block_split:
  "skip_block s = Some (n, r) \<Longrightarrow>
     \<exists>p. s = p @ r \<and> length p = n \<and> p \<noteq> [] \<and> last p = CHR ''/'' \<and> (\<forall>r'. skip_block (p @ r') = Some (n, r'))"
proof (induction s arbitrary: n r rule: skip_block.induct)
  case (1 c d rest)
  show ?case
  proof (cases "c = CHR ''*'' \<and> d = CHR ''/''")
    case True
    with "1.prems" show ?thesis by (intro exI [of _ "[c, d]"]) auto
  next
    case False
    with "1.prems" obtain n' where n': "n = n' + 1" "skip_block (d # rest) = Some (n', r)" by auto
    from "1.IH" [OF False n'(2)] obtain p where
      p: "d # rest = p @ r" "length p = n'" "last p = CHR ''/''" "\<forall>r'. skip_block (p @ r') = Some (n', r')" by auto
    have "0 < n'" using skip_block_length [OF n'(2)] by simp
    with p(2) obtain e p' where p': "p = e # p'" by (cases p) auto
    with p(1) have e: "e = d" by simp
    have "skip_block (c # p @ r') = Some (n, r')" for r'
    proof -
      have "skip_block (c # d # p' @ r') = map_option (\<lambda>(n, r'). (n + 1, r')) (skip_block (d # p' @ r'))"
        by (simp only: skip_block.simps(1) if_not_P [OF False])
      then show ?thesis using p(4) [rule_format, of r'] p' e n'(1) by simp
    qed
    with p p' n'(1) show ?thesis by (intro exI [of _ "c # p"]) auto
  qed
qed auto

text \<open>The masking as a relation: one rule per kind of region the loop meets.\<close>

inductive lexes :: "string \<Rightarrow> string \<Rightarrow> bool" where
  stop: "lexes [] []"
| plain: "\<not> is_quote c \<Longrightarrow> \<not> (c = CHR ''/'' \<and> (starts_with s ''/'' \<or> starts_with s ''*'')) \<Longrightarrow> lexes s m \<Longrightarrow>
     lexes (c # s) (c # m)"
| quoted: "is_quote c \<Longrightarrow> (\<And>r'. skip_quoted c (p @ r') = Some (length p, r')) \<Longrightarrow> p \<noteq> [] \<Longrightarrow> last p = c \<Longrightarrow> lexes r m \<Longrightarrow>
     lexes (c # p @ r) (replicate (Suc (length p)) MASKED_TOKEN @ m)"
| lcomment: "CHR 0x0A \<notin> set p \<Longrightarrow> r = [] \<or> hd r = CHR 0x0A \<Longrightarrow> lexes r m \<Longrightarrow>
     lexes (CHR ''/'' # CHR ''/'' # p @ r) (replicate (Suc (Suc (length p))) CHR '' '' @ m)"
| bcomment: "(\<And>r'. skip_block (p @ r') = Some (length p, r')) \<Longrightarrow> p \<noteq> [] \<Longrightarrow> last p = CHR ''/'' \<Longrightarrow> lexes r m \<Longrightarrow>
     lexes (CHR ''/'' # CHR ''*'' # p @ r) (replicate (Suc (Suc (length p))) CHR '' '' @ m)"

lemma mask_bytes_lexes: "mask_bytes q = Some m \<Longrightarrow> lexes q m"
proof (induction q arbitrary: m rule: mask_bytes.induct)
  case 1
  then show ?case by (simp add: lexes.stop)
next
  case (2 c s)
  show ?case
  proof (cases "is_quote c")
    case True
    then have bs: "c \<noteq> CHR 0x5C" by (auto simp: is_quote_def)
    from True "2.prems" obtain n r m' where sk: "skip_quoted c s = Some (n, r)"
      and m: "mask_bytes r = Some m'" "m = replicate (Suc n) MASKED_TOKEN @ m'"
      by (auto split: option.splits)
    from skip_quoted_split [OF bs sk] obtain p where
      p: "s = p @ r" "length p = n" "p \<noteq> []" "last p = c" "\<And>r'. skip_quoted c (p @ r') = Some (n, r')" by blast
    have "lexes r m'" using "2.IH"(1) [OF True sk _ m(1)] by simp
    then show ?thesis using lexes.quoted [OF True, of p r m'] p m by simp
  next
    case nq: False
    show ?thesis
    proof (cases "c = CHR ''/'' \<and> starts_with s ''/''")
      case True
      define body where "body = takeWhile (\<lambda>b. b \<noteq> CHR 0x0A) s"
      define r where "r = dropWhile (\<lambda>b. b \<noteq> CHR 0x0A) s"
      from True nq "2.prems" obtain m' where m: "mask_bytes r = Some m'"
        "m = replicate (Suc (length body)) CHR '' '' @ m'" by (auto simp: body_def r_def)
      have "lexes r m'" using "2.IH"(2) [OF nq True] m(1) by (simp add: r_def)
      moreover from True obtain s' where s': "s = CHR ''/'' # s'" by (auto simp: starts_with_iff)
      then obtain b' where b': "body = CHR ''/'' # b'" "CHR 0x0A \<notin> set b'"
        by (auto simp: body_def dest: set_takeWhileD)
      moreover have "s = body @ r" by (simp add: body_def r_def)
      moreover have "r = [] \<or> hd r = CHR 0x0A"
        unfolding r_def using hd_dropWhile [of "\<lambda>b. b \<noteq> CHR 0x0A" s] by auto
      ultimately show ?thesis using True m(2) lexes.lcomment [of b' r m'] by simp
    next
      case nl: False
      show ?thesis
      proof (cases "c = CHR ''/'' \<and> starts_with s ''*''")
        case True
        with nq nl "2.prems" obtain n r m' where sk: "skip_block (drop 1 s) = Some (n, r)"
          and m: "mask_bytes r = Some m'" "m = replicate (n + 2) CHR '' '' @ m'"
          by (auto split: option.splits)
        from skip_block_split [OF sk] obtain p where
          p: "drop 1 s = p @ r" "length p = n" "p \<noteq> []" "last p = CHR ''/''" "\<And>r'. skip_block (p @ r') = Some (n, r')" by blast
        have "lexes r m'" using "2.IH"(3) [OF nq nl True sk _ m(1)] by simp
        moreover have "s = CHR ''*'' # p @ r" using True p(1) by (auto simp: starts_with_iff)
        ultimately show ?thesis using True p m lexes.bcomment [of p r m'] by simp
      next
        case nb: False
        with nq nl "2.prems" obtain m' where m: "mask_bytes s = Some m'" "m = c # m'"
          by (auto split: if_splits)
        have "lexes s m'" using "2.IH"(4) [OF nq nl nb m(1)] .
        then show ?thesis unfolding m(2) using nq nl nb by (intro lexes.plain) auto
      qed
    qed
  qed
qed

lemma takeWhile_append_stop: "\<forall>x\<in>set p. P x \<Longrightarrow> r = [] \<or> \<not> P (hd r) \<Longrightarrow> takeWhile P (p @ r) = p \<and> dropWhile P (p @ r) = r"
  by (induction p) (cases r, auto)

lemma lexes_mask_bytes: "lexes q m \<Longrightarrow> mask_bytes q = Some m"
proof (induction rule: lexes.induct)
  case (quoted c p r m)
  then show ?case by simp
next
  case (lcomment p r m)
  have "takeWhile (\<lambda>b. b \<noteq> CHR 0x0A) (p @ r) = p \<and> dropWhile (\<lambda>b. b \<noteq> CHR 0x0A) (p @ r) = r"
    by (rule takeWhile_append_stop) (use lcomment in auto)
  with lcomment show ?case by (simp add: is_quote_def starts_with_def)
next
  case (bcomment p r m)
  then show ?case by (simp add: is_quote_def starts_with_def)
qed (auto simp: starts_with_def)

lemma lexes_iff: "lexes q m \<longleftrightarrow> mask_bytes q = Some m"
  using mask_bytes_lexes lexes_mask_bytes by blast

subsection \<open>Properties of the mask\<close>

lemma lexes_length: "lexes q m \<Longrightarrow> length m = length q"
  by (induction rule: lexes.induct) auto

lemma lexes_nth:
  "lexes q m \<Longrightarrow> i < length q \<Longrightarrow> m ! i = q ! i \<or> m ! i = CHR '' '' \<or> m ! i = MASKED_TOKEN"
proof (induction arbitrary: i rule: lexes.induct)
  case (plain c s m)
  then show ?case by (cases i) auto
next
  case (quoted c p r m)
  then show ?case by (cases "i < Suc (length p)") (auto simp: nth_append nth_Cons split: nat.splits)
next
  case (lcomment p r m)
  then show ?case
    by (cases "i < Suc (Suc (length p))") (auto simp: nth_append nth_Cons split: nat.splits)
next
  case (bcomment p r m)
  then show ?case
    by (cases "i < Suc (Suc (length p))") (auto simp: nth_append nth_Cons split: nat.splits)
qed simp

lemma is_quote_ascii: "is_quote c \<Longrightarrow> byte c < 128"
  by (auto simp: is_quote_def)

lemma utf8_valid_suffix:
  assumes "p \<noteq> []" "byte (last p) < 128" "utf8_valid (p @ r)" shows "utf8_valid r"
proof -
  have "utf8_valid (butlast p @ last p # r)" using assms(1,3) by (metis append_butlast_last_id append_Cons append_Nil append_assoc)
  then show ?thesis using utf8_valid_cut [OF assms(2)] by simp
qed

lemma utf8_valid_blanked:
  assumes "byte x < 128" "0 < k" shows "utf8_valid (a @ replicate k x @ m) \<longleftrightarrow> utf8_valid a \<and> utf8_valid m"
proof -
  obtain k' where k: "k = Suc k'" using assms(2) by (cases k) auto
  have "utf8_valid (replicate j x @ m) = utf8_valid m" for j
    by (induction j) (use assms(1) in auto)
  then show ?thesis using utf8_valid_cut [OF assms(1), of a "replicate k' x @ m"] k by simp
qed

lemma lexes_utf8: "lexes q m \<Longrightarrow> utf8_valid (a @ q) \<Longrightarrow> utf8_valid (a @ m)"
proof (induction arbitrary: a rule: lexes.induct)
  case (plain c s m)
  then show ?case using plain.IH [of "a @ [c]"] by simp
next
  case (quoted c p r m)
  from quoted.hyps(1) have c: "byte c < 128" by (rule is_quote_ascii)
  with quoted.prems have v: "utf8_valid a" "utf8_valid (p @ r)" by (simp_all add: utf8_valid_cut)
  with quoted.hyps c have "utf8_valid r" using utf8_valid_suffix [of p r] by simp
  then have "utf8_valid m" using quoted.IH [of "[]"] by simp
  with v show ?case
    using utf8_valid_blanked [of MASKED_TOKEN "Suc (length p)" a m] by (simp add: MASKED_TOKEN_def)
next
  case (lcomment p r m)
  then have v: "utf8_valid a" "utf8_valid (p @ r)" by (simp_all add: utf8_valid_cut)
  have "utf8_valid r"
  proof (cases r)
    case (Cons c r')
    with lcomment.hyps(2) have "c = CHR 0x0A" by simp
    with v(2) Cons show ?thesis by (simp add: utf8_valid_cut)
  qed simp
  then have "utf8_valid m" using lcomment.IH [of "[]"] by simp
  with v show ?case using utf8_valid_blanked [of "CHR '' ''" "Suc (Suc (length p))" a m] by simp
next
  case (bcomment p r m)
  then have v: "utf8_valid a" "utf8_valid (p @ r)" by (simp_all add: utf8_valid_cut)
  with bcomment.hyps have "utf8_valid r" using utf8_valid_suffix [of p r] by simp
  then have "utf8_valid m" using bcomment.IH [of "[]"] by simp
  with v show ?case using utf8_valid_blanked [of "CHR '' ''" "Suc (Suc (length p))" a m] by simp
qed simp

lemma mask_non_executable_eq: "utf8_valid q \<Longrightarrow> mask_non_executable q = mask_bytes q"
  using lexes_utf8 [of q _ "[]"]
  by (cases "mask_bytes q") (auto simp: mask_non_executable_def from_utf8_def lexes_iff)

lemma mask_non_executable_lexes: "mask_non_executable q = Some m \<Longrightarrow> lexes q m"
  by (auto simp: mask_non_executable_def from_utf8_def lexes_iff split: if_splits bind_splits)

subsection \<open>Cutting and extending a query at an executable position\<close>

text \<open>A position of the mask where a region cannot be cut in two.\<close>

definition region_boundary :: "string \<Rightarrow> nat \<Rightarrow> bool" where
  "region_boundary m i \<longleftrightarrow>
     i = 0 \<or> i = length m \<or> \<not> (m ! (i - 1) = m ! i \<and> (m ! i = CHR '' '' \<or> m ! i = MASKED_TOKEN))"

lemma region_boundary_blank:
  assumes "region_boundary (replicate k x @ m) i" "x = CHR '' '' \<or> x = MASKED_TOKEN" "0 < i"
    "i \<le> k + length m"
  shows "k \<le> i \<and> region_boundary m (i - k)"
proof -
  have "k \<le> i"
  proof (rule ccontr)
    assume "\<not> k \<le> i"
    then have "i < k" "i - 1 < k" by linarith+
    then have "(replicate k x @ m) ! i = x" "(replicate k x @ m) ! (i - 1) = x" "i < length (replicate k x @ m)"
      by (simp_all add: nth_append)
    then show False using assms by (auto simp: region_boundary_def)
  qed
  show ?thesis
  proof (cases "i = k \<or> i = k + length m")
    case True
    then show ?thesis by (auto simp: region_boundary_def)
  next
    case False
    with \<open>k \<le> i\<close> have "i - 1 = k + (i - k - 1)" "i = k + (i - k)" by simp_all
    then have "(replicate k x @ m) ! (i - 1) = m ! (i - k - 1)" "(replicate k x @ m) ! i = m ! (i - k)"
      by (metis length_replicate nth_append_length_plus)+
    with assms(1,3,4) False \<open>k \<le> i\<close> show ?thesis by (auto simp: region_boundary_def)
  qed
qed

lemma lexes_take: "lexes q m \<Longrightarrow> region_boundary m i \<Longrightarrow> i \<le> length m \<Longrightarrow> lexes (take i q) (take i m)"
proof (induction arbitrary: i rule: lexes.induct)
  case stop
  then show ?case by (simp add: lexes.stop)
next
  case (plain c s m)
  show ?case
  proof (cases i)
    case 0
    then show ?thesis by (simp add: lexes.stop)
  next
    case (Suc j)
    with plain.prems have "region_boundary m j" "j \<le> length m"
      by (auto simp: region_boundary_def nth_Cons split: nat.splits)
    then have "lexes (take j s) (take j m)" by (rule plain.IH)
    moreover have "\<not> (c = CHR ''/'' \<and> (starts_with (take j s) ''/'' \<or> starts_with (take j s) ''*''))"
      using plain.hyps(2) by (cases j; cases s) (auto simp: starts_with_def)
    ultimately show ?thesis using Suc plain.hyps(1) by (auto intro: lexes.plain)
  qed
next
  case (quoted c p r m)
  show ?case
  proof (cases "i = 0")
    case False
    with region_boundary_blank [OF quoted.prems(1)] quoted.prems(2) have i: "Suc (length p) \<le> i"
      "region_boundary m (i - Suc (length p))" by auto
    with quoted.prems have "lexes (take (i - Suc (length p)) r) (take (i - Suc (length p)) m)"
      by (intro quoted.IH) auto
    from lexes.quoted [OF quoted.hyps(1-4) this] show ?thesis using i(1)
      by (simp add: take_Cons' )
  qed (simp add: lexes.stop)
next
  case (lcomment p r m)
  show ?case
  proof (cases "i = 0")
    case False
    with region_boundary_blank [OF lcomment.prems(1)] lcomment.prems(2) have i: "Suc (Suc (length p)) \<le> i"
      "region_boundary m (i - Suc (Suc (length p)))" by auto
    let ?j = "i - Suc (Suc (length p))"
    from i lcomment.prems have "lexes (take ?j r) (take ?j m)" by (intro lcomment.IH) auto
    moreover have "take ?j r = [] \<or> hd (take ?j r) = CHR 0x0A"
      using lcomment.hyps(2) by (cases ?j; cases r) auto
    ultimately have "lexes (CHR ''/'' # CHR ''/'' # p @ take ?j r)
        (replicate (Suc (Suc (length p))) CHR '' '' @ take ?j m)"
      using lcomment.hyps(1) by (intro lexes.lcomment)
    then show ?thesis using i(1) by (simp add: take_Cons')
  qed (simp add: lexes.stop)
next
  case (bcomment p r m)
  show ?case
  proof (cases "i = 0")
    case False
    with region_boundary_blank [OF bcomment.prems(1)] bcomment.prems(2) have i: "Suc (Suc (length p)) \<le> i"
      "region_boundary m (i - Suc (Suc (length p)))" by auto
    let ?j = "i - Suc (Suc (length p))"
    from i bcomment.prems have "lexes (take ?j r) (take ?j m)" by (intro bcomment.IH) auto
    from lexes.bcomment [OF bcomment.hyps(1-3) this] show ?thesis using i(1)
      by (simp add: take_Cons')
  qed (simp add: lexes.stop)
qed

lemma lexes_newline: "lexes a ma \<Longrightarrow> lexes b mb \<Longrightarrow> hd b = CHR 0x0A \<Longrightarrow> b \<noteq> [] \<Longrightarrow> lexes (a @ b) (ma @ mb)"
proof (induction rule: lexes.induct)
  case (plain c s m)
  have "\<not> (c = CHR ''/'' \<and> (starts_with (s @ b) ''/'' \<or> starts_with (s @ b) ''*''))"
    using plain.hyps(2) plain.prems by (cases s; cases b) (auto simp: starts_with_def)
  with plain show ?case by (auto intro: lexes.plain)
next
  case (quoted c p r m)
  then show ?case using lexes.quoted [of c p "r @ b" "m @ mb"] by simp
next
  case (lcomment p r m)
  then have "r @ b = [] \<or> hd (r @ b) = CHR 0x0A" by (cases r) auto
  with lcomment show ?case using lexes.lcomment [of p "r @ b" "m @ mb"] by simp
next
  case (bcomment p r m)
  then show ?case using lexes.bcomment [of p "r @ b" "m @ mb"] by simp
qed simp

text \<open>The end of \<open>a\<close> is an executable position when a byte appended there is kept by the mask.\<close>

lemma mask_bytes_append:
  assumes "lexes (a @ [x]) (ma @ [x])" "is_ident_char x" "b \<noteq> []" "hd b \<noteq> CHR ''/''" "hd b \<noteq> CHR ''*''"
  shows "mask_bytes (a @ b) = map_option ((@) ma) (mask_bytes b)"
  using assms(1)
proof (induction "a @ [x]" "ma @ [x]" arbitrary: a ma rule: lexes.induct)
  case (plain c s m)
  have len: "length (a @ [x]) = length (ma @ [x])"
    using lexes_length lexes.plain [OF plain.hyps(1-3)] plain.hyps(5,6) by metis
  show ?case
  proof (cases a)
    case Nil
    then show ?thesis using len by (cases "mask_bytes b") simp_all
  next
    case (Cons c' a')
    with len obtain d ma' where ma: "ma = d # ma'" by (cases ma) auto
    with Cons plain.hyps(5,6) have eqs: "c' = c" "d = c" "s = a' @ [x]" "m = ma' @ [x]" by auto
    then have IH: "mask_bytes (a' @ b) = map_option ((@) ma') (mask_bytes b)"
      by (intro plain.hyps(4))
    have "\<not> (c = CHR ''/'' \<and> (starts_with (a' @ b) ''/'' \<or> starts_with (a' @ b) ''*''))"
      using plain.hyps(2) eqs(3) assms(3-5) by (cases a'; cases b) (auto simp: starts_with_def)
    with plain.hyps(1) IH show ?thesis unfolding Cons ma eqs(1,2)
      by (cases "mask_bytes b") auto
  qed
next
  case (quoted c p r m)
  have q: "x \<noteq> c" using quoted.hyps(1) assms(2) by (auto simp: is_quote_def is_ident_char_def byte_simps)
  have "r \<noteq> []" using quoted.hyps(3,4,7) q by (metis append_Nil2 last.simps last_append last_snoc append_is_Nil_conv not_Cons_self2)
  then obtain r' where r: "r = r' @ [x]" "a = c # p @ r'"
    using quoted.hyps(7) by (cases r rule: rev_cases) auto
  have "length m = length r" using quoted.hyps(5) by (rule lexes_length)
  with r quoted.hyps(8) obtain m' where m: "m = m' @ [x]" "ma = replicate (Suc (length p)) MASKED_TOKEN @ m'"
    by (cases m rule: rev_cases) auto
  have "mask_bytes (r' @ b) = map_option ((@) m') (mask_bytes b)" by (rule quoted.hyps(6) [OF r(1) m(1)])
  then show ?case using quoted.hyps(1,2) r(2) m(2) by (cases "mask_bytes b") auto
next
  case (lcomment p r m)
  have x: "x \<noteq> CHR 0x0A" "x \<noteq> CHR '' ''" using assms(2) by (auto simp: is_ident_char_def byte_simps)
  have len: "length m = length r" using lcomment.hyps(3) by (rule lexes_length)
  have "r \<noteq> []"
  proof
    assume "r = []"
    with len lcomment.hyps(6) have "ma @ [x] = replicate (Suc (Suc (length p))) CHR '' ''" by simp
    then have "x = CHR '' ''" by (metis in_set_conv_decomp in_set_replicate)
    with x show False by simp
  qed
  then obtain r' where r: "r = r' @ [x]" "a = CHR ''/'' # CHR ''/'' # p @ r'"
    using lcomment.hyps(5) by (cases r rule: rev_cases) auto
  with len lcomment.hyps(6) obtain m' where
    m: "m = m' @ [x]" "ma = replicate (Suc (Suc (length p))) CHR '' '' @ m'"
    by (cases m rule: rev_cases) auto
  have IH: "mask_bytes (r' @ b) = map_option ((@) m') (mask_bytes b)" by (rule lcomment.hyps(4) [OF r(1) m(1)])
  have "hd (r' @ b) = CHR 0x0A" using lcomment.hyps(2) r(1) x \<open>r \<noteq> []\<close> by (cases r') auto
  then have "takeWhile (\<lambda>b. b \<noteq> CHR 0x0A) (p @ r' @ b) = p \<and> dropWhile (\<lambda>b. b \<noteq> CHR 0x0A) (p @ r' @ b) = r' @ b"
    using lcomment.hyps(1) by (intro takeWhile_append_stop) auto
  then show ?case using IH r(2) m(2)
    by (cases "mask_bytes b") (auto simp: is_quote_def starts_with_def)
next
  case (bcomment p r m)
  have x: "x \<noteq> CHR ''/''" using assms(2) by (auto simp: is_ident_char_def byte_simps)
  have "r \<noteq> []" using bcomment.hyps(2,3,6) x
    by (metis append_Nil2 last.simps last_append last_snoc append_is_Nil_conv not_Cons_self2)
  then obtain r' where r: "r = r' @ [x]" "a = CHR ''/'' # CHR ''*'' # p @ r'"
    using bcomment.hyps(6) by (cases r rule: rev_cases) auto
  have "length m = length r" using bcomment.hyps(4) by (rule lexes_length)
  with r bcomment.hyps(7) obtain m' where
    m: "m = m' @ [x]" "ma = replicate (Suc (Suc (length p))) CHR '' '' @ m'"
    by (cases m rule: rev_cases) auto
  have "mask_bytes (r' @ b) = map_option ((@) m') (mask_bytes b)" by (rule bcomment.hyps(5) [OF r(1) m(1)])
  then show ?case using bcomment.hyps(1) r(2) m(2)
    by (cases "mask_bytes b") (auto simp: is_quote_def starts_with_def)
qed simp

lemma ident_not_quote: "is_ident_char c \<Longrightarrow> \<not> is_quote c \<and> c \<noteq> CHR ''/'' \<and> c \<noteq> CHR ''*''"
  by (auto simp: is_ident_char_def is_quote_def byte_simps)

lemma mask_bytes_ident:
  "list_all is_ident_char k \<Longrightarrow> mask_bytes (k @ r) = map_option ((@) k) (mask_bytes r)"
proof (induction k)
  case Nil
  then show ?case by (cases "mask_bytes r") simp_all
next
  case (Cons c k)
  then show ?case using ident_not_quote [of c] by (cases "mask_bytes r") auto
qed

lemma lexes_hd: "lexes r mr \<Longrightarrow> r = [] \<or> \<not> is_ident_char (hd r) \<Longrightarrow> mr = [] \<or> \<not> is_ident_char (hd mr)"
  by (erule lexes.cases) (auto simp: is_ident_char_def MASKED_TOKEN_def byte_simps)

lemma to_upper_ident [simp]: "is_ident_char (to_upper c) = is_ident_char c"
proof -
  have "\<not> is_upper (CHR ''_'')" "\<not> is_lower (CHR ''_'')" by (simp_all add: byte_simps)
  then show ?thesis using to_upper_eq_nonletter [of "CHR ''_''" c] by (auto simp: is_ident_char_def)
qed

lemma to_upper_separator [simp]: "is_separator (to_upper c) = is_separator c"
  by (auto simp: is_separator_def byte_to_upper byte_simps)

lemma to_upper_space [simp]: "is_space (to_upper c) = is_space c"
  using to_upper_separator [of c] by (simp add: is_separator_def)

lemma to_upper_sigil [simp]:
  "to_upper c = CHR ''.'' \<longleftrightarrow> c = CHR ''.''" "to_upper c = CHR '':'' \<longleftrightarrow> c = CHR '':''"
  by (simp_all add: to_upper_eq_nonletter byte_simps)

lemma introducer_upper: "introducer SigilOnly (map to_upper ds) = introducer SigilOnly ds"
  by (cases ds) (simp_all add: introducer_def)

lemma in_identifier_position_upper:
  "in_identifier_position (map to_upper a @ b) (length a) SigilOnly
     = in_identifier_position a (length a) SigilOnly"
proof -
  have dw: "dropWhile is_separator (map to_upper xs) = map to_upper (dropWhile is_separator xs)" for xs
    by (simp add: dropWhile_map comp_def)
  show ?thesis by (simp add: in_identifier_position_def rev_map dw introducer_upper)
qed

text \<open>A token that stands in the executable text is found by the scan, in either case fold.\<close>

lemma keyword_token_found_fold:
  assumes f: "\<And>c. is_ident_char (f c) = is_ident_char c"
    and "needle \<noteq> []" "map f k = needle"
    and "a = [] \<or> \<not> is_ident_char (last a)" "b = [] \<or> \<not> is_ident_char (hd b)"
    and pos: "\<not> in_identifier_position (map f (a @ k @ b)) (length a) ex"
  shows "length a \<in> set (keyword_token_positions (map f (a @ k @ b)) needle ex)"
proof -
  let ?u = "map f (a @ k @ b)"
  have u: "?u = map f a @ needle @ map f b" using assms(3) by auto
  have lenk: "length needle = length k" using assms(3) by auto
  have "starts_with (drop (length a) ?u) needle" unfolding u by simp
  moreover have "length a = 0 \<or> \<not> is_ident_char (?u ! (length a - 1))"
  proof (cases "a = []")
    case False
    then have "?u ! (length a - 1) = f (last a)" by (simp add: nth_append last_conv_nth)
    then show ?thesis using assms(4) False f by simp
  qed simp
  moreover have "length a + length needle = length ?u \<or> \<not> is_ident_char (?u ! (length a + length needle))"
  proof (cases b)
    case (Cons c b')
    from lenk have "?u ! (length a + length needle) = f c" unfolding Cons by (simp add: nth_append)
    then show ?thesis using assms(5) Cons f by simp
  qed (simp add: lenk)
  ultimately have "token_at ?u needle ex (length a)" using pos unfolding token_at_def by blast
  moreover have "length a \<le> length ?u - length needle" "length needle \<le> length ?u"
    unfolding u by simp_all
  ultimately show ?thesis using assms(2) unfolding keyword_token_positions_def
    by (simp del: upt_Suc)
qed

lemma keyword_token_found:
  assumes "needle \<noteq> []" "map to_upper k = needle"
    and "a = [] \<or> \<not> is_ident_char (last a)" "b = [] \<or> \<not> is_ident_char (hd b)"
    and "\<not> in_identifier_position a (length a) SigilOnly"
  shows "length a \<in> set (keyword_token_positions (map to_upper (a @ k @ b)) needle SigilOnly)"
proof (rule keyword_token_found_fold [OF to_upper_ident assms(1-4)])
  show "\<not> in_identifier_position (map to_upper (a @ k @ b)) (length a) SigilOnly"
    using assms(5) in_identifier_position_upper [of a "map to_upper (k @ b)"] by simp
qed

lemma forbidden_ident: "kw \<in> set FORBIDDEN_CYPHER_KEYWORDS \<Longrightarrow> kw \<noteq> [] \<and> list_all is_ident_char kw"
  by (auto simp: FORBIDDEN_CYPHER_KEYWORDS_def is_ident_char_def byte_simps)

lemma list_all_ident_upper: "list_all is_ident_char (map to_upper k) = list_all is_ident_char k"
  by (simp add: list_all_iff)

lemma executable_position_append:
  assumes "mask_bytes (p @ ''x'') = Some (mp @ ''x'')" "list_all is_ident_char k" "k \<noteq> []"
  shows "mask_bytes (p @ k @ r) = map_option ((@) (mp @ k)) (mask_bytes r)"
proof -
  have l: "lexes (p @ [CHR ''x'']) (mp @ [CHR ''x''])" using assms(1) by (simp add: lexes_iff)
  have "is_ident_char (CHR ''x'')" by (simp add: is_ident_char_def byte_simps)
  moreover have "hd (k @ r) \<noteq> CHR ''/'' \<and> hd (k @ r) \<noteq> CHR ''*''"
    using assms(2,3) ident_not_quote by (cases k) auto
  ultimately have "mask_bytes (p @ k @ r) = map_option ((@) mp) (mask_bytes (k @ r))"
    using mask_bytes_append [OF l] assms(3) by simp
  then show ?thesis by (cases "mask_bytes r") (simp_all add: mask_bytes_ident [OF assms(2)])
qed

lemma gate_sees_token:
  assumes pos: "mask_bytes (p @ ''x'') = Some (mp @ ''x'')"
    and k: "map to_upper k = needle" "needle \<noteq> []" "list_all is_ident_char k"
    and left: "mp = [] \<or> \<not> is_ident_char (last mp)"
    and sigil: "\<not> in_identifier_position mp (length mp) SigilOnly"
    and right: "r = [] \<or> \<not> is_ident_char (hd r)"
  shows "mask_non_executable (p @ k @ r) = None
    \<or> (\<exists>mr. mask_bytes r = Some mr \<and> mask_non_executable (p @ k @ r) = Some (mp @ k @ mr)
         \<and> length mp \<in> set (keyword_token_positions (map to_upper (mp @ k @ mr)) needle SigilOnly))"
proof (cases "mask_non_executable (p @ k @ r)")
  case (Some m)
  have "k \<noteq> []" using k by auto
  with Some executable_position_append [OF pos k(3)] obtain mr where
    mr: "mask_bytes r = Some mr" "m = mp @ k @ mr"
    by (auto simp: mask_non_executable_def from_utf8_def split: if_splits bind_splits)
  have "mr = [] \<or> \<not> is_ident_char (hd mr)" using lexes_hd [of r mr] mr(1) right by (simp add: lexes_iff)
  with keyword_token_found [OF k(2,1) left _ sigil, of mr] mr Some show ?thesis by auto
qed simp

text \<open>C9: a forbidden keyword that stands as a token in executable text is always refused. The end of
  \<open>p\<close> is an executable position when the mask keeps a letter put there; \<open>mp\<close> is the masked text
  before the token.\<close>

theorem gate_refuses_mutation:
  assumes "mask_bytes (p @ ''x'') = Some (mp @ ''x'')"
    and "map to_upper k \<in> set FORBIDDEN_CYPHER_KEYWORDS"
    and "mp = [] \<or> \<not> is_ident_char (last mp)"
    and "\<not> in_identifier_position mp (length mp) SigilOnly"
    and "r = [] \<or> \<not> is_ident_char (hd r)"
  shows "forbidden_cypher_keyword (p @ k @ r) \<noteq> None"
proof -
  let ?kw = "map to_upper k"
  have kw: "?kw \<noteq> []" "list_all is_ident_char k"
    using forbidden_ident [OF assms(2)] by (simp_all add: list_all_ident_upper)
  from gate_sees_token [OF assms(1) refl kw assms(3,4,5)] show ?thesis
  proof (elim disjE exE conjE)
    fix mr
    assume m: "mask_non_executable (p @ k @ r) = Some (mp @ k @ mr)"
      and "length mp \<in> set (keyword_token_positions (map to_upper (mp @ k @ mr)) ?kw SigilOnly)"
    then have "contains_keyword_token (map to_upper (mp @ k @ mr)) ?kw"
      by (auto simp: contains_keyword_token_def simp del: map_append)
    then have "find (contains_keyword_token (map to_upper (mp @ k @ mr))) FORBIDDEN_CYPHER_KEYWORDS \<noteq> None"
      using assms(2) by (auto simp: find_None_iff)
    then show ?thesis using m by (auto simp: forbidden_cypher_keyword_def Let_def split: option.splits)
  qed (simp add: forbidden_cypher_keyword_def)
qed

theorem gate_refuses_mutation_witness:
  "forbidden_cypher_keyword ''MATCH (n) WHERE n.x = 'set' DeLeTe n'' \<noteq> None"
proof -
  let ?p = "''MATCH (n) WHERE n.x = 'set' ''"
  let ?mp = "''MATCH (n) WHERE n.x = '' @ replicate 5 MASKED_TOKEN @ '' ''"
  have "forbidden_cypher_keyword (?p @ ''DeLeTe'' @ '' n'') \<noteq> None"
  proof (rule gate_refuses_mutation [of ?p ?mp])
    show "mask_bytes (?p @ ''x'') = Some (?mp @ ''x'')"
      by (simp add: is_quote_def starts_with_def MASKED_TOKEN_def eval_nat_numeral)
    show "map to_upper ''DeLeTe'' \<in> set FORBIDDEN_CYPHER_KEYWORDS"
      by (simp add: FORBIDDEN_CYPHER_KEYWORDS_def to_upper_def byte_simps)
    show "\<not> in_identifier_position ?mp (length ?mp) SigilOnly"
      by (simp add: in_identifier_position_def introducer_def is_separator_def MASKED_TOKEN_def byte_simps eval_nat_numeral)
  qed (simp_all add: is_ident_char_def byte_simps)
  then show ?thesis by simp
qed

subsection \<open>The procedure allowlist\<close>

lemma takeWhile_map_ident: "takeWhile is_ident_char (map to_upper xs) = map to_upper (takeWhile is_ident_char xs)"
  by (simp add: takeWhile_map comp_def)

lemma dropWhile_map_space: "dropWhile is_space (map to_upper xs) = map to_upper (dropWhile is_space xs)"
  by (simp add: dropWhile_map comp_def)

text \<open>A \<open>CALL\<close> in executable text that names a procedure outside the allowlist, or none, is
  refused, so the engine's read-only classification of \<open>CALL\<close> is never the only barrier.\<close>

theorem gate_refuses_unlisted_call:
  assumes "mask_bytes (p @ ''x'') = Some (mp @ ''x'')"
    and "map to_upper k = ''CALL''"
    and "mp = [] \<or> \<not> is_ident_char (last mp)"
    and "\<not> in_identifier_position mp (length mp) SigilOnly"
    and "r = [] \<or> \<not> is_ident_char (hd r)"
    and "mask_bytes r = Some mr"
    and "map to_upper (procedure_name_at mr 0) \<notin> set READ_ONLY_PROCEDURES"
  shows "forbidden_cypher_keyword (p @ k @ r) \<noteq> None"
proof -
  have "list_all is_ident_char (map to_upper k)" unfolding assms(2) by (simp add: is_ident_char_def byte_simps)
  then have k: "list_all is_ident_char k" by (simp only: list_all_ident_upper)
  have ne: "''CALL'' \<noteq> []" by simp
  from gate_sees_token [OF assms(1,2) ne k assms(3-5)] show ?thesis
  proof (elim disjE exE conjE)
    fix mr' assume "mask_bytes r = Some mr'" and m: "mask_non_executable (p @ k @ r) = Some (mp @ k @ mr')"
      and pos: "length mp \<in> set (keyword_token_positions (map to_upper (mp @ k @ mr')) ''CALL'' SigilOnly)"
    then have mr': "mr' = mr" using assms(6) by simp
    let ?u = "map to_upper (mp @ k @ mr)"
    have "drop (length mp + length ''CALL'') ?u = map to_upper mr"
      using arg_cong [OF assms(2), of length] by simp
    then have "procedure_name_at ?u (length mp + length ''CALL'') = map to_upper (procedure_name_at mr 0)"
      by (simp add: procedure_name_at_def takeWhile_map_ident dropWhile_map_space del: map_append)
    then have "carries_unlisted_procedure ?u"
      using assms(7) pos unfolding mr' carries_unlisted_procedure_def list_ex_iff by metis
    then show ?thesis using m mr' by (auto simp: forbidden_cypher_keyword_def Let_def split: option.splits)
  qed (simp_all add: forbidden_cypher_keyword_def)
qed

theorem gate_refuses_unlisted_call_witness:
  "forbidden_cypher_keyword ''WITH 1 AS x CALL threads = 8'' \<noteq> None"
proof -
  let ?p = "''WITH 1 AS x ''"
  have "forbidden_cypher_keyword (?p @ ''CALL'' @ '' threads = 8'') \<noteq> None"
  proof (rule gate_refuses_unlisted_call [of ?p ?p])
    show "mask_bytes (?p @ ''x'') = Some (?p @ ''x'')" "mask_bytes '' threads = 8'' = Some '' threads = 8''"
      by (simp_all add: is_quote_def)
    show "map to_upper ''CALL'' = ''CALL''" by (simp add: to_upper_def byte_simps)
    show "\<not> in_identifier_position ?p (length ?p) SigilOnly"
      by (simp add: in_identifier_position_def introducer_def is_separator_def byte_simps)
    show "map to_upper (procedure_name_at '' threads = 8'' 0) \<notin> set READ_ONLY_PROCEDURES"
      by (simp add: procedure_name_at_def READ_ONLY_PROCEDURES_def is_ident_char_def to_upper_def byte_simps)
  qed (simp_all add: is_ident_char_def byte_simps)
  then show ?thesis by simp
qed

subsection \<open>Literals are opaque\<close>

lemma skip_quoted_literal:
  "q \<notin> set lit \<Longrightarrow> CHR 0x5C \<notin> set lit \<Longrightarrow> q \<noteq> CHR 0x5C \<Longrightarrow> skip_quoted q (lit @ q # r) = Some (Suc (length lit), r)"
proof (induction lit)
  case Nil
  then show ?case by (cases r) auto
next
  case (Cons c lit)
  then show ?case by (cases "lit @ q # r") auto
qed

lemma mask_bytes_literal:
  assumes "is_quote q" "q \<notin> set lit" "CHR 0x5C \<notin> set lit"
  shows "mask_bytes (q # lit @ q # r) = map_option ((@) (replicate (length lit + 2) MASKED_TOKEN)) (mask_bytes r)"
proof -
  have "q \<noteq> CHR 0x5C" using assms(1) by (auto simp: is_quote_def)
  with assms show ?thesis by (simp add: skip_quoted_literal)
qed

text \<open>What a string literal or a backticked identifier holds never changes the verdict, so a
  lookup by the name \<open>'load'\<close> is judged as a lookup by any other name of that length.\<close>

theorem gate_ignores_literal_text:
  assumes "mask_bytes (p @ ''x'') = Some (mp @ ''x'')" "is_quote q"
    and "q \<notin> set lit1" "CHR 0x5C \<notin> set lit1" "q \<notin> set lit2" "CHR 0x5C \<notin> set lit2"
    and "length lit1 = length lit2"
    and "utf8_valid (p @ q # lit1 @ q # r)" "utf8_valid (p @ q # lit2 @ q # r)"
  shows "forbidden_cypher_keyword (p @ q # lit1 @ q # r) = forbidden_cypher_keyword (p @ q # lit2 @ q # r)"
proof -
  have l: "lexes (p @ [CHR ''x'']) (mp @ [CHR ''x''])" using assms(1) by (simp add: lexes_iff)
  have x: "is_ident_char (CHR ''x'')" by (simp add: is_ident_char_def byte_simps)
  have "mask_bytes (p @ q # lit @ q # r) = map_option ((@) mp) (mask_bytes (q # lit @ q # r))" for lit
    using mask_bytes_append [OF l x, of "q # lit @ q # r"] assms(2) by (auto simp: is_quote_def)
  then have "mask_bytes (p @ q # lit1 @ q # r) = mask_bytes (p @ q # lit2 @ q # r)"
    using assms(2-7) by (simp add: mask_bytes_literal del: mask_bytes.simps)
  then have "mask_non_executable (p @ q # lit1 @ q # r) = mask_non_executable (p @ q # lit2 @ q # r)"
    using assms(8,9) by (simp add: mask_non_executable_eq)
  then show ?thesis by (simp add: forbidden_cypher_keyword_def)
qed

theorem gate_ignores_literal_text_witness:
  "forbidden_cypher_keyword ''RETURN 'load' AS n'' = forbidden_cypher_keyword ''RETURN 'area' AS n''"
  using gate_ignores_literal_text [of "''RETURN ''" "''RETURN ''" "CHR 0x27" "''load''" "''area''" "'' AS n''"]
  by (simp add: is_quote_def)

subsection \<open>The injected row bound\<close>

lemma to_lower_ident [simp]: "is_ident_char (to_lower c) = is_ident_char c"
proof -
  have "is_alnum (to_lower c) = is_alnum c" by (auto simp: byte_to_lower byte_simps)
  moreover have "to_lower c = CHR ''_'' \<longleftrightarrow> c = CHR ''_''"
    using byte_to_lower [of c] by (auto simp: byte_eq_iff [symmetric] byte_simps)
  ultimately show ?thesis by (simp add: is_ident_char_def)
qed

lemma to_lower_separator [simp]: "is_separator (to_lower c) = is_separator c"
  by (auto simp: is_separator_def byte_to_lower byte_simps)

lemma to_lower_sigil [simp]:
  "to_lower c = CHR ''.'' \<longleftrightarrow> c = CHR ''.''" "to_lower c = CHR '':'' \<longleftrightarrow> c = CHR '':''"
  using byte_to_lower [of c] by (auto simp: byte_eq_iff [symmetric] byte_simps)

lemma to_lower_idem [simp]: "to_lower (to_lower c) = to_lower c"
proof -
  have "\<not> is_upper (to_lower c)" by (auto simp: byte_to_lower byte_simps)
  then show ?thesis by (simp add: to_lower_def [of "to_lower c"])
qed

lemma introducer_lower: "introducer ex (map to_lower ds) = introducer ex ds"
  by (cases ds; cases "tl ds"; cases "tl (tl ds)") (simp_all add: introducer_def)

lemma in_identifier_position_lower:
  "in_identifier_position (map to_lower a @ b) (length a) ex = in_identifier_position a (length a) ex"
proof -
  have dw: "dropWhile is_separator (map to_lower xs) = map to_lower (dropWhile is_separator xs)" for xs
    by (simp add: dropWhile_map comp_def)
  show ?thesis by (simp add: in_identifier_position_def rev_map dw introducer_lower)
qed

text \<open>The prefix the limit is appended to lexes to a prefix of the mask, up to separators.\<close>

lemma dropWhile_rev_take:
  assumes "dropWhile P (rev m) = b # before"
  shows "take (length before) m = rev before" "take (Suc (length before)) m = rev before @ [b]"
    "length before < length m" "\<forall>i. length before < i \<and> i < length m \<longrightarrow> P (m ! i)" "m ! length before = b"
proof -
  have "rev m = takeWhile P (rev m) @ b # before" using assms takeWhile_dropWhile_id [of P "rev m"] by simp
  then have m: "m = rev before @ b # rev (takeWhile P (rev m))" by (metis rev_append rev_rev_ident rev.simps(2) append.assoc append_Cons append_Nil)
  show "take (length before) m = rev before" "take (Suc (length before)) m = rev before @ [b]"
    "length before < length m" "m ! length before = b"
    by (subst m, simp add: nth_append)+
  show "\<forall>i. length before < i \<and> i < length m \<longrightarrow> P (m ! i)"
  proof (intro allI impI)
    fix i assume i: "length before < i \<and> i < length m"
    let ?t = "rev (takeWhile P (rev m))"
    have "m ! i = ?t ! (i - Suc (length before))" using i by (subst m) (simp add: nth_append nth_Cons')
    moreover have "length m = length before + Suc (length ?t)" by (subst m) simp
    then have "i - Suc (length before) < length ?t" using i by arith
    ultimately have "m ! i \<in> set (takeWhile P (rev m))" by (metis nth_mem set_rev)
    then show "P (m ! i)" by (rule set_takeWhileD [THEN conjunct2])
  qed
qed

lemma executable_end_eq:
  "dropWhile is_separator (rev m) = tr \<Longrightarrow>
    executable_end m = (case tr of [] \<Rightarrow> 0 | b # before \<Rightarrow> if b = CHR '';'' then length before else Suc (length before))"
  by (auto simp: executable_end_def Let_def split: list.split)

lemma executable_end_boundary: "region_boundary m (executable_end m) \<and> executable_end m \<le> length m"
proof (cases "dropWhile is_separator (rev m)")
  case Nil
  then show ?thesis using executable_end_eq [OF Nil] by (simp add: region_boundary_def)
next
  case (Cons b before)
  note d = dropWhile_rev_take [OF Cons]
  have nsep: "\<not> is_separator b" using Cons hd_dropWhile [of is_separator "rev m"] by simp
  show ?thesis
  proof (cases "b = CHR '';''")
    case True
    then have e: "executable_end m = length before" using executable_end_eq [OF Cons] by simp
    then show ?thesis using d(3,5) True by (simp add: region_boundary_def MASKED_TOKEN_def)
  next
    case False
    then have e: "executable_end m = Suc (length before)" using executable_end_eq [OF Cons] by simp
    have "region_boundary m (Suc (length before))"
    proof (cases "Suc (length before) = length m")
      case nl: False
      with d(3,4) have "is_separator (m ! Suc (length before))" by simp
      with nsep d(5) show ?thesis by (auto simp: region_boundary_def)
    qed (simp add: region_boundary_def)
    with e d(3) show ?thesis by simp
  qed
qed

lemma executable_prefix_lexes:
  assumes "mask_non_executable q = Some m"
  shows "\<exists>mp. lexes (executable_prefix q) mp \<and> (mp = m \<or> mp = take (executable_end m) m)"
  using assms executable_end_boundary [of m] lexes_take [of q m "executable_end m"]
    mask_non_executable_lexes [OF assms]
  by (auto simp: executable_prefix_def str_get_to_def)

text \<open>Neither cut changes what the look-back of an appended clause sees, except that it may see the \<open>;\<close>.\<close>

lemma in_identifier_position_end:
  assumes "\<not> in_identifier_position (take (executable_end m) m) (executable_end m) ex"
    and "mp = m \<or> mp = take (executable_end m) m"
  shows "\<not> in_identifier_position (mp @ [CHR 0x0A]) (Suc (length mp)) ex"
proof -
  have sep: "in_identifier_position (mp @ [CHR 0x0A]) (Suc (length mp)) ex = introducer ex (dropWhile is_separator (rev mp))"
    by (simp add: in_identifier_position_def is_separator_def byte_simps)
  have lenE: "executable_end m \<le> length m" using executable_end_boundary by blast
  have pre: "\<not> introducer ex (dropWhile is_separator (rev (take (executable_end m) m)))"
    using assms(1) by (simp add: in_identifier_position_def lenE min_def)
  have "\<not> introducer ex (dropWhile is_separator (rev m))"
  proof (cases "dropWhile is_separator (rev m)")
    case Nil
    then show ?thesis by (simp only: Nil) (simp add: introducer_def)
  next
    case (Cons b before)
    show ?thesis
    proof (cases "b = CHR '';''")
      case True
      have "to_lower (CHR '';'') \<noteq> CHR ''s''" by (simp add: to_lower_def byte_simps)
      then have "\<not> introducer ex (CHR '';'' # before)" by (auto simp: introducer_def split: list.splits)
      then show ?thesis unfolding Cons True .
    next
      case False
      then have e: "executable_end m = Suc (length before)" using executable_end_eq [OF Cons] by simp
      have "\<not> is_separator b" using hd_dropWhile [of is_separator "rev m"] unfolding Cons by simp
      then have "dropWhile is_separator (rev (take (executable_end m) m)) = b # before"
        using dropWhile_rev_take(2) [OF Cons] e by simp
      with pre show ?thesis unfolding Cons by simp
    qed
  qed
  with pre show ?thesis using assms(2) sep by auto
qed

text \<open>The query that \<open>inject_limit_if_absent\<close> returns declares a \<open>LIMIT\<close>, wherever the comments
  and literals of the original stand, unless the original stops after a sigil or \<open>AS\<close>.\<close>

theorem injected_query_declares_limit:
  assumes "mask_non_executable q = Some m" "utf8_valid q"
    and "\<not> in_identifier_position (take (executable_end m) m) (executable_end m) SigilOrAlias"
  shows "has_limit_clause (fst (inject_limit_if_absent q limit))"
proof (cases "has_limit_clause q")
  case False
  let ?t = "CHR 0x0A # ''LIMIT '' @ dec limit"
  obtain mp where mp: "lexes (executable_prefix q) mp" "mp = m \<or> mp = take (executable_end m) m"
    using executable_prefix_lexes [OF assms(1)] by blast
  have dec: "list_all is_ident_char (dec limit)" using dec_digits [of limit] by (auto simp: list_all_iff is_ident_char_def is_alnum_def)
  have "mask_bytes (''LIMIT'' @ '' '' @ dec limit @ []) = Some (''LIMIT'' @ '' '' @ dec limit @ [])"
    using mask_bytes_ident [OF dec, of "[]"] by (simp add: is_quote_def)
  then have t: "lexes ?t ?t" by (simp add: lexes_iff is_quote_def)
  have l: "lexes (executable_prefix q @ ?t) (mp @ ?t)" using lexes_newline [OF mp(1) t] by simp
  have "from_utf8 (mp @ ?t) = Some (mp @ ?t)"
  proof -
    have "utf8_valid m" using lexes_utf8 [of q m "[]"] mask_non_executable_lexes [OF assms(1)] assms(2) by simp
    then have "utf8_valid mp"
    proof (cases "mp = m")
      case False
      with mp(2) have e: "mp = take (executable_end m) m" by simp
      show ?thesis
      proof (cases "executable_end m = length m")
        case True
        with e \<open>utf8_valid m\<close> show ?thesis by simp
      next
        case False
        define c where "c = m ! executable_end m"
        have "executable_end m < length m" using False executable_end_boundary [of m] by simp
        moreover from this have "is_separator c \<or> c = CHR '';''"
        proof (cases "dropWhile is_separator (rev m)")
          case Nil
          then have "set m \<subseteq> Collect is_separator" by (auto simp: dropWhile_eq_Nil_conv)
          then show ?thesis unfolding c_def using calculation nth_mem by blast
        next
          case (Cons b before)
          then show ?thesis unfolding c_def
            using executable_end_eq [OF Cons] dropWhile_rev_take(4,5) [OF Cons] calculation
            by (cases "b = CHR '';''") auto
        qed
        then have "byte c < 128" by (auto simp: is_separator_def byte_simps)
        ultimately show ?thesis using \<open>utf8_valid m\<close> id_take_nth_drop [of "executable_end m" m]
            utf8_valid_cut [of c "take (executable_end m) m"] e c_def by metis
      qed
    qed simp
    moreover have "list_all is_ascii ?t" using dec_digits [of limit] by (auto simp: list_all_iff byte_simps)
    then have "utf8_valid ?t" by (rule utf8_valid_ascii)
    ultimately have "utf8_valid (mp @ ?t)" using utf8_valid_cut [of "CHR 0x0A" mp "''LIMIT '' @ dec limit"] by simp
    then show ?thesis by (simp add: from_utf8_def)
  qed
  with l have mask: "mask_non_executable (executable_prefix q @ ?t) = Some (mp @ ?t)"
    by (simp add: mask_non_executable_def lexes_iff)
  let ?a = "mp @ [CHR 0x0A]"
  have "length ?a \<in> set (keyword_token_positions (map to_lower (?a @ ''LIMIT'' @ '' '' @ dec limit)) ''limit'' SigilOrAlias)"
  proof (rule keyword_token_found_fold [OF to_lower_ident])
    show "map to_lower ''LIMIT'' = ''limit''" by (simp add: to_lower_def byte_simps)
    show "\<not> in_identifier_position (map to_lower (?a @ ''LIMIT'' @ '' '' @ dec limit)) (length ?a) SigilOrAlias"
      using in_identifier_position_end [OF assms(3) mp(2)]
        in_identifier_position_lower [of ?a "map to_lower (''LIMIT'' @ '' '' @ dec limit)" SigilOrAlias] 
        in_identifier_position_lower [of ?a "[]" SigilOrAlias] by (simp add: in_identifier_position_def)
  qed (simp_all add: is_ident_char_def byte_simps)
  then have "keyword_token_positions (map to_lower (mp @ ?t)) ''limit'' SigilOrAlias \<noteq> []" by auto
  with mask False show ?thesis by (simp add: has_limit_clause_def inject_limit_if_absent_def)
qed (simp add: inject_limit_if_absent_def)

theorem injected_query_declares_limit_witness:
  "has_limit_clause (fst (inject_limit_if_absent ''RETURN n // LIMIT 5'' 500))"
proof -
  let ?q = "''RETURN n // LIMIT 5''"
  let ?m = "''RETURN n '' @ replicate 10 (CHR '' '')"
  have m: "mask_non_executable ?q = Some ?m"
    by (simp add: mask_non_executable_def from_utf8_def is_quote_def starts_with_def eval_nat_numeral)
  have e: "executable_end ?m = 8"
    by (simp add: executable_end_def is_separator_def byte_simps eval_nat_numeral)
  show ?thesis
  proof (rule injected_query_declares_limit [OF m])
    show "\<not> in_identifier_position (take (executable_end ?m) ?m) (executable_end ?m) SigilOrAlias"
      unfolding e by (simp add: in_identifier_position_def introducer_def is_separator_def to_lower_def byte_simps eval_nat_numeral)
  qed (simp_all add: byte_simps)
qed

text \<open>The mask keeps the length of the query, keeps or blanks each byte, and stays valid UTF-8, so
  the conversion at the end of \<open>mask_non_executable\<close> never fails.\<close>

theorem mask_preserves_positions:
  assumes "utf8_valid q" "mask_bytes q = Some m"
  shows "mask_non_executable q = Some m \<and> length m = length q
    \<and> (\<forall>i < length q. m ! i = q ! i \<or> m ! i = CHR '' '' \<or> m ! i = MASKED_TOKEN)"
  using assms lexes_length [of q m] lexes_nth [of q m] mask_non_executable_eq [OF assms(1)]
  by (simp add: lexes_iff)

theorem mask_preserves_positions_witness:
  "mask_non_executable ''a/**/b'' = Some ''a    b''"
  using mask_preserves_positions [of "''a/**/b''" "''a    b''"]
  by (simp add: is_quote_def starts_with_def eval_nat_numeral)

end
