(* ===== verification/CfgLex.thy ===== *)
theory CfgLex
  imports Prelude
begin

text \<open>
  The lexer of a \<open>#[cfg(...)]\<close> argument list, \<open>src/parser/cfg_lex.rs\<close>: comment removal with nested
  block comments, string literals with Rust's escapes, and the token stream.

  \<open>without_comments\<close> compares only ASCII characters and copies the others, so it runs on bytes. The
  tokenizer asks \<open>char::is_alphanumeric\<close>, so it runs on characters: \<open>alnum\<close> is that predicate of the
  standard library on the characters outside ASCII, a parameter of the definitions that use it.
\<close>

subsection \<open>Comments\<close>

text \<open>The flag is \<open>escaped\<close>; the result is what is copied and what is left.\<close>

fun copy_string_rest :: "bool \<Rightarrow> string \<Rightarrow> string \<times> string" where
  "copy_string_rest escaped [] = ([], [])"
| "copy_string_rest escaped (c # s) =
     (if escaped then map_prod ((#) c) id (copy_string_rest False s)
      else if c = CHR 0x5C then map_prod ((#) c) id (copy_string_rest True s)
      else if c = CHR 0x22 then ([c], s)
      else map_prod ((#) c) id (copy_string_rest False s))"

text \<open>The nesting depth is a 32-bit counter in the source; two billion open comments are out of reach.\<close>

fun skip_block_comment :: "nat \<Rightarrow> string \<Rightarrow> string" where
  "skip_block_comment depth (c # d # r) =
     (if c = CHR ''/'' \<and> d = CHR ''*'' then skip_block_comment (depth + 1) r
      else if c = CHR ''*'' \<and> d = CHR ''/'' then
        (if depth - 1 = 0 then r else skip_block_comment (depth - 1) r)
      else skip_block_comment depth (d # r))"
| "skip_block_comment depth _ = []"

lemma copy_string_rest_append: "copy_string_rest e s = (a, r) \<Longrightarrow> s = a @ r"
  by (induction e s arbitrary: a r rule: copy_string_rest.induct)
    (auto split: if_splits simp: prod_eq_iff map_prod_def split_beta)

lemma skip_block_comment_length: "length (skip_block_comment n s) \<le> length s"
  by (induction n s rule: skip_block_comment.induct) auto

function without_comments :: "string \<Rightarrow> string" where
  "without_comments [] = []"
| "without_comments (c # s) =
     (if c = CHR 0x22 then
        (case copy_string_rest False s of (body, r) \<Rightarrow> c # body @ without_comments r)
      else if c = CHR ''/'' \<and> starts_with s ''/'' then
        CHR '' '' # without_comments (drop 1 (dropWhile (\<lambda>b. b \<noteq> CHR 0x0A) s))
      else if c = CHR ''/'' \<and> starts_with s ''*'' then
        CHR '' '' # without_comments (skip_block_comment 1 (drop 1 s))
      else c # without_comments s)"
  by pat_completeness auto
termination
proof (relation "measure length", goal_cases)
  case (2 c s a b)
  then show ?case using copy_string_rest_append [of False s] by (cases "copy_string_rest False s") auto
next
  case (3 c s)
  have "length (dropWhile (\<lambda>b. b \<noteq> CHR 0x0A) s) \<le> length s" by (rule length_dropWhile_le)
  then show ?case by simp
next
  case (4 c s)
  have "length (skip_block_comment 1 (drop 1 s)) \<le> length (drop 1 s)" by (rule skip_block_comment_length)
  then show ?case by simp
qed auto

subsection \<open>Tokens\<close>

datatype Token = TIdent string | TStr string | TEq | TOpen | TClose | TComma

text \<open>The tokenizer works on the characters of the text, each the list of its bytes.\<close>

definition is_alphanumeric :: "(string \<Rightarrow> bool) \<Rightarrow> string \<Rightarrow> bool" where
  "is_alphanumeric alnum c = (case c of [b] \<Rightarrow> is_alnum b | _ \<Rightarrow> alnum c)"

definition ident_char :: "(string \<Rightarrow> bool) \<Rightarrow> string \<Rightarrow> bool" where
  "ident_char alnum c \<longleftrightarrow> is_alphanumeric alnum c \<or> c = ''_''"

text \<open>One escape after its backslash: what it stands for and the characters left.\<close>

definition simple_escape :: "string \<Rightarrow> char option" where
  "simple_escape c =
     (if c = [CHR 0x22] then Some (CHR 0x22) else if c = [CHR 0x5C] then Some (CHR 0x5C)
      else if c = [CHR 0x27] then Some (CHR 0x27) else if c = ''n'' then Some (CHR 0x0A)
      else if c = ''r'' then Some (CHR 0x0D) else if c = ''t'' then Some (CHR 0x09)
      else if c = ''0'' then Some (CHR 0x00) else None)"

definition string_escape :: "string list \<Rightarrow> (string \<times> string list) option" where
  "string_escape cs =
     (case cs of
        [] \<Rightarrow> None
      | c # r \<Rightarrow>
          (case simple_escape c of
             Some b \<Rightarrow> Some ([b], r)
           | None \<Rightarrow>
               if c = ''x'' then
                 (case parse_hex 256 (concat (take 2 r)) of
                    Some b \<Rightarrow> if b < 128 then Some ([char_of b], drop 2 r) else None
                  | None \<Rightarrow> None)
               else if c = ''u'' then
                 (case r of
                    [] \<Rightarrow> None
                  | o' # r' \<Rightarrow>
                      if o' \<noteq> ''{'' then None
                      else
                        (case parse_hex (2 ^ 32) (concat (takeWhile (\<lambda>d. d \<noteq> ''}'') r')) of
                           None \<Rightarrow> None
                         | Some n \<Rightarrow>
                             map_option (\<lambda>b. (b, drop 1 (dropWhile (\<lambda>d. d \<noteq> ''}'') r'))) (utf8_char n)))
               else None))"

lemma string_escape_length: "string_escape cs = Some (b, r) \<Longrightarrow> length r < length cs"
proof -
  assume h: "string_escape cs = Some (b, r)"
  have dw: "length (dropWhile P xs) < Suc (Suc (length xs))" for P and xs :: "string list"
    using length_dropWhile_le [of P xs] by simp
  have dd: "length (dropWhile P xs) - Suc 0 < Suc (Suc (length xs))" for P and xs :: "string list"
    using length_dropWhile_le [of P xs] by arith
  show ?thesis using h dd by (auto simp: string_escape_def split: list.splits option.splits if_splits)
qed

function string_literal :: "string list \<Rightarrow> (string \<times> string list) option" where
  "string_literal [] = None"
| "string_literal (c # r) =
     (if c = [CHR 0x22] then Some ([], r)
      else if c = [CHR 0x5C] then
        (case string_escape r of
           None \<Rightarrow> None
         | Some (b, r') \<Rightarrow> map_option (\<lambda>(l, r''). (b @ l, r'')) (string_literal r'))
      else map_option (\<lambda>(l, r'). (c @ l, r')) (string_literal r))"
  by pat_completeness auto
termination
  by (relation "measure length") (auto dest: string_escape_length)

lemma string_literal_length: "string_literal cs = Some (l, r) \<Longrightarrow> length r < length cs"
proof (induction cs arbitrary: l r rule: string_literal.induct)
  case (2 c rest)
  show ?case
  proof (cases "c = [CHR 0x5C]")
    case True
    with "2.prems" obtain b r' l' where "string_escape rest = Some (b, r')" "string_literal r' = Some (l', r)"
      by (auto split: option.splits)
    with "2.IH"(1) [of "(b, r')" b r' l' r] True show ?thesis by (auto dest: string_escape_length)
  next
    case False
    with "2.prems" "2.IH"(2) show ?thesis by (cases "c = [CHR 0x22]") (auto simp: less_Suc_eq)
  qed
qed simp

function tokenize_chars :: "(string \<Rightarrow> bool) \<Rightarrow> string list \<Rightarrow> Token list option" where
  "tokenize_chars alnum [] = Some []"
| "tokenize_chars alnum (c # r) =
     (if is_whitespace c then tokenize_chars alnum r
      else if c = ''('' then map_option ((#) TOpen) (tokenize_chars alnum r)
      else if c = '')'' then map_option ((#) TClose) (tokenize_chars alnum r)
      else if c = '','' then map_option ((#) TComma) (tokenize_chars alnum r)
      else if c = ''='' then map_option ((#) TEq) (tokenize_chars alnum r)
      else if c = [CHR 0x22] then
        (case string_literal r of
           None \<Rightarrow> None
         | Some (l, r') \<Rightarrow> map_option ((#) (TStr l)) (tokenize_chars alnum r'))
      else if ident_char alnum c then
        map_option ((#) (TIdent (concat (takeWhile (ident_char alnum) (c # r)))))
          (tokenize_chars alnum (dropWhile (ident_char alnum) (c # r)))
      else None)"
  by pat_completeness auto
termination
  by (relation "measure (\<lambda>(alnum, cs). length cs)")
    (auto dest: string_literal_length simp: le_imp_less_Suc length_dropWhile_le)

definition tokenize :: "(string \<Rightarrow> bool) \<Rightarrow> string \<Rightarrow> Token list option" where
  "tokenize alnum text = tokenize_chars alnum (chars text)"

end
