(* ===== verification/PercentCodec.thy ===== *)
theory PercentCodec
  imports Prelude
begin

text \<open>
  The interface of percent encoding, which the repository implements twice: the compact text of a
  \<open>#[cfg]\<close> predicate (\<open>cfg_expr::encode\<close>, \<open>cfg_compact::decode\<close>) and the \<open>file://\<close> URIs of the
  language-server client (\<open>path_to_file_uri\<close>, \<open>file_uri_to_path\<close>). An encoder keeps some bytes
  and writes every other one as \<open>%\<close> and two upper-case hexadecimal digits; a decoder is any function
  that undoes an escape and copies the rest. What a client needs is proved once here.
\<close>

locale percent_encoder =
  fixes keep :: "char \<Rightarrow> bool" and enc :: "string \<Rightarrow> string"
  assumes keep_percent: "\<not> keep (CHR ''%'')"
    and enc_Nil: "enc [] = []"
    and enc_keep: "keep c \<Longrightarrow> enc (c # s) = c # enc s"
    and enc_escape: "\<not> keep c \<Longrightarrow>
      enc (c # s) = CHR ''%'' # hex_digit_upper (byte c div 16) # hex_digit_upper (byte c mod 16) # enc s"
begin

lemma enc_append: "enc (a @ b) = enc a @ enc b"
proof (induction a)
  case (Cons c a)
  then show ?case by (cases "keep c") (simp_all add: enc_keep enc_escape)
qed (simp add: enc_Nil)

lemma enc_bytes: "c \<in> set (enc s) \<Longrightarrow> keep c \<or> c = CHR ''%'' \<or> is_alnum c"
proof (induction s)
  case (Cons d s)
  have "is_alnum (hex_digit_upper (byte d div 16))" "is_alnum (hex_digit_upper (byte d mod 16))" by simp_all
  with Cons show ?case by (cases "keep d") (auto simp: enc_keep enc_escape)
qed (simp add: enc_Nil)

lemma enc_eq_Nil: "enc s = [] \<longleftrightarrow> s = []"
  by (cases s; cases "keep (hd s)") (auto simp: enc_Nil enc_keep enc_escape)

end

locale percent_codec = percent_encoder +
  fixes dec :: "string \<Rightarrow> string option"
  assumes dec_Nil: "dec [] = Some []"
    and dec_plain: "c \<noteq> CHR ''%'' \<Longrightarrow> dec (c # s) = map_option ((#) c) (dec s)"
    and dec_escape: "is_hexdigit h \<Longrightarrow> is_hexdigit l \<Longrightarrow> parse_hex 256 [h, l] = Some b \<Longrightarrow>
      dec (CHR ''%'' # h # l # s) = map_option ((#) (char_of b)) (dec s)"
begin

lemma dec_enc: "dec (enc s) = Some s"
proof (induction s)
  case (Cons c s)
  show ?case
  proof (cases "keep c")
    case True
    then have "c \<noteq> CHR ''%''" using keep_percent by auto
    with True Cons show ?thesis by (simp add: enc_keep dec_plain)
  next
    case False
    have "dec (enc (c # s)) = map_option ((#) (char_of (byte c))) (dec (enc s))"
      unfolding enc_escape [OF False] by (intro dec_escape parse_hex_byte) simp_all
    with Cons show ?thesis by simp
  qed
qed (simp add: enc_Nil dec_Nil)

lemma enc_inj: "enc s = enc t \<longleftrightarrow> s = t"
  by (metis dec_enc option.inject)

end

end
