(* ===== verification/CfgExpr.thy ===== *)
theory CfgExpr
  imports CfgLex PercentCodec
begin

text \<open>
  Configuration predicates, \<open>src/parser/cfg_expr.rs\<close>: the parser of a \<open>#[cfg(...)]\<close> argument, the
  three-valued evaluation under a build profile, the canonical form and the compact text that becomes
  part of an item id. \<open>holds\<close> is the specification: the two-valued meaning of a predicate in one
  concrete build.
\<close>

subsection \<open>Predicates and profiles\<close>

datatype CfgPredicate =
    CFeature string
  | COption string "string option"
  | CAll "CfgPredicate list"
  | CAny "CfgPredicate list"
  | CNot CfgPredicate

datatype Truth = TTrue | TFalse | TUnknown

definition NEVER_SET_BY_A_PLAIN_BUILD :: "string list" where
  "NEVER_SET_BY_A_PLAIN_BUILD = [''kani'', ''miri'', ''doc'', ''doctest'']"

record BuildProfile =
  features :: "string set"
  options :: "string \<rightharpoonup> bool"

definition with_features :: "string set \<Rightarrow> BuildProfile" where
  "with_features fs =
     \<lparr>features = fs, options = map_of (map (\<lambda>name. (name, False)) NEVER_SET_BY_A_PLAIN_BUILD)\<rparr>"

subsection \<open>Evaluation\<close>

fun eval_with :: "string set \<Rightarrow> (string \<rightharpoonup> bool) \<Rightarrow> CfgPredicate \<Rightarrow> Truth"
  and fold_truth :: "string set \<Rightarrow> (string \<rightharpoonup> bool) \<Rightarrow> Truth \<Rightarrow> Truth \<Rightarrow> CfgPredicate list \<Rightarrow> Truth" where
  "eval_with enabled opts (CFeature f) = (if f \<in> enabled then TTrue else TFalse)"
| "eval_with enabled opts (COption key None) =
     (case opts key of Some True \<Rightarrow> TTrue | Some False \<Rightarrow> TFalse | None \<Rightarrow> TUnknown)"
| "eval_with enabled opts (COption key (Some v)) = TUnknown"
| "eval_with enabled opts (CAll items) = fold_truth enabled opts TFalse TTrue items"
| "eval_with enabled opts (CAny items) = fold_truth enabled opts TTrue TFalse items"
| "eval_with enabled opts (CNot inner) =
     (case eval_with enabled opts inner of TTrue \<Rightarrow> TFalse | TFalse \<Rightarrow> TTrue | TUnknown \<Rightarrow> TUnknown)"
| "fold_truth enabled opts absorbing result [] = result"
| "fold_truth enabled opts absorbing result (item # items) =
     (let t = eval_with enabled opts item
      in if t = absorbing then absorbing
         else if t = TUnknown then fold_truth enabled opts absorbing TUnknown items
         else fold_truth enabled opts absorbing result items)"

definition eval_features :: "string set \<Rightarrow> CfgPredicate \<Rightarrow> Truth" where
  "eval_features enabled p = eval_with enabled Map.empty p"

definition eval_in :: "BuildProfile \<Rightarrow> CfgPredicate \<Rightarrow> Truth" where
  "eval_in profile p = eval_with (features profile) (options profile) p"

fun requires_option :: "string \<Rightarrow> CfgPredicate \<Rightarrow> bool" where
  "requires_option key (COption k None) = (k = key)"
| "requires_option key (CAll items) = list_ex (requires_option key) items"
| "requires_option key _ = False"

subsection \<open>Compact text and canonical form\<close>

definition plain_byte :: "char \<Rightarrow> bool" where
  "plain_byte c \<longleftrightarrow> is_alnum c \<or> c = CHR ''_'' \<or> c = CHR ''-''"

fun encode :: "string \<Rightarrow> string" where
  "encode [] = []"
| "encode (c # s) =
     (if plain_byte c then c # encode s
      else CHR ''%'' # hex_digit_upper (byte c div 16) # hex_digit_upper (byte c mod 16) # encode s)"

fun compact :: "CfgPredicate \<Rightarrow> string" where
  "compact (CFeature name) = ''feature='' @ encode name"
| "compact (COption key None) = encode key"
| "compact (COption key (Some v)) = encode key @ ''='' @ encode v"
| "compact (CAll items) = ''all('' @ join_with '','' (map compact items) @ '')''"
| "compact (CAny items) = ''any('' @ join_with '','' (map compact items) @ '')''"
| "compact (CNot inner) = ''not('' @ compact inner @ '')''"

text \<open>\<open>join\<close> after the terms were made canonical: flatten the terms of the same kind, sort by the
  compact text, remove repetitions, unwrap a single term.\<close>

definition flatten_term :: "bool \<Rightarrow> CfgPredicate \<Rightarrow> CfgPredicate list" where
  "flatten_term is_all p =
     (case p of
        CAll inner \<Rightarrow> if is_all then inner else [p]
      | CAny inner \<Rightarrow> if \<not> is_all then inner else [p]
      | _ \<Rightarrow> [p])"

definition join_terms :: "bool \<Rightarrow> CfgPredicate list \<Rightarrow> CfgPredicate" where
  "join_terms is_all terms =
     (let flat = dedup_adj (sort_key compact (concat (map (flatten_term is_all) terms)))
      in case flat of
           [only] \<Rightarrow> only
         | _ \<Rightarrow> if is_all then CAll flat else CAny flat)"

fun canonical :: "CfgPredicate \<Rightarrow> CfgPredicate" where
  "canonical (CAll items) = join_terms True (map canonical items)"
| "canonical (CAny items) = join_terms False (map canonical items)"
| "canonical (CNot inner) = (case canonical inner of CNot twice \<Rightarrow> twice | other \<Rightarrow> CNot other)"
| "canonical leaf = leaf"

subsection \<open>Parsing\<close>

text \<open>The parser of the source keeps a position in the token list; here it returns the tokens left.\<close>

function parse_predicate :: "Token list \<Rightarrow> (CfgPredicate \<times> Token list) option"
  and parse_list :: "Token list \<Rightarrow> (CfgPredicate list \<times> Token list) option" where
  "parse_predicate ts =
     (case ts of
        TIdent name # r \<Rightarrow>
          (case r of
             TEq # r1 \<Rightarrow>
               (case r1 of
                  TStr value # r2 \<Rightarrow>
                    Some (if name = ''feature'' then CFeature value else COption name (Some value), r2)
                | _ \<Rightarrow> None)
           | TOpen # r1 \<Rightarrow>
               (case parse_list r1 of
                  None \<Rightarrow> None
                | Some (items, r2) \<Rightarrow>
                    if name = ''all'' then Some (CAll items, r2)
                    else if name = ''any'' then Some (CAny items, r2)
                    else if name = ''not'' \<and> length items = 1 then Some (CNot (hd items), r2)
                    else None)
           | _ \<Rightarrow> Some (COption name None, r))
      | _ \<Rightarrow> None)"
| "parse_list ts =
     (case ts of
        TClose # r \<Rightarrow> Some ([], r)
      | _ \<Rightarrow>
          (case parse_predicate ts of
             None \<Rightarrow> None
           | Some (p, r) \<Rightarrow>
               (case r of
                  TComma # r1 \<Rightarrow> map_option (\<lambda>(items, r2). (p # items, r2)) (parse_list r1)
                | TClose # r1 \<Rightarrow> Some ([p], r1)
                | _ \<Rightarrow> None)))"
  by pat_completeness auto

text \<open>A successful parse consumes tokens, which is why the recursion ends.\<close>

lemma parse_consumes:
  "parse_predicate_parse_list_dom (Inl ts) \<Longrightarrow> parse_predicate ts = Some (p, r) \<Longrightarrow> length r < length ts"
  "parse_predicate_parse_list_dom (Inr ts) \<Longrightarrow> parse_list ts = Some (ps, r) \<Longrightarrow> length r < length ts"
proof (induction ts and ts arbitrary: p r and ps r rule: parse_predicate_parse_list.pinduct)
  case (1 ts)
  show ?case using "1.prems" parse_predicate.psimps [OF "1.hyps"] "1.IH"
    by (fastforce split: list.splits Token.splits option.splits if_splits)
next
  case (2 ts)
  show ?case using "2.prems" parse_list.psimps [OF "2.hyps"] "2.IH"
    by (fastforce split: list.splits Token.splits option.splits if_splits)
qed

termination parse_predicate
  by (relation "measure (case_sum (\<lambda>ts. 2 * length ts) (\<lambda>ts. 2 * length ts + 1))")
    (auto, (drule (1) parse_consumes(1), simp)+)

definition parse_cfg_arguments :: "(string \<Rightarrow> bool) \<Rightarrow> string \<Rightarrow> CfgPredicate option" where
  "parse_cfg_arguments alnum text =
     (case tokenize alnum (without_comments text) of
        Some (TOpen # ts) \<Rightarrow>
          (case parse_predicate ts of
             Some (p, [TClose]) \<Rightarrow> Some p
           | Some (p, [TComma, TClose]) \<Rightarrow> Some p
           | _ \<Rightarrow> None)
      | _ \<Rightarrow> None)"

subsection \<open>The meaning of a predicate\<close>

text \<open>One concrete build: the features it enables, and which options (with or without a value) it
  sets.\<close>

type_synonym build = "string set \<times> (string \<times> string option \<Rightarrow> bool)"

fun holds :: "build \<Rightarrow> CfgPredicate \<Rightarrow> bool" where
  "holds b (CFeature f) = (f \<in> fst b)"
| "holds b (COption key v) = snd b (key, v)"
| "holds b (CAll items) = list_all (holds b) items"
| "holds b (CAny items) = list_ex (holds b) items"
| "holds b (CNot inner) = (\<not> holds b inner)"

text \<open>A build agrees with a profile when it has its features and every option the profile fixes.\<close>

definition agrees :: "build \<Rightarrow> BuildProfile \<Rightarrow> bool" where
  "agrees b profile \<longleftrightarrow> fst b = features profile \<and>
     (\<forall>key value. options profile key = Some value \<longrightarrow> snd b (key, None) = value)"

lemma fold_truth_eq:
  "absorbing \<noteq> TUnknown \<Longrightarrow> fold_truth enabled opts absorbing result items =
     (if list_ex (\<lambda>p. eval_with enabled opts p = absorbing) items then absorbing
      else if list_ex (\<lambda>p. eval_with enabled opts p = TUnknown) items then TUnknown
      else result)"
  by (induction items arbitrary: result) (auto simp: Let_def)

lemmas eval_with_set = eval_with.simps fold_truth_eq list_ex_iff

declare fold_truth.simps [simp del]

lemma eval_decides:
  assumes "agrees b profile"
  shows "(eval_with (features profile) (options profile) p = TTrue \<longrightarrow> holds b p) \<and>
    (eval_with (features profile) (options profile) p = TFalse \<longrightarrow> \<not> holds b p)"
    (is "?P p")
proof (induction p)
  case (COption key v)
  then show ?case using assms by (cases v) (auto simp: agrees_def split: option.splits bool.splits)
next
  case (CAll items)
  have "t = TTrue" if "t \<noteq> TFalse" "t \<noteq> TUnknown" for t using that by (cases t) auto
  with CAll show ?case by (auto simp: eval_with_set list_all_iff split: if_splits)
next
  case (CAny items)
  have "t = TFalse" if "t \<noteq> TTrue" "t \<noteq> TUnknown" for t using that by (cases t) auto
  with CAny show ?case by (auto simp: eval_with_set split: if_splits)
qed (use assms in \<open>auto simp: agrees_def split: Truth.splits\<close>)

text \<open>C22: evaluation is sound: when \<open>eval_in\<close> decides a predicate under a profile, every concrete
  build that agrees with the profile gives the predicate that truth value; only \<open>TUnknown\<close> leaves it
  open.\<close>

theorem eval_in_sound:
  assumes "agrees b profile" "eval_in profile p \<noteq> TUnknown"
  shows "holds b p \<longleftrightarrow> eval_in profile p = TTrue"
  using eval_decides [OF assms(1), of p] assms(2)
  by (cases "eval_in profile p") (simp_all add: eval_in_def)

theorem eval_in_sound_witness:
  "holds ({''a''}, \<lambda>_. False) (CAll [CFeature ''a'', CNot (COption ''kani'' None)])"
proof -
  have "agrees ({''a''}, \<lambda>_. False) (with_features {''a''})"
    by (auto simp: agrees_def with_features_def NEVER_SET_BY_A_PLAIN_BUILD_def split: if_splits)
  moreover have "eval_in (with_features {''a''}) (CAll [CFeature ''a'', CNot (COption ''kani'' None)]) = TTrue"
    by (simp add: eval_in_def with_features_def NEVER_SET_BY_A_PLAIN_BUILD_def eval_with_set)
  ultimately show ?thesis using eval_in_sound by fastforce
qed

text \<open>An item whose predicate requires an option is absent from every build that does not set it.\<close>

lemma requires_option_sound: "requires_option key p \<Longrightarrow> holds b p \<Longrightarrow> snd b (key, None)"
  by (induction key p rule: requires_option.induct) (auto simp: list_all_iff list_ex_iff)

subsection \<open>The canonical form\<close>

text \<open>What a canonical predicate looks like: no list of one term, no list directly in a list of its own
  kind, the terms sorted by their compact text and not repeated, no double negation.\<close>

definition same_kind :: "bool \<Rightarrow> CfgPredicate \<Rightarrow> bool" where
  "same_kind is_all p =
     (case p of CAll _ \<Rightarrow> is_all | CAny _ \<Rightarrow> \<not> is_all | _ \<Rightarrow> False)"

definition canonical_terms :: "bool \<Rightarrow> CfgPredicate list \<Rightarrow> bool" where
  "canonical_terms is_all items \<longleftrightarrow> length items \<noteq> 1 \<and> \<not> list_ex (same_kind is_all) items \<and>
     sorted (map compact items) \<and> dedup_adj items = items"

fun is_canonical :: "CfgPredicate \<Rightarrow> bool" where
  "is_canonical (CAll items) = (canonical_terms True items \<and> list_all is_canonical items)"
| "is_canonical (CAny items) = (canonical_terms False items \<and> list_all is_canonical items)"
| "is_canonical (CNot inner) = (is_canonical inner \<and> (case inner of CNot _ \<Rightarrow> False | _ \<Rightarrow> True))"
| "is_canonical _ = True"

definition joined :: "bool \<Rightarrow> CfgPredicate list \<Rightarrow> CfgPredicate" where
  "joined is_all flat =
     (case flat of [only] \<Rightarrow> only | _ \<Rightarrow> if is_all then CAll flat else CAny flat)"

lemma join_terms_joined:
  "join_terms is_all terms =
     joined is_all (dedup_adj (sort_key compact (concat (map (flatten_term is_all) terms))))"
  by (simp add: join_terms_def joined_def Let_def)

lemma flatten_term_canonical:
  assumes "is_canonical p" "q \<in> set (flatten_term is_all p)"
  shows "is_canonical q" "\<not> same_kind is_all q"
  using assms by (auto simp: flatten_term_def same_kind_def canonical_terms_def list_all_iff list_ex_iff
    split: CfgPredicate.splits if_splits)

lemma flatten_term_other: "\<not> same_kind is_all p \<Longrightarrow> flatten_term is_all p = [p]"
  by (auto simp: flatten_term_def same_kind_def split: CfgPredicate.splits)

lemma joined_canonical:
  assumes "\<forall>q \<in> set flat. is_canonical q \<and> \<not> same_kind is_all q"
    "sorted (map compact flat)" "dedup_adj flat = flat"
  shows "is_canonical (joined is_all flat)"
proof (cases "length flat = 1")
  case True
  then obtain q where "flat = [q]" by (auto simp: length_Suc_conv)
  then show ?thesis using assms by (simp add: joined_def)
next
  case False
  then have "joined is_all flat = (if is_all then CAll flat else CAny flat)"
    by (auto simp: joined_def split: list.splits)
  with False assms show ?thesis by (auto simp: canonical_terms_def list_all_iff list_ex_iff)
qed

lemma join_terms_canonical:
  assumes "\<forall>p \<in> set terms. is_canonical p" shows "is_canonical (join_terms is_all terms)"
  unfolding join_terms_joined
  by (rule joined_canonical)
    (use assms flatten_term_canonical in \<open>auto intro: sorted_dedup_adj simp: \<close>)

lemma canonical_is_canonical: "is_canonical (canonical p)"
proof (induction p)
  case (CNot p)
  then show ?case by (auto split: CfgPredicate.splits)
qed (auto intro!: join_terms_canonical)

lemma join_terms_id:
  assumes "canonical_terms is_all items"
  shows "join_terms is_all items = (if is_all then CAll items else CAny items)"
proof -
  have "concat (map (flatten_term is_all) items) = items" if "\<not> list_ex (same_kind is_all) items"
    using that by (induction items) (auto simp: flatten_term_other)
  moreover have "sort_key compact items = items"
    using assms by (simp add: canonical_terms_def sort_key_id_if_sorted)
  ultimately show ?thesis using assms
    by (auto simp: join_terms_joined joined_def canonical_terms_def split: list.splits)
qed

lemma canonical_id: "is_canonical p \<Longrightarrow> canonical p = p"
proof (induction p)
  case (CAll items)
  then have "map canonical items = items" by (simp add: list_all_iff map_idI)
  with CAll show ?case by (simp add: join_terms_id)
next
  case (CAny items)
  then have "map canonical items = items" by (simp add: list_all_iff map_idI)
  with CAny show ?case by (simp add: join_terms_id)
next
  case (CNot p)
  then show ?case by (cases p) auto
qed auto

text \<open>The canonical form keeps the meaning, two-valued and three-valued.\<close>

lemma holds_joined: "holds b (joined is_all flat) =
    (if is_all then \<forall>q \<in> set flat. holds b q else \<exists>q \<in> set flat. holds b q)"
  by (auto simp: joined_def list_all_iff list_ex_iff split: list.splits)

lemma holds_flatten_all: "(\<forall>q \<in> set (flatten_term True p). holds b q) = holds b p"
  by (auto simp: flatten_term_def list_all_iff split: CfgPredicate.splits)

lemma holds_flatten_any: "(\<exists>q \<in> set (flatten_term False p). holds b q) = holds b p"
  by (auto simp: flatten_term_def list_ex_iff split: CfgPredicate.splits)

lemma holds_join_terms: "holds b (join_terms is_all terms) =
    (if is_all then \<forall>p \<in> set terms. holds b p else \<exists>p \<in> set terms. holds b p)"
  by (cases is_all)
    (simp_all add: join_terms_joined holds_joined holds_flatten_all holds_flatten_any)

lemma canonical_holds: "holds b (canonical p) = holds b p"
proof (induction p)
  case (CNot p)
  then show ?case by (cases "canonical p") auto
qed (auto simp: holds_join_terms list_all_iff list_ex_iff)

lemma eval_joined: "eval_with e opts (joined is_all flat) =
    eval_with e opts (if is_all then CAll flat else CAny flat)"
proof (cases "length flat = 1")
  case True
  then obtain q where "flat = [q]" by (auto simp: length_Suc_conv)
  then show ?thesis by (cases "eval_with e opts q") (simp_all add: joined_def eval_with_set)
next
  case False
  then show ?thesis by (auto simp: joined_def split: list.splits)
qed

lemma eval_flatten_absorbing:
  "(\<exists>q \<in> set (flatten_term is_all p). eval_with e opts q = (if is_all then TFalse else TTrue)) =
   (eval_with e opts p = (if is_all then TFalse else TTrue))"
  by (cases p; cases is_all) (auto simp: flatten_term_def eval_with_set)

lemma eval_flatten_unknown:
  "eval_with e opts p \<noteq> (if is_all then TFalse else TTrue) \<Longrightarrow>
   (\<exists>q \<in> set (flatten_term is_all p). eval_with e opts q = TUnknown) = (eval_with e opts p = TUnknown)"
  by (cases p; cases is_all) (auto simp: flatten_term_def eval_with_set split: if_splits)

lemma eval_join_terms: "eval_with e opts (join_terms is_all terms) =
    eval_with e opts (if is_all then CAll terms else CAny terms)"
proof -
  let ?abs = "if is_all then TFalse else TTrue"
  let ?flat = "dedup_adj (sort_key compact (concat (map (flatten_term is_all) terms)))"
  have absorbing: "(\<exists>q \<in> set ?flat. eval_with e opts q = ?abs) = (\<exists>p \<in> set terms. eval_with e opts p = ?abs)"
    using eval_flatten_absorbing [of is_all _ e opts] by simp
  have unknown: "(\<exists>q \<in> set ?flat. eval_with e opts q = TUnknown) = (\<exists>p \<in> set terms. eval_with e opts p = TUnknown)"
    if "\<not> (\<exists>p \<in> set terms. eval_with e opts p = ?abs)"
    using that eval_flatten_unknown [of e opts _ is_all] by simp
  show ?thesis
  proof (cases "\<exists>p \<in> set terms. eval_with e opts p = ?abs")
    case True
    with absorbing show ?thesis
      unfolding join_terms_joined eval_joined by (cases is_all) (simp_all add: eval_with_set)
  next
    case False
    with absorbing unknown [OF False] show ?thesis
      unfolding join_terms_joined eval_joined by (cases is_all) (simp_all add: eval_with_set)
  qed
qed

lemma canonical_eval: "eval_with e opts (canonical p) = eval_with e opts p"
proof (induction p)
  case (CNot p)
  then show ?case by (cases "canonical p") (auto split: Truth.splits)
qed (auto simp: eval_join_terms eval_with_set list_ex_iff)

text \<open>C23: the canonical form of a predicate is canonical, is its own canonical form, and means the same
  in every concrete build and under every profile.\<close>

theorem canonical_normal_form:
  "is_canonical (canonical p) \<and> canonical (canonical p) = canonical p \<and>
   holds b (canonical p) = holds b p \<and> eval_in profile (canonical p) = eval_in profile p"
  by (simp add: canonical_is_canonical canonical_id canonical_holds eval_in_def canonical_eval)

end
