(* ===== verification/CfgCompact.thy ===== *)
theory CfgCompact
  imports CfgExpr
begin

text \<open>
  The reader of the compact text, \<open>src/parser/cfg_compact.rs\<close>: the inverse of
  \<open>CfgPredicate::compact\<close>, by which the resolver gets the predicate of a twin back from its item id.
  The reader keeps the bytes left to read; \<open>readable\<close> states which predicates have a compact text that
  reads back.
\<close>

subsection \<open>The reader\<close>

definition peek :: "string \<Rightarrow> char option" where
  "peek s = (case s of [] \<Rightarrow> None | c # _ \<Rightarrow> Some c)"

definition word_byte :: "char \<Rightarrow> bool" where
  "word_byte c \<longleftrightarrow> is_alnum c \<or> c = CHR ''_'' \<or> c = CHR ''-'' \<or> c = CHR ''%''"

fun decode_bytes :: "string \<Rightarrow> string option" where
  "decode_bytes [] = Some []"
| "decode_bytes (c # s) =
     (if c = CHR ''%''
      then if length s < 2 then None
           else case Option.bind (from_utf8 (take 2 s)) (parse_hex 256) of
                  None \<Rightarrow> None
                | Some b \<Rightarrow> map_option ((#) (char_of b)) (decode_bytes (drop 2 s))
      else map_option ((#) c) (decode_bytes s))"

definition decode :: "string \<Rightarrow> string option" where
  "decode word = Option.bind (decode_bytes word) from_utf8"

definition read_word :: "string \<Rightarrow> (string \<times> string) option" where
  "read_word s =
     (case decode (takeWhile word_byte s) of
        None \<Rightarrow> None
      | Some w \<Rightarrow> if w = [] then None else Some (w, dropWhile word_byte s))"

function read_predicate :: "string \<Rightarrow> (CfgPredicate \<times> string) option"
  and read_list :: "string \<Rightarrow> (CfgPredicate list \<times> string) option"
  and read_items :: "string \<Rightarrow> (CfgPredicate list \<times> string) option" where
  "read_predicate s =
     (case read_word s of
        None \<Rightarrow> None
      | Some (name, r) \<Rightarrow>
          if peek r = Some (CHR ''('') then
            (case read_list (tl r) of
               None \<Rightarrow> None
             | Some (items, r1) \<Rightarrow>
                 if name = ''all'' then Some (CAll items, r1)
                 else if name = ''any'' then Some (CAny items, r1)
                 else if name = ''not'' \<and> length items = 1 then Some (CNot (hd items), r1)
                 else None)
          else if peek r = Some (CHR ''='') then
            (case read_word (tl r) of
               None \<Rightarrow> None
             | Some (value, r1) \<Rightarrow>
                 Some (if name = ''feature'' then CFeature value else COption name (Some value), r1))
          else Some (COption name None, r))"
| "read_list s =
     (if peek s = Some (CHR '')'') then Some ([], tl s) else read_items s)"
| "read_items s =
     (case read_predicate s of
        None \<Rightarrow> None
      | Some (p, r) \<Rightarrow>
          if peek r = Some (CHR '','') then map_option (\<lambda>(items, r1). (p # items, r1)) (read_items (tl r))
          else if peek r = Some (CHR '')'') then Some ([p], tl r)
          else None)"
  by pat_completeness auto

lemma read_word_consumes: "read_word s = Some (w, r) \<Longrightarrow> length r < length s"
proof -
  assume s: "read_word s = Some (w, r)"
  then have "takeWhile word_byte s \<noteq> []"
    by (auto simp: read_word_def decode_def split: option.splits if_splits)
       (simp add: from_utf8_def)
  then have "length (takeWhile word_byte s) > 0" by blast
  moreover have "r = dropWhile word_byte s" using s by (auto simp: read_word_def split: option.splits if_splits)
  moreover have "length s = length (takeWhile word_byte s) + length (dropWhile word_byte s)"
    by (metis length_append takeWhile_dropWhile_id)
  ultimately show ?thesis by simp
qed

lemma peek_Some: "peek s = Some c \<Longrightarrow> length (tl s) < length s"
  by (cases s) (auto simp: peek_def)

lemma read_consumes:
  "read_predicate_read_list_read_items_dom (Inl s) \<Longrightarrow> read_predicate s = Some (p, r) \<Longrightarrow> length r < length s"
  "read_predicate_read_list_read_items_dom (Inr (Inl s)) \<Longrightarrow> read_list s = Some (ps, r) \<Longrightarrow> length r < length s"
  "read_predicate_read_list_read_items_dom (Inr (Inr s)) \<Longrightarrow> read_items s = Some (ps, r) \<Longrightarrow> length r < length s"
proof (induction s and s and s arbitrary: p r and ps r and ps r rule: read_predicate_read_list_read_items.pinduct)
  case (1 s)
  show ?case using "1.prems" read_predicate.psimps [OF "1.hyps"] "1.IH"
    by (fastforce split: option.splits if_splits dest: read_word_consumes peek_Some)
next
  case (2 s)
  show ?case using "2.prems" read_list.psimps [OF "2.hyps"] "2.IH"
    by (fastforce split: if_splits dest: peek_Some)
next
  case (3 s)
  show ?case using "3.prems" read_items.psimps [OF "3.hyps"] "3.IH"
    by (fastforce split: option.splits if_splits dest: peek_Some)
qed

termination read_predicate
  by (relation "measure (case_sum (\<lambda>s. 3 * length s)
        (case_sum (\<lambda>s. 3 * length s + 2) (\<lambda>s. 3 * length s + 1)))")
    (auto, (drule (1) read_consumes(1) | drule read_word_consumes | drule peek_Some | simp)+)

definition parse_compact :: "string \<Rightarrow> CfgPredicate option" where
  "parse_compact text =
     (case read_predicate text of
        Some (p, rest) \<Rightarrow> if rest = [] then Some p else None
      | None \<Rightarrow> None)"

declare read_predicate.simps [simp del] read_list.simps [simp del] read_items.simps [simp del]

subsection \<open>The codec of the compact text\<close>

interpretation cfg: percent_codec plain_byte encode decode_bytes
proof unfold_locales
  show "\<not> plain_byte CHR ''%''" by (simp add: plain_byte_def byte_simps)
next
  fix h l b s assume hl: "is_hexdigit h" "is_hexdigit l" "parse_hex 256 [h, l] = Some b"
  then have "utf8_valid [h, l]" by (intro utf8_valid_ascii) (auto simp: byte_simps)
  then show "decode_bytes (CHR ''%'' # h # l # s) = map_option ((#) (char_of b)) (decode_bytes s)"
    using hl(3) by (simp add: from_utf8_def numeral_2_eq_2)
qed (auto simp: plain_byte_def)

lemma encode_word: "list_all word_byte (encode w)"
  unfolding list_all_iff using cfg.enc_bytes [of _ w] by (auto simp: word_byte_def plain_byte_def)

text \<open>Where a term of the compact text ends: at the end of the text, at a comma or at a closing
  parenthesis.\<close>

definition ends_term :: "string \<Rightarrow> bool" where
  "ends_term t \<longleftrightarrow> t = [] \<or> hd t = CHR '','' \<or> hd t = CHR '')''"

lemma read_word_encode:
  assumes "w \<noteq> []" "utf8_valid w" "t = [] \<or> \<not> word_byte (hd t)"
  shows "read_word (encode w @ t) = Some (w, t)"
proof -
  have "takeWhile word_byte t = []" "dropWhile word_byte t = t"
    using assms(3) by (cases t; simp)+
  with encode_word [of w] assms(1,2) show ?thesis
    by (simp add: read_word_def decode_def cfg.dec_enc from_utf8_def takeWhile_append2 dropWhile_append2
      list_all_iff)
qed

lemma keyword_words:
  "encode ''all'' = ''all''" "encode ''any'' = ''any''" "encode ''not'' = ''not''"
  "encode ''feature'' = ''feature''"
  by (simp_all add: plain_byte_def byte_simps)

lemma not_word_byte: "\<not> word_byte CHR ''(''" "\<not> word_byte CHR '')''" "\<not> word_byte CHR '',''" "\<not> word_byte CHR ''=''"
  by (simp_all add: word_byte_def byte_simps)

lemma read_word_keyword:
  "read_word (''feature='' @ t) = Some (''feature'', ''='' @ t)"
  "read_word (''all('' @ t) = Some (''all'', ''('' @ t)"
  "read_word (''any('' @ t) = Some (''any'', ''('' @ t)"
  "read_word (''not('' @ t) = Some (''not'', ''('' @ t)"
  using read_word_encode [of "''feature''" "''='' @ t"] read_word_encode [of "''all''" "''('' @ t"]
    read_word_encode [of "''any''" "''('' @ t"] read_word_encode [of "''not''" "''('' @ t"]
  by (simp_all add: keyword_words not_word_byte utf8_valid_ascii byte_simps del: encode.simps)

lemmas read_keyword = read_word_keyword [simplified]

lemma ends_term_word: "ends_term t \<Longrightarrow> t = [] \<or> \<not> word_byte (hd t)"
  by (auto simp: ends_term_def not_word_byte)

lemma ends_term_peek: "ends_term t \<Longrightarrow> peek t \<noteq> Some CHR ''('' \<and> peek t \<noteq> Some CHR ''=''"
  by (cases t) (auto simp: ends_term_def peek_def)

lemma peek_simps [simp]: "peek [] = None" "peek (c # s) = Some c"
  by (simp_all add: peek_def)

text \<open>The predicates whose compact text reads back: no empty word (the reader refuses one), and
  \<open>feature\<close> is not the key of an option with a value (it is a feature then). The words are Rust
  strings, so valid UTF-8.\<close>

fun readable :: "CfgPredicate \<Rightarrow> bool" where
  "readable (CFeature name) = (name \<noteq> [] \<and> utf8_valid name)"
| "readable (COption key None) = (key \<noteq> [] \<and> utf8_valid key)"
| "readable (COption key (Some v)) =
     (key \<noteq> [] \<and> key \<noteq> ''feature'' \<and> utf8_valid key \<and> v \<noteq> [] \<and> utf8_valid v)"
| "readable (CAll items) = list_all readable items"
| "readable (CAny items) = list_all readable items"
| "readable (CNot inner) = readable inner"

lemma compact_starts:
  "readable p \<Longrightarrow> \<exists>c s. compact p = c # s \<and> word_byte c"
proof -
  have *: "\<exists>c s. encode w @ t = c # s \<and> word_byte c" if "w \<noteq> []" for w t
    using encode_word [of w] cfg.enc_eq_Nil [of w] that by (cases "encode w") auto
  have word: "word_byte CHR ''f''" "word_byte CHR ''a''" "word_byte CHR ''n''"
    by (simp_all add: word_byte_def byte_simps)
  show "readable p \<Longrightarrow> ?thesis"
    using * [of _ "[]"] * by (cases p rule: compact.cases) (auto simp: word)
qed

lemma read_items_compact:
  assumes "\<And>p t. p \<in> set items \<Longrightarrow> ends_term t \<Longrightarrow> read_predicate (compact p @ t) = Some (p, t)"
    and "items \<noteq> []"
  shows "read_items (join_with '','' (map compact items) @ '')'' @ t) = Some (items, t)"
  using assms
proof (induction items rule: induct_list012)
  case (2 p)
  then show ?case by (subst read_items.simps) (simp add: ends_term_def)
next
  case (3 p q items)
  have "read_items (join_with '','' (map compact (q # items)) @ '')'' @ t) = Some (q # items, t)"
    using 3 by simp
  then show ?case using 3(3) [of p]
    by (subst read_items.simps) (simp add: ends_term_def)
qed simp

lemma read_list_compact:
  assumes "\<And>p t. p \<in> set items \<Longrightarrow> ends_term t \<Longrightarrow> read_predicate (compact p @ t) = Some (p, t)"
    and "list_all readable items"
  shows "read_list (join_with '','' (map compact items) @ '')'' @ t) = Some (items, t)"
proof (cases items)
  case Nil
  then show ?thesis by (subst read_list.simps) simp
next
  case (Cons p ps)
  then obtain c s where c: "join_with '','' (map compact items) = c # s" "word_byte c"
    using assms(2) compact_starts [of p] by (cases ps) auto
  then have "peek (join_with '','' (map compact items) @ '')'' @ t) \<noteq> Some (CHR '')'')"
    by (auto simp: not_word_byte)
  moreover have "read_items (join_with '','' (map compact items) @ '')'' @ t) = Some (items, t)"
    using Cons by (intro read_items_compact assms(1)) simp_all
  ultimately show ?thesis by (subst read_list.simps) simp
qed

lemma read_predicate_compact:
  "readable p \<Longrightarrow> ends_term t \<Longrightarrow> read_predicate (compact p @ t) = Some (p, t)"
proof (induction p arbitrary: t)
  case (CFeature name)
  then show ?case using read_word_encode [of name t] ends_term_word [of t]
    by (subst read_predicate.simps) (simp add: read_keyword)
next
  case (COption key v)
  show ?case
  proof (cases v)
    case None
    with COption ends_term_word [of t] ends_term_peek [of t] show ?thesis
      by (subst read_predicate.simps) (simp add: read_word_encode)
  next
    case (Some v1)
    with COption ends_term_word [of t] show ?thesis
      by (subst read_predicate.simps) (simp add: read_word_encode not_word_byte)
  qed
next
  case (CAll items)
  have "read_list (join_with '','' (map compact items) @ '')'' @ t) = Some (items, t)"
    using CAll by (intro read_list_compact) (auto simp: list_all_iff)
  then show ?case
    by (subst read_predicate.simps) (simp add: read_keyword)
next
  case (CAny items)
  have "read_list (join_with '','' (map compact items) @ '')'' @ t) = Some (items, t)"
    using CAny by (intro read_list_compact) (auto simp: list_all_iff)
  then show ?case
    by (subst read_predicate.simps) (simp add: read_keyword)
next
  case (CNot p)
  have "read_list (join_with '','' (map compact [p]) @ '')'' @ t) = Some ([p], t)"
    using CNot by (intro read_list_compact) (auto simp: list_all_iff)
  then show ?case
    by (subst read_predicate.simps) (simp add: read_keyword)
qed

lemma parse_compact_inverse:
  assumes "readable p" shows "parse_compact (compact p) = Some p"
  using read_predicate_compact [OF assms, of "[]"] by (simp add: parse_compact_def ends_term_def)

lemma compact_inj:
  assumes "readable p" "readable q" "compact p = compact q" shows "p = q"
proof -
  have "Some p = parse_compact (compact q)" using parse_compact_inverse [OF assms(1)] assms(3) by metis
  also have "\<dots> = Some q" by (rule parse_compact_inverse [OF assms(2)])
  finally show ?thesis by (rule option.inject [THEN iffD1])
qed

text \<open>C17: the compact text of a predicate reads back to the predicate, so the resolver recovers the
  condition of a twin from its item id. The predicate must be readable: its words are not empty (a
  predicate such as \<open>feature = ""\<close> has a compact text that the reader refuses).\<close>

theorem parse_compact_compact:
  assumes "readable p" shows "parse_compact (compact p) = Some p"
  using assms by (rule parse_compact_inverse)

theorem parse_compact_compact_witness:
  "parse_compact (compact (CAll [CFeature ''a'', CNot (COption ''kani'' None)])) =
   Some (CAll [CFeature ''a'', CNot (COption ''kani'' None)])"
  by (rule parse_compact_compact) (simp add: utf8_valid_ascii byte_simps)

text \<open>The limit of the round trip: the empty feature name.\<close>

lemma parse_compact_empty_feature: "parse_compact (compact (CFeature [])) = None"
  by (simp add: parse_compact_def read_predicate.simps read_word_def decode_def word_byte_def byte_simps
    from_utf8_def utf8_valid_ascii)

subsection \<open>Compact texts in item ids\<close>

definition id_byte :: "char \<Rightarrow> bool" where
  "id_byte c \<longleftrightarrow> is_alnum c \<or> c \<in> set ''_-%=(),''"

lemma id_byte_literals: "list_all id_byte ''feature=''" "list_all id_byte ''all()''"
  "list_all id_byte ''any()''" "list_all id_byte ''not()''" "list_all id_byte '',''"
  by (simp_all add: id_byte_def byte_simps)

lemma list_all_join_with: "list_all P sep \<Longrightarrow> list_all (list_all P) xs \<Longrightarrow> list_all P (join_with sep xs)"
  by (induction sep xs rule: join_with.induct) auto

lemma encode_id_bytes: "list_all id_byte (encode w)"
  unfolding list_all_iff using cfg.enc_bytes [of _ w] by (auto simp: id_byte_def plain_byte_def)

lemma compact_id_bytes: "list_all id_byte (compact p)"
proof (induction p)
  case (COption key v)
  then show ?case using id_byte_literals by (cases v) (simp_all add: encode_id_bytes)
next
  case (CAll items)
  then have "list_all (list_all id_byte) (map compact items)" by (simp add: list_all_iff)
  from list_all_join_with [OF id_byte_literals(5) this] show ?case using id_byte_literals by simp
next
  case (CAny items)
  then have "list_all (list_all id_byte) (map compact items)" by (simp add: list_all_iff)
  from list_all_join_with [OF id_byte_literals(5) this] show ?case using id_byte_literals by simp
qed (use id_byte_literals in \<open>simp_all add: encode_id_bytes\<close>)

text \<open>The compact text is fit for an item id: it holds no dot, colon, hash, quote, slash or space,
  so the separators of ids and paths never occur in it, and two readable conditions have the same text
  only when they are the same predicate.\<close>

theorem compact_id_safe:
  assumes "readable p" "readable q"
  shows "list_all (\<lambda>c. c \<notin> set (compact p)) (CHR 0x22 # ''.:#/ |'') \<and>
    (compact p = compact q \<longleftrightarrow> p = q)"
proof -
  have "list_all (\<lambda>c. \<not> id_byte c) (CHR 0x22 # ''.:#/ |'')"
    by (simp add: id_byte_def byte_simps)
  then have "list_all (\<lambda>c. c \<notin> set (compact p)) (CHR 0x22 # ''.:#/ |'')"
    using compact_id_bytes [of p] unfolding list_all_iff by blast
  moreover have "compact p = compact q \<longleftrightarrow> p = q"
    using compact_inj [OF assms] by (intro iffI) (assumption | erule arg_cong)+
  ultimately show ?thesis by (rule conjI)
qed

theorem compact_id_safe_witness:
  "compact (CFeature ''a.b'') \<noteq> compact (CFeature ''ab'') \<and> CHR ''.'' \<notin> set (compact (CFeature ''a.b''))"
proof -
  have "readable (CFeature ''a.b'')" "readable (CFeature ''ab'')"
    by (simp_all add: utf8_valid_ascii byte_simps)
  note safe = compact_id_safe [OF this]
  have "CHR ''.'' \<notin> set (compact (CFeature ''a.b''))"
    using safe [THEN conjunct1] unfolding list.pred_inject by (elim conjE)
  moreover have "CFeature ''a.b'' \<noteq> CFeature ''ab''" by simp
  then have "compact (CFeature ''a.b'') \<noteq> compact (CFeature ''ab'')"
    unfolding safe [THEN conjunct2] .
  ultimately show ?thesis by (intro conjI)
qed

end
