(* ===== verification/Json.thy ===== *)
theory Json
  imports Prelude
begin

text \<open>
  JSON values, as \<open>serde_json::Value\<close> has them, with the accessors the handlers use. An object is an
  association list (the library never keeps a key twice). A number is an integer or the text of a
  floating-point number, on which nothing here computes.

  A derived \<open>Deserialize\<close> reads a struct from an object: an unknown key is ignored, an absent key is an
  error unless the field is an \<open>Option\<close>, and \<open>null\<close> is \<open>None\<close> there. The form of a struct as an array of
  its fields, which \<open>serde\<close> also accepts, is never written by the program and is not modelled.
\<close>

datatype json =
    JNull
  | JBool bool
  | JInt int
  | JFloat string
  | JStr string
  | JArr "json list"
  | JObj "(string \<times> json) list"

type_synonym json_map = "(string \<times> json) list"

fun as_object :: "json \<Rightarrow> json_map option" where
  "as_object (JObj m) = Some m"
| "as_object _ = None"

fun as_str :: "json \<Rightarrow> string option" where
  "as_str (JStr s) = Some s"
| "as_str _ = None"

fun as_bool :: "json \<Rightarrow> bool option" where
  "as_bool (JBool b) = Some b"
| "as_bool _ = None"

fun as_array :: "json \<Rightarrow> json list option" where
  "as_array (JArr xs) = Some xs"
| "as_array _ = None"

text \<open>\<open>Value::as_u64\<close>: an integer in the range of \<open>u64\<close>.\<close>

fun as_u64 :: "json \<Rightarrow> nat option" where
  "as_u64 (JInt n) = (if 0 \<le> n \<and> n < 2 ^ 64 then Some (nat n) else None)"
| "as_u64 _ = None"

text \<open>\<open>Value::as_i64\<close>.\<close>

fun as_i64 :: "json \<Rightarrow> int option" where
  "as_i64 (JInt n) = (if - (2 ^ 63) \<le> n \<and> n < 2 ^ 63 then Some n else None)"
| "as_i64 _ = None"

definition get :: "json_map \<Rightarrow> string \<Rightarrow> json option" where
  "get m key = map_of m key"

text \<open>A required field, and an \<open>Option\<close> field, of a derived \<open>Deserialize\<close>.\<close>

definition field :: "json_map \<Rightarrow> string \<Rightarrow> (json \<Rightarrow> 'a option) \<Rightarrow> 'a option" where
  "field m key de = Option.bind (get m key) de"

definition opt_field :: "json_map \<Rightarrow> string \<Rightarrow> (json \<Rightarrow> 'a option) \<Rightarrow> 'a option option" where
  "opt_field m key de =
     (case get m key of
        None \<Rightarrow> Some None
      | Some JNull \<Rightarrow> Some None
      | Some v \<Rightarrow> map_option Some (de v))"

text \<open>A vector, and an object read as an ordered map.\<close>

fun de_list :: "(json \<Rightarrow> 'a option) \<Rightarrow> json \<Rightarrow> 'a list option" where
  "de_list de (JArr xs) = those (map de xs)"
| "de_list de _ = None"

definition de_map :: "(json \<Rightarrow> 'a option) \<Rightarrow> json \<Rightarrow> (string \<rightharpoonup> 'a) option" where
  "de_map de j =
     (case j of
        JObj m \<Rightarrow> map_option map_of (those (map (\<lambda>(k, v). map_option (Pair k) (de v)) m))
      | _ \<Rightarrow> None)"

text \<open>Writing: an \<open>Option\<close> field with \<open>skip_serializing_if = "Option::is_none"\<close> is left out when it is
  \<open>None\<close>; a field of another option type is \<open>null\<close> then.\<close>

definition skip_none :: "string \<Rightarrow> ('a \<Rightarrow> json) \<Rightarrow> 'a option \<Rightarrow> json_map" where
  "skip_none key ser v = (case v of None \<Rightarrow> [] | Some x \<Rightarrow> [(key, ser x)])"

definition or_null :: "('a \<Rightarrow> json) \<Rightarrow> 'a option \<Rightarrow> json" where
  "or_null ser v = (case v of None \<Rightarrow> JNull | Some x \<Rightarrow> ser x)"

lemma get_simps [simp]: "get [] key = None" "get ((k, v) # m) key = (if k = key then Some v else get m key)"
  by (auto simp: get_def)

lemma get_append: "get (m @ n) key = (case get m key of None \<Rightarrow> get n key | Some v \<Rightarrow> Some v)"
  by (simp add: get_def map_of_append map_add_def split: option.splits)

lemma get_skip_none: "get (skip_none k ser v) key = (if k = key then map_option ser v else None)"
  by (cases v) (auto simp: skip_none_def)

lemma those_map_Some: "(\<And>x. x \<in> set xs \<Longrightarrow> f x = Some (g x)) \<Longrightarrow> those (map f xs) = Some (map g xs)"
  by (induction xs) auto

lemma de_list_map: "(\<And>x. x \<in> set xs \<Longrightarrow> de (ser x) = Some (g x)) \<Longrightarrow>
    de_list de (JArr (map ser xs)) = Some (map g xs)"
  using those_map_Some [of xs "de \<circ> ser" g] by simp

end
