(* ===== verification/HandlerUtil.thy ===== *)
theory HandlerUtil
  imports Json "HOL-Library.Word"
begin

unbundle bit_operations_syntax

text \<open>
  The helpers of the handlers, \<open>src/handler_util.rs\<close> and the random suffix of \<open>src/atomic_file.rs\<close>:
  dates from a Unix time, run ids, the safe-id and path checks, argument parsing and the error pairs.
  The clock and the process id are arguments. An error message is the code's, shortened and without
  the values it interpolates; the reason codes are exact.
\<close>

subsection \<open>Constants\<close>

definition EXTRACTOR_VERSION :: string where "EXTRACTOR_VERSION = ''1.0.0''"
definition ORCHESTRATOR_CONTRACT_VERSION :: string where "ORCHESTRATOR_CONTRACT_VERSION = ''1.0.0''"
definition RUN_ID_RANDOM_LEN :: nat where "RUN_ID_RANDOM_LEN = 6"
definition SAFE_ID_MAX_LEN :: nat where "SAFE_ID_MAX_LEN = 128"
definition RUNS_DIR_NAME :: string where "RUNS_DIR_NAME = ''runs''"
definition FINDINGS_DIR_NAME :: string where "FINDINGS_DIR_NAME = ''findings''"
definition INDEX_FILE_NAME :: string where "INDEX_FILE_NAME = ''index.json''"
definition EXTRACTED_FILE_NAME :: string where "EXTRACTED_FILE_NAME = ''stage-1.extracted.json''"
definition SOURCE_FILE_NAME :: string where "SOURCE_FILE_NAME = ''stage-1.source.json''"
definition REFINED_FILE_NAME :: string where "REFINED_FILE_NAME = ''stage-1.refined.json''"
definition VERIFIER_VERSION :: string where "VERIFIER_VERSION = ''1.0.0''"
definition SESSION_FILE_NAME :: string where "SESSION_FILE_NAME = ''stage-2.session.json''"
definition VERIFIED_FILE_NAME :: string where "VERIFIED_FILE_NAME = ''stage-2.verified.json''"
definition DIGEST_ALGORITHM :: string where "DIGEST_ALGORITHM = ''sha256''"

subsection \<open>Dates\<close>

text \<open>\<open>civil_from_unix\<close> gives year, month, day, hour, minute and second. Its \<open>i64\<close> arithmetic never
  overflows for a time below \<open>2 ^ 64\<close>, so it is on integers.\<close>

definition civil_from_unix :: "int \<Rightarrow> int \<times> int \<times> int \<times> int \<times> int \<times> int" where
  "civil_from_unix secs =
     (let days = secs div 86400;
          rem = secs mod 86400;
          h = rem div 3600;
          mi = rem mod 3600 div 60;
          s = rem mod 60;
          z = days + 719468;
          era = (if 0 \<le> z then z else z - 146096) div 146097;
          doe = z - era * 146097;
          yoe = (doe - doe div 1460 + doe div 36524 - doe div 146096) div 365;
          y = yoe + era * 400;
          doy = doe - (365 * yoe + yoe div 4 - yoe div 100);
          mp = (5 * doy + 2) div 153;
          d = doy - (153 * mp + 2) div 5 + 1;
          mo = (if mp < 10 then mp + 3 else mp - 9);
          y' = (if mo \<le> 2 then y + 1 else y)
      in (y', mo, d, h, mi, s))"

definition format_iso8601_utc :: "nat \<Rightarrow> string" where
  "format_iso8601_utc secs =
     (case civil_from_unix (int secs) of (y, mo, d, h, mi, s) \<Rightarrow>
        dec_pad 4 (nat y) @ ''-'' @ dec_pad 2 (nat mo) @ ''-'' @ dec_pad 2 (nat d) @ ''T'' @
        dec_pad 2 (nat h) @ '':'' @ dec_pad 2 (nat mi) @ '':'' @ dec_pad 2 (nat s) @ ''Z'')"

definition format_compact_utc :: "nat \<Rightarrow> string" where
  "format_compact_utc secs =
     (case civil_from_unix (int secs) of (y, mo, d, h, mi, s) \<Rightarrow>
        dec_pad 4 (nat y) @ dec_pad 2 (nat mo) @ dec_pad 2 (nat d) @ ''-'' @
        dec_pad 2 (nat h) @ dec_pad 2 (nat mi) @ dec_pad 2 (nat s))"

subsection \<open>Run ids\<close>

definition RUN_ID_RANDOM_ALPHABET :: string where
  "RUN_ID_RANDOM_ALPHABET = ''abcdefghijklmnopqrstuvwxyz0123456789''"

definition suffix_seed :: "64 word \<Rightarrow> 64 word \<Rightarrow> 64 word \<Rightarrow> 64 word" where
  "suffix_seed secs nanos pid =
     (let state = (secs * 6364136223846793005 + nanos * 1442695040888963407) XOR pid
      in if state = 0 then 0x9E3779B97F4A7C15 else state)"

definition xorshift :: "64 word \<Rightarrow> 64 word" where
  "xorshift state =
     (let s1 = state XOR push_bit 13 state;
          s2 = s1 XOR drop_bit 7 s1
      in s2 XOR push_bit 17 s2)"

primrec suffix_chars :: "nat \<Rightarrow> 64 word \<Rightarrow> string" where
  "suffix_chars 0 state = []"
| "suffix_chars (Suc n) state =
     (let state' = xorshift state
      in (RUN_ID_RANDOM_ALPHABET ! (unat state' mod length RUN_ID_RANDOM_ALPHABET)) # suffix_chars n state')"

definition random_suffix :: "64 word \<Rightarrow> 64 word \<Rightarrow> 64 word \<Rightarrow> nat \<Rightarrow> string" where
  "random_suffix secs nanos pid len = suffix_chars len (suffix_seed secs nanos pid)"

definition generate_run_id :: "64 word \<Rightarrow> 64 word \<Rightarrow> 64 word \<Rightarrow> string" where
  "generate_run_id secs nanos pid =
     format_compact_utc (unat secs) @ ''-'' @ random_suffix secs nanos pid RUN_ID_RANDOM_LEN"

subsection \<open>Safe ids and paths\<close>

definition safe_id_byte :: "char \<Rightarrow> bool" where
  "safe_id_byte b \<longleftrightarrow> is_alnum b \<or> b = CHR ''.'' \<or> b = CHR ''_'' \<or> b = CHR ''-''"

definition validate_safe_id :: "string \<Rightarrow> string + unit" where
  "validate_safe_id ident =
     (if ident = [] then Inl ''unsafe {}: must be non-empty''
      else if length ident > SAFE_ID_MAX_LEN then Inl ''unsafe {}: length {} exceeds max {}''
      else if starts_with ident ''.'' then Inl ''unsafe {}: must not start with a dot''
      else if contains ident ''..'' then Inl ''unsafe {}: must not contain two dots''
      else if \<not> list_all safe_id_byte ident then Inl ''unsafe {}: must match [A-Za-z0-9._-]+''
      else Inr ())"

text \<open>A \<open>PathBuf\<close> is its text. \<open>components\<close> is \<open>Path::components\<close> without the root: the pieces between
  slashes that are not empty and not a single dot; \<open>..\<close> is kept (\<open>Component::ParentDir\<close>). \<open>path_join\<close>
  is \<open>Path::join\<close>.\<close>

definition is_absolute :: "string \<Rightarrow> bool" where
  "is_absolute p \<longleftrightarrow> starts_with p ''/''"

definition components :: "string \<Rightarrow> string list" where
  "components p = filter (\<lambda>c. c \<noteq> [] \<and> c \<noteq> ''.'') (split_on ''/'' p)"

definition path_join :: "string \<Rightarrow> string \<Rightarrow> string" where
  "path_join p s =
     (if is_absolute s then s else if p = [] \<or> ends_with p ''/'' then p @ s else p @ ''/'' @ s)"

definition require_absolute :: "string \<Rightarrow> string + string" where
  "require_absolute p =
     (if \<not> is_absolute p then Inl ''{} must be an absolute path (spec 3.1): got {:?}''
      else if list_ex (\<lambda>c. c = ''..'') (components p)
           then Inl ''{} must not contain two dots (spec 5.1.4): got {:?}''
      else Inr p)"

subsection \<open>Arguments and errors\<close>

definition bad_request :: "string \<Rightarrow> stage_err" where "bad_request msg = (''bad_request'', msg)"
definition io_err :: "string \<Rightarrow> stage_err" where "io_err msg = (''io_error'', msg)"
definition unsafe_id_err :: "string \<Rightarrow> stage_err" where "unsafe_id_err msg = (''unsafe_id'', msg)"

definition parse_bool_arg :: "json_map \<Rightarrow> string \<Rightarrow> bool \<Rightarrow> string + bool" where
  "parse_bool_arg args key dflt =
     (case get args key of
        None \<Rightarrow> Inr dflt
      | Some JNull \<Rightarrow> Inr dflt
      | Some (JBool b) \<Rightarrow> Inr b
      | Some other \<Rightarrow> Inl ''field {key} must be a boolean, got {other}'')"

definition require_string_arg :: "json_map \<Rightarrow> string \<Rightarrow> stage_err + string" where
  "require_string_arg args key =
     ok_or (bad_request ''missing required field {} (spec 9.2)'') (Option.bind (get args key) as_str)"

subsection \<open>Dates against the calendar\<close>

text \<open>The proleptic Gregorian calendar, as the specification of \<open>civil_from_unix\<close>.\<close>

definition leap_year :: "int \<Rightarrow> bool" where
  "leap_year y \<longleftrightarrow> y mod 4 = 0 \<and> (y mod 100 \<noteq> 0 \<or> y mod 400 = 0)"

definition month_length :: "int \<Rightarrow> int \<Rightarrow> int" where
  "month_length y m =
     (if m = 2 then if leap_year y then 29 else 28
      else if m = 4 \<or> m = 6 \<or> m = 9 \<or> m = 11 then 30 else 31)"

text \<open>Days from 1 January of year 0 to 1 January of year \<open>y\<close>, and to day \<open>d\<close> of month \<open>m\<close>.\<close>

definition days_before_year :: "int \<Rightarrow> int" where
  "days_before_year y = 365 * y + (y + 3) div 4 - (y + 99) div 100 + (y + 399) div 400"

definition day_number :: "int \<Rightarrow> int \<Rightarrow> int \<Rightarrow> int" where
  "day_number y m d = days_before_year y + sum_list (map (month_length y) [1..m - 1]) + (d - 1)"

lemma leap_count: "(r \<Longrightarrow> q) \<Longrightarrow> (q \<Longrightarrow> p) \<Longrightarrow>
    (if p then 1 else 0) - (if q then 1 else 0) + (if r then 1 else 0) = (if p \<and> (\<not> q \<or> r) then 1 else 0 :: int)"
  by (cases p; cases q; cases r; simp)

lemma days_before_year_Suc: "days_before_year (y + 1) = days_before_year y + (if leap_year y then 366 else 365)"
proof -
  have *: "(y + 1 + m) div n = (y + m) div n + (if y mod n = 0 then 1 else 0)" if "n = m + 1" "0 \<le> m" for n m :: int
  proof -
    define k where "k = y div n" 
    define r where "r = y mod n"
    have y: "y = n * k + r" "0 \<le> r" "r < n" using that pos_mod_bound [of n y] by (auto simp: k_def r_def)
    have "(y + 1 + m) div n = k + 1"
      by (rule int_div_pos_eq [where r = r]) (use y that in \<open>simp_all add: algebra_simps\<close>)
    moreover have "(y + m) div n = (if r = 0 then k else k + 1)"
      by (rule int_div_pos_eq [where r = "if r = 0 then m else r - 1"])
        (use y that in \<open>auto simp: algebra_simps\<close>)
    ultimately show ?thesis by (simp add: r_def)
  qed
  have a: "(y + 1 + 3) div 4 = (y + 3) div 4 + (if y mod 4 = 0 then 1 else 0)"
      "(y + 1 + 99) div 100 = (y + 99) div 100 + (if y mod 100 = 0 then 1 else 0)"
      "(y + 1 + 399) div 400 = (y + 399) div 400 + (if y mod 400 = 0 then 1 else 0)"
    by (rule *; simp)+
  have "days_before_year (y + 1) = days_before_year y + 365 + ((if y mod 4 = 0 then 1 else 0)
      - (if y mod 100 = 0 then 1 else 0) + (if y mod 400 = 0 then 1 else 0))"
  proof -
    have "365 * (y + 1) + (a4 + p) - (a100 + q) + (a400 + r) = 365 * y + a4 - a100 + a400 + 365 + (p - q + r)"
      for a4 a100 a400 p q r :: int by simp
    then show ?thesis unfolding days_before_year_def a .
  qed
  moreover have "y mod 400 = 0 \<Longrightarrow> y mod 100 = 0" "y mod 100 = 0 \<Longrightarrow> y mod 4 = 0"
    using mod_mod_cancel [of 100 400 y] mod_mod_cancel [of 4 100 y] by simp_all
  then have "(if y mod 4 = 0 then 1 else 0) - (if y mod 100 = 0 then 1 else 0) + (if y mod 400 = 0 then 1 else 0)
      = (if leap_year y then 1 else 0 :: int)"
    unfolding leap_year_def by (rule leap_count)
  ultimately show ?thesis by simp
qed

text \<open>The year of the day in a 400-year era: century \<open>b\<close>, four-year cycle \<open>k\<close>, day \<open>r\<close> of the cycle.\<close>

lemma year_of_era:
  fixes b k r j :: int
  assumes b: "0 \<le> b" "b \<le> 3" and k: "0 \<le> k" "k \<le> 24" and r: "0 \<le> r" "r \<le> 1460"
    and last: "k = 24 \<and> r = 1460 \<longrightarrow> b = 3"
    and j: "0 \<le> j" "j \<le> 3" "365 * j \<le> r" "r < 365 * j + 365 \<or> j = 3 \<and> r = 1460"
    and doe: "doe = 36524 * b + 1461 * k + r"
  shows "(doe - doe div 1460 + doe div 36524 - doe div 146096) div 365 = 100 * b + 4 * k + j"
proof -
  define e where "e = (if 24 * b + k + r < 1460 then 0 else 1 :: int)"
  have a: "doe div 1460 = 25 * b + k + e"
    using b k r by (intro int_div_pos_eq [where r = "24 * b + k + r - 1460 * e"]) (auto simp: doe e_def)
  define c where "c = (if k = 24 \<and> r = 1460 then 1 else 0 :: int)"
  have c1: "doe div 36524 = b + c"
    using b k r by (intro int_div_pos_eq [where r = "1461 * k + r - 36524 * c"]) (auto simp: doe c_def)
  have c2: "doe div 146096 = c"
    using b k r last by (intro int_div_pos_eq [where r = "doe - 146096 * c"]) (auto simp: doe c_def)
  have "365 * (100 * b + 4 * k + j) \<le> doe - doe div 1460 + doe div 36524 - doe div 146096"
    "doe - doe div 1460 + doe div 36524 - doe div 146096 < 365 * (100 * b + 4 * k + j) + 365"
    unfolding a c1 c2 using b k r j by (auto simp: doe e_def)
  then show ?thesis
    by (intro int_div_pos_eq
      [where r = "doe - doe div 1460 + doe div 36524 - doe div 146096 - 365 * (100 * b + 4 * k + j)"]) auto
qed

text \<open>The month of the day \<open>doy\<close> of a year that starts in March, and the first day of that month.\<close>

definition march_month :: "int \<Rightarrow> int" where
  "march_month doy = (5 * doy + 2) div 153"

definition march_start :: "int \<Rightarrow> int" where
  "march_start mp = (153 * mp + 2) div 5"

lemma march_month_range: "0 \<le> doy \<Longrightarrow> doy \<le> 365 \<Longrightarrow> march_month doy \<in> {0..11}"
  by (simp add: march_month_def div_int_pos_iff)

lemma march_month_bounds:
  "march_start (march_month doy) \<le> doy \<and> doy < march_start (march_month doy + 1)"
proof -
  define q where "q = (5 * doy + 2) div 153"
  have q: "153 * q \<le> 5 * doy + 2" "5 * doy + 2 < 153 * q + 153"
    unfolding q_def using div_mult_mod_eq [of "5 * doy + 2" 153] pos_mod_bound [of 153 "5 * doy + 2"]
      pos_mod_sign [of 153 "5 * doy + 2"] by linarith+
  have start: "5 * march_start p \<le> 153 * p + 2" "153 * p + 2 < 5 * march_start p + 5" for p
    unfolding march_start_def using div_mult_mod_eq [of "153 * p + 2" 5] pos_mod_bound [of 5 "153 * p + 2"]
      pos_mod_sign [of 5 "153 * p + 2"] by linarith+
  show ?thesis
    using q start(1) [of q] start(2) [of "q + 1"] unfolding march_month_def q_def [symmetric]
    by simp
qed

lemma atLeastAtMost_0_11: "(mp :: int) \<in> {0..11} \<longleftrightarrow>
    mp = 0 \<or> mp = 1 \<or> mp = 2 \<or> mp = 3 \<or> mp = 4 \<or> mp = 5 \<or> mp = 6 \<or> mp = 7 \<or> mp = 8 \<or> mp = 9 \<or> mp = 10 \<or> mp = 11"
  by simp presburger

text \<open>In the civil year \<open>y\<close> (for January and February, the year after the March year), day \<open>doy\<close> is day
  \<open>doy - march_start mp + 1\<close> of its month.\<close>

lemma march_civil:
  fixes mp doy y Y :: int
  assumes mp: "mp \<in> {0..11}" and doy: "march_start mp \<le> doy" "doy < march_start (mp + 1)"
    and leap: "doy \<le> 364 \<or> leap_year (Y + 1)" "doy \<le> 365"
    and m: "m = (if mp < 10 then mp + 3 else mp - 9)" and y: "y = (if m \<le> 2 then Y + 1 else Y)"
    and d: "d = doy - march_start mp + 1"
  shows "1 \<le> m \<and> m \<le> 12 \<and> 1 \<le> d \<and> d \<le> month_length y m \<and>
    day_number y m d = days_before_year (Y + 1) - 306 + doy"
proof -
  have "days_before_year (Y + 1) = days_before_year Y + (if leap_year Y then 366 else 365)"
    by (rule days_before_year_Suc)
  with mp doy leap show ?thesis
    unfolding atLeastAtMost_0_11
    by (elim disjE) (auto simp: m y d march_start_def day_number_def month_length_def upto.simps)
qed

text \<open>The day of an era: its year and the day in it.\<close>

lemma era_day:
  fixes doe :: int
  assumes "0 \<le> doe" "doe \<le> 146096"
  defines "yoe \<equiv> (doe - doe div 1460 + doe div 36524 - doe div 146096) div 365"
  defines "doy \<equiv> doe - (365 * yoe + yoe div 4 - yoe div 100)"
  shows "0 \<le> yoe \<and> yoe \<le> 399 \<and> 0 \<le> doy \<and> doy \<le> 365 \<and> (doy \<le> 364 \<or> leap_year (yoe + 1 + 400 * era))"
proof -
  define b where "b = min (doe div 36524) 3"
  define q where "q = doe - 36524 * b"
  define k where "k = q div 1461"
  define r where "r = q mod 1461"
  define j where "j = min (r div 365) 3"
  have b: "0 \<le> b" "b \<le> 3" using assms(1) by (auto simp: b_def)
  have q: "0 \<le> q" "q \<le> 36524" "q = 36524 \<longrightarrow> b = 3"
    using assms(1,2) by (auto simp: q_def b_def min_def)
  have doe: "q = 1461 * k + r" by (simp add: k_def r_def)
  have r: "0 \<le> r" "r \<le> 1460" using pos_mod_bound [of 1461 q] by (simp_all add: r_def)
  have k: "0 \<le> k" "k \<le> 24" using doe q r by linarith+
  have last: "k = 24 \<and> r = 1460 \<longrightarrow> b = 3" using doe q by auto
  have j: "0 \<le> j" "j \<le> 3" "365 * j \<le> r" "r < 365 * j + 365 \<or> j = 3 \<and> r = 1460"
    using r by (auto simp: j_def min_def)
  have yoe: "yoe = 100 * b + 4 * k + j"
    unfolding yoe_def using doe by (intro year_of_era [OF b k r last j]) (simp add: q_def)
  have "yoe div 4 = 25 * b + k" "yoe div 100 = b" using b k j by (auto simp: yoe)
  then have doy: "doy = r - 365 * j" using doe by (simp add: doy_def yoe q_def)
  have leap: "leap_year (yoe + 1 + 400 * era)" if "r = 1460"
  proof -
    have "j = 3" using that j by auto
    have "k = 24 \<longrightarrow> b = 3" using last that by simp
    have "yoe + 1 + 400 * era = 4 * (25 * b + k + 1 + 100 * era)" using \<open>j = 3\<close> yoe by simp
    then have "(yoe + 1 + 400 * era) mod 4 = 0" by simp
    moreover have "(yoe + 1 + 400 * era) mod 100 \<noteq> 0" if "k \<noteq> 24"
    proof -
      have "yoe + 1 + 400 * era = (4 * k + 4) + 100 * (b + 4 * era)" using \<open>j = 3\<close> yoe by simp
      then have "(yoe + 1 + 400 * era) mod 100 = (4 * k + 4) mod 100" by (simp only: mod_mult_self2)
      then show ?thesis using k that by simp
    qed
    moreover have "(yoe + 1 + 400 * era) mod 400 = 0" if "k = 24"
    proof -
      have "yoe + 1 + 400 * era = 400 * (1 + era)" using \<open>j = 3\<close> yoe \<open>k = 24 \<longrightarrow> b = 3\<close> that by simp
      then show ?thesis by simp
    qed
    ultimately show ?thesis unfolding leap_year_def by metis
  qed
  show ?thesis using b k r j leap by (auto simp: yoe doy)
qed

lemma civil_from_unix_date:
  assumes "0 \<le> secs" "civil_from_unix secs = (y, m, d, h, mi, s)"
  shows "1 \<le> m \<and> m \<le> 12 \<and> 1 \<le> d \<and> d \<le> month_length y m \<and>
    0 \<le> h \<and> h < 24 \<and> 0 \<le> mi \<and> mi < 60 \<and> 0 \<le> s \<and> s < 60 \<and>
    secs = 86400 * (day_number y m d - day_number 1970 1 1) + 3600 * h + 60 * mi + s"
proof -
  define z where "z = secs div 86400 + 719468"
  define era where "era = z div 146097"
  define doe where "doe = z - era * 146097"
  define yoe where "yoe = (doe - doe div 1460 + doe div 36524 - doe div 146096) div 365"
  define doy where "doy = doe - (365 * yoe + yoe div 4 - yoe div 100)"
  define mp where "mp = march_month doy"
  have z: "0 \<le> z" using assms(1) by (simp add: z_def div_int_pos_iff)
  have doe: "0 \<le> doe" "doe \<le> 146096"
    using pos_mod_bound [of 146097 z] by (simp_all add: doe_def era_def minus_div_mult_eq_mod)
  have day: "0 \<le> yoe" "yoe \<le> 399" "0 \<le> doy" "doy \<le> 365" "doy \<le> 364 \<or> leap_year (yoe + 400 * era + 1)"
    using era_day [OF doe, of era] by (auto simp: yoe_def doy_def algebra_simps)
  have m: "m = (if mp < 10 then mp + 3 else mp - 9)" and y: "y = (if m \<le> 2 then yoe + 400 * era + 1 else yoe + 400 * era)"
    and d: "d = doy - march_start mp + 1"
    and t: "h = secs mod 86400 div 3600" "mi = secs mod 86400 mod 3600 div 60" "s = secs mod 86400 mod 60"
    using assms(2) z
    unfolding civil_from_unix_def Let_def z_def [symmetric] if_P [OF z] era_def [symmetric] doe_def [symmetric]
      yoe_def [symmetric] doy_def [symmetric] march_month_def [symmetric] mp_def [symmetric] march_start_def [symmetric]
    by (auto simp: algebra_simps)
  have mp: "mp \<in> {0..11}" unfolding mp_def using day by (intro march_month_range)
  have "march_start mp \<le> doy" "doy < march_start (mp + 1)" unfolding mp_def using march_month_bounds by blast+
  from march_civil [OF mp this day(5,4) m y d]
  have civil: "1 \<le> m" "m \<le> 12" "1 \<le> d" "d \<le> month_length y m"
    "day_number y m d = days_before_year (yoe + 400 * era + 1) - 306 + doy" by simp_all
  have "days_before_year (yoe + 400 * era + 1) = 146097 * era + 365 * yoe + yoe div 4 - yoe div 100 + 366"
  proof -
    have "(yoe + 4 * (100 * era + 1)) div 4 = yoe div 4 + (100 * era + 1)"
      "(yoe + 100 * (4 * era + 1)) div 100 = yoe div 100 + (4 * era + 1)"
      "(yoe + 400 * (era + 1)) div 400 = era + 1"
      using day(1,2) by simp_all
    moreover have "yoe + 400 * era + 1 + 3 = yoe + 4 * (100 * era + 1)"
      "yoe + 400 * era + 1 + 99 = yoe + 100 * (4 * era + 1)"
      "yoe + 400 * era + 1 + 399 = yoe + 400 * (era + 1)" by simp_all
    ultimately have year: "(yoe + 400 * era + 1 + 3) div 4 = yoe div 4 + (100 * era + 1)"
      "(yoe + 400 * era + 1 + 99) div 100 = yoe div 100 + (4 * era + 1)"
      "(yoe + 400 * era + 1 + 399) div 400 = era + 1" by (simp_all only:)
    show ?thesis unfolding days_before_year_def year by simp
  qed
  then have "day_number y m d = z + 60" using civil(5) by (simp add: doy_def doe_def)
  moreover have "day_number 1970 1 1 = 719528" by (simp add: day_number_def days_before_year_def)
  ultimately have "day_number y m d - day_number 1970 1 1 = secs div 86400" by (simp add: z_def)
  moreover have "0 \<le> h \<and> h < 24 \<and> 0 \<le> mi \<and> mi < 60 \<and> 0 \<le> s \<and> s < 60 \<and>
    secs = 86400 * (secs div 86400) + 3600 * h + 60 * mi + s"
  proof -
    define rem where "rem = secs mod 86400"
    define a where "a = rem div 3600"
    define b where "b = rem mod 3600"
    define c where "c = b div 60"
    define e where "e = b mod 60"
    have "rem mod 60 = e" by (simp add: b_def e_def mod_mod_cancel)
    moreover have "0 \<le> rem" "rem < 86400" "secs = 86400 * (secs div 86400) + rem" by (simp_all add: rem_def)
    moreover have "rem = 3600 * a + b" "0 \<le> b" "b < 3600" by (simp_all add: a_def b_def)
    moreover have "b = 60 * c + e" "0 \<le> e" "e < 60" by (simp_all add: c_def e_def)
    ultimately show ?thesis
      unfolding t rem_def [symmetric] a_def [symmetric] b_def [symmetric] c_def [symmetric] by (intro conjI; linarith)
  qed
  ultimately show ?thesis using civil by simp
qed

text \<open>The date that \<open>civil_from_unix\<close> gives is a date of the proleptic Gregorian calendar, and its
  day number, counted from 1 January 1970, and its time of day are the seconds it was given.\<close>

theorem civil_from_unix_calendar:
  assumes "0 \<le> secs" "civil_from_unix secs = (y, m, d, h, mi, s)"
  shows "1 \<le> m \<and> m \<le> 12 \<and> 1 \<le> d \<and> d \<le> month_length y m \<and>
    0 \<le> h \<and> h < 24 \<and> 0 \<le> mi \<and> mi < 60 \<and> 0 \<le> s \<and> s < 60 \<and>
    secs = 86400 * (day_number y m d - day_number 1970 1 1) + 3600 * h + 60 * mi + s"
  using assms by (rule civil_from_unix_date)

theorem civil_from_unix_calendar_witness:
  "951782400 = 86400 * (day_number 2000 2 29 - day_number 1970 1 1)"
proof -
  have "civil_from_unix 951782400 = (2000, 2, 29, 0, 0, 0)" by code_simp
  from civil_from_unix_calendar [OF zero_le_numeral this]
  have "951782400 = 86400 * (day_number 2000 2 29 - day_number 1970 1 1) + 3600 * 0 + 60 * 0 + 0"
    by blast
  then show ?thesis by simp
qed

subsection \<open>Generated run ids\<close>

lemma dec_pad_length: "n < 10 ^ k \<Longrightarrow> 0 < k \<Longrightarrow> length (dec_pad w n) \<le> max w k"
  using dec_length [of n k] by (simp add: dec_pad_def)

lemma length_suffix_chars [simp]: "length (suffix_chars n state) = n"
  by (induction n arbitrary: state) (simp_all add: Let_def)

lemma suffix_chars_bytes: "set (suffix_chars n state) \<subseteq> set RUN_ID_RANDOM_ALPHABET"
proof (induction n arbitrary: state)
  case (Suc n)
  have "unat (xorshift state) mod length RUN_ID_RANDOM_ALPHABET < length RUN_ID_RANDOM_ALPHABET"
    by (simp add: RUN_ID_RANDOM_ALPHABET_def)
  then show ?case using Suc by (simp add: Let_def)
qed simp

lemma month_length_nonneg: "0 \<le> month_length y m"
  by (simp add: month_length_def)

lemma civil_year_bound:
  assumes "0 \<le> secs" "secs < 2 ^ 64" "civil_from_unix secs = (y, m, d, h, mi, s)"
  shows "y < 10 ^ 12"
proof -
  have date: "1 \<le> d" "0 \<le> h" "0 \<le> mi" "0 \<le> s"
    "secs = 86400 * (day_number y m d - day_number 1970 1 1) + 3600 * h + 60 * mi + s"
    using civil_from_unix_date [OF assms(1,3)] by blast+
  have "0 \<le> sum_list (map (month_length y) [1..m - 1])"
    by (rule sum_list_nonneg) (auto simp: month_length_nonneg)
  then have "days_before_year y \<le> day_number y m d" using date by (simp add: day_number_def)
  moreover have epoch: "day_number 1970 1 1 = 719528" by (simp add: day_number_def days_before_year_def)
  ultimately have days: "86400 * (days_before_year y - 719528) \<le> secs" using date(2-) unfolding epoch by simp
  define a where "a = (y + 3) div 4"
  define b where "b = (y + 99) div 100"
  define c where "c = (y + 399) div 400"
  have "y - 1 < 4 * a" "100 * b \<le> y + 99" "y - 1 < 400 * c" unfolding a_def b_def c_def by simp_all
  moreover have "days_before_year y = 365 * y + a - b + c"
    by (simp add: days_before_year_def a_def b_def c_def)
  ultimately show ?thesis using days assms(2) by simp
qed

lemma format_compact_bytes: "list_all (\<lambda>b. is_digit b \<or> b = CHR ''-'') (format_compact_utc n)"
  using dec_pad_digits by (auto simp: format_compact_utc_def list_all_iff split: prod.splits)

lemma format_compact_length: "n < 2 ^ 64 \<Longrightarrow> length (format_compact_utc n) \<le> 23"
proof -
  assume n: "n < 2 ^ 64"
  obtain y m d h mi s where c: "civil_from_unix (int n) = (y, m, d, h, mi, s)" by (metis prod.exhaust)
  have "int n < int (2 ^ 64)" using n by (simp only: of_nat_less_iff)
  then have "int n < 2 ^ 64" by simp
  from civil_year_bound [OF _ this c] have "nat y < 10 ^ 12" by simp
  moreover have "nat m < 10 ^ 2" "nat d < 10 ^ 2" "nat h < 10 ^ 2" "nat mi < 10 ^ 2" "nat s < 10 ^ 2"
    using civil_from_unix_date [OF _ c] by (auto simp: month_length_def split: if_splits)
  ultimately show ?thesis
    using dec_pad_length [of "nat y" 12 4] dec_pad_length [of "nat m" 2 2] dec_pad_length [of "nat d" 2 2]
      dec_pad_length [of "nat h" 2 2] dec_pad_length [of "nat mi" 2 2] dec_pad_length [of "nat s" 2 2]
    by (simp add: format_compact_utc_def c)
qed

lemma generate_run_id_safe: "validate_safe_id (generate_run_id secs nanos pid) = Inr ()"
proof -
  let ?id = "generate_run_id secs nanos pid"
  have alphabet: "list_all is_alnum RUN_ID_RANDOM_ALPHABET"
    by (simp add: RUN_ID_RANDOM_ALPHABET_def byte_simps)
  have bytes: "is_alnum c \<or> c = CHR ''-''" if "c \<in> set ?id" for c
    using that format_compact_bytes [of "unat secs"] suffix_chars_bytes [of RUN_ID_RANDOM_LEN] alphabet
    by (fastforce simp: generate_run_id_def random_suffix_def list_all_iff is_alnum_def)
  have "CHR ''.'' \<notin> set ?id" using bytes [of "CHR ''.''"] by (auto simp: byte_simps)
  then have "\<not> starts_with ?id ''.''" "\<not> contains ?id ''..''"
    by (auto simp: starts_with_iff contains_iff)
  moreover have "list_all safe_id_byte ?id" using bytes by (auto simp: list_all_iff safe_id_byte_def)
  moreover have "length ?id \<le> SAFE_ID_MAX_LEN" 
  proof -
    have "unat secs < 2 ^ 64" using unsigned_less [of secs, where 'a = nat] by simp
    from format_compact_length [OF this] show ?thesis
      by (simp add: generate_run_id_def random_suffix_def RUN_ID_RANDOM_LEN_def SAFE_ID_MAX_LEN_def)
  qed
  moreover have "?id \<noteq> []" by (simp add: generate_run_id_def)
  ultimately show ?thesis by (simp add: validate_safe_id_def)
qed

text \<open>A run id that the program generates is a safe id, whatever the clock and the process id: the
  stage-2 tools, which validate the run id they are given, accept it.\<close>

theorem generated_run_id_safe: "validate_safe_id (generate_run_id secs nanos pid) = Inr ()"
  by (rule generate_run_id_safe)

subsection \<open>Paths of safe ids\<close>

lemma split_acc_byte: "split_acc [c] acc s =
    (if c \<in> set s then (rev acc @ takeWhile (\<lambda>b. b \<noteq> c) s) # split_acc [c] [] (tl (dropWhile (\<lambda>b. b \<noteq> c) s))
     else [rev acc @ s])"
  by (induction s arbitrary: acc) (auto simp: starts_with_def)

lemma split_on_plain: "c \<notin> set s \<Longrightarrow> split_on [c] s = [s]"
  by (simp add: split_on_def split_acc_byte)

lemma split_acc_append: "split_acc [c] acc (a @ c # b) = split_acc [c] acc a @ split_acc [c] [] b"
  by (induction a arbitrary: acc) (auto simp: starts_with_def)

lemma split_on_append: "split_on [c] (a @ c # b) = split_on [c] a @ split_on [c] b"
  by (simp add: split_on_def split_acc_append)

text \<open>A single path component: not empty, no slash, not a dot.\<close>

definition plain_component :: "string \<Rightarrow> bool" where
  "plain_component s \<longleftrightarrow> s \<noteq> [] \<and> CHR ''/'' \<notin> set s \<and> s \<noteq> ''.''"

lemma components_plain: "plain_component s \<Longrightarrow> components s = [s]"
  by (simp add: plain_component_def components_def split_on_plain)

lemma components_path_join:
  assumes "is_absolute p" "plain_component s"
  shows "components (path_join p s) = components p @ [s]" "is_absolute (path_join p s)"
proof -
  have rel: "\<not> is_absolute s" "p \<noteq> []"
    using assms by (auto simp: is_absolute_def plain_component_def starts_with_iff)
  show "is_absolute (path_join p s)"
    using assms(1) rel by (auto simp: path_join_def is_absolute_def starts_with_iff)
  show "components (path_join p s) = components p @ [s]"
  proof (cases "ends_with p ''/''")
    case True
    then obtain q where q: "p = q @ CHR ''/'' # []" by (auto simp: ends_with_iff)
    have "split_on ''/'' (p @ s) = split_on ''/'' q @ split_on ''/'' s"
      using split_on_append [of "CHR ''/''" q s] q by simp
    moreover have "split_on ''/'' p = split_on ''/'' q @ split_on ''/'' []"
      using split_on_append [of "CHR ''/''" q "[]"] q by simp
    moreover have "split_on ''/'' [] = [[]]" by (simp add: split_on_def)
    ultimately show ?thesis using True rel components_plain [OF assms(2)]
      by (simp add: path_join_def components_def)
  next
    case False
    then show ?thesis using rel components_plain [OF assms(2)] split_on_append [of "CHR ''/''" p s]
      by (simp add: path_join_def components_def)
  qed
qed

lemma safe_id_plain: "validate_safe_id s = Inr () \<Longrightarrow> plain_component s \<and> s \<noteq> ''..''"
  by (auto simp: validate_safe_id_def plain_component_def list_all_iff starts_with_iff split: if_splits)
    (auto simp: safe_id_byte_def byte_simps)

lemma require_absolute_Inr:
  "require_absolute p = Inr q \<longleftrightarrow> q = p \<and> is_absolute p \<and> ''..'' \<notin> set (components p)"
  by (auto simp: require_absolute_def list_ex_iff)

lemma file_names_plain:
  "plain_component RUNS_DIR_NAME" "plain_component FINDINGS_DIR_NAME" "plain_component INDEX_FILE_NAME"
  "plain_component EXTRACTED_FILE_NAME" "plain_component SOURCE_FILE_NAME" "plain_component REFINED_FILE_NAME"
  "plain_component SESSION_FILE_NAME" "plain_component VERIFIED_FILE_NAME"
  by (simp_all add: plain_component_def RUNS_DIR_NAME_def FINDINGS_DIR_NAME_def INDEX_FILE_NAME_def
    EXTRACTED_FILE_NAME_def SOURCE_FILE_NAME_def REFINED_FILE_NAME_def SESSION_FILE_NAME_def VERIFIED_FILE_NAME_def)

end
