(* ===== verification/FindingStore.thy ===== *)
theory FindingStore
  imports HandlerUtil "HOL-Library.AList"
begin

text \<open>
  The finding store: the files of stage 1, \<open>src/finding_index.rs\<close>, \<open>src/finding_extract.rs\<close> and
  \<open>src/finding_refine.rs\<close>. The files of a machine are a map from paths, each the list of its
  components, to contents. A JSON file is kept as the JSON value of its text, in the order of the text and
  with the keys it repeats. An \<open>env\<close> holds what a call takes from outside: the clock, the process id, the
  writes that fail, the text that \<open>serde_json\<close> gives for a value and the text of an integer read as \<open>f64\<close>.
\<close>

subsection \<open>Files\<close>

type_synonym fpath = "string list"

datatype content = CJson json | CText string | CUnreadable

type_synonym files = "fpath \<rightharpoonup> content"

record env =
  clock :: nat
  index_clock :: nat
  nanos :: "64 word"
  pid :: "64 word"
  write_fails :: "fpath \<Rightarrow> bool"
  mkdir_fails :: "fpath \<Rightarrow> bool"
  pretty_text :: "json \<Rightarrow> string"
  line_text :: "json \<Rightarrow> string"
  f64_text :: "int \<Rightarrow> string"
  sha256 :: "string \<Rightarrow> string"

text \<open>\<open>write_json_atomic\<close>: a temporary file renamed over the target, so a write that fails leaves the old
  file. The result is the length of the text.\<close>

definition write_json_atomic :: "env \<Rightarrow> string \<Rightarrow> json \<Rightarrow> files \<Rightarrow> (string + nat) \<times> files" where
  "write_json_atomic e target v fs =
     (if write_fails e (components target) then (Inl ''atomic_write: {}'', fs)
      else (Inr (length (pretty_text e v)), fs(components target \<mapsto> CJson v)))"

subsection \<open>Reading JSON objects into structs\<close>

text \<open>\<open>serde_json::from_str\<close> to a \<open>Value\<close>: of a repeated key the last value stays.\<close>

fun to_value :: "json \<Rightarrow> json" where
  "to_value (JArr xs) = JArr (map to_value xs)"
| "to_value (JObj m) = JObj (foldl (\<lambda>acc (k, v). AList.update k v acc) [] (map (\<lambda>(k, v). (k, to_value v)) m))"
| "to_value v = v"

text \<open>A derived \<open>Deserialize\<close> refuses a repeated field. \<open>#[serde(flatten)]\<close> collects the keys that are
  not fields in a \<open>BTreeMap\<close>.\<close>

definition no_duplicate_field :: "string list \<Rightarrow> json_map \<Rightarrow> bool" where
  "no_duplicate_field known m \<longleftrightarrow> list_all (\<lambda>k. length (filter (\<lambda>(k', v). k' = k) m) \<le> 1) known"

definition flatten_rest :: "string list \<Rightarrow> json_map \<Rightarrow> json_map" where
  "flatten_rest known m =
     foldl (\<lambda>acc (k, v). btree_insert k (to_value v) acc) [] (filter (\<lambda>(k, v). k \<notin> set known) m)"

fun de_f64 :: "env \<Rightarrow> json \<Rightarrow> string option" where
  "de_f64 e (JInt n) = Some (f64_text e n)"
| "de_f64 e (JFloat t) = Some t"
| "de_f64 e _ = None"

subsection \<open>Findings\<close>

record Finding =
  fid :: string
  title :: string
  description :: "string option"
  source_url :: "string option"
  relevance_category :: string
  relevance_score :: "string option"
  raw_data :: "json option"
  extras :: json_map

definition finding_fields :: "string list" where
  "finding_fields = [''id'', ''title'', ''description'', ''source_url'', ''relevance_category'',
     ''relevance_score'', ''raw_data'']"

definition finding_of :: "env \<Rightarrow> json \<Rightarrow> Finding option" where
  "finding_of e j =
     (case j of
        JObj m \<Rightarrow>
          if \<not> no_duplicate_field finding_fields m then None
          else (case (field m ''id'' as_str, field m ''title'' as_str, opt_field m ''description'' as_str,
                      opt_field m ''source_url'' as_str, field m ''relevance_category'' as_str,
                      opt_field m ''relevance_score'' (de_f64 e), opt_field m ''raw_data'' (\<lambda>v. Some (to_value v))) of
                  (Some i, Some t, Some d, Some u, Some c, Some s, Some r) \<Rightarrow>
                    Some \<lparr>fid = i, title = t, description = d, source_url = u, relevance_category = c,
                          relevance_score = s, raw_data = r, extras = flatten_rest finding_fields m\<rparr>
                | _ \<Rightarrow> None)
      | _ \<Rightarrow> None)"

definition finding_json :: "Finding \<Rightarrow> json" where
  "finding_json f = JObj
     ([(''id'', JStr (fid f)), (''title'', JStr (title f)), (''description'', or_null JStr (description f)),
       (''source_url'', or_null JStr (source_url f)), (''relevance_category'', JStr (relevance_category f)),
       (''relevance_score'', or_null JFloat (relevance_score f)), (''raw_data'', or_null (\<lambda>v. v) (raw_data f))]
      @ extras f)"

record ExtractedFinding =
  e_finding_id :: string
  e_title :: string
  e_description :: "string option"
  e_source_url :: "string option"
  e_relevance_category :: string
  e_relevance_score :: "string option"
  e_raw_data :: "json option"
  e_extracted_at :: string
  e_extractor_version :: string
  e_source_form :: string
  e_source_path :: "string option"
  e_extras :: json_map

definition extracted_fields :: "string list" where
  "extracted_fields = [''finding_id'', ''title'', ''description'', ''source_url'', ''relevance_category'',
     ''relevance_score'', ''raw_data'', ''extracted_at'', ''extractor_version'', ''source_form'', ''source_path'']"

definition extracted_of :: "env \<Rightarrow> json \<Rightarrow> ExtractedFinding option" where
  "extracted_of e j =
     (case j of
        JObj m \<Rightarrow>
          if \<not> no_duplicate_field extracted_fields m then None
          else (case (field m ''finding_id'' as_str, field m ''title'' as_str, opt_field m ''description'' as_str,
                      opt_field m ''source_url'' as_str, field m ''relevance_category'' as_str,
                      opt_field m ''relevance_score'' (de_f64 e), opt_field m ''raw_data'' (\<lambda>v. Some (to_value v)),
                      field m ''extracted_at'' as_str, field m ''extractor_version'' as_str,
                      field m ''source_form'' as_str, opt_field m ''source_path'' as_str) of
                  (Some i, Some t, Some d, Some u, Some c, Some s, Some r, Some a, Some v, Some f, Some p) \<Rightarrow>
                    Some \<lparr>e_finding_id = i, e_title = t, e_description = d, e_source_url = u,
                          e_relevance_category = c, e_relevance_score = s, e_raw_data = r, e_extracted_at = a,
                          e_extractor_version = v, e_source_form = f, e_source_path = p,
                          e_extras = flatten_rest extracted_fields m\<rparr>
                | _ \<Rightarrow> None)
      | _ \<Rightarrow> None)"

definition extracted_json :: "ExtractedFinding \<Rightarrow> json" where
  "extracted_json f = JObj
     ([(''finding_id'', JStr (e_finding_id f)), (''title'', JStr (e_title f))]
      @ skip_none ''description'' JStr (e_description f)
      @ skip_none ''source_url'' JStr (e_source_url f)
      @ [(''relevance_category'', JStr (e_relevance_category f)),
         (''relevance_score'', or_null JFloat (e_relevance_score f))]
      @ skip_none ''raw_data'' (\<lambda>v. v) (e_raw_data f)
      @ [(''extracted_at'', JStr (e_extracted_at f)), (''extractor_version'', JStr (e_extractor_version f)),
         (''source_form'', JStr (e_source_form f)), (''source_path'', or_null JStr (e_source_path f))]
      @ e_extras f)"

subsection \<open>The index of a run\<close>

record IndexEntry =
  artifact_path :: string
  extractor_version :: string
  orchestrator_version :: "string option"
  refined_at :: "string option"
  verified_at :: "string option"
  verified :: "bool option"
  stage2_path :: "string option"

definition entry_default :: IndexEntry where
  "entry_default = \<lparr>artifact_path = [], extractor_version = [], orchestrator_version = None, refined_at = None,
     verified_at = None, verified = None, stage2_path = None\<rparr>"

record Index =
  ix_run_id :: string
  ix_started_at :: string
  ix_last_updated_at :: string
  ix_findings :: "(string \<times> IndexEntry) list"

definition entry_json :: "IndexEntry \<Rightarrow> json" where
  "entry_json x = JObj
     ([(''artifact_path'', JStr (artifact_path x)), (''extractor_version'', JStr (extractor_version x))]
      @ skip_none ''orchestrator_version'' JStr (orchestrator_version x)
      @ skip_none ''refined_at'' JStr (refined_at x)
      @ skip_none ''verified_at'' JStr (verified_at x)
      @ skip_none ''verified'' JBool (verified x)
      @ skip_none ''stage2_path'' JStr (stage2_path x))"

definition entry_fields :: "string list" where
  "entry_fields = [''artifact_path'', ''extractor_version'', ''orchestrator_version'', ''refined_at'',
     ''verified_at'', ''verified'', ''stage2_path'']"

definition entry_of :: "json \<Rightarrow> IndexEntry option" where
  "entry_of j =
     (case j of
        JObj m \<Rightarrow>
          if \<not> no_duplicate_field entry_fields m then None
          else (case (field m ''artifact_path'' as_str, field m ''extractor_version'' as_str,
                      opt_field m ''orchestrator_version'' as_str, opt_field m ''refined_at'' as_str,
                      opt_field m ''verified_at'' as_str, opt_field m ''verified'' as_bool,
                      opt_field m ''stage2_path'' as_str) of
                  (Some a, Some x, Some o', Some r, Some va, Some v, Some s) \<Rightarrow>
                    Some \<lparr>artifact_path = a, extractor_version = x, orchestrator_version = o', refined_at = r,
                          verified_at = va, verified = v, stage2_path = s\<rparr>
                | _ \<Rightarrow> None)
      | _ \<Rightarrow> None)"

text \<open>The \<open>BTreeMap\<close> of entries is an ordered association list.\<close>

definition entries_of :: "json \<Rightarrow> (string \<times> IndexEntry) list option" where
  "entries_of j =
     (case j of
        JObj m \<Rightarrow> map_option (foldl (\<lambda>acc (k, x). btree_insert k x acc) [])
                    (those (map (\<lambda>(k, v). map_option (Pair k) (entry_of v)) m))
      | _ \<Rightarrow> None)"

definition index_json :: "Index \<Rightarrow> json" where
  "index_json ix = JObj
     [(''run_id'', JStr (ix_run_id ix)), (''started_at'', JStr (ix_started_at ix)),
      (''last_updated_at'', JStr (ix_last_updated_at ix)),
      (''findings'', JObj (map (\<lambda>(k, x). (k, entry_json x)) (ix_findings ix)))]"

definition index_of :: "json \<Rightarrow> Index option" where
  "index_of j =
     (case j of
        JObj m \<Rightarrow>
          if \<not> no_duplicate_field [''run_id'', ''started_at'', ''last_updated_at'', ''findings''] m then None
          else (case (field m ''run_id'' as_str, field m ''started_at'' as_str,
                      field m ''last_updated_at'' as_str, field m ''findings'' entries_of) of
                  (Some r, Some s, Some l, Some fs) \<Rightarrow>
                    Some \<lparr>ix_run_id = r, ix_started_at = s, ix_last_updated_at = l, ix_findings = fs\<rparr>
                | _ \<Rightarrow> None)
      | _ \<Rightarrow> None)"

definition read_index :: "files \<Rightarrow> string \<Rightarrow> string + Index option" where
  "read_index fs path =
     (case fs (components path) of
        None \<Rightarrow> Inr None
      | Some (CJson j) \<Rightarrow>
          (case index_of j of None \<Rightarrow> Inl ''parse index {:?}: {}'' | Some ix \<Rightarrow> Inr (Some ix))
      | Some (CText t) \<Rightarrow> Inl ''parse index {:?}: {}''
      | Some CUnreadable \<Rightarrow> Inl ''read index {:?}: {}'')"

datatype MergeMode = PreserveDownstream | PreserveStage2 | PreserveRefinedOnly | Replace

definition merge_preserve_downstream :: "IndexEntry \<Rightarrow> IndexEntry \<Rightarrow> IndexEntry" where
  "merge_preserve_downstream existing entry =
     \<lparr>artifact_path = (if refined_at existing \<noteq> None then artifact_path existing else artifact_path entry),
      extractor_version = extractor_version entry,
      orchestrator_version = orchestrator_version existing,
      refined_at = refined_at existing,
      verified_at = verified_at existing,
      verified = verified existing,
      stage2_path = stage2_path existing\<rparr>"

definition merge_preserve_stage2 :: "IndexEntry \<Rightarrow> IndexEntry \<Rightarrow> IndexEntry" where
  "merge_preserve_stage2 existing entry =
     \<lparr>artifact_path = artifact_path entry,
      extractor_version = extractor_version entry,
      orchestrator_version = orchestrator_version entry,
      refined_at = refined_at entry,
      verified_at = verified_at existing,
      verified = verified existing,
      stage2_path = stage2_path existing\<rparr>"

definition merge_preserve_refined_only :: "IndexEntry \<Rightarrow> IndexEntry \<Rightarrow> IndexEntry" where
  "merge_preserve_refined_only existing entry =
     \<lparr>artifact_path = artifact_path existing,
      extractor_version = extractor_version existing,
      orchestrator_version = orchestrator_version existing,
      refined_at = refined_at existing,
      verified_at = verified_at entry,
      verified = verified entry,
      stage2_path = stage2_path entry\<rparr>"

definition merge_index_entry :: "IndexEntry option \<Rightarrow> IndexEntry \<Rightarrow> MergeMode \<Rightarrow> IndexEntry" where
  "merge_index_entry existing entry mode =
     (case mode of
        Replace \<Rightarrow> entry
      | PreserveDownstream \<Rightarrow>
          (case existing of Some x \<Rightarrow> merge_preserve_downstream x entry | None \<Rightarrow> entry)
      | PreserveStage2 \<Rightarrow>
          (case existing of Some x \<Rightarrow> merge_preserve_stage2 x entry | None \<Rightarrow> entry)
      | PreserveRefinedOnly \<Rightarrow>
          (case existing of Some x \<Rightarrow> merge_preserve_refined_only x entry | None \<Rightarrow> entry))"

definition index_path_for :: "string \<Rightarrow> string \<Rightarrow> string" where
  "index_path_for output_dir run_id = path_join (path_join (path_join output_dir RUNS_DIR_NAME) run_id) INDEX_FILE_NAME"

definition upsert_index_entry ::
  "env \<Rightarrow> string \<Rightarrow> string \<Rightarrow> string \<Rightarrow> IndexEntry \<Rightarrow> MergeMode \<Rightarrow> files \<Rightarrow> (string + unit) \<times> files" where
  "upsert_index_entry e output_dir run_id finding_id entry mode fs =
     (let index_path = index_path_for output_dir run_id;
          stamp = format_iso8601_utc (index_clock e)
      in case read_index fs index_path of
           Inl err \<Rightarrow> (Inl err, fs)
         | Inr found \<Rightarrow>
             let idx = (case found of
                   Some existing \<Rightarrow> existing
                 | None \<Rightarrow> \<lparr>ix_run_id = run_id, ix_started_at = stamp, ix_last_updated_at = stamp, ix_findings = []\<rparr>);
                 merged = merge_index_entry (map_of (ix_findings idx) finding_id) entry mode;
                 idx' = idx\<lparr>ix_last_updated_at := stamp,
                            ix_findings := btree_insert finding_id merged (ix_findings idx)\<rparr>
             in case write_json_atomic e index_path (index_json idx') fs of
                  (Inl err, fs') \<Rightarrow> (Inl err, fs')
                | (Inr n, fs') \<Rightarrow> (Inr (), fs'))"

subsection \<open>extract\_finding\<close>

definition blank :: "string \<Rightarrow> bool" where
  "blank s \<longleftrightarrow> list_all is_whitespace (chars s)"

definition validate_required_finding_fields :: "Finding \<Rightarrow> string + unit" where
  "validate_required_finding_fields f =
     (if blank (fid f) then Inl ''finding.id is required and must be non-empty''
      else if blank (title f) then Inl ''finding.title is required and must be non-empty''
      else if blank (relevance_category f) then Inl ''finding.relevance_category is required and must be non-empty''
      else Inr ())"

text \<open>A finding file holds the finding itself or an object whose \<open>findings\<close> is an array of one.\<close>

definition single_finding :: "json \<Rightarrow> string + json" where
  "single_finding parsed =
     (case Option.bind (Option.bind (as_object parsed) (\<lambda>m. get m ''findings'')) as_array of
        Some arr \<Rightarrow>
          if length arr \<noteq> 1 then Inl ''finding file {:?} has findings[{}]: stage 1 processes one finding per call''
          else Inr (hd arr)
      | None \<Rightarrow> Inr parsed)"

definition read_finding_file :: "files \<Rightarrow> string \<Rightarrow> string + json" where
  "read_finding_file fs path =
     (case fs (components path) of
        Some (CJson j) \<Rightarrow> Inr (to_value j)
      | Some (CText t) \<Rightarrow> Inl ''parse finding file {:?}: {}''
      | _ \<Rightarrow> Inl ''read finding file {:?}: {}'')"

text \<open>The finding, its form, the path it came from, and the value whose text is the source artifact.\<close>

definition resolve_finding :: "env \<Rightarrow> files \<Rightarrow> json \<Rightarrow> string + (Finding \<times> string \<times> string option \<times> json)" where
  "resolve_finding e fs arg =
     (case arg of
        JObj m \<Rightarrow>
          and_then (ok_or ''inline finding does not match canonical schema: {}'' (finding_of e arg)) (\<lambda>f.
          and_then (validate_required_finding_fields f) (\<lambda>_.
          Inr (f, ''inline'', None, finding_json f)))
      | JStr path_str \<Rightarrow>
          and_then (require_absolute path_str) (\<lambda>path.
          let lower = map to_lower path_str
          in if ends_with lower ''.md'' then Inl ''.md finding inputs are not supported in v1''
             else if \<not> ends_with lower ''.json'' then Inl ''finding path must end in .json: got {:?}''
             else
               and_then (read_finding_file fs path) (\<lambda>parsed.
               and_then (single_finding parsed) (\<lambda>v.
               and_then (ok_or ''finding file {:?} does not match canonical schema: {}'' (finding_of e v)) (\<lambda>f.
               and_then (validate_required_finding_fields f) (\<lambda>_.
               Inr (f, ''json_file'', Some path, finding_json f))))))
      | _ \<Rightarrow> Inl ''finding must be an object or an absolute path string'')"

definition run_id_arg :: "env \<Rightarrow> json option \<Rightarrow> string + string" where
  "run_id_arg e v =
     (case v of
        Some (JStr s) \<Rightarrow> and_then (validate_safe_id s) (\<lambda>_. Inr s)
      | Some JNull \<Rightarrow> Inr (generate_run_id (of_nat (clock e)) (nanos e) (pid e))
      | None \<Rightarrow> Inr (generate_run_id (of_nat (clock e)) (nanos e) (pid e))
      | Some other \<Rightarrow> Inl ''run_id must be a string when provided: got {}'')"

text \<open>The arguments of \<open>extract_finding\<close>: the finding, the output directory, the run id.\<close>

definition parse_extract_args :: "env \<Rightarrow> json \<Rightarrow> string + (json \<times> string \<times> string)" where
  "parse_extract_args e arguments =
     and_then (ok_or ''arguments must be an object'' (as_object arguments)) (\<lambda>args.
     and_then (ok_or ''missing required field finding'' (get args ''finding'')) (\<lambda>finding_arg.
     and_then (ok_or ''missing required field output_dir'' (Option.bind (get args ''output_dir'') as_str)) (\<lambda>dir.
     and_then (require_absolute dir) (\<lambda>output_dir.
     and_then (run_id_arg e (get args ''run_id'')) (\<lambda>run_id.
     Inr (finding_arg, output_dir, run_id))))))"

definition build_extracted_artifact :: "env \<Rightarrow> Finding \<Rightarrow> string \<Rightarrow> string option \<Rightarrow> ExtractedFinding" where
  "build_extracted_artifact e f source_form source_path =
     \<lparr>e_finding_id = fid f, e_title = title f, e_description = description f, e_source_url = source_url f,
      e_relevance_category = relevance_category f, e_relevance_score = relevance_score f,
      e_raw_data = raw_data f, e_extracted_at = format_iso8601_utc (clock e),
      e_extractor_version = EXTRACTOR_VERSION, e_source_form = source_form, e_source_path = source_path,
      e_extras = extras f\<rparr>"

definition finding_dir_for :: "string \<Rightarrow> string \<Rightarrow> string \<Rightarrow> string" where
  "finding_dir_for output_dir run_id finding_id =
     path_join (path_join (path_join (path_join output_dir RUNS_DIR_NAME) run_id) FINDINGS_DIR_NAME) finding_id"

definition slash_join :: "string list \<Rightarrow> string" where
  "slash_join parts = join_with ''/'' parts"

definition persist_extract ::
  "env \<Rightarrow> string \<Rightarrow> string \<Rightarrow> string \<Rightarrow> json \<Rightarrow> ExtractedFinding \<Rightarrow> files \<Rightarrow> (string + (string \<times> nat)) \<times> files" where
  "persist_extract e output_dir run_id finding_dir source extracted fs =
     (if mkdir_fails e (components finding_dir) then (Inl ''mkdir {:?}: {}'', fs)
      else case write_json_atomic e (path_join finding_dir SOURCE_FILE_NAME) source fs of
        (Inl err, fs1) \<Rightarrow> (Inl err, fs1)
      | (Inr _, fs1) \<Rightarrow>
          let extracted_path = path_join finding_dir EXTRACTED_FILE_NAME
          in case write_json_atomic e extracted_path (extracted_json extracted) fs1 of
               (Inl err, fs2) \<Rightarrow> (Inl err, fs2)
             | (Inr bytes_written, fs2) \<Rightarrow>
                 let entry = entry_default\<lparr>
                       artifact_path := slash_join [FINDINGS_DIR_NAME, e_finding_id extracted, EXTRACTED_FILE_NAME],
                       extractor_version := EXTRACTOR_VERSION\<rparr>
                 in case upsert_index_entry e output_dir run_id (e_finding_id extracted) entry PreserveDownstream fs2 of
                      (Inl err, fs3) \<Rightarrow> (Inl err, fs3)
                    | (Inr _, fs3) \<Rightarrow> (Inr (extracted_path, bytes_written), fs3))"

definition do_extract_finding :: "env \<Rightarrow> json \<Rightarrow> files \<Rightarrow> (string + json) \<times> files" where
  "do_extract_finding e arguments fs =
     (case and_then (parse_extract_args e arguments) (\<lambda>(finding_arg, output_dir, run_id).
           and_then (resolve_finding e fs finding_arg) (\<lambda>(f, form, path, source).
           and_then (validate_safe_id (fid f)) (\<lambda>_.
           Inr (output_dir, run_id, f, form, path, source)))) of
        Inl err \<Rightarrow> (Inl err, fs)
      | Inr (output_dir, run_id, f, form, path, source) \<Rightarrow>
          let finding_dir = finding_dir_for output_dir run_id (fid f);
              extracted = build_extracted_artifact e f form path
          in case persist_extract e output_dir run_id finding_dir source extracted fs of
               (Inl err, fs') \<Rightarrow> (Inl err, fs')
             | (Inr (extracted_path, bytes_written), fs') \<Rightarrow>
                 (Inr (JObj [(''stage'', JInt 1), (''status'', JStr ''ok''), (''finding_id'', JStr (fid f)),
                    (''artifact_path'', JStr extracted_path), (''run_id'', JStr run_id),
                    (''bytes_written'', JInt (int bytes_written)),
                    (''extractor_version'', JStr EXTRACTOR_VERSION)]), fs'))"

definition run_extract_finding :: "env \<Rightarrow> json \<Rightarrow> files \<Rightarrow> json \<times> files" where
  "run_extract_finding e arguments fs =
     (case do_extract_finding e arguments fs of
        (Inr v, fs') \<Rightarrow> (v, fs')
      | (Inl reason, fs') \<Rightarrow>
          (JObj [(''stage'', JInt 1), (''status'', JStr ''error''), (''reason'', JStr reason)], fs'))"

subsection \<open>refine\_finding\<close>

record RefinedPrompt =
  rp_text :: string
  rp_role_hint :: string
  rp_token_estimate :: "int option"

record AddedContext =
  ac_kind :: string
  ac_content :: string
  ac_provenance :: "string option"

record RefinementMeta =
  rm_added_context :: "AddedContext list"
  rm_orchestrator_version :: string
  rm_refined_at :: "string option"

record RefinedArtifact =
  ra_extracted :: ExtractedFinding
  ra_refined_prompt :: RefinedPrompt
  ra_refinement :: RefinementMeta

fun de_i64 :: "json \<Rightarrow> int option" where
  "de_i64 (JInt n) = (if - (2 ^ 63) \<le> n \<and> n < 2 ^ 63 then Some n else None)"
| "de_i64 _ = None"

definition prompt_of :: "json \<Rightarrow> RefinedPrompt option" where
  "prompt_of j =
     (case j of
        JObj m \<Rightarrow>
          if \<not> no_duplicate_field [''text'', ''role_hint'', ''token_estimate''] m then None
          else (case (field m ''text'' as_str, field m ''role_hint'' as_str, opt_field m ''token_estimate'' de_i64) of
                  (Some t, Some r, Some n) \<Rightarrow> Some \<lparr>rp_text = t, rp_role_hint = r, rp_token_estimate = n\<rparr>
                | _ \<Rightarrow> None)
      | _ \<Rightarrow> None)"

definition prompt_json :: "RefinedPrompt \<Rightarrow> json" where
  "prompt_json p = JObj ([(''text'', JStr (rp_text p)), (''role_hint'', JStr (rp_role_hint p))]
     @ skip_none ''token_estimate'' JInt (rp_token_estimate p))"

definition context_of :: "json \<Rightarrow> AddedContext option" where
  "context_of j =
     (case j of
        JObj m \<Rightarrow>
          if \<not> no_duplicate_field [''kind'', ''content'', ''provenance''] m then None
          else (case (field m ''kind'' as_str, field m ''content'' as_str, opt_field m ''provenance'' as_str) of
                  (Some k, Some c, Some p) \<Rightarrow> Some \<lparr>ac_kind = k, ac_content = c, ac_provenance = p\<rparr>
                | _ \<Rightarrow> None)
      | _ \<Rightarrow> None)"

definition context_json :: "AddedContext \<Rightarrow> json" where
  "context_json c = JObj ([(''kind'', JStr (ac_kind c)), (''content'', JStr (ac_content c))]
     @ skip_none ''provenance'' JStr (ac_provenance c))"

text \<open>\<open>refined_at\<close> is never read (\<open>skip_deserializing\<close>): it is \<open>None\<close> until the tool sets it.\<close>

definition refinement_of :: "json \<Rightarrow> RefinementMeta option" where
  "refinement_of j =
     (case j of
        JObj m \<Rightarrow>
          if \<not> no_duplicate_field [''added_context'', ''orchestrator_version''] m then None
          else (case (field m ''added_context'' (de_list context_of), field m ''orchestrator_version'' as_str) of
                  (Some c, Some v) \<Rightarrow>
                    Some \<lparr>rm_added_context = c, rm_orchestrator_version = v, rm_refined_at = None\<rparr>
                | _ \<Rightarrow> None)
      | _ \<Rightarrow> None)"

definition refinement_json :: "RefinementMeta \<Rightarrow> json" where
  "refinement_json r = JObj
     [(''added_context'', JArr (map context_json (rm_added_context r))),
      (''orchestrator_version'', JStr (rm_orchestrator_version r)),
      (''refined_at'', or_null JStr (rm_refined_at r))]"

definition refined_of :: "env \<Rightarrow> json \<Rightarrow> RefinedArtifact option" where
  "refined_of e j =
     (case j of
        JObj m \<Rightarrow>
          if \<not> no_duplicate_field [''extracted'', ''refined_prompt'', ''refinement''] m then None
          else (case (field m ''extracted'' (extracted_of e), field m ''refined_prompt'' prompt_of,
                      field m ''refinement'' refinement_of) of
                  (Some x, Some p, Some r) \<Rightarrow>
                    Some \<lparr>ra_extracted = x, ra_refined_prompt = p, ra_refinement = r\<rparr>
                | _ \<Rightarrow> None)
      | _ \<Rightarrow> None)"

definition refined_json :: "RefinedArtifact \<Rightarrow> json" where
  "refined_json a = JObj
     [(''extracted'', extracted_json (ra_extracted a)), (''refined_prompt'', prompt_json (ra_refined_prompt a)),
      (''refinement'', refinement_json (ra_refinement a))]"

text \<open>The three fields that every stage-2 tool and \<open>refine_finding\<close> read first: the run id, the finding
  id and the output directory.\<close>

definition parse_ids :: "json_map \<Rightarrow> stage_err + (string \<times> string \<times> string)" where
  "parse_ids args =
     and_then (require_string_arg args ''run_id'') (\<lambda>run_id.
     and_then (map_err unsafe_id_err (validate_safe_id run_id)) (\<lambda>_.
     and_then (require_string_arg args ''finding_id'') (\<lambda>finding_id.
     and_then (map_err unsafe_id_err (validate_safe_id finding_id)) (\<lambda>_.
     and_then (require_string_arg args ''output_dir'') (\<lambda>dir.
     and_then (map_err bad_request (require_absolute dir)) (\<lambda>output_dir.
     Inr (run_id, finding_id, output_dir)))))))"

record RefineArgs =
  ref_run_id :: string
  ref_finding_id :: string
  ref_output_dir :: string
  ref_prompt :: RefinedPrompt
  ref_refinement :: RefinementMeta

definition parse_refine_args :: "json \<Rightarrow> stage_err + RefineArgs" where
  "parse_refine_args arguments =
     and_then (ok_or (bad_request ''arguments must be an object (spec 9.2)'') (as_object arguments)) (\<lambda>args.
     and_then (parse_ids args) (\<lambda>(run_id, finding_id, output_dir).
     and_then (ok_or (bad_request ''missing required field refined_prompt (spec 9.2)'')
                (get args ''refined_prompt'')) (\<lambda>prompt_val.
     and_then (ok_or (bad_request ''refined_prompt does not match schema (spec 9.2): {}'')
                (prompt_of prompt_val)) (\<lambda>prompt.
     if rp_text prompt = [] then Inl (''empty_prompt'', ''refined_prompt.text must be non-empty (spec 5.1.5)'')
     else
       and_then (ok_or (bad_request ''missing required field refinement (spec 9.2)'')
                  (get args ''refinement'')) (\<lambda>refinement_val.
       and_then (ok_or (bad_request ''refinement does not match schema (spec 9.2): {}'')
                  (refinement_of refinement_val)) (\<lambda>refinement.
       Inr \<lparr>ref_run_id = run_id, ref_finding_id = finding_id, ref_output_dir = output_dir,
            ref_prompt = prompt, ref_refinement = refinement\<rparr>))))))"

definition load_existing_extracted :: "env \<Rightarrow> files \<Rightarrow> string \<Rightarrow> stage_err + ExtractedFinding" where
  "load_existing_extracted e fs finding_dir =
     (case fs (components (path_join finding_dir EXTRACTED_FILE_NAME)) of
        None \<Rightarrow> Inl (''no_extraction'', ''no stage-1.extracted.json at {:?}: call extract_finding first'')
      | Some CUnreadable \<Rightarrow> Inl (io_err ''read {:?}: {}'')
      | Some (CText t) \<Rightarrow> Inl (''corrupt_extraction'', ''parse {:?}: {}'')
      | Some (CJson j) \<Rightarrow> ok_or (''corrupt_extraction'', ''parse {:?}: {}'') (extracted_of e j))"

definition build_refined_artifact ::
  "ExtractedFinding \<Rightarrow> RefinedPrompt \<Rightarrow> RefinementMeta \<Rightarrow> string \<Rightarrow> RefinedArtifact" where
  "build_refined_artifact extracted prompt refinement stamp =
     \<lparr>ra_extracted = extracted, ra_refined_prompt = prompt,
      ra_refinement = \<lparr>rm_added_context = rm_added_context refinement,
        rm_orchestrator_version = rm_orchestrator_version refinement, rm_refined_at = Some stamp\<rparr>\<rparr>"

definition persist_refine ::
  "env \<Rightarrow> string \<Rightarrow> string \<Rightarrow> string \<Rightarrow> string \<Rightarrow> RefinedArtifact \<Rightarrow> string \<Rightarrow> files \<Rightarrow>
     (stage_err + (string \<times> nat)) \<times> files" where
  "persist_refine e output_dir run_id finding_id finding_dir artifact stamp fs =
     (let refined_path = path_join finding_dir REFINED_FILE_NAME
      in case write_json_atomic e refined_path (refined_json artifact) fs of
           (Inl err, fs1) \<Rightarrow> (Inl (io_err err), fs1)
         | (Inr bytes_written, fs1) \<Rightarrow>
             let entry = entry_default\<lparr>
                   artifact_path := slash_join [FINDINGS_DIR_NAME, finding_id, REFINED_FILE_NAME],
                   extractor_version := EXTRACTOR_VERSION,
                   orchestrator_version := Some (rm_orchestrator_version (ra_refinement artifact)),
                   refined_at := Some stamp\<rparr>
             in case upsert_index_entry e output_dir run_id finding_id entry PreserveStage2 fs1 of
                  (Inl err, fs2) \<Rightarrow> (Inl (io_err err), fs2)
                | (Inr _, fs2) \<Rightarrow> (Inr (refined_path, bytes_written), fs2))"

definition do_refine_finding :: "env \<Rightarrow> json \<Rightarrow> files \<Rightarrow> (stage_err + json) \<times> files" where
  "do_refine_finding e arguments fs =
     (case and_then (parse_refine_args arguments) (\<lambda>parsed.
           and_then (load_existing_extracted e fs
             (finding_dir_for (ref_output_dir parsed) (ref_run_id parsed) (ref_finding_id parsed))) (\<lambda>extracted.
           Inr (parsed, extracted))) of
        Inl err \<Rightarrow> (Inl err, fs)
      | Inr (parsed, extracted) \<Rightarrow>
          let finding_dir = finding_dir_for (ref_output_dir parsed) (ref_run_id parsed) (ref_finding_id parsed);
              stamp = format_iso8601_utc (clock e);
              artifact = build_refined_artifact extracted (ref_prompt parsed) (ref_refinement parsed) stamp
          in case persist_refine e (ref_output_dir parsed) (ref_run_id parsed) (ref_finding_id parsed)
                    finding_dir artifact stamp fs of
               (Inl err, fs') \<Rightarrow> (Inl err, fs')
             | (Inr (refined_path, bytes_written), fs') \<Rightarrow>
                 (Inr (JObj [(''stage'', JInt 1), (''status'', JStr ''ok''),
                    (''finding_id'', JStr (ref_finding_id parsed)), (''artifact_path'', JStr refined_path),
                    (''run_id'', JStr (ref_run_id parsed)), (''bytes_written'', JInt (int bytes_written)),
                    (''extractor_version'', JStr EXTRACTOR_VERSION),
                    (''orchestrator_version'', JStr (rm_orchestrator_version (ref_refinement parsed))),
                    (''orchestrator_contract_version'', JStr ORCHESTRATOR_CONTRACT_VERSION)]), fs'))"

definition run_refine_finding :: "env \<Rightarrow> json \<Rightarrow> files \<Rightarrow> json \<times> files" where
  "run_refine_finding e arguments fs =
     (case do_refine_finding e arguments fs of
        (Inr v, fs') \<Rightarrow> (v, fs')
      | (Inl (reason, msg), fs') \<Rightarrow>
          (JObj [(''stage'', JInt 1), (''status'', JStr ''error''), (''reason'', JStr reason),
                 (''message'', JStr msg)], fs'))"

end
