(* ===== verification/Verification.thy ===== *)
theory Verification
  imports FindingStore
begin

text \<open>
  The stage-2 clarification sessions, \<open>src/verification_core.rs\<close> and \<open>src/verification_ops.rs\<close>: the state
  machine of a session, its JSON form, and the four tools that start, extend, finalize and abort one. A
  tool is a function from the files to its result and the files after it, every write included, in the
  order of the code.
\<close>

subsection \<open>Sessions\<close>

datatype SessionState = Open | WaitingForUser | WaitingForAgent | Finalized | Aborted

fun state_str :: "SessionState \<Rightarrow> string" where
  "state_str Open = ''open''"
| "state_str WaitingForUser = ''waiting_for_user''"
| "state_str WaitingForAgent = ''waiting_for_agent''"
| "state_str Finalized = ''finalized''"
| "state_str Aborted = ''aborted''"

datatype TurnKind = AgentQuestion | UserAnswer

fun kind_str :: "TurnKind \<Rightarrow> string" where
  "kind_str AgentQuestion = ''agent_question''"
| "kind_str UserAnswer = ''user_answer''"

record SessionTurn =
  seq :: nat
  kind :: TurnKind
  timestamp :: string
  turn_text :: string
  meta :: "json option"

record SessionFile =
  run_id :: string
  finding_id :: string
  state :: SessionState
  turn_count :: nat
  started_at :: string
  updated_at :: string
  schema_ok :: bool
  verifier_version :: string
  transcript :: "SessionTurn list"
  aborted_at :: "string option"
  abort_reason :: "string option"

record VerifiedKind =
  vk_schema_ok :: bool
  vk_completeness_ok :: bool
  vk_user_acknowledged :: bool

record VerifiedArtifact =
  v_run_id :: string
  v_finding_id :: string
  v_verified :: bool
  v_kind :: VerifiedKind
  v_finalized_at :: string
  v_stage1_refined_path :: string
  v_session_path :: string
  v_transcript_digest :: string
  v_digest_algorithm :: string
  v_transcript_bytes :: nat
  v_turn_count :: nat
  v_verifier_version :: string
  v_checklist :: "(string \<times> bool) list"

subsection \<open>The JSON of a session\<close>

fun state_of_json :: "json \<Rightarrow> SessionState option" where
  "state_of_json (JStr s) = find (\<lambda>st. state_str st = s) [Open, WaitingForUser, WaitingForAgent, Finalized, Aborted]"
| "state_of_json _ = None"

fun kind_of_json :: "json \<Rightarrow> TurnKind option" where
  "kind_of_json (JStr s) = find (\<lambda>k. kind_str k = s) [AgentQuestion, UserAnswer]"
| "kind_of_json _ = None"

definition turn_json :: "SessionTurn \<Rightarrow> json" where
  "turn_json t = JObj
     ([(''seq'', JInt (int (seq t))), (''kind'', JStr (kind_str (kind t))),
       (''timestamp'', JStr (timestamp t)), (''content'', JStr (turn_text t))]
      @ skip_none ''meta'' (\<lambda>v. v) (meta t))"

definition turn_of_json :: "json \<Rightarrow> SessionTurn option" where
  "turn_of_json j =
     (case j of
        JObj m \<Rightarrow>
          if \<not> no_duplicate_field [''seq'', ''kind'', ''timestamp'', ''content'', ''meta''] m then None
          else (case (field m ''seq'' as_u64, field m ''kind'' kind_of_json, field m ''timestamp'' as_str,
                      field m ''content'' as_str, opt_field m ''meta'' (\<lambda>v. Some (to_value v))) of
                  (Some n, Some k, Some ts, Some c, Some mt) \<Rightarrow>
                    Some \<lparr>seq = n, kind = k, timestamp = ts, turn_text = c, meta = mt\<rparr>
                | _ \<Rightarrow> None)
      | _ \<Rightarrow> None)"

definition session_json :: "SessionFile \<Rightarrow> json" where
  "session_json s = JObj
     ([(''run_id'', JStr (run_id s)), (''finding_id'', JStr (finding_id s)),
       (''state'', JStr (state_str (state s))), (''turn_count'', JInt (int (turn_count s))),
       (''started_at'', JStr (started_at s)), (''updated_at'', JStr (updated_at s)),
       (''schema_ok'', JBool (schema_ok s)), (''verifier_version'', JStr (verifier_version s)),
       (''transcript'', JArr (map turn_json (transcript s)))]
      @ skip_none ''aborted_at'' JStr (aborted_at s)
      @ skip_none ''abort_reason'' JStr (abort_reason s))"

definition session_fields :: "string list" where
  "session_fields = [''run_id'', ''finding_id'', ''state'', ''turn_count'', ''started_at'', ''updated_at'',
     ''schema_ok'', ''verifier_version'', ''transcript'', ''aborted_at'', ''abort_reason'']"

definition session_of_json :: "json \<Rightarrow> SessionFile option" where
  "session_of_json j =
     (case j of
        JObj m \<Rightarrow>
          if \<not> no_duplicate_field session_fields m then None
          else (case (field m ''run_id'' as_str, field m ''finding_id'' as_str, field m ''state'' state_of_json,
                      field m ''turn_count'' as_u64, field m ''started_at'' as_str, field m ''updated_at'' as_str,
                      field m ''schema_ok'' as_bool, field m ''verifier_version'' as_str,
                      field m ''transcript'' (de_list turn_of_json), opt_field m ''aborted_at'' as_str,
                      opt_field m ''abort_reason'' as_str) of
                  (Some r, Some f, Some st, Some n, Some sa, Some ua, Some ok, Some v, Some ts, Some aa, Some ar) \<Rightarrow>
                    Some \<lparr>run_id = r, finding_id = f, state = st, turn_count = n, started_at = sa, updated_at = ua,
                          schema_ok = ok, verifier_version = v, transcript = ts, aborted_at = aa, abort_reason = ar\<rparr>
                | _ \<Rightarrow> None)
      | _ \<Rightarrow> None)"

definition verified_json :: "VerifiedArtifact \<Rightarrow> json" where
  "verified_json v = JObj
     [(''run_id'', JStr (v_run_id v)), (''finding_id'', JStr (v_finding_id v)), (''verified'', JBool (v_verified v)),
      (''verified_kind'', JObj [(''schema_ok'', JBool (vk_schema_ok (v_kind v))),
         (''completeness_ok'', JBool (vk_completeness_ok (v_kind v))),
         (''user_acknowledged'', JBool (vk_user_acknowledged (v_kind v)))]),
      (''finalized_at'', JStr (v_finalized_at v)), (''stage1_refined_path'', JStr (v_stage1_refined_path v)),
      (''session_path'', JStr (v_session_path v)), (''transcript_digest'', JStr (v_transcript_digest v)),
      (''digest_algorithm'', JStr (v_digest_algorithm v)),
      (''transcript_bytes_at_finalize'', JInt (int (v_transcript_bytes v))),
      (''turn_count'', JInt (int (v_turn_count v))), (''verifier_version'', JStr (v_verifier_version v)),
      (''completeness_checklist'', JObj (map (\<lambda>(k, b). (k, JBool b)) (v_checklist v)))]"

subsection \<open>The state machine\<close>

datatype TransitionEvent = EStart | EAgentQuestion | EUserAnswer | EFinalize | EAbort

definition stage2_err :: "string \<Rightarrow> string \<Rightarrow> stage_err" where
  "stage2_err reason msg = (reason, msg)"

definition transition_start :: "SessionState \<Rightarrow> stage_err + SessionState" where
  "transition_start from =
     (case from of
        Aborted \<Rightarrow> Inr Open
      | _ \<Rightarrow> Inl (stage2_err ''illegal_transition'' ''start_verification requires no session or an aborted session''))"

definition transition_append :: "SessionState \<Rightarrow> TurnKind \<Rightarrow> stage_err + SessionState" where
  "transition_append from k =
     (case (from, k) of
        (Open, AgentQuestion) \<Rightarrow> Inr WaitingForUser
      | (WaitingForUser, UserAnswer) \<Rightarrow> Inr WaitingForAgent
      | (WaitingForAgent, AgentQuestion) \<Rightarrow> Inr WaitingForUser
      | _ \<Rightarrow> Inl (stage2_err ''alternation_violation'' ''two consecutive turns of the same kind are illegal''))"

definition transition_finalize :: "SessionState \<Rightarrow> stage_err + SessionState" where
  "transition_finalize from =
     (case from of
        WaitingForAgent \<Rightarrow> Inr Finalized
      | Open \<Rightarrow> Inl (stage2_err ''no_clarification_round'' ''finalize requires a question and an answer before it'')
      | WaitingForUser \<Rightarrow> Inl (stage2_err ''unanswered_question'' ''cannot finalize while a question awaits an answer'')
      | _ \<Rightarrow> Inl (stage2_err ''illegal_transition'' ''finalize rejected''))"

definition transition_abort :: "SessionState \<Rightarrow> stage_err + SessionState" where
  "transition_abort from = Inr Aborted"

definition can_transition :: "SessionState \<Rightarrow> TransitionEvent \<Rightarrow> stage_err + SessionState" where
  "can_transition from event =
     (if from = Finalized then
        Inl (stage2_err ''already_finalized'' ''session is finalized; further writes are rejected'')
      else if from = Aborted \<and> event \<noteq> EStart then
        Inl (stage2_err ''already_aborted'' ''session is aborted; only start_verification may restart it'')
      else case event of
             EStart \<Rightarrow> transition_start from
           | EAgentQuestion \<Rightarrow> transition_append from AgentQuestion
           | EUserAnswer \<Rightarrow> transition_append from UserAnswer
           | EFinalize \<Rightarrow> transition_finalize from
           | EAbort \<Rightarrow> transition_abort from)"

subsection \<open>Reading and writing sessions\<close>

definition session_path_for :: "string \<Rightarrow> string \<Rightarrow> string \<Rightarrow> string" where
  "session_path_for output_dir run finding = path_join (finding_dir_for output_dir run finding) SESSION_FILE_NAME"

definition read_session :: "files \<Rightarrow> string \<Rightarrow> stage_err + SessionFile option" where
  "read_session fs path =
     (case fs (components path) of
        None \<Rightarrow> Inr None
      | Some CUnreadable \<Rightarrow> Inl (io_err ''read session {:?}: {}'')
      | Some (CText t) \<Rightarrow> Inl (stage2_err ''corrupt_session'' ''parse session {:?}: {}'')
      | Some (CJson j) \<Rightarrow>
          (case session_of_json j of
             None \<Rightarrow> Inl (stage2_err ''corrupt_session'' ''parse session {:?}: {}'')
           | Some s \<Rightarrow> Inr (Some s)))"

definition write_session_atomic :: "env \<Rightarrow> string \<Rightarrow> SessionFile \<Rightarrow> files \<Rightarrow> (stage_err + unit) \<times> files" where
  "write_session_atomic e path s fs =
     (case write_json_atomic e path (session_json s) fs of
        (Inl err, fs') \<Rightarrow> (Inl (io_err err), fs')
      | (Inr n, fs') \<Rightarrow> (Inr (), fs'))"

definition compute_completeness :: "SessionTurn list \<Rightarrow> bool \<times> (string \<times> bool) list" where
  "compute_completeness ts =
     (let has_q = list_ex (\<lambda>t. kind t = AgentQuestion) ts;
          has_a = list_ex (\<lambda>t. kind t = UserAnswer) ts
      in (has_q \<and> has_a, [(''at_least_one_agent_question'', has_q), (''at_least_one_user_answer'', has_a)]))"

fun hex_lower :: "string \<Rightarrow> string" where
  "hex_lower [] = []"
| "hex_lower (b # bs) = hex_digit_lower (byte b div 16) # hex_digit_lower (byte b mod 16) # hex_lower bs"

definition compute_transcript_digest :: "env \<Rightarrow> SessionTurn list \<Rightarrow> string \<times> nat" where
  "compute_transcript_digest e ts =
     (let bytes = line_text e (JArr (map turn_json ts)) in (hex_lower (sha256 e bytes), length bytes))"

subsection \<open>start\_verification\<close>

definition check_stage1_refined :: "env \<Rightarrow> files \<Rightarrow> string \<Rightarrow> stage_err + bool" where
  "check_stage1_refined e fs finding_dir =
     (case fs (components (path_join finding_dir REFINED_FILE_NAME)) of
        None \<Rightarrow> Inl (stage2_err ''no_extraction'' ''no {} at {:?}: call refine_finding first'')
      | Some CUnreadable \<Rightarrow> Inl (io_err ''read {:?}: {}'')
      | Some (CText t) \<Rightarrow> Inl (stage2_err ''corrupt_extraction'' ''parse {:?}: {}'')
      | Some (CJson j) \<Rightarrow>
          (case refined_of e j of
             None \<Rightarrow> Inl (stage2_err ''corrupt_extraction'' ''parse {:?}: {}'')
           | Some a \<Rightarrow> Inr True))"

definition parse_stage2_args :: "json \<Rightarrow> stage_err + (json_map \<times> string \<times> string \<times> string)" where
  "parse_stage2_args arguments =
     and_then (ok_or (bad_request ''arguments must be an object'') (as_object arguments)) (\<lambda>args.
     and_then (parse_ids args) (\<lambda>ids. Inr (args, ids)))"

definition build_new_session :: "string \<Rightarrow> string \<Rightarrow> bool \<Rightarrow> string \<Rightarrow> SessionFile" where
  "build_new_session run finding ok stamp =
     \<lparr>run_id = run, finding_id = finding, state = Open, turn_count = 0, started_at = stamp, updated_at = stamp,
      schema_ok = ok, verifier_version = VERIFIER_VERSION, transcript = [], aborted_at = None, abort_reason = None\<rparr>"

definition do_start_verification :: "env \<Rightarrow> json \<Rightarrow> files \<Rightarrow> (stage_err + json) \<times> files" where
  "do_start_verification e arguments fs =
     (case and_then (parse_stage2_args arguments) (\<lambda>(args, run, finding, output_dir).
           and_then (check_stage1_refined e fs (finding_dir_for output_dir run finding)) (\<lambda>ok.
           and_then (read_session fs (session_path_for output_dir run finding)) (\<lambda>existing.
           and_then (case existing of Some s \<Rightarrow> can_transition (state s) EStart | None \<Rightarrow> Inr Open) (\<lambda>_.
           Inr (run, finding, output_dir, ok))))) of
        Inl err \<Rightarrow> (Inl err, fs)
      | Inr (run, finding, output_dir, ok) \<Rightarrow>
          let session_path = session_path_for output_dir run finding;
              session = build_new_session run finding ok (format_iso8601_utc (clock e))
          in if mkdir_fails e (components (finding_dir_for output_dir run finding))
             then (Inl (io_err ''mkdir {:?}: {}''), fs)
             else case write_session_atomic e session_path session fs of
               (Inl err, fs') \<Rightarrow> (Inl err, fs')
             | (Inr _, fs') \<Rightarrow>
                 (Inr (JObj [(''stage'', JInt 2), (''status'', JStr ''ok''), (''state'', JStr (state_str (state session))),
                    (''run_id'', JStr run), (''finding_id'', JStr finding),
                    (''started_at'', JStr (started_at session)), (''session_path'', JStr session_path)]), fs'))"

subsection \<open>append\_clarification\<close>

record AppendArgs =
  ap_run_id :: string
  ap_finding_id :: string
  ap_output_dir :: string
  ap_kind :: TurnKind
  ap_content :: string
  ap_meta :: "json option"

definition parse_append_args :: "json \<Rightarrow> stage_err + AppendArgs" where
  "parse_append_args arguments =
     and_then (parse_stage2_args arguments) (\<lambda>(args, run, finding, output_dir).
     and_then (require_string_arg args ''kind'') (\<lambda>kind_text.
     and_then (if kind_text = ''agent_question'' then Inr AgentQuestion
               else if kind_text = ''user_answer'' then Inr UserAnswer
               else Inl (bad_request ''kind must be agent_question or user_answer: got {:?}'')) (\<lambda>k.
     and_then (require_string_arg args ''content'') (\<lambda>text.
     if text = [] then Inl (bad_request ''content must be non-empty'')
     else Inr \<lparr>ap_run_id = run, ap_finding_id = finding, ap_output_dir = output_dir, ap_kind = k,
               ap_content = text, ap_meta = get args ''meta''\<rparr>))))"

definition turn_event :: "TurnKind \<Rightarrow> TransitionEvent" where
  "turn_event k = (case k of AgentQuestion \<Rightarrow> EAgentQuestion | UserAnswer \<Rightarrow> EUserAnswer)"

definition build_appended_session :: "env \<Rightarrow> SessionFile \<Rightarrow> AppendArgs \<Rightarrow> stage_err + SessionFile" where
  "build_appended_session e prev args =
     and_then (can_transition (state prev) (turn_event (ap_kind args))) (\<lambda>new_state.
     let stamp = format_iso8601_utc (clock e);
         new_turn = \<lparr>seq = length (transcript prev), kind = ap_kind args, timestamp = stamp,
                     turn_text = ap_content args, meta = ap_meta args\<rparr>;
         ts = transcript prev @ [new_turn]
     in Inr \<lparr>run_id = run_id prev, finding_id = finding_id prev, state = new_state, turn_count = length ts,
             started_at = started_at prev, updated_at = stamp, schema_ok = schema_ok prev,
             verifier_version = verifier_version prev, transcript = ts, aborted_at = None, abort_reason = None\<rparr>)"

definition load_session :: "files \<Rightarrow> string \<Rightarrow> stage_err + SessionFile" where
  "load_session fs path =
     and_then (read_session fs path) (\<lambda>found.
     ok_or (stage2_err ''no_session'' ''no stage-2.session.json: call start_verification first'') found)"

definition do_append_clarification :: "env \<Rightarrow> json \<Rightarrow> files \<Rightarrow> (stage_err + json) \<times> files" where
  "do_append_clarification e arguments fs =
     (case and_then (parse_append_args arguments) (\<lambda>args.
           let session_path = session_path_for (ap_output_dir args) (ap_run_id args) (ap_finding_id args)
           in and_then (load_session fs session_path) (\<lambda>prev.
              and_then (build_appended_session e prev args) (\<lambda>next_session.
              Inr (session_path, next_session)))) of
        Inl err \<Rightarrow> (Inl err, fs)
      | Inr (session_path, next_session) \<Rightarrow>
          (case write_session_atomic e session_path next_session fs of
             (Inl err, fs') \<Rightarrow> (Inl err, fs')
           | (Inr _, fs') \<Rightarrow>
               (Inr (JObj [(''stage'', JInt 2), (''status'', JStr ''ok''),
                  (''state'', JStr (state_str (state next_session))),
                  (''seq'', JInt (int (length (transcript next_session) - 1))),
                  (''turn_count'', JInt (int (turn_count next_session)))]), fs')))"

subsection \<open>finalize\_verification\<close>

definition check_finalize_preconditions :: "SessionFile \<Rightarrow> stage_err + unit" where
  "check_finalize_preconditions s =
     (if \<not> schema_ok s then Inl (stage2_err ''schema_not_ok'' ''session.schema_ok is false; stage-1 artifact is broken'')
      else and_then (can_transition (state s) EFinalize) (\<lambda>_. Inr ()))"

definition build_verified_artifact :: "env \<Rightarrow> SessionFile \<Rightarrow> string \<Rightarrow> string \<Rightarrow> VerifiedArtifact" where
  "build_verified_artifact e s finding stamp =
     (let (completeness_ok, checklist) = compute_completeness (transcript s);
          (digest_hex, digest_input_len) = compute_transcript_digest e (transcript s);
          user_acknowledged = True
      in \<lparr>v_run_id = run_id s, v_finding_id = finding_id s,
          v_verified = (schema_ok s \<and> completeness_ok \<and> user_acknowledged),
          v_kind = \<lparr>vk_schema_ok = schema_ok s, vk_completeness_ok = completeness_ok,
                    vk_user_acknowledged = user_acknowledged\<rparr>,
          v_finalized_at = stamp,
          v_stage1_refined_path = slash_join [FINDINGS_DIR_NAME, finding, REFINED_FILE_NAME],
          v_session_path = slash_join [FINDINGS_DIR_NAME, finding, SESSION_FILE_NAME],
          v_transcript_digest = digest_hex, v_digest_algorithm = DIGEST_ALGORITHM,
          v_transcript_bytes = digest_input_len, v_turn_count = turn_count s,
          v_verifier_version = VERIFIER_VERSION, v_checklist = checklist\<rparr>)"

definition upsert_verified_index ::
  "env \<Rightarrow> string \<Rightarrow> string \<Rightarrow> string \<Rightarrow> VerifiedArtifact \<Rightarrow> string \<Rightarrow> files \<Rightarrow> (stage_err + unit) \<times> files" where
  "upsert_verified_index e output_dir run finding v stamp fs =
     (let entry = entry_default\<lparr>artifact_path := [], extractor_version := EXTRACTOR_VERSION,
            verified_at := Some stamp, verified := Some (v_verified v),
            stage2_path := Some (slash_join [FINDINGS_DIR_NAME, finding, VERIFIED_FILE_NAME])\<rparr>
      in case upsert_index_entry e output_dir run finding entry PreserveRefinedOnly fs of
           (Inl err, fs') \<Rightarrow> (Inl (io_err err), fs')
         | (Inr u, fs') \<Rightarrow> (Inr (), fs'))"

definition persist_finalize ::
  "env \<Rightarrow> string \<Rightarrow> string \<Rightarrow> string \<Rightarrow> SessionFile \<Rightarrow> VerifiedArtifact \<Rightarrow> string \<Rightarrow> files \<Rightarrow>
     (stage_err + (string \<times> nat)) \<times> files" where
  "persist_finalize e output_dir run finding s v stamp fs =
     (let verified_path = path_join (finding_dir_for output_dir run finding) VERIFIED_FILE_NAME
      in case write_json_atomic e verified_path (verified_json v) fs of
           (Inl err, fs1) \<Rightarrow> (Inl (io_err err), fs1)
         | (Inr bytes_written, fs1) \<Rightarrow>
             (case write_session_atomic e (session_path_for output_dir run finding)
                     (s\<lparr>state := Finalized, updated_at := stamp\<rparr>) fs1 of
                (Inl err, fs2) \<Rightarrow> (Inl err, fs2)
              | (Inr _, fs2) \<Rightarrow>
                  (case upsert_verified_index e output_dir run finding v stamp fs2 of
                     (Inl err, fs3) \<Rightarrow> (Inl err, fs3)
                   | (Inr _, fs3) \<Rightarrow> (Inr (verified_path, bytes_written), fs3))))"

definition do_finalize_verification :: "env \<Rightarrow> json \<Rightarrow> files \<Rightarrow> (stage_err + json) \<times> files" where
  "do_finalize_verification e arguments fs =
     (case and_then (parse_stage2_args arguments) (\<lambda>(args, run, finding, output_dir).
           and_then (load_session fs (session_path_for output_dir run finding)) (\<lambda>s.
           and_then (check_finalize_preconditions s) (\<lambda>_.
           Inr (run, finding, output_dir, s)))) of
        Inl err \<Rightarrow> (Inl err, fs)
      | Inr (run, finding, output_dir, s) \<Rightarrow>
          let stamp = format_iso8601_utc (clock e);
              v = build_verified_artifact e s finding stamp
          in case persist_finalize e output_dir run finding s v stamp fs of
               (Inl err, fs') \<Rightarrow> (Inl err, fs')
             | (Inr (verified_path, bytes_written), fs') \<Rightarrow>
                 (Inr (JObj [(''stage'', JInt 2), (''status'', JStr ''ok''), (''state'', JStr (state_str Finalized)),
                    (''verified'', JBool (v_verified v)),
                    (''verified_kind'', JObj [(''schema_ok'', JBool (vk_schema_ok (v_kind v))),
                       (''completeness_ok'', JBool (vk_completeness_ok (v_kind v))),
                       (''user_acknowledged'', JBool (vk_user_acknowledged (v_kind v)))]),
                    (''verified_path'', JStr verified_path), (''turn_count'', JInt (int (v_turn_count v))),
                    (''transcript_digest'', JStr (v_transcript_digest v)),
                    (''digest_algorithm'', JStr (v_digest_algorithm v)),
                    (''transcript_bytes_at_finalize'', JInt (int (v_transcript_bytes v))),
                    (''bytes_written'', JInt (int bytes_written)),
                    (''verifier_version'', JStr VERIFIER_VERSION)]), fs'))"

subsection \<open>abort\_verification\<close>

definition build_aborted_session :: "SessionFile \<Rightarrow> string option \<Rightarrow> string \<Rightarrow> stage_err + SessionFile" where
  "build_aborted_session prev reason stamp =
     and_then (can_transition (state prev) EAbort) (\<lambda>_.
     Inr (prev\<lparr>state := Aborted, updated_at := stamp, aborted_at := Some stamp, abort_reason := reason\<rparr>))"

definition do_abort_verification :: "env \<Rightarrow> json \<Rightarrow> files \<Rightarrow> (stage_err + json) \<times> files" where
  "do_abort_verification e arguments fs =
     (let stamp = format_iso8601_utc (clock e)
      in case and_then (parse_stage2_args arguments) (\<lambda>(args, run, finding, output_dir).
           let session_path = session_path_for output_dir run finding
           in and_then (load_session fs session_path) (\<lambda>prev.
              and_then (build_aborted_session prev (Option.bind (get args ''reason'') as_str) stamp) (\<lambda>aborted.
              Inr (session_path, aborted)))) of
           Inl err \<Rightarrow> (Inl err, fs)
         | Inr (session_path, aborted) \<Rightarrow>
             (case write_session_atomic e session_path aborted fs of
                (Inl err, fs') \<Rightarrow> (Inl err, fs')
              | (Inr _, fs') \<Rightarrow>
                  (Inr (JObj [(''stage'', JInt 2), (''status'', JStr ''ok''), (''state'', JStr (state_str (state aborted))),
                     (''run_id'', JStr (run_id aborted)), (''finding_id'', JStr (finding_id aborted)),
                     (''turn_count'', JInt (int (turn_count aborted))), (''aborted_at'', JStr stamp)]), fs')))"

text \<open>The four tools answer an error with its reason code.\<close>

definition stage2_error_response :: "stage_err \<Rightarrow> json" where
  "stage2_error_response err =
     JObj [(''stage'', JInt 2), (''status'', JStr ''error''), (''reason'', JStr (fst err)), (''message'', JStr (snd err))]"

definition respond :: "(stage_err + json) \<times> files \<Rightarrow> json \<times> files" where
  "respond r = (case r of (Inl err, fs) \<Rightarrow> (stage2_error_response err, fs) | (Inr v, fs) \<Rightarrow> (v, fs))"

definition run_start_verification :: "env \<Rightarrow> json \<Rightarrow> files \<Rightarrow> json \<times> files" where
  "run_start_verification e arguments fs = respond (do_start_verification e arguments fs)"

definition run_append_clarification :: "env \<Rightarrow> json \<Rightarrow> files \<Rightarrow> json \<times> files" where
  "run_append_clarification e arguments fs = respond (do_append_clarification e arguments fs)"

definition run_finalize_verification :: "env \<Rightarrow> json \<Rightarrow> files \<Rightarrow> json \<times> files" where
  "run_finalize_verification e arguments fs = respond (do_finalize_verification e arguments fs)"

definition run_abort_verification :: "env \<Rightarrow> json \<Rightarrow> files \<Rightarrow> json \<times> files" where
  "run_abort_verification e arguments fs = respond (do_abort_verification e arguments fs)"

subsection \<open>A session survives its file\<close>

text \<open>What a session is after it was written and read back: a \<open>null\<close> in the \<open>meta\<close> of a turn is lost, and
  a value has its repeated keys merged.\<close>

definition stored_turn :: "SessionTurn \<Rightarrow> SessionTurn" where
  "stored_turn t = t\<lparr>meta := (case meta t of None \<Rightarrow> None | Some JNull \<Rightarrow> None | Some v \<Rightarrow> Some (to_value v))\<rparr>"

definition stored_session :: "SessionFile \<Rightarrow> SessionFile" where
  "stored_session s = s\<lparr>transcript := map stored_turn (transcript s)\<rparr>"

lemma state_of_json_str [simp]: "state_of_json (JStr (state_str st)) = Some st"
  by (cases st) simp_all

lemma kind_of_json_str [simp]: "kind_of_json (JStr (kind_str k)) = Some k"
  by (cases k) simp_all

lemma as_u64_int: "as_u64 (JInt (int n)) = (if n < 2 ^ 64 then Some n else None)"
  by auto

declare state_of_json.simps(1) [simp del] kind_of_json.simps(1) [simp del] as_u64.simps(1) [simp del]

lemma field_simps_json [simp]:
  "field [] key de = None"
  "field ((k, v) # m) key de = (if k = key then de v else field m key de)"
  by (simp_all add: field_def)

lemma opt_field_simps [simp]:
  "opt_field [] key de = Some None"
  "opt_field ((k, v) # m) key de =
     (if k = key then (if v = JNull then Some None else map_option Some (de v)) else opt_field m key de)"
  by (auto simp: opt_field_def split: json.splits)

lemma skip_none_simps [simp]: "skip_none k ser None = []" "skip_none k ser (Some v) = [(k, ser v)]"
  by (simp_all add: skip_none_def)

lemma turn_of_turn_json:
  "turn_of_json (turn_json t) = (if seq t < 2 ^ 64 then Some (stored_turn t) else None)"
  by (cases t; cases "meta t")
    (auto simp: turn_json_def turn_of_json_def no_duplicate_field_def as_u64_int stored_turn_def
       split: json.splits)

lemma those_turns:
  "those (map turn_of_json (map turn_json ts)) =
     (if list_all (\<lambda>t. seq t < 2 ^ 64) ts then Some (map stored_turn ts) else None)"
  by (induction ts) (simp_all add: turn_of_turn_json)

definition session_in_range :: "SessionFile \<Rightarrow> bool" where
  "session_in_range s \<longleftrightarrow> turn_count s < 2 ^ 64 \<and> list_all (\<lambda>t. seq t < 2 ^ 64) (transcript s)"

lemma session_of_session_json:
  "session_of_json (session_json s) = (if session_in_range s then Some (stored_session s) else None)"
  by (cases s; cases "aborted_at s"; cases "abort_reason s")
    (simp_all add: session_json_def session_of_json_def session_fields_def no_duplicate_field_def as_u64_int
      those_turns session_in_range_def stored_session_def del: map_map)

end
