(* ===== verification/FindingProps.thy ===== *)
theory FindingProps
  imports Verification
begin

text \<open>
  The artifacts of stage 1 read back: the extracted finding (and the one case where it does not), and the
  index of a run, whose entries the three tools merge without losing each other's fields.
\<close>

subsection \<open>The extracted finding\<close>

lemma no_duplicate_Nil [simp]: "no_duplicate_field [] m"
  by (simp add: no_duplicate_field_def)

lemma no_duplicate_cons:
  "no_duplicate_field (k # ks) m \<longleftrightarrow> length (filter (\<lambda>(k', v). k' = k) m) \<le> 1 \<and> no_duplicate_field ks m"
  by (simp add: no_duplicate_field_def)

definition written_always :: "string list" where
  "written_always = [''finding_id'', ''extracted_at'', ''extractor_version'', ''source_form'', ''source_path'']"

text \<open>A defect of the artifact format. A finding may carry any further key, and it is copied into the
  extracted artifact; when the key is one that the artifact itself has and a finding has not
  (\<open>finding_id\<close>, \<open>extracted_at\<close>, \<open>extractor_version\<close>, \<open>source_form\<close>, \<open>source_path\<close>), the artifact holds it
  twice and \<open>refine_finding\<close> cannot read it.\<close>

theorem extras_collision:
  assumes "k \<in> set written_always" "k \<in> fst ` set (extras f)"
  shows "extracted_of e' (extracted_json (build_extracted_artifact e f form path)) = None"
proof -
  let ?x = "build_extracted_artifact e f form path"
  obtain m where m: "extracted_json ?x = JObj m" by (simp add: extracted_json_def)
  have "filter (\<lambda>(k', v). k' = k) (extras f) \<noteq> []" using assms(2) by (auto simp: filter_empty_conv)
  then have "1 \<le> length (filter (\<lambda>(k', v). k' = k) (extras f))" by (cases "filter (\<lambda>(k', v). k' = k) (extras f)") auto
  moreover have "length (filter (\<lambda>(k', v). k' = k) m) = Suc (length (filter (\<lambda>(k', v). k' = k) (extras f)))"
    using m assms(1)
    by (cases "description f"; cases "source_url f"; cases "raw_data f")
      (auto simp: extracted_json_def build_extracted_artifact_def written_always_def)
  ultimately have "\<not> length (filter (\<lambda>(k', v). k' = k) m) \<le> 1" by linarith
  moreover have "k \<in> set extracted_fields" using assms(1) by (auto simp: written_always_def extracted_fields_def)
  ultimately have "\<not> no_duplicate_field extracted_fields m" unfolding no_duplicate_field_def list_all_iff by blast
  then show ?thesis by (simp add: extracted_of_def m)
qed

lemma finding_with_date: "finding_of e (JObj [(''id'', JStr ''f1''), (''title'', JStr ''t''),
    (''relevance_category'', JStr ''c''), (''extracted_at'', JStr ''2026'')]) =
  Some \<lparr>fid = ''f1'', title = ''t'', description = None, source_url = None, relevance_category = ''c'',
        relevance_score = None, raw_data = None, extras = [(''extracted_at'', JStr ''2026'')]\<rparr>"
  by (simp add: finding_of_def finding_fields_def no_duplicate_field_def flatten_rest_def)

theorem extras_collision_witness:
  "\<forall>e. \<exists>f. finding_of e (JObj [(''id'', JStr ''f1''), (''title'', JStr ''t''),
      (''relevance_category'', JStr ''c''), (''extracted_at'', JStr ''2026'')]) = Some f \<and>
    extracted_of e (extracted_json (build_extracted_artifact e f ''inline'' None)) = None"
  unfolding finding_with_date
  by (intro allI exI conjI, rule refl, rule extras_collision [of "''extracted_at''"]) (simp_all add: written_always_def)

text \<open>Without such a key the artifact reads back as it was written. The extras are a \<open>BTreeMap\<close> of plain
  values, and \<open>raw_data\<close> is a plain value other than \<open>null\<close>.\<close>

definition plain_extracted :: "ExtractedFinding \<Rightarrow> bool" where
  "plain_extracted x \<longleftrightarrow> ordered_keys (e_extras x) \<and> list_all (\<lambda>(k, v). to_value v = v) (e_extras x) \<and>
     (case e_raw_data x of None \<Rightarrow> True | Some v \<Rightarrow> v \<noteq> JNull \<and> to_value v = v)"

lemma filter_absent: "k \<notin> fst ` set m \<Longrightarrow> filter (\<lambda>(k', v). k' = k) m = []"
  by (force simp: filter_empty_conv)

lemma field_absent: "k \<notin> fst ` set m \<Longrightarrow> get m k = None"
  by (simp add: get_def map_of_eq_None_iff)

lemma flatten_rest_append:
  "set (map fst a) \<subseteq> set known \<Longrightarrow> flatten_rest known (a @ m) = flatten_rest known m"
proof -
  assume "set (map fst a) \<subseteq> set known"
  then have "filter (\<lambda>(k, v). k \<notin> set known) a = []" by (auto simp: filter_empty_conv)
  then show ?thesis by (simp add: flatten_rest_def)
qed

lemma flatten_rest_id:
  assumes "ordered_keys m" "list_all (\<lambda>(k, v). to_value v = v) m" "fst ` set m \<inter> set known = {}"
  shows "flatten_rest known m = m"
proof -
  have "filter (\<lambda>(k, v). k \<notin> set known) m = m" using assms(3) by (intro filter_True) auto
  moreover have "map (\<lambda>(k, v). (k, to_value v)) m = m" using assms(2) by (intro map_idI) (auto simp: list_all_iff)
  moreover have "foldl (\<lambda>acc (k, v). btree_insert k (to_value v) acc) acc xs =
      foldl (\<lambda>acc (k, x). btree_insert k x acc) acc (map (\<lambda>(k, v). (k, to_value v)) xs)" for acc xs
    by (induction xs arbitrary: acc) auto
  ultimately show ?thesis using foldl_btree_insert [of "[]" m] assms(1) by (simp add: flatten_rest_def)
qed

text \<open>The extracted artifact survives its file: when no extra key is one of its own, it reads back
  as the artifact that was written.\<close>

theorem extracted_round_trip:
  assumes "fst ` set (e_extras x) \<inter> set extracted_fields = {}" "plain_extracted x"
  shows "extracted_of e (extracted_json x) = Some x"
proof -
  let ?X = "e_extras x"
  have absent: "filter (\<lambda>(k', v). k' = k) ?X = []" "get ?X k = None" if "k \<in> set extracted_fields" for k
    using filter_absent [of k ?X] field_absent [of k ?X] assms(1) that by auto
  have gets: "get ?X ''finding_id'' = None" "get ?X ''title'' = None" "get ?X ''description'' = None"
      "get ?X ''source_url'' = None" "get ?X ''relevance_category'' = None" "get ?X ''relevance_score'' = None"
      "get ?X ''raw_data'' = None" "get ?X ''extracted_at'' = None" "get ?X ''extractor_version'' = None"
      "get ?X ''source_form'' = None" "get ?X ''source_path'' = None"
    by (rule absent(2), simp add: extracted_fields_def)+
  define own where "own = [(''finding_id'', JStr (e_finding_id x)), (''title'', JStr (e_title x))]
      @ skip_none ''description'' JStr (e_description x)
      @ skip_none ''source_url'' JStr (e_source_url x)
      @ [(''relevance_category'', JStr (e_relevance_category x)),
         (''relevance_score'', or_null JFloat (e_relevance_score x))]
      @ skip_none ''raw_data'' (\<lambda>v. v) (e_raw_data x)
      @ [(''extracted_at'', JStr (e_extracted_at x)), (''extractor_version'', JStr (e_extractor_version x)),
         (''source_form'', JStr (e_source_form x)), (''source_path'', or_null JStr (e_source_path x))]"
  have json: "extracted_json x = JObj (own @ ?X)" by (simp add: extracted_json_def own_def)
  have "no_duplicate_field extracted_fields own"
    by (cases "e_description x"; cases "e_source_url x"; cases "e_raw_data x")
      (simp_all add: own_def extracted_fields_def no_duplicate_field_def)
  then have dup: "no_duplicate_field extracted_fields (own @ ?X)"
    using absent(1) by (auto simp: no_duplicate_field_def list_all_iff)
  have "set (map fst own) \<subseteq> set extracted_fields"
    by (auto simp: own_def extracted_fields_def skip_none_def split: option.splits)
  moreover have "flatten_rest extracted_fields ?X = ?X"
    using assms by (intro flatten_rest_id) (simp_all add: plain_extracted_def)
  ultimately have rest: "flatten_rest extracted_fields (own @ ?X) = ?X" by (simp add: flatten_rest_append)
  have str: "opt_field (own @ ?X) ''description'' as_str = Some (e_description x)"
    "opt_field (own @ ?X) ''source_url'' as_str = Some (e_source_url x)"
    "opt_field (own @ ?X) ''source_path'' as_str = Some (e_source_path x)"
    "opt_field (own @ ?X) ''relevance_score'' (de_f64 e) = Some (e_relevance_score x)"
    "opt_field (own @ ?X) ''raw_data'' (\<lambda>v. Some (to_value v)) = Some (e_raw_data x)"
    using assms(2) by (auto simp: opt_field_def own_def get_append get_skip_none gets or_null_def plain_extracted_def
      split: option.splits json.splits)
  have req: "field (own @ ?X) ''finding_id'' as_str = Some (e_finding_id x)"
    "field (own @ ?X) ''title'' as_str = Some (e_title x)"
    "field (own @ ?X) ''relevance_category'' as_str = Some (e_relevance_category x)"
    "field (own @ ?X) ''extracted_at'' as_str = Some (e_extracted_at x)"
    "field (own @ ?X) ''extractor_version'' as_str = Some (e_extractor_version x)"
    "field (own @ ?X) ''source_form'' as_str = Some (e_source_form x)"
    by (simp_all add: field_def own_def get_append get_skip_none)
  show ?thesis unfolding json extracted_of_def by (simp add: dup rest str req)
qed

theorem extracted_round_trip_witness:
  "\<forall>e. \<exists>f. finding_of e (JObj [(''id'', JStr ''f1''), (''title'', JStr ''t''),
      (''relevance_category'', JStr ''c''), (''seen'', JInt 1)]) = Some f \<and>
    extracted_of e (extracted_json (build_extracted_artifact e f ''inline'' None)) =
      Some (build_extracted_artifact e f ''inline'' None)"
proof
  fix e
  have f: "finding_of e (JObj [(''id'', JStr ''f1''), (''title'', JStr ''t''),
      (''relevance_category'', JStr ''c''), (''seen'', JInt 1)]) =
    Some \<lparr>fid = ''f1'', title = ''t'', description = None, source_url = None, relevance_category = ''c'',
        relevance_score = None, raw_data = None, extras = [(''seen'', JInt 1)]\<rparr>"
    by (simp add: finding_of_def finding_fields_def no_duplicate_field_def flatten_rest_def)
  show "\<exists>f. finding_of e (JObj [(''id'', JStr ''f1''), (''title'', JStr ''t''),
      (''relevance_category'', JStr ''c''), (''seen'', JInt 1)]) = Some f \<and>
    extracted_of e (extracted_json (build_extracted_artifact e f ''inline'' None)) =
      Some (build_extracted_artifact e f ''inline'' None)"
    unfolding f
    by (intro exI conjI, rule refl, rule extracted_round_trip)
      (simp_all add: build_extracted_artifact_def plain_extracted_def ordered_keys_def extracted_fields_def)
qed

subsection \<open>The index\<close>

lemma entry_of_entry_json: "entry_of (entry_json x) = Some x"
  by (cases "orchestrator_version x"; cases "refined_at x"; cases "verified_at x"; cases "verified x"; cases "stage2_path x")
    (simp_all add: entry_json_def entry_of_def entry_fields_def no_duplicate_field_def)

lemma entries_of_json:
  assumes "ordered_keys m" shows "entries_of (JObj (map (\<lambda>(k, x). (k, entry_json x)) m)) = Some m"
proof -
  have e: "map (\<lambda>(k, v). map_option (Pair k) (entry_of v)) (map (\<lambda>(k, x). (k, entry_json x)) m) = map Some m"
    by (auto simp: entry_of_entry_json)
  have "those (map Some m) = Some m" by (induction m) auto
  then show ?thesis using foldl_btree_insert [of "[]" m] assms unfolding entries_of_def json.case e by simp
qed

lemma index_of_index_json: "ordered_keys (ix_findings ix) \<Longrightarrow> index_of (index_json ix) = Some ix"
  using entries_of_json [of "ix_findings ix"]
  by (simp add: index_json_def index_of_def no_duplicate_field_def)

lemma entries_of_ordered: "entries_of j = Some m \<Longrightarrow> ordered_keys m"
  by (cases j) (auto simp: entries_of_def ordered_keys_def [of "[]"] intro!: ordered_foldl)

lemma index_of_ordered: "index_of j = Some ix \<Longrightarrow> ordered_keys (ix_findings ix)"
  by (cases j) (auto simp: index_of_def field_def bind_eq_Some_conv split: if_splits option.splits
    dest: entries_of_ordered)

lemma read_index_ordered: "read_index fs path = Inr (Some ix) \<Longrightarrow> ordered_keys (ix_findings ix)"
  by (auto simp: read_index_def split: option.splits content.splits dest: index_of_ordered)

text \<open>An index update that succeeds is what the next reader sees: the entry of the finding is the
  merge of the old one and the new one, and the entries of all other findings are unchanged.\<close>

theorem upsert_read_back:
  assumes "upsert_index_entry e d r f entry mode fs = (Inr u, fs')"
  shows "\<exists>prior ix. read_index fs (index_path_for d r) = Inr prior \<and>
    read_index fs' (index_path_for d r) = Inr (Some ix) \<and>
    map_of (ix_findings ix) f =
      Some (merge_index_entry (Option.bind prior (\<lambda>old. map_of (ix_findings old) f)) entry mode) \<and>
    (\<forall>g. g = f \<or> map_of (ix_findings ix) g = Option.bind prior (\<lambda>old. map_of (ix_findings old) g))"
proof -
  let ?p = "components (index_path_for d r)"
  from assms obtain prior where prior: "read_index fs (index_path_for d r) = Inr prior"
    by (auto simp: upsert_index_entry_def Let_def split: sum.splits)
  let ?stamp = "format_iso8601_utc (index_clock e)"
  define idx where "idx = (case prior of Some existing \<Rightarrow> existing
    | None \<Rightarrow> \<lparr>ix_run_id = r, ix_started_at = ?stamp, ix_last_updated_at = ?stamp, ix_findings = []\<rparr>)"
  define merged where "merged = merge_index_entry (map_of (ix_findings idx) f) entry mode"
  let ?ix = "idx\<lparr>ix_last_updated_at := ?stamp, ix_findings := btree_insert f merged (ix_findings idx)\<rparr>"
  have "fs' = fs(?p \<mapsto> CJson (index_json ?ix))"
    using assms prior by (auto simp: upsert_index_entry_def Let_def idx_def merged_def write_json_atomic_def
      split: prod.splits sum.splits if_splits)
  moreover have "ordered_keys (ix_findings idx)"
    using prior read_index_ordered by (auto simp: idx_def ordered_keys_def split: option.splits)
  then have "ordered_keys (ix_findings ?ix)" by (simp add: ordered_btree_insert)
  ultimately have "read_index fs' (index_path_for d r) = Inr (Some ?ix)"
    by (simp add: read_index_def index_of_index_json)
  moreover have old: "map_of (ix_findings idx) g = Option.bind prior (\<lambda>old. map_of (ix_findings old) g)" for g
    by (simp add: idx_def split: option.splits)
  ultimately show ?thesis using prior
    by (intro exI [of _ prior] exI [of _ ?ix]) (auto simp: map_of_btree_insert merged_def)
qed

theorem upsert_read_back_witness:
  "\<exists>ix. read_index (snd (upsert_index_entry
      \<lparr>clock = 0, index_clock = 0, nanos = 0, pid = 0, write_fails = (\<lambda>_. False), mkdir_fails = (\<lambda>_. False),
       pretty_text = (\<lambda>_. []), line_text = (\<lambda>_. []), f64_text = (\<lambda>_. []), sha256 = (\<lambda>s. s)\<rparr>
      ''/out'' ''r'' ''f'' entry_default PreserveStage2 Map.empty)) (index_path_for ''/out'' ''r'') = Inr (Some ix) \<and>
    map_of (ix_findings ix) ''f'' = Some entry_default"
proof -
  let ?e = "\<lparr>clock = 0, index_clock = 0, nanos = 0, pid = 0, write_fails = (\<lambda>_. False), mkdir_fails = (\<lambda>_. False),
       pretty_text = (\<lambda>_. []), line_text = (\<lambda>_. []), f64_text = (\<lambda>_. []), sha256 = (\<lambda>s. s)\<rparr>"
  obtain fs' where r: "upsert_index_entry ?e ''/out'' ''r'' ''f'' entry_default PreserveStage2 Map.empty = (Inr (), fs')"
    by (simp add: upsert_index_entry_def Let_def read_index_def write_json_atomic_def)
  moreover have "read_index Map.empty (index_path_for ''/out'' ''r'') = Inr None" by (simp add: read_index_def)
  ultimately show ?thesis using upsert_read_back [OF r] by (auto simp: merge_index_entry_def)
qed

text \<open>Whatever order the three tools write an entry in, the fields a later stage wrote stay: extracting
  again keeps the refined artifact path and the verdict, refining again keeps the verdict, finalizing
  keeps everything of the refinement.\<close>

definition stage2_fields :: "IndexEntry \<Rightarrow> string option \<times> bool option \<times> string option" where
  "stage2_fields x = (verified_at x, verified x, stage2_path x)"

definition refined_fields :: "IndexEntry \<Rightarrow> string option \<times> string option" where
  "refined_fields x = (orchestrator_version x, refined_at x)"

lemmas merge_defs = merge_index_entry_def merge_preserve_downstream_def merge_preserve_stage2_def
  merge_preserve_refined_only_def

definition merge_all :: "IndexEntry \<Rightarrow> (IndexEntry \<times> MergeMode) list \<Rightarrow> IndexEntry" where
  "merge_all start ws = foldl (\<lambda>old (x, m). merge_index_entry (Some old) x m) start ws"

lemma merge_all_stage2:
  "list_all (\<lambda>(x, m). m = PreserveDownstream \<or> m = PreserveStage2) ws \<Longrightarrow>
     stage2_fields (merge_all start ws) = stage2_fields start"
  unfolding merge_all_def by (induction ws arbitrary: start) (auto simp: merge_defs stage2_fields_def)

lemma merge_all_refined:
  "list_all (\<lambda>(x, m). m = PreserveDownstream \<or> m = PreserveRefinedOnly) ws \<Longrightarrow> refined_at start \<noteq> None \<Longrightarrow>
     refined_fields (merge_all start ws) = refined_fields start \<and>
     artifact_path (merge_all start ws) = artifact_path start"
  unfolding merge_all_def by (induction ws arbitrary: start) (auto simp: merge_defs refined_fields_def)

text \<open>The merge of index entries loses no field of another stage: over any sequence of re-extractions
  and re-refinements the stage-2 verdict stays, and over any sequence of re-extractions and finalizations
  the refinement stays, with the path of the refined artifact.\<close>

theorem merges_preserve:
  "(list_all (\<lambda>(x, m). m = PreserveDownstream \<or> m = PreserveStage2) ws \<longrightarrow>
      stage2_fields (merge_all start ws) = stage2_fields start) \<and>
   (list_all (\<lambda>(x, m). m = PreserveDownstream \<or> m = PreserveRefinedOnly) ws \<and> refined_at start \<noteq> None \<longrightarrow>
      refined_fields (merge_all start ws) = refined_fields start \<and>
      artifact_path (merge_all start ws) = artifact_path start)"
  by (simp add: merge_all_stage2 merge_all_refined)

theorem merges_preserve_witness:
  "verified (merge_all (entry_default\<lparr>verified := Some True, refined_at := Some ''t''\<rparr>)
      [(entry_default, PreserveDownstream)]) = Some True \<and>
   refined_at (merge_all (entry_default\<lparr>verified := Some True, refined_at := Some ''t''\<rparr>)
      [(entry_default, PreserveDownstream)]) = Some ''t''"
  using merges_preserve [of "[(entry_default, PreserveDownstream)]" "entry_default\<lparr>verified := Some True, refined_at := Some ''t''\<rparr>"]
  by (simp add: stage2_fields_def refined_fields_def)

end
