(* ===== verification/VerificationProps.thy ===== *)
theory VerificationProps
  imports Verification
begin

text \<open>
  What the finding and verification tools promise of the session files. \<open>legal_session\<close> is the abstract
  state machine: which session may follow which. The locale \<open>session_tool\<close> states the contract of a tool,
  that a session file changes by a legal step or not at all; its lemmas (well-formed sessions stay so, a
  finalized session never changes) are proved once from the contract, and every tool is interpreted.
\<close>

subsection \<open>Well-formed sessions and legal steps\<close>

definition alternates :: "SessionTurn list \<Rightarrow> bool" where
  "alternates ts \<longleftrightarrow>
     (\<forall>i < length ts. kind (ts ! i) = (if even i then AgentQuestion else UserAnswer) \<and> seq (ts ! i) = i)"

definition wf_session :: "SessionFile \<Rightarrow> bool" where
  "wf_session s \<longleftrightarrow> turn_count s = length (transcript s) \<and> alternates (transcript s) \<and>
     (case state s of
        Open \<Rightarrow> transcript s = []
      | WaitingForUser \<Rightarrow> odd (length (transcript s))
      | WaitingForAgent \<Rightarrow> even (length (transcript s)) \<and> transcript s \<noteq> []
      | Finalized \<Rightarrow> even (length (transcript s)) \<and> transcript s \<noteq> [] \<and> schema_ok s
      | Aborted \<Rightarrow> True) \<and>
     (aborted_at s \<noteq> None \<longleftrightarrow> state s = Aborted)"

text \<open>What a tool does to a session, and the step it is.\<close>

datatype SessionAct = StartAct | AskAct | AnswerAct | FinalizeAct | AbortAct

fun turn_act :: "TurnKind \<Rightarrow> SessionAct" where
  "turn_act AgentQuestion = AskAct"
| "turn_act UserAnswer = AnswerAct"

inductive legal_session :: "SessionAct \<Rightarrow> SessionFile option \<Rightarrow> SessionFile \<Rightarrow> bool" where
  create: "legal_session StartAct None (build_new_session run finding ok stamp)"
| restart: "state s = Aborted \<Longrightarrow> legal_session StartAct (Some s) (build_new_session run finding ok stamp)"
| append: "build_appended_session e s args = Inr s' \<Longrightarrow> legal_session (turn_act (ap_kind args)) (Some s) s'"
| finalize: "check_finalize_preconditions s = Inr () \<Longrightarrow>
    legal_session FinalizeAct (Some s) (s\<lparr>state := Finalized, updated_at := stamp\<rparr>)"
| abort: "build_aborted_session s reason stamp = Inr s' \<Longrightarrow> legal_session AbortAct (Some s) s'"

inductive_cases legal_sessionE: "legal_session k before s'"

lemmas transition_defs = can_transition_def transition_start_def transition_append_def
  transition_finalize_def transition_abort_def turn_event_def

lemma can_transition_Inr:
  "can_transition st event = Inr st' \<longleftrightarrow>
     (st, event, st') \<in> {(Aborted, EStart, Open), (Open, EAgentQuestion, WaitingForUser),
       (WaitingForUser, EUserAnswer, WaitingForAgent), (WaitingForAgent, EAgentQuestion, WaitingForUser),
       (WaitingForAgent, EFinalize, Finalized), (Open, EAbort, Aborted), (WaitingForUser, EAbort, Aborted),
       (WaitingForAgent, EAbort, Aborted)}"
  by (cases st; cases event; cases st') (simp_all add: transition_defs)

lemma alternates_append:
  "alternates (ts @ [t]) \<longleftrightarrow> alternates ts \<and> seq t = length ts \<and>
     kind t = (if even (length ts) then AgentQuestion else UserAnswer)"
proof -
  have "(\<forall>i < length ts. kind ((ts @ [t]) ! i) = (if even i then AgentQuestion else UserAnswer) \<and> seq ((ts @ [t]) ! i) = i)
      \<longleftrightarrow> alternates ts"
    unfolding alternates_def by (simp add: nth_append)
  then show ?thesis unfolding alternates_def length_append_singleton All_less_Suc nth_append_length
    by blast
qed

lemma alternates_simps [simp]: "alternates []"
  "alternates [t] \<longleftrightarrow> seq t = 0 \<and> kind t = AgentQuestion"
  using alternates_append [of "[]" t] by (simp_all add: alternates_def)

lemma wf_appended:
  assumes "wf_session s" "build_appended_session e s args = Inr s'" shows "wf_session s'"
  using assms by (cases "ap_kind args")
    (auto simp: build_appended_session_def wf_session_def and_then_Inr can_transition_Inr turn_event_def Let_def
      alternates_append)

lemma wf_finalized:
  assumes "wf_session s" "check_finalize_preconditions s = Inr ()"
  shows "wf_session (s\<lparr>state := Finalized, updated_at := stamp\<rparr>)"
  using assms by (auto simp: check_finalize_preconditions_def wf_session_def and_then_Inr can_transition_Inr
    split: if_splits)

lemma wf_legal:
  assumes "legal_session k before s'" "\<And>s. before = Some s \<Longrightarrow> wf_session s" shows "wf_session s'"
  using assms
proof (cases rule: legal_session.cases)
  case (append e s args)
  then show ?thesis using assms(2) wf_appended by blast
next
  case (finalize s stamp)
  then show ?thesis using assms(2) wf_finalized by blast
next
  case (abort s reason stamp)
  then show ?thesis using assms(2) by (auto simp: build_aborted_session_def wf_session_def and_then_Inr)
qed (auto simp: wf_session_def build_new_session_def alternates_def)

lemma stored_simps [simp]:
  "state (stored_session s) = state s" "turn_count (stored_session s) = turn_count s"
  "length (transcript (stored_session s)) = length (transcript s)" "schema_ok (stored_session s) = schema_ok s"
  "aborted_at (stored_session s) = aborted_at s" "transcript (stored_session s) = [] \<longleftrightarrow> transcript s = []"
  by (simp_all add: stored_session_def)

lemma stored_turn_simps [simp]: "kind (stored_turn t) = kind t" "seq (stored_turn t) = seq t"
  by (simp_all add: stored_turn_def)

lemma wf_stored: "wf_session (stored_session s) = wf_session s"
  by (simp add: wf_session_def alternates_def) (simp add: stored_session_def cong: SessionState.case_cong)

text \<open>No step leaves \<open>Finalized\<close>, and an aborted session only restarts.\<close>

lemma legal_not_finalized: "legal_session k (Some s) s' \<Longrightarrow> state s \<noteq> Finalized"
  by (erule legal_sessionE) (auto simp: build_appended_session_def check_finalize_preconditions_def
      build_aborted_session_def and_then_Inr can_transition_Inr split: if_splits)

subsection \<open>The contract of a tool\<close>

definition session_in :: "content option \<Rightarrow> SessionFile option" where
  "session_in c = (case c of Some (CJson j) \<Rightarrow> session_of_json j | _ \<Rightarrow> None)"

definition session_file :: "fpath \<Rightarrow> bool" where
  "session_file p \<longleftrightarrow> p \<noteq> [] \<and> last p = SESSION_FILE_NAME"

text \<open>\<open>stepped k c c'\<close>: the session file \<open>c\<close> became \<open>c'\<close> by one legal step \<open>k\<close>.\<close>

definition stepped :: "SessionAct \<Rightarrow> content option \<Rightarrow> content option \<Rightarrow> bool" where
  "stepped k c c' \<longleftrightarrow> (\<exists>before s'. legal_session k before s' \<and> c' = Some (CJson (session_json s')) \<and>
     (before = None \<and> c = None \<or> before \<noteq> None \<and> session_in c = before))"

text \<open>What the arguments of a request name, read from the JSON: its strings, and the session file of its
  run and finding.\<close>

definition str_arg :: "json \<Rightarrow> string \<Rightarrow> string option" where
  "str_arg a k = Option.bind (Option.bind (as_object a) (\<lambda>m. get m k)) as_str"

definition session_place :: "json \<Rightarrow> fpath option" where
  "session_place a =
     (case (str_arg a ''output_dir'', str_arg a ''run_id'', str_arg a ''finding_id'') of
        (Some d, Some r, Some f) \<Rightarrow> Some (components d @ [''runs'', r, ''findings'', f, ''stage-2.session.json''])
      | _ \<Rightarrow> None)"

definition append_act :: "json \<Rightarrow> SessionAct option" where
  "append_act a =
     (if str_arg a ''kind'' = Some ''agent_question'' then Some AskAct
      else if str_arg a ''kind'' = Some ''user_answer'' then Some AnswerAct else None)"

definition wf_files :: "files \<Rightarrow> bool" where
  "wf_files fs \<longleftrightarrow> (\<forall>p s. session_file p \<longrightarrow> session_in (fs p) = Some s \<longrightarrow> wf_session s)"

locale session_tool =
  fixes run :: "env \<Rightarrow> json \<Rightarrow> files \<Rightarrow> ('err + json) \<times> files"
    and act :: "json \<Rightarrow> SessionAct option"
  assumes session_steps: "session_file p \<Longrightarrow> snd (run e a fs) p \<noteq> fs p \<Longrightarrow>
      session_place a = Some p \<and> (\<exists>k. act a = Some k \<and> stepped k (fs p) (snd (run e a fs) p))"
    and acknowledged: "fst (run e a fs) = Inr resp \<Longrightarrow> act a \<noteq> None \<Longrightarrow>
      \<exists>p k. session_place a = Some p \<and> act a = Some k \<and> stepped k (fs p) (snd (run e a fs) p)"
begin

lemma keeps_wf: "wf_files fs \<Longrightarrow> wf_files (snd (run e a fs))"
  unfolding wf_files_def
proof (intro allI impI)
  fix p s
  assume wf: "\<forall>p s. session_file p \<longrightarrow> session_in (fs p) = Some s \<longrightarrow> wf_session s"
    and p: "session_file p" and s: "session_in (snd (run e a fs) p) = Some s"
  show "wf_session s"
  proof (cases "snd (run e a fs) p = fs p")
    case True
    with wf p s show ?thesis by auto
  next
    case False
    from session_steps [OF p False] obtain k before s' where s': "legal_session k before s'"
      "snd (run e a fs) p = Some (CJson (session_json s'))"
      "before = None \<and> fs p = None \<or> before \<noteq> None \<and> session_in (fs p) = before"
      unfolding stepped_def by blast
    have "wf_session s'" by (rule wf_legal [OF s'(1)]) (use s'(3) wf p in auto)
    moreover have "s = stored_session s'"
      using s s'(2) by (simp add: session_in_def session_of_session_json split: if_splits)
    ultimately show ?thesis by (simp add: wf_stored)
  qed
qed

lemma keeps_finalized:
  assumes "session_file p" "session_in (fs p) = Some s" "state s = Finalized"
  shows "snd (run e a fs) p = fs p"
proof (rule ccontr)
  assume "snd (run e a fs) p \<noteq> fs p"
  from session_steps [OF assms(1) this] obtain k before s' where "legal_session k before s'"
    "before = None \<and> fs p = None \<or> before \<noteq> None \<and> session_in (fs p) = before"
    unfolding stepped_def by blast
  with assms(2) have "legal_session k (Some s) s'" by (auto simp: session_in_def)
  with assms(3) show False by (auto dest: legal_not_finalized)
qed

end

subsection \<open>Which paths the tools write\<close>

lemma write_json_frame: "p \<noteq> components target \<Longrightarrow> snd (write_json_atomic e target v fs) p = fs p"
  by (simp add: write_json_atomic_def)

lemma upsert_frame: "p \<noteq> components (index_path_for d r) \<Longrightarrow> snd (upsert_index_entry e d r f entry mode fs) p = fs p"
  using write_json_frame [of p "index_path_for d r" e]
  by (auto simp: upsert_index_entry_def Let_def split: sum.splits prod.splits) (metis snd_conv)+

lemma parse_ids_Inr:
  "parse_ids args = Inr (r, f, d) \<Longrightarrow> plain_component r \<and> plain_component f \<and> is_absolute d"
  by (auto simp: parse_ids_def and_then_Inr require_absolute_Inr dest: safe_id_plain)

lemma run_dir_path:
  assumes "is_absolute d" "plain_component r"
  shows "is_absolute (path_join (path_join d RUNS_DIR_NAME) r)"
    "components (path_join (path_join d RUNS_DIR_NAME) r) = components d @ [RUNS_DIR_NAME, r]"
  using components_path_join assms file_names_plain by simp_all

lemma finding_dir_path:
  assumes "is_absolute d" "plain_component r" "plain_component f"
  shows "is_absolute (finding_dir_for d r f)"
    "components (finding_dir_for d r f) = components d @ [RUNS_DIR_NAME, r, FINDINGS_DIR_NAME, f]"
  using components_path_join run_dir_path assms file_names_plain by (simp_all add: finding_dir_for_def)

lemma file_in_dir:
  assumes "is_absolute dir" "plain_component name" shows "components (path_join dir name) = components dir @ [name]"
  using components_path_join assms by simp

lemma file_names_distinct:
  "INDEX_FILE_NAME \<noteq> SESSION_FILE_NAME" "EXTRACTED_FILE_NAME \<noteq> SESSION_FILE_NAME"
  "SOURCE_FILE_NAME \<noteq> SESSION_FILE_NAME" "REFINED_FILE_NAME \<noteq> SESSION_FILE_NAME"
  "VERIFIED_FILE_NAME \<noteq> SESSION_FILE_NAME" "VERIFIED_FILE_NAME \<noteq> INDEX_FILE_NAME"
  by (simp_all add: INDEX_FILE_NAME_def SESSION_FILE_NAME_def EXTRACTED_FILE_NAME_def SOURCE_FILE_NAME_def
    REFINED_FILE_NAME_def VERIFIED_FILE_NAME_def)

lemma not_session_file:
  assumes "session_file p" "is_absolute dir" "plain_component name" "name \<noteq> SESSION_FILE_NAME"
  shows "p \<noteq> components (path_join dir name)"
  using assms file_in_dir [of dir name] by (auto simp: session_file_def)

lemma index_not_session:
  assumes "session_file p" "is_absolute d" "plain_component r" shows "p \<noteq> components (index_path_for d r)"
  unfolding index_path_for_def using assms
  by (intro not_session_file run_dir_path file_names_plain file_names_distinct) auto

lemma persist_extract_frame:
  assumes p: "session_file p" and d: "is_absolute d" "plain_component r" "is_absolute dir"
  shows "snd (persist_extract e d r dir source x fs) p = fs p"
proof -
  have s: "p \<noteq> components (path_join dir SOURCE_FILE_NAME)" "p \<noteq> components (path_join dir EXTRACTED_FILE_NAME)"
    by (rule not_session_file [OF p d(3)]; simp add: file_names_plain file_names_distinct)+
  note i = upsert_frame [OF index_not_session [OF p d(1,2)]]
  note w = write_json_frame [OF s(1)] write_json_frame [OF s(2)]
  show ?thesis
    using w [of e source fs] w(2) [of e] i [of e]
    by (auto simp: persist_extract_def Let_def split: sum.splits prod.splits) (metis snd_conv)+
qed

lemma persist_refine_frame:
  assumes p: "session_file p" and d: "is_absolute d" "plain_component r" "is_absolute dir"
  shows "snd (persist_refine e d r f dir artifact stamp fs) p = fs p"
proof -
  have s: "p \<noteq> components (path_join dir REFINED_FILE_NAME)"
    by (rule not_session_file [OF p d(3)]; simp add: file_names_plain file_names_distinct)
  show ?thesis
    using write_json_frame [OF s, of e] upsert_frame [OF index_not_session [OF p d(1,2)], of e]
    by (auto simp: persist_refine_def Let_def split: sum.splits prod.splits) (metis snd_conv)+
qed

subsection \<open>Every tool meets the contract\<close>

lemma run_id_arg_safe: "run_id_arg e v = Inr r \<Longrightarrow> validate_safe_id r = Inr ()"
  by (cases v rule: option.exhaust; cases "the v") (auto simp: run_id_arg_def and_then_Inr generate_run_id_safe)

lemma extract_args_paths:
  assumes "parse_extract_args e a = Inr (arg, d, r)" shows "is_absolute d" "plain_component r"
  using assms by (auto simp: parse_extract_args_def and_then_Inr ok_or_Inr require_absolute_Inr
      dest: run_id_arg_safe safe_id_plain)

interpretation extracting: session_tool do_extract_finding "\<lambda>_. None"
proof
  fix p e a fs assume p: "session_file p" and ne: "snd (do_extract_finding e a fs) p \<noteq> fs p"
  have "snd (do_extract_finding e a fs) p = fs p"
  proof (cases "and_then (parse_extract_args e a) (\<lambda>(finding_arg, output_dir, run_id).
           and_then (resolve_finding e fs finding_arg) (\<lambda>(f, form, path, source).
           and_then (validate_safe_id (fid f)) (\<lambda>_.
           Inr (output_dir, run_id, f, form, path, source))))")
    case (Inr x)
    then obtain arg d r f form path source where x: "parse_extract_args e a = Inr (arg, d, r)"
      "validate_safe_id (fid f) = Inr ()" "x = (d, r, f, form, path, source)"
      by (auto simp: and_then_Inr split: prod.splits)
    note dirs = extract_args_paths [OF x(1)]
    have "is_absolute (finding_dir_for d r (fid f))"
      using dirs safe_id_plain [OF x(2)] by (simp add: finding_dir_path)
    from persist_extract_frame [OF p dirs this] show ?thesis
      unfolding do_extract_finding_def Inr x(3) by (simp add: Let_def split: prod.splits sum.splits) (metis snd_conv)
  qed (simp add: do_extract_finding_def)
  with ne show "session_place a = Some p \<and> (\<exists>k. None = Some k \<and> stepped k (fs p) (snd (do_extract_finding e a fs) p))" by simp
qed simp

interpretation refining: session_tool do_refine_finding "\<lambda>_. None"
proof
  fix p e a fs assume p: "session_file p" and ne: "snd (do_refine_finding e a fs) p \<noteq> fs p"
  have "snd (do_refine_finding e a fs) p = fs p"
  proof (cases "and_then (parse_refine_args a) (\<lambda>parsed.
           and_then (load_existing_extracted e fs
             (finding_dir_for (ref_output_dir parsed) (ref_run_id parsed) (ref_finding_id parsed))) (\<lambda>extracted.
           Inr (parsed, extracted)))")
    case (Inr x)
    then obtain parsed extracted where x: "parse_refine_args a = Inr parsed" "x = (parsed, extracted)"
      by (auto simp: and_then_Inr)
    have dirs: "is_absolute (ref_output_dir parsed)" "plain_component (ref_run_id parsed)"
        "plain_component (ref_finding_id parsed)"
      using x(1) by (auto simp: parse_refine_args_def and_then_Inr split: prod.splits if_splits dest!: parse_ids_Inr)
    from persist_refine_frame [OF p dirs(1,2) finding_dir_path(1) [OF dirs]] show ?thesis
      unfolding do_refine_finding_def Inr x(2) by (simp add: Let_def split: prod.splits sum.splits) (metis snd_conv)
  qed (simp add: do_refine_finding_def)
  with ne show "session_place a = Some p \<and> (\<exists>k. None = Some k \<and> stepped k (fs p) (snd (do_refine_finding e a fs) p))" by simp
qed simp

text \<open>A tool of stage 2 writes the session file of its arguments: the step must be legal from what it read
  there.\<close>

lemma read_session_in: "read_session fs path = Inr (Some s) \<Longrightarrow> session_in (fs (components path)) = Some s"
  by (auto simp: read_session_def session_in_def split: option.splits content.splits)

lemma read_session_None: "read_session fs path = Inr None \<longleftrightarrow> fs (components path) = None"
  by (auto simp: read_session_def split: option.splits content.splits)

lemma load_session_in: "load_session fs path = Inr s \<Longrightarrow> session_in (fs (components path)) = Some s"
  by (auto simp: load_session_def and_then_Inr ok_or_Inr intro: read_session_in)

lemma stepped_from:
  "legal_session k (Some s) s' \<Longrightarrow> session_in c = Some s \<Longrightarrow> stepped k c (Some (CJson (session_json s')))"
  unfolding stepped_def by (intro exI [of _ "Some s"] exI [of _ s']) simp

lemma stepped_new: "legal_session k None s' \<Longrightarrow> stepped k None (Some (CJson (session_json s')))"
  unfolding stepped_def by (intro exI [of _ None] exI [of _ s']) simp

lemma str_argI: "as_object a = Some m \<Longrightarrow> require_string_arg m k = Inr v \<Longrightarrow> str_arg a k = Some v"
  by (simp add: str_arg_def require_string_arg_def ok_or_Inr)

text \<open>The run, the finding and the directory that the tools use are those of the request.\<close>

definition request_place :: "json \<Rightarrow> string \<Rightarrow> string \<Rightarrow> string \<Rightarrow> bool" where
  "request_place a d r f \<longleftrightarrow> str_arg a ''output_dir'' = Some d \<and> str_arg a ''run_id'' = Some r \<and>
     str_arg a ''finding_id'' = Some f \<and> is_absolute d \<and> ''..'' \<notin> set (components d) \<and>
     plain_component r \<and> r \<noteq> ''..'' \<and> plain_component f \<and> f \<noteq> ''..''"

lemma parse_ids_place:
  assumes "as_object a = Some m" "parse_ids m = Inr (r, f, d)" shows "request_place a d r f"
  using assms
  by (auto simp: parse_ids_def and_then_Inr require_absolute_Inr request_place_def str_argI dest: safe_id_plain)

lemma stage2_args_place: "parse_stage2_args a = Inr (args, r, f, d) \<Longrightarrow> request_place a d r f"
  by (auto simp: parse_stage2_args_def and_then_Inr ok_or_Inr intro: parse_ids_place)

lemma request_place_path:
  assumes "request_place a d r f"
  shows "components (finding_dir_for d r f) = components d @ [''runs'', r, ''findings'', f]"
    "is_absolute (finding_dir_for d r f)"
    "components (session_path_for d r f) = components d @ [''runs'', r, ''findings'', f, ''stage-2.session.json'']"
    "session_place a = Some (components (session_path_for d r f))"
    "components (index_path_for d r) = components d @ [''runs'', r, ''index.json'']"
proof -
  have d: "is_absolute d" "plain_component r" "plain_component f" using assms by (simp_all add: request_place_def)
  note names = RUNS_DIR_NAME_def FINDINGS_DIR_NAME_def SESSION_FILE_NAME_def INDEX_FILE_NAME_def
  show dir: "components (finding_dir_for d r f) = components d @ [''runs'', r, ''findings'', f]"
    "is_absolute (finding_dir_for d r f)"
    using finding_dir_path [OF d] by (simp_all add: names)
  show path: "components (session_path_for d r f) = components d @ [''runs'', r, ''findings'', f, ''stage-2.session.json'']"
    using dir file_in_dir [OF dir(2) file_names_plain(7)] by (simp add: session_path_for_def names)
  show "session_place a = Some (components (session_path_for d r f))"
    using assms by (simp add: session_place_def request_place_def path)
  show "components (index_path_for d r) = components d @ [''runs'', r, ''index.json'']"
    using run_dir_path [OF d(1,2)] file_in_dir [of "path_join (path_join d RUNS_DIR_NAME) r" INDEX_FILE_NAME] file_names_plain(3)
    by (simp add: index_path_for_def names)
qed

text \<open>Three of the four tools write one file at most: an error leaves the files, and an acknowledged
  request has made its step.\<close>

definition one_step :: "('err + json) \<times> files \<Rightarrow> files \<Rightarrow> json \<Rightarrow> SessionAct option \<Rightarrow> bool" where
  "one_step res fs a act \<longleftrightarrow> (\<exists>err. res = (Inl err, fs)) \<or>
     (\<exists>resp p c k. res = (Inr resp, fs(p \<mapsto> c)) \<and> session_place a = Some p \<and> act = Some k \<and> stepped k (fs p) (Some c))"

lemma one_step_contract:
  assumes "one_step res fs a act"
  shows "snd res p \<noteq> fs p \<Longrightarrow> session_place a = Some p \<and> (\<exists>k. act = Some k \<and> stepped k (fs p) (snd res p))"
    "fst res = Inr resp \<Longrightarrow> \<exists>p k. session_place a = Some p \<and> act = Some k \<and> stepped k (fs p) (snd res p)"
  using assms by (auto simp: one_step_def split: if_splits)

lemma one_step_error: "one_step (Inl err, fs) fs a act"
  by (simp add: one_step_def)

lemma write_session_outcome:
  obtains err where "write_session_atomic e path s fs = (Inl err, fs)"
    | "write_session_atomic e path s fs = (Inr (), fs(components path \<mapsto> CJson (session_json s)))"
  by (cases "write_fails e (components path)") (auto simp: write_session_atomic_def write_json_atomic_def)

lemma one_step_write:
  assumes "request_place a d r f" "stepped k (fs (components (session_path_for d r f))) (Some (CJson (session_json s)))"
  shows "one_step (Inr resp, fs(components (session_path_for d r f) \<mapsto> CJson (session_json s))) fs a (Some k)"
  using assms request_place_path(4) [OF assms(1)] unfolding one_step_def by blast

lemma start_one_step: "one_step (do_start_verification e a fs) fs a (Some StartAct)"
proof -
  let ?checked = "and_then (parse_stage2_args a) (\<lambda>(args, run, finding, output_dir).
           and_then (check_stage1_refined e fs (finding_dir_for output_dir run finding)) (\<lambda>ok.
           and_then (read_session fs (session_path_for output_dir run finding)) (\<lambda>existing.
           and_then (case existing of Some s \<Rightarrow> can_transition (state s) EStart | None \<Rightarrow> Inr Open) (\<lambda>_.
           Inr (run, finding, output_dir, ok)))))"
  show ?thesis
  proof (cases ?checked)
    case (Inl err)
    then show ?thesis by (simp add: do_start_verification_def one_step_error)
  next
    case (Inr x)
    then obtain args r f d ok existing where parsed: "parse_stage2_args a = Inr (args, r, f, d)"
        "read_session fs (session_path_for d r f) = Inr existing"
        "\<And>s. existing = Some s \<Longrightarrow> state s = Aborted" "x = (r, f, d, ok)"
      by (auto simp: and_then_Inr can_transition_Inr split: prod.splits option.splits)
    let ?s = "build_new_session r f ok (format_iso8601_utc (clock e))"
    have "stepped StartAct (fs (components (session_path_for d r f))) (Some (CJson (session_json ?s)))"
    proof (cases existing)
      case None
      with parsed(2) have "fs (components (session_path_for d r f)) = None" by (simp add: read_session_None)
      then show ?thesis by (simp add: stepped_new legal_session.create)
    next
      case (Some s)
      with parsed(2,3) show ?thesis by (intro stepped_from [of _ s] legal_session.restart) (auto intro: read_session_in)
    qed
    note step = one_step_write [where fs = fs, OF stage2_args_place [OF parsed(1)] this]
    show ?thesis
      unfolding do_start_verification_def Inr parsed(4)
      by (cases rule: write_session_outcome [of e "session_path_for d r f" ?s fs]) (simp_all add: Let_def step one_step_error)
  qed
qed

lemma append_one_step: "one_step (do_append_clarification e a fs) fs a (append_act a)"
proof -
  let ?checked = "and_then (parse_append_args a) (\<lambda>args.
           let session_path = session_path_for (ap_output_dir args) (ap_run_id args) (ap_finding_id args)
           in and_then (load_session fs session_path) (\<lambda>prev.
              and_then (build_appended_session e prev args) (\<lambda>next_session.
              Inr (session_path, next_session))))"
  show ?thesis
  proof (cases ?checked)
    case (Inl err)
    then show ?thesis by (simp add: do_append_clarification_def one_step_error)
  next
    case (Inr x)
    then obtain q prev s' where parsed: "parse_append_args a = Inr q"
        "load_session fs (session_path_for (ap_output_dir q) (ap_run_id q) (ap_finding_id q)) = Inr prev"
        "build_appended_session e prev q = Inr s'"
        "x = (session_path_for (ap_output_dir q) (ap_run_id q) (ap_finding_id q), s')"
      by (auto simp: and_then_Inr Let_def)
    obtain args r f d where ids: "parse_stage2_args a = Inr (args, r, f, d)"
        "as_object a = Some args" "ap_output_dir q = d" "ap_run_id q = r" "ap_finding_id q = f"
        "append_act a = Some (turn_act (ap_kind q))"
      using parsed(1)
      by (auto simp: parse_append_args_def parse_stage2_args_def and_then_Inr ok_or_Inr append_act_def str_argI
        split: if_splits)
    have "stepped (turn_act (ap_kind q)) (fs (components (session_path_for d r f))) (Some (CJson (session_json s')))"
      using parsed(2) unfolding ids(3-5) by (intro stepped_from [OF legal_session.append [OF parsed(3)]] load_session_in)
    note step = one_step_write [where fs = fs, OF stage2_args_place [OF ids(1)] this]
    show ?thesis
      unfolding do_append_clarification_def Inr parsed(4) ids(3-6)
      by (cases rule: write_session_outcome [of e "session_path_for d r f" s' fs]) (simp_all add: step one_step_error)
  qed
qed

lemma abort_one_step: "one_step (do_abort_verification e a fs) fs a (Some AbortAct)"
proof -
  let ?stamp = "format_iso8601_utc (clock e)"
  let ?checked = "and_then (parse_stage2_args a) (\<lambda>(args, run, finding, output_dir).
           let session_path = session_path_for output_dir run finding
           in and_then (load_session fs session_path) (\<lambda>prev.
              and_then (build_aborted_session prev (Option.bind (get args ''reason'') as_str) ?stamp) (\<lambda>aborted.
              Inr (session_path, aborted))))"
  show ?thesis
  proof (cases ?checked)
    case (Inl err)
    then show ?thesis by (simp add: do_abort_verification_def one_step_error)
  next
    case (Inr x)
    then obtain args r f d reason prev s' where parsed: "parse_stage2_args a = Inr (args, r, f, d)"
        "load_session fs (session_path_for d r f) = Inr prev" "build_aborted_session prev reason ?stamp = Inr s'"
        "x = (session_path_for d r f, s')"
      by (auto simp: and_then_Inr Let_def split: prod.splits)
    have "stepped AbortAct (fs (components (session_path_for d r f))) (Some (CJson (session_json s')))"
      using load_session_in [OF parsed(2)] by (rule stepped_from [OF legal_session.abort [OF parsed(3)]])
    note step = one_step_write [where fs = fs, OF stage2_args_place [OF parsed(1)] this]
    show ?thesis
      using Inr unfolding do_abort_verification_def parsed(4)
      by (cases rule: write_session_outcome [of e "session_path_for d r f" s' fs]) (simp_all add: step one_step_error)
  qed
qed

interpretation starting: session_tool do_start_verification "\<lambda>_. Some StartAct"
  by unfold_locales (rule one_step_contract [OF start_one_step], assumption)+

interpretation appending: session_tool do_append_clarification append_act
  by unfold_locales (rule one_step_contract [OF append_one_step], assumption)+

interpretation aborting: session_tool do_abort_verification "\<lambda>_. Some AbortAct"
  by unfold_locales (rule one_step_contract [OF abort_one_step], assumption)+

text \<open>\<open>persist_finalize\<close>: its second write is of the session file.\<close>

lemma write_session_result:
  assumes "c = snd (write_session_atomic e path s fs) p" "c \<noteq> fs p"
  shows "p = components path" "c = Some (CJson (session_json s))"
  using assms by (auto simp: write_session_atomic_def write_json_atomic_def split: if_splits)

lemma upsert_verified_frame:
  "p \<noteq> components (index_path_for d r) \<Longrightarrow> snd (upsert_verified_index e d r f v stamp fs) p = fs p"
  using upsert_frame [of p d r e] by (auto simp: upsert_verified_index_def Let_def split: sum.splits prod.splits) (metis snd_conv)+

lemma persist_finalize_session:
  assumes p: "session_file p" and d: "is_absolute d" "plain_component r" "plain_component f"
    and ne: "snd (persist_finalize e d r f s v stamp fs) p \<noteq> fs p"
  shows "p = components (session_path_for d r f)"
    "snd (persist_finalize e d r f s v stamp fs) p =
      Some (CJson (session_json (s\<lparr>state := Finalized, updated_at := stamp\<rparr>)))"
proof -
  let ?vp = "path_join (finding_dir_for d r f) VERIFIED_FILE_NAME"
  let ?s = "s\<lparr>state := Finalized, updated_at := stamp\<rparr>"
  have vp: "p \<noteq> components ?vp"
    by (rule not_session_file [OF p finding_dir_path(1) [OF d]]; simp add: file_names_plain file_names_distinct)
  note ix = upsert_verified_frame [OF index_not_session [OF p d(1,2)]]
  obtain r1 fs1 where w1: "write_json_atomic e ?vp (verified_json v) fs = (r1, fs1)" by fastforce
  have fs1: "fs1 p = fs p" using write_json_frame [OF vp, of e _ fs] w1 by (metis snd_conv)
  obtain r2 fs2 where w2: "write_session_atomic e (session_path_for d r f) ?s fs1 = (r2, fs2)" by fastforce
  have "snd (persist_finalize e d r f s v stamp fs) p \<in> {fs1 p, fs2 p}"
    using ix [of e f v stamp fs2]
    by (auto simp: persist_finalize_def Let_def w1 w2 split: sum.splits prod.splits)
  with ne fs1 have fs2: "snd (persist_finalize e d r f s v stamp fs) p = fs2 p" "fs2 p \<noteq> fs1 p" by auto
  have "fs2 p = snd (write_session_atomic e (session_path_for d r f) ?s fs1) p" by (simp add: w2)
  note w = write_session_result [OF this fs2(2)]
  show "p = components (session_path_for d r f)" by (rule w(1))
  show "snd (persist_finalize e d r f s v stamp fs) p = Some (CJson (session_json ?s))" unfolding fs2(1) by (rule w(2))
qed

lemma finalize_changes:
  assumes p: "session_file p" and ne: "snd (do_finalize_verification e a fs) p \<noteq> fs p"
  obtains args r f d s where "parse_stage2_args a = Inr (args, r, f, d)"
    "load_session fs (session_path_for d r f) = Inr s" "check_finalize_preconditions s = Inr ()"
    "p = components (session_path_for d r f)"
    "snd (do_finalize_verification e a fs) p =
       Some (CJson (session_json (s\<lparr>state := Finalized, updated_at := format_iso8601_utc (clock e)\<rparr>)))"
proof -
  let ?stamp = "format_iso8601_utc (clock e)"
  let ?checked = "and_then (parse_stage2_args a) (\<lambda>(args, run, finding, output_dir).
           and_then (load_session fs (session_path_for output_dir run finding)) (\<lambda>s.
           and_then (check_finalize_preconditions s) (\<lambda>_.
           Inr (run, finding, output_dir, s))))"
  from ne obtain x where x: "?checked = Inr x"
    by (cases ?checked) (auto simp: do_finalize_verification_def)
  then obtain args r f d s where parsed: "parse_stage2_args a = Inr (args, r, f, d)"
      "load_session fs (session_path_for d r f) = Inr s"
      "check_finalize_preconditions s = Inr ()" "x = (r, f, d, s)"
    by (auto simp: and_then_Inr split: prod.splits)
  have d: "is_absolute d" "plain_component r" "plain_component f"
    using parsed(1) by (auto simp: parse_stage2_args_def and_then_Inr dest!: parse_ids_Inr)
  have result: "snd (do_finalize_verification e a fs) p =
      snd (persist_finalize e d r f s (build_verified_artifact e s f ?stamp) ?stamp fs) p"
    unfolding do_finalize_verification_def x parsed(4) by (auto simp: Let_def split: sum.splits prod.splits)
  note w = persist_finalize_session [OF p d ne [unfolded result], folded result]
  show thesis by (rule that [OF parsed(1-3) w])
qed

lemma write_json_Inr:
  "write_json_atomic e target v fs = (Inr n, fs') \<Longrightarrow> fs' = fs(components target \<mapsto> CJson v)"
  by (simp add: write_json_atomic_def split: if_splits)

lemma write_session_Inr:
  "write_session_atomic e path s fs = (Inr u, fs') \<Longrightarrow> fs' = fs(components path \<mapsto> CJson (session_json s))"
  by (auto simp: write_session_atomic_def split: prod.splits sum.splits dest: write_json_Inr)

lemma upsert_Inr:
  assumes "upsert_index_entry e d r f entry mode fs = (Inr u, fs')"
  obtains ix prior where "read_index fs (index_path_for d r) = Inr prior"
    "fs' = fs(components (index_path_for d r) \<mapsto> CJson (index_json ix))"
    "map_of (ix_findings ix) =
      (case prior of None \<Rightarrow> Map.empty | Some old \<Rightarrow> map_of (ix_findings old))
        (f \<mapsto> merge_index_entry (Option.bind prior (\<lambda>old. map_of (ix_findings old) f)) entry mode)"
  using assms
  by (auto simp: upsert_index_entry_def Let_def map_of_btree_insert split: sum.splits prod.splits option.splits
      dest!: write_json_Inr)

lemma persist_finalize_Inr:
  assumes "persist_finalize e d r f s v stamp fs = (Inr (vp, n), fs')"
  obtains ix x prior where "vp = path_join (finding_dir_for d r f) VERIFIED_FILE_NAME"
    "fs' = fs(components vp \<mapsto> CJson (verified_json v),
              components (session_path_for d r f) \<mapsto> CJson (session_json (s\<lparr>state := Finalized, updated_at := stamp\<rparr>)),
              components (index_path_for d r) \<mapsto> CJson (index_json ix))"
    "map_of (ix_findings ix) f = Some x" "verified x = Some (v_verified v)" "verified_at x = Some stamp"
    "stage2_path x = Some (slash_join [FINDINGS_DIR_NAME, f, VERIFIED_FILE_NAME])"
    "read_index (fs(components vp \<mapsto> CJson (verified_json v),
       components (session_path_for d r f) \<mapsto> CJson (session_json (s\<lparr>state := Finalized, updated_at := stamp\<rparr>))))
       (index_path_for d r) = Inr prior"
    "\<forall>g. g = f \<or> map_of (ix_findings ix) g = Option.bind prior (\<lambda>old. map_of (ix_findings old) g)"
proof -
  obtain fs1 fs2 u where w: "vp = path_join (finding_dir_for d r f) VERIFIED_FILE_NAME"
      "write_json_atomic e vp (verified_json v) fs = (Inr n, fs1)"
      "write_session_atomic e (session_path_for d r f) (s\<lparr>state := Finalized, updated_at := stamp\<rparr>) fs1 = (Inr u, fs2)"
      "upsert_verified_index e d r f v stamp fs2 = (Inr (), fs')"
    using assms by (auto simp: persist_finalize_def Let_def split: prod.splits sum.splits)
  let ?entry = "entry_default\<lparr>artifact_path := [], extractor_version := EXTRACTOR_VERSION,
      verified_at := Some stamp, verified := Some (v_verified v),
      stage2_path := Some (slash_join [FINDINGS_DIR_NAME, f, VERIFIED_FILE_NAME])\<rparr>"
  have entry: "upsert_index_entry e d r f ?entry PreserveRefinedOnly fs2 = (Inr (), fs')"
    using w(4) by (auto simp: upsert_verified_index_def Let_def split: prod.splits sum.splits)
  from upsert_Inr [OF entry] obtain ix prior where ix:
    "read_index fs2 (index_path_for d r) = Inr prior"
    "fs' = fs2(components (index_path_for d r) \<mapsto> CJson (index_json ix))"
    "map_of (ix_findings ix) =
      (case prior of None \<Rightarrow> Map.empty | Some old \<Rightarrow> map_of (ix_findings old))
        (f \<mapsto> merge_index_entry (Option.bind prior (\<lambda>old. map_of (ix_findings old) f)) ?entry PreserveRefinedOnly)" .
  show ?thesis
  proof (rule that [OF w(1)])
    show "fs' = fs(components vp \<mapsto> CJson (verified_json v),
              components (session_path_for d r f) \<mapsto> CJson (session_json (s\<lparr>state := Finalized, updated_at := stamp\<rparr>)),
              components (index_path_for d r) \<mapsto> CJson (index_json ix))"
      using write_json_Inr [OF w(2)] write_session_Inr [OF w(3)] ix(2) by simp
    let ?x = "merge_index_entry (Option.bind prior (\<lambda>old. map_of (ix_findings old) f)) ?entry PreserveRefinedOnly"
    show "map_of (ix_findings ix) f = Some ?x" using ix(3) by simp
    show "verified ?x = Some (v_verified v)" "verified_at ?x = Some stamp"
      "stage2_path ?x = Some (slash_join [FINDINGS_DIR_NAME, f, VERIFIED_FILE_NAME])"
      by (simp_all add: merge_index_entry_def merge_preserve_refined_only_def split: option.splits)
    show "read_index (fs(components vp \<mapsto> CJson (verified_json v),
       components (session_path_for d r f) \<mapsto> CJson (session_json (s\<lparr>state := Finalized, updated_at := stamp\<rparr>))))
       (index_path_for d r) = Inr prior"
      using write_json_Inr [OF w(2)] write_session_Inr [OF w(3)] ix(1) by simp
    show "\<forall>g. g = f \<or> map_of (ix_findings ix) g = Option.bind prior (\<lambda>old. map_of (ix_findings old) g)"
      using ix(3) by (simp split: option.splits)
  qed
qed

lemma finalize_Inr:
  assumes "do_finalize_verification e a fs = (Inr resp, fs')"
  obtains args r f d s vp n where "parse_stage2_args a = Inr (args, r, f, d)"
    "load_session fs (session_path_for d r f) = Inr s" "check_finalize_preconditions s = Inr ()"
    "persist_finalize e d r f s (build_verified_artifact e s f (format_iso8601_utc (clock e)))
       (format_iso8601_utc (clock e)) fs = (Inr (vp, n), fs')"
    "Option.bind (as_object resp) (\<lambda>m. get m ''verified'') =
       Some (JBool (v_verified (build_verified_artifact e s f (format_iso8601_utc (clock e)))))"
  using assms
  by (auto simp: do_finalize_verification_def Let_def and_then_Inr split: prod.splits sum.splits)

lemma finding_paths_distinct:
  assumes "is_absolute d" "plain_component r" "plain_component f"
  defines "vp \<equiv> components (path_join (finding_dir_for d r f) VERIFIED_FILE_NAME)"
    and "sp \<equiv> components (session_path_for d r f)" and "ip \<equiv> components (index_path_for d r)"
  shows "vp \<noteq> sp" "sp \<noteq> ip" "vp \<noteq> ip" "session_file sp"
  using assms file_in_dir finding_dir_path [OF assms(1-3)] run_dir_path [OF assms(1,2)] file_names_plain
    file_names_distinct
  by (auto simp: vp_def sp_def ip_def session_path_for_def index_path_for_def session_file_def)

interpretation finalizing: session_tool do_finalize_verification "\<lambda>_. Some FinalizeAct"
proof
  fix p e a fs assume p: "session_file p" and ne: "snd (do_finalize_verification e a fs) p \<noteq> fs p"
  from finalize_changes [OF this] obtain args r f d s where w: "parse_stage2_args a = Inr (args, r, f, d)"
    "load_session fs (session_path_for d r f) = Inr s" "check_finalize_preconditions s = Inr ()"
    "p = components (session_path_for d r f)"
    "snd (do_finalize_verification e a fs) p =
       Some (CJson (session_json (s\<lparr>state := Finalized, updated_at := format_iso8601_utc (clock e)\<rparr>)))" .
  have "stepped FinalizeAct (fs p) (snd (do_finalize_verification e a fs) p)"
    unfolding w(5) using load_session_in [OF w(2)]
    by (intro stepped_from [OF legal_session.finalize [OF w(3)]]) (simp only: w(4))
  then show "session_place a = Some p \<and>
      (\<exists>k. Some FinalizeAct = Some k \<and> stepped k (fs p) (snd (do_finalize_verification e a fs) p))"
    using request_place_path(4) [OF stage2_args_place [OF w(1)]] w(4) by simp
next
  fix e a fs resp assume ok: "fst (do_finalize_verification e a fs) = Inr resp"
  then obtain fs' where res: "do_finalize_verification e a fs = (Inr resp, fs')"
    by (cases "do_finalize_verification e a fs") simp
  from finalize_Inr [OF res] obtain args r f d s vp n where w: "parse_stage2_args a = Inr (args, r, f, d)"
    "load_session fs (session_path_for d r f) = Inr s" "check_finalize_preconditions s = Inr ()"
    "persist_finalize e d r f s (build_verified_artifact e s f (format_iso8601_utc (clock e)))
       (format_iso8601_utc (clock e)) fs = (Inr (vp, n), fs')" .
  let ?p = "components (session_path_for d r f)"
  have d: "is_absolute d" "plain_component r" "plain_component f"
    using stage2_args_place [OF w(1)] by (simp_all add: request_place_def)
  have "fs' ?p = Some (CJson (session_json (s\<lparr>state := Finalized, updated_at := format_iso8601_utc (clock e)\<rparr>)))"
    by (rule persist_finalize_Inr [OF w(4)]) (use finding_paths_distinct [OF d] in simp)
  then have "stepped FinalizeAct (fs ?p) (fs' ?p)"
    using stepped_from [OF legal_session.finalize [OF w(3)] load_session_in [OF w(2)]] by simp
  then show "\<exists>p k. session_place a = Some p \<and> Some FinalizeAct = Some k \<and> stepped k (fs p) (snd (do_finalize_verification e a fs) p)"
    using request_place_path(4) [OF stage2_args_place [OF w(1)]] res by auto
qed

subsection \<open>Sequences of requests\<close>

datatype request =
    Extract json
  | Refine json
  | Start json
  | Append json
  | Finalize json
  | Abort json

text \<open>The files after a request, whatever it answered.\<close>

fun handle :: "env \<Rightarrow> request \<Rightarrow> files \<Rightarrow> files" where
  "handle e (Extract a) fs = snd (run_extract_finding e a fs)"
| "handle e (Refine a) fs = snd (run_refine_finding e a fs)"
| "handle e (Start a) fs = snd (run_start_verification e a fs)"
| "handle e (Append a) fs = snd (run_append_clarification e a fs)"
| "handle e (Finalize a) fs = snd (run_finalize_verification e a fs)"
| "handle e (Abort a) fs = snd (run_abort_verification e a fs)"

inductive serves :: "files \<Rightarrow> files \<Rightarrow> bool" for fs where
  none: "serves fs fs"
| request: "serves fs fs' \<Longrightarrow> serves fs (handle e r fs')"

lemma snd_respond [simp]: "snd (respond r) = snd r"
  by (cases r) (simp add: respond_def split: sum.splits)

lemma snd_run_extract [simp]: "snd (run_extract_finding e a fs) = snd (do_extract_finding e a fs)"
  by (simp add: run_extract_finding_def split: prod.splits sum.splits)

lemma snd_run_refine [simp]: "snd (run_refine_finding e a fs) = snd (do_refine_finding e a fs)"
  by (simp add: run_refine_finding_def split: prod.splits sum.splits)

lemmas stage2_run_defs = run_start_verification_def run_append_clarification_def
  run_finalize_verification_def run_abort_verification_def

lemma handle_keeps_wf: "wf_files fs \<Longrightarrow> wf_files (handle e r fs)"
  by (cases r) (simp_all add: stage2_run_defs extracting.keeps_wf refining.keeps_wf starting.keeps_wf
    appending.keeps_wf finalizing.keeps_wf aborting.keeps_wf)

lemma handle_keeps_finalized:
  assumes "session_file p" "session_in (fs p) = Some s" "state s = SessionState.Finalized"
  shows "handle e r fs p = fs p"
  by (cases r) (simp_all add: stage2_run_defs extracting.keeps_finalized [where p = p and fs = fs and s = s, OF assms] refining.keeps_finalized [where p = p and fs = fs and s = s, OF assms]
    starting.keeps_finalized [where p = p and fs = fs and s = s, OF assms] appending.keeps_finalized [where p = p and fs = fs and s = s, OF assms] finalizing.keeps_finalized [where p = p and fs = fs and s = s, OF assms]
    aborting.keeps_finalized [where p = p and fs = fs and s = s, OF assms])

text \<open>C3: the invariant of the sessions: from files whose sessions are well-formed, whatever requests the
  six tools serve and whichever writes fail, every session file holds a well-formed session: turns
  numbered from 0 that alternate between question and answer, a turn count that is their number, and a
  state that agrees with them (a finalized session has an answered question and a valid extraction).\<close>

theorem sessions_stay_wf:
  assumes "serves fs fs'" "wf_files fs" "session_file p" "session_in (fs' p) = Some s"
  shows "wf_session s"
proof -
  have "wf_files fs'" using assms(1,2) by induction (auto intro: handle_keeps_wf)
  with assms(3,4) show ?thesis by (simp add: wf_files_def)
qed

text \<open>A concrete run for the witnesses: a session just started, on a machine where every write succeeds.\<close>

definition demo_env :: env where
  "demo_env = \<lparr>clock = 0, index_clock = 0, nanos = 0, pid = 0, write_fails = (\<lambda>_. False), mkdir_fails = (\<lambda>_. False),
     pretty_text = (\<lambda>_. []), line_text = (\<lambda>_. []), f64_text = (\<lambda>_. []), sha256 = (\<lambda>s. s)\<rparr>"

definition demo_args :: json where
  "demo_args = JObj [(''run_id'', JStr ''r1''), (''finding_id'', JStr ''f1''), (''output_dir'', JStr ''/out''),
     (''kind'', JStr ''agent_question''), (''content'', JStr ''why'')]"

definition demo_path :: fpath where
  "demo_path = [''out'', ''runs'', ''r1'', ''findings'', ''f1'', ''stage-2.session.json'']"

definition demo_turns :: "SessionTurn list" where
  "demo_turns = [\<lparr>seq = 0, kind = AgentQuestion, timestamp = ''t'', turn_text = ''why'', meta = None\<rparr>,
     \<lparr>seq = 1, kind = UserAnswer, timestamp = ''t'', turn_text = ''so'', meta = None\<rparr>]"

definition demo_session :: "SessionState \<Rightarrow> SessionFile" where
  "demo_session st = (build_new_session ''r1'' ''f1'' True ''t'')
     \<lparr>state := st, turn_count := 2, transcript := demo_turns\<rparr>"

definition demo_files :: "SessionFile \<Rightarrow> files" where
  "demo_files s = [demo_path \<mapsto> CJson (session_json s)]"

lemma demo_wf: "wf_session (demo_session WaitingForAgent)"
  by (simp add: wf_session_def demo_session_def build_new_session_def demo_turns_def
    alternates_append [of "[t]" for t, simplified])

lemma session_in_demo: "session_in (demo_files s p) =
    (if p = demo_path \<and> session_in_range s then Some (stored_session s) else None)"
  by (simp add: demo_files_def session_in_def session_of_session_json)

lemma demo_in_range: "session_in_range (demo_session st)"
  by (simp add: session_in_range_def demo_session_def demo_turns_def)

lemma demo_path_session: "session_file demo_path"
  by (simp add: session_file_def demo_path_def SESSION_FILE_NAME_def)

text \<open>C20: a finalized session is final: no later request changes its file.\<close>

theorem finalized_forever:
  assumes "serves fs fs'" "session_file p" "session_in (fs p) = Some s" "state s = SessionState.Finalized"
  shows "fs' p = fs p"
  using assms(1)
proof induction
  case (request fs' e r)
  then show ?case using handle_keeps_finalized [of p fs' s e r] assms(2-4) by simp
qed simp

lemma demo_serves: "serves fs (handle e r fs)"
  using serves.request [OF serves.none] .

theorem sessions_stay_wf_witness:
  "\<exists>s. session_in (handle demo_env (Append demo_args) (demo_files (demo_session WaitingForAgent)) demo_path) = Some s \<and>
     wf_session s"
proof -
  let ?fs = "demo_files (demo_session WaitingForAgent)"
  have "map_option turn_count (session_in (handle demo_env (Append demo_args) ?fs demo_path)) = Some 3"
    by code_simp
  then obtain s where s: "session_in (handle demo_env (Append demo_args) ?fs demo_path) = Some s" by auto
  have "wf_files ?fs"
    using demo_wf by (auto simp: wf_files_def session_in_demo wf_stored split: if_splits)
  from sessions_stay_wf [OF demo_serves this demo_path_session s] s show ?thesis by blast
qed

theorem finalized_forever_witness:
  "handle demo_env (Append demo_args) (demo_files (demo_session SessionState.Finalized)) demo_path =
   demo_files (demo_session SessionState.Finalized) demo_path"
proof -
  let ?s = "demo_session SessionState.Finalized"
  have "session_in (demo_files ?s demo_path) = Some (stored_session ?s)"
    by (simp add: session_in_demo demo_in_range)
  moreover have "state (stored_session ?s) = SessionState.Finalized"
    by (simp add: demo_session_def)
  ultimately show ?thesis by (rule finalized_forever [OF demo_serves demo_path_session])
qed

subsection \<open>The receipt of a finalized session\<close>

lemma wf_completeness:
  assumes "alternates ts" "even (length ts)" "ts \<noteq> []"
  shows "fst (compute_completeness ts)" "list_all snd (snd (compute_completeness ts))"
proof -
  have "2 \<le> length ts" using assms(2,3) by (cases ts; cases "tl ts") auto
  then obtain t u us where ts: "ts = t # u # us" by (cases ts; cases "tl ts") auto
  have "kind (ts ! 0) = AgentQuestion" "kind (ts ! 1) = UserAnswer"
    using assms(1) ts by (auto simp: alternates_def)
  then show "fst (compute_completeness ts)" "list_all snd (snd (compute_completeness ts))"
    by (simp_all add: compute_completeness_def ts)
qed

lemma session_in_in_range: "session_in c = Some s \<Longrightarrow> session_in_range s"
proof -
  assume c: "session_in c = Some s"
  have "seq t < 2 ^ 64" if "turn_of_json j = Some t" for t j
    using that by (auto simp: turn_of_json_def field_def bind_eq_Some_conv split: json.splits if_splits option.splits
      elim!: as_u64.elims)
  then have "list_all (\<lambda>t. seq t < 2 ^ 64) ts" if "those (map turn_of_json xs) = Some ts" for xs ts
    using that by (induction xs arbitrary: ts) (auto split: option.splits)
  with c show ?thesis
    by (auto simp: session_in_def session_of_json_def session_in_range_def field_def bind_eq_Some_conv
      split: json.splits if_splits option.splits content.splits elim!: as_u64.elims de_list.elims)
qed

text \<open>C21: a successful \<open>finalize_verification\<close> verifies. When the session files were well-formed, it answers
  \<open>verified = true\<close>, and in the directory of the run and the finding that the request names it leaves the
  receipt (verified, every item of the checklist true, the turn count and the digest of the transcript it
  read, the relative paths of the finding), the session with the same transcript in state \<open>finalized\<close>, and in
  the index of that run the finding marked as verified now with the path of the receipt, the entries of all
  other findings as they were.\<close>

theorem finalize_receipt:
  assumes "do_finalize_verification e a fs = (Inr resp, fs')" "wf_files fs"
  shows "\<exists>d r f s v ix x prior.
    str_arg a ''output_dir'' = Some d \<and> str_arg a ''run_id'' = Some r \<and> str_arg a ''finding_id'' = Some f \<and>
    session_in (fs (components d @ [''runs'', r, ''findings'', f, ''stage-2.session.json''])) = Some s \<and>
    state s = WaitingForAgent \<and>
    session_in (fs' (components d @ [''runs'', r, ''findings'', f, ''stage-2.session.json''])) =
      Some (stored_session (s\<lparr>state := Finalized, updated_at := format_iso8601_utc (clock e)\<rparr>)) \<and>
    fs' (components d @ [''runs'', r, ''findings'', f, ''stage-2.verified.json'']) = Some (CJson (verified_json v)) \<and>
    v_run_id v = run_id s \<and> v_finding_id v = finding_id s \<and> v_verified v \<and> list_all snd (v_checklist v) \<and>
    v_finalized_at v = format_iso8601_utc (clock e) \<and> v_turn_count v = length (transcript s) \<and>
    v_transcript_digest v = hex_lower (sha256 e (line_text e (JArr (map turn_json (transcript s))))) \<and>
    v_stage1_refined_path v = ''findings/'' @ f @ ''/stage-1.refined.json'' \<and>
    v_session_path v = ''findings/'' @ f @ ''/stage-2.session.json'' \<and>
    read_index fs (index_path_for d r) = Inr prior \<and>
    fs' (components d @ [''runs'', r, ''index.json'']) = Some (CJson (index_json ix)) \<and>
    map_of (ix_findings ix) f = Some x \<and> verified x = Some True \<and> verified_at x = Some (format_iso8601_utc (clock e)) \<and>
    stage2_path x = Some (''findings/'' @ f @ ''/stage-2.verified.json'') \<and>
    (\<forall>g. g = f \<or> map_of (ix_findings ix) g = Option.bind prior (\<lambda>old. map_of (ix_findings old) g)) \<and>
    Option.bind (as_object resp) (\<lambda>m. get m ''verified'') = Some (JBool True)"
proof -
  let ?stamp = "format_iso8601_utc (clock e)"
  from finalize_Inr [OF assms(1)] obtain args r f d s vp n where f: "parse_stage2_args a = Inr (args, r, f, d)"
    "load_session fs (session_path_for d r f) = Inr s" "check_finalize_preconditions s = Inr ()"
    "persist_finalize e d r f s (build_verified_artifact e s f ?stamp) ?stamp fs = (Inr (vp, n), fs')"
    "Option.bind (as_object resp) (\<lambda>m. get m ''verified'') = Some (JBool (v_verified (build_verified_artifact e s f ?stamp)))" .
  let ?v = "build_verified_artifact e s f ?stamp"
  let ?done = "s\<lparr>state := Finalized, updated_at := ?stamp\<rparr>"
  from persist_finalize_Inr [OF f(4)] obtain ix x prior where p:
    "vp = path_join (finding_dir_for d r f) VERIFIED_FILE_NAME"
    "fs' = fs(components vp \<mapsto> CJson (verified_json ?v), components (session_path_for d r f) \<mapsto> CJson (session_json ?done),
              components (index_path_for d r) \<mapsto> CJson (index_json ix))"
    "map_of (ix_findings ix) f = Some x" "verified x = Some (v_verified ?v)" "verified_at x = Some ?stamp"
    "stage2_path x = Some (slash_join [FINDINGS_DIR_NAME, f, VERIFIED_FILE_NAME])"
    "read_index (fs(components vp \<mapsto> CJson (verified_json ?v),
       components (session_path_for d r f) \<mapsto> CJson (session_json ?done))) (index_path_for d r) = Inr prior"
    "\<forall>g. g = f \<or> map_of (ix_findings ix) g = Option.bind prior (\<lambda>old. map_of (ix_findings old) g)" .
  have place: "request_place a d r f" by (rule stage2_args_place [OF f(1)])
  then have d: "is_absolute d" "plain_component r" "plain_component f" by (simp_all add: request_place_def)
  note paths = request_place_path [OF place]
  have vp: "components vp = components d @ [''runs'', r, ''findings'', f, ''stage-2.verified.json'']"
    using file_in_dir [OF paths(2) file_names_plain(8)] paths(1) by (simp add: p(1) VERIFIED_FILE_NAME_def)
  note dist = finding_paths_distinct [OF d, folded p(1)]
  have "wf_session s" using assms(2) dist(4) load_session_in [OF f(2)] by (auto simp: wf_files_def)
  moreover have st: "state s = WaitingForAgent" "schema_ok s"
    using f(3) by (auto simp: check_finalize_preconditions_def and_then_Inr can_transition_Inr split: if_splits)
  ultimately have ts: "alternates (transcript s)" "even (length (transcript s))" "transcript s \<noteq> []"
    "turn_count s = length (transcript s)"
    by (auto simp: wf_session_def)
  have v: "v_verified ?v" "list_all snd (v_checklist ?v)" "v_turn_count ?v = length (transcript s)"
    "v_transcript_digest ?v = hex_lower (sha256 e (line_text e (JArr (map turn_json (transcript s)))))"
    "v_run_id ?v = run_id s" "v_finding_id ?v = finding_id s" "v_finalized_at ?v = ?stamp"
    "v_stage1_refined_path ?v = ''findings/'' @ f @ ''/stage-1.refined.json''"
    "v_session_path ?v = ''findings/'' @ f @ ''/stage-2.session.json''"
    using wf_completeness [OF ts(1-3)] st ts(4)
    by (simp_all add: build_verified_artifact_def compute_transcript_digest_def Let_def case_prod_beta slash_join_def
      FINDINGS_DIR_NAME_def REFINED_FILE_NAME_def SESSION_FILE_NAME_def)
  have "session_in_range s" using load_session_in [OF f(2)] by (rule session_in_in_range)
  then have "session_of_json (session_json ?done) = Some (stored_session ?done)"
    by (simp add: session_of_session_json session_in_range_def)
  then have session: "session_in (fs' (components (session_path_for d r f))) = Some (stored_session ?done)"
    using dist by (simp add: p(2) session_in_def)
  have receipt: "fs' (components vp) = Some (CJson (verified_json ?v))" using dist by (simp add: p(2))
  have index: "fs' (components (index_path_for d r)) = Some (CJson (index_json ix))"
    "read_index fs (index_path_for d r) = Inr prior"
    using p(7) dist by (simp_all add: p(2) read_index_def)
  have names: "stage2_path x = Some (''findings/'' @ f @ ''/stage-2.verified.json'')"
    by (simp add: p(6) slash_join_def FINDINGS_DIR_NAME_def VERIFIED_FILE_NAME_def)
  have args: "str_arg a ''output_dir'' = Some d" "str_arg a ''run_id'' = Some r" "str_arg a ''finding_id'' = Some f"
    using place by (simp_all add: request_place_def)
  have sessions: "session_in (fs (components d @ [''runs'', r, ''findings'', f, ''stage-2.session.json''])) = Some s"
    using load_session_in [OF f(2)] by (simp only: paths(3))
  have ok: "verified x = Some True" "Option.bind (as_object resp) (\<lambda>m. get m ''verified'') = Some (JBool True)"
    using p(4) f(5) v(1) by (simp_all only: simp_thms)
  show ?thesis
    by (intro exI [of _ d] exI [of _ r] exI [of _ f] exI [of _ s] exI [of _ ?v] exI [of _ ix] exI [of _ x] exI [of _ prior] conjI)
      (fact args sessions st v session [unfolded paths(3)] receipt [unfolded vp] index [unfolded paths(5)] p(3,5,8) names ok index)+
qed

theorem finalize_receipt_witness:
  "\<exists>resp fs'. do_finalize_verification demo_env demo_args (demo_files (demo_session WaitingForAgent)) = (Inr resp, fs') \<and>
     Option.bind (as_object resp) (\<lambda>m. get m ''verified'') = Some (JBool True)"
proof -
  let ?fs = "demo_files (demo_session WaitingForAgent)"
  have "case do_finalize_verification demo_env demo_args ?fs of (Inr v, fs') \<Rightarrow> True | (Inl err, fs') \<Rightarrow> False"
    by code_simp
  then obtain resp fs' where r: "do_finalize_verification demo_env demo_args ?fs = (Inr resp, fs')"
    by (auto split: prod.splits sum.splits)
  have "wf_files ?fs"
    using demo_wf by (auto simp: wf_files_def session_in_demo wf_stored split: if_splits)
  from finalize_receipt [OF r this] r show ?thesis by auto
qed

subsection \<open>A finalize that fails after its second write\<close>

text \<open>When \<open>finalize_verification\<close> answers an error after it has changed the session file (the write of
  the index failed, or the index was corrupt), the call cannot be repeated: every later call answers
  \<open>already_finalized\<close> and changes nothing, so the index never gets its entry.\<close>

theorem finalize_stranded:
  assumes "do_finalize_verification e a fs = (Inl err, fs')" "session_file p" "fs' p \<noteq> fs p"
  shows "\<exists>msg. do_finalize_verification e' a fs' = (Inl (''already_finalized'', msg), fs')"
proof -
  have ne: "snd (do_finalize_verification e a fs) p \<noteq> fs p" using assms(1,3) by simp
  from finalize_changes [OF assms(2) this] obtain args r f d s where w: "parse_stage2_args a = Inr (args, r, f, d)"
    "load_session fs (session_path_for d r f) = Inr s" "check_finalize_preconditions s = Inr ()"
    "p = components (session_path_for d r f)"
    "snd (do_finalize_verification e a fs) p =
       Some (CJson (session_json (s\<lparr>state := Finalized, updated_at := format_iso8601_utc (clock e)\<rparr>)))" .
  let ?s = "s\<lparr>state := Finalized, updated_at := format_iso8601_utc (clock e)\<rparr>"
  have "session_in_range ?s"
    using session_in_in_range [OF load_session_in [OF w(2)]] by (simp add: session_in_range_def)
  moreover have "fs' (components (session_path_for d r f)) = Some (CJson (session_json ?s))"
    using w(4,5) assms(1) by simp
  ultimately have "load_session fs' (session_path_for d r f) = Inr (stored_session ?s)"
    by (simp add: load_session_def read_session_def session_of_session_json)
  moreover have "schema_ok s" using w(3) by (simp add: check_finalize_preconditions_def split: if_splits)
  then have "check_finalize_preconditions (stored_session ?s) =
      Inl (stage2_err ''already_finalized'' ''session is finalized; further writes are rejected'')"
    by (simp add: check_finalize_preconditions_def can_transition_def)
  ultimately show ?thesis by (simp add: do_finalize_verification_def w(1) stage2_err_def)
qed

theorem finalize_stranded_witness:
  "\<exists>fs' msg. fst (do_finalize_verification (demo_env\<lparr>write_fails := (\<lambda>p. last p = ''index.json'')\<rparr>) demo_args
        (demo_files (demo_session WaitingForAgent))) = Inl (io_err ''atomic_write: {}'') \<and>
     do_finalize_verification demo_env demo_args fs' = (Inl (''already_finalized'', msg), fs')"
proof -
  let ?fs = "demo_files (demo_session WaitingForAgent)"
  let ?e = "demo_env\<lparr>write_fails := (\<lambda>p. last p = ''index.json'')\<rparr>"
  have "case do_finalize_verification ?e demo_args ?fs of
      (Inl err, fs') \<Rightarrow> err = io_err ''atomic_write: {}'' \<and>
        map_option state (session_in (fs' demo_path)) = Some SessionState.Finalized
    | (Inr v, fs') \<Rightarrow> False" by code_simp
  then obtain fs' where r: "do_finalize_verification ?e demo_args ?fs = (Inl (io_err ''atomic_write: {}''), fs')"
      "map_option state (session_in (fs' demo_path)) = Some SessionState.Finalized"
    by (auto split: prod.splits sum.splits)
  have "map_option state (session_in (?fs demo_path)) = Some WaitingForAgent"
    by (simp add: session_in_demo demo_in_range) (simp add: demo_session_def)
  with r(2) have "fs' demo_path \<noteq> ?fs demo_path" by auto
  from finalize_stranded [where fs = ?fs and fs' = fs', OF r(1) demo_path_session this, of demo_env] r(1)
  show ?thesis by (auto simp: demo_args_def)
qed

subsection \<open>Where the tools write\<close>

text \<open>The run and the finding of a request. \<open>extract_finding\<close> makes a run id when it is given none, and takes the
  id from the finding itself.\<close>

fun request_run :: "env \<Rightarrow> request \<Rightarrow> string option" where
  "request_run e (Extract a) =
     (case Option.bind (as_object a) (\<lambda>m. get m ''run_id'') of
        None \<Rightarrow> Some (generate_run_id (of_nat (clock e)) (nanos e) (pid e))
      | Some JNull \<Rightarrow> Some (generate_run_id (of_nat (clock e)) (nanos e) (pid e))
      | Some v \<Rightarrow> as_str v)"
| "request_run e (Refine a) = str_arg a ''run_id''"
| "request_run e (Start a) = str_arg a ''run_id''"
| "request_run e (Append a) = str_arg a ''run_id''"
| "request_run e (Finalize a) = str_arg a ''run_id''"
| "request_run e (Abort a) = str_arg a ''run_id''"

fun request_finding :: "env \<Rightarrow> files \<Rightarrow> request \<Rightarrow> string option" where
  "request_finding e fs (Extract a) =
     Option.bind (Option.bind (as_object a) (\<lambda>m. get m ''finding''))
       (\<lambda>v. case resolve_finding e fs v of Inr (f, form, path, source) \<Rightarrow> Some (fid f) | Inl err \<Rightarrow> None)"
| "request_finding e fs (Refine a) = str_arg a ''finding_id''"
| "request_finding e fs (Start a) = str_arg a ''finding_id''"
| "request_finding e fs (Append a) = str_arg a ''finding_id''"
| "request_finding e fs (Finalize a) = str_arg a ''finding_id''"
| "request_finding e fs (Abort a) = str_arg a ''finding_id''"

fun request_args :: "request \<Rightarrow> json" where
  "request_args (Extract a) = a"
| "request_args (Refine a) = a"
| "request_args (Start a) = a"
| "request_args (Append a) = a"
| "request_args (Finalize a) = a"
| "request_args (Abort a) = a"

text \<open>The files of a finding in its run: the index of the run and the artifacts of the finding.\<close>

definition artifact_names :: "string list" where
  "artifact_names = [''stage-1.source.json'', ''stage-1.extracted.json'', ''stage-1.refined.json'',
     ''stage-2.session.json'', ''stage-2.verified.json'']"

definition in_run :: "string \<Rightarrow> string \<Rightarrow> string \<Rightarrow> fpath \<Rightarrow> bool" where
  "in_run d r f p \<longleftrightarrow> ''..'' \<notin> set p \<and> (p = components d @ [''runs'', r, ''index.json''] \<or>
     (\<exists>file \<in> set artifact_names. p = components d @ [''runs'', r, ''findings'', f, file]))"

definition confined :: "env \<Rightarrow> files \<Rightarrow> request \<Rightarrow> fpath \<Rightarrow> bool" where
  "confined e fs q p \<longleftrightarrow> (\<exists>d r f. str_arg (request_args q) ''output_dir'' = Some d \<and> is_absolute d \<and>
     request_run e q = Some r \<and> request_finding e fs q = Some f \<and> in_run d r f p)"

definition safe_place :: "string \<Rightarrow> string \<Rightarrow> string \<Rightarrow> bool" where
  "safe_place d r f \<longleftrightarrow> require_absolute d = Inr d \<and> validate_safe_id r = Inr () \<and> validate_safe_id f = Inr ()"

lemma safe_place_parts:
  assumes "safe_place d r f"
  shows "is_absolute d" "''..'' \<notin> set (components d)" "plain_component r" "r \<noteq> ''..''" "plain_component f" "f \<noteq> ''..''"
  using assms by (auto simp: safe_place_def require_absolute_Inr dest: safe_id_plain)

lemma artifact_plain: "name \<in> set artifact_names \<Longrightarrow> plain_component name \<and> name \<noteq> ''..''"
  using file_names_plain
  by (auto simp: artifact_names_def EXTRACTED_FILE_NAME_def SOURCE_FILE_NAME_def REFINED_FILE_NAME_def VERIFIED_FILE_NAME_def
    SESSION_FILE_NAME_def)

lemma in_run_file:
  assumes "safe_place d r f" "name \<in> set artifact_names"
  shows "in_run d r f (components (path_join (finding_dir_for d r f) name))"
  using safe_place_parts [OF assms(1)] finding_dir_path [of d r f] file_in_dir [of "finding_dir_for d r f" name]
    artifact_plain [OF assms(2)] assms(2)
  by (auto simp: in_run_def RUNS_DIR_NAME_def FINDINGS_DIR_NAME_def)

lemma names_are_artifacts:
  "SOURCE_FILE_NAME \<in> set artifact_names" "EXTRACTED_FILE_NAME \<in> set artifact_names"
  "REFINED_FILE_NAME \<in> set artifact_names" "SESSION_FILE_NAME \<in> set artifact_names"
  "VERIFIED_FILE_NAME \<in> set artifact_names"
  by (simp_all add: artifact_names_def EXTRACTED_FILE_NAME_def SOURCE_FILE_NAME_def REFINED_FILE_NAME_def
    VERIFIED_FILE_NAME_def SESSION_FILE_NAME_def)

lemma in_run_index:
  assumes "safe_place d r f" shows "in_run d r f (components (index_path_for d r))"
  using safe_place_parts [OF assms] run_dir_path [of d r] file_in_dir [of "path_join (path_join d RUNS_DIR_NAME) r" INDEX_FILE_NAME]
    file_names_plain
  by (auto simp: in_run_def index_path_for_def RUNS_DIR_NAME_def INDEX_FILE_NAME_def)

lemma in_run_session: "safe_place d r f \<Longrightarrow> in_run d r f (components (session_path_for d r f))"
  unfolding session_path_for_def by (intro in_run_file names_are_artifacts)

lemma parse_ids_safe:
  "as_object a = Some m \<Longrightarrow> parse_ids m = Inr (r, f, d) \<Longrightarrow>
     safe_place d r f \<and> str_arg a ''output_dir'' = Some d \<and> str_arg a ''run_id'' = Some r \<and> str_arg a ''finding_id'' = Some f"
  by (auto simp: parse_ids_def and_then_Inr require_absolute_Inr safe_place_def str_argI)

lemma stage2_args_safe:
  "parse_stage2_args a = Inr (args, r, f, d) \<Longrightarrow>
     safe_place d r f \<and> str_arg a ''output_dir'' = Some d \<and> str_arg a ''run_id'' = Some r \<and> str_arg a ''finding_id'' = Some f"
  by (auto simp: parse_stage2_args_def and_then_Inr ok_or_Inr dest!: parse_ids_safe)

lemma persist_finalize_confined:
  assumes "safe_place d r f" "snd (persist_finalize e d r f s v stamp fs) p \<noteq> fs p" shows "in_run d r f p"
proof (rule ccontr)
  assume out: "\<not> in_run d r f p"
  have ne: "p \<noteq> components (path_join (finding_dir_for d r f) VERIFIED_FILE_NAME)"
    "p \<noteq> components (session_path_for d r f)" "p \<noteq> components (index_path_for d r)"
    using out in_run_file [OF assms(1) names_are_artifacts(5)] in_run_session [OF assms(1)]
      in_run_index [OF assms(1)] by auto
  have frame: "fs2 p = fs1 p" if "upsert_verified_index e d r f v stamp fs1 = (x, fs2)" for x fs1 fs2
    using upsert_verified_frame [OF ne(3), of e f v stamp fs1] that by simp
  have "snd (persist_finalize e d r f s v stamp fs) p = fs p"
    using ne by (auto simp: persist_finalize_def Let_def write_session_atomic_def write_json_atomic_def
      split: sum.splits prod.splits if_splits dest!: frame)
  with assms(2) show False by simp
qed

lemma persist_extract_confined:
  assumes "safe_place d r f" "snd (persist_extract e d r (finding_dir_for d r f) source x fs) p \<noteq> fs p"
  shows "in_run d r f p"
proof (rule ccontr)
  assume out: "\<not> in_run d r f p"
  have ne: "p \<noteq> components (path_join (finding_dir_for d r f) SOURCE_FILE_NAME)"
    "p \<noteq> components (path_join (finding_dir_for d r f) EXTRACTED_FILE_NAME)" "p \<noteq> components (index_path_for d r)"
    using out in_run_file [OF assms(1) names_are_artifacts(1)]
      in_run_file [OF assms(1) names_are_artifacts(2)] in_run_index [OF assms(1)] by auto
  have frame: "fs2 p = fs1 p" if "upsert_index_entry e d r g entry mode fs1 = (u, fs2)" for u g entry mode fs1 fs2
    using upsert_frame [OF ne(3), of e g entry mode fs1] that by simp
  have "snd (persist_extract e d r (finding_dir_for d r f) source x fs) p = fs p"
    using ne by (auto simp: persist_extract_def Let_def write_json_atomic_def split: sum.splits prod.splits if_splits dest!: frame)
  with assms(2) show False by simp
qed

lemma persist_refine_confined:
  assumes "safe_place d r f" "snd (persist_refine e d r f (finding_dir_for d r f) artifact stamp fs) p \<noteq> fs p"
  shows "in_run d r f p"
proof (rule ccontr)
  assume out: "\<not> in_run d r f p"
  have ne: "p \<noteq> components (path_join (finding_dir_for d r f) REFINED_FILE_NAME)" "p \<noteq> components (index_path_for d r)"
    using out in_run_file [OF assms(1) names_are_artifacts(3)] in_run_index [OF assms(1)] by auto
  have frame: "fs2 p = fs1 p" if "upsert_index_entry e d r g entry mode fs1 = (u, fs2)" for u g entry mode fs1 fs2
    using upsert_frame [OF ne(2), of e g entry mode fs1] that by simp
  have "snd (persist_refine e d r f (finding_dir_for d r f) artifact stamp fs) p = fs p"
    using ne by (auto simp: persist_refine_def Let_def write_json_atomic_def split: sum.splits prod.splits if_splits dest!: frame)
  with assms(2) show False by simp
qed

lemma extract_confined:
  assumes "snd (do_extract_finding e a fs) p \<noteq> fs p" shows "confined e fs (Extract a) p"
proof -
  let ?checked = "and_then (parse_extract_args e a) (\<lambda>(finding_arg, output_dir, run_id).
           and_then (resolve_finding e fs finding_arg) (\<lambda>(f, form, path, source).
           and_then (validate_safe_id (fid f)) (\<lambda>_.
           Inr (output_dir, run_id, f, form, path, source))))"
  from assms obtain x where x: "?checked = Inr x" by (cases ?checked) (auto simp: do_extract_finding_def)
  then obtain arg d r f form path source where args: "parse_extract_args e a = Inr (arg, d, r)"
    "validate_safe_id (fid f) = Inr ()" "x = (d, r, f, form, path, source)"
    by (auto simp: and_then_Inr split: prod.splits)
  from args(1) obtain m where m: "as_object a = Some m" "get m ''finding'' = Some arg"
      "Option.bind (get m ''output_dir'') as_str = Some d" "require_absolute d = Inr d" "run_id_arg e (get m ''run_id'') = Inr r"
    by (auto simp: parse_extract_args_def and_then_Inr ok_or_Inr require_absolute_Inr)
  have dir: "str_arg a ''output_dir'' = Some d" "require_absolute d = Inr d" "validate_safe_id r = Inr ()"
    using m run_id_arg_safe by (auto simp: str_arg_def)
  have run: "request_run e (Extract a) = Some r"
    using m(1,5) by (auto simp: run_id_arg_def and_then_Inr split: option.splits json.splits)
  have finding: "request_finding e fs (Extract a) = Some (fid f)"
    using x args(1,3) m(1,2) by (auto simp: and_then_Inr split: prod.splits)
  have safe: "safe_place d r (fid f)" using dir args(2) by (simp add: safe_place_def)
  have "snd (do_extract_finding e a fs) p =
      snd (persist_extract e d r (finding_dir_for d r (fid f)) source (build_extracted_artifact e f form path) fs) p"
    unfolding do_extract_finding_def x args(3) by (auto simp: Let_def split: sum.splits prod.splits)
  with assms persist_extract_confined [OF safe] have "in_run d r (fid f) p" by metis
  with dir run finding safe_place_parts(1) [OF safe] show ?thesis by (auto simp: confined_def)
qed

lemma refine_confined:
  assumes "snd (do_refine_finding e a fs) p \<noteq> fs p" shows "confined e fs (Refine a) p"
proof -
  let ?dir = "\<lambda>parsed. finding_dir_for (ref_output_dir parsed) (ref_run_id parsed) (ref_finding_id parsed)"
  let ?checked = "and_then (parse_refine_args a) (\<lambda>parsed.
           and_then (load_existing_extracted e fs (?dir parsed)) (\<lambda>extracted. Inr (parsed, extracted)))"
  from assms obtain x where x: "?checked = Inr x" by (cases ?checked) (auto simp: do_refine_finding_def)
  then obtain q extracted where args: "parse_refine_args a = Inr q" "x = (q, extracted)"
    by (auto simp: and_then_Inr)
  have safe: "safe_place (ref_output_dir q) (ref_run_id q) (ref_finding_id q)" and dir: "str_arg a ''output_dir'' = Some (ref_output_dir q)"
      "str_arg a ''run_id'' = Some (ref_run_id q)" "str_arg a ''finding_id'' = Some (ref_finding_id q)"
    using args(1) by (auto simp: parse_refine_args_def and_then_Inr ok_or_Inr
      split: prod.splits if_splits dest!: parse_ids_safe [of a])
  let ?stamp = "format_iso8601_utc (clock e)"
  have "snd (do_refine_finding e a fs) p =
      snd (persist_refine e (ref_output_dir q) (ref_run_id q) (ref_finding_id q) (?dir q)
        (build_refined_artifact extracted (ref_prompt q) (ref_refinement q) ?stamp) ?stamp fs) p"
    unfolding do_refine_finding_def x args(2) by (auto simp: Let_def split: sum.splits prod.splits)
  with assms persist_refine_confined [OF safe] have "in_run (ref_output_dir q) (ref_run_id q) (ref_finding_id q) p" by metis
  with dir safe_place_parts(1) [OF safe] show ?thesis by (auto simp: confined_def)
qed

text \<open>The stage-2 tools: the session path is in the run. A session file of another name than the
  arguments give never changes.\<close>

lemma write_session_confined:
  assumes "safe_place d r f" "c = snd (write_session_atomic e (session_path_for d r f) s fs) p" "c \<noteq> fs p"
  shows "in_run d r f p"
  using write_session_result(1) [OF assms(2,3)] in_run_session [OF assms(1)] by simp

lemma start_confined:
  assumes "snd (do_start_verification e a fs) p \<noteq> fs p" shows "confined e fs (Start a) p"
proof -
  let ?checked = "and_then (parse_stage2_args a) (\<lambda>(args, run, finding, output_dir).
           and_then (check_stage1_refined e fs (finding_dir_for output_dir run finding)) (\<lambda>ok.
           and_then (read_session fs (session_path_for output_dir run finding)) (\<lambda>existing.
           and_then (case existing of Some s \<Rightarrow> can_transition (state s) EStart | None \<Rightarrow> Inr Open) (\<lambda>_.
           Inr (run, finding, output_dir, ok)))))"
  from assms obtain x where x: "?checked = Inr x" by (cases ?checked) (auto simp: do_start_verification_def)
  then obtain args r f d ok where parsed: "parse_stage2_args a = Inr (args, r, f, d)" "x = (r, f, d, ok)"
    by (auto simp: and_then_Inr split: prod.splits)
  have "snd (do_start_verification e a fs) p =
      snd (write_session_atomic e (session_path_for d r f) (build_new_session r f ok (format_iso8601_utc (clock e))) fs) p"
    using assms unfolding do_start_verification_def x parsed(2)
    by (auto simp: Let_def split: if_splits sum.splits prod.splits)
  with stage2_args_safe [OF parsed(1)] assms show ?thesis
    using write_session_confined safe_place_parts(1) by (fastforce simp: confined_def)
qed

lemma append_confined:
  assumes "snd (do_append_clarification e a fs) p \<noteq> fs p" shows "confined e fs (Append a) p"
proof -
  let ?checked = "and_then (parse_append_args a) (\<lambda>args.
           let session_path = session_path_for (ap_output_dir args) (ap_run_id args) (ap_finding_id args)
           in and_then (load_session fs session_path) (\<lambda>prev.
              and_then (build_appended_session e prev args) (\<lambda>next_session.
              Inr (session_path, next_session))))"
  from assms obtain x where x: "?checked = Inr x" by (cases ?checked) (auto simp: do_append_clarification_def)
  then obtain q s' where parsed: "parse_append_args a = Inr q"
      "x = (session_path_for (ap_output_dir q) (ap_run_id q) (ap_finding_id q), s')"
    by (auto simp: and_then_Inr Let_def)
  have "safe_place (ap_output_dir q) (ap_run_id q) (ap_finding_id q) \<and> str_arg a ''output_dir'' = Some (ap_output_dir q) \<and>
      str_arg a ''run_id'' = Some (ap_run_id q) \<and> str_arg a ''finding_id'' = Some (ap_finding_id q)"
    using parsed(1) by (auto simp: parse_append_args_def and_then_Inr split: prod.splits if_splits dest!: stage2_args_safe)
  moreover have "snd (do_append_clarification e a fs) p =
      snd (write_session_atomic e (session_path_for (ap_output_dir q) (ap_run_id q) (ap_finding_id q)) s' fs) p"
    unfolding do_append_clarification_def x parsed(2) by (auto simp: Let_def split: sum.splits prod.splits)
  ultimately show ?thesis using write_session_confined safe_place_parts(1) assms by (fastforce simp: confined_def)
qed

lemma abort_confined:
  assumes "snd (do_abort_verification e a fs) p \<noteq> fs p" shows "confined e fs (Abort a) p"
proof -
  let ?stamp = "format_iso8601_utc (clock e)"
  let ?checked = "and_then (parse_stage2_args a) (\<lambda>(args, run, finding, output_dir).
           let session_path = session_path_for output_dir run finding
           in and_then (load_session fs session_path) (\<lambda>prev.
              and_then (build_aborted_session prev (Option.bind (get args ''reason'') as_str) ?stamp) (\<lambda>aborted.
              Inr (session_path, aborted))))"
  from assms obtain x where x: "?checked = Inr x" by (cases ?checked) (auto simp: do_abort_verification_def Let_def)
  then obtain args r f d s' where parsed: "parse_stage2_args a = Inr (args, r, f, d)" "x = (session_path_for d r f, s')"
    by (auto simp: and_then_Inr Let_def split: prod.splits)
  have "snd (do_abort_verification e a fs) p = snd (write_session_atomic e (session_path_for d r f) s' fs) p"
    using x unfolding do_abort_verification_def parsed(2) by (auto simp: Let_def split: sum.splits prod.splits)
  with stage2_args_safe [OF parsed(1)] assms show ?thesis
    using write_session_confined safe_place_parts(1) by (fastforce simp: confined_def)
qed

lemma finalize_confined:
  assumes "snd (do_finalize_verification e a fs) p \<noteq> fs p" shows "confined e fs (Finalize a) p"
proof -
  let ?checked = "and_then (parse_stage2_args a) (\<lambda>(args, run, finding, output_dir).
           and_then (load_session fs (session_path_for output_dir run finding)) (\<lambda>s.
           and_then (check_finalize_preconditions s) (\<lambda>_.
           Inr (run, finding, output_dir, s))))"
  from assms obtain x where x: "?checked = Inr x" by (cases ?checked) (auto simp: do_finalize_verification_def)
  then obtain args r f d s where parsed: "parse_stage2_args a = Inr (args, r, f, d)" "x = (r, f, d, s)"
    by (auto simp: and_then_Inr split: prod.splits)
  let ?stamp = "format_iso8601_utc (clock e)"
  have "snd (do_finalize_verification e a fs) p =
      snd (persist_finalize e d r f s (build_verified_artifact e s f ?stamp) ?stamp fs) p"
    unfolding do_finalize_verification_def x parsed(2) by (auto simp: Let_def split: sum.splits prod.splits)
  with stage2_args_safe [OF parsed(1)] assms show ?thesis
    using persist_finalize_confined safe_place_parts(1) by (fastforce simp: confined_def)
qed

text \<open>C29: no request writes outside the files of its run and finding: a path that a request changes is, under the
  output directory of its arguments, the index of the run it names (for \<open>extract_finding\<close> without a run id, of
  the run it makes) or one of the five artifacts of the finding it names in that run, and it has no \<open>..\<close>
  component, whatever ids and paths the arguments hold.\<close>

theorem writes_confined:
  assumes "handle e q fs p \<noteq> fs p"
  shows "\<exists>d r f. str_arg (request_args q) ''output_dir'' = Some d \<and> is_absolute d \<and>
    request_run e q = Some r \<and> request_finding e fs q = Some f \<and> ''..'' \<notin> set p \<and>
    (p = components d @ [''runs'', r, ''index.json''] \<or>
     (\<exists>file \<in> set artifact_names. p = components d @ [''runs'', r, ''findings'', f, file]))"
  using assms unfolding in_run_def [symmetric] confined_def [symmetric]
  by (cases q) (auto simp: stage2_run_defs intro: extract_confined refine_confined start_confined append_confined
    finalize_confined abort_confined)

theorem writes_confined_witness:
  "\<exists>d r f. str_arg demo_args ''output_dir'' = Some d \<and> str_arg demo_args ''run_id'' = Some r \<and>
     str_arg demo_args ''finding_id'' = Some f \<and> (demo_path = components d @ [''runs'', r, ''index.json''] \<or>
       list_ex (\<lambda>file. demo_path = components d @ [''runs'', r, ''findings'', f, file]) artifact_names)"
proof -
  let ?fs = "demo_files (demo_session WaitingForAgent)"
  have "map_option turn_count (session_in (handle demo_env (Append demo_args) ?fs demo_path)) = Some 3"
    by code_simp
  moreover have "map_option turn_count (session_in (?fs demo_path)) = Some 2"
    by (simp add: session_in_demo demo_in_range) (simp add: demo_session_def)
  ultimately have "handle demo_env (Append demo_args) ?fs demo_path \<noteq> ?fs demo_path" by auto
  from writes_confined [OF this] show ?thesis by (auto simp: list_ex_iff)
qed

end
