(* ===== verification/GitDiff.thy ===== *)
theory GitDiff
  imports Prelude
begin

text \<open>
  Unified diffs, the parsing half of \<open>src/git_diff.rs\<close>: the check of a git ref and the parser that turns a
  diff into the changed lines of each file. The state of the parser's loop is a record; a line is a step.
  \<open>render\<close> writes a diff the way \<open>git diff\<close> does, for the round trip. The queries that map lines to the
  symbols of a graph are in \<open>DiffImpact\<close>.
\<close>

subsection \<open>Refs\<close>

text \<open>\<open>debug\<close> is the text that \<open>{:?}\<close> prints.\<close>

definition validate_git_ref :: "(string \<Rightarrow> string) \<Rightarrow> string \<Rightarrow> string \<Rightarrow> string + unit" where
  "validate_git_ref debug r field =
     (if r = [] then Inl (''invalid_ref: '' @ field @ '' must not be empty'')
      else if starts_with r ''-'' then Inl (''invalid_ref: '' @ field @ '' must not start with '' @ [CHR 0x27] @ ''-'' @ [CHR 0x27] @ '' (got '' @ debug r @ '')'')
      else if contains r [CHR 0x0A] \<or> contains r [CHR 0x00]
           then Inl (''invalid_ref: '' @ field @ '' must not contain newline or NUL (got '' @ debug r @ '')'')
      else Inr ())"

subsection \<open>The parser\<close>

definition DIFF_LINE_MAX :: nat where
  "DIFF_LINE_MAX = (2 ^ 64 - 1) div 2"

record FileHunk =
  file_path :: string
  changed_lines :: "nat list"
  is_new :: bool
  is_deleted :: bool

text \<open>\<open>str::lines\<close>: the pieces between line feeds, without a final empty piece, each that was ended
  by one without a final carriage return.\<close>

definition strip_cr :: "string \<Rightarrow> string" where
  "strip_cr l = (if l \<noteq> [] \<and> last l = CHR 0x0D then butlast l else l)"

fun line_pieces :: "string \<Rightarrow> string \<Rightarrow> string list" where
  "line_pieces acc [] = (if acc = [] then [] else [rev acc])"
| "line_pieces acc (c # s) = (if c = CHR 0x0A then strip_cr (rev acc) # line_pieces [] s else line_pieces (c # acc) s)"

definition lines_of :: "string \<Rightarrow> string list" where
  "lines_of s = line_pieces [] s"

text \<open>The number after the first \<open>+\<close>, up to a comma or a space.\<close>

definition parse_hunk_header :: "string \<Rightarrow> nat option" where
  "parse_hunk_header line =
     (if CHR ''+'' \<notin> set line then None
      else let rest = tl (dropWhile (\<lambda>c. c \<noteq> CHR ''+'') line);
               number = takeWhile (\<lambda>c. c \<noteq> CHR '','' \<and> c \<noteq> CHR '' '') rest
           in if number = rest then None else parse_dec (2 ^ 64) number)"

record diff_state =
  hunks :: "FileHunk list"
  current_file :: "string option"
  current_lines :: "nat list"
  current_line :: nat
  cur_new :: bool
  cur_deleted :: bool

definition diff_init :: diff_state where
  "diff_init = \<lparr>hunks = [], current_file = None, current_lines = [], current_line = 0,
     cur_new = False, cur_deleted = False\<rparr>"

definition next_line :: "diff_state \<Rightarrow> string + diff_state" where
  "next_line s =
     (if DIFF_LINE_MAX \<le> current_line s then Inl ''diff_too_large: line counter would overflow''
      else Inr (s\<lparr>current_line := current_line s + 1\<rparr>))"

definition flush_file :: "diff_state \<Rightarrow> diff_state" where
  "flush_file s =
     (case current_file s of
        None \<Rightarrow> s
      | Some fp \<Rightarrow>
          s\<lparr>hunks := hunks s @ [\<lparr>file_path = fp, changed_lines = current_lines s, is_new = cur_new s,
              is_deleted = cur_deleted s\<rparr>], current_file := None, current_lines := []\<rparr>)"

definition diff_line :: "diff_state \<Rightarrow> string \<Rightarrow> string + diff_state" where
  "diff_line s line =
     (if starts_with line ''diff --git'' then Inr ((flush_file s)\<lparr>cur_new := False, cur_deleted := False\<rparr>)
      else case strip_prefix line ''--- a/'' of
        Some path \<Rightarrow> Inr (if current_file s = None then s\<lparr>current_file := Some path\<rparr> else s)
      | None \<Rightarrow>
          if starts_with line ''--- /dev/null'' then Inr (s\<lparr>cur_new := True\<rparr>)
          else case strip_prefix line ''+++ b/'' of
            Some path \<Rightarrow> Inr (s\<lparr>current_file := Some path\<rparr>)
          | None \<Rightarrow>
              if starts_with line ''+++ /dev/null'' then Inr (s\<lparr>cur_deleted := True\<rparr>)
              else if starts_with line ''@@ '' then
                Inr (case parse_hunk_header line of Some n \<Rightarrow> s\<lparr>current_line := n\<rparr> | None \<Rightarrow> s)
              else if starts_with line ''+'' \<and> \<not> starts_with line ''+++'' then
                next_line (s\<lparr>current_lines := current_lines s @ [current_line s]\<rparr>)
              else if starts_with line ''-'' \<and> \<not> starts_with line ''---'' then
                Inr (s\<lparr>current_lines := current_lines s @ [current_line s]\<rparr>)
              else next_line s)"

fun diff_lines :: "diff_state \<Rightarrow> string list \<Rightarrow> string + diff_state" where
  "diff_lines s [] = Inr s"
| "diff_lines s (l # ls) = and_then (diff_line s l) (\<lambda>s'. diff_lines s' ls)"

definition parse_unified_diff :: "string \<Rightarrow> string + FileHunk list" where
  "parse_unified_diff text = and_then (diff_lines diff_init (lines_of text)) (\<lambda>s. Inr (hunks (flush_file s)))"

subsection \<open>Diffs as git writes them\<close>

datatype edit = Context string | Added string | Deleted string

datatype change_kind = Modified | Created | Removed

text \<open>A range of lines is written with its count, or without it: git leaves out a count of one. The rest of a hunk
  header names the function around it.\<close>

record diff_hunk =
  h_old_start :: nat
  h_old_count :: "nat option"
  h_start :: nat
  h_count :: "nat option"
  h_section :: string
  h_body :: "edit list"

text \<open>The extended header lines of a file: its mode, its index, a rename.\<close>

record file_diff =
  fd_path :: string
  fd_kind :: change_kind
  fd_extended :: "string list"
  fd_hunks :: "diff_hunk list"

fun edit_line :: "edit \<Rightarrow> string" where
  "edit_line (Context t) = '' '' @ t"
| "edit_line (Added t) = ''+'' @ t"
| "edit_line (Deleted t) = ''-'' @ t"

definition range_text :: "nat \<Rightarrow> nat option \<Rightarrow> string" where
  "range_text start count = dec start @ (case count of None \<Rightarrow> [] | Some n \<Rightarrow> '','' @ dec n)"

definition hunk_header :: "diff_hunk \<Rightarrow> string" where
  "hunk_header h = ''@@ -'' @ range_text (h_old_start h) (h_old_count h) @ '' +'' @ range_text (h_start h) (h_count h) @
     '' @@'' @ h_section h"

definition hunk_lines :: "diff_hunk \<Rightarrow> string list" where
  "hunk_lines h = hunk_header h # map edit_line (h_body h)"

definition file_lines :: "file_diff \<Rightarrow> string list" where
  "file_lines f =
     (''diff --git a/'' @ fd_path f @ '' b/'' @ fd_path f) # fd_extended f @
     [(if fd_kind f = Created then ''--- /dev/null'' else ''--- a/'' @ fd_path f),
      (if fd_kind f = Removed then ''+++ /dev/null'' else ''+++ b/'' @ fd_path f)]
     @ concat (map hunk_lines (fd_hunks f))"

text \<open>What the parser should report: an added line at its line in the new file, a deleted line at the
  line of the new file where it was.\<close>

fun edit_lines :: "nat \<Rightarrow> edit list \<Rightarrow> nat list" where
  "edit_lines n [] = []"
| "edit_lines n (Context t # es) = edit_lines (n + 1) es"
| "edit_lines n (Added t # es) = n # edit_lines (n + 1) es"
| "edit_lines n (Deleted t # es) = n # edit_lines n es"

definition expected :: "file_diff \<Rightarrow> FileHunk" where
  "expected f =
     \<lparr>file_path = fd_path f, changed_lines = concat (map (\<lambda>h. edit_lines (h_start h) (h_body h)) (fd_hunks f)),
      is_new = (fd_kind f = Created), is_deleted = (fd_kind f = Removed)\<rparr>"

text \<open>An edit whose line cannot be taken for a file header: the text of an added line does not start with
  \<open>++\<close>, that of a deleted line not with \<open>--\<close>.\<close>

fun plain_edit :: "edit \<Rightarrow> bool" where
  "plain_edit (Context t) = True"
| "plain_edit (Added t) = (\<not> starts_with t ''++'')"
| "plain_edit (Deleted t) = (\<not> starts_with t ''--'')"

definition plain_hunk :: "diff_hunk \<Rightarrow> bool" where
  "plain_hunk h \<longleftrightarrow> list_all plain_edit (h_body h) \<and> h_start h + length (h_body h) < DIFF_LINE_MAX div 2"

definition extended_line :: "string \<Rightarrow> bool" where
  "extended_line l \<longleftrightarrow> \<not> list_ex (starts_with l) [''diff --git'', ''+'', ''-'', ''@@ '']"

definition plain_file :: "file_diff \<Rightarrow> bool" where
  "plain_file f \<longleftrightarrow> fd_hunks f \<noteq> [] \<and> list_all plain_hunk (fd_hunks f) \<and> list_all extended_line (fd_extended f) \<and>
     length (fd_extended f) < DIFF_LINE_MAX div 2"

text \<open>A line of a text: no line feed in it, no carriage return at its end.\<close>

definition clean_line :: "string \<Rightarrow> bool" where
  "clean_line l \<longleftrightarrow> CHR 0x0A \<notin> set l \<and> (l = [] \<or> last l \<noteq> CHR 0x0D)"

definition render :: "file_diff list \<Rightarrow> string" where
  "render fs = concat (map (\<lambda>l. l @ [CHR 0x0A]) (concat (map file_lines fs)))"

subsection \<open>The parser reads what git writes\<close>

lemma line_pieces_line: "CHR 0x0A \<notin> set l \<Longrightarrow> line_pieces acc (l @ CHR 0x0A # s) = strip_cr (rev acc @ l) # line_pieces [] s"
  by (induction l arbitrary: acc) auto

lemma lines_of_render: "list_all clean_line ls \<Longrightarrow> lines_of (concat (map (\<lambda>l. l @ [CHR 0x0A]) ls)) = ls"
  unfolding lines_of_def by (induction ls) (auto simp: line_pieces_line clean_line_def strip_cr_def)

lemma starts_with_Cons: "starts_with s (c # p) \<longleftrightarrow> s \<noteq> [] \<and> hd s = c \<and> starts_with (tl s) p"
  by (cases s) (auto simp: starts_with_def)

lemma strip_prefix_None: "\<not> starts_with s p \<Longrightarrow> strip_prefix s p = None"
  by (simp add: strip_prefix_def)

lemma strip_prefix_append [simp]: "strip_prefix (p @ r) p = Some r"
  by (simp add: strip_prefix_Some)

lemma digits_no_plus: "CHR ''+'' \<notin> set (dec n)" "CHR '','' \<notin> set (dec n)" "CHR '' '' \<notin> set (dec n)"
proof -
  have "is_digit c" if "c \<in> set (dec n)" for c using dec_digits [of n] that by (auto simp: list_all_iff)
  moreover have "\<not> is_digit CHR ''+''" "\<not> is_digit CHR '',''" "\<not> is_digit CHR '' ''" by (simp_all add: byte_simps)
  ultimately show "CHR ''+'' \<notin> set (dec n)" "CHR '','' \<notin> set (dec n)" "CHR '' '' \<notin> set (dec n)" by blast+
qed

lemma range_text_no_plus: "CHR ''+'' \<notin> set (range_text start count)"
  using digits_no_plus by (auto simp: range_text_def split: option.splits)

lemma parse_hunk_header_render: "h_start h < 2 ^ 64 \<Longrightarrow> parse_hunk_header (hunk_header h) = Some (h_start h)"
proof -
  assume start: "h_start h < 2 ^ 64"
  let ?before = "''@@ -'' @ range_text (h_old_start h) (h_old_count h) @ '' ''"
  define after where "after = (case h_count h of None \<Rightarrow> [] | Some n \<Rightarrow> '','' @ dec n) @ '' @@'' @ h_section h"
  have header: "hunk_header h = ?before @ ''+'' @ dec (h_start h) @ after"
    by (simp add: hunk_header_def range_text_def after_def)
  have "CHR ''+'' \<notin> set ?before" using range_text_no_plus by simp
  then have "dropWhile (\<lambda>c. c \<noteq> CHR ''+'') (hunk_header h) = ''+'' @ dec (h_start h) @ after"
    unfolding header by (subst dropWhile_append2) auto
  moreover have after: "takeWhile (\<lambda>c. c \<noteq> CHR '','' \<and> c \<noteq> CHR '' '') after = []" "after \<noteq> []"
    by (simp_all add: after_def split: option.splits)
  then have "takeWhile (\<lambda>c. c \<noteq> CHR '','' \<and> c \<noteq> CHR '' '') (dec (h_start h) @ after) = dec (h_start h)"
    using digits_no_plus by (subst takeWhile_append2) auto
  moreover have "CHR '' '' \<in> set after" by (simp add: after_def)
  ultimately show ?thesis using start
    by (simp add: parse_hunk_header_def parse_dec_dec header) blast
qed

definition advance :: "nat \<Rightarrow> edit list \<Rightarrow> nat" where
  "advance n es = n + length (filter (\<lambda>e. case e of Deleted t \<Rightarrow> False | _ \<Rightarrow> True) es)"

lemma starts_with_prefix: "starts_with s (p @ q) \<Longrightarrow> starts_with s p"
  by (auto simp: starts_with_iff)

text \<open>A line that is neither a header nor a hunk header is classified by its first byte.\<close>

definition header_line :: "string \<Rightarrow> bool" where
  "header_line l \<longleftrightarrow> list_ex (starts_with l) [''diff --git'', ''---'', ''+++'', ''@@ '']"

lemma diff_line_content:
  assumes "\<not> header_line l"
  shows "diff_line s l =
    (if starts_with l ''+'' then next_line (s\<lparr>current_lines := current_lines s @ [current_line s]\<rparr>)
     else if starts_with l ''-'' then Inr (s\<lparr>current_lines := current_lines s @ [current_line s]\<rparr>)
     else next_line s)"
proof -
  have no: "\<not> starts_with l ''diff --git''" "\<not> starts_with l ''---''" "\<not> starts_with l ''+++''" "\<not> starts_with l ''@@ ''"
    using assms by (simp_all add: header_line_def)
  have "\<not> starts_with l (''---'' @ q)" "\<not> starts_with l (''+++'' @ q)" for q
    using no starts_with_prefix by blast+
  from this(1) [of "'' a/''"] this(1) [of "'' /dev/null''"] this(2) [of "'' b/''"] this(2) [of "'' /dev/null''"]
  show ?thesis using no by (simp add: diff_line_def strip_prefix_def)
qed

lemma plain_edit_no_header: "plain_edit e \<Longrightarrow> \<not> header_line (edit_line e)"
  by (cases e) (simp_all add: header_line_def starts_with_def)

lemma diff_line_edit:
  assumes "plain_edit e" "current_line s < DIFF_LINE_MAX"
  shows "diff_line s (edit_line e) =
    Inr (s\<lparr>current_lines := current_lines s @ edit_lines (current_line s) [e],
           current_line := advance (current_line s) [e]\<rparr>)"
  unfolding diff_line_content [OF plain_edit_no_header [OF assms(1)]]
  using assms(2) by (cases e) (simp_all add: starts_with_def next_line_def advance_def)

lemma diff_lines_append: "diff_lines s (a @ b) = and_then (diff_lines s a) (\<lambda>s'. diff_lines s' b)"
  by (induction a arbitrary: s) (auto simp: and_then_def split: sum.splits)

lemma diff_lines_body:
  assumes "list_all plain_edit es" "current_line s + length es < DIFF_LINE_MAX"
  shows "diff_lines s (map edit_line es) =
    Inr (s\<lparr>current_lines := current_lines s @ edit_lines (current_line s) es,
           current_line := advance (current_line s) es\<rparr>)"
  using assms
proof (induction es arbitrary: s)
  case Nil
  then show ?case by (simp add: advance_def)
next
  case (Cons e es)
  have "diff_line s (edit_line e) =
    Inr (s\<lparr>current_lines := current_lines s @ edit_lines (current_line s) [e],
           current_line := advance (current_line s) [e]\<rparr>)"
    using Cons.prems by (intro diff_line_edit) auto
  moreover have "advance (current_line s) [e] + length es < DIFF_LINE_MAX"
    using Cons.prems by (cases e) (auto simp: advance_def)
  ultimately show ?case using Cons.prems Cons.IH
    by (cases e) (simp_all add: advance_def)
qed

lemma starts_with_literal [simp]: "starts_with (c # s) (d # p) \<longleftrightarrow> c = d \<and> starts_with s p"
  by (auto simp: starts_with_def)

lemma starts_with_Nil_Cons [simp]: "\<not> starts_with [] (d # p)"
  by (simp add: starts_with_def)

lemma strip_prefix_Cons [simp]: "strip_prefix (c # s) (d # p) = (if c = d then strip_prefix s p else None)"
  by (simp add: strip_prefix_def)

lemma strip_prefix_empty [simp]: "strip_prefix s [] = Some s"
  by (simp add: strip_prefix_def)

lemma diff_line_hunk_header:
  assumes "h_start h < 2 ^ 64" shows "diff_line s (hunk_header h) = Inr (s\<lparr>current_line := h_start h\<rparr>)"
proof -
  have "starts_with (hunk_header h) ''@@ ''" "\<not> starts_with (hunk_header h) ''diff --git''"
    "\<not> starts_with (hunk_header h) ''--- /dev/null''" "\<not> starts_with (hunk_header h) ''+++ /dev/null''"
    "strip_prefix (hunk_header h) ''--- a/'' = None" "strip_prefix (hunk_header h) ''+++ b/'' = None"
    by (simp_all add: hunk_header_def)
  then show ?thesis using parse_hunk_header_render [OF assms] by (simp add: diff_line_def)
qed

lemma plain_hunk_start: "plain_hunk h \<Longrightarrow> h_start h < 2 ^ 64"
  by (simp add: plain_hunk_def DIFF_LINE_MAX_def)

lemma advance_bound: "advance n es \<le> n + length es"
  by (simp add: advance_def)

lemma diff_lines_hunk:
  assumes "plain_hunk h"
  shows "\<exists>n < DIFF_LINE_MAX div 2. diff_lines s (hunk_lines h) =
    Inr (s\<lparr>current_lines := current_lines s @ edit_lines (h_start h) (h_body h), current_line := n\<rparr>)"
proof -
  have plain: "list_all plain_edit (h_body h)" "h_start h + length (h_body h) < DIFF_LINE_MAX div 2"
    using assms by (simp_all add: plain_hunk_def)
  have "diff_lines (s\<lparr>current_line := h_start h\<rparr>) (map edit_line (h_body h)) =
      Inr (s\<lparr>current_lines := current_lines s @ edit_lines (h_start h) (h_body h),
             current_line := advance (h_start h) (h_body h)\<rparr>)"
    using diff_lines_body [OF plain(1), of "s\<lparr>current_line := h_start h\<rparr>"] plain(2) by simp
  then have "diff_lines s (hunk_lines h) =
      Inr (s\<lparr>current_lines := current_lines s @ edit_lines (h_start h) (h_body h),
             current_line := advance (h_start h) (h_body h)\<rparr>)"
    using diff_line_hunk_header [OF plain_hunk_start [OF assms]] by (simp add: hunk_lines_def)
  then show ?thesis using advance_bound [of "h_start h" "h_body h"] plain(2) by (meson le_less_trans)
qed

lemma diff_lines_hunks:
  assumes "list_all plain_hunk hs" "hs \<noteq> []"
  shows "\<exists>n < DIFF_LINE_MAX div 2. diff_lines s (concat (map hunk_lines hs)) =
    Inr (s\<lparr>current_lines := current_lines s @ concat (map (\<lambda>h. edit_lines (h_start h) (h_body h)) hs),
           current_line := n\<rparr>)"
  using assms
proof (induction hs arbitrary: s)
  case (Cons h hs)
  then obtain n where n: "n < DIFF_LINE_MAX div 2" "diff_lines s (hunk_lines h) =
      Inr (s\<lparr>current_lines := current_lines s @ edit_lines (h_start h) (h_body h), current_line := n\<rparr>)"
    using diff_lines_hunk by fastforce
  show ?case
  proof (cases "hs = []")
    case False
    with Cons.IH [of "s\<lparr>current_lines := current_lines s @ edit_lines (h_start h) (h_body h), current_line := n\<rparr>"]
      Cons.prems n show ?thesis by (simp add: diff_lines_append)
  qed (use n in \<open>auto simp: diff_lines_append\<close>)
qed simp

text \<open>The header lines of a file, from a state whose line counter is in range.\<close>

lemma diff_lines_extended:
  assumes "list_all extended_line ls" "current_line s + length ls < DIFF_LINE_MAX"
  shows "diff_lines s ls = Inr (s\<lparr>current_line := current_line s + length ls\<rparr>)"
  using assms
proof (induction ls arbitrary: s)
  case (Cons l ls)
  have "\<not> starts_with l ''diff --git''" "\<not> starts_with l ''+''" "\<not> starts_with l ''-''" "\<not> starts_with l ''@@ ''"
    using Cons.prems(1) by (simp_all add: extended_line_def)
  moreover from this(2,3) have "\<not> starts_with l (''+'' @ q)" "\<not> starts_with l (''-'' @ q)" for q
    using starts_with_prefix by blast+
  from this(1) [of "''++ b/''"] this(1) [of "''++ /dev/null''"] this(2) [of "''-- a/''"] this(2) [of "''-- /dev/null''"]
  have "\<not> starts_with l ''+++ b/''" "\<not> starts_with l ''+++ /dev/null''" "\<not> starts_with l ''--- a/''" "\<not> starts_with l ''--- /dev/null''"
    by simp_all
  ultimately have "diff_line s l = Inr (s\<lparr>current_line := current_line s + 1\<rparr>)"
    using Cons.prems(2) by (simp add: diff_line_def strip_prefix_None next_line_def)
  then show ?case using Cons.IH [of "s\<lparr>current_line := current_line s + 1\<rparr>"] Cons.prems by simp
qed simp

lemma diff_lines_header:
  assumes "current_line s < DIFF_LINE_MAX div 2" "list_all extended_line (fd_extended f)" "length (fd_extended f) < DIFF_LINE_MAX div 2"
  shows "diff_lines s
      ((''diff --git a/'' @ fd_path f @ '' b/'' @ fd_path f) # fd_extended f @
       [(if fd_kind f = Created then ''--- /dev/null'' else ''--- a/'' @ fd_path f),
        (if fd_kind f = Removed then ''+++ /dev/null'' else ''+++ b/'' @ fd_path f)]) =
    Inr ((flush_file s)\<lparr>current_file := Some (fd_path f), current_line := current_line s + length (fd_extended f),
      cur_new := (fd_kind f = Created), cur_deleted := (fd_kind f = Removed)\<rparr>)"
proof -
  let ?s = "(flush_file s)\<lparr>cur_new := False, cur_deleted := False\<rparr>"
  have flush: "current_line (flush_file s) = current_line s" "current_file (flush_file s) = None"
    by (simp_all add: flush_file_def split: option.splits)
  have "diff_line s (''diff --git a/'' @ fd_path f @ '' b/'' @ fd_path f) = Inr ?s" by (simp add: diff_line_def)
  moreover have "diff_lines ?s (fd_extended f) = Inr (?s\<lparr>current_line := current_line s + length (fd_extended f)\<rparr>)"
    using diff_lines_extended [OF assms(2), of ?s] assms(1,3) flush by simp
  ultimately show ?thesis using flush
    by (cases "fd_kind f") (simp_all add: diff_lines_append diff_line_def)
qed

lemma diff_lines_file:
  assumes "plain_file f" "current_line s < DIFF_LINE_MAX div 2" "current_file s = None \<Longrightarrow> current_lines s = []"
  shows "\<exists>s'. diff_lines s (file_lines f) = Inr s' \<and> current_line s' < DIFF_LINE_MAX div 2 \<and>
    current_file s' \<noteq> None \<and> hunks (flush_file s') = hunks (flush_file s) @ [expected f]"
proof -
  let ?h = "(flush_file s)\<lparr>current_file := Some (fd_path f), current_line := current_line s + length (fd_extended f),
      cur_new := (fd_kind f = Created), cur_deleted := (fd_kind f = Removed)\<rparr>"
  have "current_lines (flush_file s) = []" using assms(3) by (auto simp: flush_file_def split: option.splits)
  moreover obtain n where n: "n < DIFF_LINE_MAX div 2" "diff_lines ?h (concat (map hunk_lines (fd_hunks f))) =
      Inr (?h\<lparr>current_lines := current_lines ?h @ concat (map (\<lambda>h. edit_lines (h_start h) (h_body h)) (fd_hunks f)),
              current_line := n\<rparr>)"
    using diff_lines_hunks [of "fd_hunks f" ?h] assms(1) by (auto simp: plain_file_def)
  moreover have "diff_lines s (file_lines f) = diff_lines ?h (concat (map hunk_lines (fd_hunks f)))"
    using diff_lines_header [OF assms(2), of f] assms(1)
    unfolding file_lines_def append.assoc [symmetric] append_Cons [symmetric] diff_lines_append
    by (simp add: plain_file_def)
  ultimately show ?thesis by (simp add: flush_file_def expected_def)
qed

lemma diff_lines_files:
  assumes "list_all plain_file fs" "current_line s < DIFF_LINE_MAX div 2" "current_file s = None \<Longrightarrow> current_lines s = []"
  shows "\<exists>s'. diff_lines s (concat (map file_lines fs)) = Inr s' \<and>
    hunks (flush_file s') = hunks (flush_file s) @ map expected fs"
  using assms
proof (induction fs arbitrary: s)
  case (Cons f fs)
  then obtain s1 where s1: "diff_lines s (file_lines f) = Inr s1" "current_line s1 < DIFF_LINE_MAX div 2"
    "current_file s1 \<noteq> None" "hunks (flush_file s1) = hunks (flush_file s) @ [expected f]"
    using diff_lines_file [of f s] by auto
  with Cons.IH [of s1] Cons.prems show ?case by (simp add: diff_lines_append)
qed simp


text \<open>Two files: a change of two lines under the heading of a function, and a new file whose one line stands
  without counts.\<close>

definition demo_diff :: "file_diff list" where
  "demo_diff = [\<lparr>fd_path = ''a.rs'', fd_kind = Modified, fd_extended = [''index 1..2 100644''], fd_hunks =
     [\<lparr>h_old_start = 7, h_old_count = Some 2, h_start = 7, h_count = Some 2, h_section = '' fn f() {'',
       h_body = [Context ''x'', Deleted ''y'', Added ''z'']\<rparr>]\<rparr>,
    \<lparr>fd_path = ''b.rs'', fd_kind = Created, fd_extended = [''new file mode 100644'', ''index 0..3''], fd_hunks =
     [\<lparr>h_old_start = 0, h_old_count = Some 0, h_start = 1, h_count = None, h_section = [], h_body = [Added ''w'']\<rparr>]\<rparr>]"


text \<open>A defect. Git writes the line \<open>\ No newline at end of file\<close> after a deleted last line; the parser
  counts it as a line of the new file, so the line added in its place is reported one line too far.\<close>

theorem marker_shifts_lines:
  assumes "\<not> header_line marker" "\<not> starts_with marker ''+''" "\<not> starts_with marker ''-''"
    "plain_edit (Added t)" "plain_edit (Deleted u)" "current_line s + 1 < DIFF_LINE_MAX"
  shows "map_sum id current_lines (diff_lines s [edit_line (Deleted u), marker, edit_line (Added t)]) =
    Inr (current_lines s @ [current_line s, current_line s + 1])"
  using assms diff_line_edit [OF assms(5)] diff_line_edit [OF assms(4)]
  by (simp add: diff_line_content next_line_def advance_def)

theorem marker_shifts_lines_witness:
  "map_sum id current_lines (diff_lines diff_init [''-old'', [CHR 0x5C] @ '' No newline at end of file'', ''+new'']) =
    Inr [0, 1]"
  using marker_shifts_lines [of "[CHR 0x5C] @ '' No newline at end of file''" "''new''" "''old''" diff_init]
  by (simp add: header_line_def diff_init_def DIFF_LINE_MAX_def)

text \<open>A defect. A deleted line whose text starts with \<open>--\<close> (an SQL or Lua comment, say) is taken for a
  file header that is not one: the deletion is not reported and the numbers of all later lines of the
  hunk are one too high.\<close>

theorem deleted_comment_lost:
  assumes "starts_with t ''--''" "\<not> starts_with t ''-- a/''" "\<not> starts_with t ''-- /dev/null''"
    "current_line s < DIFF_LINE_MAX"
  shows "diff_line s (edit_line (Deleted t)) = Inr (s\<lparr>current_line := current_line s + 1\<rparr>)"
  using assms by (simp add: diff_line_def strip_prefix_None next_line_def)

theorem deleted_comment_lost_witness:
  "diff_line diff_init ''--- old comment'' = Inr (diff_init\<lparr>current_line := 1\<rparr>)"
  using deleted_comment_lost [of "''-- old comment''" diff_init] by (simp add: diff_init_def DIFF_LINE_MAX_def)

end
