(* ===== verification/Closure.thy ===== *)
theory Closure
  imports Prelude
begin

text \<open>
  The interface of the graph searches of the program: the features that the default features enable, the
  connected component of a node. A search promises that its result holds the starting nodes, is closed
  under the successors, and holds nothing it need not; its clients get that the result is the set of the
  nodes reachable from the start.
\<close>

locale closure_of =
  fixes init :: "'n set" and result :: "'n set" and succ :: "'n \<Rightarrow> 'n set"
  assumes result_init: "init \<subseteq> result"
    and result_closed: "x \<in> result \<Longrightarrow> succ x \<subseteq> result"
    and result_least: "init \<subseteq> T \<Longrightarrow> (\<And>x. x \<in> T \<Longrightarrow> succ x \<subseteq> T) \<Longrightarrow> result \<subseteq> T"
begin

definition edges :: "('n \<times> 'n) set" where
  "edges = {(x, y). y \<in> succ x}"

lemma result_reach: "result = edges\<^sup>* `` init"
proof
  show "result \<subseteq> edges\<^sup>* `` init"
    by (rule result_least) (auto simp: edges_def Image_iff intro: rtrancl_into_rtrancl)
  have "y \<in> result" if "(x, y) \<in> edges\<^sup>*" "x \<in> init" for x y
    using that by (induction rule: rtrancl_induct) (use result_init result_closed in \<open>auto simp: edges_def\<close>)
  then show "edges\<^sup>* `` init \<subseteq> result" by blast
qed

lemma in_result: "y \<in> result \<longleftrightarrow> (\<exists>x \<in> init. (x, y) \<in> {(x, y). y \<in> succ x}\<^sup>*)"
  unfolding result_reach edges_def by blast

end

end
