(* ===== verification/CargoFeatures.thy ===== *)
theory CargoFeatures
  imports Closure
begin

text \<open>
  The default features of a package, \<open>src/indexer/cargo_features.rs\<close>. The table of features is an
  association list from a feature to its entries. The work list keeps the order of the \<open>Vec\<close>: its last
  element is the next one.
\<close>

type_synonym feature_table = "(string \<times> string list) list"

definition enabled_feature :: "string \<Rightarrow> string option" where
  "enabled_feature entry =
     (if starts_with entry ''dep:'' then None
      else case split_once entry ''/'' of
             Some (dep, rest) \<Rightarrow> if ends_with dep ''?'' then None else Some dep
           | None \<Rightarrow> Some entry)"

function closure_loop :: "feature_table \<Rightarrow> string set \<Rightarrow> string list \<Rightarrow> string set" where
  "closure_loop features enabled pending =
     (if pending = [] then enabled
      else let entry = last pending; rest = butlast pending
           in case enabled_feature entry of
                None \<Rightarrow> closure_loop features enabled rest
              | Some name \<Rightarrow>
                  (case map_of features name of
                     None \<Rightarrow> closure_loop features enabled rest
                   | Some entries \<Rightarrow>
                       if name \<in> enabled then closure_loop features enabled rest
                       else closure_loop features (insert name enabled) (rest @ entries)))"
  by pat_completeness auto

termination closure_loop
proof (relation "measures [\<lambda>(features, enabled, pending). card (fst ` set features - enabled),
    \<lambda>(features, enabled, pending). length pending]", goal_cases)
  case (5 features enabled pending entry rest name entries)
  then have "name \<in> fst ` set features - enabled" by (force dest: map_of_SomeD)
  then have "card (fst ` set features - insert name enabled) < card (fst ` set features - enabled)"
    by (intro psubset_card_mono) auto
  then show ?case by simp
qed auto

declare closure_loop.simps [simp del]

definition default_closure :: "feature_table \<Rightarrow> string set" where
  "default_closure features =
     (case map_of features ''default'' of
        None \<Rightarrow> closure_loop features {} []
      | Some entries \<Rightarrow> closure_loop features {''default''} entries)"

subsection \<open>The features that are enabled\<close>

definition enables :: "feature_table \<Rightarrow> string list \<Rightarrow> string set" where
  "enables features entries = {n. \<exists>e \<in> set entries. enabled_feature e = Some n \<and> map_of features n \<noteq> None}"

definition feature_succ :: "feature_table \<Rightarrow> string \<Rightarrow> string set" where
  "feature_succ features n = (case map_of features n of None \<Rightarrow> {} | Some entries \<Rightarrow> enables features entries)"

definition feature_init :: "feature_table \<Rightarrow> string set" where
  "feature_init features = (if map_of features ''default'' = None then {} else {''default''})"

lemma enables_snoc: "pending \<noteq> [] \<Longrightarrow> enables features pending =
    enables features (butlast pending) \<union>
      (case enabled_feature (last pending) of None \<Rightarrow> {}
       | Some n \<Rightarrow> if map_of features n = None then {} else {n})"
  using set_append [of "butlast pending" "[last pending]"]
  by (auto simp: enables_def split: option.splits)

lemma enables_append: "enables features (a @ b) = enables features a \<union> enables features b"
  by (auto simp: enables_def)

text \<open>The invariant of the loop: what it adds is closed but for the entries still pending.\<close>

lemma closure_loop_contains: "enabled \<subseteq> closure_loop features enabled pending"
proof (induction features enabled pending rule: closure_loop.induct)
  case (1 features enabled pending)
  then show ?case
    by (subst closure_loop.simps) (auto simp: Let_def split: option.splits)
qed

lemma closure_loop_pending: "enables features pending \<subseteq> closure_loop features enabled pending"
proof (induction features enabled pending rule: closure_loop.induct)
  case (1 features enabled pending)
  show ?case
  proof (cases "pending = []")
    case False
    note IH = 1 [OF False refl refl]
    show ?thesis
      unfolding enables_snoc [OF False]
      using IH closure_loop_contains [of "insert n enabled" features for n] closure_loop_contains [of enabled features]
      by (subst closure_loop.simps) (fastforce simp: Let_def False enables_append split: option.splits)
  qed (simp add: enables_def)
qed

lemma closure_loop_closed:
  "x \<in> closure_loop features enabled pending \<Longrightarrow> x \<notin> enabled \<Longrightarrow>
     feature_succ features x \<subseteq> closure_loop features enabled pending"
proof (induction features enabled pending rule: closure_loop.induct)
  case (1 features enabled pending)
  show ?case
  proof (cases "\<exists>n es. pending \<noteq> [] \<and> enabled_feature (last pending) = Some n \<and> map_of features n = Some es \<and> n \<notin> enabled")
    case True
    then obtain n es where n: "pending \<noteq> []" "enabled_feature (last pending) = Some n" "map_of features n = Some es" "n \<notin> enabled"
      by blast
    then have eq: "closure_loop features enabled pending = closure_loop features (insert n enabled) (butlast pending @ es)"
      by (subst closure_loop.simps) (simp add: Let_def)
    show ?thesis
    proof (cases "x = n")
      case True
      then have "feature_succ features x = enables features es" using n by (simp add: feature_succ_def)
      then show ?thesis unfolding eq
        using closure_loop_pending [of features "butlast pending @ es"] by (auto simp: enables_append)
    next
      case False
      with 1(4) [OF n(1) refl refl n(2,3,4)] 1(5,6) show ?thesis unfolding eq by auto
    qed
  next
    case False
    then have eq: "closure_loop features enabled pending =
        (if pending = [] then enabled else closure_loop features enabled (butlast pending))"
      by (subst closure_loop.simps) (auto simp: Let_def split: option.splits)
    show ?thesis
    proof (cases "pending = []")
      case True
      with 1(5,6) show ?thesis unfolding eq by simp
    next
      case ne: False
      then consider "enabled_feature (last pending) = None"
        | n where "enabled_feature (last pending) = Some n" "map_of features n = None"
        | n es where "enabled_feature (last pending) = Some n" "map_of features n = Some es" "n \<in> enabled"
        using False by fastforce
      then show ?thesis
        by cases (use 1 ne eq in auto)
    qed
  qed
qed

lemma closure_loop_least:
  assumes "enabled \<subseteq> T" "enables features pending \<subseteq> T" "\<And>x. x \<in> T \<Longrightarrow> feature_succ features x \<subseteq> T"
  shows "closure_loop features enabled pending \<subseteq> T"
  using assms
proof (induction features enabled pending rule: closure_loop.induct)
  case (1 features enabled pending)
  show ?case
  proof (cases "pending = []")
    case True
    then show ?thesis using 1 by (subst closure_loop.simps) simp
  next
    case False
    note IH = 1(1-4) [OF False refl refl]
    have sub: "enables features (butlast pending) \<subseteq> T" using 1(6) enables_snoc [OF False] by auto
    have name: "n \<in> T \<and> enables features es \<subseteq> T"
      if "enabled_feature (last pending) = Some n" "map_of features n = Some es" for n es
    proof -
      have "n \<in> T" using 1(6) enables_snoc [OF False, of features] that by auto
      then show ?thesis using 1(7) [of n] that by (simp add: feature_succ_def)
    qed
    show ?thesis
      using IH 1(5,7) sub name
      by (subst closure_loop.simps) (auto simp: Let_def False enables_append split: option.splits)
  qed
qed

interpretation default_features: closure_of "feature_init features" "default_closure features" "feature_succ features"
  for features
proof
  show "feature_init features \<subseteq> default_closure features"
    using closure_loop_contains [of "{''default''}" features]
    by (auto simp: feature_init_def default_closure_def split: option.splits)
next
  fix x assume x: "x \<in> default_closure features"
  show "feature_succ features x \<subseteq> default_closure features"
  proof (cases "map_of features ''default''")
    case None
    then show ?thesis using x by (simp add: default_closure_def closure_loop.simps)
  next
    case (Some entries)
    then show ?thesis
      using x closure_loop_closed [of x features "{''default''}" entries]
        closure_loop_pending [of features entries "{''default''}"]
      by (cases "x = ''default''") (auto simp: default_closure_def feature_succ_def)
  qed
next
  fix T assume T: "feature_init features \<subseteq> T" "\<And>x. x \<in> T \<Longrightarrow> feature_succ features x \<subseteq> T"
  show "default_closure features \<subseteq> T"
  proof (cases "map_of features ''default''")
    case None
    then show ?thesis by (simp add: default_closure_def closure_loop.simps)
  next
    case (Some entries)
    then have "''default'' \<in> T" using T(1) by (simp add: feature_init_def)
    moreover from this have "enables features entries \<subseteq> T" using T(2) [of "''default''"] Some by (simp add: feature_succ_def)
    ultimately show ?thesis
      using closure_loop_least [of "{''default''}" T features entries] T(2) Some by (simp add: default_closure_def)
  qed
qed

text \<open>The features that a plain build of a package enables are exactly those reachable from its
  \<open>default\<close> feature: a feature is enabled when a chain of entries, each the name of a declared feature
  (alone, or before a slash without \<open>?\<close>, and never \<open>dep:\<close>), leads to it.\<close>

theorem default_closure_reachable:
  "default_closure features =
     (if map_of features ''default'' = None then {}
      else {n. (''default'', n) \<in> {(x, y). y \<in> feature_succ features x}\<^sup>*})"
  using default_features.in_result [of _ features] by (auto simp: feature_init_def)

end
