(* ===== verification/Adjacency.thy ===== *)
theory Adjacency
  imports Prelude
begin

text \<open>
  The weighted graph that the clustering works on, \<open>src/clustering/community_adjacency.rs\<close>. A graph store is
  what it answers to a query: an error text or the rows of the answer. The arithmetic of \<open>f64\<close> is the
  parameter \<open>F\<close> of every definition that computes with weights: the theorems hold for any arithmetic,
  so for the rounding one of the machine too, and a run can be evaluated with exact numbers.
\<close>

type_synonym store = "string \<Rightarrow> string + string list list"

record 'f f64 =
  f_lit :: "nat \<Rightarrow> 'f"
  f_add :: "'f \<Rightarrow> 'f \<Rightarrow> 'f"
  f_sub :: "'f \<Rightarrow> 'f \<Rightarrow> 'f"
  f_mul :: "'f \<Rightarrow> 'f \<Rightarrow> 'f"
  f_div :: "'f \<Rightarrow> 'f \<Rightarrow> 'f"
  f_eq :: "'f \<Rightarrow> 'f \<Rightarrow> bool"
  f_gt :: "'f \<Rightarrow> 'f \<Rightarrow> bool"

type_synonym 'f neighbors = "(nat \<times> 'f) list list"

record 'f Adjacency =
  node_ids :: "string list"
  node_labels :: "string list"
  id_to_idx :: "string \<rightharpoonup> nat"
  adj_neighbors :: "'f neighbors"
  total_weight :: 'f

definition CLUSTER_NODE_LABELS :: "string list" where
  "CLUSTER_NODE_LABELS =
     [''File'', ''Function'', ''Method'', ''Struct'', ''Enum'', ''Trait'', ''Constant'', ''TypeAlias'', ''Module'']"

section \<open>The nodes\<close>

type_synonym SymbolNodeCollection = "string list \<times> string list \<times> (string \<rightharpoonup> nat)"

fun collect_row :: "string \<Rightarrow> string list \<Rightarrow> SymbolNodeCollection \<Rightarrow> SymbolNodeCollection" where
  "collect_row label [] st = st"
| "collect_row label (i # cells) (ids, labels, m) =
     (if m i = None then (ids @ [i], labels @ [label], m(i \<mapsto> length ids)) else (ids, labels, m))"

definition collect_label :: "store \<Rightarrow> string \<Rightarrow> SymbolNodeCollection \<Rightarrow> SymbolNodeCollection" where
  "collect_label store label st =
     (case store (''MATCH (n:'' @ label @ '') RETURN n.id ORDER BY n.id'') of
        Inl e \<Rightarrow> st
      | Inr rows \<Rightarrow> fold (collect_row label) rows st)"

definition collect_symbol_nodes :: "store \<Rightarrow> SymbolNodeCollection" where
  "collect_symbol_nodes store = fold (collect_label store) CLUSTER_NODE_LABELS ([], [], Map.empty)"

section \<open>The edges\<close>

definition edge_rel_tables :: "(string \<times> string \<times> string) list" where
  "edge_rel_tables = [
     (''Defines_File_Function'', ''File'', ''Function''),
     (''Defines_File_Struct'', ''File'', ''Struct''),
     (''Defines_File_Enum'', ''File'', ''Enum''),
     (''Defines_File_Trait'', ''File'', ''Trait''),
     (''Defines_File_Constant'', ''File'', ''Constant''),
     (''Defines_File_TypeAlias'', ''File'', ''TypeAlias''),
     (''Defines_Module_Function'', ''Module'', ''Function''),
     (''Defines_Module_Struct'', ''Module'', ''Struct''),
     (''Defines_Module_Enum'', ''Module'', ''Enum''),
     (''Defines_Module_Trait'', ''Module'', ''Trait''),
     (''Defines_Module_Constant'', ''Module'', ''Constant''),
     (''Defines_Module_TypeAlias'', ''Module'', ''TypeAlias''),
     (''Contains_File_Module'', ''File'', ''Module''),
     (''Imports_File_File'', ''File'', ''File''),
     (''Imports_File_Module'', ''File'', ''Module''),
     (''Calls_Function_Function'', ''Function'', ''Function''),
     (''Calls_Function_Method'', ''Function'', ''Method''),
     (''Calls_Method_Function'', ''Method'', ''Function''),
     (''Calls_Method_Method'', ''Method'', ''Method''),
     (''Imports_File_Function'', ''File'', ''Function''),
     (''Imports_File_Struct'', ''File'', ''Struct''),
     (''Imports_File_Enum'', ''File'', ''Enum''),
     (''Imports_File_Trait'', ''File'', ''Trait''),
     (''Implements_Struct_Trait'', ''Struct'', ''Trait''),
     (''Implements_Enum_Trait'', ''Enum'', ''Trait''),
     (''Extends_Trait_Trait'', ''Trait'', ''Trait''),
     (''Uses_Function_Struct'', ''Function'', ''Struct''),
     (''Uses_Function_Enum'', ''Function'', ''Enum''),
     (''Uses_Function_Trait'', ''Function'', ''Trait''),
     (''Uses_Method_Struct'', ''Method'', ''Struct''),
     (''Uses_Method_Enum'', ''Method'', ''Enum''),
     (''Uses_Method_Trait'', ''Method'', ''Trait''),
     (''HasMethod_Struct_Method'', ''Struct'', ''Method''),
     (''HasMethod_Enum_Method'', ''Enum'', ''Method''),
     (''HasMethod_Trait_Method'', ''Trait'', ''Method''),
     (''HasField_Struct_Field'', ''Struct'', ''Field''),
     (''HasField_Enum_Field'', ''Enum'', ''Field''),
     (''HasVariant_Enum_Variant'', ''Enum'', ''Variant'')]"

definition edge_weight :: "string \<Rightarrow> nat" where
  "edge_weight rel =
     (if starts_with rel ''Calls_'' then 3
      else if starts_with rel ''Implements_'' \<or> starts_with rel ''Extends_'' then 2
      else if starts_with rel ''Imports_'' \<or> starts_with rel ''Uses_'' then 1
      else if starts_with rel ''HasMethod_'' \<or> starts_with rel ''HasField_'' \<or> starts_with rel ''HasVariant_''
        \<or> starts_with rel ''Defines_'' \<or> starts_with rel ''Contains_'' then 5
      else 0)"

type_synonym 'f WeightedAdjacency = "'f neighbors \<times> 'f"

definition push_neighbor :: "nat \<Rightarrow> nat \<times> 'f \<Rightarrow> 'f neighbors \<Rightarrow> 'f neighbors" where
  "push_neighbor a e nb = nb[a := nb ! a @ [e]]"

fun edge_row :: "'f f64 \<Rightarrow> (string \<rightharpoonup> nat) \<Rightarrow> 'f \<Rightarrow> string list \<Rightarrow> 'f WeightedAdjacency \<Rightarrow> 'f WeightedAdjacency" where
  "edge_row F ids w (x # y # cells) (nb, tw) =
     (case (ids x, ids y) of
        (Some a, Some b) \<Rightarrow> (push_neighbor b (a, w) (push_neighbor a (b, w) nb), f_add F tw w)
      | _ \<Rightarrow> (nb, tw))"
| "edge_row F ids w cells st = st"

fun edge_table :: "'f f64 \<Rightarrow> store \<Rightarrow> (string \<rightharpoonup> nat) \<Rightarrow> string \<times> string \<times> string \<Rightarrow>
    'f WeightedAdjacency \<Rightarrow> 'f WeightedAdjacency" where
  "edge_table F store ids (rel, from_label, to_label) st =
     (let w = edge_weight rel
      in if w = 0 then st
         else case store (''MATCH (a:'' @ from_label @ '')-[:'' @ rel @ '']->(b:'' @ to_label @
                '') RETURN a.id, b.id ORDER BY a.id, b.id'') of
                Inl e \<Rightarrow> st
              | Inr rows \<Rightarrow> fold (edge_row F ids (f_lit F w)) rows st)"

definition collect_weighted_edges :: "'f f64 \<Rightarrow> store \<Rightarrow> (string \<rightharpoonup> nat) \<Rightarrow> nat \<Rightarrow> 'f WeightedAdjacency" where
  "collect_weighted_edges F store ids n =
     fold (edge_table F store ids) edge_rel_tables (replicate n [], f_lit F 0)"

definition extract_adjacency :: "'f f64 \<Rightarrow> store \<Rightarrow> 'f Adjacency" where
  "extract_adjacency F store =
     (let (ids, labels, m) = collect_symbol_nodes store;
          (nb, tw) = collect_weighted_edges F store m (length ids)
      in \<lparr>node_ids = ids, node_labels = labels, id_to_idx = m, adj_neighbors = nb, total_weight = tw\<rparr>)"

section \<open>What the clustering relies on\<close>

text \<open>Every neighbour is a node, and the graph is undirected: every edge is pushed on both of its ends.\<close>

definition in_range :: "'f neighbors \<Rightarrow> bool" where
  "in_range nb \<longleftrightarrow> list_all (list_all (\<lambda>(j, w). j < length nb)) nb"

definition adjacent :: "'f neighbors \<Rightarrow> nat \<Rightarrow> nat \<Rightarrow> bool" where
  "adjacent nb i j \<longleftrightarrow> i < length nb \<and> j \<in> fst ` set (nb ! i)"

definition undirected :: "'f neighbors \<Rightarrow> bool" where
  "undirected nb \<longleftrightarrow> in_range nb \<and> (\<forall>i j. adjacent nb i j \<longrightarrow> adjacent nb j i)"

definition ids_ok :: "SymbolNodeCollection \<Rightarrow> bool" where
  "ids_ok st = (case st of (ids, labels, m) \<Rightarrow>
     length labels = length ids \<and> distinct ids \<and> set labels \<subseteq> set CLUSTER_NODE_LABELS
     \<and> (\<forall>x k. m x = Some k \<longleftrightarrow> k < length ids \<and> ids ! k = x))"

lemma in_range_iff: "in_range nb \<longleftrightarrow> (\<forall>i j. adjacent nb i j \<longrightarrow> j < length nb)"
  by (force simp: in_range_def adjacent_def list_all_length list_all_iff in_set_conv_nth)

lemma length_push_neighbor [simp]: "length (push_neighbor a e nb) = length nb"
  by (simp add: push_neighbor_def)

lemma adjacent_push_neighbor:
  "adjacent (push_neighbor a (b, w) nb) i j \<longleftrightarrow> adjacent nb i j \<or> (i = a \<and> j = b \<and> a < length nb)"
  by (cases "i = a") (force simp: adjacent_def push_neighbor_def nth_list_update)+

lemma undirected_push:
  "undirected nb \<Longrightarrow> a < length nb \<Longrightarrow> b < length nb \<Longrightarrow>
     undirected (push_neighbor b (a, w) (push_neighbor a (b, w') nb))"
  by (auto simp: undirected_def in_range_iff adjacent_push_neighbor)

lemma undirected_replicate [simp]: "undirected (replicate n [])"
  by (auto simp: undirected_def in_range_def adjacent_def list_all_iff)

lemma fold_invariant:
  assumes "\<And>x st. x \<in> set xs \<Longrightarrow> P st \<Longrightarrow> P (f x st)" "P st"
  shows "P (fold f xs st)"
  using assms by (induction xs arbitrary: st) auto

lemma ids_ok_collect_row: "label \<in> set CLUSTER_NODE_LABELS \<Longrightarrow> ids_ok st \<Longrightarrow> ids_ok (collect_row label row st)"
proof (cases st rule: prod_cases3)
  case fields: (fields ids labels m)
  assume label: "label \<in> set CLUSTER_NODE_LABELS" and ok: "ids_ok st"
  then have m: "m x = Some k \<longleftrightarrow> k < length ids \<and> ids ! k = x" for x k
    by (simp add: fields ids_ok_def)
  have fresh: "x \<notin> set ids" if "m x = None" for x
    using m [of x] that by (metis in_set_conv_nth option.distinct(1))
  show ?thesis
  proof (cases row)
    case (Cons i cells)
    show ?thesis
    proof (cases "m i")
      case None
      then have new: "i \<notin> set ids" by (rule fresh)
      have "(m(i \<mapsto> length ids)) x = Some k \<longleftrightarrow> k < Suc (length ids) \<and> (ids @ [i]) ! k = x" for x k
        using m [of x k] new None by (auto simp: nth_append less_Suc_eq)
      then show ?thesis using label ok new by (simp add: Cons None fields ids_ok_def)
    qed (use ok Cons in \<open>simp add: fields\<close>)
  qed (use ok in simp)
qed

lemma ids_ok_collect: "ids_ok (collect_symbol_nodes store)"
proof -
  have "ids_ok (collect_label store label st)" if "label \<in> set CLUSTER_NODE_LABELS" "ids_ok st" for label st
    using that by (auto simp: collect_label_def intro!: fold_invariant [where P = ids_ok] ids_ok_collect_row split: sum.splits)
  then show ?thesis
    unfolding collect_symbol_nodes_def by (intro fold_invariant [where P = ids_ok]) (auto simp: ids_ok_def)
qed

lemma undirected_edge_row:
  assumes ids: "\<And>x k. ids x = Some k \<Longrightarrow> k < n" and st: "length (fst st) = n \<and> undirected (fst st)"
  shows "length (fst (edge_row F ids w row st)) = n \<and> undirected (fst (edge_row F ids w row st))"
proof (cases st)
  case fields: (Pair nb tw)
  show ?thesis
  proof (cases "\<exists>x y cells. row = x # y # cells")
    case True
    then show ?thesis using st ids by (auto simp: fields intro!: undirected_push split: option.splits)
  next
    case False
    then have "edge_row F ids w row st = st" by (cases row rule: remdups_adj.cases) (auto simp: fields)
    then show ?thesis using st by simp
  qed
qed

lemma undirected_collect:
  assumes ids: "\<And>x k. ids x = Some k \<Longrightarrow> k < n"
  shows "length (fst (collect_weighted_edges F store ids n)) = n \<and> undirected (fst (collect_weighted_edges F store ids n))"
proof -
  define P where "P st \<longleftrightarrow> length (fst st) = n \<and> undirected (fst st)" for st :: "'a WeightedAdjacency"
  have edge: "P (edge_row F ids w row st)" if "P st" for w row st
    using undirected_edge_row [of ids n st, OF ids] that by (simp add: P_def)
  have "P (edge_table F store ids t st)" if "P st" for t st
    by (cases t) (use that in
      \<open>simp add: Let_def fold_invariant [where P = P] edge split: sum.splits\<close>)
  then have "P (collect_weighted_edges F store ids n)"
    unfolding collect_weighted_edges_def by (intro fold_invariant [where P = P]) (auto simp: P_def)
  then show ?thesis by (simp add: P_def)
qed

text \<open>The graph of every store, whatever it answers: one label and one neighbour list per node, undirected.\<close>

definition adjacency_ok :: "'f Adjacency \<Rightarrow> bool" where
  "adjacency_ok adj \<longleftrightarrow> ids_ok (node_ids adj, node_labels adj, id_to_idx adj)
     \<and> length (adj_neighbors adj) = length (node_ids adj) \<and> undirected (adj_neighbors adj)"

lemma extract_adjacency_ok: "adjacency_ok (extract_adjacency F store)"
proof -
  obtain ids labels m where c: "collect_symbol_nodes store = (ids, labels, m)" by (rule prod_cases3)
  have ok: "ids_ok (ids, labels, m)" using ids_ok_collect [of store] by (simp add: c)
  then have "k < length ids" if "m x = Some k" for x k using that by (simp add: ids_ok_def)
  from undirected_collect [of m "length ids" F store, OF this] show ?thesis
    using ok by (auto simp: adjacency_ok_def extract_adjacency_def c Let_def split: prod.splits)
qed

end
