(* ===== verification/Louvain.thy ===== *)
theory Louvain
  imports Adjacency
begin

text \<open>
  The Louvain partition, \<open>src/clustering/community_louvain.rs\<close>: \<open>one_level\<close> moves single nodes between
  communities until no move gains, \<open>aggregate_graph\<close> makes one node of each community, and \<open>louvain\<close>
  repeats both until a level merges nothing. A hash map of weights that is read in sorted order is the
  list of its entries in that order. The theorems say that the loop ends, and that its result is a
  partition with the labels \<open>0 .. k - 1\<close>, for any arithmetic \<open>F\<close>.
\<close>

section \<open>Renumbering\<close>

text \<open>The map of the loop, old label to new one, is kept as the list of old labels in the order of their
  first occurrence: the new label of an old one is its position.\<close>

fun position :: "nat \<Rightarrow> nat list \<Rightarrow> nat option" where
  "position c [] = None"
| "position c (d # ds) = (if c = d then Some 0 else map_option Suc (position c ds))"

fun renumber_from :: "nat list \<Rightarrow> nat list \<Rightarrow> nat list" where
  "renumber_from seen [] = []"
| "renumber_from seen (c # cs) =
     (case position c seen of
        Some v \<Rightarrow> v # renumber_from seen cs
      | None \<Rightarrow> length seen # renumber_from (seen @ [c]) cs)"

definition renumber_communities :: "nat list \<Rightarrow> nat list" where
  "renumber_communities comm = renumber_from [] comm"

definition num_communities :: "nat list \<Rightarrow> nat" where
  "num_communities comm = (if comm = [] then 0 else Max (set comm) + 1)"

section \<open>One level\<close>

definition f_sum :: "'f f64 \<Rightarrow> 'f list \<Rightarrow> 'f" where
  "f_sum F xs = foldl (f_add F) (f_lit F 0) xs"

definition node_degrees :: "'f f64 \<Rightarrow> 'f neighbors \<Rightarrow> 'f list" where
  "node_degrees F nb = map (\<lambda>nbrs. f_sum F (map snd nbrs)) nb"

fun add_entry :: "'f f64 \<Rightarrow> nat \<Rightarrow> 'f \<Rightarrow> (nat \<times> 'f) list \<Rightarrow> (nat \<times> 'f) list" where
  "add_entry F c w [] = [(c, f_add F (f_lit F 0) w)]"
| "add_entry F c w ((d, x) # es) =
     (if c = d then (d, f_add F x w) # es
      else if c < d then (c, f_add F (f_lit F 0) w) # (d, x) # es
      else (d, x) # add_entry F c w es)"

definition weights_into :: "'f f64 \<Rightarrow> nat list \<Rightarrow> nat \<Rightarrow> (nat \<times> 'f) list \<Rightarrow> (nat \<times> 'f) list" where
  "weights_into F comm i nbrs =
     fold (\<lambda>(nbr, w) es. if nbr = i then es else add_entry F (comm ! nbr) w es) nbrs []"

definition better :: "'f f64 \<Rightarrow> 'f \<Rightarrow> 'f \<Rightarrow> 'f \<Rightarrow> 'f list \<Rightarrow> nat \<times> 'f \<Rightarrow> nat \<times> 'f \<Rightarrow> nat \<times> 'f" where
  "better F gamma ki two_m sigma_tot = (\<lambda>(c, ki_in_c) (best_c, best_gain).
     let gain = f_sub F ki_in_c (f_div F (f_mul F (f_mul F gamma (sigma_tot ! c)) ki) two_m)
     in if f_gt F gain best_gain then (c, gain) else (best_c, best_gain))"

type_synonym 'f level = "nat list \<times> 'f list \<times> bool"

definition move_node :: "'f f64 \<Rightarrow> 'f neighbors \<Rightarrow> 'f list \<Rightarrow> 'f \<Rightarrow> 'f \<Rightarrow> nat \<Rightarrow> 'f level \<Rightarrow> 'f level" where
  "move_node F nb k two_m gamma i = (\<lambda>(comm, sigma_tot, improved).
     let old_c = comm ! i;
         ki = k ! i;
         ki_in = weights_into F comm i (nb ! i);
         sigma_tot = sigma_tot[old_c := f_sub F (sigma_tot ! old_c) ki];
         ki_in_old = (case map_of ki_in old_c of Some w \<Rightarrow> w | None \<Rightarrow> f_lit F 0);
         gain_old = f_sub F ki_in_old (f_div F (f_mul F (f_mul F gamma (sigma_tot ! old_c)) ki) two_m);
         best_c = fst (fold (better F gamma ki two_m sigma_tot) ki_in (old_c, gain_old))
     in (comm[i := best_c], sigma_tot[best_c := f_add F (sigma_tot ! best_c) ki], improved \<or> best_c \<noteq> old_c))"

primrec level_passes :: "nat \<Rightarrow> 'f f64 \<Rightarrow> 'f neighbors \<Rightarrow> 'f list \<Rightarrow> 'f \<Rightarrow> 'f \<Rightarrow> nat list \<times> 'f list \<Rightarrow> nat list" where
  "level_passes 0 F nb k two_m gamma st = fst st"
| "level_passes (Suc passes) F nb k two_m gamma st =
     (let (comm, sigma_tot, improved) =
        fold (move_node F nb k two_m gamma) [0..<length nb] (fst st, snd st, False)
      in if improved then level_passes passes F nb k two_m gamma (comm, sigma_tot) else comm)"

definition max_passes :: nat where "max_passes = 100"

definition one_level :: "'f f64 \<Rightarrow> 'f neighbors \<Rightarrow> 'f \<Rightarrow> 'f \<Rightarrow> nat list" where
  "one_level F nb m gamma =
     (let two_m = f_mul F (f_lit F 2) m;
          k = node_degrees F nb
      in renumber_communities (level_passes max_passes F nb k two_m gamma ([0..<length nb], k)))"

section \<open>The levels\<close>

definition aggregate_graph :: "'f f64 \<Rightarrow> 'f neighbors \<Rightarrow> nat list \<Rightarrow> nat \<Rightarrow> 'f neighbors" where
  "aggregate_graph F nb comm num_comms =
     fold (\<lambda>i weights. weights[comm ! i :=
        fold (\<lambda>(j, w). add_entry F (comm ! j) w) (nb ! i) (weights ! (comm ! i))])
       [0..<length nb] (replicate num_comms [])"

lemma length_renumber_from [simp]: "length (renumber_from seen cs) = length cs"
  by (induction cs arbitrary: seen) (auto split: option.splits)

lemma length_renumber [simp]: "length (renumber_communities comm) = length comm"
  by (simp add: renumber_communities_def)

lemma position_None: "position c ds = None \<longleftrightarrow> c \<notin> set ds"
  by (induction ds) auto

lemma position_Some: "position c ds = Some v \<Longrightarrow> v < length ds \<and> ds ! v = c"
  by (induction ds arbitrary: v) (auto split: if_splits)

text \<open>The first occurrences of the labels, and the renumbered list in terms of them.\<close>

fun firsts :: "nat list \<Rightarrow> nat list \<Rightarrow> nat list" where
  "firsts seen [] = seen"
| "firsts seen (c # cs) = firsts (if c \<in> set seen then seen else seen @ [c]) cs"

lemma firsts_prefix: "\<exists>r. firsts seen cs = seen @ r"
  by (induction cs arbitrary: seen) (auto, metis append.assoc)

lemma distinct_firsts [simp]: "distinct seen \<Longrightarrow> distinct (firsts seen cs)"
  by (induction cs arbitrary: seen) auto

lemma set_firsts [simp]: "set (firsts seen cs) = set seen \<union> set cs"
  by (induction cs arbitrary: seen) auto

lemma position_append: "position c xs = Some v \<Longrightarrow> position c (xs @ ys) = Some v"
  by (induction xs arbitrary: v) (auto split: if_splits)

lemma position_snoc: "c \<notin> set xs \<Longrightarrow> position c (xs @ c # ys) = Some (length xs)"
  by (induction xs) auto

lemma renumber_from_eq: "renumber_from seen cs = map (\<lambda>c. the (position c (firsts seen cs))) cs"
proof (induction cs arbitrary: seen)
  case (Cons c cs)
  show ?case
  proof (cases "position c seen")
    case (Some v)
    then have "c \<in> set seen" using position_None [of c seen] by auto
    moreover obtain r where "firsts seen cs = seen @ r" using firsts_prefix by blast
    ultimately show ?thesis using Some position_append [OF Some, of r] by (simp add: Cons)
  next
    case None
    then have "c \<notin> set seen" by (simp add: position_None)
    moreover obtain r where "firsts (seen @ [c]) cs = seen @ c # r"
      using firsts_prefix [of "seen @ [c]" cs] by auto
    ultimately show ?thesis using None position_snoc [of c seen r] by (simp add: Cons)
  qed
qed simp

lemma renumber_eq: "renumber_communities comm = map (\<lambda>c. the (position c (firsts [] comm))) comm"
  by (simp add: renumber_communities_def renumber_from_eq)

lemma position_nth: "distinct ds \<Longrightarrow> v < length ds \<Longrightarrow> position (ds ! v) ds = Some v"
proof (cases "position (ds ! v) ds")
  case None
  assume "v < length ds"
  then show ?thesis using None by (simp add: position_None)
next
  case (Some u)
  assume "distinct ds" "v < length ds"
  with position_Some [OF Some] Some show ?thesis by (metis nth_eq_iff_index_eq)
qed

lemma position_inj: "c \<in> set ds \<Longrightarrow> d \<in> set ds \<Longrightarrow> the (position c ds) = the (position d ds) \<longleftrightarrow> c = d"
  by (metis option.exhaust_sel position_None position_Some)

text \<open>Renumbering keeps the partition, and its labels are \<open>0 .. k - 1\<close> for the \<open>k\<close> labels there are.\<close>

lemma renumber_same: "i < length comm \<Longrightarrow> j < length comm \<Longrightarrow>
    renumber_communities comm ! i = renumber_communities comm ! j \<longleftrightarrow> comm ! i = comm ! j"
  by (simp add: renumber_eq position_inj)

lemma set_renumber: "set (renumber_communities comm) = {..<card (set comm)}"
proof -
  define ds where "ds = firsts [] comm"
  have ds: "distinct ds" "set ds = set comm" by (simp_all add: ds_def)
  then have len: "length ds = card (set comm)" by (metis distinct_card)
  have "(\<lambda>c. the (position c ds)) ` set ds = {..<length ds}"
  proof (rule set_eqI)
    fix v show "v \<in> (\<lambda>c. the (position c ds)) ` set ds \<longleftrightarrow> v \<in> {..<length ds}"
      using position_nth [OF ds(1)] by (force simp: in_set_conv_nth image_iff)
  qed
  then show ?thesis by (simp add: renumber_eq ds_def [symmetric] ds(2) [symmetric] len)
qed

lemma num_communities_contiguous: "set comm = {..<k} \<Longrightarrow> num_communities comm = k"
proof (cases k)
  case (Suc n)
  assume "set comm = {..<k}"
  then have eq: "set comm = {..<Suc n}" using Suc by simp
  have "Max {..<Suc n} = n" by (rule Max_eqI) auto
  moreover have "comm \<noteq> []" using eq by (metis empty_iff lessI lessThan_iff list.set(1))
  ultimately show ?thesis using Suc eq by (simp add: num_communities_def)
qed (simp add: num_communities_def)

lemma num_communities_renumber [simp]: "num_communities (renumber_communities comm) = card (set comm)"
  by (rule num_communities_contiguous [OF set_renumber])

lemma length_one_level [simp]: "length (one_level F nb m gamma) = length nb"
proof -
  have move: "length (fst (move_node F nb k two_m gamma i st)) = length (fst st)" for k two_m i st
    by (cases st) (simp add: move_node_def Let_def)
  have "length (fst (fold (move_node F nb k two_m gamma) is st)) = length (fst st)" for k two_m "is" st
    by (induction "is" arbitrary: st) (simp_all add: move)
  note moves = this
  have "length (level_passes n F nb k two_m gamma st) = length (fst st)" for n k two_m st
  proof (induction n arbitrary: st)
    case (Suc n)
    obtain c t b where c: "fold (move_node F nb k two_m gamma) [0..<length nb] (fst st, snd st, False) = (c, t, b)"
      by (rule prod_cases3)
    then have "length c = length (fst st)" using moves [of k two_m "[0..<length nb]" "(fst st, snd st, False)"] by simp
    then show ?case using Suc by (simp only: level_passes.simps c Let_def prod.case) simp
  qed simp
  then show ?thesis by (simp add: one_level_def Let_def)
qed

lemma one_level_contiguous:
  "set (one_level F nb m gamma) = {..<num_communities (one_level F nb m gamma)}"
  unfolding one_level_def Let_def by (simp add: set_renumber)

lemma num_communities_one_level: "num_communities (one_level F nb m gamma) \<le> length nb"
proof -
  have "card (set (one_level F nb m gamma)) \<le> length nb"
    using card_length [of "one_level F nb m gamma"] by simp
  then show ?thesis by (subst (asm) one_level_contiguous) simp
qed

lemma length_aggregate [simp]: "length (aggregate_graph F nb comm num_comms) = num_comms"
  unfolding aggregate_graph_def by (rule fold_invariant [where P = "\<lambda>w. length w = num_comms"]) auto

text \<open>The loop ends: a level that is not the last one has fewer nodes than the one before.\<close>

function louvain_loop :: "'f f64 \<Rightarrow> 'f \<Rightarrow> 'f \<Rightarrow> 'f neighbors \<Rightarrow> nat list \<Rightarrow> nat list" where
  "louvain_loop F m gamma level_neighbors node_to_comm =
     (let comm = one_level F level_neighbors m gamma;
          num_comms = num_communities comm;
          node_to_comm = map (\<lambda>c. comm ! c) node_to_comm
      in if num_comms = length level_neighbors then node_to_comm
         else louvain_loop F m gamma (aggregate_graph F level_neighbors comm num_comms) node_to_comm)"
  by pat_completeness auto

termination louvain_loop
proof (relation "measure (\<lambda>(F, m, gamma, level_neighbors, node_to_comm). length level_neighbors)", goal_cases)
  case (2 F m gamma nb node_to_comm comm num_comms node_to_comm')
  then show ?case using num_communities_one_level [of F nb m gamma] by simp
qed simp

declare louvain_loop.simps [simp del]

definition compute_modularity :: "'f f64 \<Rightarrow> 'f neighbors \<Rightarrow> nat list \<Rightarrow> 'f list \<Rightarrow> 'f \<Rightarrow> 'f" where
  "compute_modularity F nb comm k m =
     (if f_eq F m (f_lit F 0) then f_lit F 0
      else let two_m = f_mul F (f_lit F 2) m;
               q = fold (\<lambda>i q. fold (\<lambda>(j, w) q.
                     if comm ! i = comm ! j
                     then f_add F q (f_sub F w (f_div F (f_mul F (k ! i) (k ! j)) two_m)) else q) (nb ! i) q)
                   [0..<length nb] (f_lit F 0)
           in f_div F q two_m)"

definition louvain :: "'f f64 \<Rightarrow> 'f Adjacency \<Rightarrow> 'f \<Rightarrow> nat list \<times> 'f" where
  "louvain F adj gamma =
     (let n = length (node_ids adj); m = total_weight adj
      in if n = 0 then ([], f_lit F 0)
         else if f_eq F m (f_lit F 0) then ([0..<n], f_lit F 0)
         else let node_to_comm = louvain_loop F m gamma (adj_neighbors adj) [0..<n]
              in (node_to_comm, compute_modularity F (adj_neighbors adj) node_to_comm
                    (node_degrees F (adj_neighbors adj)) m))"

section \<open>What the partition is\<close>

text \<open>One turn of the loop: the labels of the level are applied, and the loop ends or goes on.\<close>

lemma louvain_loop_induct:
  assumes last: "\<And>nb comm. P nb comm (map (\<lambda>c. one_level F nb m gamma ! c) comm)"
    and step: "\<And>nb comm. num_communities (one_level F nb m gamma) < length nb \<Longrightarrow>
      P (aggregate_graph F nb (one_level F nb m gamma) (num_communities (one_level F nb m gamma)))
        (map (\<lambda>c. one_level F nb m gamma ! c) comm)
        (louvain_loop F m gamma (aggregate_graph F nb (one_level F nb m gamma) (num_communities (one_level F nb m gamma)))
          (map (\<lambda>c. one_level F nb m gamma ! c) comm)) \<Longrightarrow>
      P nb comm (louvain_loop F m gamma (aggregate_graph F nb (one_level F nb m gamma) (num_communities (one_level F nb m gamma)))
          (map (\<lambda>c. one_level F nb m gamma ! c) comm))"
  shows "P nb comm (louvain_loop F m gamma nb comm)"
proof (induction "length nb" arbitrary: nb comm rule: less_induct)
  case less
  define c where "c = one_level F nb m gamma"
  show ?case
  proof (cases "num_communities c = length nb")
    case True
    then have "louvain_loop F m gamma nb comm = map (\<lambda>x. c ! x) comm"
      by (subst louvain_loop.simps) (simp add: Let_def c_def)
    then show ?thesis using last [of nb comm] by (simp add: c_def)
  next
    case False
    then have lt: "num_communities c < length nb"
      using num_communities_one_level [of F nb m gamma] by (simp add: c_def)
    have "louvain_loop F m gamma nb comm
        = louvain_loop F m gamma (aggregate_graph F nb c (num_communities c)) (map (\<lambda>x. c ! x) comm)"
      using False by (subst louvain_loop.simps) (simp add: Let_def c_def)
    then show ?thesis using step [of nb comm] less [of "aggregate_graph F nb c (num_communities c)" "map (\<lambda>x. c ! x) comm"] lt
      by (simp add: c_def)
  qed
qed

lemma louvain_loop_length [simp]: "length (louvain_loop F m gamma nb comm) = length comm"
  by (rule louvain_loop_induct [where P = "\<lambda>nb comm r. length r = length comm"]) simp_all

text \<open>A level only merges: nodes in one community stay in one.\<close>

lemma louvain_loop_merges:
  assumes "i < length comm" "j < length comm" "comm ! i = comm ! j"
  shows "louvain_loop F m gamma nb comm ! i = louvain_loop F m gamma nb comm ! j"
proof -
  have "i < length comm \<and> j < length comm \<and> comm ! i = comm ! j \<longrightarrow>
      louvain_loop F m gamma nb comm ! i = louvain_loop F m gamma nb comm ! j"
    by (rule louvain_loop_induct
        [where P = "\<lambda>nb comm r. i < length comm \<and> j < length comm \<and> comm ! i = comm ! j \<longrightarrow> r ! i = r ! j"]) simp_all
  then show ?thesis using assms by simp
qed

text \<open>Each level has as many nodes as the one before has communities, so every label names one of them.\<close>

lemma louvain_loop_contiguous:
  assumes "set comm = {..<length nb}"
  shows "\<exists>k. set (louvain_loop F m gamma nb comm) = {..<k}"
proof -
  have set_map: "set (map (\<lambda>c. one_level F nb m gamma ! c) comm) = {..<num_communities (one_level F nb m gamma)}"
    if "set comm = {..<length nb}" for nb comm
  proof -
    have "(\<lambda>x. c ! x) ` {..<length c} = set c" for c :: "nat list" by (auto simp: set_conv_nth)
    from this [of "one_level F nb m gamma"] show ?thesis
      using that one_level_contiguous [of F nb m gamma] by simp
  qed
  have "set comm = {..<length nb} \<longrightarrow> (\<exists>k. set (louvain_loop F m gamma nb comm) = {..<k})"
    by (rule louvain_loop_induct [where P = "\<lambda>nb comm r. set comm = {..<length nb} \<longrightarrow> (\<exists>k. set r = {..<k})"])
      (use set_map in \<open>auto simp del: set_map\<close>)
  then show ?thesis using assms by simp
qed

lemma louvain_partition:
  assumes "length (adj_neighbors adj) = length (node_ids adj)"
  shows "length (fst (louvain F adj gamma)) = length (node_ids adj)"
    and "set (fst (louvain F adj gamma)) = {..<num_communities (fst (louvain F adj gamma))}"
proof -
  let ?n = "length (node_ids adj)"
  show "length (fst (louvain F adj gamma)) = ?n"
    by (simp add: louvain_def Let_def)
  have upt: "set [0..<?n] = {..<?n}" by auto
  have "\<exists>k. set (fst (louvain F adj gamma)) = {..<k}"
    using louvain_loop_contiguous [of "[0..<?n]" "adj_neighbors adj" F "total_weight adj" gamma] assms upt
    by (auto simp: louvain_def Let_def simp del: set_upt)
  then show "set (fst (louvain F adj gamma)) = {..<num_communities (fst (louvain F adj gamma))}"
    by (metis num_communities_contiguous)
qed

end
