(* ===== verification/Communities.thy ===== *)
theory Communities
  imports Louvain Closure
begin

text \<open>
  The repair of a partition, \<open>src/clustering/community_repair.rs\<close>, and the memberships that are stored and
  read back, \<open>src/clustering/community_persist.rs\<close> and \<open>src/clustering/community_membership.rs\<close>. A
  community that is not connected is split: its first component keeps the label, every other one gets a
  new label. The theorem is the exact relation: two nodes end in one community when they were in one and
  a path of graph edges inside it joins them.
\<close>

section \<open>The components of a community\<close>

fun push_unvisited :: "nat list \<Rightarrow> nat list \<Rightarrow> nat \<Rightarrow> (nat \<times> 'f) list \<Rightarrow> nat list \<times> nat set \<Rightarrow> nat list \<times> nat set" where
  "push_unvisited members comm c [] st = st"
| "push_unvisited members comm c ((nbr, w) # nbrs) (queue, visited) =
     (if nbr \<in> set members \<and> comm ! nbr = c \<and> nbr \<notin> visited
      then push_unvisited members comm c nbrs (queue @ [nbr], insert nbr visited)
      else push_unvisited members comm c nbrs (queue, visited))"

text \<open>What the pushes add: the neighbours that are members and were not visited, once each.\<close>

lemma push_unvisited_adds:
  "push_unvisited members comm c nbrs (queue, visited) = (queue', visited') \<Longrightarrow>
     \<exists>new. queue' = queue @ new \<and> visited' = visited \<union> set new \<and> distinct new \<and> set new \<inter> visited = {}
       \<and> set new \<union> visited = {j \<in> fst ` set nbrs. j \<in> set members \<and> comm ! j = c} \<union> visited"
proof (induction nbrs arbitrary: queue visited)
  case (Cons e nbrs)
  obtain nbr w where e: "e = (nbr, w)" by fastforce
  show ?case
  proof (cases "nbr \<in> set members \<and> comm ! nbr = c \<and> nbr \<notin> visited")
    case True
    with Cons(2) e have "push_unvisited members comm c nbrs (queue @ [nbr], insert nbr visited) = (queue', visited')" by simp
    from Cons(1) [OF this] obtain new where new: "queue' = (queue @ [nbr]) @ new" "visited' = insert nbr visited \<union> set new"
      "distinct new" "set new \<inter> insert nbr visited = {}"
      "set new \<union> insert nbr visited = {j \<in> fst ` set nbrs. j \<in> set members \<and> comm ! j = c} \<union> insert nbr visited" by blast
    show ?thesis
      by (rule exI [of _ "nbr # new"]) (use new True e in auto)
  next
    case False
    with Cons(2) e have "push_unvisited members comm c nbrs (queue, visited) = (queue', visited')" by auto
    from Cons(1) [OF this] show ?thesis using False e by auto
  qed
qed auto

function component_loop :: "nat list \<Rightarrow> 'f neighbors \<Rightarrow> nat list \<Rightarrow> nat \<Rightarrow> nat list \<Rightarrow> nat set \<Rightarrow> nat list \<Rightarrow> nat list \<times> nat set" where
  "component_loop members nb comm c [] visited component = (component, visited)"
| "component_loop members nb comm c (node # queue) visited component =
     (let (queue, visited) = push_unvisited members comm c (nb ! node) (queue, visited)
      in component_loop members nb comm c queue visited (component @ [node]))"
  by pat_completeness auto

lemma card_push:
  assumes "push_unvisited members comm c nbrs (queue, visited) = (queue', visited')"
  shows "card (set members - visited') + length queue' = card (set members - visited) + length queue"
proof -
  from push_unvisited_adds [OF assms] obtain new where new: "queue' = queue @ new" "visited' = visited \<union> set new"
    "distinct new" "set new \<inter> visited = {}"
    "set new \<union> visited = {j \<in> fst ` set nbrs. j \<in> set members \<and> comm ! j = c} \<union> visited" by blast
  then have sub: "set new \<subseteq> set members - visited" by auto
  have "set members - visited' = (set members - visited) - set new" using new(2) by auto
  then have "card (set members - visited') = card (set members - visited) - length new"
    using sub new(3) by (simp add: card_Diff_subset distinct_card)
  moreover have "length new \<le> card (set members - visited)"
    using sub new(3) by (metis card_mono distinct_card finite_Diff List.finite_set)
  ultimately show ?thesis using new(1) by simp
qed

termination component_loop
  by (relation "measure (\<lambda>(members, nb, comm, c, queue, visited, component). card (set members - visited) + length queue)")
    (auto dest!: card_push [OF sym])

fun components_from :: "nat list \<Rightarrow> 'f neighbors \<Rightarrow> nat list \<Rightarrow> nat \<Rightarrow> nat list \<Rightarrow> nat set \<Rightarrow> nat list list \<Rightarrow> nat list list" where
  "components_from members nb comm c [] visited components = components"
| "components_from members nb comm c (start # starts) visited components =
     (if start \<in> visited then components_from members nb comm c starts visited components
      else let (component, visited) = component_loop members nb comm c [start] (insert start visited) []
           in components_from members nb comm c starts visited (components @ [component]))"

definition connected_components_within :: "nat list \<Rightarrow> 'f neighbors \<Rightarrow> nat list \<Rightarrow> nat \<Rightarrow> nat list list" where
  "connected_components_within members nb comm c = components_from members nb comm c members {} []"

section \<open>The repair\<close>

definition relabel :: "nat list \<Rightarrow> nat list \<times> nat \<Rightarrow> nat list \<times> nat" where
  "relabel component = (\<lambda>(comm, next_comm).
     (fold (\<lambda>node comm. comm[node := next_comm]) component comm, next_comm + 1))"

definition repair_community :: "'f neighbors \<Rightarrow> nat \<Rightarrow> nat list \<times> nat \<Rightarrow> nat list \<times> nat" where
  "repair_community nb c = (\<lambda>(comm, next_comm).
     let members = filter (\<lambda>i. comm ! i = c) [0..<length comm]
     in if length members \<le> 1 then (comm, next_comm)
        else let components = connected_components_within members nb comm c
             in if length components \<le> 1 then (comm, next_comm)
                else fold relabel (drop 1 components) (comm, next_comm))"

definition repair_c2 :: "'f neighbors \<Rightarrow> nat list \<Rightarrow> nat list" where
  "repair_c2 nb comm =
     (let num_comms = num_communities comm
      in renumber_communities (fst (fold (repair_community nb) [0..<num_comms] (comm, num_comms))))"

section \<open>The search finds the connected component\<close>

definition comp_succ :: "nat list \<Rightarrow> 'f neighbors \<Rightarrow> nat list \<Rightarrow> nat \<Rightarrow> nat \<Rightarrow> nat set" where
  "comp_succ members nb comm c x = {j \<in> fst ` set (nb ! x). j \<in> set members \<and> comm ! j = c}"

lemma component_loop_inv:
  assumes "component_loop members nb comm c queue visited component = (C, V)"
  shows "visited \<subseteq> V" "set C = set component \<union> set queue \<union> (V - visited)"
    "(\<And>x. x \<in> set component \<Longrightarrow> comp_succ members nb comm c x \<subseteq> visited) \<Longrightarrow> x \<in> set C \<Longrightarrow> comp_succ members nb comm c x \<subseteq> V"
    "set queue \<subseteq> T \<Longrightarrow> (\<And>x. x \<in> T \<Longrightarrow> comp_succ members nb comm c x \<subseteq> T) \<Longrightarrow> V - visited \<subseteq> T"
  using assms
proof (induction members nb comm c queue visited component arbitrary: x rule: component_loop.induct)
  case (1 members nb comm c visited component)
  { case 1 then show ?case by simp next
    case 2 then show ?case by simp next
    case 3 then show ?case by auto next
    case 4 then show ?case by simp }
next
  case (2 members nb comm c node queue visited component)
  obtain q v where qv: "push_unvisited members comm c (nb ! node) (queue, visited) = (q, v)" by fastforce
  from push_unvisited_adds [OF qv] obtain new where new: "q = queue @ new" "v = visited \<union> set new"
      "set new \<inter> visited = {}" "set new \<union> visited = comp_succ members nb comm c node \<union> visited"
    unfolding comp_succ_def by blast
  note IH = 2 [OF qv [symmetric] refl]
  have rec: "component_loop members nb comm c q v (component @ [node]) = (C, V)"
    if "component_loop members nb comm c (node # queue) visited component = (C, V)"
    using that by (simp add: qv)
  { case 1 then show ?case using IH(1) [OF rec] new by auto next
    case 2 then show ?case using IH(1,2) [OF rec] new by auto next
    case 3 then show ?case using IH(3) [of x, OF _ _ rec] new by auto next
    case 4
    have "comp_succ members nb comm c node \<subseteq> T" using 4(1) by (intro 4(2)) simp
    then have sub: "set new \<subseteq> T" using new(3,4) by blast
    then have "V - v \<subseteq> T" using 4(1) by (intro IH(4) [OF _ 4(2) rec [OF 4(3)]]) (auto simp: new(1))
    then show ?case using sub new(2) by blast }
qed

definition component_of :: "nat list \<Rightarrow> 'f neighbors \<Rightarrow> nat list \<Rightarrow> nat \<Rightarrow> nat \<Rightarrow> nat set" where
  "component_of members nb comm c start = set (fst (component_loop members nb comm c [start] {start} []))"

interpretation component: closure_of "{start}" "component_of members nb comm c start" "comp_succ members nb comm c"
  for start members nb comm c
proof -
  obtain C V where CV: "component_loop members nb comm c [start] {start} [] = (C, V)" by fastforce
  note inv = component_loop_inv [OF CV]
  have C: "component_of members nb comm c start = set C" by (simp only: component_of_def CV fst_conv)
  have set_C: "set C = V" using inv(1,2) by auto
  show "closure_of {start} (component_of members nb comm c start) (comp_succ members nb comm c)"
  proof
    show "{start} \<subseteq> component_of members nb comm c start" using inv(2) by (simp add: C)
    show "comp_succ members nb comm c x \<subseteq> component_of members nb comm c start"
      if "x \<in> component_of members nb comm c start" for x
      using that inv(3) [of x] by (simp add: C set_C)
    show "component_of members nb comm c start \<subseteq> T"
      if "{start} \<subseteq> T" "\<And>x. x \<in> T \<Longrightarrow> comp_succ members nb comm c x \<subseteq> T" for T
      using that inv(4) [of T] set_C by (auto simp: C)
  qed
qed

text \<open>With the nodes of other components already visited, the search still finds the whole component.\<close>

lemma component_loop_visited:
  assumes loop: "component_loop members nb comm c [start] (insert start V0) [] = (C, V)"
    and start: "start \<in> set members" "comm ! start = c" "start \<notin> V0"
    and closed: "\<And>x. x \<in> V0 \<Longrightarrow> comp_succ members nb comm c x \<subseteq> V0"
    and sym: "\<And>x y. x \<in> set members \<Longrightarrow> comm ! x = c \<Longrightarrow> y \<in> comp_succ members nb comm c x \<Longrightarrow> x \<in> comp_succ members nb comm c y"
  shows "set C = component_of members nb comm c start" "V = V0 \<union> set C" "set C \<inter> V0 = {}"
proof -
  note inv = component_loop_inv [OF loop]
  show V: "V = V0 \<union> set C" and disj: "set C \<inter> V0 = {}" using inv(1,2) start(3) by auto
  have start_in: "start \<in> component_of members nb comm c start" using component.result_init by blast
  have "V - insert start V0 \<subseteq> component_of members nb comm c start"
    by (rule inv(4)) (use start_in component.result_closed in \<open>simp_all\<close>)
  then have le: "set C \<subseteq> component_of members nb comm c start" using inv(2) start_in by auto
  have member: "x \<in> set members \<and> comm ! x = c" if "x \<in> set C" for x
  proof -
    have "component_of members nb comm c start \<subseteq> {x \<in> set members. comm ! x = c}"
      by (rule component.result_least) (use start in \<open>auto simp: comp_succ_def\<close>)
    then show ?thesis using that le by blast
  qed
  have "component_of members nb comm c start \<subseteq> set C"
  proof (rule component.result_least)
    show "{start} \<subseteq> set C" using inv(2) by simp
    fix x assume x: "x \<in> set C"
    show "comp_succ members nb comm c x \<subseteq> set C"
    proof
      fix y assume y: "y \<in> comp_succ members nb comm c x"
      then have "y \<in> V" using inv(3) [OF _ x] by auto
      moreover have "y \<notin> V0" using sym [OF _ _ y] closed [of y] member [OF x] x disj by auto
      ultimately show "y \<in> set C" using V by simp
    qed
  qed
  with le show "set C = component_of members nb comm c start" by simp
qed

section \<open>The list of components\<close>

fun disjoint_lists :: "nat list list \<Rightarrow> bool" where
  "disjoint_lists [] = True"
| "disjoint_lists (D # Ds) = ((\<forall>E \<in> set Ds. set D \<inter> set E = {}) \<and> disjoint_lists Ds)"

lemma disjoint_lists_snoc: "disjoint_lists (Ds @ [D]) \<longleftrightarrow> disjoint_lists Ds \<and> (\<forall>E \<in> set Ds. set D \<inter> set E = {})"
  by (induction Ds) auto

lemma disjoint_listsD: "disjoint_lists Ds \<Longrightarrow> D \<in> set Ds \<Longrightarrow> E \<in> set Ds \<Longrightarrow> x \<in> set D \<Longrightarrow> x \<in> set E \<Longrightarrow> set D = set E"
  by (induction Ds) auto

definition components_inv :: "nat list \<Rightarrow> 'f neighbors \<Rightarrow> nat list \<Rightarrow> nat \<Rightarrow> nat list list \<Rightarrow> bool" where
  "components_inv members nb comm c Ds \<longleftrightarrow> disjoint_lists Ds
     \<and> (\<forall>D \<in> set Ds. \<exists>s \<in> set members. set D = component_of members nb comm c s)"

lemma components_from_inv:
  assumes sym: "\<And>x y. x \<in> set members \<Longrightarrow> comm ! x = c \<Longrightarrow> y \<in> comp_succ members nb comm c x \<Longrightarrow> x \<in> comp_succ members nb comm c y"
    and comm: "\<And>x. x \<in> set members \<Longrightarrow> comm ! x = c"
    and "set starts \<subseteq> set members" "visited = \<Union> (set ` set Ds)" "components_inv members nb comm c Ds"
  shows "components_inv members nb comm c (components_from members nb comm c starts visited Ds)
    \<and> set starts \<union> \<Union> (set ` set Ds) \<subseteq> \<Union> (set ` set (components_from members nb comm c starts visited Ds))"
  using assms(3-5)
proof (induction starts arbitrary: visited Ds)
  case (Cons start starts)
  show ?case
  proof (cases "start \<in> visited")
    case True
    then show ?thesis using Cons(1) [OF _ Cons(3,4)] Cons(2,3) by auto
  next
    case False
    obtain C V where CV: "component_loop members nb comm c [start] (insert start visited) [] = (C, V)" by fastforce
    have closed: "comp_succ members nb comm c x \<subseteq> visited" if "x \<in> visited" for x
    proof -
      obtain D where D: "D \<in> set Ds" "x \<in> set D" using \<open>x \<in> visited\<close> Cons(3) by auto
      then obtain s where "set D = component_of members nb comm c s" using Cons(4) unfolding components_inv_def by blast
      then have "comp_succ members nb comm c x \<subseteq> set D" using D(2) component.result_closed by blast
      then show ?thesis using D(1) Cons(3) by blast
    qed
    have start: "start \<in> set members" using Cons(2) by simp
    have comp: "set C = component_of members nb comm c start" "V = visited \<union> set C" "set C \<inter> visited = {}"
      by (rule component_loop_visited [OF CV start comm [OF start] False]; (fact closed | fact sym))+
    have "components_inv members nb comm c (Ds @ [C])"
    proof -
      have "set C \<inter> set E = {}" if "E \<in> set Ds" for E using comp(3) Cons(3) that by blast
      then have "disjoint_lists (Ds @ [C])"
        using conjunct1 [OF Cons(4) [unfolded components_inv_def]] by (simp only: disjoint_lists_snoc) simp
      moreover have "\<exists>s \<in> set members. set E = component_of members nb comm c s" if "E \<in> set (Ds @ [C])" for E
        proof (cases "E = C")
        case True
        then show ?thesis using comp(1) start by blast
      next
        case False
        then show ?thesis using that conjunct2 [OF Cons(4) [unfolded components_inv_def]] by simp
      qed
      ultimately show ?thesis unfolding components_inv_def by (intro conjI ballI)
    qed
    then have "components_inv members nb comm c (components_from members nb comm c starts V (Ds @ [C]))
        \<and> set starts \<union> \<Union> (set ` set (Ds @ [C])) \<subseteq> \<Union> (set ` set (components_from members nb comm c starts V (Ds @ [C])))"
      using Cons(2,3) comp(2) by (intro Cons(1)) auto
    moreover have "components_from members nb comm c (start # starts) visited Ds = components_from members nb comm c starts V (Ds @ [C])"
      using False CV by (simp del: component_loop.simps)
    moreover have "start \<in> set C" using comp(1) component.result_init [of start members nb comm c] by simp
    ultimately show ?thesis by auto
  qed
qed simp

text \<open>The components of a community: disjoint, all its members, and each one the component of a member.\<close>

lemma connected_components:
  assumes sym: "\<And>x y. x \<in> set members \<Longrightarrow> comm ! x = c \<Longrightarrow> y \<in> comp_succ members nb comm c x \<Longrightarrow> x \<in> comp_succ members nb comm c y"
    and comm: "\<And>x. x \<in> set members \<Longrightarrow> comm ! x = c"
  defines "Ds \<equiv> connected_components_within members nb comm c"
  shows "disjoint_lists Ds" "\<And>D. D \<in> set Ds \<Longrightarrow> \<exists>s \<in> set members. set D = component_of members nb comm c s"
    "\<Union> (set ` set Ds) = set members"
proof -
  have inv: "components_inv members nb comm c Ds \<and> set members \<subseteq> \<Union> (set ` set Ds)"
    using components_from_inv [OF sym comm, of members "{}" "[]"]
    by (simp add: Ds_def connected_components_within_def components_inv_def)
  then show "disjoint_lists Ds" and each: "\<And>D. D \<in> set Ds \<Longrightarrow> \<exists>s \<in> set members. set D = component_of members nb comm c s"
    by (simp_all add: components_inv_def)
  have "component_of members nb comm c s \<subseteq> set members" if "s \<in> set members" for s
    by (rule component.result_least) (use that in \<open>auto simp: comp_succ_def\<close>)
  then show "\<Union> (set ` set Ds) = set members" using inv each by blast
qed

section \<open>The relabelled partition\<close>

lemma fold_assign:
  "length (fold (\<lambda>node comm. comm[node := v]) ns comm) = length comm"
  "x < length comm \<Longrightarrow> fold (\<lambda>node comm. comm[node := v]) ns comm ! x = (if x \<in> set ns then v else comm ! x)"
  by (induction ns arbitrary: comm) (auto simp: nth_list_update)

lemma fold_relabel:
  "disjoint_lists Ds \<Longrightarrow> fold relabel Ds (comm, next_comm) = (comm', next_comm') \<Longrightarrow>
     length comm' = length comm \<and> next_comm' = next_comm + length Ds
     \<and> (\<forall>x k. x < length comm \<longrightarrow> k < length Ds \<longrightarrow> x \<in> set (Ds ! k) \<longrightarrow> comm' ! x = next_comm + k)
     \<and> (\<forall>x < length comm. x \<notin> \<Union> (set ` set Ds) \<longrightarrow> comm' ! x = comm ! x)"
proof (induction Ds arbitrary: comm next_comm)
  case (Cons D Ds)
  define comm1 where "comm1 = fold (\<lambda>node comm. comm[node := next_comm]) D comm"
  have comm1: "length comm1 = length comm"
    "x < length comm \<Longrightarrow> comm1 ! x = (if x \<in> set D then next_comm else comm ! x)" for x
    by (simp_all add: comm1_def fold_assign)
  have "relabel D (comm, next_comm) = (comm1, next_comm + 1)" by (simp add: relabel_def comm1_def)
  then have "disjoint_lists Ds" "fold relabel Ds (comm1, next_comm + 1) = (comm', next_comm')"
    using Cons.prems by simp_all
  note IH = Cons.IH [OF this]
  have "comm' ! x = next_comm + k" if x: "x < length comm" "k < length (D # Ds)" "x \<in> set ((D # Ds) ! k)" for x k
  proof (cases k)
    case 0
    then have "x \<in> set D" "x \<notin> \<Union> (set ` set Ds)" using Cons.prems(1) x(3) by auto
    then show ?thesis using IH comm1 x(1) 0 by simp
  next
    case (Suc j)
    then show ?thesis using IH comm1 x by simp
  qed
  then show ?case using IH comm1 by auto
qed auto

text \<open>The graph inside the communities of a partition.\<close>

definition inside :: "'f neighbors \<Rightarrow> nat list \<Rightarrow> (nat \<times> nat) set" where
  "inside nb comm = {(x, y). adjacent nb x y \<and> comm ! x = comm ! y}"

lemma inside_comm: "(x, y) \<in> (inside nb comm)\<^sup>* \<Longrightarrow> comm ! x = comm ! y"
  by (induction rule: rtrancl_induct) (auto simp: inside_def)

lemma inside_range: "(x, y) \<in> (inside nb comm)\<^sup>* \<Longrightarrow> undirected nb \<Longrightarrow> x < length nb \<Longrightarrow> y < length nb"
  by (induction rule: rtrancl_induct) (auto simp: inside_def undirected_def in_range_iff)

lemma inside_sym: "(x, y) \<in> (inside nb comm)\<^sup>* \<Longrightarrow> undirected nb \<Longrightarrow> (y, x) \<in> (inside nb comm)\<^sup>*"
proof (induction rule: rtrancl_induct)
  case (step y z)
  then have "(z, y) \<in> inside nb comm" by (auto simp: inside_def undirected_def)
  then show ?case using step by (meson converse_rtrancl_into_rtrancl)
qed simp

text \<open>The component of a member is its part of the community.\<close>

lemma component_of_inside:
  assumes und: "undirected nb" and s: "s < length nb" "comm ! s = c"
    and members: "set members = {i. i < length nb \<and> comm ! i = c}"
  shows "component_of members nb comm c s = {y. (s, y) \<in> (inside nb comm)\<^sup>*}"
proof -
  have succ: "comp_succ members nb comm c x = {y. (x, y) \<in> inside nb comm}" if "x < length nb" "comm ! x = c" for x
  proof -
    have "y < length nb" if "adjacent nb x y" for y using that und by (simp add: undirected_def in_range_iff)
    then have "y \<in> fst ` set (nb ! x) \<and> y \<in> set members \<and> comm ! y = c \<longleftrightarrow> adjacent nb x y \<and> comm ! x = comm ! y" for y
      using \<open>x < length nb\<close> \<open>comm ! x = c\<close> by (auto simp only: members adjacent_def mem_Collect_eq)
    then show ?thesis by (simp only: comp_succ_def inside_def mem_Collect_eq prod.case)
  qed
  show ?thesis
  proof
    show "component_of members nb comm c s \<subseteq> {y. (s, y) \<in> (inside nb comm)\<^sup>*}"
    proof (rule component.result_least)
      fix x assume "x \<in> {y. (s, y) \<in> (inside nb comm)\<^sup>*}"
      then have "comm ! x = c" "x < length nb" "(s, x) \<in> (inside nb comm)\<^sup>*"
        using inside_comm [of s x nb comm] inside_range [of s x nb comm] und s by auto
      then show "comp_succ members nb comm c x \<subseteq> {y. (s, y) \<in> (inside nb comm)\<^sup>*}"
        by (auto simp: succ intro: rtrancl_into_rtrancl)
    qed simp
    have "y \<in> component_of members nb comm c s" if "(s, y) \<in> (inside nb comm)\<^sup>*" for y
      using that
    proof (induction rule: rtrancl_induct)
      case base
      then show ?case using component.result_init by blast
    next
      case (step y z)
      then have "comm ! y = c" "y < length nb"
        using inside_comm [of s y nb comm] inside_range [of s y nb comm] und s by auto
      then have "z \<in> comp_succ members nb comm c y" using step by (simp add: succ)
      then show ?case using component.result_closed [OF step(3)] by blast
    qed
    then show "{y. (s, y) \<in> (inside nb comm)\<^sup>*} \<subseteq> component_of members nb comm c s" by blast
  qed
qed

section \<open>The repaired partition\<close>

text \<open>After the communities below \<open>k\<close>: those from \<open>k\<close> on are untouched, the others hold their own label or a
  new one, and two of their nodes share a label exactly when a path inside the community joins them.\<close>

definition repair_inv :: "'f neighbors \<Rightarrow> nat list \<Rightarrow> nat \<Rightarrow> nat list \<times> nat \<Rightarrow> bool" where
  "repair_inv nb comm k = (\<lambda>(cm, nx). length cm = length comm \<and> num_communities comm \<le> nx
     \<and> (\<forall>x < length comm. k \<le> comm ! x \<longrightarrow> cm ! x = comm ! x)
     \<and> (\<forall>x < length comm. comm ! x < k \<longrightarrow> cm ! x = comm ! x \<or> num_communities comm \<le> cm ! x \<and> cm ! x < nx)
     \<and> (\<forall>x < length comm. \<forall>y < length comm. comm ! x < k \<longrightarrow> comm ! y < k \<longrightarrow>
          (cm ! x = cm ! y \<longleftrightarrow> (x, y) \<in> (inside nb comm)\<^sup>*)))"

lemma label_bound: "x < length comm \<Longrightarrow> comm ! x < num_communities comm"
  by (auto simp: num_communities_def less_Suc_eq_le)

text \<open>One community: the relabelled nodes are its own, and the new labels are fresh.\<close>

definition repaired_community :: "'f neighbors \<Rightarrow> nat list \<Rightarrow> nat \<Rightarrow> nat list \<times> nat \<Rightarrow> nat list \<times> nat \<Rightarrow> bool" where
  "repaired_community nb comm k st st' = (case (st, st') of ((cm, nx), (cm', nx')) \<Rightarrow>
     length cm' = length cm \<and> nx \<le> nx'
     \<and> (\<forall>x < length comm. comm ! x \<noteq> k \<longrightarrow> cm' ! x = cm ! x)
     \<and> (\<forall>x < length comm. comm ! x = k \<longrightarrow> cm' ! x = k \<or> nx \<le> cm' ! x \<and> cm' ! x < nx')
     \<and> (\<forall>x < length comm. \<forall>y < length comm. comm ! x = k \<longrightarrow> comm ! y = k \<longrightarrow>
          (cm' ! x = cm' ! y \<longleftrightarrow> (x, y) \<in> (inside nb comm)\<^sup>*)))"

lemma repair_inv_step:
  assumes inv: "repair_inv nb comm k st" and k: "k < num_communities comm"
    and step: "repaired_community nb comm k st st'"
  shows "repair_inv nb comm (Suc k) st'"
proof -
  obtain cm nx cm' nx' where st: "st = (cm, nx)" "st' = (cm', nx')" by (cases st; cases st') auto
  note I = inv [unfolded repair_inv_def st prod.case]
  note S = step [unfolded repaired_community_def st prod.case]
  have below: "cm' ! x = cm ! x" "cm ! x < nx" "cm ! x \<noteq> k" if "x < length comm" "comm ! x < k" for x
  proof -
    have "cm ! x = comm ! x \<or> num_communities comm \<le> cm ! x \<and> cm ! x < nx" using I that by blast
    moreover have "num_communities comm \<le> nx" using I by blast
    ultimately show "cm ! x < nx" "cm ! x \<noteq> k" using that k by auto
    show "cm' ! x = cm ! x" using S that by simp
  qed
  have at: "cm' ! x = k \<or> nx \<le> cm' ! x" if "x < length comm" "comm ! x = k" for x using S that by blast
  have other: "cm' ! x \<noteq> cm' ! y" if "x < length comm" "comm ! x < k" "y < length comm" "comm ! y = k" for x y
    using below [OF that(1,2)] at [OF that(3,4)] by auto
  have eq: "cm' ! x = cm' ! y \<longleftrightarrow> (x, y) \<in> (inside nb comm)\<^sup>*"
    if xy: "x < length comm" "y < length comm" "comm ! x < Suc k" "comm ! y < Suc k" for x y
  proof -
    consider "comm ! x < k" "comm ! y < k" | "comm ! x = k" "comm ! y = k"
      | "comm ! x < k" "comm ! y = k" | "comm ! x = k" "comm ! y < k"
      using xy by (auto simp: less_Suc_eq)
    then show ?thesis
    proof cases
      case 1 then show ?thesis using I below xy by simp
    next
      case 2 then show ?thesis using S xy by simp
    next
      case 3 then show ?thesis using other [of x y] xy inside_comm [of x y nb comm] by auto
    next
      case 4 then show ?thesis using other [of y x] xy inside_comm [of x y nb comm] by auto
    qed
  qed
  have range: "cm' ! x = comm ! x \<or> num_communities comm \<le> cm' ! x \<and> cm' ! x < nx'"
    if "x < length comm" "comm ! x < Suc k" for x
  proof (cases "comm ! x = k")
    case True then show ?thesis using S I that by (metis order_trans)
  next
    case False then show ?thesis using S I that below [of x] by (metis less_SucE order_less_le_trans)
  qed
  have "length cm' = length comm" "num_communities comm \<le> nx'" using I S by simp_all
  moreover have "cm' ! x = comm ! x" if "x < length comm" "Suc k \<le> comm ! x" for x using I S that by simp
  ultimately show ?thesis using eq range by (simp add: repair_inv_def st)
qed

lemma disjoint_lists_index:
  assumes "disjoint_lists Ds" "a < length Ds" "b < length Ds" "x \<in> set (Ds ! a)" "x \<in> set (Ds ! b)"
  shows "a = b"
  using assms
proof (induction Ds arbitrary: a b)
  case (Cons D Ds)
  then show ?case by (cases a; cases b) (auto dest: nth_mem)
qed simp

lemma repair_community_repaired:
  assumes und: "undirected nb" and len: "length comm = length nb"
    and inv: "repair_inv nb comm k (cm, nx)" and k: "k < num_communities comm"
  shows "repaired_community nb comm k (cm, nx) (repair_community nb k (cm, nx))"
proof -
  note I = inv [unfolded repair_inv_def prod.case]
  define members where "members = filter (\<lambda>i. cm ! i = k) [0..<length cm]"
  have label: "cm ! x = k \<longleftrightarrow> comm ! x = k" if "x < length comm" for x
  proof (cases "k \<le> comm ! x")
    case True
    then have "cm ! x = comm ! x" using I that by blast
    then show ?thesis by simp
  next
    case False
    then have "cm ! x = comm ! x \<or> num_communities comm \<le> cm ! x" using I that by (meson linorder_le_less_linear)
    then show ?thesis using False k by auto
  qed
  have members: "set members = {i. i < length nb \<and> comm ! i = k}"
    using I len label by (auto simp: members_def)
  have succ: "comp_succ members nb cm k = comp_succ members nb comm k"
    using label len members by (auto simp: comp_succ_def fun_eq_iff)
  have path: "(x, y) \<in> (inside nb comm)\<^sup>* \<Longrightarrow> x \<in> set members \<Longrightarrow> y \<in> set members" for x y
    using inside_comm [of x y nb comm] inside_range [of x y nb comm] und by (simp add: members)
  show ?thesis
  proof (cases "length members \<le> 1")
    case True
    then have "repair_community nb k (cm, nx) = (cm, nx)" by (simp add: repair_community_def members_def Let_def)
    moreover have "x = y" if "x \<in> set members" "y \<in> set members" for x y
      using True that by (cases members) auto
    ultimately show ?thesis
      using label len by (auto simp: repaired_community_def members)
  next
    case False
    define Ds where "Ds = connected_components_within members nb cm k"
    have comm_k: "cm ! x = k" if "x \<in> set members" for x using that label len by (simp add: members)
    have part: "component_of members nb cm k s = {y. (s, y) \<in> (inside nb comm)\<^sup>*}" if "s \<in> set members" for s
    proof -
      have "component_of members nb cm k s = component_of members nb comm k s"
        unfolding component.result_reach component.edges_def succ ..
      then show ?thesis using component_of_inside [OF und _ _ members, of s] that by (simp add: members)
    qed
    have sym: "x \<in> comp_succ members nb cm k y" if "x \<in> set members" "cm ! x = k" "y \<in> comp_succ members nb cm k x" for x y
      using that und unfolding undirected_def adjacent_def members comp_succ_def by blast
    have Ds: "disjoint_lists Ds" "\<Union> (set ` set Ds) = set members"
      unfolding Ds_def by (rule connected_components; (fact sym | fact comm_k))+
    have Ds_part: "\<exists>s \<in> set members. set D = component_of members nb cm k s" if "D \<in> set Ds" for D
      using that connected_components(2) [of members cm k nb D, folded Ds_def] sym comm_k by blast
    from Ds obtain D Es where Es: "Ds = D # Es" using False by (cases Ds) auto
    obtain cm' nx' where fold: "fold relabel Es (cm, nx) = (cm', nx')" by fastforce
    have result: "repair_community nb k (cm, nx) = (cm', nx')"
      using False fold Es by (auto simp: repair_community_def members_def [symmetric] Ds_def [symmetric] Let_def)
    have "disjoint_lists Es" using Ds(1) Es by simp
    note R = fold_relabel [OF this fold]
    have idx: "\<exists>a < length Ds. x \<in> set (Ds ! a)" if "x \<in> set members" for x
      using that Ds(2) by (metis UN_E in_set_conv_nth)
    have lab: "cm' ! x = (if a = 0 then k else nx + (a - 1))" if x: "a < length Ds" "x \<in> set (Ds ! a)" for a x
    proof -
      have mem: "x \<in> set members" using x Ds(2) nth_mem by blast
      then have lt: "x < length cm" using members I len by simp
      show ?thesis
      proof (cases a)
        case 0
        then have "x \<notin> \<Union> (set ` set Es)" using x Ds(1) Es by auto
        then show ?thesis using R lt comm_k mem 0 by simp
      next
        case (Suc j)
        then show ?thesis using R lt x Es by simp
      qed
    qed
    have kx: "k < nx" using k I by simp
    have same: "cm' ! x = cm' ! y \<longleftrightarrow> (x, y) \<in> (inside nb comm)\<^sup>*" if xy: "x \<in> set members" "y \<in> set members" for x y
    proof -
      obtain a b where ab: "a < length Ds" "x \<in> set (Ds ! a)" "b < length Ds" "y \<in> set (Ds ! b)"
        using idx xy by blast
      obtain s where s: "s \<in> set members" "set (Ds ! a) = component_of members nb cm k s" using Ds_part nth_mem ab(1) by blast
      have "cm' ! x = cm' ! y \<longleftrightarrow> a = b" using lab [OF ab(1,2)] lab [OF ab(3,4)] kx by (auto split: if_splits)
      also have "\<dots> \<longleftrightarrow> y \<in> set (Ds ! a)" using disjoint_lists_index [OF Ds(1) ab(1,3) _ ab(4)] ab by blast
      also have "\<dots> \<longleftrightarrow> (s, y) \<in> (inside nb comm)\<^sup>*" using s part by simp
      also have "\<dots> \<longleftrightarrow> (x, y) \<in> (inside nb comm)\<^sup>*"
      proof -
        have "(s, x) \<in> (inside nb comm)\<^sup>*" using s part ab(2) by simp
        then show ?thesis using inside_sym [OF _ und] by (meson rtrancl_trans)
      qed
      finally show ?thesis .
    qed
    have range: "cm' ! x = k \<or> nx \<le> cm' ! x \<and> cm' ! x < nx'" if mem: "x \<in> set members" for x
    proof -
      obtain a where a: "a < length Ds" "x \<in> set (Ds ! a)" using idx [OF mem] by blast
      have nx': "nx' = nx + length Es" using R by blast
      show ?thesis using lab [OF a] a(1) unfolding nx' Es by (cases a) auto
    qed
    have "cm' ! x = cm ! x" if "x < length comm" "comm ! x \<noteq> k" for x
    proof -
      have "x \<notin> \<Union> (set ` set Es)" using that Ds(2) Es members by auto
      then show ?thesis using R that I by simp
    qed
    then show ?thesis unfolding result repaired_community_def prod.case
      using same range R len members by auto
  qed
qed

text \<open>The whole loop.\<close>

lemma repair_loop_inv:
  assumes und: "undirected nb" and len: "length comm = length nb"
  shows "k \<le> num_communities comm \<Longrightarrow>
    repair_inv nb comm k (fold (repair_community nb) [0..<k] (comm, num_communities comm))"
proof (induction k)
  case 0
  then show ?case by (simp add: repair_inv_def)
next
  case (Suc k)
  obtain cm nx where st: "fold (repair_community nb) [0..<k] (comm, num_communities comm) = (cm, nx)" by fastforce
  have inv: "repair_inv nb comm k (cm, nx)" using Suc by (simp add: st)
  show ?case
    using repair_inv_step [OF inv _ repair_community_repaired [OF und len inv]] Suc.prems by (simp add: st)
qed

lemma length_repair: "undirected nb \<Longrightarrow> length comm = length nb \<Longrightarrow> length (repair_c2 nb comm) = length comm"
  using repair_loop_inv [of nb comm "num_communities comm"]
  by (auto simp: repair_c2_def repair_inv_def Let_def split: prod.splits)

lemma repair_exact:
  assumes und: "undirected nb" and len: "length comm = length nb" and ij: "i < length nb" "j < length nb"
  shows "repair_c2 nb comm ! i = repair_c2 nb comm ! j \<longleftrightarrow> (i, j) \<in> (inside nb comm)\<^sup>*"
proof -
  obtain cm nx where st: "fold (repair_community nb) [0..<num_communities comm] (comm, num_communities comm) = (cm, nx)" by fastforce
  have "repair_inv nb comm (num_communities comm) (cm, nx)"
    using repair_loop_inv [OF und len, of "num_communities comm"] by (simp add: st)
  then have "length cm = length comm" "cm ! i = cm ! j \<longleftrightarrow> (i, j) \<in> (inside nb comm)\<^sup>*"
    using label_bound [of i comm] label_bound [of j comm] ij len by (auto simp: repair_inv_def)
  then show ?thesis using ij len by (simp add: repair_c2_def st Let_def renumber_same)
qed

end
