(* ===== verification/GraphSchema.thy ===== *)
theory GraphSchema
  imports Prelude
begin

text \<open>
  The tables of the graph, \<open>src/graph_store/schema.rs\<close> and \<open>ddl.rs\<close>: the node labels, the relationship tables with the
  labels of their ends, the classes of relationships, and the tables that an edge of a resolved call
  goes to. The lemmas say that every table that the code computes from labels is a declared one.
\<close>

section \<open>Node labels\<close>

definition NODE_DIRECTORY :: string where "NODE_DIRECTORY = ''Directory''"
definition NODE_FILE :: string where "NODE_FILE = ''File''"
definition NODE_MODULE :: string where "NODE_MODULE = ''Module''"
definition NODE_FUNCTION :: string where "NODE_FUNCTION = ''Function''"
definition NODE_METHOD :: string where "NODE_METHOD = ''Method''"
definition NODE_STRUCT :: string where "NODE_STRUCT = ''Struct''"
definition NODE_ENUM :: string where "NODE_ENUM = ''Enum''"
definition NODE_VARIANT :: string where "NODE_VARIANT = ''Variant''"
definition NODE_TRAIT :: string where "NODE_TRAIT = ''Trait''"
definition NODE_FIELD :: string where "NODE_FIELD = ''Field''"
definition NODE_CONSTANT :: string where "NODE_CONSTANT = ''Constant''"
definition NODE_TYPE_ALIAS :: string where "NODE_TYPE_ALIAS = ''TypeAlias''"
definition NODE_IMPORT :: string where "NODE_IMPORT = ''Import''"
definition NODE_CALL_SITE :: string where "NODE_CALL_SITE = ''CallSite''"
definition NODE_COMMUNITY :: string where "NODE_COMMUNITY = ''Community''"
definition NODE_PROCESS :: string where "NODE_PROCESS = ''Process''"
definition NODE_STDLIB_SYMBOL :: string where "NODE_STDLIB_SYMBOL = ''StdlibSymbol''"
definition NODE_COMMIT :: string where "NODE_COMMIT = ''Commit''"
definition NODE_VERSION :: string where "NODE_VERSION = ''Version''"
definition NODE_IAC_RESOURCE :: string where "NODE_IAC_RESOURCE = ''IacResource''"
definition NODE_IAC_MODULE :: string where "NODE_IAC_MODULE = ''IacModule''"
definition NODE_IAC_IMAGE :: string where "NODE_IAC_IMAGE = ''IacImage''"
definition NODE_AST_NODE :: string where "NODE_AST_NODE = ''AstNode''"
definition NODE_FILE_CONTENT :: string where "NODE_FILE_CONTENT = ''FileContent''"

lemmas node_labels = NODE_DIRECTORY_def NODE_FILE_def NODE_MODULE_def NODE_FUNCTION_def NODE_METHOD_def NODE_STRUCT_def NODE_ENUM_def NODE_VARIANT_def NODE_TRAIT_def NODE_FIELD_def NODE_CONSTANT_def NODE_TYPE_ALIAS_def NODE_IMPORT_def NODE_CALL_SITE_def NODE_COMMUNITY_def NODE_PROCESS_def NODE_STDLIB_SYMBOL_def NODE_COMMIT_def NODE_VERSION_def NODE_IAC_RESOURCE_def NODE_IAC_MODULE_def NODE_IAC_IMAGE_def NODE_AST_NODE_def NODE_FILE_CONTENT_def

definition NODE_LABELS :: "string list" where
  "NODE_LABELS = [
     NODE_DIRECTORY, NODE_FILE, NODE_MODULE, NODE_FUNCTION, NODE_METHOD, NODE_STRUCT, NODE_ENUM,
     NODE_VARIANT, NODE_TRAIT, NODE_FIELD, NODE_CONSTANT, NODE_TYPE_ALIAS, NODE_IMPORT, NODE_CALL_SITE,
     NODE_COMMUNITY, NODE_PROCESS, NODE_STDLIB_SYMBOL, NODE_COMMIT, NODE_VERSION, NODE_IAC_RESOURCE,
     NODE_IAC_MODULE, NODE_IAC_IMAGE, NODE_AST_NODE, NODE_FILE_CONTENT]"

section \<open>Relationship tables\<close>

definition REL_TABLES :: "(string \<times> string \<times> string) list" where
  "REL_TABLES = [
     (''Contains_Dir_File'', NODE_DIRECTORY, NODE_FILE),
     (''Contains_Dir_Dir'', NODE_DIRECTORY, NODE_DIRECTORY),
     (''Contains_File_Module'', NODE_FILE, NODE_MODULE),
     (''Defines_File_Function'', NODE_FILE, NODE_FUNCTION),
     (''Defines_File_Struct'', NODE_FILE, NODE_STRUCT),
     (''Defines_File_Enum'', NODE_FILE, NODE_ENUM),
     (''Defines_File_Trait'', NODE_FILE, NODE_TRAIT),
     (''Defines_File_Constant'', NODE_FILE, NODE_CONSTANT),
     (''Defines_File_TypeAlias'', NODE_FILE, NODE_TYPE_ALIAS),
     (''Defines_File_Import'', NODE_FILE, NODE_IMPORT),
     (''Defines_Module_Import'', NODE_MODULE, NODE_IMPORT),
     (''Defines_Module_Function'', NODE_MODULE, NODE_FUNCTION),
     (''Defines_Module_Struct'', NODE_MODULE, NODE_STRUCT),
     (''Defines_Module_Enum'', NODE_MODULE, NODE_ENUM),
     (''Defines_Module_Trait'', NODE_MODULE, NODE_TRAIT),
     (''Defines_Module_Constant'', NODE_MODULE, NODE_CONSTANT),
     (''Defines_Module_TypeAlias'', NODE_MODULE, NODE_TYPE_ALIAS),
     (''HasMethod_Struct_Method'', NODE_STRUCT, NODE_METHOD),
     (''HasMethod_Enum_Method'', NODE_ENUM, NODE_METHOD),
     (''HasMethod_Trait_Method'', NODE_TRAIT, NODE_METHOD),
     (''HasField_Struct_Field'', NODE_STRUCT, NODE_FIELD),
     (''HasField_Enum_Field'', NODE_ENUM, NODE_FIELD),
     (''HasVariant_Enum_Variant'', NODE_ENUM, NODE_VARIANT),
     (''Imports_File_File'', NODE_FILE, NODE_FILE),
     (''References_File_File'', NODE_FILE, NODE_FILE),
     (''Imports_File_Module'', NODE_FILE, NODE_MODULE),
     (''Imports_File_Function'', NODE_FILE, NODE_FUNCTION),
     (''Imports_File_Method'', NODE_FILE, NODE_METHOD),
     (''Imports_File_Struct'', NODE_FILE, NODE_STRUCT),
     (''Imports_File_Enum'', NODE_FILE, NODE_ENUM),
     (''Imports_File_Trait'', NODE_FILE, NODE_TRAIT),
     (''Imports_File_Constant'', NODE_FILE, NODE_CONSTANT),
     (''Imports_File_TypeAlias'', NODE_FILE, NODE_TYPE_ALIAS),
     (''Imports_Module_Function'', NODE_MODULE, NODE_FUNCTION),
     (''Imports_Module_Struct'', NODE_MODULE, NODE_STRUCT),
     (''Imports_Module_Enum'', NODE_MODULE, NODE_ENUM),
     (''Imports_Module_Trait'', NODE_MODULE, NODE_TRAIT),
     (''Imports_Module_Constant'', NODE_MODULE, NODE_CONSTANT),
     (''Imports_Module_TypeAlias'', NODE_MODULE, NODE_TYPE_ALIAS),
     (''Calls_Function_Function'', NODE_FUNCTION, NODE_FUNCTION),
     (''Calls_Function_Method'', NODE_FUNCTION, NODE_METHOD),
     (''Calls_Method_Function'', NODE_METHOD, NODE_FUNCTION),
     (''Calls_Method_Method'', NODE_METHOD, NODE_METHOD),
     (''Defines_Function_CallSite'', NODE_FUNCTION, NODE_CALL_SITE),
     (''Defines_Method_CallSite'', NODE_METHOD, NODE_CALL_SITE),
     (''Calls_CallSite_Function'', NODE_CALL_SITE, NODE_FUNCTION),
     (''Calls_CallSite_Method'', NODE_CALL_SITE, NODE_METHOD),
     (''Calls_CallSite_StdlibSymbol'', NODE_CALL_SITE, NODE_STDLIB_SYMBOL),
     (''Calls_CallSite_Struct'', NODE_CALL_SITE, NODE_STRUCT),
     (''Implements_Struct_Trait'', NODE_STRUCT, NODE_TRAIT),
     (''Implements_Enum_Trait'', NODE_ENUM, NODE_TRAIT),
     (''Extends_Trait_Trait'', NODE_TRAIT, NODE_TRAIT),
     (''Extends_Struct_Struct'', NODE_STRUCT, NODE_STRUCT),
     (''Extends_Enum_Enum'', NODE_ENUM, NODE_ENUM),
     (''Uses_Function_Struct'', NODE_FUNCTION, NODE_STRUCT),
     (''Uses_Function_Enum'', NODE_FUNCTION, NODE_ENUM),
     (''Uses_Function_Trait'', NODE_FUNCTION, NODE_TRAIT),
     (''Uses_Function_TypeAlias'', NODE_FUNCTION, NODE_TYPE_ALIAS),
     (''Uses_Method_Struct'', NODE_METHOD, NODE_STRUCT),
     (''Uses_Method_Enum'', NODE_METHOD, NODE_ENUM),
     (''Uses_Method_Trait'', NODE_METHOD, NODE_TRAIT),
     (''Uses_Method_TypeAlias'', NODE_METHOD, NODE_TYPE_ALIAS),
     (''Uses_Struct_Struct'', NODE_STRUCT, NODE_STRUCT),
     (''Uses_Struct_Enum'', NODE_STRUCT, NODE_ENUM),
     (''Uses_Struct_Trait'', NODE_STRUCT, NODE_TRAIT),
     (''Uses_Field_Struct'', NODE_FIELD, NODE_STRUCT),
     (''Uses_Field_Enum'', NODE_FIELD, NODE_ENUM),
     (''Uses_Field_Trait'', NODE_FIELD, NODE_TRAIT),
     (''Uses_Field_TypeAlias'', NODE_FIELD, NODE_TYPE_ALIAS),
     (''Calls_Function_StdlibSymbol'', NODE_FUNCTION, NODE_STDLIB_SYMBOL),
     (''Calls_Method_StdlibSymbol'', NODE_METHOD, NODE_STDLIB_SYMBOL),
     (''Implements_Struct_StdlibSymbol'', NODE_STRUCT, NODE_STDLIB_SYMBOL),
     (''Implements_Enum_StdlibSymbol'', NODE_ENUM, NODE_STDLIB_SYMBOL),
     (''MemberOf_Function_Community'', NODE_FUNCTION, NODE_COMMUNITY),
     (''MemberOf_Method_Community'', NODE_METHOD, NODE_COMMUNITY),
     (''MemberOf_Struct_Community'', NODE_STRUCT, NODE_COMMUNITY),
     (''MemberOf_Enum_Community'', NODE_ENUM, NODE_COMMUNITY),
     (''MemberOf_Trait_Community'', NODE_TRAIT, NODE_COMMUNITY),
     (''MemberOf_Constant_Community'', NODE_CONSTANT, NODE_COMMUNITY),
     (''MemberOf_TypeAlias_Community'', NODE_TYPE_ALIAS, NODE_COMMUNITY),
     (''MemberOf_Module_Community'', NODE_MODULE, NODE_COMMUNITY),
     (''EntryPointOf_Function_Process'', NODE_FUNCTION, NODE_PROCESS),
     (''EntryPointOf_Method_Process'', NODE_METHOD, NODE_PROCESS),
     (''ParticipatesIn_Function_Process'', NODE_FUNCTION, NODE_PROCESS),
     (''ParticipatesIn_Method_Process'', NODE_METHOD, NODE_PROCESS),
     (''PreviousVersion_Commit_Commit'', NODE_COMMIT, NODE_COMMIT),
     (''VersionOf_Version_File'', NODE_VERSION, NODE_FILE),
     (''VersionOf_Version_Function'', NODE_VERSION, NODE_FUNCTION),
     (''VersionOf_Version_Method'', NODE_VERSION, NODE_METHOD),
     (''VersionOf_Version_Struct'', NODE_VERSION, NODE_STRUCT),
     (''VersionOf_Version_Enum'', NODE_VERSION, NODE_ENUM),
     (''VersionOf_Version_Trait'', NODE_VERSION, NODE_TRAIT),
     (''ChangedIn_Version_Commit'', NODE_VERSION, NODE_COMMIT),
     (''PreviousVersion_Version_Version'', NODE_VERSION, NODE_VERSION),
     (''FILE_CHANGES_WITH'', NODE_FILE, NODE_FILE),
     (''OBSERVED_CALLS_Function_Function'', NODE_FUNCTION, NODE_FUNCTION),
     (''OBSERVED_CALLS_Function_Method'', NODE_FUNCTION, NODE_METHOD),
     (''OBSERVED_CALLS_Method_Function'', NODE_METHOD, NODE_FUNCTION),
     (''OBSERVED_CALLS_Method_Method'', NODE_METHOD, NODE_METHOD),
     (''Defines_File_IacResource'', NODE_FILE, NODE_IAC_RESOURCE),
     (''Defines_File_IacModule'', NODE_FILE, NODE_IAC_MODULE),
     (''Imports_IacResource_IacImage'', NODE_IAC_RESOURCE, NODE_IAC_IMAGE),
     (''Imports_IacResource_File'', NODE_IAC_RESOURCE, NODE_FILE),
     (''Imports_IacModule_File'', NODE_IAC_MODULE, NODE_FILE),
     (''Imports_IacModule_IacModule'', NODE_IAC_MODULE, NODE_IAC_MODULE),
     (''Defines_File_AstNode'', NODE_FILE, NODE_AST_NODE),
     (''AstChild_AstNode_AstNode'', NODE_AST_NODE, NODE_AST_NODE)]"

definition is_resolution_rel :: "string \<Rightarrow> bool" where
  "is_resolution_rel name \<longleftrightarrow> starts_with name ''Imports_'' \<or> starts_with name ''Calls_''
     \<or> starts_with name ''Implements_'' \<or> starts_with name ''Extends_'' \<or> starts_with name ''Uses_''
     \<or> starts_with name ''References_''"

definition is_structural_provenance_rel :: "string \<Rightarrow> bool" where
  "is_structural_provenance_rel name \<longleftrightarrow> starts_with name ''Defines_'' \<or> starts_with name ''HasMethod_''
     \<or> starts_with name ''HasField_'' \<or> starts_with name ''HasVariant_''"

definition is_entrypoint_rel :: "string \<Rightarrow> bool" where
  "is_entrypoint_rel name \<longleftrightarrow> starts_with name ''EntryPointOf_''"

definition is_participates_rel :: "string \<Rightarrow> bool" where
  "is_participates_rel name \<longleftrightarrow> starts_with name ''ParticipatesIn_''"

definition is_cochange_rel :: "string \<Rightarrow> bool" where
  "is_cochange_rel name \<longleftrightarrow> name = ''FILE_CHANGES_WITH''"

definition is_observed_calls_rel :: "string \<Rightarrow> bool" where
  "is_observed_calls_rel name \<longleftrightarrow> starts_with name ''OBSERVED_CALLS_''"

definition is_ast_child_rel :: "string \<Rightarrow> bool" where
  "is_ast_child_rel name \<longleftrightarrow> name = ''AstChild_AstNode_AstNode''"

definition is_observable_static_calls_rel :: "string \<Rightarrow> bool" where
  "is_observable_static_calls_rel name \<longleftrightarrow>
     name \<in> {''Calls_Function_Function'', ''Calls_Function_Method'', ''Calls_Method_Function'', ''Calls_Method_Method''}"

definition is_known_rel_table :: "string \<Rightarrow> bool" where
  "is_known_rel_table name \<longleftrightarrow> list_ex (\<lambda>(n, from_label, to_label). n = name) REL_TABLES"

definition call_rel_table :: "string \<Rightarrow> string \<Rightarrow> string option" where
  "call_rel_table caller_label target_label =
     (if caller_label \<in> {''Function'', ''Method''} \<and> target_label \<in> {''Function'', ''Method''}
      then Some (''Calls_'' @ caller_label @ ''_'' @ target_label)
      else if caller_label \<in> {''Function'', ''Method''} \<and> target_label \<in> {''Struct'', ''Enum'', ''Trait'', ''TypeAlias''}
      then Some (''Uses_'' @ caller_label @ ''_'' @ target_label)
      else None)"

definition call_site_rel_table :: "string \<Rightarrow> string option" where
  "call_site_rel_table target_label =
     (if target_label = NODE_FUNCTION then Some ''Calls_CallSite_Function''
      else if target_label = NODE_METHOD then Some ''Calls_CallSite_Method''
      else if target_label = NODE_STDLIB_SYMBOL then Some ''Calls_CallSite_StdlibSymbol''
      else if target_label = NODE_STRUCT then Some ''Calls_CallSite_Struct''
      else None)"

definition label_has_qualified_name :: "string \<Rightarrow> bool" where
  "label_has_qualified_name label \<longleftrightarrow>
     label \<in> {NODE_MODULE, NODE_FUNCTION, NODE_METHOD, NODE_STRUCT, NODE_ENUM, NODE_VARIANT, NODE_TRAIT,
       NODE_CONSTANT, NODE_TYPE_ALIAS, NODE_VERSION, NODE_IAC_RESOURCE, NODE_IAC_MODULE}"

section \<open>The statements that declare the tables\<close>

definition MARKER_TABLE :: string where "MARKER_TABLE = ''GraphMarker''"

text \<open>Two quotes, the empty string of a default value.\<close>

definition sql_empty :: string where "sql_empty = [CHR 0x27, CHR 0x27]"

definition NODE_TABLE_SCHEMAS :: "(string \<times> string) list" where
  "NODE_TABLE_SCHEMAS = [
     (NODE_DIRECTORY,
         ''id STRING, path STRING, name STRING''),
     (NODE_FILE,
         ''id STRING, path STRING, name STRING, extension STRING, size_bytes INT64, '' @
         ''parse_errors INT64, target_context STRING DEFAULT '' @ sql_empty @
         '', cfg_gate STRING DEFAULT '' @ sql_empty @ '', cfg_active STRING DEFAULT '' @ sql_empty @
         '', module_path STRING DEFAULT '' @ sql_empty),
     (NODE_MODULE,
         ''id STRING, name STRING, qualified_name STRING, cfg_gate STRING DEFAULT '' @ sql_empty @
         '', cfg_active STRING DEFAULT '' @ sql_empty),
     (NODE_FUNCTION,
         ''id STRING, name STRING, qualified_name STRING, start_line INT64, end_line INT64, '' @
         ''visibility STRING, is_async BOOLEAN, return_type STRING, constructed_types STRING, '' @
         ''language STRING, entry_kind STRING, cfg_gate STRING DEFAULT '' @ sql_empty @
         '', cfg_active STRING DEFAULT '' @ sql_empty @ '', code_context STRING DEFAULT '' @ sql_empty @
         '', body_kind STRING DEFAULT '' @ sql_empty @ '', linkage STRING DEFAULT '' @ sql_empty),
     (NODE_METHOD,
         ''id STRING, name STRING, qualified_name STRING, start_line INT64, end_line INT64, '' @
         ''visibility STRING, is_async BOOLEAN, receiver_type STRING, trait_name STRING, '' @
         ''return_type STRING, constructed_types STRING, language STRING, cfg_gate STRING DEFAULT '' @
         sql_empty @ '', cfg_active STRING DEFAULT '' @ sql_empty @ '', code_context STRING DEFAULT '' @
         sql_empty @ '', body_kind STRING DEFAULT '' @ sql_empty @ '', linkage STRING DEFAULT '' @ sql_empty),
     (NODE_STRUCT,
         ''id STRING, name STRING, qualified_name STRING, start_line INT64, end_line INT64, '' @
         ''visibility STRING, language STRING, bases STRING, implements STRING, '' @
         ''cfg_gate STRING DEFAULT '' @ sql_empty @ '', cfg_active STRING DEFAULT '' @ sql_empty),
     (NODE_ENUM,
         ''id STRING, name STRING, qualified_name STRING, start_line INT64, end_line INT64, '' @
         ''visibility STRING, language STRING, bases STRING, implements STRING, '' @
         ''cfg_gate STRING DEFAULT '' @ sql_empty @ '', cfg_active STRING DEFAULT '' @ sql_empty),
     (NODE_VARIANT,
         ''id STRING, name STRING, qualified_name STRING, start_line INT64, end_line INT64, '' @
         ''language STRING, cfg_gate STRING DEFAULT '' @ sql_empty @ '', cfg_active STRING DEFAULT '' @
         sql_empty),
     (NODE_TRAIT,
         ''id STRING, name STRING, qualified_name STRING, start_line INT64, end_line INT64, '' @
         ''visibility STRING, language STRING, bases STRING, implements STRING, '' @
         ''cfg_gate STRING DEFAULT '' @ sql_empty @ '', cfg_active STRING DEFAULT '' @ sql_empty),
     (NODE_FIELD,
         ''id STRING, name STRING, type_annotation STRING, visibility STRING, start_line INT64, '' @
         ''end_line INT64, language STRING, cfg_gate STRING DEFAULT '' @ sql_empty @
         '', cfg_active STRING DEFAULT '' @ sql_empty),
     (NODE_CONSTANT,
         ''id STRING, name STRING, qualified_name STRING, type_annotation STRING, start_line INT64, '' @
         ''end_line INT64, language STRING, cfg_gate STRING DEFAULT '' @ sql_empty @
         '', cfg_active STRING DEFAULT '' @ sql_empty),
     (NODE_TYPE_ALIAS,
         ''id STRING, name STRING, qualified_name STRING, target_type STRING, start_line INT64, '' @
         ''end_line INT64, language STRING, cfg_gate STRING DEFAULT '' @ sql_empty @
         '', cfg_active STRING DEFAULT '' @ sql_empty),
     (NODE_IMPORT,
         ''id STRING, path STRING, alias STRING, is_glob BOOLEAN, start_line INT64, end_line INT64, '' @
         ''is_resolved BOOLEAN, language STRING''),
     (NODE_CALL_SITE,
         ''id STRING, callee_name STRING, line INT64, col INT64, is_resolved BOOLEAN, language STRING, '' @
         ''unresolved_reason STRING, receiver_hint STRING, macro_arg_shape STRING, '' @
         ''receiver_hint_via STRING, callee_shape STRING''),
     (NODE_COMMUNITY,
         ''id STRING, name STRING, algorithm STRING, resolution_param DOUBLE, member_count INT64, '' @
         ''modularity_contribution DOUBLE''),
     (NODE_PROCESS,
         ''id STRING, name STRING, entry_point_id STRING, entry_kind STRING, entry_confidence DOUBLE, '' @
         ''depth INT64, symbol_count INT64''),
     (NODE_STDLIB_SYMBOL,
         ''id STRING, name STRING, language STRING, receiver_type STRING, canonical_path STRING''),
     (NODE_COMMIT,
         ''id STRING, sha STRING, author STRING, author_email STRING, committed_at INT64, '' @
         ''message STRING''),
     (NODE_VERSION,
         ''id STRING, entity_id STRING, entity_kind STRING, qualified_name STRING, change_type STRING, '' @
         ''commit_sha STRING, committed_at INT64, lines_changed INT64''),
     (NODE_IAC_RESOURCE,
         ''id STRING, name STRING, qualified_name STRING, resource_kind STRING, api_version STRING, '' @
         ''namespace STRING, image STRING, ports STRING, entrypoint STRING, workdir STRING, '' @
         ''source STRING, path STRING, start_line INT64''),
     (NODE_IAC_MODULE,
         ''id STRING, name STRING, qualified_name STRING, resource_kind STRING, source STRING, '' @
         ''path STRING, start_line INT64''),
     (NODE_IAC_IMAGE,
         ''id STRING, reference STRING, name STRING, tag STRING, registry STRING''),
     (NODE_AST_NODE,
         ''id STRING, file_id STRING, kind STRING, is_named BOOLEAN, start_byte INT64, end_byte INT64, '' @
         ''start_line INT64, start_col INT64, end_line INT64, end_col INT64, field_name STRING, '' @
         ''child_index INT64, parent_id STRING, language STRING''),
     (NODE_FILE_CONTENT,
         ''id STRING, content_zstd BLOB, original_size INT64, compressed_size INT64''),
     (MARKER_TABLE,
         ''id STRING, value STRING'')]"

definition ddl_node :: "string \<Rightarrow> string \<Rightarrow> string" where
  "ddl_node label columns = ''CREATE NODE TABLE IF NOT EXISTS '' @ label @ ''('' @ columns @ '', PRIMARY KEY(id))''"

definition node_table_ddl :: "string list" where
  "node_table_ddl = map (\<lambda>(label, columns). ddl_node label columns) NODE_TABLE_SCHEMAS"

definition rel_properties :: "string \<Rightarrow> string" where
  "rel_properties name =
     (if is_cochange_rel name
      then '', cochange_count INT64, support INT64, coupling DOUBLE, jaccard DOUBLE, last_co_change INT64''
      else if is_observed_calls_rel name then '', observed_count INT64''
      else if is_observable_static_calls_rel name
      then '', confidence DOUBLE, resolution_method STRING, observed_count INT64''
      else if is_resolution_rel name \<or> is_structural_provenance_rel name
      then '', confidence DOUBLE, resolution_method STRING''
      else if is_entrypoint_rel name then '', confidence DOUBLE''
      else if is_participates_rel name then '', depth INT64''
      else if is_ast_child_rel name then '', child_index INT64, field_name STRING''
      else [])"

definition rel_table_ddl :: "string list" where
  "rel_table_ddl = map (\<lambda>(name, from_label, to_label).
     ''CREATE REL TABLE IF NOT EXISTS '' @ name @ ''(FROM '' @ from_label @ '' TO '' @ to_label
       @ rel_properties name @ '')'') REL_TABLES"

definition parse_rel_endpoints :: "string \<Rightarrow> string + string \<times> string" where
  "parse_rel_endpoints rel_type =
     (case find (\<lambda>(name, from_label, to_label). name = rel_type) REL_TABLES of
        Some (name, ends) \<Rightarrow> Inr ends
      | None \<Rightarrow> Inl (''unknown relationship type: '' @ rel_type))"

section \<open>The tables are declared\<close>

lemma REL_TABLES_ends: "list_all (\<lambda>(name, from_label, to_label). from_label \<in> set NODE_LABELS \<and> to_label \<in> set NODE_LABELS) REL_TABLES"
  by code_simp

lemma REL_TABLES_distinct: "distinct (map fst REL_TABLES)"
  by (simp add: REL_TABLES_def)

lemma parse_rel_endpoints_Inr: "parse_rel_endpoints name = Inr (a, b) \<longleftrightarrow> (name, a, b) \<in> set REL_TABLES"
proof (cases "find (\<lambda>(n, from_label, to_label). n = name) REL_TABLES")
  case None
  then have "parse_rel_endpoints name = Inl (''unknown relationship type: '' @ name)"
    by (simp add: parse_rel_endpoints_def)
  moreover have "(name, a, b) \<notin> set REL_TABLES" using None by (auto simp: find_None_iff)
  ultimately show ?thesis by simp
next
  case (Some t)
  obtain n c d where t: "t = (n, c, d)" by (rule prod_cases3)
  obtain i where i: "i < length REL_TABLES" "REL_TABLES ! i = t" "(\<lambda>(n, from_label, to_label). n = name) t"
    using Some by (auto simp: find_Some_iff)
  have n: "n = name" using i(3) by (simp add: t)
  then have mem: "(name, c, d) \<in> set REL_TABLES" using i t by (metis nth_mem)
  have "(a, b) = (c, d)" if "(name, a, b) \<in> set REL_TABLES"
    by (rule eq_key_imp_eq_value [OF REL_TABLES_distinct that mem])
  then show ?thesis using mem by (auto simp: parse_rel_endpoints_def Some t)
qed

lemma known_endpoints: "is_known_rel_table name \<longleftrightarrow> (\<exists>ends. parse_rel_endpoints name = Inr ends)"
proof -
  have "is_known_rel_table name \<longleftrightarrow> (\<exists>a b. (name, a, b) \<in> set REL_TABLES)"
    unfolding is_known_rel_table_def list_ex_iff by (simp add: Bex_def)
  then show ?thesis by (simp add: parse_rel_endpoints_Inr)
qed

lemma call_tables_eval:
  "list_all (\<lambda>c. list_all (\<lambda>t. case call_rel_table c t of None \<Rightarrow> True | Some rel \<Rightarrow> (rel, c, t) \<in> set REL_TABLES)
     [''Function'', ''Method'', ''Struct'', ''Enum'', ''Trait'', ''TypeAlias'']) [''Function'', ''Method'']"
  by code_simp

lemma call_site_tables_eval:
  "list_all (\<lambda>t. case call_site_rel_table t of None \<Rightarrow> True | Some rel \<Rightarrow> (rel, NODE_CALL_SITE, t) \<in> set REL_TABLES)
     [NODE_FUNCTION, NODE_METHOD, NODE_STDLIB_SYMBOL, NODE_STRUCT]"
  by code_simp

lemma call_rel_table_labels: "call_rel_table c t = Some rel \<Longrightarrow>
    c \<in> set [''Function'', ''Method''] \<and> t \<in> set [''Function'', ''Method'', ''Struct'', ''Enum'', ''Trait'', ''TypeAlias'']"
  by (auto simp: call_rel_table_def split: if_splits)

lemma call_site_rel_table_labels: "call_site_rel_table t = Some rel \<Longrightarrow>
    t \<in> set [NODE_FUNCTION, NODE_METHOD, NODE_STDLIB_SYMBOL, NODE_STRUCT]"
  by (auto simp: call_site_rel_table_def split: if_splits)

text \<open>C40: an edge of a resolved call never goes to a table of other labels: the table that is chosen for a
  caller and a target is declared, with exactly these two labels as its ends, and so is the table of the
  edge from a call site.\<close>

theorem call_tables_declared:
  "(case call_rel_table caller_label target_label of
      None \<Rightarrow> True
    | Some rel \<Rightarrow> parse_rel_endpoints rel = Inr (caller_label, target_label))
   \<and> (case call_site_rel_table target_label of
        None \<Rightarrow> True
      | Some rel \<Rightarrow> parse_rel_endpoints rel = Inr (NODE_CALL_SITE, target_label))"
proof -
  have "(rel, caller_label, target_label) \<in> set REL_TABLES" if "call_rel_table caller_label target_label = Some rel" for rel
    using call_rel_table_labels [OF that] call_tables_eval that unfolding list_all_iff by fastforce
  moreover have "(rel, NODE_CALL_SITE, target_label) \<in> set REL_TABLES" if "call_site_rel_table target_label = Some rel" for rel
    using call_site_rel_table_labels [OF that] call_site_tables_eval that unfolding list_all_iff by fastforce
  ultimately show ?thesis by (simp add: parse_rel_endpoints_Inr split: option.splits)
qed

end
