(* ===== verification/GraphColumns.thy ===== *)
theory GraphColumns
  imports GraphSchema
begin

text \<open>
  The typed columns of the bulk writers, \<open>src/graph_store/columns.rs\<close>. Two tables are kept by hand: these
  columns, which a bulk insert binds by name and type, and the text of the statements that declare the
  tables (\<open>ddl.rs\<close>). The theorem reads the columns back from the text and says that the two agree.
  \<open>LogicalType\<close> holds the types of the database that the columns use.
\<close>

datatype LogicalType = StringT | Int64T | BoolT | DoubleT | BlobT

type_synonym ColTypes = "(string \<times> LogicalType) list"

definition COLS_DIRECTORY :: ColTypes where
  "COLS_DIRECTORY = [
     (''id'', StringT), (''path'', StringT), (''name'', StringT)]"

definition COLS_FILE :: ColTypes where
  "COLS_FILE = [
     (''id'', StringT), (''path'', StringT), (''name'', StringT), (''extension'', StringT),
     (''size_bytes'', Int64T), (''parse_errors'', Int64T), (''target_context'', StringT),
     (''cfg_gate'', StringT), (''cfg_active'', StringT), (''module_path'', StringT)]"

definition COLS_MODULE :: ColTypes where
  "COLS_MODULE = [
     (''id'', StringT), (''name'', StringT), (''qualified_name'', StringT), (''cfg_gate'', StringT),
     (''cfg_active'', StringT)]"

definition COLS_VARIANT :: ColTypes where
  "COLS_VARIANT = [
     (''id'', StringT), (''name'', StringT), (''qualified_name'', StringT), (''start_line'', Int64T),
     (''end_line'', Int64T), (''language'', StringT), (''cfg_gate'', StringT), (''cfg_active'', StringT)]"

definition COLS_FUNCTION :: ColTypes where
  "COLS_FUNCTION = [
     (''id'', StringT), (''name'', StringT), (''qualified_name'', StringT), (''start_line'', Int64T),
     (''end_line'', Int64T), (''visibility'', StringT), (''is_async'', BoolT), (''return_type'', StringT),
     (''constructed_types'', StringT), (''language'', StringT), (''entry_kind'', StringT),
     (''cfg_gate'', StringT), (''cfg_active'', StringT), (''code_context'', StringT),
     (''body_kind'', StringT), (''linkage'', StringT)]"

definition COLS_METHOD :: ColTypes where
  "COLS_METHOD = [
     (''id'', StringT), (''name'', StringT), (''qualified_name'', StringT), (''start_line'', Int64T),
     (''end_line'', Int64T), (''visibility'', StringT), (''is_async'', BoolT),
     (''receiver_type'', StringT), (''trait_name'', StringT), (''return_type'', StringT),
     (''constructed_types'', StringT), (''language'', StringT), (''cfg_gate'', StringT),
     (''cfg_active'', StringT), (''code_context'', StringT), (''body_kind'', StringT),
     (''linkage'', StringT)]"

definition COLS_TYPEDECL :: ColTypes where
  "COLS_TYPEDECL = [
     (''id'', StringT), (''name'', StringT), (''qualified_name'', StringT), (''start_line'', Int64T),
     (''end_line'', Int64T), (''visibility'', StringT), (''language'', StringT), (''bases'', StringT),
     (''implements'', StringT), (''cfg_gate'', StringT), (''cfg_active'', StringT)]"

definition COLS_FIELD :: ColTypes where
  "COLS_FIELD = [
     (''id'', StringT), (''name'', StringT), (''type_annotation'', StringT), (''visibility'', StringT),
     (''start_line'', Int64T), (''end_line'', Int64T), (''language'', StringT), (''cfg_gate'', StringT),
     (''cfg_active'', StringT)]"

definition COLS_CONSTANT :: ColTypes where
  "COLS_CONSTANT = [
     (''id'', StringT), (''name'', StringT), (''qualified_name'', StringT), (''type_annotation'', StringT),
     (''start_line'', Int64T), (''end_line'', Int64T), (''language'', StringT), (''cfg_gate'', StringT),
     (''cfg_active'', StringT)]"

definition COLS_TYPE_ALIAS :: ColTypes where
  "COLS_TYPE_ALIAS = [
     (''id'', StringT), (''name'', StringT), (''qualified_name'', StringT), (''target_type'', StringT),
     (''start_line'', Int64T), (''end_line'', Int64T), (''language'', StringT), (''cfg_gate'', StringT),
     (''cfg_active'', StringT)]"

definition COLS_IMPORT :: ColTypes where
  "COLS_IMPORT = [
     (''id'', StringT), (''path'', StringT), (''alias'', StringT), (''is_glob'', BoolT),
     (''start_line'', Int64T), (''end_line'', Int64T), (''is_resolved'', BoolT), (''language'', StringT)]"

definition COLS_CALL_SITE :: ColTypes where
  "COLS_CALL_SITE = [
     (''id'', StringT), (''callee_name'', StringT), (''line'', Int64T), (''col'', Int64T),
     (''is_resolved'', BoolT), (''language'', StringT), (''unresolved_reason'', StringT),
     (''receiver_hint'', StringT), (''macro_arg_shape'', StringT), (''receiver_hint_via'', StringT),
     (''callee_shape'', StringT)]"

definition COLS_COMMUNITY :: ColTypes where
  "COLS_COMMUNITY = [
     (''id'', StringT), (''name'', StringT), (''algorithm'', StringT), (''resolution_param'', DoubleT),
     (''member_count'', Int64T), (''modularity_contribution'', DoubleT)]"

definition COLS_PROCESS :: ColTypes where
  "COLS_PROCESS = [
     (''id'', StringT), (''name'', StringT), (''entry_point_id'', StringT), (''entry_kind'', StringT),
     (''entry_confidence'', DoubleT), (''depth'', Int64T), (''symbol_count'', Int64T)]"

definition COLS_COMMIT :: ColTypes where
  "COLS_COMMIT = [
     (''id'', StringT), (''sha'', StringT), (''author'', StringT), (''author_email'', StringT),
     (''committed_at'', Int64T), (''message'', StringT)]"

definition COLS_VERSION :: ColTypes where
  "COLS_VERSION = [
     (''id'', StringT), (''entity_id'', StringT), (''entity_kind'', StringT),
     (''qualified_name'', StringT), (''change_type'', StringT), (''commit_sha'', StringT),
     (''committed_at'', Int64T), (''lines_changed'', Int64T)]"

definition COLS_IAC_RESOURCE :: ColTypes where
  "COLS_IAC_RESOURCE = [
     (''id'', StringT), (''name'', StringT), (''qualified_name'', StringT), (''resource_kind'', StringT),
     (''api_version'', StringT), (''namespace'', StringT), (''image'', StringT), (''ports'', StringT),
     (''entrypoint'', StringT), (''workdir'', StringT), (''source'', StringT), (''path'', StringT),
     (''start_line'', Int64T)]"

definition COLS_IAC_MODULE :: ColTypes where
  "COLS_IAC_MODULE = [
     (''id'', StringT), (''name'', StringT), (''qualified_name'', StringT), (''resource_kind'', StringT),
     (''source'', StringT), (''path'', StringT), (''start_line'', Int64T)]"

definition COLS_IAC_IMAGE :: ColTypes where
  "COLS_IAC_IMAGE = [
     (''id'', StringT), (''reference'', StringT), (''name'', StringT), (''tag'', StringT),
     (''registry'', StringT)]"

definition COLS_AST_NODE :: ColTypes where
  "COLS_AST_NODE = [
     (''id'', StringT), (''file_id'', StringT), (''kind'', StringT), (''is_named'', BoolT),
     (''start_byte'', Int64T), (''end_byte'', Int64T), (''start_line'', Int64T), (''start_col'', Int64T),
     (''end_line'', Int64T), (''end_col'', Int64T), (''field_name'', StringT), (''child_index'', Int64T),
     (''parent_id'', StringT), (''language'', StringT)]"

lemmas cols = COLS_DIRECTORY_def COLS_FILE_def COLS_MODULE_def COLS_VARIANT_def COLS_FUNCTION_def COLS_METHOD_def COLS_TYPEDECL_def COLS_FIELD_def COLS_CONSTANT_def COLS_TYPE_ALIAS_def COLS_IMPORT_def COLS_CALL_SITE_def COLS_COMMUNITY_def COLS_PROCESS_def COLS_COMMIT_def COLS_VERSION_def COLS_IAC_RESOURCE_def COLS_IAC_MODULE_def COLS_IAC_IMAGE_def COLS_AST_NODE_def

definition node_column_types :: "string \<Rightarrow> string + ColTypes" where
  "node_column_types label =
     (if label = NODE_DIRECTORY then Inr COLS_DIRECTORY
      else if label = NODE_FILE then Inr COLS_FILE
      else if label = NODE_MODULE then Inr COLS_MODULE
      else if label = NODE_VARIANT then Inr COLS_VARIANT
      else if label = NODE_FUNCTION then Inr COLS_FUNCTION
      else if label = NODE_METHOD then Inr COLS_METHOD
      else if label = NODE_STRUCT \<or> label = NODE_ENUM \<or> label = NODE_TRAIT then Inr COLS_TYPEDECL
      else if label = NODE_FIELD then Inr COLS_FIELD
      else if label = NODE_CONSTANT then Inr COLS_CONSTANT
      else if label = NODE_TYPE_ALIAS then Inr COLS_TYPE_ALIAS
      else if label = NODE_IMPORT then Inr COLS_IMPORT
      else if label = NODE_CALL_SITE then Inr COLS_CALL_SITE
      else if label = NODE_COMMUNITY then Inr COLS_COMMUNITY
      else if label = NODE_PROCESS then Inr COLS_PROCESS
      else if label = NODE_COMMIT then Inr COLS_COMMIT
      else if label = NODE_VERSION then Inr COLS_VERSION
      else if label = NODE_IAC_RESOURCE then Inr COLS_IAC_RESOURCE
      else if label = NODE_IAC_MODULE then Inr COLS_IAC_MODULE
      else if label = NODE_IAC_IMAGE then Inr COLS_IAC_IMAGE
      else if label = NODE_AST_NODE then Inr COLS_AST_NODE
      else Inl (''unknown node label for bulk insert: '' @ label))"

definition label_declares_column :: "string \<Rightarrow> string \<Rightarrow> bool" where
  "label_declares_column label column =
     (case node_column_types label of
        Inr cols \<Rightarrow> list_ex (\<lambda>(name, ty). name = column) cols
      | Inl e \<Rightarrow> False)"

definition edge_column_types :: "string \<Rightarrow> ColTypes" where
  "edge_column_types rel_table =
     (if is_resolution_rel rel_table \<or> is_structural_provenance_rel rel_table
      then [(''confidence'', DoubleT), (''resolution_method'', StringT)]
      else if is_entrypoint_rel rel_table then [(''confidence'', DoubleT)]
      else if is_participates_rel rel_table then [(''depth'', Int64T)]
      else if is_ast_child_rel rel_table then [(''child_index'', Int64T), (''field_name'', StringT)]
      else [])"

section \<open>The columns that the statements declare\<close>

text \<open>The columns of a declaration: the pieces between commas, each a name, a type and what follows it.\<close>

fun split_char :: "char \<Rightarrow> string \<Rightarrow> string list" where
  "split_char d [] = [[]]"
| "split_char d (c # cs) =
     (if c = d then [] # split_char d cs
      else case split_char d cs of [] \<Rightarrow> [[c]] | w # ws \<Rightarrow> (c # w) # ws)"

definition words_of :: "string \<Rightarrow> string list" where
  "words_of s = filter (\<lambda>w. w \<noteq> []) (split_char CHR '' '' s)"

definition type_of_word :: "string \<Rightarrow> LogicalType option" where
  "type_of_word w =
     (if w = ''STRING'' then Some StringT else if w = ''INT64'' then Some Int64T
      else if w = ''BOOLEAN'' then Some BoolT else if w = ''DOUBLE'' then Some DoubleT
      else if w = ''BLOB'' then Some BlobT else None)"

fun declared_column :: "string list \<Rightarrow> (string \<times> LogicalType) option" where
  "declared_column (name # ty # rest) = map_option (Pair name) (type_of_word ty)"
| "declared_column ws = None"

definition declared_columns :: "string \<Rightarrow> (string \<times> LogicalType) option list" where
  "declared_columns s = map declared_column (filter (\<lambda>ws. ws \<noteq> []) (map words_of (split_char CHR '','' s)))"

lemma node_schema_eval: "list_all (\<lambda>(label, ddl).
    case node_column_types label of
      Inr cols \<Rightarrow> declared_columns ddl = map Some cols
    | Inl e \<Rightarrow> label \<in> {NODE_STDLIB_SYMBOL, NODE_FILE_CONTENT, MARKER_TABLE}) NODE_TABLE_SCHEMAS"
  by code_simp

lemma node_schema_labels:
  "set (map fst NODE_TABLE_SCHEMAS) = insert MARKER_TABLE (set NODE_LABELS)" "distinct (map fst NODE_TABLE_SCHEMAS)"
  by code_simp+

lemma edge_schema_eval: "list_all (\<lambda>(name, from_label, to_label).
    list_all (\<lambda>col. Some col \<in> set (declared_columns (rel_properties name))) (edge_column_types name)) REL_TABLES"
  by code_simp

lemma node_column_types_labels: "node_column_types label = Inr cols \<Longrightarrow> label \<in> set NODE_LABELS"
  by (auto simp: node_column_types_def NODE_LABELS_def split: if_splits)

text \<open>The hand-written columns of the bulk writers are those of the tables: for every label that can be
  bulk-inserted there is one declaration of the node table, and the columns read back from its text are,
  in order and with their types, the typed columns; and every property that a bulk insert of edges binds
  is declared, with its type, by the statement of the relationship table.\<close>

theorem columns_agree_with_ddl:
  "(\<forall>cols. node_column_types label = Inr cols \<longrightarrow>
      (\<exists>ddl. map_of NODE_TABLE_SCHEMAS label = Some ddl \<and> declared_columns ddl = map Some cols))
   \<and> (\<forall>col. is_known_rel_table rel \<longrightarrow> col \<in> set (edge_column_types rel) \<longrightarrow>
        Some col \<in> set (declared_columns (rel_properties rel)))"
proof (intro conjI allI impI)
  fix cols assume cols: "node_column_types label = Inr cols"
  then have "label \<in> set (map fst NODE_TABLE_SCHEMAS)"
    using node_column_types_labels [OF cols] node_schema_labels(1) by blast
  then obtain ddl where ddl: "map_of NODE_TABLE_SCHEMAS label = Some ddl" by (metis map_of_eq_None_iff not_None_eq set_map)
  then have "(label, ddl) \<in> set NODE_TABLE_SCHEMAS" by (rule map_of_SomeD)
  then have "declared_columns ddl = map Some cols" using node_schema_eval cols by (auto simp: list_all_iff)
  then show "\<exists>ddl. map_of NODE_TABLE_SCHEMAS label = Some ddl \<and> declared_columns ddl = map Some cols" using ddl by blast
next
  fix col assume "is_known_rel_table rel" "col \<in> set (edge_column_types rel)"
  then show "Some col \<in> set (declared_columns (rel_properties rel))"
    using edge_schema_eval by (auto simp: is_known_rel_table_def list_all_iff list_ex_iff)
qed

lemma columns_agree_with_ddl_witness:
  "\<exists>ddl. map_of NODE_TABLE_SCHEMAS ''Variant'' = Some ddl \<and> declared_columns ddl = map Some COLS_VARIANT"
  using columns_agree_with_ddl [of "''Variant''" "''FILE_CHANGES_WITH''"]
  by (simp add: node_column_types_def node_labels)

end
