(* ===== verification/GraphWrite.thy ===== *)
theory GraphWrite
  imports GraphColumns
begin

text \<open>
  Values on their way into the graph: \<open>cypher_str\<close> (\<open>src/graph_store/mod.rs\<close>), the statements and row
  values of the bulk writers (\<open>serialize.rs\<close>) and the writers themselves (\<open>writes.rs\<close>). Running a
  statement is the parameter \<open>run\<close>, which takes the database, the text and the rows to the new database
  and a result. The parser and printer of \<open>f64\<close> are parameters.
\<close>

section \<open>String literals\<close>

fun cypher_escape :: "string \<Rightarrow> string" where
  "cypher_escape [] = []"
| "cypher_escape (ch # raw) =
     (if ch = CHR 0x5C then [CHR 0x5C, CHR 0x5C]
      else if ch = CHR 0x27 then [CHR 0x5C, CHR 0x27]
      else [ch]) @ cypher_escape raw"

definition cypher_str :: "string \<Rightarrow> string" where
  "cypher_str raw = CHR 0x27 # cypher_escape raw @ [CHR 0x27]"

fun unescape :: "string \<Rightarrow> string" where
  "unescape [] = []"
| "unescape [ch] = [ch]"
| "unescape (ch # d # cs) =
     (if ch = CHR 0x5C
      then if d = CHR 0x5C \<or> d = CHR 0x27 then d # unescape cs else CHR 0x5C # d # unescape cs
      else ch # unescape (d # cs))"

definition unwrap_cypher_string :: "string \<Rightarrow> string" where
  "unwrap_cypher_string s =
     (if 2 \<le> length s \<and> hd s = CHR 0x27 \<and> last s = CHR 0x27 then unescape (butlast (tl s)) else s)"

lemma unescape_Cons: "ch \<noteq> CHR 0x5C \<Longrightarrow> unescape (ch # cs) = ch # unescape cs"
  by (cases cs) auto

lemma unescape_escape: "unescape (cypher_escape raw) = raw"
  by (induction raw) (auto simp: unescape_Cons)

lemma unwrap_cypher_str: "unwrap_cypher_string (cypher_str raw) = raw"
  by (simp add: unwrap_cypher_string_def cypher_str_def unescape_escape)

section \<open>Typed values\<close>

text \<open>\<open>str::trim\<close>: white space is dropped at both ends, a character at a time.\<close>

definition starts_white :: "nat \<Rightarrow> string \<Rightarrow> bool" where
  "starts_white n s \<longleftrightarrow> n \<le> length s \<and> is_whitespace (take n s)"

definition ends_white :: "nat \<Rightarrow> string \<Rightarrow> bool" where
  "ends_white n s \<longleftrightarrow> n \<le> length s \<and> is_whitespace (drop (length s - n) s)"

lemma is_whitespace_Nil [simp]: "\<not> is_whitespace []"
  by (simp add: is_whitespace_def)

function trim_start :: "string \<Rightarrow> string" where
  "trim_start s =
     (case find (\<lambda>n. starts_white n s) [1, 2, 3] of
        Some n \<Rightarrow> trim_start (drop n s) | None \<Rightarrow> s)"
  by pat_completeness auto
termination trim_start
  by (relation "measure length") (auto simp: starts_white_def split: if_splits)

function trim_end :: "string \<Rightarrow> string" where
  "trim_end s =
     (case find (\<lambda>n. ends_white n s) [1, 2, 3] of
        Some n \<Rightarrow> trim_end (take (length s - n) s) | None \<Rightarrow> s)"
  by pat_completeness auto
termination trim_end
  by (relation "measure length") (auto simp: ends_white_def split: if_splits)

declare trim_start.simps [simp del] trim_end.simps [simp del]

definition trim :: "string \<Rightarrow> string" where
  "trim s = trim_end (trim_start s)"

text \<open>\<open>str::parse::<i64>\<close>: an optional sign, at least one digit, and the range of the type.\<close>

definition parse_i64 :: "string \<Rightarrow> int option" where
  "parse_i64 s =
     (if starts_with s ''-''
      then map_option (\<lambda>n. - int n)
        (if starts_with (drop 1 s) ''+'' then None else parse_dec (2 ^ 63 + 1) (drop 1 s))
      else map_option int (parse_dec (2 ^ 63) s))"

datatype 'f Value = StringV string | Int64V int | BoolV bool | DoubleV 'f | NullV LogicalType

datatype literal_error = ExpectedInt64 string string | ExpectedBool string string
  | ExpectedDouble string string | UnsupportedType string LogicalType

definition literal_to_value :: "(string \<Rightarrow> 'f option) \<Rightarrow> string option \<Rightarrow> LogicalType \<Rightarrow> string
    \<Rightarrow> literal_error + 'f Value" where
  "literal_to_value parse_f64 lit ty col =
     (case lit of
        None \<Rightarrow> Inr (NullV ty)
      | Some raw \<Rightarrow>
          let trimmed = trim raw
          in if trimmed = [] then Inr (NullV ty)
             else case ty of
               StringT \<Rightarrow> Inr (StringV (unwrap_cypher_string trimmed))
             | Int64T \<Rightarrow> (case parse_i64 trimmed of
                  Some n \<Rightarrow> Inr (Int64V n) | None \<Rightarrow> Inl (ExpectedInt64 col raw))
             | BoolT \<Rightarrow>
                 let lower = map to_lower trimmed
                 in if lower = ''true'' then Inr (BoolV True)
                    else if lower = ''false'' \<or> lower = [] then Inr (BoolV False)
                    else Inl (ExpectedBool col raw)
             | DoubleT \<Rightarrow> (case parse_f64 trimmed of
                  Some x \<Rightarrow> Inr (DoubleV x) | None \<Rightarrow> Inl (ExpectedDouble col raw))
             | other \<Rightarrow> Inl (UnsupportedType col other))"

lemma not_white_quote: "w \<noteq> [] \<Longrightarrow> hd w = CHR 0x27 \<or> last w = CHR 0x27 \<Longrightarrow> \<not> is_whitespace w"
  by (cases w rule: remdups_adj.cases; cases "tl (tl w)"; cases "tl (tl (tl w))")
    (auto simp: is_whitespace_def)

lemma trim_quoted: "hd s = CHR 0x27 \<Longrightarrow> last s = CHR 0x27 \<Longrightarrow> s \<noteq> [] \<Longrightarrow> trim s = s"
proof -
  assume s: "hd s = CHR 0x27" "last s = CHR 0x27" "s \<noteq> []"
  have "\<not> starts_white n s" if "n \<in> set [1, 2, 3]" for n
    using that s not_white_quote [of "take n s"] by (cases s) (auto simp: starts_white_def)
  then have "find (\<lambda>n. starts_white n s) [1, 2, 3] = None" by (simp add: find_None_iff)
  then have st: "trim_start s = s" by (subst trim_start.simps) simp
  have "\<not> ends_white n s" if "n \<in> set [1, 2, 3]" for n
  proof
    assume w: "ends_white n s"
    then have "drop (length s - n) s \<noteq> []" using is_whitespace_Nil by (metis ends_white_def)
    then show False using w s not_white_quote [of "drop (length s - n) s"] by (auto simp: ends_white_def last_drop)
  qed
  then have "find (\<lambda>n. ends_white n s) [1, 2, 3] = None" by (simp add: find_None_iff)
  then have "trim_end s = s" by (subst trim_end.simps) simp
  with st show ?thesis by (simp add: trim_def)
qed

text \<open>A string that is written through \<open>cypher_str\<close> reaches a string column unchanged, whatever
  quotes, backslashes or blanks it holds: the bulk writer decodes the literal back to the string.\<close>

theorem literal_round_trip:
  "literal_to_value parse_f64 (Some (cypher_str raw)) StringT col = Inr (StringV raw)"
proof -
  have "trim (cypher_str raw) = cypher_str raw"
    by (rule trim_quoted) (simp_all add: cypher_str_def)
  then show ?thesis by (simp add: literal_to_value_def unwrap_cypher_str Let_def) (simp add: cypher_str_def)
qed

section \<open>Statements and rows\<close>

type_synonym row = "(string \<times> string) list"
type_synonym PropEdge = "string \<times> string \<times> row"
type_synonym 'f fields = "(string \<times> 'f Value) list"

definition BULK_BATCH_SIZE :: nat where "BULK_BATCH_SIZE = 500"

definition format_props :: "row \<Rightarrow> string" where
  "format_props properties = join_with '', '' (map (\<lambda>(k, v). k @ '': '' @ v) properties)"

text \<open>The columns that occur in some row, in the order of the schema.\<close>

definition node_prop_order :: "row list \<Rightarrow> ColTypes \<Rightarrow> ColTypes" where
  "node_prop_order rows schema =
     (let present = set (map fst (concat rows)) in filter (\<lambda>(col, ty). col \<in> present) schema)"

definition edge_prop_order :: "PropEdge list \<Rightarrow> ColTypes \<Rightarrow> ColTypes" where
  "edge_prop_order edges schema =
     (let present = set (map fst (concat (map (\<lambda>(a, b, props). props) edges)))
      in filter (\<lambda>(col, ty). col \<in> present) schema)"

definition assigns :: "ColTypes \<Rightarrow> string" where
  "assigns prop_order = join_with '', '' (map (\<lambda>(k, ty). k @ '': row.'' @ k) prop_order)"

definition build_node_unwind :: "string \<Rightarrow> ColTypes \<Rightarrow> string \<times> ColTypes" where
  "build_node_unwind label prop_order =
     (''UNWIND $rows AS row CREATE (:'' @ label @ '' {'' @ assigns prop_order @ ''})'', prop_order)"

definition build_edge_unwind :: "string \<Rightarrow> string \<Rightarrow> string \<Rightarrow> ColTypes \<Rightarrow> string \<times> ColTypes" where
  "build_edge_unwind rel_table from_label to_label prop_order =
     (let props_clause = (if prop_order = [] then [] else '' {'' @ assigns prop_order @ ''}'')
      in (''UNWIND $rows AS row MATCH (a:'' @ from_label @ '' {id: row.from}) MATCH (b:'' @ to_label
            @ '' {id: row.to}) CREATE (a)-[:'' @ rel_table @ props_clause @ '']->(b)'',
          (''from'', StringT) # (''to'', StringT) # prop_order))"

fun build_fields :: "(string \<Rightarrow> 'f option) \<Rightarrow> row \<Rightarrow> ColTypes \<Rightarrow> literal_error + 'f fields" where
  "build_fields parse_f64 props [] = Inr []"
| "build_fields parse_f64 props ((col, ty) # cols) =
     and_then (literal_to_value parse_f64 (map_of props col) ty col) (\<lambda>v.
     and_then (build_fields parse_f64 props cols) (\<lambda>fs. Inr ((col, v) # fs)))"

fun build_struct_rows :: "(string \<Rightarrow> 'f option) \<Rightarrow> row list \<Rightarrow> ColTypes \<Rightarrow> literal_error + 'f fields list" where
  "build_struct_rows parse_f64 [] prop_order = Inr []"
| "build_struct_rows parse_f64 (r # chunk) prop_order =
     and_then (build_fields parse_f64 r prop_order) (\<lambda>fs.
     and_then (build_struct_rows parse_f64 chunk prop_order) (\<lambda>out. Inr (fs # out)))"

fun build_edge_struct_rows :: "(string \<Rightarrow> 'f option) \<Rightarrow> PropEdge list \<Rightarrow> ColTypes \<Rightarrow> literal_error + 'f fields list" where
  "build_edge_struct_rows parse_f64 [] prop_order = Inr []"
| "build_edge_struct_rows parse_f64 ((from_id, to_id, props) # edges) prop_order =
     and_then (build_fields parse_f64 props prop_order) (\<lambda>fs.
     and_then (build_edge_struct_rows parse_f64 edges prop_order) (\<lambda>out.
       Inr (((''from'', StringV from_id) # (''to'', StringV to_id) # fs) # out)))"

section \<open>The writers\<close>

text \<open>\<open>slice::chunks\<close>.\<close>

function chunks :: "nat \<Rightarrow> 'a list \<Rightarrow> 'a list list" where
  "chunks n xs = (if xs = [] \<or> n = 0 then [] else take n xs # chunks n (drop n xs))"
  by pat_completeness auto
termination chunks
  by (relation "measure (\<lambda>(n, xs). length xs)") auto

declare chunks.simps [simp del]

datatype write_error = UnknownLabel string | UnknownRel string | Literal literal_error | Execute string

type_synonym ('d, 'f) runner = "'d \<Rightarrow> string \<Rightarrow> 'f fields list \<Rightarrow> 'd \<times> (string + unit)"

text \<open>The loop over the batches: the values of a batch are built before its statement runs, and the first
  error returns, with what the earlier batches wrote.\<close>

fun bulk_loop :: "('d, 'f) runner \<Rightarrow> ('r list \<Rightarrow> literal_error + 'f fields list) \<Rightarrow> string \<Rightarrow> 'r list list \<Rightarrow> 'd \<Rightarrow> nat
    \<Rightarrow> 'd \<times> (write_error + nat)" where
  "bulk_loop run build cypher [] db inserted = (db, Inr inserted)"
| "bulk_loop run build cypher (chunk # rest) db inserted =
     (case build chunk of
        Inl e \<Rightarrow> (db, Inl (Literal e))
      | Inr values \<Rightarrow>
          (case run db cypher values of
             (db, Inl e) \<Rightarrow> (db, Inl (Execute e))
           | (db, Inr u) \<Rightarrow> bulk_loop run build cypher rest db (inserted + length chunk)))"

definition bulk_insert_nodes :: "(string \<Rightarrow> 'f option) \<Rightarrow> ('d, 'f) runner \<Rightarrow> string \<Rightarrow> row list \<Rightarrow> 'd
    \<Rightarrow> 'd \<times> (write_error + nat)" where
  "bulk_insert_nodes parse_f64 run label rows db =
     (if rows = [] then (db, Inr 0)
      else case node_column_types label of
        Inl e \<Rightarrow> (db, Inl (UnknownLabel e))
      | Inr schema \<Rightarrow>
          let prop_order = node_prop_order rows schema;
              (cypher, row_type) = build_node_unwind label prop_order
          in bulk_loop run (\<lambda>chunk. build_struct_rows parse_f64 chunk prop_order) cypher
               (chunks BULK_BATCH_SIZE rows) db 0)"

definition bulk_insert_edges :: "(string \<Rightarrow> 'f option) \<Rightarrow> ('d, 'f) runner \<Rightarrow> string \<Rightarrow> PropEdge list \<Rightarrow> 'd
    \<Rightarrow> 'd \<times> (write_error + nat)" where
  "bulk_insert_edges parse_f64 run rel_table edges db =
     (if edges = [] then (db, Inr 0)
      else case parse_rel_endpoints rel_table of
        Inl e \<Rightarrow> (db, Inl (UnknownRel e))
      | Inr (from_label, to_label) \<Rightarrow>
          let prop_order = edge_prop_order edges (edge_column_types rel_table);
              (cypher, row_type) = build_edge_unwind rel_table from_label to_label prop_order
          in bulk_loop run (\<lambda>chunk. build_edge_struct_rows parse_f64 chunk prop_order) cypher
               (chunks BULK_BATCH_SIZE edges) db 0)"

text \<open>The statements of single writes. \<open>exec\<close> runs a text and answers rows.\<close>

type_synonym 'd executor = "'d \<Rightarrow> string \<Rightarrow> 'd \<times> (string + string list list)"

definition insert_node :: "'d executor \<Rightarrow> string \<Rightarrow> row \<Rightarrow> 'd \<Rightarrow> 'd \<times> (string + unit)" where
  "insert_node exec label properties db =
     (let (db, r) = exec db (''CREATE (:'' @ label @ '' {'' @ format_props properties @ ''})'')
      in (db, map_sum id (\<lambda>rows. ()) r))"

definition insert_edge :: "'d executor \<Rightarrow> string \<Rightarrow> string \<Rightarrow> string \<Rightarrow> row \<Rightarrow> 'd \<Rightarrow> 'd \<times> (string + unit)" where
  "insert_edge exec rel_type from_id to_id properties db =
     (case parse_rel_endpoints rel_type of
        Inl e \<Rightarrow> (db, Inl e)
      | Inr (from_label, to_label) \<Rightarrow>
          let props_clause = (if properties = [] then [] else '' {'' @ format_props properties @ ''}'');
              (db, r) = exec db (''MATCH (a:'' @ from_label @ '' {id: '' @ cypher_str from_id @ ''}) MATCH (b:''
                @ to_label @ '' {id: '' @ cypher_str to_id @ ''}) CREATE (a)-[:'' @ rel_type @ props_clause @ '']->(b)'')
          in (db, map_sum id (\<lambda>rows. ()) r))"

definition edge_exists :: "'d executor \<Rightarrow> string \<Rightarrow> string \<Rightarrow> string \<Rightarrow> 'd \<Rightarrow> 'd \<times> (string + bool)" where
  "edge_exists exec rel_type from_id to_id db =
     (case parse_rel_endpoints rel_type of
        Inl e \<Rightarrow> (db, Inl e)
      | Inr (from_label, to_label) \<Rightarrow>
          let (db, r) = exec db (''MATCH (a:'' @ from_label @ '' {id: '' @ cypher_str from_id @ ''})-[r:'' @ rel_type
                @ '']->(b:'' @ to_label @ '' {id: '' @ cypher_str to_id @ ''}) RETURN r LIMIT 1'')
          in (db, map_sum id (\<lambda>rows. rows \<noteq> []) r))"

definition insert_edge_if_absent :: "'d executor \<Rightarrow> string \<Rightarrow> string \<Rightarrow> string \<Rightarrow> row \<Rightarrow> 'd \<Rightarrow> 'd \<times> (string + unit)" where
  "insert_edge_if_absent exec rel_type from_id to_id properties db =
     (case edge_exists exec rel_type from_id to_id db of
        (db, Inl e) \<Rightarrow> (db, Inl e)
      | (db, Inr True) \<Rightarrow> (db, Inr ())
      | (db, Inr False) \<Rightarrow> insert_edge exec rel_type from_id to_id properties db)"

definition column_named :: "string \<Rightarrow> string list list \<Rightarrow> bool" where
  "column_named column rows \<longleftrightarrow> list_ex (\<lambda>row. 1 < length row \<and> row ! 1 = column) rows"

definition require_entry_metadata :: "'d executor \<Rightarrow> 'd \<Rightarrow> 'd \<times> (string + unit)" where
  "require_entry_metadata exec db =
     (case exec db (''CALL table_info('' @ [CHR 0x27] @ ''Function'' @ [CHR 0x27] @ '') RETURN *'') of
        (db, Inl e) \<Rightarrow> (db, Inl e)
      | (db, Inr rows) \<Rightarrow>
          if column_named ''entry_kind'' rows then (db, Inr ())
          else (db, Inl (''graph lacks Rust entry attribute metadata; full reindex required ''
                  @ ''(index_codebase with full: true)'')))"

definition node_column_exists :: "'d executor \<Rightarrow> string \<Rightarrow> string \<Rightarrow> 'd \<Rightarrow> 'd \<times> (string + bool)" where
  "node_column_exists exec label column db =
     (case exec db (''CALL table_info('' @ cypher_str label @ '') RETURN *'') of
        (db, Inl e) \<Rightarrow> (db, Inl e)
      | (db, Inr rows) \<Rightarrow> (db, Inr (column_named column rows)))"

definition ensure_node_column :: "'d executor \<Rightarrow> string \<Rightarrow> string \<Rightarrow> string \<Rightarrow> 'd \<Rightarrow> 'd \<times> (string + bool)" where
  "ensure_node_column exec label column decl db =
     (case node_column_exists exec label column db of
        (db, Inl e) \<Rightarrow> (db, Inl e)
      | (db, Inr True) \<Rightarrow> (db, Inr False)
      | (db, Inr False) \<Rightarrow>
          (case exec db (''ALTER TABLE '' @ label @ '' ADD '' @ column @ '' '' @ decl) of
             (db, Inl e) \<Rightarrow> (db, Inl e)
           | (db, Inr rows) \<Rightarrow> (db, Inr True)))"

text \<open>The batched updates of nodes by id. The rows of such a statement are the ids.\<close>

fun id_batches :: "('d \<Rightarrow> string \<Rightarrow> string list \<Rightarrow> 'd \<times> (string + unit)) \<Rightarrow> string \<Rightarrow> string list list \<Rightarrow> 'd \<Rightarrow> 'd \<times> (string + unit)" where
  "id_batches run cypher [] db = (db, Inr ())"
| "id_batches run cypher (chunk # rest) db =
     (case run db cypher chunk of
        (db, Inl e) \<Rightarrow> (db, Inl e)
      | (db, Inr u) \<Rightarrow> id_batches run cypher rest db)"

definition mark_nodes_resolved :: "('d \<Rightarrow> string \<Rightarrow> string list \<Rightarrow> 'd \<times> (string + unit)) \<Rightarrow> string \<Rightarrow> string list \<Rightarrow> 'd \<Rightarrow> 'd \<times> (string + unit)" where
  "mark_nodes_resolved run label ids db =
     (if ids = [] then (db, Inr ())
      else id_batches run (''UNWIND $rows AS rid MATCH (n:'' @ label @ '' {id: rid}) SET n.is_resolved = true'')
             (chunks BULK_BATCH_SIZE ids) db)"

definition set_callsite_unresolved_reason :: "'d executor \<Rightarrow> ('d \<Rightarrow> string \<Rightarrow> string list \<Rightarrow> 'd \<times> (string + unit)) \<Rightarrow> string list \<Rightarrow> string \<Rightarrow> 'd \<Rightarrow> 'd \<times> (string + unit)" where
  "set_callsite_unresolved_reason exec run ids reason db =
     (if ids = [] then (db, Inr ())
      else case ensure_node_column exec ''CallSite'' ''unresolved_detail'' (''STRING DEFAULT '' @ sql_empty) db of
        (db, Inl e) \<Rightarrow> (db, Inl e)
      | (db, Inr added) \<Rightarrow>
          id_batches run (''UNWIND $rows AS rid MATCH (n:CallSite {id: rid}) SET n.unresolved_reason = ''
              @ cypher_str reason @ '', n.unresolved_detail = '' @ sql_empty)
            (chunks BULK_BATCH_SIZE ids) db)"

definition mark_callsites_unresolved :: "('d \<Rightarrow> string \<Rightarrow> string list \<Rightarrow> 'd \<times> (string + unit)) \<Rightarrow> string list \<Rightarrow> 'd \<Rightarrow> 'd \<times> (string + unit)" where
  "mark_callsites_unresolved run ids db =
     (if ids = [] then (db, Inr ())
      else id_batches run ''UNWIND $rows AS rid MATCH (n:CallSite {id: rid}) SET n.is_resolved = false''
             (chunks BULK_BATCH_SIZE ids) db)"

section \<open>What a bulk insert writes\<close>

text \<open>A database that records its statements and may refuse any one of them.\<close>

type_synonym 'f log = "(string \<times> 'f fields list) list"

definition recorder :: "(nat \<Rightarrow> bool) \<Rightarrow> ('f log, 'f) runner" where
  "recorder refuses log cypher rows =
     (if refuses (length log) then (log, Inl ''refused'') else (log @ [(cypher, rows)], Inr ()))"

lemma concat_chunks: "0 < n \<Longrightarrow> concat (chunks n xs) = xs"
  by (induction n xs rule: chunks.induct) (subst chunks.simps, simp)

lemma length_chunks: "c \<in> set (chunks n xs) \<Longrightarrow> 0 < length c \<and> length c \<le> n"
  by (induction n xs rule: chunks.induct) (subst (asm) (2) chunks.simps, auto split: if_splits)

text \<open>The contract of the two functions that build the vals of a batch: one row each, in order.\<close>

locale row_builder =
  fixes build :: "'r list \<Rightarrow> literal_error + 'f fields list" and row :: "'r \<Rightarrow> literal_error + 'f fields"
  assumes build_rows: "build chunk = Inr vals \<Longrightarrow> map Inr vals = map row chunk"
begin

lemma bulk_loop_log:
  "bulk_loop (recorder refuses) build cypher batches log n = (log', r) \<Longrightarrow>
     \<exists>written. log' = log @ map (Pair cypher) written \<and> length written \<le> length batches
       \<and> map (map Inr) written = map (map row) (take (length written) batches)
       \<and> (\<forall>k. r = Inr k \<longrightarrow> length written = length batches \<and> k = n + length (concat batches))"
proof (induction batches arbitrary: log n)
  case (Cons b batches)
  show ?case
  proof (cases "build b")
    case (Inl e)
    then show ?thesis using Cons.prems by (auto intro!: exI [of _ "[]"])
  next
    case (Inr vals)
    show ?thesis
    proof (cases "refuses (length log)")
      case True
      then show ?thesis using Cons.prems Inr by (auto simp: recorder_def intro!: exI [of _ "[]"])
    next
      case False
      with Cons.prems Inr have "bulk_loop (recorder refuses) build cypher batches (log @ [(cypher, vals)]) (n + length b) = (log', r)"
        by (simp add: recorder_def [of refuses log cypher vals])
      from Cons.IH [OF this] obtain written where w: "log' = (log @ [(cypher, vals)]) @ map (Pair cypher) written"
        "length written \<le> length batches" "map (map Inr) written = map (map row) (take (length written) batches)"
        "\<forall>k. r = Inr k \<longrightarrow> length written = length batches \<and> k = n + length b + length (concat batches)" by blast
      show ?thesis
        using w build_rows [OF Inr] by (intro exI [of _ "vals # written"]) (simp add: add.assoc)
    qed
  qed
qed auto

lemma bulk_chunks_log:
  assumes "bulk_loop (recorder refuses) build cypher (chunks BULK_BATCH_SIZE rows) log 0 = (log', r)"
  shows "\<exists>written. log' = log @ map (Pair cypher) written \<and> (\<forall>b \<in> set written. length b \<le> BULK_BATCH_SIZE)
       \<and> map Inr (concat written) = map row (take (length (concat written)) rows)
       \<and> (\<forall>k. r = Inr k \<longrightarrow> k = length rows \<and> length (concat written) = length rows)"
proof -
  let ?bs = "chunks BULK_BATCH_SIZE rows"
  have rows: "concat ?bs = rows" by (rule concat_chunks) (simp add: BULK_BATCH_SIZE_def)
  from bulk_loop_log [OF assms] obtain written where w: "log' = log @ map (Pair cypher) written"
    "length written \<le> length ?bs" "map (map Inr) written = map (map row) (take (length written) ?bs)"
    "\<forall>k. r = Inr k \<longrightarrow> length written = length ?bs \<and> k = length (concat ?bs)" by auto
  let ?pre = "concat (take (length written) ?bs)"
  have lens: "map length written = map length (take (length written) ?bs)"
    using arg_cong [OF w(3), of "map length"] by (simp add: comp_def)
  then have len: "length (concat written) = length ?pre" by (simp add: length_concat)
  have split: "rows = ?pre @ concat (drop (length written) ?bs)"
    using rows by (metis append_take_drop_id concat_append)
  have "map Inr (concat written) = map row ?pre"
    using arg_cong [OF w(3), of concat] by (simp add: map_concat [symmetric])
  moreover have "?pre = take (length (concat written)) rows" using split len by (metis append_eq_conv_conj)
  moreover have "length b \<le> BULK_BATCH_SIZE" if "b \<in> set written" for b
  proof -
    have "length b \<in> set (map length (take (length written) ?bs))" using that lens by (metis image_eqI set_map)
    then show ?thesis using length_chunks [of _ BULK_BATCH_SIZE rows] by (auto dest: in_set_takeD)
  qed
  moreover have "k = length rows \<and> length (concat written) = length rows" if "r = Inr k" for k
    using w(4) that len rows by simp
  ultimately show ?thesis using w(1) by (intro exI [of _ written]) simp
qed

end

interpretation nodes: row_builder "\<lambda>chunk. build_struct_rows parse_f64 chunk prop_order" "\<lambda>r. build_fields parse_f64 r prop_order"
  for parse_f64 :: "string \<Rightarrow> 'f option" and prop_order
proof
  show "build_struct_rows parse_f64 chunk prop_order = Inr vals \<Longrightarrow> map Inr vals = map (\<lambda>r. build_fields parse_f64 r prop_order) chunk"
    for chunk and vals :: "'f fields list"
    by (induction chunk arbitrary: vals) (auto simp: and_then_Inr)
qed

definition edge_row_fields :: "(string \<Rightarrow> 'f option) \<Rightarrow> ColTypes \<Rightarrow> PropEdge \<Rightarrow> literal_error + 'f fields" where
  "edge_row_fields parse_f64 prop_order = (\<lambda>(from_id, to_id, props).
     and_then (build_fields parse_f64 props prop_order)
       (\<lambda>fs. Inr ((''from'', StringV from_id) # (''to'', StringV to_id) # fs)))"

interpretation edges: row_builder "\<lambda>chunk. build_edge_struct_rows parse_f64 chunk prop_order" "edge_row_fields parse_f64 prop_order"
  for parse_f64 :: "string \<Rightarrow> 'f option" and prop_order
proof
  show "build_edge_struct_rows parse_f64 chunk prop_order = Inr vals \<Longrightarrow> map Inr vals = map (edge_row_fields parse_f64 prop_order) chunk"
    for chunk and vals :: "'f fields list"
    by (induction parse_f64 chunk prop_order arbitrary: vals rule: build_edge_struct_rows.induct)
      (auto simp: and_then_Inr edge_row_fields_def)
qed

text \<open>A bulk insert of edges writes, in batches of at most 500, the rows of a prefix of the edges, each
  row once and in order, with the ends of its edge; when it answers a count the prefix is all of them.
  When it answers an error, the batches before it stay written.\<close>

theorem bulk_edges_prefix:
  assumes "bulk_insert_edges parse_f64 (recorder refuses) rel_table edges log = (log', r)"
  shows "\<exists>cypher written. log' = log @ map (Pair cypher) written
       \<and> (\<forall>b \<in> set written. length b \<le> BULK_BATCH_SIZE)
       \<and> map Inr (concat written) = map (edge_row_fields parse_f64 (edge_prop_order edges (edge_column_types rel_table)))
            (take (length (concat written)) edges)
       \<and> (\<forall>k. r = Inr k \<longrightarrow> k = length edges \<and> length (concat written) = length edges)"
proof (cases "edges = [] \<or> (\<exists>e. parse_rel_endpoints rel_table = Inl e)")
  case True
  then have "log' = log \<and> (\<forall>k. r = Inr k \<longrightarrow> edges = [] \<and> k = 0)"
    using assms by (auto simp: bulk_insert_edges_def split: if_splits)
  then show ?thesis by (intro exI [of _ "[]"]) auto
next
  case False
  then obtain a b where ends: "parse_rel_endpoints rel_table = Inr (a, b)" "edges \<noteq> []"
    by (cases "parse_rel_endpoints rel_table") auto
  let ?po = "edge_prop_order edges (edge_column_types rel_table)"
  obtain cypher row_type where u: "build_edge_unwind rel_table a b ?po = (cypher, row_type)" by fastforce
  have "bulk_loop (recorder refuses) (\<lambda>chunk. build_edge_struct_rows parse_f64 chunk ?po) cypher
      (chunks BULK_BATCH_SIZE edges) log 0 = (log', r)"
    using assms by (simp add: bulk_insert_edges_def ends u)
  from edges.bulk_chunks_log [OF this] show ?thesis by blast
qed

lemma bulk_edges_prefix_witness:
  "\<exists>log' r. bulk_insert_edges (\<lambda>s. None :: nat option) (recorder (\<lambda>n. False)) ''Extends_Trait_Trait''
      [(''a'', ''b'', []) :: PropEdge] [] = (log', r)
    \<and> (\<exists>cypher written. log' = [] @ map (Pair cypher) written \<and> (\<forall>b \<in> set written. length b \<le> BULK_BATCH_SIZE)
       \<and> map Inr (concat written) = map (edge_row_fields (\<lambda>s. None :: nat option)
            (edge_prop_order [(''a'', ''b'', []) :: PropEdge] (edge_column_types ''Extends_Trait_Trait'')))
            (take (length (concat written)) [(''a'', ''b'', []) :: PropEdge])
       \<and> (\<forall>k. r = Inr k \<longrightarrow> k = length [(''a'', ''b'', []) :: PropEdge] \<and> length (concat written) = length [(''a'', ''b'', []) :: PropEdge]))"
proof -
  obtain log' r where run: "bulk_insert_edges (\<lambda>s. None :: nat option) (recorder (\<lambda>n. False)) ''Extends_Trait_Trait''
      [(''a'', ''b'', []) :: PropEdge] [] = (log', r)" by fastforce
  note bulk_edges_prefix [OF run]
  with run show ?thesis by (intro exI [of _ log'] exI [of _ r] conjI)
qed

end
