(* ===== verification/ClusterStore.thy ===== *)
theory ClusterStore
  imports Communities GraphWrite "HOL-Library.Multiset" "HOL-Library.Char_ord" "HOL-Library.List_Lexorder" "HOL-Library.Product_Lexorder"
begin

text \<open>
  The clustering as a whole, \<open>src/clustering/community.rs\<close>, and the communities in the graph:
  \<open>persist_communities\<close> (\<open>community_persist.rs\<close>) writes them and \<open>collect_cluster_memberships\<close>
  (\<open>community_membership.rs\<close>) reads them back. The text of a number of type \<open>f64\<close> is the parameter
  \<open>show_f64\<close>, with six decimals \<open>show_f64_6\<close>. The groups of a hash map are written in some order of their
  tables; the model keeps the order of first use.
\<close>

section \<open>Writing the communities\<close>

definition MEMBEROF_LABELS :: "string list" where
  "MEMBEROF_LABELS =
     [''Function'', ''Method'', ''Struct'', ''Enum'', ''Trait'', ''Constant'', ''TypeAlias'', ''Module'']"

definition CLUSTERS_RESPONSE_CAP :: nat where "CLUSTERS_RESPONSE_CAP = 10000"

definition community_id :: "string \<Rightarrow> nat \<Rightarrow> string" where
  "community_id gamma c = ''community::louvain::'' @ gamma @ ''::'' @ dec c"

definition community_row :: "string \<Rightarrow> string \<Rightarrow> nat list \<Rightarrow> nat \<Rightarrow> row" where
  "community_row gamma modularity comm c =
     [(''id'', cypher_str (community_id gamma c)),
      (''name'', [CHR 0x27] @ ''community_'' @ dec c @ [CHR 0x27]),
      (''algorithm'', [CHR 0x27] @ ''louvain+c2'' @ [CHR 0x27]),
      (''resolution_param'', gamma),
      (''member_count'', dec (length (filter (\<lambda>d. d = c) comm))),
      (''modularity_contribution'', modularity)]"

fun add_edge :: "string \<Rightarrow> PropEdge \<Rightarrow> (string \<times> PropEdge list) list \<Rightarrow> (string \<times> PropEdge list) list" where
  "add_edge rel e [] = [(rel, [e])]"
| "add_edge rel e ((r, es) # by_rel) =
     (if r = rel then (r, es @ [e]) # by_rel else (r, es) # add_edge rel e by_rel)"

definition member_edge :: "string list \<Rightarrow> string list \<Rightarrow> string \<Rightarrow> nat \<times> nat \<Rightarrow> (string \<times> PropEdge list) list
    \<Rightarrow> (string \<times> PropEdge list) list" where
  "member_edge ids labels gamma = (\<lambda>(idx, c) by_rel.
     let label = labels ! idx
     in if label \<notin> set MEMBEROF_LABELS then by_rel
        else add_edge (''MemberOf_'' @ label @ ''_Community'') (ids ! idx, community_id gamma c, []) by_rel)"

fun insert_groups :: "(string \<Rightarrow> 'f option) \<Rightarrow> ('d, 'f) runner \<Rightarrow> (string \<times> PropEdge list) list \<Rightarrow> 'd \<Rightarrow> 'd \<times> (write_error + unit)" where
  "insert_groups parse_f64 run [] db = (db, Inr ())"
| "insert_groups parse_f64 run ((rel, edges) # by_rel) db =
     (case bulk_insert_edges parse_f64 run rel edges db of
        (db, Inl e) \<Rightarrow> (db, Inl e)
      | (db, Inr n) \<Rightarrow> insert_groups parse_f64 run by_rel db)"

definition persist_communities :: "(string \<Rightarrow> 'f option) \<Rightarrow> ('d, 'f) runner \<Rightarrow> 'f Adjacency \<Rightarrow> nat list \<Rightarrow> string \<Rightarrow> string
    \<Rightarrow> 'd \<Rightarrow> 'd \<times> (write_error + nat)" where
  "persist_communities parse_f64 run adj comm modularity gamma db =
     (let num_comms = num_communities comm
      in case bulk_insert_nodes parse_f64 run ''Community'' (map (community_row gamma modularity comm) [0..<num_comms]) db of
           (db, Inl e) \<Rightarrow> (db, Inl e)
         | (db, Inr n) \<Rightarrow>
             (case insert_groups parse_f64 run
                (fold (member_edge (node_ids adj) (node_labels adj) gamma) (enumerate 0 comm) []) db of
                (db, Inl e) \<Rightarrow> (db, Inl e)
              | (db, Inr u) \<Rightarrow> (db, Inr num_comms)))"

section \<open>Reading the memberships\<close>

record ClusterMembership =
  qualified_name :: string
  community_id_of :: string
  cluster_id :: int

record ClusterMemberships =
  entries :: "ClusterMembership list"
  truncated_at :: "nat option"
  total_entries :: nat

text \<open>\<open>str::rsplit(s, "::")\<close>: the text after the last separator, or all of it.\<close>

definition after_last :: "string \<Rightarrow> string" where
  "after_last s =
     (case find_str ''::'' (rev s) of Some i \<Rightarrow> rev (take i (rev s)) | None \<Rightarrow> s)"

definition cluster_id_from_community_id :: "string \<Rightarrow> int" where
  "cluster_id_from_community_id cid =
     (case parse_i64 (after_last cid) of Some n \<Rightarrow> n | None \<Rightarrow> -1)"

definition sort_and_cap_memberships :: "ClusterMembership list \<Rightarrow> ClusterMemberships" where
  "sort_and_cap_memberships es =
     (let sorted = sort_key (\<lambda>e. (qualified_name e, community_id_of e)) es;
          n = length sorted
      in if CLUSTERS_RESPONSE_CAP < n
         then \<lparr>entries = take CLUSTERS_RESPONSE_CAP sorted, truncated_at = Some CLUSTERS_RESPONSE_CAP, total_entries = n\<rparr>
         else \<lparr>entries = sorted, truncated_at = None, total_entries = n\<rparr>)"

fun membership_of_row :: "string list \<Rightarrow> ClusterMembership option" where
  "membership_of_row (qn # cid # cells) =
     (if cid = [] then None
      else Some \<lparr>qualified_name = qn, community_id_of = cid, cluster_id = cluster_id_from_community_id cid\<rparr>)"
| "membership_of_row cells = None"

definition label_memberships :: "store \<Rightarrow> string \<Rightarrow> ClusterMembership list" where
  "label_memberships store label =
     (case store (''MATCH (n:'' @ label @ '')-[:MemberOf_'' @ label @ ''_Community]->(c:Community) ''
             @ ''RETURN n.qualified_name, c.id'') of
        Inl e \<Rightarrow> []
      | Inr rows \<Rightarrow> List.map_filter membership_of_row rows)"

definition collect_cluster_memberships :: "store \<Rightarrow> ClusterMemberships" where
  "collect_cluster_memberships store =
     sort_and_cap_memberships (concat (map (label_memberships store) MEMBEROF_LABELS))"

section \<open>What is read back\<close>

lemma find_str_colons: "CHR '':'' \<notin> set b \<Longrightarrow> find_str ''::'' (b @ CHR '':'' # CHR '':'' # r) = Some (length b)"
  by (induction b) (auto simp: starts_with_def)

lemma after_last_append: "CHR '':'' \<notin> set b \<Longrightarrow> after_last (a @ ''::'' @ b) = b"
  using find_str_colons [of "rev b" "rev a"] by (simp add: after_last_def)

lemma dec_no_char: "\<not> is_digit c \<Longrightarrow> c \<notin> set (dec n)"
  using dec_digits [of n] by (auto simp: list_all_iff)

lemma parse_i64_dec: "n < 2 ^ 63 \<Longrightarrow> parse_i64 (dec n) = Some (int n)"
proof -
  assume n: "n < 2 ^ 63"
  have "\<not> starts_with (dec n) ''-''"
    using dec_no_char [of "CHR ''-''" n] by (auto simp: starts_with_iff byte_simps)
  then show ?thesis using parse_dec_dec [OF n] by (simp add: parse_i64_def)
qed

text \<open>The number of a community survives the graph: \<open>cluster_id_from_community_id\<close> reads it back from
  the id that \<open>persist_communities\<close> writes, whatever the text of the resolution.\<close>

theorem cluster_id_round_trip:
  assumes "c < 2 ^ 63"
  shows "cluster_id_from_community_id (community_id gamma c) = int c"
proof -
  have "community_id gamma c = (''community::louvain::'' @ gamma) @ ''::'' @ dec c"
    by (simp add: community_id_def)
  then show ?thesis
    using after_last_append [of "dec c" "''community::louvain::'' @ gamma"] dec_no_char [of "CHR '':''" c] parse_i64_dec [OF assms]
    by (simp add: cluster_id_from_community_id_def byte_simps)
qed

lemma cluster_id_round_trip_witness:
  "cluster_id_from_community_id (community_id ''1.5'' 42) = 42"
  using cluster_id_round_trip [of 42 "''1.5''"] by simp

text \<open>The membership answer is the sorted list of all memberships that the graph holds, cut at 10000:
  \<open>total\<close> counts them all, a cut is reported, and what is cut comes after what is kept.\<close>

theorem memberships_sorted_prefix:
  "\<exists>rest. sorted (map (\<lambda>e. (qualified_name e, community_id_of e)) (entries (collect_cluster_memberships store) @ rest))
     \<and> mset (entries (collect_cluster_memberships store) @ rest)
         = mset (concat (map (label_memberships store) MEMBEROF_LABELS))
     \<and> total_entries (collect_cluster_memberships store) = length (entries (collect_cluster_memberships store)) + length rest
     \<and> truncated_at (collect_cluster_memberships store) = (if rest = [] then None else Some CLUSTERS_RESPONSE_CAP)
     \<and> length (entries (collect_cluster_memberships store)) \<le> CLUSTERS_RESPONSE_CAP"
proof -
  define es where "es = concat (map (label_memberships store) MEMBEROF_LABELS)"
  let ?key = "\<lambda>e. (qualified_name e, community_id_of e)"
  let ?s = "sort_key ?key es"
  have split: "take CLUSTERS_RESPONSE_CAP ?s @ drop CLUSTERS_RESPONSE_CAP ?s = ?s" by simp
  have mset: "mset (take CLUSTERS_RESPONSE_CAP ?s) + mset (drop CLUSTERS_RESPONSE_CAP ?s) = mset es"
    by (metis mset_append mset_sort split)
  have sorted: "sorted (map ?key ?s)" by simp
  have eq: "entries (collect_cluster_memberships store) = take CLUSTERS_RESPONSE_CAP ?s"
    "total_entries (collect_cluster_memberships store) = length es"
    "truncated_at (collect_cluster_memberships store) = (if CLUSTERS_RESPONSE_CAP < length es then Some CLUSTERS_RESPONSE_CAP else None)"
    by (simp_all add: collect_cluster_memberships_def sort_and_cap_memberships_def es_def [symmetric] Let_def)
  show ?thesis
    by (rule exI [of _ "drop CLUSTERS_RESPONSE_CAP ?s"])
      (use mset sorted in \<open>simp add: eq es_def [symmetric]\<close>)
qed

end
