(* ===== verification/Clustering.thy ===== *)
theory Clustering
  imports ClusterStore
begin

text \<open>
  The partition of \<open>cluster_graph\<close>, \<open>src/clustering/community.rs\<close>: extraction, Louvain and repair in a row.
  The theorems hold for every store, every resolution and every arithmetic of the weights: whatever the
  Louvain moves do, the labels are contiguous and a community is connected.
\<close>

definition cluster_partition :: "'f f64 \<Rightarrow> store \<Rightarrow> 'f \<Rightarrow> 'f Adjacency \<times> nat list \<times> 'f" where
  "cluster_partition F store gamma =
     (let adj = extract_adjacency F store;
          (comm, modularity) = louvain F adj gamma
      in (adj, repair_c2 (adj_neighbors adj) comm, modularity))"

lemma cluster_partition_parts:
  "cluster_partition F store gamma = (adj, comm, q) \<longleftrightarrow>
     adj = extract_adjacency F store \<and> comm = repair_c2 (adj_neighbors adj) (fst (louvain F adj gamma))
     \<and> q = snd (louvain F adj gamma)"
  by (auto simp: cluster_partition_def Let_def split: prod.splits)

lemma extract_facts:
  "undirected (adj_neighbors (extract_adjacency F store))"
  "length (adj_neighbors (extract_adjacency F store)) = length (node_ids (extract_adjacency F store))"
  using extract_adjacency_ok [of F store] by (simp_all add: adjacency_ok_def)

lemma louvain_length:
  "length (fst (louvain F (extract_adjacency F store) gamma)) = length (adj_neighbors (extract_adjacency F store))"
  using louvain_partition(1) [OF extract_facts(2)] by (simp add: extract_facts)

text \<open>C14: two symbols of a graph end in one community exactly when the Louvain partition put them together
  and a path of graph edges inside their Louvain community joins them. So every stored community is
  connected, and the repair splits no more than it must.\<close>

theorem communities_connected:
  assumes "cluster_partition F store gamma = (adj, comm, q)"
    and "i < length (node_ids adj)" "j < length (node_ids adj)"
  shows "comm ! i = comm ! j \<longleftrightarrow> (i, j) \<in> (inside (adj_neighbors adj) (fst (louvain F adj gamma)))\<^sup>*"
  using assms by (simp add: cluster_partition_parts repair_exact extract_facts louvain_length)

definition int_arith :: "int f64" where
  "int_arith = \<lparr>f_lit = int, f_add = (+), f_sub = (-), f_mul = (*), f_div = (div), f_eq = (=), f_gt = (>)\<rparr>"

definition sample_store :: store where
  "sample_store q =
     (if q = ''MATCH (n:Function) RETURN n.id ORDER BY n.id'' then Inr [[''a''], [''b''], [''c'']]
      else if q = ''MATCH (a:Function)-[:Calls_Function_Function]->(b:Function) RETURN a.id, b.id ORDER BY a.id, b.id''
      then Inr [[''a'', ''b'']] else Inl ''no table'')"

lemma sample_nodes: "node_ids (extract_adjacency int_arith sample_store) = [''a'', ''b'', ''c'']"
  by code_simp

lemma communities_connected_witness:
  "\<exists>adj comm q. cluster_partition int_arith sample_store 1 = (adj, comm, q) \<and> 0 < length (node_ids adj) \<and> 1 < length (node_ids adj)
     \<and> (comm ! 0 = comm ! 1 \<longleftrightarrow> (0, 1) \<in> (inside (adj_neighbors adj) (fst (louvain int_arith adj 1)))\<^sup>*)"
proof -
  obtain adj comm q where p: "cluster_partition int_arith sample_store 1 = (adj, comm, q)" by (rule prod_cases3)
  then have "node_ids adj = [''a'', ''b'', ''c'']" by (simp add: cluster_partition_parts sample_nodes)
  with p communities_connected [OF p, of 0 1] show ?thesis by (intro exI [of _ adj] exI [of _ comm] exI [of _ q]) simp
qed

text \<open>The partition that is stored has one label for each symbol, and the labels are
  \<open>0 .. k - 1\<close> for the \<open>k\<close> communities, none of them empty.\<close>

theorem communities_contiguous:
  "case cluster_partition F store gamma of (adj, comm, q) \<Rightarrow>
     length comm = length (node_ids adj) \<and> set comm = {..<num_communities comm}"
proof -
  obtain adj comm q where p: "cluster_partition F store gamma = (adj, comm, q)" by (rule prod_cases3)
  then have comm: "comm = repair_c2 (adj_neighbors adj) (fst (louvain F adj gamma))" "adj = extract_adjacency F store"
    by (simp_all add: cluster_partition_parts)
  have "length comm = length (node_ids adj)"
    using length_repair [of "adj_neighbors adj"] by (simp add: comm extract_facts louvain_length)
  moreover have "set comm = {..<num_communities comm}"
    unfolding comm(1) repair_c2_def Let_def by (simp add: set_renumber)
  ultimately show ?thesis by (simp add: p)
qed

end
