(* ===== verification/Processes.thy ===== *)
theory Processes
  imports GraphWrite Adjacency "HOL-Library.AList"
begin

text \<open>
  The call chains of the program, \<open>src/clustering/process.rs\<close>: the entry points that the rules find, the
  breadth-first search of the calls from each, and the process that is stored for it. A hash map that is
  only looked up or counted is an association list in the order of insertion; the confidences are texts.
\<close>

section \<open>Entry points\<close>

record EntryPoint =
  entry_id :: string
  entry_label :: string
  entry_name :: string
  entry_qualified_name :: string
  entry_kind :: string
  entry_confidence :: string

record EntryRule =
  rule_predicate :: string
  rule_kind :: string
  rule_confidence :: string

definition quoted :: "string \<Rightarrow> string" where
  "quoted s = CHR 0x27 # s @ [CHR 0x27]"

definition rule :: "string \<Rightarrow> string \<Rightarrow> string \<Rightarrow> EntryRule" where
  "rule predicate kind confidence = \<lparr>rule_predicate = predicate, rule_kind = kind, rule_confidence = confidence\<rparr>"

definition not_rust :: string where
  "not_rust = ''(f.language IS NULL OR f.language <> '' @ quoted ''rust'' @ '')''"

definition ENTRY_RULES :: "EntryRule list" where
  "ENTRY_RULES = [
     rule (''f.language = '' @ quoted ''rust'' @ '' AND f.entry_kind = '' @ quoted ''proof'') ''proof'' ''1'',
     rule (''f.language = '' @ quoted ''rust'' @ '' AND f.entry_kind = '' @ quoted ''test'') ''test'' ''1'',
     rule (''f.name = '' @ quoted ''main'') ''main'' ''1'',
     rule (''f.language = '' @ quoted ''go'' @ '' AND f.name = '' @ quoted ''Main'') ''main'' ''0.9'',
     rule (not_rust @ '' AND f.name STARTS WITH '' @ quoted ''test_'') ''test'' ''1'',
     rule (''f.name STARTS WITH '' @ quoted ''do_'') ''handler'' ''0.8'',
     rule (''f.name =~ '' @ quoted ''^on[A-Z][A-Za-z]*$'') ''android_lifecycle'' ''0.95'',
     rule (''f.name IN ['' @ join_with '', '' (map quoted [''query'', ''insert'', ''update'', ''delete'', ''getType'', ''openFile'']) @ '']'')
       ''android_provider'' ''0.85'',
     rule (''f.name IN ['' @ join_with '', '' (map quoted [''doWork'', ''createWork'']) @ '']'') ''android_worker'' ''0.95'',
     rule (''f.name =~ '' @ quoted ''^[A-Z][a-zA-Z0-9]{1,40}$'' @ '' AND f.visibility IN [''
       @ join_with '', '' (map quoted [''public'', ''pub'']) @ '']'') ''composable_candidate'' ''0.5'',
     rule (not_rust @ '' AND f.name STARTS WITH '' @ quoted ''test'' @ '' AND NOT f.name STARTS WITH '' @ quoted ''test_'')
       ''test'' ''1'',
     rule (not_rust @ '' AND f.name ENDS WITH '' @ quoted ''Test'') ''test'' ''1'',
     rule (''f.name ENDS WITH '' @ quoted ''_handler'' @ '' OR f.name ENDS WITH '' @ quoted ''Handler'') ''handler'' ''0.8'']"

fun entry_of_row :: "string \<Rightarrow> string \<Rightarrow> string list \<Rightarrow> EntryPoint option" where
  "entry_of_row kind confidence (i # n # qn # cells) =
     Some \<lparr>entry_id = i, entry_label = ''Function'', entry_name = n, entry_qualified_name = qn,
       entry_kind = kind, entry_confidence = confidence\<rparr>"
| "entry_of_row kind confidence cells = None"

definition query_entries :: "store \<Rightarrow> EntryRule \<Rightarrow> EntryPoint list \<Rightarrow> string + EntryPoint list" where
  "query_entries store r out =
     and_then (store (''MATCH (f:Function) WHERE '' @ rule_predicate r @ '' RETURN f.id, f.name, f.qualified_name''))
       (\<lambda>rows. Inr (out @ List.map_filter (entry_of_row (rule_kind r) (rule_confidence r)) rows))"

fun query_rules :: "store \<Rightarrow> EntryRule list \<Rightarrow> EntryPoint list \<Rightarrow> string + EntryPoint list" where
  "query_rules store [] out = Inr out"
| "query_rules store (r # rs) out = and_then (query_entries store r out) (query_rules store rs)"

definition PUBLIC_VISIBILITY_VALUES :: "string list" where
  "PUBLIC_VISIBILITY_VALUES = [''pub'', ''export'', ''public'', ''open'']"

definition LIB_ENTRY_FILE_EXTENSIONS :: "string list" where
  "LIB_ENTRY_FILE_EXTENSIONS =
     [''.rs'', ''.ts'', ''.tsx'', ''.js'', ''.mjs'', ''.cjs'', ''.jsx'', ''.py'', ''.java'', ''.kt'', ''.kts'', ''.swift'',
      ''.go'', ''.c'', ''.h'', ''.cc'', ''.cpp'', ''.cxx'', ''.hpp'', ''.m'', ''.mm'']"

definition ends_with_any :: "string \<Rightarrow> string list \<Rightarrow> bool" where
  "ends_with_any s suffixes \<longleftrightarrow> list_ex (\<lambda>suf. ends_with s suf) suffixes"

definition add_lib_entry :: "string list \<Rightarrow> EntryPoint list \<Rightarrow> EntryPoint list" where
  "add_lib_entry row es =
     (case entry_of_row ''lib_entry'' ''0.6'' row of
        None \<Rightarrow> es
      | Some e \<Rightarrow>
          let segments = split_on ''::'' (entry_qualified_name e)
          in if length segments = 2 \<and> ends_with_any (hd segments) LIB_ENTRY_FILE_EXTENSIONS
               \<and> \<not> list_ex (\<lambda>f. entry_id f = entry_id e) es
             then es @ [e] else es)"

definition detect_lib_entries :: "store \<Rightarrow> EntryPoint list \<Rightarrow> string + EntryPoint list" where
  "detect_lib_entries store es =
     and_then (store (''MATCH (f:Function) WHERE f.visibility IN ['' @ join_with '','' (map quoted PUBLIC_VISIBILITY_VALUES)
         @ ''] RETURN f.id, f.name, f.qualified_name''))
       (\<lambda>rows. Inr (fold add_lib_entry rows es))"

text \<open>\<open>retain(|e| seen.insert(e.id))\<close>: the first entry of every id.\<close>

fun retain_first :: "string set \<Rightarrow> EntryPoint list \<Rightarrow> EntryPoint list" where
  "retain_first seen [] = []"
| "retain_first seen (e # es) =
     (if entry_id e \<in> seen then retain_first seen es else e # retain_first (insert (entry_id e) seen) es)"

definition detect_entry_points :: "store \<Rightarrow> string + EntryPoint list" where
  "detect_entry_points store =
     and_then (query_rules store ENTRY_RULES []) (\<lambda>es.
     and_then (detect_lib_entries store es) (\<lambda>es. Inr (retain_first {} es)))"

section \<open>The search\<close>

type_synonym call_graph = "(string \<times> string list) list"
type_synonym depths = "(string \<times> nat) list"

definition MAX_BFS_DEPTH :: nat where "MAX_BFS_DEPTH = 20"

fun visit_targets :: "nat \<Rightarrow> string list \<Rightarrow> depths \<times> (string \<times> nat) list \<Rightarrow> depths \<times> (string \<times> nat) list" where
  "visit_targets depth [] st = st"
| "visit_targets depth (t # targets) (depths, queue) =
     (if map_of depths t = None
      then visit_targets depth targets (depths @ [(t, depth + 1)], queue @ [(t, depth + 1)])
      else visit_targets depth targets (depths, queue))"

definition targets_of :: "call_graph \<Rightarrow> string \<Rightarrow> string list" where
  "targets_of calls n = (case map_of calls n of Some ts \<Rightarrow> ts | None \<Rightarrow> [])"

function bfs_loop :: "call_graph \<Rightarrow> depths \<Rightarrow> (string \<times> nat) list \<Rightarrow> depths" where
  "bfs_loop calls depths [] = depths"
| "bfs_loop calls depths ((n, depth) # queue) =
     (if MAX_BFS_DEPTH \<le> depth then bfs_loop calls depths queue
      else let (depths, queue) = visit_targets depth (targets_of calls n) (depths, queue)
           in bfs_loop calls depths queue)"
  by pat_completeness auto

text \<open>What a visit adds: the targets that have no depth yet, once each, at the next depth.\<close>

lemma visit_targets_adds:
  "visit_targets d ts (depths, queue) = (depths', queue') \<Longrightarrow>
     \<exists>new. depths' = depths @ new \<and> queue' = queue @ new \<and> distinct (map fst new)
       \<and> fst ` set new = set ts - fst ` set depths \<and> snd ` set new \<subseteq> {d + 1}"
proof (induction ts arbitrary: depths queue)
  case (Cons t ts)
  show ?case
  proof (cases "map_of depths t = None")
    case True
    then have new: "t \<notin> fst ` set depths" by (simp add: map_of_eq_None_iff)
    from True Cons.prems have "visit_targets d ts (depths @ [(t, d + 1)], queue @ [(t, d + 1)]) = (depths', queue')" by simp
    from Cons.IH [OF this] obtain new where n: "depths' = (depths @ [(t, d + 1)]) @ new" "queue' = (queue @ [(t, d + 1)]) @ new"
      "distinct (map fst new)" "fst ` set new = set ts - fst ` set (depths @ [(t, d + 1)])" "snd ` set new \<subseteq> {d + 1}" by blast
    then have "t \<notin> fst ` set new" by simp
    then show ?thesis using n new by (intro exI [of _ "(t, d + 1) # new"]) auto
  next
    case False
    then have old: "t \<in> fst ` set depths" by (metis map_of_eq_None_iff)
    from False Cons.prems have "visit_targets d ts (depths, queue) = (depths', queue')" by auto
    from Cons.IH [OF this] show ?thesis using old by auto
  qed
qed auto

definition all_targets :: "call_graph \<Rightarrow> string set" where
  "all_targets calls = \<Union> (set ` snd ` set calls)"

lemma targets_of_all: "set (targets_of calls n) \<subseteq> all_targets calls"
proof (cases "map_of calls n")
  case (Some ts)
  then have "(n, ts) \<in> set calls" by (rule map_of_SomeD)
  then show ?thesis using Some by (force simp: targets_of_def all_targets_def)
qed (simp add: targets_of_def)

lemma visit_measure:
  assumes "visit_targets d (targets_of calls n) (depths, queue) = (depths', queue')"
  shows "card (all_targets calls - fst ` set depths') + length queue' = card (all_targets calls - fst ` set depths) + length queue"
proof -
  from visit_targets_adds [OF assms] obtain new where n: "depths' = depths @ new" "queue' = queue @ new"
    "distinct (map fst new)" "fst ` set new = set (targets_of calls n) - fst ` set depths" by blast
  have fin: "finite (all_targets calls)" by (simp add: all_targets_def)
  have sub: "fst ` set new \<subseteq> all_targets calls - fst ` set depths" using n(4) targets_of_all [of calls n] by auto
  have len: "card (fst ` set new) = length new" using n(3) by (metis distinct_card length_map set_map)
  have "all_targets calls - fst ` set depths' = (all_targets calls - fst ` set depths) - fst ` set new"
    by (auto simp: n(1))
  then have "card (all_targets calls - fst ` set depths') = card (all_targets calls - fst ` set depths) - length new"
    using sub by (simp add: card_Diff_subset len)
  moreover have "length new \<le> card (all_targets calls - fst ` set depths)"
    using sub fin card_mono [of "all_targets calls - fst ` set depths" "fst ` set new"] by (simp add: len)
  ultimately show ?thesis by (simp add: n(2))
qed

termination bfs_loop
proof (relation "measure (\<lambda>(calls, depths, queue). card (all_targets calls - fst ` set depths) + length queue)", goal_cases)
  case (3 calls depths n depth queue p depths' queue')
  then have "visit_targets depth (targets_of calls n) (depths, queue) = (depths', queue')" by simp
  from visit_measure [OF this] show ?case by simp
qed simp_all

definition bfs_from_entry :: "string \<Rightarrow> call_graph \<Rightarrow> depths" where
  "bfs_from_entry start calls = bfs_loop calls [(start, 0)] [(start, 0)]"

section \<open>The search finds the shortest call chains\<close>

definition calls_rel :: "call_graph \<Rightarrow> (string \<times> string) set" where
  "calls_rel calls = {(a, b). b \<in> set (targets_of calls a)}"

definition bfs_inv :: "call_graph \<Rightarrow> string \<Rightarrow> depths \<Rightarrow> (string \<times> nat) list \<Rightarrow> bool" where
  "bfs_inv calls s depths queue \<longleftrightarrow>
     distinct (map fst depths) \<and> map_of depths s = Some 0
     \<and> (\<forall>v d. map_of depths v = Some d \<longrightarrow> (s, v) \<in> calls_rel calls ^^ d \<and> d \<le> MAX_BFS_DEPTH)
     \<and> (\<forall>v d. (v, d) \<in> set queue \<longrightarrow> map_of depths v = Some d)
     \<and> sorted (map snd queue)
     \<and> (queue \<noteq> [] \<longrightarrow> (\<forall>v d. map_of depths v = Some d \<longrightarrow> d \<le> Suc (snd (hd queue))))
     \<and> (\<forall>v d w. map_of depths v = Some d \<longrightarrow> (v, d) \<notin> set queue \<longrightarrow> d < MAX_BFS_DEPTH \<longrightarrow> (v, w) \<in> calls_rel calls \<longrightarrow>
          (\<exists>e. map_of depths w = Some e \<and> e \<le> Suc d))"

lemma bfs_invI:
  assumes "distinct (map fst depths)" "map_of depths s = Some 0"
    "\<And>v d. map_of depths v = Some d \<Longrightarrow> (s, v) \<in> calls_rel calls ^^ d \<and> d \<le> MAX_BFS_DEPTH"
    "\<And>v d. (v, d) \<in> set queue \<Longrightarrow> map_of depths v = Some d"
    "sorted (map snd queue)"
    "\<And>v d. queue \<noteq> [] \<Longrightarrow> map_of depths v = Some d \<Longrightarrow> d \<le> Suc (snd (hd queue))"
    "\<And>v d w. map_of depths v = Some d \<Longrightarrow> (v, d) \<notin> set queue \<Longrightarrow> d < MAX_BFS_DEPTH \<Longrightarrow> (v, w) \<in> calls_rel calls \<Longrightarrow>
       \<exists>e. map_of depths w = Some e \<and> e \<le> Suc d"
  shows "bfs_inv calls s depths queue"
  unfolding bfs_inv_def using assms by (intro conjI allI impI; blast)

lemma bfs_invD:
  assumes "bfs_inv calls s depths queue"
  shows "distinct (map fst depths)" "map_of depths s = Some 0"
    "map_of depths v = Some d \<Longrightarrow> (s, v) \<in> calls_rel calls ^^ d" "map_of depths v = Some d \<Longrightarrow> d \<le> MAX_BFS_DEPTH"
    "(v, d) \<in> set queue \<Longrightarrow> map_of depths v = Some d"
    "sorted (map snd queue)"
    "queue \<noteq> [] \<Longrightarrow> map_of depths v = Some d \<Longrightarrow> d \<le> Suc (snd (hd queue))"
    "map_of depths v = Some d \<Longrightarrow> (v, d) \<notin> set queue \<Longrightarrow> d < MAX_BFS_DEPTH \<Longrightarrow> (v, w) \<in> calls_rel calls \<Longrightarrow>
       \<exists>e. map_of depths w = Some e \<and> e \<le> Suc d"
  using assms unfolding bfs_inv_def by auto

lemma sorted_tl_hd: "sorted (map snd ((n, d) # queue)) \<Longrightarrow> queue \<noteq> [] \<Longrightarrow> d \<le> snd (hd queue)"
  by (cases queue) auto

lemma bfs_inv_skip:
  assumes "bfs_inv calls s depths ((n, d) # queue)" "MAX_BFS_DEPTH \<le> d"
  shows "bfs_inv calls s depths queue"
proof (rule bfs_invI)
  note I = bfs_invD [OF assms(1)]
  show "distinct (map fst depths)" "map_of depths s = Some 0" by (fact I)+
  show "sorted (map snd queue)" using I(6) by simp
  fix v d' w
  show "map_of depths v = Some d' \<Longrightarrow> (s, v) \<in> calls_rel calls ^^ d' \<and> d' \<le> MAX_BFS_DEPTH"
    using I(3,4) by blast
  show "(v, d') \<in> set queue \<Longrightarrow> map_of depths v = Some d'" using I(5) by simp
  show "d' \<le> Suc (snd (hd queue))" if "queue \<noteq> []" "map_of depths v = Some d'"
    using I(7) [OF _ that(2)] sorted_tl_hd [OF I(6) that(1)] by simp
  show "\<exists>e. map_of depths w = Some e \<and> e \<le> Suc d'"
    if "map_of depths v = Some d'" "(v, d') \<notin> set queue" "d' < MAX_BFS_DEPTH" "(v, w) \<in> calls_rel calls"
    using I(8) [OF that(1) _ that(3,4)] that(2,3) assms(2) by auto
qed

lemma bfs_inv_step:
  assumes inv: "bfs_inv calls s depths ((n, d) # queue)" and d: "d < MAX_BFS_DEPTH"
    and visit: "visit_targets d (targets_of calls n) (depths, queue) = (depths', queue')"
  shows "bfs_inv calls s depths' queue'"
proof -
  note I = bfs_invD [OF inv]
  from visit_targets_adds [OF visit] obtain new where new: "depths' = depths @ new" "queue' = queue @ new"
    "distinct (map fst new)" "fst ` set new = set (targets_of calls n) - fst ` set depths" "snd ` set new \<subseteq> {d + 1}" by blast
  have old: "map_of depths' v = Some e" if "map_of depths v = Some e" for v e
    using that by (simp add: new(1) map_add_def)
  have elem: "e = Suc d \<and> v \<in> fst ` set new" if "(v, e) \<in> set new" for v e
  proof -
    have "e \<in> snd ` set new" "v \<in> fst ` set new" using that by force+
    then show ?thesis using new(5) by auto
  qed
  have new_in: "map_of depths' v = Some (Suc d)" if v: "v \<in> fst ` set new" for v
  proof -
    have "map_of depths v = None" using v new(4) by (simp add: map_of_eq_None_iff)
    moreover obtain e where e: "map_of new v = Some e" using v by (cases "map_of new v") (auto simp: map_of_eq_None_iff)
    moreover have "e = Suc d" using elem [OF map_of_SomeD [OF e]] by simp
    ultimately show ?thesis by (simp add: new(1) map_add_def)
  qed
  have cases: "map_of depths v = Some e \<or> v \<in> fst ` set new \<and> e = Suc d" if "map_of depths' v = Some e" for v e
  proof (cases "map_of depths v")
    case None
    then have "map_of new v = Some e" using that by (simp add: new(1) map_add_def)
    then have "(v, e) \<in> set new" by (rule map_of_SomeD)
    then show ?thesis using elem by blast
  next
    case (Some e')
    then show ?thesis using that old by simp
  qed
  have n_d: "map_of depths n = Some d" using I(5) by simp
  have target: "(n, v) \<in> calls_rel calls" if "v \<in> fst ` set new" for v
    using that new(4) by (simp add: calls_rel_def)
  have all_le: "e \<le> Suc d" if "map_of depths' v = Some e" for v e
    using cases [OF that] I(7) [of v e] by auto
  have "distinct (map fst depths')" using I(1) new(3,4) by (auto simp: new(1))
  moreover have "map_of depths' s = Some 0" using I(2) old by blast
  moreover have "(s, v) \<in> calls_rel calls ^^ e \<and> e \<le> MAX_BFS_DEPTH" if "map_of depths' v = Some e" for v e
    using cases [OF that] I(3,4) [of v] I(3) [OF n_d] target [of v] d by (auto intro: relpow_Suc_I)
  moreover have "map_of depths' v = Some e" if "(v, e) \<in> set queue'" for v e
  proof (cases "(v, e) \<in> set new")
    case True
    then show ?thesis using new_in elem by blast
  next
    case False
    then show ?thesis using that I(5) [of v e] old by (auto simp: new(2))
  qed
  moreover have "sorted (map snd queue')"
  proof -
    have "x \<le> Suc d" if "x \<in> snd ` set queue" for x using that I(5) all_le old by fastforce
    moreover have "map snd new = replicate (length new) (Suc d)"
      using new(5) by (intro replicate_eqI) auto
    ultimately show ?thesis using I(6) new(5) by (auto simp: new(2) sorted_append)
  qed
  moreover have "e \<le> Suc (snd (hd queue'))" if "queue' \<noteq> []" "map_of depths' v = Some e" for v e
  proof -
    have "d \<le> snd (hd queue')"
      using that(1) sorted_tl_hd [OF I(6)] new(5) by (cases queue; cases new) (auto simp: new(2))
    then show ?thesis using all_le [OF that(2)] by simp
  qed
  moreover have "\<exists>e. map_of depths' w = Some e \<and> e \<le> Suc d'"
    if v: "map_of depths' v = Some d'" "(v, d') \<notin> set queue'" "d' < MAX_BFS_DEPTH" "(v, w) \<in> calls_rel calls" for v d' w
  proof (cases "v = n \<and> d' = d")
    case True
    then have w: "w \<in> set (targets_of calls n)" using v(4) by (simp add: calls_rel_def)
    show ?thesis
    proof (cases "w \<in> fst ` set new")
      case True
      then show ?thesis using new_in \<open>v = n \<and> d' = d\<close> by blast
    next
      case False
      then have "w \<in> fst ` set depths" using w new(4) by blast
      then obtain e where "map_of depths w = Some e" by (metis map_of_eq_None_iff not_None_eq)
      then show ?thesis using old all_le \<open>v = n \<and> d' = d\<close> by blast
    qed
  next
    case False
    have "v \<notin> fst ` set new"
    proof
      assume "v \<in> fst ` set new"
      then obtain e where e: "(v, e) \<in> set new" by auto
      then have "e = Suc d" "d' = Suc d" using elem [OF e] new_in [of v] v(1) by simp_all
      then show False using e v(2) by (simp add: new(2))
    qed
    then have "map_of depths v = Some d'" using cases [OF v(1)] by blast
    moreover have "(v, d') \<notin> set ((n, d) # queue)" using False v(2) by (auto simp: new(2))
    ultimately obtain e where "map_of depths w = Some e" "e \<le> Suc d'" using I(8) v(3,4) by blast
    then show ?thesis using old by blast
  qed
  ultimately show ?thesis by (rule bfs_invI)
qed

lemma bfs_loop_inv: "bfs_inv calls s depths queue \<Longrightarrow> bfs_inv calls s (bfs_loop calls depths queue) []"
proof (induction calls depths queue rule: bfs_loop.induct)
  case (2 calls depths n d queue)
  show ?case
  proof (cases "MAX_BFS_DEPTH \<le> d")
    case True
    then show ?thesis using 2(1) bfs_inv_skip [OF 2(3) True] by simp
  next
    case False
    obtain depths' queue' where v: "visit_targets d (targets_of calls n) (depths, queue) = (depths', queue')" by fastforce
    have "bfs_inv calls s depths' queue'" using bfs_inv_step [OF 2(3) _ v] False by simp
    then show ?thesis using 2(2) [OF False v [symmetric] refl] False by (simp add: v)
  qed
qed simp

lemma bfs_from_entry_inv: "bfs_inv calls s (bfs_from_entry s calls) []"
  unfolding bfs_from_entry_def by (rule bfs_loop_inv, rule bfs_invI) (auto split: if_splits)

lemma bfs_reaches:
  "(s, v) \<in> calls_rel calls ^^ k \<Longrightarrow> k \<le> MAX_BFS_DEPTH \<Longrightarrow> \<exists>e \<le> k. map_of (bfs_from_entry s calls) v = Some e"
proof (induction k arbitrary: v)
  case 0
  then show ?case using bfs_invD(2) [OF bfs_from_entry_inv] by simp
next
  case (Suc k)
  then obtain u where u: "(s, u) \<in> calls_rel calls ^^ k" "(u, v) \<in> calls_rel calls" by auto
  then obtain e where e: "e \<le> k" "map_of (bfs_from_entry s calls) u = Some e" using Suc by auto
  then have "e < MAX_BFS_DEPTH" using Suc.prems by simp
  then obtain f where "map_of (bfs_from_entry s calls) v = Some f" "f \<le> Suc e"
    using bfs_invD(8) [OF bfs_from_entry_inv e(2) _ _ u(2)] by auto
  then show ?case using e(1) by (intro exI [of _ f]) simp
qed

text \<open>C18: the depth that a process stores for a function is the length of the shortest chain of calls from
  the entry point to it, and a function takes part in the process exactly when such a chain of at most
  20 calls exists.\<close>

theorem bfs_shortest_chains:
  "map_of (bfs_from_entry start calls) v = Some d \<longleftrightarrow>
     d \<le> MAX_BFS_DEPTH \<and> (start, v) \<in> calls_rel calls ^^ d
     \<and> {k. k < d \<and> (start, v) \<in> calls_rel calls ^^ k} = {}"
proof
  assume d: "map_of (bfs_from_entry start calls) v = Some d"
  note I = bfs_invD [OF bfs_from_entry_inv]
  have "\<not> k < d" if "(start, v) \<in> calls_rel calls ^^ k" for k
  proof
    assume "k < d"
    then have "k \<le> MAX_BFS_DEPTH" using I(4) [OF d] by simp
    then show False using bfs_reaches [OF that] d \<open>k < d\<close> by auto
  qed
  then show "d \<le> MAX_BFS_DEPTH \<and> (start, v) \<in> calls_rel calls ^^ d
     \<and> {k. k < d \<and> (start, v) \<in> calls_rel calls ^^ k} = {}" using I(3,4) [OF d] by blast
next
  assume d: "d \<le> MAX_BFS_DEPTH \<and> (start, v) \<in> calls_rel calls ^^ d
     \<and> {k. k < d \<and> (start, v) \<in> calls_rel calls ^^ k} = {}"
  then obtain e where e: "e \<le> d" "map_of (bfs_from_entry start calls) v = Some e" using bfs_reaches by blast
  then have "(start, v) \<in> calls_rel calls ^^ e" by (intro bfs_invD(3) [OF bfs_from_entry_inv])
  then have "\<not> e < d" using d by blast
  then show "map_of (bfs_from_entry start calls) v = Some d" using e by simp
qed

section \<open>The stored processes\<close>

fun collect_call_row :: "string list \<Rightarrow> call_graph \<Rightarrow> call_graph" where
  "collect_call_row (a # b # cells) [] = [(a, [b])]"
| "collect_call_row (a # b # cells) ((n, ts) # calls) =
     (if n = a then (n, ts @ [b]) # calls else (n, ts) # collect_call_row (a # b # cells) calls)"
| "collect_call_row cells calls = calls"

definition call_rels :: "(string \<times> string \<times> string) list" where
  "call_rels = [(''Calls_Function_Function'', ''Function'', ''Function''), (''Calls_Function_Method'', ''Function'', ''Method''),
     (''Calls_Method_Function'', ''Method'', ''Function''), (''Calls_Method_Method'', ''Method'', ''Method'')]"

definition collect_call_edges :: "store \<Rightarrow> call_graph" where
  "collect_call_edges store = fold (\<lambda>(rel, from_label, to_label) calls.
     case store (''MATCH (a:'' @ from_label @ '')-[:'' @ rel @ '']->(b:'' @ to_label @ '') RETURN a.id, b.id'') of
       Inl e \<Rightarrow> calls
     | Inr rows \<Rightarrow> fold collect_call_row rows calls) call_rels []"

definition build_call_target_labels :: "store \<Rightarrow> string \<rightharpoonup> string" where
  "build_call_target_labels store = fold (\<lambda>label m.
     case store (''MATCH (n:'' @ label @ '') RETURN n.id'') of
       Inl e \<Rightarrow> m
     | Inr rows \<Rightarrow> fold (\<lambda>row m. case row of [] \<Rightarrow> m | i # cells \<Rightarrow> m(i \<mapsto> label)) rows m)
     [''Function'', ''Method''] Map.empty"

record ProcessInfo =
  process_name :: string
  entry_point :: string
  process_kind :: string
  process_depth :: nat
  node_count :: nat

definition persist_process_node :: "'d executor \<Rightarrow> EntryPoint \<Rightarrow> string \<Rightarrow> nat \<Rightarrow> nat \<Rightarrow> 'd \<Rightarrow> 'd \<times> (string + unit)" where
  "persist_process_node exec e process_id symbol_count max_depth db =
     (case insert_node exec ''Process''
         [(''id'', cypher_str process_id), (''name'', cypher_str process_id),
          (''entry_point_id'', cypher_str (entry_id e)), (''entry_kind'', cypher_str (entry_kind e)),
          (''entry_confidence'', entry_confidence e), (''depth'', dec max_depth), (''symbol_count'', dec symbol_count)] db of
        (db, Inl err) \<Rightarrow> (db, Inl err)
      | (db, Inr u) \<Rightarrow>
          let ep_rel = ''EntryPointOf_'' @ entry_label e @ ''_Process''
          in if \<not> is_known_rel_table ep_rel then (db, Inr ())
             else insert_edge exec ep_rel (entry_id e) process_id [(''confidence'', entry_confidence e)] db)"

fun add_participant :: "string \<Rightarrow> (string \<rightharpoonup> string) \<Rightarrow> string \<times> nat \<Rightarrow> (string \<times> PropEdge list) list
    \<Rightarrow> (string \<times> PropEdge list) list" where
  "add_participant process_id id_to_label (node, depth) by_rel =
     (case id_to_label node of
        None \<Rightarrow> by_rel
      | Some lbl \<Rightarrow>
          let rel = ''ParticipatesIn_'' @ lbl @ ''_Process''
          in if \<not> is_known_rel_table rel then by_rel
             else AList.map_default rel [(node, process_id, [(''depth'', dec depth)])]
                    (\<lambda>es. es @ [(node, process_id, [(''depth'', dec depth)])]) by_rel)"

definition participant_edges :: "string \<Rightarrow> (string \<rightharpoonup> string) \<Rightarrow> depths \<Rightarrow> (string \<times> PropEdge list) list" where
  "participant_edges process_id id_to_label depths = fold (add_participant process_id id_to_label) depths []"

definition process_of :: "EntryPoint \<Rightarrow> call_graph \<Rightarrow> ProcessInfo" where
  "process_of e calls =
     (let depths = bfs_from_entry (entry_id e) calls
      in \<lparr>process_name = ''process::'' @ entry_qualified_name e, entry_point = entry_qualified_name e,
          process_kind = entry_kind e,
          process_depth = (if depths = [] then 0 else Max (snd ` set depths)),
          node_count = length depths\<rparr>)"

end
