(* ===== verification/GraphGate.thy ===== *)
theory GraphGate
  imports GraphWrite ReadOnlyGate
begin

text \<open>
  The string literals of the graph store under the read-only gate: the escape of \<open>cypher_str\<close> and the
  lexer of the gate (\<open>mask_non_executable\<close>) agree on where a literal ends, so no text that goes through
  \<open>cypher_str\<close> can reach the executable part of a statement.
\<close>

lemma skip_quoted_Cons: "c \<noteq> CHR 0x5C \<Longrightarrow> c \<noteq> q \<Longrightarrow>
    skip_quoted q (c # s) = map_option (\<lambda>(n, r'). (n + 1, r')) (skip_quoted q s)"
  by (cases s) auto

lemma skip_quoted_end: "q \<noteq> CHR 0x5C \<Longrightarrow> skip_quoted q (q # r) = Some (1, r)"
  by (cases r) auto

lemma skip_quoted_escape:
  "skip_quoted CHR 0x27 (cypher_escape raw @ CHR 0x27 # rest) = Some (length (cypher_escape raw) + 1, rest)"
  by (induction raw) (auto simp: skip_quoted_end skip_quoted_Cons)

lemma mask_bytes_cypher_str:
  "mask_bytes (cypher_str raw @ rest) = map_option ((@) (replicate (length (cypher_str raw)) MASKED_TOKEN)) (mask_bytes rest)"
  by (simp add: cypher_str_def is_quote_def skip_quoted_escape)

text \<open>A statement as the store formats it: fixed text, a literal, fixed text, and so on. \<open>plain\<close> text opens no
  literal and no comment.\<close>

definition plain :: "string \<Rightarrow> bool" where
  "plain s \<longleftrightarrow> list_all (\<lambda>c. \<not> is_quote c \<and> c \<noteq> CHR ''/'') s"

definition statement :: "(string \<times> string) list \<Rightarrow> string \<Rightarrow> string" where
  "statement parts end_text = concat (map (\<lambda>(pre, raw). pre @ cypher_str raw) parts) @ end_text"

definition masked_statement :: "(string \<times> string) list \<Rightarrow> string \<Rightarrow> string" where
  "masked_statement parts end_text =
     concat (map (\<lambda>(pre, raw). pre @ replicate (length (cypher_str raw)) MASKED_TOKEN) parts) @ end_text"

lemma mask_bytes_plain: "plain s \<Longrightarrow> mask_bytes (s @ rest) = map_option ((@) s) (mask_bytes rest)"
proof (induction s)
  case Nil
  then show ?case by (cases "mask_bytes rest") simp_all
next
  case (Cons c s)
  then show ?case by (cases "mask_bytes rest") (simp_all add: plain_def)
qed

text \<open>C19: values that are written into a statement through \<open>cypher_str\<close> stay literals for the read-only gate:
  whatever the values hold, the executable text that the gate sees is the fixed text of the statement,
  with every literal masked byte for byte.\<close>

theorem values_stay_literals:
  assumes "list_all (plain \<circ> fst) parts" "plain end_text"
  shows "mask_bytes (statement parts end_text) = Some (masked_statement parts end_text)"
  using assms(1)
proof (induction parts)
  case Nil
  then show ?case using mask_bytes_plain [OF assms(2), of "[]"] by (simp add: statement_def masked_statement_def)
next
  case (Cons p parts)
  then show ?case
    by (cases p) (simp add: statement_def masked_statement_def mask_bytes_plain mask_bytes_cypher_str)
qed

lemma values_stay_literals_witness:
  "mask_bytes (statement [(''MATCH (n {id: '', [CHR 0x27] @ ''}) DETACH DELETE n //'')] ''}) RETURN n'')
     = Some (''MATCH (n {id: '' @ replicate 25 MASKED_TOKEN @ ''}) RETURN n'')"
proof -
  have "length (cypher_str ([CHR 0x27] @ ''}) DETACH DELETE n //'')) = 25" by code_simp
  then show ?thesis
    using values_stay_literals [of "[(''MATCH (n {id: '', [CHR 0x27] @ ''}) DETACH DELETE n //'')]" "''}) RETURN n''"]
    by (simp add: masked_statement_def plain_def is_quote_def)
qed

end
