(* ===== verification/AmbiguityPolicy.thy ===== *)
theory AmbiguityPolicy
  imports Prelude "HOL-Library.Multiset"
begin

text \<open>
  How a call with several candidate targets is resolved: the policy of \<open>src/ambiguity_policy.rs\<close> and the two
  passes of \<open>src/call_evidence.rs\<close> over it. A candidate is any value with a qualified name \<open>qn\<close>; the
  confidences are in hundredths.
\<close>

section \<open>The policy\<close>

datatype Evidence = UniqueGlobal | ReceiverBound | ImportMatch | ReceiverLocalBinding | ReceiverReturnType
  | SameFileUnique | PackageProximity | MacroExpansion | MacroReceiverType | CfgSelected

fun confidence_for :: "Evidence \<Rightarrow> nat" where
  "confidence_for UniqueGlobal = 95"
| "confidence_for ReceiverBound = 93"
| "confidence_for ImportMatch = 90"
| "confidence_for ReceiverLocalBinding = 87"
| "confidence_for ReceiverReturnType = 85"
| "confidence_for SameFileUnique = 85"
| "confidence_for PackageProximity = 70"
| "confidence_for MacroExpansion = 85"
| "confidence_for MacroReceiverType = 80"
| "confidence_for CfgSelected = 85"

fun resolution_label :: "Evidence \<Rightarrow> string" where
  "resolution_label UniqueGlobal = ''unique-match''"
| "resolution_label ReceiverBound = ''receiver-type''"
| "resolution_label ImportMatch = ''import-scope-lookup''"
| "resolution_label ReceiverLocalBinding = ''receiver-local-binding''"
| "resolution_label ReceiverReturnType = ''receiver-return-type''"
| "resolution_label SameFileUnique = ''same-file-unique''"
| "resolution_label PackageProximity = ''package-proximity''"
| "resolution_label MacroExpansion = ''macro-expansion''"
| "resolution_label MacroReceiverType = ''macro-expansion-receiver-type''"
| "resolution_label CfgSelected = ''cfg-selected''"

text \<open>Evidence is ordered by strength, weakest first: the order that the tiers of the policy go down.\<close>

instantiation Evidence :: preorder
begin

definition less_eq_Evidence :: "Evidence \<Rightarrow> Evidence \<Rightarrow> bool" where
  "less_eq_Evidence a b \<longleftrightarrow> confidence_for a \<le> confidence_for b"

definition less_Evidence :: "Evidence \<Rightarrow> Evidence \<Rightarrow> bool" where
  "less_Evidence a b \<longleftrightarrow> confidence_for a < confidence_for b"

instance
  by standard (auto simp: less_eq_Evidence_def less_Evidence_def)

end

datatype 'a Resolution = Resolved 'a Evidence nat | Ambiguous "'a list" | NotFound

record Context =
  imports_in_scope :: "string list"
  caller_file :: string
  caller_package :: "string option"

definition resolved :: "'a \<Rightarrow> Evidence \<Rightarrow> 'a Resolution" where
  "resolved target evidence = Resolved target evidence (confidence_for evidence)"

fun unique_loop :: "('a \<Rightarrow> bool) \<Rightarrow> 'a option \<Rightarrow> 'a list \<Rightarrow> 'a option" where
  "unique_loop pred found [] = found"
| "unique_loop pred found (c # cs) =
     (if pred c then if found \<noteq> None then None else unique_loop pred (Some c) cs
      else unique_loop pred found cs)"

definition unique_match :: "'a list \<Rightarrow> ('a \<Rightarrow> bool) \<Rightarrow> 'a option" where
  "unique_match candidates pred = unique_loop pred None candidates"

text \<open>\<open>str::replace("::", "/")\<close>.\<close>

definition slashes :: "string \<Rightarrow> string" where
  "slashes s = join_with ''/'' (split_on ''::'' s)"

definition import_matches :: "string \<Rightarrow> string list \<Rightarrow> bool" where
  "import_matches name imports \<longleftrightarrow>
     (let c_segs = slashes name
      in list_ex (\<lambda>imp. let imp_segs = map (\<lambda>c. if c = CHR ''.'' then CHR ''/'' else c) (slashes imp)
           in ends_with c_segs imp_segs \<or> ends_with imp_segs c_segs) imports)"

definition resolve :: "('a \<Rightarrow> string) \<Rightarrow> 'a list \<Rightarrow> Context \<Rightarrow> 'a Resolution" where
  "resolve qn candidates ctx =
     (if candidates = [] then NotFound
      else if length candidates = 1 then resolved (hd candidates) UniqueGlobal
      else case unique_match candidates (\<lambda>c. import_matches (qn c) (imports_in_scope ctx)) of
        Some target \<Rightarrow> resolved target ImportMatch
      | None \<Rightarrow>
          (case unique_match candidates (\<lambda>c. starts_with (qn c) (caller_file ctx)) of
             Some target \<Rightarrow> resolved target SameFileUnique
           | None \<Rightarrow>
               (case Option.bind (caller_package ctx) (\<lambda>pkg. unique_match candidates (\<lambda>c. starts_with (qn c) pkg)) of
                  Some target \<Rightarrow> resolved target PackageProximity
                | None \<Rightarrow> Ambiguous candidates)))"

section \<open>The two passes\<close>

text \<open>\<open>rsplit_once('#')\<close> with a tail of digits.\<close>

definition strip_seq_suffix :: "string \<Rightarrow> string" where
  "strip_seq_suffix qn =
     (case rsplit_once CHR ''#'' qn of
        Some (head, tail) \<Rightarrow> if tail \<noteq> [] \<and> list_all is_digit tail then head else qn
      | None \<Rightarrow> qn)"

definition bare_name :: "string \<Rightarrow> string" where
  "bare_name qn = strip_seq_suffix (after_colons qn)"

record CallEvidence =
  imports_hint :: "string list"
  evidence_caller_file :: string

definition package_key :: "(string \<Rightarrow> string option) \<Rightarrow> string \<Rightarrow> string \<Rightarrow> string" where
  "package_key package_of file name =
     (case package_of file of Some pkg \<Rightarrow> pkg @ ''::'' @ name | None \<Rightarrow> name)"

definition try_package_pass :: "('a \<Rightarrow> string) \<Rightarrow> ('a \<Rightarrow> string) \<Rightarrow> (string \<Rightarrow> string option) \<Rightarrow> CallEvidence
    \<Rightarrow> 'a list \<Rightarrow> 'a Resolution option" where
  "try_package_pass qn_of file_of package_of ev candidates =
     (let keyed = map (\<lambda>c. (c, package_key package_of (file_of c) (bare_name (qn_of c)))) candidates;
          ctx = \<lparr>imports_in_scope = imports_hint ev, caller_file = [], caller_package = None\<rparr>
      in case resolve snd keyed ctx of
           Resolved target evidence confidence \<Rightarrow> Some (Resolved (fst target) evidence confidence)
         | _ \<Rightarrow> None)"

definition file_pass :: "('a \<Rightarrow> string) \<Rightarrow> (string \<Rightarrow> string option) \<Rightarrow> CallEvidence \<Rightarrow> 'a list \<Rightarrow> 'a Resolution" where
  "file_pass qn_of package_of ev candidates =
     (let keyed = map (\<lambda>c. (c, strip_seq_suffix (qn_of c))) candidates;
          ctx = \<lparr>imports_in_scope = imports_hint ev, caller_file = evidence_caller_file ev,
                 caller_package = package_of (evidence_caller_file ev)\<rparr>
      in case resolve snd keyed ctx of
           Resolved target evidence confidence \<Rightarrow> Resolved (fst target) evidence confidence
         | Ambiguous cs \<Rightarrow> Ambiguous (map fst cs)
         | NotFound \<Rightarrow> NotFound)"

definition resolve_two_pass :: "('a \<Rightarrow> string) \<Rightarrow> ('a \<Rightarrow> string) \<Rightarrow> (string \<Rightarrow> string option) \<Rightarrow> CallEvidence
    \<Rightarrow> 'a list \<Rightarrow> 'a Resolution" where
  "resolve_two_pass qn_of file_of package_of ev candidates =
     (case try_package_pass qn_of file_of package_of ev candidates of
        Some r \<Rightarrow> r
      | None \<Rightarrow> file_pass qn_of package_of ev candidates)"

definition before_angle :: "string \<Rightarrow> string" where
  "before_angle s = takeWhile (\<lambda>c. c \<noteq> CHR ''<'') s"

definition callee_path_segments :: "string \<Rightarrow> string list option" where
  "callee_path_segments callee =
     (if \<not> contains callee ''::'' \<or> list_ex (\<lambda>c. c \<in> {CHR ''.'', CHR ''('', CHR ''[''}) callee then None
      else let segments = filter (\<lambda>s. s \<noteq> []) (map before_angle (split_on ''::'' callee))
           in if 2 \<le> length segments then Some segments else None)"

definition callee_names_type :: "string \<Rightarrow> string option" where
  "callee_names_type callee =
     map_option (\<lambda>segments. segments ! (length segments - 2)) (callee_path_segments callee)"

text \<open>A path inside generic arguments is cut as if it were a segment of the callee.\<close>

lemma callee_names_type_generic_path:
  "callee_path_segments ''Vec::<u8>::new'' = Some [''Vec'', ''new'']"
  "callee_names_type ''Map::<a::B, C>::new'' = Some ''B, C>''"
  by code_simp+

section \<open>The order of the candidates does not matter\<close>

lemma unique_loop_Some: "unique_loop pred (Some c) cs = (if filter pred cs = [] then Some c else None)"
  by (induction cs) auto

lemma unique_match_eq: "unique_match cs pred = (case filter pred cs of [c] \<Rightarrow> Some c | _ \<Rightarrow> None)"
  unfolding unique_match_def by (induction cs) (auto simp: unique_loop_Some split: list.splits)

lemma mset_singleton_list: "mset xs = {#c#} \<longleftrightarrow> xs = [c]"
  by (cases xs) (auto simp: single_is_union)

lemma unique_match_Some: "unique_match cs pred = Some c \<longleftrightarrow> filter_mset pred (mset cs) = {#c#}"
proof -
  have "(case xs of [c] \<Rightarrow> Some c | _ \<Rightarrow> None) = Some c \<longleftrightarrow> xs = [c]" for xs :: "'a list" and c
    by (cases xs rule: remdups_adj.cases) auto
  then show ?thesis unfolding unique_match_eq mset_filter [symmetric] mset_singleton_list .
qed

lemma unique_match_mset: "mset cs = mset ds \<Longrightarrow> unique_match cs pred = unique_match ds pred"
proof -
  assume "mset cs = mset ds"
  then have "unique_match cs pred = Some c \<longleftrightarrow> unique_match ds pred = Some c" for c
    unfolding unique_match_Some by simp
  then show ?thesis by (cases "unique_match ds pred") (auto intro: option.exhaust)
qed

definition same_resolution :: "'a Resolution \<Rightarrow> 'a Resolution \<Rightarrow> bool" where
  "same_resolution r r' =
     (case (r, r') of
        (Ambiguous cs, Ambiguous ds) \<Rightarrow> mset cs = mset ds
      | _ \<Rightarrow> r = r')"

text \<open>The resolution of a call does not depend on the order in which its candidates were found: the
  target, the evidence and the confidence are the same for every order, and so is the set of candidates
  of an ambiguous call.\<close>

theorem resolve_order_invariant:
  assumes "mset cs = mset ds"
  shows "same_resolution (resolve qn cs ctx) (resolve qn ds ctx)"
proof -
  have len: "length cs = length ds" using assms by (metis size_mset)
  have u: "unique_match cs = unique_match ds" using unique_match_mset [OF assms] by (rule ext)
  show ?thesis
  proof (cases "length cs = 1")
    case True
    then obtain c where "cs = [c]" by (metis One_nat_def length_0_conv length_Suc_conv)
    then have "ds = [c]" using assms mset_singleton_list [of ds c] by simp
    then show ?thesis using \<open>cs = [c]\<close> by (simp add: resolve_def same_resolution_def resolved_def)
  next
    case False
    then have ds: "length ds \<noteq> 1" "ds = [] \<longleftrightarrow> cs = []" using len by auto
    have f: "length cs \<noteq> Suc 0" "length ds \<noteq> Suc 0" using False ds by simp_all
    let ?imp = "unique_match ds (\<lambda>c. import_matches (qn c) (imports_in_scope ctx))"
    let ?file = "unique_match ds (\<lambda>c. starts_with (qn c) (caller_file ctx))"
    let ?pkg = "Option.bind (caller_package ctx) (\<lambda>pkg. unique_match ds (\<lambda>c. starts_with (qn c) pkg))"
    show ?thesis
      unfolding resolve_def u same_resolution_def
      by (cases ?imp; cases ?file; cases ?pkg) (simp_all add: f ds assms resolved_def)
  qed
qed

lemma resolve_order_invariant_witness:
  "same_resolution (resolve id [''a.rs::f'', ''b.rs::f''] \<lparr>imports_in_scope = [], caller_file = ''b.rs'', caller_package = None\<rparr>)
     (resolve id [''b.rs::f'', ''a.rs::f''] \<lparr>imports_in_scope = [], caller_file = ''b.rs'', caller_package = None\<rparr>)"
  by (rule resolve_order_invariant) simp

section \<open>The package pass\<close>

lemma unique_match_uniform:
  assumes "2 \<le> length cs" "\<And>c d. c \<in> set cs \<Longrightarrow> d \<in> set cs \<Longrightarrow> pred c = pred d"
  shows "unique_match cs pred = None"
proof (cases cs)
  case (Cons c rest)
  then obtain d rest' where cs: "cs = c # d # rest'" using assms(1) by (cases rest) auto
  show ?thesis
  proof (cases "pred c")
    case True
    then have "\<forall>x \<in> set cs. pred x" using assms(2) cs by (metis list.set_intros(1))
    then have "filter pred cs = cs" by simp
    then show ?thesis by (simp add: unique_match_eq cs)
  next
    case False
    then have "\<forall>x \<in> set cs. \<not> pred x" using assms(2) cs by (metis list.set_intros(1))
    then have "filter pred cs = []" by simp
    then show ?thesis by (simp add: unique_match_eq)
  qed
qed (use assms(1) in simp)

text \<open>For a language without packages the first pass decides nothing: with two or more candidates of one
  bare name the outcome is that of the file pass alone.\<close>

theorem package_pass_noop:
  assumes "2 \<le> length candidates" "\<And>c. c \<in> set candidates \<Longrightarrow> bare_name (qn_of c) = name"
    and "\<And>c. c \<in> set candidates \<Longrightarrow> package_of (file_of c) = None"
  shows "resolve_two_pass qn_of file_of package_of ev candidates = file_pass qn_of package_of ev candidates"
proof -
  define keyed where "keyed = map (\<lambda>c. (c, package_key package_of (file_of c) (bare_name (qn_of c)))) candidates"
  have key: "snd k = name" if "k \<in> set keyed" for k
    using that assms(2,3) by (auto simp: keyed_def package_key_def)
  have len: "2 \<le> length keyed" "keyed \<noteq> []" "length keyed \<noteq> Suc 0" using assms(1) by (auto simp: keyed_def)
  have none: "unique_match keyed (\<lambda>k. P (snd k)) = None" for P
    by (rule unique_match_uniform [OF len(1)]) (simp add: key)
  have "resolve snd keyed \<lparr>imports_in_scope = imports_hint ev, caller_file = [], caller_package = None\<rparr> = Ambiguous keyed"
    using none [of "\<lambda>n. import_matches n (imports_hint ev)"] none [of "\<lambda>n. starts_with n []"] len
    by (simp add: resolve_def)
  then have "try_package_pass qn_of file_of package_of ev candidates = None"
    by (simp add: try_package_pass_def Let_def keyed_def)
  then show ?thesis by (simp add: resolve_two_pass_def)
qed

lemma package_pass_noop_witness:
  "resolve_two_pass id id (\<lambda>f. None) \<lparr>imports_hint = [], evidence_caller_file = ''b.rs''\<rparr> [''a.rs::f'', ''b.rs::f'']
     = file_pass id (\<lambda>f. None) \<lparr>imports_hint = [], evidence_caller_file = ''b.rs''\<rparr> [''a.rs::f'', ''b.rs::f'']"
proof (rule package_pass_noop)
  have "bare_name ''a.rs::f'' = ''f''" "bare_name ''b.rs::f'' = ''f''" by code_simp+
  then show "bare_name (id c) = ''f''" if "c \<in> set [''a.rs::f'', ''b.rs::f'']" for c using that by auto
qed simp_all

text \<open>A defect. The tiers compare texts, not paths: a call in \<open>src/a.c\<close> takes a function of \<open>src/a.cpp\<close>
  for one of its own file, and an import of \<open>util::f\<close> matches the function \<open>f\<close> of a module \<open>myutil\<close>,
  although the import is no path-segment suffix of it.\<close>

theorem tiers_cross_path_segments:
  "resolve id [''src/a.cpp::f'', ''src/b.cpp::f''] \<lparr>imports_in_scope = [], caller_file = ''src/a.c'', caller_package = None\<rparr>
     = Resolved ''src/a.cpp::f'' SameFileUnique 85
   \<and> resolve id [''net.rs::myutil::f'', ''net.rs::other::f'']
        \<lparr>imports_in_scope = [''util::f''], caller_file = ''main.rs'', caller_package = None\<rparr>
     = Resolved ''net.rs::myutil::f'' ImportMatch 90"
  by code_simp

end
