(* ===== verification/CfgTwins.thy ===== *)
theory CfgTwins
  imports CfgCompact GraphWrite Adjacency
begin

text \<open>
  The gates in the id of an item: \<open>src/graph_store/cfg_twins.rs\<close>, the readers of
  \<open>src/graph_store/cfg_active.rs\<close> and \<open>cfg_active/file_scope.rs\<close>, the suffix that
  \<open>src/parser/spec/rust_cfg_gate.rs\<close> writes and the file of an id,
  \<open>src/language_provider/file_prefix.rs\<close>. A row of an answer has as many cells as its query returns
  columns; a shorter row is skipped.
\<close>

section \<open>The file of an id\<close>

definition ALL_EXTENSIONS :: "string list" where
  "ALL_EXTENSIONS = [
     ''rs'', ''py'', ''ts'', ''tsx'', ''java'', ''kt'', ''kts'', ''swift'', ''m'', ''mm'', ''c'', ''h'', ''cc'', ''cpp'', ''cxx'',
     ''hh'', ''hpp'', ''hxx'', ''go'', ''js'', ''jsx'', ''mjs'', ''cjs'', ''rb'']"

fun prefix_by_extension :: "string list \<Rightarrow> string \<Rightarrow> string option" where
  "prefix_by_extension [] i = None"
| "prefix_by_extension (ext # exts) i =
     (let marker = ''.'' @ ext @ ''::''
      in case find_str marker i of
           Some n \<Rightarrow> Some (take (n + length marker - 2) i)
         | None \<Rightarrow> prefix_by_extension exts i)"

definition extract_file_prefix :: "string \<Rightarrow> string option" where
  "extract_file_prefix i = prefix_by_extension ALL_EXTENSIONS i"

definition extract_file_prefix_or_self :: "string \<Rightarrow> string" where
  "extract_file_prefix_or_self i = (case extract_file_prefix i of Some file \<Rightarrow> file | None \<Rightarrow> i)"

section \<open>The gates of an id\<close>

definition TWIN_MARK :: string where "TWIN_MARK = ''#cfg(''"

definition CALLSITE_UNRESOLVED_REASON_CFG_TWINS :: string where
  "CALLSITE_UNRESOLVED_REASON_CFG_TWINS = ''cfg_twins''"

definition CFG_GATE_LABELS :: "string list" where
  "CFG_GATE_LABELS = [''Module'', ''Function'', ''Method'', ''Struct'', ''Enum'', ''Variant'', ''Trait'', ''Field'',
     ''Constant'', ''TypeAlias'']"

definition has_cfg_gate :: "string \<Rightarrow> bool" where
  "has_cfg_gate qn \<longleftrightarrow> contains qn TWIN_MARK"

text \<open>The position of the bracket that closes the \<open>depth\<close> open ones.\<close>

fun closing_from :: "nat \<Rightarrow> string \<Rightarrow> nat option" where
  "closing_from depth [] = None"
| "closing_from depth (b # text) =
     (if b = CHR ''('' then map_option Suc (closing_from (depth + 1) text)
      else if b = CHR '')'' then if depth - 1 = 0 then Some 0 else map_option Suc (closing_from (depth - 1) text)
      else map_option Suc (closing_from depth text))"

definition closing_paren :: "string \<Rightarrow> nat option" where
  "closing_paren text = closing_from 1 text"

lemma closing_from_less: "closing_from d s = Some i \<Longrightarrow> i < length s"
  by (induction d s arbitrary: i rule: closing_from.induct) (auto split: if_splits)

text \<open>The next gate of a text: what is before the mark, the gate, what is after its bracket.\<close>

definition next_gate :: "string \<Rightarrow> (string \<times> string \<times> string) option" where
  "next_gate rest =
     (case find_str TWIN_MARK rest of
        None \<Rightarrow> None
      | Some start \<Rightarrow>
          let after = drop (start + length TWIN_MARK) rest
          in map_option (\<lambda>close. (take start rest, take close after, drop (close + 1) after)) (closing_paren after))"

lemma next_gate_less: "next_gate rest = Some (before, gate, after) \<Longrightarrow> length after < length rest"
  by (auto simp: next_gate_def closing_paren_def Let_def split: option.splits dest!: closing_from_less find_str_Some)

function strip_cfg_gates :: "string \<Rightarrow> string" where
  "strip_cfg_gates rest =
     (case next_gate rest of
        None \<Rightarrow> rest
      | Some (before, gate, after) \<Rightarrow> before @ strip_cfg_gates after)"
  by pat_completeness auto
termination strip_cfg_gates
  by (relation "measure length") (auto dest: next_gate_less)

function cfg_gates_in :: "string \<Rightarrow> string list" where
  "cfg_gates_in rest =
     (case next_gate rest of
        None \<Rightarrow> []
      | Some (before, gate, after) \<Rightarrow> gate # cfg_gates_in after)"
  by pat_completeness auto
termination cfg_gates_in
  by (relation "measure length") (auto dest: next_gate_less)

declare strip_cfg_gates.simps [simp del] cfg_gates_in.simps [simp del]

definition twin_suffix :: "string \<Rightarrow> string" where
  "twin_suffix gate = TWIN_MARK @ gate @ '')''"

definition gate_of_qualified_name :: "string \<Rightarrow> string option" where
  "gate_of_qualified_name qn =
     (if qn \<noteq> [] \<and> last qn = CHR '')'' then map_option snd (rsplit_str (butlast qn) TWIN_MARK) else None)"

section \<open>Twins in the store\<close>

definition CFG_ACTIVE :: string where "CFG_ACTIVE = ''active''"
definition CFG_INACTIVE :: string where "CFG_INACTIVE = ''inactive''"
definition CFG_UNKNOWN :: string where "CFG_UNKNOWN = ''unknown''"
definition CFG_TWIN_EXAMPLE_CAP :: nat where "CFG_TWIN_EXAMPLE_CAP = 25"

record TwinRow =
  twin_id :: string
  twin_label :: string
  twin_gate :: string
  twin_active :: string

record FileCfg =
  module_path :: string
  file_gate :: string
  file_active :: string

definition normalize :: "string \<Rightarrow> string" where
  "normalize active = (if active = CFG_ACTIVE \<or> active = CFG_INACTIVE then active else CFG_UNKNOWN)"

definition display_gate :: "string \<Rightarrow> string \<Rightarrow> string" where
  "display_gate own i =
     (if own \<noteq> [] then own
      else case cfg_gates_in i of
             [] \<Rightarrow> []
           | [one] \<Rightarrow> one
           | many \<Rightarrow> ''all('' @ join_with '','' many @ '')'')"

text \<open>A query of the store that changes nothing, and a test for a column on such a store.\<close>

definition reading :: "store \<Rightarrow> unit executor" where
  "reading store db cypher = (db, store cypher)"

definition has_column :: "store \<Rightarrow> string \<Rightarrow> string \<Rightarrow> bool" where
  "has_column store label column = (snd (node_column_exists (reading store) label column ()) = Inr True)"

definition rows_of :: "store \<Rightarrow> string \<Rightarrow> string list list" where
  "rows_of store cypher = (case store cypher of Inl e \<Rightarrow> [] | Inr rows \<Rightarrow> rows)"

definition cfg_twin_ids :: "store \<Rightarrow> (string \<times> string) list" where
  "cfg_twin_ids store =
     concat (map (\<lambda>label. concat (map (\<lambda>row. case row of i # _ \<Rightarrow> [(label, i)] | [] \<Rightarrow> [])
         (rows_of store (''MATCH (n:'' @ label @ '') WHERE n.id CONTAINS '' @ cypher_str TWIN_MARK @ '' RETURN n.id''))))
       CFG_GATE_LABELS)"

definition cfg_active_by_id :: "store \<Rightarrow> string \<rightharpoonup> string" where
  "cfg_active_by_id store =
     map_of (rev (concat (map (\<lambda>label.
         let column = (if has_column store label ''cfg_active'' then ''n.cfg_active'' else [CHR 0x27, CHR 0x27])
         in concat (map (\<lambda>row. case row of i # active # _ \<Rightarrow> [(i, normalize active)] | _ \<Rightarrow> [])
              (rows_of store (''MATCH (n:'' @ label @ '') WHERE n.id CONTAINS '' @ cypher_str TWIN_MARK
                 @ '' RETURN n.id, '' @ column))))
       CFG_GATE_LABELS)))"

definition gated_callable_ids :: "store \<Rightarrow> string set" where
  "gated_callable_ids store =
     set (concat (map (\<lambda>label.
       if has_column store label ''cfg_gate''
       then concat (map (\<lambda>row. case row of i # _ \<Rightarrow> [i] | [] \<Rightarrow> [])
              (rows_of store (''MATCH (n:'' @ label @ '') WHERE n.cfg_gate <> '' @ [CHR 0x27, CHR 0x27]
                 @ '' AND NOT n.id CONTAINS '' @ cypher_str TWIN_MARK @ '' RETURN n.id'')))
       else []) [''Function'', ''Method'']))"

definition FILE_CFG_COLUMNS :: "string list" where
  "FILE_CFG_COLUMNS = [''cfg_gate'', ''cfg_active'', ''module_path'']"

definition file_cfg_by_id :: "store \<Rightarrow> string \<rightharpoonup> FileCfg" where
  "file_cfg_by_id store =
     (if list_all (has_column store ''File'') FILE_CFG_COLUMNS
      then map_of (rev (concat (map (\<lambda>row. case row of
             i # path # gate # active # _ \<Rightarrow> [(i, \<lparr>module_path = path, file_gate = gate, file_active = normalize active\<rparr>)]
           | _ \<Rightarrow> [])
         (rows_of store (''MATCH (f:File) WHERE f.cfg_gate <> '' @ [CHR 0x27, CHR 0x27] @ '' OR f.cfg_active = ''
            @ [CHR 0x27] @ ''inactive'' @ [CHR 0x27] @ '' RETURN f.id, f.module_path, f.cfg_gate, f.cfg_active'')))))
      else Map.empty)"

fun twin_row :: "string \<Rightarrow> string \<Rightarrow> string list \<Rightarrow> TwinRow list" where
  "twin_row plain label (i # gate # active # cells) =
     (if strip_cfg_gates i = plain
      then [\<lparr>twin_id = i, twin_label = label, twin_gate = display_gate gate i, twin_active = normalize active\<rparr>]
      else [])"
| "twin_row plain label cells = []"

definition cfg_twin_rows :: "store \<Rightarrow> string \<Rightarrow> TwinRow list" where
  "cfg_twin_rows store plain =
     sort_key twin_id (concat (map (\<lambda>label.
       let active = (if has_column store label ''cfg_active'' then ''n.cfg_active'' else [CHR 0x27, CHR 0x27])
       in concat (map (twin_row plain label)
            (rows_of store (''MATCH (n:'' @ label @ '') WHERE n.name = '' @ cypher_str (after_colons plain)
               @ '' AND n.id CONTAINS '' @ cypher_str TWIN_MARK @ '' RETURN n.id, n.cfg_gate, '' @ active))))
       CFG_GATE_LABELS))"

section \<open>The gates of a twin read back\<close>

text \<open>The name of an item: the texts of its path, each gated one followed by its suffix.\<close>

definition gated_name :: "string \<Rightarrow> (CfgPredicate \<times> string) list \<Rightarrow> string" where
  "gated_name start segments = start @ concat (map (\<lambda>(p, t). twin_suffix (compact p) @ t) segments)"

definition skips :: "string \<Rightarrow> bool" where
  "skips s \<longleftrightarrow> (\<forall>d t. 0 < d \<longrightarrow> closing_from d (s @ t) = map_option (\<lambda>i. length s + i) (closing_from d t))"

lemma skipsI [intro?]: "(\<And>d t. 0 < d \<Longrightarrow> closing_from d (s @ t) = map_option (\<lambda>i. length s + i) (closing_from d t)) \<Longrightarrow> skips s"
  by (simp add: skips_def)

lemma skipsD: "skips s \<Longrightarrow> 0 < d \<Longrightarrow> closing_from d (s @ t) = map_option (\<lambda>i. length s + i) (closing_from d t)"
  by (simp add: skips_def)

lemma skips_Nil: "skips []"
  by (rule skipsI) (simp add: option.map_ident)

lemma skips_append: "skips a \<Longrightarrow> skips b \<Longrightarrow> skips (a @ b)"
  by (rule skipsI) (simp add: skipsD option.map_comp comp_def add.assoc)

lemma skips_plain: "CHR ''('' \<notin> set w \<Longrightarrow> CHR '')'' \<notin> set w \<Longrightarrow> skips w"
proof (induction w)
  case (Cons c w)
  then have w: "skips w" and c: "c \<noteq> CHR ''(''" "c \<noteq> CHR '')''" by auto
  show ?case by (rule skipsI) (use c in \<open>simp add: skipsD [OF w] option.map_comp comp_def\<close>)
qed (simp add: skips_Nil)

lemma skips_bracket: "skips s \<Longrightarrow> skips (CHR ''('' # s @ '')'')"
  by (rule skipsI) (simp add: skipsD option.map_comp comp_def)

lemma skips_call:
  assumes "skips s" "CHR ''('' \<notin> set w" "CHR '')'' \<notin> set w"
  shows "skips (w @ CHR ''('' # s @ '')'')"
  by (rule skips_append [OF skips_plain [OF assms(2,3)] skips_bracket [OF assms(1)]])

lemma skips_join: "list_all skips xs \<Longrightarrow> skips (join_with '','' xs)"
proof (induction "'',''" xs rule: join_with.induct)
  case (3 x y xs)
  then have "skips (x @ '','' @ join_with '','' (y # xs))"
    using skips_append [OF skips_plain [of "'',''"], of "join_with '','' (y # xs)"] by (simp add: skips_append)
  then show ?case by simp
qed (simp_all add: skips_Nil)

lemma skips_encode: "skips (encode w)"
proof (rule skips_plain)
  have "list_all (\<lambda>c. c \<noteq> CHR ''('' \<and> c \<noteq> CHR '')'') (encode w)"
    using encode_word [of w] not_word_byte unfolding list_all_iff by metis
  then show "CHR ''('' \<notin> set (encode w)" "CHR '')'' \<notin> set (encode w)" by (auto simp: list_all_iff)
qed

lemma skips_compact: "skips (compact p)"
proof (induction p)
  case (CFeature name)
  have "skips (''feature='' @ encode name)" by (rule skips_append [OF skips_plain skips_encode]) simp_all
  then show ?case by simp
next
  case (COption key v)
  show ?case
  proof (cases v)
    case (Some w)
    have "skips (encode key @ ''='' @ encode w)"
      by (rule skips_append [OF skips_encode skips_append [OF skips_plain skips_encode]]) simp_all
    then show ?thesis using Some by simp
  qed (simp add: skips_encode)
next
  case (CAll items)
  then have "list_all skips (map compact items)" by (simp add: list_all_iff)
  from skips_call [OF skips_join [OF this], of "''all''"] show ?case by simp
next
  case (CAny items)
  then have "list_all skips (map compact items)" by (simp add: list_all_iff)
  from skips_call [OF skips_join [OF this], of "''any''"] show ?case by simp
next
  case (CNot p)
  from skips_call [OF this, of "''not''"] show ?case by simp
qed

lemma closing_compact: "closing_paren (compact p @ CHR '')'' # r) = Some (length (compact p))"
  by (simp add: closing_paren_def skipsD [OF skips_compact])

lemma mark_prefix:
  assumes "\<not> contains (c # a) TWIN_MARK" shows "\<not> starts_with (c # a @ TWIN_MARK @ r) TWIN_MARK"
proof
  assume h: "starts_with (c # a @ TWIN_MARK @ r) TWIN_MARK"
  show False
  proof (cases "4 \<le> length a")
    case True
    then have "length TWIN_MARK \<le> length (c # a)" by (simp add: TWIN_MARK_def)
    then have "take (length TWIN_MARK) (c # a) = TWIN_MARK" using h
      unfolding starts_with_def append_Cons [symmetric] take_append by simp
    then have "c # a = [] @ TWIN_MARK @ drop (length TWIN_MARK) (c # a)" by (metis append_Nil append_take_drop_id)
    then show False using assms unfolding contains_iff by blast
  next
    case False
    then have "a \<in> {x. length x < 4}" by simp
    then show False using h
      by (cases a; cases "tl a"; cases "tl (tl a)"; cases "tl (tl (tl a))")
        (auto simp: starts_with_def TWIN_MARK_def)
  qed
qed

lemma contains_Cons: "contains s p \<Longrightarrow> contains (c # s) p"
  unfolding contains_iff by (metis append_Cons)

lemma find_mark: "\<not> contains a TWIN_MARK \<Longrightarrow> find_str TWIN_MARK (a @ TWIN_MARK @ r) = Some (length a)"
proof (induction a)
  case Nil
  then show ?case by (simp add: TWIN_MARK_def starts_with_def)
next
  case (Cons c a)
  then show ?case using mark_prefix [OF Cons.prems] contains_Cons by auto
qed

lemma next_gate_twin:
  "\<not> contains a TWIN_MARK \<Longrightarrow> next_gate (a @ twin_suffix (compact p) @ r) = Some (a, compact p, r)"
  using find_mark [of a "compact p @ CHR '')'' # r"] closing_compact [of p r]
  by (simp add: next_gate_def twin_suffix_def Let_def)

lemma next_gate_plain: "\<not> contains a TWIN_MARK \<Longrightarrow> next_gate a = None"
  by (simp add: next_gate_def contains_def)

lemma gates_of_gated_name:
  assumes "\<not> contains start TWIN_MARK" "\<And>p t. (p, t) \<in> set segments \<Longrightarrow> \<not> contains t TWIN_MARK"
  shows "cfg_gates_in (gated_name start segments) = map (compact \<circ> fst) segments"
    and "strip_cfg_gates (gated_name start segments) = start @ concat (map snd segments)"
  using assms
proof (induction segments arbitrary: start)
  case Nil
  case 1 then show ?case by (subst cfg_gates_in.simps) (simp add: gated_name_def next_gate_plain)
  case 2 then show ?case by (subst strip_cfg_gates.simps) (simp add: gated_name_def next_gate_plain)
next
  case (Cons s segments)
  obtain p t where s: "s = (p, t)" by (cases s)
  have name: "gated_name start (s # segments) = start @ twin_suffix (compact p) @ gated_name t segments" for start
    by (simp add: gated_name_def s)
  case 1
  then have "cfg_gates_in (gated_name t segments) = map (compact \<circ> fst) segments"
    by (intro Cons.IH) (auto simp: s)
  then show ?case unfolding name by (subst cfg_gates_in.simps) (simp add: next_gate_twin 1 s)
  case 2
  then have "strip_cfg_gates (gated_name t segments) = t @ concat (map snd segments)"
    by (intro Cons.IH) (auto simp: s)
  then show ?case unfolding name by (subst strip_cfg_gates.simps) (simp add: next_gate_twin 2 s)
qed

text \<open>The gates that are written into the id of a gated item read back: the id splits into the plain path
  and the gates in path order, each gate parses to the predicate it was written from, and the plain path
  is what is left when the gates are stripped.\<close>

theorem twin_gates_round_trip:
  assumes "\<not> contains start TWIN_MARK"
    and "\<And>p t. (p, t) \<in> set segments \<Longrightarrow> readable p \<and> \<not> contains t TWIN_MARK"
  shows "map parse_compact (cfg_gates_in (gated_name start segments)) = map (\<lambda>(p, t). Some p) segments
    \<and> strip_cfg_gates (gated_name start segments) = start @ concat (map snd segments)
    \<and> (has_cfg_gate (gated_name start segments) \<longleftrightarrow> segments \<noteq> [])"
proof (intro conjI)
  have plain: "\<not> contains t TWIN_MARK" if "(p, t) \<in> set segments" for p t using assms(2) [OF that] by simp
  show "strip_cfg_gates (gated_name start segments) = start @ concat (map snd segments)"
    by (rule gates_of_gated_name(2) [OF assms(1) plain])
  show "map parse_compact (cfg_gates_in (gated_name start segments)) = map (\<lambda>(p, t). Some p) segments"
    using gates_of_gated_name(1) [OF assms(1) plain] assms(2) parse_compact_inverse by auto
  show "has_cfg_gate (gated_name start segments) \<longleftrightarrow> segments \<noteq> []"
    using assms(1) find_mark [OF assms(1)]
    by (cases segments) (auto simp: has_cfg_gate_def contains_def gated_name_def twin_suffix_def)
qed

lemma no_mark: "list_all (\<lambda>c. c \<noteq> CHR ''#'') t \<Longrightarrow> \<not> contains t TWIN_MARK"
  by (auto simp: contains_iff TWIN_MARK_def)

lemma twin_gates_round_trip_witness:
  "strip_cfg_gates (gated_name ''src/lib.rs::m'' [(COption ''unix'' None, ''::f''), (CNot (CFeature ''a.b''), [])])
     = ''src/lib.rs::m::f''
   \<and> map parse_compact (cfg_gates_in (gated_name ''src/lib.rs::m'' [(COption ''unix'' None, ''::f''), (CNot (CFeature ''a.b''), [])]))
     = [Some (COption ''unix'' None), Some (CNot (CFeature ''a.b''))]"
proof -
  let ?s = "[(COption ''unix'' None, ''::f''), (CNot (CFeature ''a.b''), [])]"
  have "map parse_compact (cfg_gates_in (gated_name ''src/lib.rs::m'' ?s)) = map (\<lambda>(p, t). Some p) ?s
    \<and> strip_cfg_gates (gated_name ''src/lib.rs::m'' ?s) = ''src/lib.rs::m'' @ concat (map snd ?s)
    \<and> (has_cfg_gate (gated_name ''src/lib.rs::m'' ?s) \<longleftrightarrow> ?s \<noteq> [])"
    by (rule twin_gates_round_trip) (auto simp: utf8_valid_ascii byte_simps intro!: no_mark)
  then show ?thesis by simp
qed

end
