(* ===== verification/CfgVerdict.thy ===== *)
theory CfgVerdict
  imports CfgTwins
begin

text \<open>
  Which twin of an item a build compiles: the verdicts that the indexer records
  (\<open>src/indexer/cfg_active.rs\<close>) and the choice of the resolver (\<open>src/resolver/cfg_verdict.rs\<close>,
  \<open>cfg_select.rs\<close>, \<open>cfg_twins.rs\<close>). The specification is a compilation: the build each file is compiled
  with, and the files it compiles.
\<close>

section \<open>The verdict of the indexer\<close>

datatype FileFeatures = CompiledOut | Enabled "string set" | Disagree

fun parse_gates :: "string list \<Rightarrow> CfgPredicate list option" where
  "parse_gates [] = Some []"
| "parse_gates (gate # gates) =
     (case parse_compact gate of
        None \<Rightarrow> None
      | Some predicate \<Rightarrow> map_option (\<lambda>ps. predicate # ps) (parse_gates gates))"

definition evaluate :: "string \<Rightarrow> BuildProfile \<Rightarrow> string" where
  "evaluate i profile =
     (case parse_gates (cfg_gates_in i) of
        None \<Rightarrow> CFG_UNKNOWN
      | Some conjuncts \<Rightarrow>
          (case eval_in profile (CAll conjuncts) of
             TTrue \<Rightarrow> CFG_ACTIVE
           | TFalse \<Rightarrow> CFG_INACTIVE
           | TUnknown \<Rightarrow> CFG_UNKNOWN))"

fun decide :: "string \<Rightarrow> FileFeatures option \<Rightarrow> string" where
  "decide i None = CFG_UNKNOWN"
| "decide i (Some Disagree) = CFG_UNKNOWN"
| "decide i (Some CompiledOut) = CFG_INACTIVE"
| "decide i (Some (Enabled enabled)) = evaluate i (with_features enabled)"

definition twin_verdict :: "(string \<rightharpoonup> FileFeatures) \<Rightarrow> (string \<rightharpoonup> FileCfg) \<Rightarrow> string \<Rightarrow> string" where
  "twin_verdict file_features file_cfg i =
     (let file = extract_file_prefix i;
          features = Option.bind file file_features;
          compiled_out = (case Option.bind file file_cfg of Some cfg \<Rightarrow> file_active cfg = CFG_INACTIVE | None \<Rightarrow> False)
      in if compiled_out then CFG_INACTIVE else decide i features)"

definition assignments :: "store \<Rightarrow> (string \<rightharpoonup> FileFeatures) \<Rightarrow> (string \<rightharpoonup> FileCfg) \<Rightarrow> (string \<times> string \<times> string) list" where
  "assignments store file_features file_cfg =
     map (\<lambda>(label, i). (label, i, twin_verdict file_features file_cfg i)) (cfg_twin_ids store)"

section \<open>The verdict of the resolver\<close>

record TwinView =
  active :: "string \<rightharpoonup> string"
  files :: "string \<rightharpoonup> FileCfg"
  gated_callers :: "string set"

record SymbolEntry =
  entry_id :: string
  entry_label :: string
  entry_qn :: string

datatype Verdict = Compiled | NotCompiled | Undecided

record CallerGates =
  held :: "CfgPredicate list"
  unspelled :: bool

definition load_view :: "store \<Rightarrow> TwinView" where
  "load_view store =
     \<lparr>active = cfg_active_by_id store, files = file_cfg_by_id store, gated_callers = gated_callable_ids store\<rparr>"

definition view_file :: "TwinView \<Rightarrow> string \<Rightarrow> FileCfg option" where
  "view_file view i = Option.bind (extract_file_prefix i) (files view)"

definition file_is_gated :: "TwinView \<Rightarrow> string \<Rightarrow> bool" where
  "file_is_gated view i = (case view_file view i of Some f \<Rightarrow> file_gate f \<noteq> [] | None \<Rightarrow> False)"

definition logical_id :: "TwinView \<Rightarrow> string \<Rightarrow> string option" where
  "logical_id view i =
     Option.bind (extract_file_prefix i) (\<lambda>file.
       Option.bind (files view file) (\<lambda>cfg.
         if module_path cfg = [] then None
         else Option.bind (strip_prefix i file) (\<lambda>rest.
           map_option (\<lambda>rest. module_path cfg @ ''::'' @ rest) (strip_prefix rest ''::''))))"

definition gate_parts :: "CfgPredicate \<Rightarrow> CfgPredicate list" where
  "gate_parts p = (case p of CAll items \<Rightarrow> items | single \<Rightarrow> [single])"

fun push_parts :: "CfgPredicate list \<Rightarrow> CfgPredicate list \<Rightarrow> CfgPredicate list" where
  "push_parts out [] = out"
| "push_parts out (part # parts) = push_parts (if part \<in> set out then out else out @ [part]) parts"

fun conjuncts_loop :: "CfgPredicate list \<Rightarrow> string list \<Rightarrow> CfgPredicate list option" where
  "conjuncts_loop out [] = Some out"
| "conjuncts_loop out (gate # gates) =
     (case parse_compact gate of
        None \<Rightarrow> None
      | Some p \<Rightarrow> conjuncts_loop (push_parts out (gate_parts p)) gates)"

definition conjuncts :: "string \<Rightarrow> CfgPredicate list option" where
  "conjuncts qn = conjuncts_loop [] (cfg_gates_in qn)"

fun negation :: "CfgPredicate \<Rightarrow> CfgPredicate" where
  "negation (CNot inner) = inner"
| "negation other = CNot other"

definition conjuncts_in_file :: "TwinView \<Rightarrow> string \<Rightarrow> CfgPredicate list option" where
  "conjuncts_in_file view qn =
     (case conjuncts qn of
        None \<Rightarrow> None
      | Some out \<Rightarrow>
          let gate = (case view_file view qn of Some f \<Rightarrow> file_gate f | None \<Rightarrow> [])
          in if gate = [] then Some out
             else case parse_compact gate of
                    None \<Rightarrow> None
                  | Some p \<Rightarrow> Some (push_parts out (gate_parts p)))"

definition extract_caller_from_callsite_id :: "string \<Rightarrow> string" where
  "extract_caller_from_callsite_id cs_id = (case rsplit_str cs_id ''::call@'' of Some (a, b) \<Rightarrow> a | None \<Rightarrow> cs_id)"

definition caller_gates :: "TwinView \<Rightarrow> string \<Rightarrow> CallerGates" where
  "caller_gates view caller =
     \<lparr>held = (case conjuncts_in_file view caller of Some gates \<Rightarrow> gates | None \<Rightarrow> []),
      unspelled = (extract_caller_from_callsite_id caller \<in> gated_callers view)\<rparr>"

definition profile_verdict :: "TwinView \<Rightarrow> string \<Rightarrow> string \<Rightarrow> Verdict" where
  "profile_verdict view i qn =
     (let in_file = map_option file_active (view_file view i)
      in if in_file = Some CFG_INACTIVE then NotCompiled
         else if active view i = Some CFG_ACTIVE then Compiled
         else if active view i = Some CFG_INACTIVE then NotCompiled
         else if in_file = Some CFG_ACTIVE \<and> cfg_gates_in qn = [] then Compiled
         else Undecided)"

definition gate_verdict :: "TwinView \<Rightarrow> CallerGates \<Rightarrow> string \<Rightarrow> Verdict" where
  "gate_verdict view caller qn =
     (case conjuncts_in_file view qn of
        None \<Rightarrow> Undecided
      | Some gate \<Rightarrow>
          if gate \<noteq> [] \<and> set gate \<subseteq> set (held caller) then Compiled
          else if list_ex (\<lambda>c. negation c \<in> set (held caller)) gate then NotCompiled
          else Undecided)"

definition verdict :: "TwinView \<Rightarrow> CallerGates \<Rightarrow> string \<Rightarrow> string \<Rightarrow> Verdict" where
  "verdict view caller i qn =
     (case gate_verdict view caller qn of
        Undecided \<Rightarrow> if unspelled caller then Undecided else profile_verdict view i qn
      | v \<Rightarrow> v)"

definition is_compiled_out :: "TwinView \<Rightarrow> string \<Rightarrow> string \<Rightarrow> bool" where
  "is_compiled_out view caller i \<longleftrightarrow> verdict view (caller_gates view caller) i i = NotCompiled"

section \<open>The choice\<close>

definition are_twins_of_one_item :: "TwinView \<Rightarrow> SymbolEntry list \<Rightarrow> bool" where
  "are_twins_of_one_item view candidates =
     (case candidates of
        [] \<Rightarrow> False
      | first # rest \<Rightarrow>
          let name = (\<lambda>c. strip_cfg_gates (case logical_id view (entry_qn c) of Some l \<Rightarrow> l | None \<Rightarrow> entry_qn c))
          in 2 \<le> length candidates \<and>
             list_all (\<lambda>c. entry_label c = entry_label first
               \<and> (has_cfg_gate (entry_qn c) \<or> file_is_gated view (entry_qn c)) \<and> name c = name first) candidates)"

definition is_twin_member :: "SymbolEntry \<Rightarrow> SymbolEntry list \<Rightarrow> bool" where
  "is_twin_member target candidates \<longleftrightarrow>
     has_cfg_gate (entry_qn target) \<and>
     list_ex (\<lambda>other. entry_id other \<noteq> entry_id target \<and> entry_label other = entry_label target
       \<and> strip_cfg_gates (entry_qn other) = strip_cfg_gates (entry_qn target)) candidates"

definition select :: "TwinView \<Rightarrow> string \<Rightarrow> SymbolEntry list \<Rightarrow> SymbolEntry option" where
  "select view caller_qn twins =
     (let caller = caller_gates view caller_qn;
          not_ruled_out = filter (\<lambda>(t, v). v \<noteq> NotCompiled)
            (map (\<lambda>t. (t, verdict view caller (entry_id t) (entry_qn t))) twins)
      in case not_ruled_out of
           [(t, v)] \<Rightarrow> if v = Compiled then Some t else None
         | _ \<Rightarrow> None)"

definition choose_twin :: "TwinView \<Rightarrow> string \<Rightarrow> SymbolEntry list \<Rightarrow> SymbolEntry option" where
  "choose_twin view caller_qn candidates =
     (if are_twins_of_one_item view candidates then select view caller_qn candidates else None)"

section \<open>What a compilation compiles\<close>

text \<open>A compilation: the build that each file is compiled with (the packages of a workspace enable different
  features), the truth of the gates that do not parse, and the files that the module trees reach.\<close>

record compilation =
  build_of :: "string \<Rightarrow> build"
  odd_gate :: "string \<Rightarrow> bool"
  file_on :: "string \<Rightarrow> bool"

definition file_of :: "string \<Rightarrow> string" where
  "file_of i = extract_file_prefix_or_self i"

definition gate_on :: "compilation \<Rightarrow> string \<Rightarrow> string \<Rightarrow> bool" where
  "gate_on c file gate = (case parse_compact gate of Some p \<Rightarrow> holds (build_of c file) p | None \<Rightarrow> odd_gate c gate)"

definition own_gates_on :: "compilation \<Rightarrow> string \<Rightarrow> bool" where
  "own_gates_on c i \<longleftrightarrow> (\<forall>g \<in> set (cfg_gates_in i). gate_on c (file_of i) g)"

definition compiles :: "compilation \<Rightarrow> string \<Rightarrow> bool" where
  "compiles c i \<longleftrightarrow> own_gates_on c i \<and> file_on c (file_of i)"

text \<open>The facts about files that the store holds agree with the compilation.\<close>

definition files_agree :: "compilation \<Rightarrow> (string \<rightharpoonup> FileCfg) \<Rightarrow> bool" where
  "files_agree c fs \<longleftrightarrow> (\<forall>file cfg. fs file = Some cfg \<longrightarrow>
     (file_gate cfg \<noteq> [] \<longrightarrow> file_on c file = gate_on c file (file_gate cfg)) \<and>
     (file_active cfg = CFG_ACTIVE \<longrightarrow> file_on c file) \<and>
     (file_active cfg = CFG_INACTIVE \<longrightarrow> \<not> file_on c file))"

text \<open>So do the features of the files: a file that the default features compile out is not compiled, and the
  build of any other file is one of its default profile.\<close>

definition features_agree :: "compilation \<Rightarrow> (string \<rightharpoonup> FileFeatures) \<Rightarrow> bool" where
  "features_agree c ff \<longleftrightarrow> (\<forall>file. (ff file = Some CompiledOut \<longrightarrow> \<not> file_on c file) \<and>
     (\<forall>enabled. ff file = Some (Enabled enabled) \<longrightarrow> agrees (build_of c file) (with_features enabled)))"

lemma files_agreeD:
  assumes "files_agree c fs" "fs file = Some cfg"
  shows "file_gate cfg \<noteq> [] \<Longrightarrow> file_on c file = gate_on c file (file_gate cfg)"
    and "file_active cfg = CFG_ACTIVE \<Longrightarrow> file_on c file"
    and "file_active cfg = CFG_INACTIVE \<Longrightarrow> \<not> file_on c file"
  using assms by (auto simp: files_agree_def)

lemma features_agreeD:
  assumes "features_agree c ff"
  shows "ff file = Some CompiledOut \<Longrightarrow> \<not> file_on c file"
    and "ff file = Some (Enabled enabled) \<Longrightarrow> agrees (build_of c file) (with_features enabled)"
  using assms by (auto simp: features_agree_def)

lemmas verdict_words = CFG_ACTIVE_def CFG_INACTIVE_def CFG_UNKNOWN_def

lemma file_of_Some: "extract_file_prefix i = Some file \<Longrightarrow> file_of i = file"
  by (simp add: file_of_def extract_file_prefix_or_self_def)

lemma view_file_Some: "view_file view i = Some cfg \<Longrightarrow> files view (file_of i) = Some cfg"
  by (auto simp: view_file_def bind_eq_Some_conv file_of_Some)

section \<open>The recorded verdicts are sound\<close>

lemma parse_gates_Some:
  "parse_gates gates = Some ps \<Longrightarrow> (\<forall>g \<in> set gates. gate_on c file g) = list_all (holds (build_of c file)) ps"
proof (induction gates arbitrary: ps)
  case (Cons g gates)
  then obtain p qs where p: "parse_compact g = Some p" "parse_gates gates = Some qs" "ps = p # qs"
    by (auto split: option.splits)
  have "gate_on c file g = holds (build_of c file) p" by (simp add: gate_on_def p)
  then show ?case using Cons.IH [OF p(2)] p(3) by simp
qed simp

lemma evaluate_sound:
  assumes "agrees (build_of c (file_of i)) profile"
  shows "evaluate i profile = CFG_ACTIVE \<Longrightarrow> own_gates_on c i"
    and "evaluate i profile = CFG_INACTIVE \<Longrightarrow> \<not> own_gates_on c i"
proof -
  have "evaluate i profile \<in> {CFG_ACTIVE, CFG_INACTIVE} \<Longrightarrow>
      own_gates_on c i = (evaluate i profile = CFG_ACTIVE)"
  proof -
    assume v: "evaluate i profile \<in> {CFG_ACTIVE, CFG_INACTIVE}"
    then obtain ps where ps: "parse_gates (cfg_gates_in i) = Some ps"
      by (auto simp: evaluate_def verdict_words split: option.splits)
    have "own_gates_on c i = holds (build_of c (file_of i)) (CAll ps)"
      by (simp add: own_gates_on_def parse_gates_Some [OF ps])
    then show ?thesis using v eval_decides [OF assms, of "CAll ps"]
      by (auto simp: evaluate_def ps eval_in_def verdict_words split: Truth.splits)
  qed
  then show "evaluate i profile = CFG_ACTIVE \<Longrightarrow> own_gates_on c i"
    and "evaluate i profile = CFG_INACTIVE \<Longrightarrow> \<not> own_gates_on c i"
    by (auto simp: verdict_words)
qed

lemma decide_sound:
  assumes "features_agree c ff"
  shows "decide i (ff (file_of i)) = CFG_ACTIVE \<Longrightarrow> own_gates_on c i"
    and "decide i (ff (file_of i)) = CFG_INACTIVE \<Longrightarrow> \<not> compiles c i"
  using features_agreeD [OF assms, of "file_of i"] evaluate_sound [of c i]
  by (cases "(i, ff (file_of i))" rule: decide.cases; auto simp: verdict_words compiles_def)+

lemma twin_verdict_sound:
  assumes "features_agree c ff" "files_agree c fs"
  shows "twin_verdict ff fs i = CFG_ACTIVE \<Longrightarrow> own_gates_on c i"
    and "twin_verdict ff fs i = CFG_INACTIVE \<Longrightarrow> \<not> compiles c i"
proof -
  have "(twin_verdict ff fs i = CFG_ACTIVE \<longrightarrow> own_gates_on c i) \<and> (twin_verdict ff fs i = CFG_INACTIVE \<longrightarrow> \<not> compiles c i)"
  proof (cases "extract_file_prefix i")
    case None
    then show ?thesis by (simp add: twin_verdict_def verdict_words)
  next
    case (Some fl)
    note f = file_of_Some [OF Some]
    show ?thesis
    proof (cases "case fs fl of Some cfg \<Rightarrow> file_active cfg = CFG_INACTIVE | None \<Rightarrow> False")
      case True
      then obtain cfg where cfg: "fs fl = Some cfg" "file_active cfg = CFG_INACTIVE" by (auto split: option.splits)
      from files_agreeD(3) [OF assms(2) this] show ?thesis
        using cfg by (simp add: twin_verdict_def Some compiles_def f verdict_words)
    next
      case False
      then have "twin_verdict ff fs i = decide i (ff (file_of i))" by (auto simp: twin_verdict_def Some f Let_def)
      then show ?thesis using decide_sound [OF assms(1), of i] by simp
    qed
  qed
  then show "twin_verdict ff fs i = CFG_ACTIVE \<Longrightarrow> own_gates_on c i"
    and "twin_verdict ff fs i = CFG_INACTIVE \<Longrightarrow> \<not> compiles c i" by simp_all
qed

section \<open>The verdicts of the resolver are sound\<close>

text \<open>A view that the indexer wrote: the recorded verdict of every item is the one that its file facts give.\<close>

definition written_by :: "(string \<rightharpoonup> FileFeatures) \<Rightarrow> TwinView \<Rightarrow> bool" where
  "written_by ff view \<longleftrightarrow> (\<forall>i v. active view i = Some v \<longrightarrow> v = twin_verdict ff (files view) i)"

lemma holds_parts: "(\<forall>q \<in> set (gate_parts p). holds b q) = holds b p"
  by (cases p) (simp_all add: gate_parts_def list_all_iff)

lemma set_push_parts: "set (push_parts out parts) = set out \<union> set parts"
  by (induction out parts rule: push_parts.induct) auto

lemma holds_negation: "holds b (negation p) = (\<not> holds b p)"
  by (cases p) simp_all

lemma conjuncts_loop_holds:
  "conjuncts_loop out gates = Some ps \<Longrightarrow>
     (\<forall>p \<in> set ps. holds (build_of c file) p) = ((\<forall>p \<in> set out. holds (build_of c file) p) \<and> (\<forall>g \<in> set gates. gate_on c file g))"
proof (induction out gates rule: conjuncts_loop.induct)
  case (2 out gate gates)
  then obtain p where p: "parse_compact gate = Some p" "conjuncts_loop (push_parts out (gate_parts p)) gates = Some ps"
    by (auto split: option.splits)
  have "gate_on c file gate = holds (build_of c file) p" by (simp add: gate_on_def p)
  then show ?case using "2.IH" [OF p] holds_parts [of p "build_of c file"] by (auto simp: set_push_parts)
qed simp

text \<open>The conjuncts of an item hold exactly when its own gates do and the gate of its file does.\<close>

lemma conjuncts_in_file_holds:
  assumes "files_agree c (files view)" "conjuncts_in_file view qn = Some ps"
  shows "compiles c qn \<Longrightarrow> p \<in> set ps \<Longrightarrow> holds (build_of c (file_of qn)) p"
    and "(\<And>p. p \<in> set ps \<Longrightarrow> holds (build_of c (file_of qn)) p) \<Longrightarrow> own_gates_on c qn"
proof -
  let ?b = "build_of c (file_of qn)"
  let ?gate = "case view_file view qn of Some f \<Rightarrow> file_gate f | None \<Rightarrow> []"
  obtain out where out: "conjuncts qn = Some out" using assms(2) by (auto simp: conjuncts_in_file_def split: option.splits)
  have own: "(\<forall>p \<in> set out. holds ?b p) = own_gates_on c qn"
    using conjuncts_loop_holds [of "[]" "cfg_gates_in qn" out c "file_of qn"] out
    by (simp add: conjuncts_def own_gates_on_def)
  show "compiles c qn \<Longrightarrow> p \<in> set ps \<Longrightarrow> holds ?b p"
  proof -
    assume h: "compiles c qn" "p \<in> set ps"
    show "holds ?b p"
    proof (cases "?gate = []")
      case True
      then show ?thesis using h own assms(2) by (simp add: conjuncts_in_file_def out compiles_def)
    next
      case False
      then obtain cfg where cfg: "view_file view qn = Some cfg" "file_gate cfg \<noteq> []" by (auto split: option.splits)
      obtain q where q: "parse_compact (file_gate cfg) = Some q" "ps = push_parts out (gate_parts q)"
        using assms(2) cfg by (auto simp: conjuncts_in_file_def out split: option.splits)
      have "holds ?b q"
        using files_agreeD(1) [OF assms(1) view_file_Some [OF cfg(1)] cfg(2)] h(1) q(1)
        by (simp add: compiles_def gate_on_def)
      then show ?thesis using h own q holds_parts [of q ?b] by (auto simp: set_push_parts compiles_def)
    qed
  qed
  show "own_gates_on c qn" if "\<And>p. p \<in> set ps \<Longrightarrow> holds ?b p"
  proof -
    have "set out \<subseteq> set ps" using assms(2)
      by (auto simp: conjuncts_in_file_def out Let_def set_push_parts split: if_splits option.splits)
    then show ?thesis using that own by auto
  qed
qed

text \<open>What the verdicts rest on: the facts of the store agree with the compilation, and it compiles the caller.\<close>

definition known_for :: "compilation \<Rightarrow> (string \<rightharpoonup> FileFeatures) \<Rightarrow> TwinView \<Rightarrow> string \<Rightarrow> bool" where
  "known_for c ff view caller \<longleftrightarrow>
     files_agree c (files view) \<and> features_agree c ff \<and> written_by ff view \<and> compiles c caller"

lemma known_forD:
  assumes "known_for c ff view caller"
  shows "files_agree c (files view)" "features_agree c ff" "written_by ff view" "compiles c caller"
  using assms by (auto simp: known_for_def)

lemma gate_verdict_sound:
  assumes known: "known_for c ff view caller"
    and same: "build_of c (file_of caller) = build_of c (file_of qn)"
  shows "gate_verdict view (caller_gates view caller) qn = Compiled \<Longrightarrow> own_gates_on c qn"
    and "gate_verdict view (caller_gates view caller) qn = NotCompiled \<Longrightarrow> \<not> compiles c qn"
proof -
  let ?b = "build_of c (file_of qn)"
  have held: "holds ?b p" if "p \<in> set (held (caller_gates view caller))" for p
  proof (cases "conjuncts_in_file view caller")
    case (Some ps)
    show ?thesis
      using conjuncts_in_file_holds(1) [OF known_forD(1) [OF known] Some known_forD(4) [OF known], of p] that
      by (simp add: caller_gates_def Some same)
  qed (use that in \<open>simp add: caller_gates_def\<close>)
  show "own_gates_on c qn" if "gate_verdict view (caller_gates view caller) qn = Compiled"
  proof -
    from that obtain ps where ps: "conjuncts_in_file view qn = Some ps" "set ps \<subseteq> set (held (caller_gates view caller))"
      by (auto simp: gate_verdict_def split: option.splits if_splits)
    show ?thesis by (rule conjuncts_in_file_holds(2) [OF known_forD(1) [OF known] ps(1)]) (use ps(2) held in blast)
  qed
  show "\<not> compiles c qn" if "gate_verdict view (caller_gates view caller) qn = NotCompiled"
  proof
    assume "compiles c qn"
    from that obtain ps p where ps: "conjuncts_in_file view qn = Some ps" "p \<in> set ps"
        "negation p \<in> set (held (caller_gates view caller))"
      by (auto simp: gate_verdict_def list_ex_iff split: option.splits if_splits)
    have "holds ?b p" by (rule conjuncts_in_file_holds(1) [OF known_forD(1) [OF known] ps(1) \<open>compiles c qn\<close> ps(2)])
    then show False using held [OF ps(3)] by (simp add: holds_negation)
  qed
qed

lemma profile_verdict_sound:
  assumes known: "known_for c ff view caller"
  shows "profile_verdict view qn qn = Compiled \<Longrightarrow> own_gates_on c qn"
    and "profile_verdict view qn qn = NotCompiled \<Longrightarrow> \<not> compiles c qn"
proof -
  note rec = twin_verdict_sound [OF known_forD(2,1) [OF known], of qn]
  have act: "twin_verdict ff (files view) qn = v" if "active view qn = Some v" for v
    using known_forD(3) [OF known] that by (simp add: written_by_def)
  have off: "\<not> compiles c qn" if "map_option file_active (view_file view qn) = Some CFG_INACTIVE"
    using that files_agreeD(3) [OF known_forD(1) [OF known] view_file_Some] by (auto simp: compiles_def)
  show "own_gates_on c qn" if "profile_verdict view qn qn = Compiled"
    using that rec(1) act by (auto simp: profile_verdict_def Let_def own_gates_on_def split: if_splits)
  show "\<not> compiles c qn" if "profile_verdict view qn qn = NotCompiled"
    using that rec(2) act off by (auto simp: profile_verdict_def Let_def split: if_splits)
qed

lemma verdict_sound:
  assumes "known_for c ff view caller" "build_of c (file_of caller) = build_of c (file_of qn)"
  shows "verdict view (caller_gates view caller) qn qn = Compiled \<Longrightarrow> own_gates_on c qn"
    and "verdict view (caller_gates view caller) qn qn = NotCompiled \<Longrightarrow> \<not> compiles c qn"
  using gate_verdict_sound [OF assms] profile_verdict_sound [OF assms(1)]
  by (auto simp: verdict_def split: Verdict.splits if_splits)

lemma filter_singleton:
  "filter P xs = [x] \<Longrightarrow> x \<in> set xs \<and> P x \<and> (\<forall>y \<in> set xs. P y \<longrightarrow> y = x)"
  using set_filter [of P xs] by auto

lemma select_Some:
  assumes "select view caller twins = Some t"
  defines "v \<equiv> \<lambda>u. verdict view (caller_gates view caller) (entry_id u) (entry_qn u)"
  shows "filter (\<lambda>(u, w). w \<noteq> NotCompiled) (map (\<lambda>u. (u, v u)) twins) = [(t, v t)] \<and> v t = Compiled"
proof -
  let ?l = "filter (\<lambda>(u, w). w \<noteq> NotCompiled) (map (\<lambda>u. (u, v u)) twins)"
  obtain x where x: "?l = [x]" "snd x = Compiled" "fst x = t"
    using assms(1) unfolding select_def Let_def v_def by (auto split: list.splits if_splits)
  then have "x \<in> set ?l" by simp
  then have "x = (fst x, v (fst x))" by auto
  then show ?thesis using x by simp
qed

text \<open>C5: a twin is chosen for a call only when it is the one that is compiled: in every compilation that
  agrees with the recorded facts, compiles the caller and the file of the chosen twin, and gives the twins
  the features of the caller's package, the chosen twin is compiled and no other candidate is.\<close>

theorem chosen_twin_compiled:
  assumes "choose_twin view caller twins = Some t"
    and "known_for c ff view caller"
    and "\<And>u. u \<in> set twins \<Longrightarrow> entry_id u = entry_qn u \<and> build_of c (file_of (entry_qn u)) = build_of c (file_of caller)"
    and "file_on c (file_of (entry_qn t))"
  shows "t \<in> set twins \<and> compiles c (entry_qn t) \<and> (\<forall>u \<in> set twins. compiles c (entry_qn u) \<longrightarrow> u = t)"
proof -
  let ?v = "\<lambda>u. verdict view (caller_gates view caller) (entry_id u) (entry_qn u)"
  have "select view caller twins = Some t" using assms(1) by (auto simp: choose_twin_def split: if_splits)
  then have sel: "filter (\<lambda>(u, v). v \<noteq> NotCompiled) (map (\<lambda>u. (u, ?v u)) twins) = [(t, ?v t)] \<and> ?v t = Compiled"
    by (rule select_Some)
  note one = filter_singleton [OF sel [THEN conjunct1]]
  then have t: "t \<in> set twins" by auto
  have sound: "(?v u = Compiled \<longrightarrow> own_gates_on c (entry_qn u)) \<and> (?v u = NotCompiled \<longrightarrow> \<not> compiles c (entry_qn u))"
    if "u \<in> set twins" for u
    using verdict_sound [OF assms(2), of "entry_qn u"] assms(3) [OF that] by simp
  have "compiles c (entry_qn t)" using sound [OF t] sel assms(4) by (simp add: compiles_def)
  moreover have "u = t" if "u \<in> set twins" "compiles c (entry_qn u)" for u
    using one sound [OF that(1)] that by fastforce
  ultimately show ?thesis using t by blast
qed

section \<open>Two runs\<close>

text \<open>Two packages: \<open>a\<close> enables the feature \<open>std\<close> by default, \<open>b\<close> does not. The verdicts of the twins in each
  are those that the indexer records.\<close>

definition std_twin :: "string \<Rightarrow> SymbolEntry" where
  "std_twin package = \<lparr>entry_id = package @ ''/src/lib.rs::f#cfg(feature=std)'', entry_label = ''Function'',
     entry_qn = package @ ''/src/lib.rs::f#cfg(feature=std)''\<rparr>"

definition no_std_twin :: "string \<Rightarrow> SymbolEntry" where
  "no_std_twin package = \<lparr>entry_id = package @ ''/src/lib.rs::f#cfg(not(feature=std))'', entry_label = ''Function'',
     entry_qn = package @ ''/src/lib.rs::f#cfg(not(feature=std))''\<rparr>"

definition two_packages :: compilation where
  "two_packages = \<lparr>build_of = (\<lambda>file. (if starts_with file ''a/'' then {''std''} else {}, \<lambda>_. False)),
     odd_gate = (\<lambda>_. False), file_on = (\<lambda>_. True)\<rparr>"

definition package_features :: "string \<rightharpoonup> FileFeatures" where
  "package_features = [''a/src/lib.rs'' \<mapsto> Enabled {''std''}, ''b/src/lib.rs'' \<mapsto> Enabled {}]"

definition package_view :: TwinView where
  "package_view = \<lparr>active = [entry_id (std_twin ''a'') \<mapsto> CFG_ACTIVE, entry_id (no_std_twin ''a'') \<mapsto> CFG_INACTIVE,
       entry_id (std_twin ''b'') \<mapsto> CFG_INACTIVE, entry_id (no_std_twin ''b'') \<mapsto> CFG_ACTIVE],
     files = Map.empty, gated_callers = {}\<rparr>"

lemma package_verdicts:
  "twin_verdict package_features Map.empty (entry_id (std_twin ''a'')) = CFG_ACTIVE"
  "twin_verdict package_features Map.empty (entry_id (no_std_twin ''a'')) = CFG_INACTIVE"
  "twin_verdict package_features Map.empty (entry_id (std_twin ''b'')) = CFG_INACTIVE"
  "twin_verdict package_features Map.empty (entry_id (no_std_twin ''b'')) = CFG_ACTIVE"
  by code_simp+

lemma two_packages_known:
  assumes "compiles two_packages caller" shows "known_for two_packages package_features package_view caller"
proof -
  have "features_agree two_packages package_features"
    by (auto simp: features_agree_def two_packages_def package_features_def agrees_def with_features_def
      NEVER_SET_BY_A_PLAIN_BUILD_def starts_with_def split: if_splits)
  moreover have "written_by package_features package_view"
    using package_verdicts by (auto simp: written_by_def package_view_def split: if_splits)
  ultimately show ?thesis using assms by (simp add: known_for_def files_agree_def package_view_def)
qed

lemma chosen_twin_compiled_witness:
  "compiles two_packages (entry_qn (std_twin ''a'')) \<and> \<not> compiles two_packages (entry_qn (no_std_twin ''a''))"
proof -
  have "choose_twin package_view ''a/src/lib.rs::main'' [std_twin ''a'', no_std_twin ''a''] = Some (std_twin ''a'')" by code_simp
  moreover have "own_gates_on two_packages ''a/src/lib.rs::main''"
    unfolding own_gates_on_def by code_simp
  then have "known_for two_packages package_features package_view ''a/src/lib.rs::main''"
    by (intro two_packages_known) (simp add: compiles_def two_packages_def)
  moreover have "file_of (entry_qn (std_twin ''a'')) = ''a/src/lib.rs''" "file_of (entry_qn (no_std_twin ''a'')) = ''a/src/lib.rs''"
    "file_of ''a/src/lib.rs::main'' = ''a/src/lib.rs''" by code_simp+
  then have "entry_id u = entry_qn u \<and> build_of two_packages (file_of (entry_qn u)) = build_of two_packages (file_of ''a/src/lib.rs::main'')"
    if "u \<in> set [std_twin ''a'', no_std_twin ''a'']" for u
    using that by (auto simp: std_twin_def no_std_twin_def)
  ultimately have "std_twin ''a'' \<in> set [std_twin ''a'', no_std_twin ''a''] \<and> compiles two_packages (entry_qn (std_twin ''a''))
      \<and> (\<forall>u \<in> set [std_twin ''a'', no_std_twin ''a'']. compiles two_packages (entry_qn u) \<longrightarrow> u = std_twin ''a'')"
    by (rule chosen_twin_compiled) (simp_all add: two_packages_def)
  moreover have "no_std_twin ''a'' \<noteq> std_twin ''a''" by (simp add: std_twin_def no_std_twin_def)
  ultimately show ?thesis by auto
qed

text \<open>A defect. The gates of the caller are compared with the gates of the twin as texts, although a
  feature belongs to a package: a caller of package \<open>a\<close> under \<open>feature = "std"\<close> is bound to the \<open>std\<close> twin of
  package \<open>b\<close>, whose default features leave \<open>std\<close> out. The twin is not compiled, its sibling is, and the
  recorded verdicts say so.\<close>

theorem feature_gates_cross_packages:
  "choose_twin package_view ''a/src/lib.rs::g#cfg(feature=std)'' [std_twin ''b'', no_std_twin ''b''] = Some (std_twin ''b'')
   \<and> compiles two_packages ''a/src/lib.rs::g#cfg(feature=std)''
   \<and> known_for two_packages package_features package_view ''a/src/lib.rs::g#cfg(feature=std)''
   \<and> \<not> compiles two_packages (entry_qn (std_twin ''b'')) \<and> compiles two_packages (entry_qn (no_std_twin ''b''))"
proof -
  have gates: "own_gates_on two_packages ''a/src/lib.rs::g#cfg(feature=std)''"
    "\<not> own_gates_on two_packages (entry_qn (std_twin ''b''))" "own_gates_on two_packages (entry_qn (no_std_twin ''b''))"
    unfolding own_gates_on_def by code_simp+
  moreover have on: "file_on two_packages i" for i by (simp add: two_packages_def)
  ultimately have c: "compiles two_packages ''a/src/lib.rs::g#cfg(feature=std)''"
    "\<not> compiles two_packages (entry_qn (std_twin ''b''))" "compiles two_packages (entry_qn (no_std_twin ''b''))"
    by (simp_all add: compiles_def)
  have "choose_twin package_view ''a/src/lib.rs::g#cfg(feature=std)'' [std_twin ''b'', no_std_twin ''b''] = Some (std_twin ''b'')"
    by code_simp
  then show ?thesis using c two_packages_known [OF c(1)] by (intro conjI)
qed

end
