(* ===== verification/ModuleTree.thy ===== *)
theory ModuleTree
  imports CfgVerdict
begin

text \<open>
  The module trees of the crates, \<open>src/indexer/feature_gated.rs\<close>: which source files the default features
  compile, which they compile out, and the features each file sees. A path is the list of its components;
  \<open>mods\<close> gives the \<open>mod\<close> declarations of a file (the parser of the source is a library).
\<close>

section \<open>Declarations and paths\<close>

type_synonym path = "string list"

record AltPath =
  alt_pred :: "CfgPredicate option"
  alt_path :: string

record ModDecl =
  decl_name :: string
  path_attr :: "string option"
  decl_cfg :: "CfgPredicate list option"
  cfg_text :: string
  alt_paths :: "AltPath list"

datatype TargetKind = Production | Test | Bench | Example

record CrateRoot =
  root_entry :: path
  default_features :: "string set"
  root_kind :: TargetKind
  lib_name :: "string option"

record ModuleTree =
  mods :: "path \<Rightarrow> ModDecl list"
  indexed :: "path list"
  crate_entries :: "path set"

definition slash_path :: "path \<Rightarrow> string" where
  "slash_path p = join_with ''/'' p"

text \<open>\<open>Path::components\<close> on Unix: empty and inner \<open>.\<close> components are dropped.\<close>

datatype component = RootDir | CurDir | ParentDir | NormalC string

definition component_of :: "string \<Rightarrow> component" where
  "component_of s = (if s = ''..'' then ParentDir else NormalC s)"

definition components :: "string \<Rightarrow> component list" where
  "components text =
     (let parts = split_on ''/'' text
      in (if starts_with text ''/'' then [RootDir] else if hd parts = ''.'' then [CurDir] else [])
         @ map component_of (filter (\<lambda>s. s \<noteq> [] \<and> s \<noteq> ''.'') parts))"

text \<open>\<open>parent.join(path)\<close>: an absolute path replaces the parent.\<close>

definition join_components :: "path \<Rightarrow> string \<Rightarrow> component list" where
  "join_components parent text =
     (if starts_with text ''/'' then components text else map NormalC parent @ components text)"

fun lexical_from :: "path \<Rightarrow> component list \<Rightarrow> path option" where
  "lexical_from out [] = Some out"
| "lexical_from out (CurDir # cs) = lexical_from out cs"
| "lexical_from out (ParentDir # cs) = (if out = [] then None else lexical_from (butlast out) cs)"
| "lexical_from out (NormalC part # cs) = lexical_from (out @ [part]) cs"
| "lexical_from out (RootDir # cs) = None"

definition lexical :: "component list \<Rightarrow> path option" where
  "lexical cs = lexical_from [] cs"

text \<open>\<open>Path::file_stem\<close>: the name up to its last dot, the whole name when that dot is its first character.\<close>

definition stem_of :: "string \<Rightarrow> string" where
  "stem_of name = (case rsplit_once CHR ''.'' name of Some (before, after) \<Rightarrow> if before = [] then name else before | None \<Rightarrow> name)"

definition file_stem :: "path \<Rightarrow> string option" where
  "file_stem p = (if p = [] then None else Some (stem_of (last p)))"

definition module_file :: "path \<Rightarrow> bool \<Rightarrow> ModDecl \<Rightarrow> (path \<Rightarrow> bool) \<Rightarrow> path option" where
  "module_file file owns_directory decl ex =
     (let parent = butlast file
      in case path_attr decl of
           Some text \<Rightarrow> Option.bind (lexical (join_components parent text)) (\<lambda>p. if ex p then Some p else None)
         | None \<Rightarrow>
             Option.bind (if owns_directory then Some parent else map_option (\<lambda>stem. parent @ [stem]) (file_stem file))
               (\<lambda>dir. find ex [dir @ [decl_name decl @ ''.rs''], dir @ [decl_name decl, ''mod.rs'']]))"

definition alternatives :: "ModDecl \<Rightarrow> ModDecl list" where
  "alternatives decl =
     (let gated = (\<lambda>extra. Option.bind (decl_cfg decl) (\<lambda>all. map_option (\<lambda>p. all @ [p]) extra));
          nots = those (map (\<lambda>alt. map_option CNot (alt_pred alt)) (alt_paths decl));
          fallback = Option.bind (decl_cfg decl) (\<lambda>all. map_option (\<lambda>ps. all @ ps) nots)
      in map (\<lambda>alt. \<lparr>decl_name = decl_name decl, path_attr = Some (alt_path alt), decl_cfg = gated (alt_pred alt),
             cfg_text = cfg_text decl, alt_paths = []\<rparr>) (alt_paths decl)
         @ [decl\<lparr>decl_cfg := fallback, alt_paths := []\<rparr>])"

definition declared_children :: "(path \<Rightarrow> ModDecl list) \<Rightarrow> path \<Rightarrow> bool \<Rightarrow> (path \<Rightarrow> bool) \<Rightarrow> (ModDecl \<times> path) list" where
  "declared_children decls file owns_directory ex =
     concat (map (\<lambda>decl. concat (map (\<lambda>alternative.
       case module_file file owns_directory alternative ex of Some target \<Rightarrow> [(alternative, target)] | None \<Rightarrow> [])
         (alternatives decl))) (decls file))"

definition children :: "ModuleTree \<Rightarrow> path \<Rightarrow> (ModDecl \<times> path) list" where
  "children tree file =
     declared_children (mods tree) file (file \<in> crate_entries tree \<or> (file \<noteq> [] \<and> last file = ''mod.rs''))
       (\<lambda>p. p \<in> set (indexed tree))"

definition decl_gate :: "ModDecl \<Rightarrow> string set \<Rightarrow> Truth" where
  "decl_gate decl enabled =
     (case decl_cfg decl of Some all \<Rightarrow> eval_features enabled (CAll all) | None \<Rightarrow> TUnknown)"

definition gate_detail :: "ModDecl \<Rightarrow> path \<Rightarrow> string" where
  "gate_detail decl file =
     ''compiled out under the package'' @ [CHR 0x27] @ ''s default features (cargo metadata): '' @ cfg_text decl
     @ '' on `mod '' @ decl_name decl @ '';` in '' @ slash_path file
     @ '' is false; declarations are indexed, calls in it cannot be resolved by the language server''"

section \<open>The files that are compiled\<close>

type_synonym live_map = "path \<rightharpoonup> string set list"
type_synonym seed = "path \<times> string"

definition live_with :: "live_map \<Rightarrow> string set \<Rightarrow> path \<Rightarrow> bool" where
  "live_with live F file \<longleftrightarrow> (case live file of Some sets \<Rightarrow> F \<in> set sets | None \<Rightarrow> False)"

text \<open>Recording that a file is reached with a feature set.\<close>

definition reach_live :: "live_map \<Rightarrow> path \<Rightarrow> string set \<Rightarrow> live_map" where
  "reach_live live file F =
     (if live_with live F file then live
      else live(file \<mapsto> (case live file of Some sets \<Rightarrow> sets | None \<Rightarrow> []) @ [F]))"

fun walk_children :: "string set \<Rightarrow> path \<Rightarrow> (ModDecl \<times> path) list \<Rightarrow> live_map \<times> seed list \<times> path list
    \<Rightarrow> live_map \<times> seed list \<times> path list" where
  "walk_children F file [] st = st"
| "walk_children F file ((decl, target) # cs) (live, seeds, pending) =
     (if decl_gate decl F = TFalse
      then walk_children F file cs (live, seeds @ [(target, gate_detail decl file)], pending)
      else if live_with live F target then walk_children F file cs (live, seeds, pending)
      else walk_children F file cs (reach_live live target F, seeds, pending @ [target]))"

definition unreached :: "ModuleTree \<Rightarrow> string set \<Rightarrow> live_map \<Rightarrow> path set" where
  "unreached tree F live = {f \<in> set (indexed tree). \<not> live_with live F f}"

lemma module_file_ex: "module_file fl own decl ex = Some t \<Longrightarrow> ex t"
  by (auto simp: module_file_def Let_def bind_eq_Some_conv find_Some_iff split: option.splits if_splits)

lemma children_indexed: "(d, t) \<in> set (children tree file) \<Longrightarrow> t \<in> set (indexed tree)"
  by (auto simp: children_def declared_children_def split: option.splits dest: module_file_ex [OF sym])

lemma children_targets: "snd ` set (children tree fl) \<subseteq> set (indexed tree)"
  using children_indexed by auto

lemma live_with_reach [simp]:
  "live_with (reach_live live t F) G f \<longleftrightarrow> live_with live G f \<or> (f = t \<and> G = F)"
  by (auto simp: reach_live_def live_with_def split: option.splits)

lemma walk_children_measure:
  assumes "walk_children F fl cs (live, seeds, pending) = (live', seeds', pending')"
    and "snd ` set cs \<subseteq> set (indexed tree)"
  shows "card (unreached tree F live') + length pending' \<le> card (unreached tree F live) + length pending"
  using assms
proof (induction cs arbitrary: live seeds pending)
  case (Cons c cs)
  obtain decl target where c: "c = (decl, target)" by (cases c)
  let ?new = "\<not> decl_gate decl F = TFalse \<and> \<not> live_with live F target"
  have t: "target \<in> set (indexed tree)" using Cons.prems(2) c by simp
  have cs: "snd ` set cs \<subseteq> set (indexed tree)" using Cons.prems(2) by simp
  show ?case
  proof (cases ?new)
    case True
    have "unreached tree F (reach_live live target F) \<subset> unreached tree F live"
      using True t by (auto simp: unreached_def)
    then have "card (unreached tree F (reach_live live target F)) < card (unreached tree F live)"
      by (simp add: psubset_card_mono unreached_def)
    moreover have "walk_children F fl cs (reach_live live target F, seeds, pending @ [target]) = (live', seeds', pending')"
      using Cons.prems(1) True c by simp
    from Cons.IH [OF this cs]
    have "card (unreached tree F live') + length pending' \<le> card (unreached tree F (reach_live live target F)) + length pending + 1"
      by simp
    ultimately show ?thesis by simp
  next
    case False
    then show ?thesis using Cons.prems(1) Cons.IH [OF _ cs] c by (auto split: if_splits)
  qed
qed simp

function walk_loop :: "ModuleTree \<Rightarrow> string set \<Rightarrow> live_map \<Rightarrow> seed list \<Rightarrow> path list \<Rightarrow> live_map \<times> seed list" where
  "walk_loop tree F live seeds pending =
     (if pending = [] then (live, seeds)
      else case walk_children F (last pending) (children tree (last pending)) (live, seeds, butlast pending) of
             (live, seeds, pending) \<Rightarrow> walk_loop tree F live seeds pending)"
  by pat_completeness auto
termination walk_loop
proof (relation "measure (\<lambda>(tree, F, live, seeds, pending). card (unreached tree F live) + length pending)", goal_cases)
  case (2 tree F live seeds pending x y xa ya)
  then have w: "walk_children F (last pending) (children tree (last pending)) (live, seeds, butlast pending) = (x, xa, ya)" by simp
  from walk_children_measure [OF w children_targets]
  have "card (unreached tree F x) + length ya \<le> card (unreached tree F live) + length (butlast pending)" .
  moreover have "length (butlast pending) < length pending" using 2(1) by simp
  ultimately have "card (unreached tree F x) + length ya < card (unreached tree F live) + length pending" by linarith
  then show ?case by (simp add: w)
qed simp

definition walk_live :: "ModuleTree \<Rightarrow> CrateRoot \<Rightarrow> live_map \<times> seed list \<Rightarrow> live_map \<times> seed list" where
  "walk_live tree crate_root st =
     (case st of (live, seeds) \<Rightarrow>
       let F = default_features crate_root; entry = root_entry crate_root
       in if entry \<notin> set (indexed tree) \<or> live_with live F entry then (live, seeds)
          else walk_loop tree F (reach_live live entry F) seeds [entry])"

section \<open>The files that are compiled out\<close>

function propagate_loop :: "ModuleTree \<Rightarrow> live_map \<Rightarrow> (path \<rightharpoonup> string) \<Rightarrow> seed list \<Rightarrow> (path \<rightharpoonup> string)" where
  "propagate_loop tree live gated pending =
     (if pending = [] then gated
      else let (file, detail) = last pending; rest = butlast pending
           in if live file \<noteq> None \<or> gated file \<noteq> None then propagate_loop tree live gated rest
              else propagate_loop tree live (gated(file \<mapsto> detail))
                     (rest @ map (\<lambda>(d, target). (target, ''declared in '' @ slash_path file @ '', itself '' @ detail))
                        (children tree file)))"
  by pat_completeness auto

definition open_files :: "ModuleTree \<Rightarrow> (path \<rightharpoonup> string) \<Rightarrow> seed list \<Rightarrow> path set" where
  "open_files tree gated pending = (set (indexed tree) \<union> fst ` set pending) - dom gated"

lemma open_files_finite [simp]: "finite (open_files tree gated pending)"
  by (simp add: open_files_def)

lemma open_files_rest: "open_files tree gated (butlast pending) \<subseteq> open_files tree gated pending"
  by (auto simp: open_files_def dest: in_set_butlastD)

lemma open_files_step:
  assumes "pending \<noteq> []" "last pending = (file, detail)" "gated file = None"
    and "fst ` set new \<subseteq> set (indexed tree)"
  shows "open_files tree (gated(file \<mapsto> detail)) (butlast pending @ new) \<subset> open_files tree gated pending"
proof -
  have "(file, detail) \<in> set pending" using assms(1,2) by (metis last_in_set)
  then have "file \<in> open_files tree gated pending" using assms(3) by (force simp: open_files_def)
  moreover have "open_files tree (gated(file \<mapsto> detail)) (butlast pending @ new) \<subseteq> open_files tree gated pending - {file}"
    using assms(4) by (auto simp: open_files_def dest: in_set_butlastD)
  ultimately show ?thesis by blast
qed

termination propagate_loop
proof (relation "measures [\<lambda>(tree, live, gated, pending). card (open_files tree gated pending),
    \<lambda>(tree, live, gated, pending). length pending]", goal_cases)
  case (2 tree live gated pending x xa y xb)
  have "card (open_files tree gated (butlast pending)) \<le> card (open_files tree gated pending)"
    by (intro card_mono open_files_rest open_files_finite)
  moreover have "0 < length pending" using 2(1) by simp
  ultimately show ?case by (simp add: 2(4) order_le_less)
next
  case (3 tree live gated pending x xa y xb)
  let ?new = "map (\<lambda>(d, target). (target, ''declared in '' @ slash_path xa @ '', itself '' @ y)) (children tree xa)"
  have "fst ` set ?new \<subseteq> set (indexed tree)" using children_targets [of tree xa] by force
  then have "card (open_files tree (gated(xa \<mapsto> y)) (butlast pending @ ?new)) < card (open_files tree gated pending)"
    using 3 by (intro psubset_card_mono open_files_finite open_files_step) auto
  then show ?case using 3(4) by simp
qed simp

declare walk_loop.simps [simp del] propagate_loop.simps [simp del]

definition propagate_gated :: "ModuleTree \<Rightarrow> seed list \<Rightarrow> live_map \<Rightarrow> (path \<rightharpoonup> string)" where
  "propagate_gated tree seeds live = propagate_loop tree live Map.empty seeds"

definition features_of :: "live_map \<Rightarrow> (path \<rightharpoonup> string) \<Rightarrow> path \<rightharpoonup> FileFeatures" where
  "features_of live gated file =
     (if gated file \<noteq> None then Some CompiledOut
      else map_option (\<lambda>sets. case sets of [only] \<Rightarrow> Enabled only | _ \<Rightarrow> Disagree) (live file))"

definition analyse_features :: "ModuleTree \<Rightarrow> CrateRoot list \<Rightarrow> (path \<rightharpoonup> string) \<times> (path \<rightharpoonup> FileFeatures)" where
  "analyse_features tree crate_roots =
     (let (live, seeds) = fold (walk_live tree) crate_roots (Map.empty, []);
          gated = propagate_gated tree seeds live
      in (gated, features_of live gated))"

section \<open>What the walks find\<close>

text \<open>The declarations as relations on files: all of them, those that the features \<open>F\<close> leave in, and those
  that they compile out.\<close>

definition declares :: "ModuleTree \<Rightarrow> (path \<times> path) set" where
  "declares tree = {(f, t). \<exists>d. (d, t) \<in> set (children tree f)}"

definition compiled_in :: "ModuleTree \<Rightarrow> string set \<Rightarrow> (path \<times> path) set" where
  "compiled_in tree F = {(f, t). \<exists>d. (d, t) \<in> set (children tree f) \<and> decl_gate d F \<noteq> TFalse}"

definition compiled_out :: "ModuleTree \<Rightarrow> string set \<Rightarrow> (path \<times> path) set" where
  "compiled_out tree F = {(f, t). \<exists>d. (d, t) \<in> set (children tree f) \<and> decl_gate d F = TFalse}"

lemma declares_split: "declares tree = compiled_in tree F \<union> compiled_out tree F"
  by (auto simp: declares_def compiled_in_def compiled_out_def)

definition live_files :: "live_map \<Rightarrow> string set \<Rightarrow> path set" where
  "live_files live F = {f. live_with live F f}"

lemma live_files_reach: "live_files (reach_live live t F) G = live_files live G \<union> (if G = F then {t} else {})"
  by (auto simp: live_files_def)

text \<open>The feature sets of a file are recorded once each, and a file with none has no entry.\<close>

definition tidy :: "live_map \<Rightarrow> bool" where
  "tidy live \<longleftrightarrow> (\<forall>f sets. live f = Some sets \<longrightarrow> sets \<noteq> [] \<and> distinct sets)"

lemma tidy_reach: "tidy live \<Longrightarrow> tidy (reach_live live t F)"
  by (auto simp: tidy_def reach_live_def live_with_def split: option.splits)

lemma walk_children_effect:
  assumes "walk_children F fl cs (live, seeds, pending) = (live', seeds', pending')"
  shows "live_files live' G = live_files live G \<union> (if G = F then {t. \<exists>d. (d, t) \<in> set cs \<and> decl_gate d F \<noteq> TFalse} else {})"
    and "fst ` set seeds' = fst ` set seeds \<union> {t. \<exists>d. (d, t) \<in> set cs \<and> decl_gate d F = TFalse}"
    and "set pending' = set pending \<union> ({t. \<exists>d. (d, t) \<in> set cs \<and> decl_gate d F \<noteq> TFalse} - live_files live F)"
    and "tidy live \<longrightarrow> tidy live'"
proof -
  have "live_files live' G = live_files live G \<union> (if G = F then {t. \<exists>d. (d, t) \<in> set cs \<and> decl_gate d F \<noteq> TFalse} else {})
    \<and> fst ` set seeds' = fst ` set seeds \<union> {t. \<exists>d. (d, t) \<in> set cs \<and> decl_gate d F = TFalse}
    \<and> set pending' = set pending \<union> ({t. \<exists>d. (d, t) \<in> set cs \<and> decl_gate d F \<noteq> TFalse} - live_files live F)
    \<and> (tidy live \<longrightarrow> tidy live')"
    using assms
  proof (induction cs arbitrary: live seeds pending)
    case (Cons c cs)
    obtain decl target where c: "c = (decl, target)" by (cases c)
    consider (out) "decl_gate decl F = TFalse" | (old) "decl_gate decl F \<noteq> TFalse" "live_with live F target"
      | (new) "decl_gate decl F \<noteq> TFalse" "\<not> live_with live F target" by blast
    then show ?case
    proof cases
      case out
      then have "walk_children F fl cs (live, seeds @ [(target, gate_detail decl fl)], pending) = (live', seeds', pending')"
        using Cons.prems c by simp
      from Cons.IH [OF this] show ?thesis using out c by auto
    next
      case old
      then have "walk_children F fl cs (live, seeds, pending) = (live', seeds', pending')" using Cons.prems c by simp
      from Cons.IH [OF this] show ?thesis using old c by (auto simp: live_files_def)
    next
      case new
      then have "walk_children F fl cs (reach_live live target F, seeds, pending @ [target]) = (live', seeds', pending')"
        using Cons.prems c by simp
      moreover have "tidy live \<longrightarrow> tidy (reach_live live target F)" by (simp add: tidy_reach)
      ultimately show ?thesis using Cons.IH [of "reach_live live target F" seeds "pending @ [target]"] new c
        by (auto simp: live_files_reach live_files_def)
    qed
  qed simp
  then show "live_files live' G = live_files live G \<union> (if G = F then {t. \<exists>d. (d, t) \<in> set cs \<and> decl_gate d F \<noteq> TFalse} else {})"
    and "fst ` set seeds' = fst ` set seeds \<union> {t. \<exists>d. (d, t) \<in> set cs \<and> decl_gate d F = TFalse}"
    and "set pending' = set pending \<union> ({t. \<exists>d. (d, t) \<in> set cs \<and> decl_gate d F \<noteq> TFalse} - live_files live F)"
    and "tidy live \<longrightarrow> tidy live'" by blast+
qed

text \<open>The invariant of the walk: all but the pending files have had their declarations read.\<close>

definition walk_inv :: "ModuleTree \<Rightarrow> string set \<Rightarrow> live_map \<Rightarrow> seed list \<Rightarrow> path list \<Rightarrow> bool" where
  "walk_inv tree F live seeds pending \<longleftrightarrow>
     set pending \<subseteq> live_files live F
     \<and> compiled_in tree F `` (live_files live F - set pending) \<subseteq> live_files live F
     \<and> compiled_out tree F `` (live_files live F - set pending) \<subseteq> fst ` set seeds"

lemma walk_invD:
  assumes "walk_inv tree F live seeds pending"
  shows "set pending \<subseteq> live_files live F"
    and "f \<in> live_files live F \<Longrightarrow> f \<notin> set pending \<Longrightarrow> (f, t) \<in> compiled_in tree F \<Longrightarrow> t \<in> live_files live F"
    and "f \<in> live_files live F \<Longrightarrow> f \<notin> set pending \<Longrightarrow> (f, t) \<in> compiled_out tree F \<Longrightarrow> t \<in> fst ` set seeds"
  using assms by (auto simp: walk_inv_def)

lemma walk_step_effect:
  assumes "pending \<noteq> []"
    and "walk_children F (last pending) (children tree (last pending)) (live, seeds, butlast pending) = (live', seeds', pending')"
  shows "live_files live' F = live_files live F \<union> compiled_in tree F `` {last pending}"
    and "G \<noteq> F \<Longrightarrow> live_files live' G = live_files live G"
    and "fst ` set seeds' = fst ` set seeds \<union> compiled_out tree F `` {last pending}"
    and "set pending' = set (butlast pending) \<union> (compiled_in tree F `` {last pending} - live_files live F)"
    and "tidy live \<Longrightarrow> tidy live'"
proof -
  have R: "{t. \<exists>d. (d, t) \<in> set (children tree (last pending)) \<and> decl_gate d F \<noteq> TFalse} = compiled_in tree F `` {last pending}"
    "{t. \<exists>d. (d, t) \<in> set (children tree (last pending)) \<and> decl_gate d F = TFalse} = compiled_out tree F `` {last pending}"
    by (auto simp: compiled_in_def compiled_out_def)
  note e = walk_children_effect [OF assms(2), unfolded R]
  show "live_files live' F = live_files live F \<union> compiled_in tree F `` {last pending}" using e(1) [of F] by simp
  show "live_files live' G = live_files live G" if "G \<noteq> F" using e(1) [of G] that by simp
  show "fst ` set seeds' = fst ` set seeds \<union> compiled_out tree F `` {last pending}" by (rule e(2))
  show "set pending' = set (butlast pending) \<union> (compiled_in tree F `` {last pending} - live_files live F)" by (rule e(3))
  show "tidy live \<Longrightarrow> tidy live'" using e(4) by blast
qed

lemma set_butlast_last: "pending \<noteq> [] \<Longrightarrow> set pending = insert (last pending) (set (butlast pending))"
  by (metis append_butlast_last_id insert_is_Un list.simps(15) rotate1.simps(2) set_rotate1)

lemma walk_inv_step:
  assumes "walk_inv tree F live seeds pending" "pending \<noteq> []"
    and "walk_children F (last pending) (children tree (last pending)) (live, seeds, butlast pending) = (live', seeds', pending')"
  shows "walk_inv tree F live' seeds' pending'"
proof -
  note e = walk_step_effect [OF assms(2,3)] and i = walk_invD [OF assms(1)]
  have p: "set pending = insert (last pending) (set (butlast pending))" by (rule set_butlast_last [OF assms(2)])
  have old: "f \<in> live_files live F \<and> f \<notin> set pending \<or> f = last pending"
    if "f \<in> live_files live' F" "f \<notin> set pending'" for f
    using that e(1,4) p by blast
  show ?thesis unfolding walk_inv_def
  proof (intro conjI subsetI)
    fix f assume "f \<in> set pending'"
    then show "f \<in> live_files live' F" using e(1,4) i(1) p by blast
  next
    fix t assume "t \<in> compiled_in tree F `` (live_files live' F - set pending')"
    then obtain f where f: "f \<in> live_files live' F" "f \<notin> set pending'" "(f, t) \<in> compiled_in tree F" by blast
    show "t \<in> live_files live' F" using old [OF f(1,2)] i(2) [of f t] f(3) e(1) by blast
  next
    fix t assume "t \<in> compiled_out tree F `` (live_files live' F - set pending')"
    then obtain f where f: "f \<in> live_files live' F" "f \<notin> set pending'" "(f, t) \<in> compiled_out tree F" by blast
    show "t \<in> fst ` set seeds'" using old [OF f(1,2)] i(3) [of f t] f(3) e(3) by blast
  qed
qed

lemma walk_loop_result:
  assumes "walk_loop tree F live seeds pending = (live', seeds')" "walk_inv tree F live seeds pending"
    "tidy live"
  shows "walk_inv tree F live' seeds' []"
    and "live_files live F \<subseteq> live_files live' F"
    and "live_files live' F \<subseteq> live_files live F \<union> (compiled_in tree F)\<^sup>* `` set pending"
    and "G \<noteq> F \<Longrightarrow> live_files live' G = live_files live G"
    and "fst ` set seeds \<subseteq> fst ` set seeds'"
    and "fst ` set seeds' \<subseteq> fst ` set seeds \<union> compiled_out tree F `` live_files live' F"
    and "tidy live'"
proof -
  have "walk_inv tree F live' seeds' [] \<and> live_files live F \<subseteq> live_files live' F
    \<and> live_files live' F \<subseteq> live_files live F \<union> (compiled_in tree F)\<^sup>* `` set pending
    \<and> (\<forall>G. G \<noteq> F \<longrightarrow> live_files live' G = live_files live G) \<and> fst ` set seeds \<subseteq> fst ` set seeds'
    \<and> fst ` set seeds' \<subseteq> fst ` set seeds \<union> compiled_out tree F `` live_files live' F \<and> tidy live'"
    using assms
  proof (induction tree F live seeds pending rule: walk_loop.induct)
    case (1 tree F live seeds pending)
    show ?case
    proof (cases "pending = []")
      case True
      have "walk_loop tree F live seeds [] = (live, seeds)" by (subst walk_loop.simps) simp
      then have "live' = live \<and> seeds' = seeds" using "1.prems"(1) True by simp
      then have l: "live' = live" "seeds' = seeds" by simp_all
      have "walk_inv tree F live seeds []" using "1.prems"(2) True by simp
      then show ?thesis unfolding l using "1.prems"(3) by (intro conjI) (assumption | simp | blast)+
    next
      case False
      obtain l s q where w: "walk_children F (last pending) (children tree (last pending)) (live, seeds, butlast pending) = (l, s, q)"
        by (cases "walk_children F (last pending) (children tree (last pending)) (live, seeds, butlast pending)") auto
      note e = walk_step_effect [OF False w] and inv = walk_inv_step [OF "1.prems"(2) False w]
      have "walk_loop tree F l s q = (live', seeds')"
        using "1.prems"(1) False by (simp add: walk_loop.simps [of tree F live seeds pending] w)
      from "1.IH" [OF False w [symmetric] refl this inv e(5) [OF "1.prems"(3)]]
      have IH: "walk_inv tree F live' seeds' []" "live_files l F \<subseteq> live_files live' F"
        "live_files live' F \<subseteq> live_files l F \<union> (compiled_in tree F)\<^sup>* `` set q"
        "\<forall>G. G \<noteq> F \<longrightarrow> live_files live' G = live_files l G" "fst ` set s \<subseteq> fst ` set seeds'"
        "fst ` set seeds' \<subseteq> fst ` set s \<union> compiled_out tree F `` live_files live' F" "tidy live'"
        by - (elim conjE, assumption)+
      have p: "set pending = insert (last pending) (set (butlast pending))" by (rule set_butlast_last [OF False])
      have "last pending \<in> live_files live' F"
        using walk_invD(1) [OF "1.prems"(2)] p e(1) IH(2) by blast
      then have out: "compiled_out tree F `` {last pending} \<subseteq> compiled_out tree F `` live_files live' F" by blast
      have one: "(compiled_in tree F)\<^sup>* `` (compiled_in tree F `` {last pending}) \<subseteq> (compiled_in tree F)\<^sup>* `` set pending"
        using p by (auto intro: converse_rtrancl_into_rtrancl)
      have q: "(compiled_in tree F)\<^sup>* `` set q \<subseteq> (compiled_in tree F)\<^sup>* `` set pending"
        using one p unfolding e(4) by blast
      have "compiled_in tree F `` {last pending} \<subseteq> (compiled_in tree F)\<^sup>* `` set pending" using one by blast
      then have "live_files live' F \<subseteq> live_files live F \<union> (compiled_in tree F)\<^sup>* `` set pending"
        using IH(3) q unfolding e(1) by blast
      moreover have "live_files live F \<subseteq> live_files live' F" using IH(2) e(1) by blast
      moreover have "\<forall>G. G \<noteq> F \<longrightarrow> live_files live' G = live_files live G" using IH(4) e(2) by simp
      moreover have "fst ` set seeds \<subseteq> fst ` set seeds'" using IH(5) e(3) by blast
      moreover have "fst ` set seeds' \<subseteq> fst ` set seeds \<union> compiled_out tree F `` live_files live' F"
        using IH(6) out unfolding e(3) by blast
      ultimately show ?thesis using IH(1,7) by (intro conjI)
    qed
  qed
  then show "walk_inv tree F live' seeds' []" "live_files live F \<subseteq> live_files live' F"
    "live_files live' F \<subseteq> live_files live F \<union> (compiled_in tree F)\<^sup>* `` set pending"
    "G \<noteq> F \<Longrightarrow> live_files live' G = live_files live G" "fst ` set seeds \<subseteq> fst ` set seeds'"
    "fst ` set seeds' \<subseteq> fst ` set seeds \<union> compiled_out tree F `` live_files live' F" "tidy live'"
    by - (elim conjE, (erule allE, erule mp)?, assumption)+
qed

text \<open>A file is live under the features \<open>F\<close> when a crate root with these features reaches it through
  declarations that they leave in.\<close>

definition live_from :: "ModuleTree \<Rightarrow> CrateRoot list \<Rightarrow> string set \<Rightarrow> path set" where
  "live_from tree roots F = {f. \<exists>r \<in> set roots. default_features r = F \<and> root_entry r \<in> set (indexed tree)
     \<and> (root_entry r, f) \<in> (compiled_in tree F)\<^sup>*}"

definition walked :: "ModuleTree \<Rightarrow> CrateRoot list \<Rightarrow> live_map \<times> seed list \<Rightarrow> bool" where
  "walked tree roots st \<longleftrightarrow> (\<forall>F. live_files (fst st) F = live_from tree roots F)
     \<and> fst ` set (snd st) = (\<Union>F. compiled_out tree F `` live_from tree roots F)
     \<and> tidy (fst st)"

lemma live_from_closed: "compiled_in tree F `` live_from tree roots F \<subseteq> live_from tree roots F"
  by (auto simp: live_from_def intro: rtrancl_into_rtrancl)

lemma live_from_snoc: "live_from tree (roots @ [r]) F = live_from tree roots F \<union>
    (if default_features r = F \<and> root_entry r \<in> set (indexed tree) then (compiled_in tree F)\<^sup>* `` {root_entry r} else {})"
  by (auto simp: live_from_def)

lemma closed_rtrancl: "R `` S \<subseteq> S \<Longrightarrow> R\<^sup>* `` S \<subseteq> S"
  by (metis Image_closed_trancl subset_refl)

lemma walk_live_walked:
  assumes "walked tree roots st" shows "walked tree (roots @ [r]) (walk_live tree r st)"
proof -
  obtain live seeds where st: "st = (live, seeds)" by (cases st)
  define F where "F = default_features r"
  have w: "live_files live G = live_from tree roots G" "fst ` set seeds = (\<Union>F. compiled_out tree F `` live_from tree roots F)"
    "tidy live" for G using assms by (auto simp: walked_def st)
  show ?thesis
  proof (cases "root_entry r \<notin> set (indexed tree) \<or> live_with live F (root_entry r)")
    case True
    have "(compiled_in tree F)\<^sup>* `` {root_entry r} \<subseteq> live_from tree roots F" if "live_with live F (root_entry r)"
    proof -
      have "root_entry r \<in> live_from tree roots F" using that w(1) [of F] by (auto simp: live_files_def)
      then show ?thesis using closed_rtrancl [OF live_from_closed, of tree F roots] by blast
    qed
    then have "live_from tree (roots @ [r]) G = live_from tree roots G" for G
      using True by (auto simp: live_from_snoc F_def [symmetric])
    moreover have "walk_live tree r st = st" using True by (simp add: walk_live_def st F_def [symmetric] Let_def)
    ultimately show ?thesis using assms by (simp add: walked_def)
  next
    case False
    let ?e = "root_entry r" and ?live = "reach_live live (root_entry r) F"
    obtain live' seeds' where l: "walk_loop tree F ?live seeds [?e] = (live', seeds')" by (cases "walk_loop tree F ?live seeds [?e]")
    have res: "walk_live tree r st = (live', seeds')" using False l by (simp add: walk_live_def st F_def [symmetric] Let_def)
    have files: "live_files ?live G = live_from tree roots G \<union> (if G = F then {?e} else {})" for G
      by (simp add: live_files_reach w(1))
    have "walk_inv tree F ?live seeds [?e]"
      unfolding walk_inv_def files using live_from_closed [of tree F roots] w(2) by auto
    note r = walk_loop_result [OF l this]
    have ne: "tidy ?live" using w(3) by (rule tidy_reach)
    note r = r [OF ne]
    have eF: "live_files live' F = live_from tree (roots @ [r]) F"
    proof
      show "live_files live' F \<subseteq> live_from tree (roots @ [r]) F"
        using r(3) False by (auto simp: files live_from_snoc F_def [symmetric])
      have "compiled_in tree F `` live_files live' F \<subseteq> live_files live' F" using r(1) by (auto simp: walk_inv_def)
      from closed_rtrancl [OF this] have "(compiled_in tree F)\<^sup>* `` {?e} \<subseteq> live_files live' F"
        using r(2) by (auto simp: files)
      then show "live_from tree (roots @ [r]) F \<subseteq> live_files live' F"
        using r(2) by (auto simp: files live_from_snoc F_def [symmetric] split: if_splits)
    qed
    have eG: "live_files live' G = live_from tree (roots @ [r]) G" for G
      using eF r(4) [of G] by (cases "G = F") (auto simp: files live_from_snoc F_def [symmetric])
    have "fst ` set seeds' = (\<Union>F. compiled_out tree F `` live_from tree (roots @ [r]) F)"
    proof
      show "fst ` set seeds' \<subseteq> (\<Union>F. compiled_out tree F `` live_from tree (roots @ [r]) F)"
      proof -
        have "live_from tree roots G \<subseteq> live_from tree (roots @ [r]) G" for G by (simp add: live_from_snoc)
        then have "fst ` set seeds \<subseteq> (\<Union>F. compiled_out tree F `` live_from tree (roots @ [r]) F)"
          unfolding w(2) by (intro UN_mono Image_mono subset_refl)
        then show ?thesis using r(6) unfolding eF by (meson UNIV_I UN_upper Un_least order_trans)
      qed
      have "compiled_out tree G `` live_from tree (roots @ [r]) G \<subseteq> fst ` set seeds'" for G
      proof (cases "G = F")
        case True
        then show ?thesis using r(1) by (simp add: walk_inv_def eF)
      next
        case False
        then have "live_from tree (roots @ [r]) G = live_from tree roots G" by (auto simp: live_from_snoc F_def [symmetric])
        then show ?thesis using r(5) unfolding w(2) by blast
      qed
      then show "(\<Union>F. compiled_out tree F `` live_from tree (roots @ [r]) F) \<subseteq> fst ` set seeds'" by blast
    qed
    then show ?thesis using eG r(7) by (simp add: walked_def res)
  qed
qed

lemma walk_all: "walked tree roots (fold (walk_live tree) roots (Map.empty, []))"
proof (induction roots rule: rev_induct)
  case Nil
  then show ?case by (simp add: walked_def live_from_def live_files_def live_with_def tidy_def)
next
  case (snoc r roots)
  then show ?case by (simp add: walk_live_walked)
qed

text \<open>The invariant of the second walk: what a gated file declares is live, gated or pending.\<close>

definition gated_inv :: "ModuleTree \<Rightarrow> live_map \<Rightarrow> (path \<rightharpoonup> string) \<Rightarrow> path set \<Rightarrow> bool" where
  "gated_inv tree live gated pending \<longleftrightarrow>
     dom gated \<inter> dom live = {} \<and> declares tree `` dom gated \<subseteq> dom live \<union> dom gated \<union> pending"

lemma propagate_loop_result:
  assumes "gated_inv tree live gated (fst ` set pending)"
  shows "gated_inv tree live (propagate_loop tree live gated pending) {}"
    and "dom gated \<union> (fst ` set pending - dom live) \<subseteq> dom (propagate_loop tree live gated pending)"
    and "dom (propagate_loop tree live gated pending) \<subseteq> dom gated \<union> (declares tree)\<^sup>* `` (fst ` set pending)"
proof -
  have "gated_inv tree live (propagate_loop tree live gated pending) {}
    \<and> dom gated \<union> (fst ` set pending - dom live) \<subseteq> dom (propagate_loop tree live gated pending)
    \<and> dom (propagate_loop tree live gated pending) \<subseteq> dom gated \<union> (declares tree)\<^sup>* `` (fst ` set pending)"
    using assms
  proof (induction tree live gated pending rule: propagate_loop.induct)
    case (1 tree live gated pending)
    show ?case
    proof (cases "pending = []")
      case True
      have "propagate_loop tree live gated [] = gated" by (subst propagate_loop.simps) simp
      then show ?thesis using "1.prems" True by simp
    next
      case False
      obtain fl detail where l: "last pending = (fl, detail)" by (cases "last pending")
      have p: "set pending = insert (fl, detail) (set (butlast pending))" using set_butlast_last [OF False] l by simp
      have pf: "fst ` set pending = insert fl (fst ` set (butlast pending))" by (simp add: p)
      show ?thesis
      proof (cases "live fl \<noteq> None \<or> gated fl \<noteq> None")
        case True
        have loop: "propagate_loop tree live gated pending = propagate_loop tree live gated (butlast pending)"
          using False l True by (subst propagate_loop.simps) simp
        have "gated_inv tree live gated (fst ` set (butlast pending))"
          using "1.prems" True unfolding gated_inv_def pf by blast
        note ih = "1.IH"(1) [OF False refl l [symmetric] refl True this]
        have "dom gated \<union> (insert fl (fst ` set (butlast pending)) - dom live) \<subseteq> dom (propagate_loop tree live gated (butlast pending))"
          using ih True by auto
        moreover have "(declares tree)\<^sup>* `` (fst ` set (butlast pending)) \<subseteq> (declares tree)\<^sup>* `` insert fl (fst ` set (butlast pending))"
          by blast
        ultimately show ?thesis unfolding loop pf using ih by (meson Un_mono order_refl order_trans)
      next
        case False2: False
        let ?new = "map (\<lambda>(d, target). (target, ''declared in '' @ slash_path fl @ '', itself '' @ detail)) (children tree fl)"
        have new: "fst ` set ?new = declares tree `` {fl}" by (force simp: declares_def)
        have loop: "propagate_loop tree live gated pending = propagate_loop tree live (gated(fl \<mapsto> detail)) (butlast pending @ ?new)"
          using False l False2 by (subst propagate_loop.simps) simp
        have pend: "fst ` set (butlast pending @ ?new) = fst ` set (butlast pending) \<union> declares tree `` {fl}"
          unfolding set_append image_Un new ..
        have d: "dom (gated(fl \<mapsto> detail)) = insert fl (dom gated)" by simp
        have "gated_inv tree live (gated(fl \<mapsto> detail)) (fst ` set (butlast pending @ ?new))"
          using "1.prems" False2 unfolding gated_inv_def pend d pf by blast
        note ih = "1.IH"(2) [OF False refl l [symmetric] refl False2 this, unfolded pend d]
        have "(declares tree)\<^sup>* `` (declares tree `` {fl}) \<subseteq> (declares tree)\<^sup>* `` {fl}"
          by (auto intro: converse_rtrancl_into_rtrancl)
        then show ?thesis unfolding loop pf using ih by blast
      qed
    qed
  qed
  then show "gated_inv tree live (propagate_loop tree live gated pending) {}"
    "dom gated \<union> (fst ` set pending - dom live) \<subseteq> dom (propagate_loop tree live gated pending)"
    "dom (propagate_loop tree live gated pending) \<subseteq> dom gated \<union> (declares tree)\<^sup>* `` (fst ` set pending)" by blast+
qed

section \<open>Compiled out is reached but not live\<close>

definition reached_from :: "ModuleTree \<Rightarrow> CrateRoot list \<Rightarrow> path set" where
  "reached_from tree roots = {f. \<exists>r \<in> set roots. root_entry r \<in> set (indexed tree) \<and> (root_entry r, f) \<in> (declares tree)\<^sup>*}"

lemma dom_live:
  assumes "walked tree roots (live, seeds)" shows "dom live = (\<Union>F. live_from tree roots F)"
proof -
  have ne: "live f \<noteq> Some []" for f using assms by (auto simp: walked_def tidy_def)
  have some: "f \<in> dom live \<longleftrightarrow> (\<exists>F. f \<in> live_files live F)" for f
  proof (cases "live f")
    case (Some sets)
    then have "hd sets \<in> set sets" using ne [of f] by simp
    then show ?thesis using Some by (auto simp: live_files_def live_with_def)
  qed (auto simp: live_files_def live_with_def)
  have "live_from tree roots F = live_files live F" for F using assms by (simp add: walked_def)
  then show ?thesis using some by (simp add: set_eq_iff)
qed

lemma live_reached: "live_from tree roots F \<subseteq> reached_from tree roots"
proof -
  have "(compiled_in tree F)\<^sup>* \<subseteq> (declares tree)\<^sup>*" by (rule rtrancl_mono) (simp add: declares_split [of tree F])
  then show ?thesis unfolding live_from_def reached_from_def by blast
qed

lemma reached_closed: "(declares tree)\<^sup>* `` reached_from tree roots \<subseteq> reached_from tree roots"
  by (auto simp: reached_from_def intro: rtrancl_trans)

lemma gated_files:
  assumes w: "walked tree roots (live, seeds)"
  shows "dom (propagate_gated tree seeds live) = reached_from tree roots - dom live"
proof -
  let ?gated = "propagate_gated tree seeds live"
  have "gated_inv tree live Map.empty (fst ` set seeds)" by (simp add: gated_inv_def)
  note r = propagate_loop_result [OF this, folded propagate_gated_def]
  have seeds: "fst ` set seeds = (\<Union>F. compiled_out tree F `` live_from tree roots F)" using w by (simp add: walked_def)
  have "fst ` set seeds \<subseteq> reached_from tree roots"
  proof -
    have "compiled_out tree F `` live_from tree roots F \<subseteq> (declares tree)\<^sup>* `` reached_from tree roots" for F
      using live_reached [of tree roots F] declares_split [of tree F] by blast
    then show ?thesis unfolding seeds using reached_closed [of tree roots] by blast
  qed
  then have "dom ?gated \<subseteq> reached_from tree roots"
    using r(3) reached_closed [of tree roots] by (metis Image_mono Un_empty_left dom_empty order_refl order_trans)
  moreover have "dom ?gated \<inter> dom live = {}" using r(1) by (simp add: gated_inv_def)
  moreover have "f \<in> dom live \<union> dom ?gated" if "f \<in> reached_from tree roots" for f
  proof -
    from that obtain rt where rt: "rt \<in> set roots" "root_entry rt \<in> set (indexed tree)" "(root_entry rt, f) \<in> (declares tree)\<^sup>*"
      by (auto simp: reached_from_def)
    from rt(3) show ?thesis
    proof (induction rule: rtrancl_induct)
      case base
      have "root_entry rt \<in> live_from tree roots (default_features rt)" using rt(1,2) by (auto simp: live_from_def)
      then show ?case unfolding dom_live [OF w] by blast
    next
      case (step y z)
      show ?case
      proof (cases "y \<in> dom live")
        case True
        then obtain F where y: "y \<in> live_from tree roots F" unfolding dom_live [OF w] by blast
        have "z \<in> live_from tree roots F \<or> z \<in> fst ` set seeds"
          using step(2) y declares_split [of tree F] live_from_closed [of tree F roots] unfolding seeds by blast
        then show ?thesis using r(2) unfolding dom_live [OF w] by auto
      next
        case False
        then have "z \<in> declares tree `` dom ?gated" using step by blast
        moreover have "declares tree `` dom ?gated \<subseteq> dom live \<union> dom ?gated" using r(1) by (simp add: gated_inv_def)
        ultimately show ?thesis by blast
      qed
    qed
  qed
  ultimately show ?thesis by blast
qed

lemma singleton_list: "distinct xs \<Longrightarrow> xs = [x] \<longleftrightarrow> set xs = {x}"
  by (cases xs; cases "tl xs") auto

lemma features_of_cases:
  assumes w: "walked tree roots (live, seeds)" and g: "dom gated = reached_from tree roots - dom live"
  shows "features_of live gated f = Some CompiledOut \<longleftrightarrow> f \<in> dom gated"
    and "features_of live gated f = Some (Enabled F) \<longleftrightarrow> {G. f \<in> live_from tree roots G} = {F}"
    and "features_of live gated f = Some Disagree \<longleftrightarrow> (\<exists>F G. F \<noteq> G \<and> f \<in> live_from tree roots F \<and> f \<in> live_from tree roots G)"
proof -
  show "features_of live gated f = Some CompiledOut \<longleftrightarrow> f \<in> dom gated"
    by (auto simp: features_of_def domIff split: list.splits)
  have from_live: "{G. f \<in> live_from tree roots G} = (case live f of Some sets \<Rightarrow> set sets | None \<Rightarrow> {})"
  proof -
    have "live_from tree roots G = live_files live G" for G using w by (simp add: walked_def)
    then have "{G. f \<in> live_from tree roots G} = {G. live_with live G f}" by (simp add: live_files_def)
    then show ?thesis by (simp add: live_with_def split: option.splits)
  qed
  have disj: "live f = None \<or> f \<notin> dom gated" using g by blast
  show "features_of live gated f = Some (Enabled F) \<longleftrightarrow> {G. f \<in> live_from tree roots G} = {F}"
  proof (cases "live f")
    case None
    then show ?thesis unfolding from_live by (auto simp: features_of_def)
  next
    case (Some sets)
    then have "distinct sets" "gated f = None" using w disj by (auto simp: walked_def tidy_def)
    then show ?thesis unfolding from_live
      by (auto simp: features_of_def Some singleton_list [symmetric] split: list.splits)
  qed
  show "features_of live gated f = Some Disagree \<longleftrightarrow> (\<exists>F G. F \<noteq> G \<and> f \<in> live_from tree roots F \<and> f \<in> live_from tree roots G)"
  proof (cases "live f")
    case None
    then have "\<not> f \<in> live_from tree roots G" for G using from_live by auto
    then show ?thesis using None by (simp add: features_of_def)
  next
    case (Some sets)
    then have t: "distinct sets" "sets \<noteq> []" "gated f = None" using w disj by (auto simp: walked_def tidy_def)
    have "f \<in> live_from tree roots G \<longleftrightarrow> G \<in> set sets" for G using from_live Some by auto
    moreover have "(\<exists>F G. F \<noteq> G \<and> F \<in> set sets \<and> G \<in> set sets) \<longleftrightarrow> (\<forall>only. sets \<noteq> [only])"
      using t(1,2) by (cases sets rule: remdups_adj.cases) auto
    ultimately show ?thesis using t by (auto simp: features_of_def Some split: list.splits)
  qed
qed

text \<open>C6: the analysis of the features is exact. A file is reported as compiled out exactly when some crate
  root reaches it through \<open>mod\<close> declarations but none reaches it through declarations that its default
  features leave in; a file has the features \<open>F\<close> exactly when crate roots with the default features \<open>F\<close>, and
  no others, reach it so; the crates disagree exactly when roots with two different sets do.\<close>

theorem feature_analysis_exact:
  assumes "analyse_features tree roots = (gated, ff)"
  shows "dom gated = reached_from tree roots - (\<Union>F. live_from tree roots F)
    \<and> (ff f = Some CompiledOut \<longleftrightarrow> f \<in> dom gated)
    \<and> (\<forall>F. ff f = Some (Enabled F) \<longleftrightarrow> {G. f \<in> live_from tree roots G} = {F})
    \<and> (ff f = Some Disagree \<longleftrightarrow> (\<exists>F G. F \<noteq> G \<and> f \<in> live_from tree roots F \<and> f \<in> live_from tree roots G))"
proof -
  obtain live seeds where w: "fold (walk_live tree) roots (Map.empty, []) = (live, seeds)"
    by (cases "fold (walk_live tree) roots (Map.empty, [])")
  note w' = walk_all [of tree roots, unfolded w]
  have a: "gated = propagate_gated tree seeds live" "ff = features_of live gated"
    using assms by (auto simp: analyse_features_def w Let_def)
  have g: "dom gated = reached_from tree roots - dom live" unfolding a(1) by (rule gated_files [OF w'])
  show ?thesis
    unfolding a(2) using features_of_cases [OF w' g] g dom_live [OF w'] by (intro conjI allI) simp_all
qed

text \<open>A crate whose module \<open>a\<close> is behind a feature that is off by default and declares \<open>c\<close>.\<close>

definition plain_mod :: "string \<Rightarrow> CfgPredicate list \<Rightarrow> ModDecl" where
  "plain_mod name gates = \<lparr>decl_name = name, path_attr = None, decl_cfg = Some gates, cfg_text = [], alt_paths = []\<rparr>"

definition demo_tree :: ModuleTree where
  "demo_tree = \<lparr>mods = (\<lambda>f. if f = [''src'', ''lib.rs''] then [plain_mod ''a'' [CFeature ''x''], plain_mod ''b'' []]
       else if f = [''src'', ''a.rs''] then [plain_mod ''c'' []] else []),
     indexed = [[''src'', ''lib.rs''], [''src'', ''a.rs''], [''src'', ''b.rs''], [''src'', ''a'', ''c.rs'']],
     crate_entries = {[''src'', ''lib.rs'']}\<rparr>"

definition demo_roots :: "CrateRoot list" where
  "demo_roots = [\<lparr>root_entry = [''src'', ''lib.rs''], default_features = {}, root_kind = Production, lib_name = None\<rparr>]"

lemma feature_analysis_exact_witness:
  "[''src'', ''a'', ''c.rs''] \<in> reached_from demo_tree demo_roots
   \<and> [''src'', ''a'', ''c.rs''] \<notin> live_from demo_tree demo_roots {}
   \<and> {G. [''src'', ''b.rs''] \<in> live_from demo_tree demo_roots G} = {{}}"
proof -
  have "fst (analyse_features demo_tree demo_roots) [''src'', ''a'', ''c.rs''] \<noteq> None" by code_simp
  then have c: "[''src'', ''a'', ''c.rs''] \<in> dom (fst (analyse_features demo_tree demo_roots))" by (simp add: domIff)
  have b: "snd (analyse_features demo_tree demo_roots) [''src'', ''b.rs''] = Some (Enabled {})" by code_simp
  note exact = feature_analysis_exact [of demo_tree demo_roots, OF prod.collapse [symmetric]]
  show ?thesis
    using c b exact [of "[''src'', ''b.rs'']", THEN conjunct1]
      exact [of "[''src'', ''b.rs'']", THEN conjunct2, THEN conjunct2, THEN conjunct1] by blast
qed

end
