(* ===== verification/FileScope.thy ===== *)
theory FileScope
  imports ModuleTree "HOL-Library.Multiset"
begin

text \<open>
  The gate and the module path that a file gets from the \<open>mod\<close> declarations that lead to it,
  \<open>src/indexer/file_scope.rs\<close>. The walk of the module tree is a loop that may run forever, so it takes
  fuel: the number of ways into a file that it may look at.
\<close>

section \<open>Ways and reaches\<close>

definition UNPARSED_GATE :: string where "UNPARSED_GATE = ''?''"

record Reach =
  reach_path :: string
  reach_gate :: string
  reach_truth :: nat
  reach_placed :: bool

record Way =
  way_file :: path
  way_path :: string
  way_gates :: "CfgPredicate list option"
  way_placed :: bool

definition way_child :: "Way \<Rightarrow> ModDecl \<Rightarrow> path \<Rightarrow> Way" where
  "way_child w decl target =
     \<lparr>way_file = target, way_path = way_path w @ ''::'' @ decl_name decl,
      way_gates = (case (way_gates w, decl_cfg decl) of (Some outer, Some own) \<Rightarrow> Some (outer @ own) | _ \<Rightarrow> None),
      way_placed = (way_placed w \<or> path_attr decl \<noteq> None \<or> alt_paths decl \<noteq> [])\<rparr>"

fun truth_rank :: "Truth \<Rightarrow> nat" where
  "truth_rank TTrue = 2"
| "truth_rank TUnknown = 1"
| "truth_rank TFalse = 0"

definition reach_of :: "string \<Rightarrow> CfgPredicate list option \<Rightarrow> string set \<Rightarrow> Reach" where
  "reach_of path gates enabled =
     (case (case gates of
              None \<Rightarrow> (UNPARSED_GATE, TUnknown)
            | Some [] \<Rightarrow> ([], TTrue)
            | Some all \<Rightarrow> (compact (canonical (CAll all)), eval_in (with_features enabled) (CAll all))) of
        (gate, truth) \<Rightarrow> \<lparr>reach_path = path, reach_gate = gate, reach_truth = truth_rank truth, reach_placed = False\<rparr>)"

definition scope :: "Reach list \<Rightarrow> bool \<Rightarrow> FileCfg" where
  "scope reaches out =
     (let (path, gate) = (case reaches of [only] \<Rightarrow> (reach_path only, reach_gate only) | _ \<Rightarrow> ([], []));
          best = (if reaches = [] then 1 else Max (set (map reach_truth reaches)))
      in \<lparr>module_path = path, file_gate = gate,
          file_active = (if out \<or> best = 0 then CFG_INACTIVE else if best = 2 then CFG_ACTIVE else CFG_UNKNOWN)\<rparr>)"

section \<open>The walk\<close>

text \<open>The reaches of each file are a set: a list without repetitions.\<close>

type_synonym reaches = "path \<rightharpoonup> Reach list"

definition add_reach :: "path \<Rightarrow> Reach \<Rightarrow> reaches \<Rightarrow> reaches" where
  "add_reach fl r rs =
     (let old = (case rs fl of Some l \<Rightarrow> l | None \<Rightarrow> []) in rs(fl \<mapsto> if r \<in> set old then old else old @ [r]))"

fun scope_loop :: "nat \<Rightarrow> ModuleTree \<Rightarrow> string set \<Rightarrow> Way list \<Rightarrow> (path \<times> string) set \<Rightarrow> reaches \<Rightarrow> reaches option" where
  "scope_loop 0 tree enabled pending seen reaches = None"
| "scope_loop (Suc n) tree enabled pending seen reaches =
     (if pending = [] then Some reaches
      else let w = last pending; rest = butlast pending
           in if (way_file w, way_path w) \<in> seen then scope_loop n tree enabled rest seen reaches
              else scope_loop n tree enabled
                     (rest @ map (\<lambda>(decl, target). way_child w decl target) (children tree (way_file w)))
                     (insert (way_file w, way_path w) seen)
                     (add_reach (way_file w) ((reach_of (way_path w) (way_gates w) enabled)\<lparr>reach_placed := way_placed w\<rparr>) reaches))"

definition start_way :: "CrateRoot \<Rightarrow> Way" where
  "start_way r = \<lparr>way_file = root_entry r, way_path = slash_path (root_entry r), way_gates = Some [], way_placed = False\<rparr>"

definition scope_walk :: "nat \<Rightarrow> ModuleTree \<Rightarrow> CrateRoot \<Rightarrow> reaches \<Rightarrow> reaches option" where
  "scope_walk n tree r reaches =
     (if root_entry r \<in> set (indexed tree)
      then scope_loop n tree (default_features r) [start_way r] {} reaches
      else Some reaches)"

fun scope_roots :: "nat \<Rightarrow> ModuleTree \<Rightarrow> CrateRoot list \<Rightarrow> reaches \<Rightarrow> reaches option" where
  "scope_roots n tree [] reaches = Some reaches"
| "scope_roots n tree (r # rs) reaches =
     Option.bind (scope_walk n tree r reaches) (scope_roots n tree rs)"

definition file_facts :: "(path \<rightharpoonup> FileFeatures) \<Rightarrow> reaches \<Rightarrow> path \<rightharpoonup> FileCfg" where
  "file_facts ff reaches fl =
     Option.bind (reaches fl) (\<lambda>rs.
       let facts = scope rs (ff fl = Some CompiledOut);
           placed = (length rs = 1 \<and> list_all reach_placed rs)
       in if placed \<or> file_gate facts \<noteq> [] \<or> file_active facts = CFG_INACTIVE then Some facts else None)"

definition analyse_scope :: "nat \<Rightarrow> ModuleTree \<Rightarrow> CrateRoot list \<Rightarrow> (path \<rightharpoonup> FileFeatures) \<Rightarrow> (path \<rightharpoonup> FileCfg) option" where
  "analyse_scope n tree roots ff = map_option (file_facts ff) (scope_roots n tree roots Map.empty)"

section \<open>When the walk returns\<close>

definition way_pair :: "Way \<Rightarrow> path \<times> string" where
  "way_pair w = (way_file w, way_path w)"

definition child_ways :: "ModuleTree \<Rightarrow> Way \<Rightarrow> Way list" where
  "child_ways tree w = map (\<lambda>(decl, target). way_child w decl target) (children tree (way_file w))"

lemma scope_loop_step:
  "pending \<noteq> [] \<Longrightarrow> way_pair (last pending) \<in> seen \<Longrightarrow>
     scope_loop (Suc n) tree F pending seen reaches = scope_loop n tree F (butlast pending) seen reaches"
  "pending \<noteq> [] \<Longrightarrow> way_pair (last pending) \<notin> seen \<Longrightarrow>
     scope_loop (Suc n) tree F pending seen reaches =
       scope_loop n tree F (butlast pending @ child_ways tree (last pending)) (insert (way_pair (last pending)) seen)
         (add_reach (way_file (last pending)) ((reach_of (way_path (last pending)) (way_gates (last pending)) F)
            \<lparr>reach_placed := way_placed (last pending)\<rparr>) reaches)"
  by (simp_all add: way_pair_def child_ways_def Let_def)

declare scope_loop.simps [simp del]

text \<open>The step from a way to the ways below it, as a relation on files and module paths.\<close>

definition below :: "ModuleTree \<Rightarrow> path \<times> string \<Rightarrow> (path \<times> string) set" where
  "below tree x = (\<lambda>(decl, t). (t, snd x @ ''::'' @ decl_name decl)) ` set (children tree (fst x))"

lemma child_ways_below: "way_pair ` set (child_ways tree w) = below tree (way_pair w)"
  by (simp add: child_ways_def below_def way_pair_def way_child_def image_image case_prod_unfold)

lemma scope_loop_closed:
  assumes "scope_loop n tree F pending seen reaches = Some out" "finite seen"
    and "\<And>x. x \<in> seen \<Longrightarrow> below tree x \<subseteq> seen \<union> way_pair ` set pending"
  shows "\<exists>S. finite S \<and> seen \<union> way_pair ` set pending \<subseteq> S \<and> (\<forall>x \<in> S. below tree x \<subseteq> S)"
  using assms
proof (induction n arbitrary: pending seen reaches)
  case 0
  then show ?case by (simp add: scope_loop.simps)
next
  case (Suc n)
  show ?case
  proof (cases "pending = []")
    case True
    then show ?thesis using Suc.prems(2,3) by (intro exI [of _ seen]) auto
  next
    case False
    let ?w = "last pending"
    have p: "set pending = insert ?w (set (butlast pending))" by (rule set_butlast_last [OF False])
    show ?thesis
    proof (cases "way_pair ?w \<in> seen")
      case True
      have "\<And>x. x \<in> seen \<Longrightarrow> below tree x \<subseteq> seen \<union> way_pair ` set (butlast pending)"
        using Suc.prems(3) True unfolding p by blast
      from Suc.IH [OF Suc.prems(1) [unfolded scope_loop_step(1) [OF False True]] Suc.prems(2) this] obtain S where
        "finite S" "seen \<union> way_pair ` set (butlast pending) \<subseteq> S" "\<forall>x \<in> S. below tree x \<subseteq> S" by auto
      then show ?thesis using True unfolding p by (intro exI [of _ S]) auto
    next
      case new: False
      let ?next = "butlast pending @ child_ways tree ?w" and ?seen = "insert (way_pair ?w) seen"
      have pairs: "way_pair ` set ?next = way_pair ` set (butlast pending) \<union> below tree (way_pair ?w)"
        by (simp add: image_Un child_ways_below)
      have "\<And>x. x \<in> ?seen \<Longrightarrow> below tree x \<subseteq> ?seen \<union> way_pair ` set ?next"
        using Suc.prems(3) unfolding p pairs by blast
      from Suc.IH [OF Suc.prems(1) [unfolded scope_loop_step(2) [OF False new]] _ this] Suc.prems(2) obtain S where
        "finite S" "?seen \<union> way_pair ` set ?next \<subseteq> S" "\<forall>x \<in> S. below tree x \<subseteq> S" by auto
      then show ?thesis unfolding p pairs by (intro exI [of _ S]) auto
    qed
  qed
qed

lemma below_declares:
  assumes "(f, t) \<in> declares tree" shows "\<exists>q. (t, q) \<in> below tree (f, p) \<and> length p < length q"
  using assms by (force simp: declares_def below_def)

lemma below_trancl:
  assumes "(f, g) \<in> (declares tree)\<^sup>+" "(f, p) \<in> S" "\<forall>x \<in> S. below tree x \<subseteq> S"
  shows "\<exists>q. (g, q) \<in> S \<and> length p < length q"
  using assms(1)
proof (induction rule: trancl_induct)
  case (base g)
  then show ?case using below_declares [of f g tree p] assms(2,3) by blast
next
  case (step g h)
  then obtain q where q: "(g, q) \<in> S" "length p < length q" by blast
  from below_declares [OF step.hyps(2), of q] obtain q' where "(h, q') \<in> below tree (g, q)" "length q < length q'" by blast
  then show ?case using q assms(3) by (intro exI [of _ q']) auto
qed

lemma closed_no_cycle:
  assumes "finite S" "\<forall>x \<in> S. below tree x \<subseteq> S" "(f, p) \<in> S" shows "(f, f) \<notin> (declares tree)\<^sup>+"
proof
  assume c: "(f, f) \<in> (declares tree)\<^sup>+"
  let ?L = "{length q |q. (f, q) \<in> S}"
  have "?L = (length \<circ> snd) ` {x \<in> S. fst x = f}" by force
  then have fin: "finite ?L" using assms(1) by simp
  have "length p \<in> ?L" using assms(3) by blast
  then have "Max ?L \<in> ?L" using fin by (intro Max_in) auto
  then obtain q where q: "(f, q) \<in> S" "Max ?L = length q" by auto
  from below_trancl [OF c q(1) assms(2)] obtain q' where "(f, q') \<in> S" "length q < length q'" by blast
  moreover from this(1) have "length q' \<le> Max ?L" using fin by (intro Max_ge) auto
  ultimately show False using q(2) by simp
qed

definition declared_below :: "ModuleTree \<Rightarrow> path \<Rightarrow> (path \<times> path) set" where
  "declared_below tree e = declares tree \<inter> ((declares tree)\<^sup>* `` {e} \<times> UNIV)"

lemma declared_below_indexed:
  assumes "e \<in> set (indexed tree)" shows "declared_below tree e \<subseteq> set (indexed tree) \<times> set (indexed tree)"
proof -
  have "f \<in> set (indexed tree)" if "(e, f) \<in> (declares tree)\<^sup>*" for f
    using that assms by (cases rule: rtranclE) (auto simp: declares_def dest: children_indexed)
  then show ?thesis by (auto simp: declared_below_def declares_def dest: children_indexed)
qed

lemma declared_below_wf:
  assumes "e \<in> set (indexed tree)" "acyclic (declared_below tree e)" shows "wf ((declared_below tree e)\<inverse>)"
  by (rule finite_acyclic_wf_converse [OF finite_subset [OF declared_below_indexed [OF assms(1)]] assms(2)]) simp

lemma scope_loop_returns:
  assumes wf: "wf ((declared_below tree e)\<inverse>)" and "way_file ` set pending \<subseteq> (declares tree)\<^sup>* `` {e}"
  shows "\<exists>n out. scope_loop n tree F pending seen reaches = Some out"
  using assms(2)
proof (induction "mset (map way_file pending)" arbitrary: pending seen reaches rule: wf_induct_rule [OF wf_mult [OF wf]])
  case less: 1
  show ?case
  proof (cases "pending = []")
    case True
    then have "scope_loop 1 tree F pending seen reaches = Some reaches" by (simp add: scope_loop.simps)
    then show ?thesis by blast
  next
    case False
    let ?w = "last pending"
    have p: "set pending = insert ?w (set (butlast pending))" by (rule set_butlast_last [OF False])
    have m: "mset (map way_file pending) = mset (map way_file (butlast pending)) + {#way_file ?w#}"
      using append_butlast_last_id [OF False] by (metis (no_types) list.simps(8) list.simps(9) map_append mset.simps mset_append add_mset_add_single)
    show ?thesis
    proof (cases "way_pair ?w \<in> seen")
      case True
      have "(mset (map way_file (butlast pending)), mset (map way_file pending)) \<in> mult ((declared_below tree e)\<inverse>)"
        unfolding m by (rule subset_implies_mult) simp
      from less.hyps [OF this, of seen reaches] less.prems obtain n out where
        "scope_loop n tree F (butlast pending) seen reaches = Some out" unfolding p by auto
      then have "scope_loop (Suc n) tree F pending seen reaches = Some out" by (simp add: scope_loop_step(1) [OF False True])
      then show ?thesis by blast
    next
      case new: False
      let ?next = "butlast pending @ child_ways tree ?w"
      have w: "way_file ?w \<in> (declares tree)\<^sup>* `` {e}" using less.prems unfolding p by auto
      have kids: "(way_file ?w, way_file c) \<in> declared_below tree e" if "c \<in> set (child_ways tree ?w)" for c
        using that w by (force simp: child_ways_def declared_below_def declares_def way_child_def)
      have "mset (map way_file ?next) = mset (map way_file (butlast pending)) + mset (map way_file (child_ways tree ?w))" by simp
      then have "(mset (map way_file ?next), mset (map way_file pending)) \<in> mult ((declared_below tree e)\<inverse>)"
        unfolding m by (simp only:) (rule one_step_implies_mult, use kids in auto)
      moreover have "way_file ` set ?next \<subseteq> (declares tree)\<^sup>* `` {e}"
      proof -
        have "way_file c \<in> (declares tree)\<^sup>* `` {e}" if "c \<in> set (child_ways tree ?w)" for c
          using kids [OF that] by (auto simp: declared_below_def intro: rtrancl_into_rtrancl)
        then show ?thesis using less.prems unfolding p by auto
      qed
      ultimately obtain n out where "scope_loop n tree F ?next (insert (way_pair ?w) seen)
         (add_reach (way_file ?w) ((reach_of (way_path ?w) (way_gates ?w) F)\<lparr>reach_placed := way_placed ?w\<rparr>) reaches) = Some out"
        using less.hyps by blast
      then have "scope_loop (Suc n) tree F pending seen reaches = Some out" by (simp add: scope_loop_step(2) [OF False new])
      then show ?thesis by blast
    qed
  qed
qed

section \<open>What the walk records\<close>

text \<open>The ways into files from a crate root.\<close>

inductive way_in :: "ModuleTree \<Rightarrow> CrateRoot \<Rightarrow> Way \<Rightarrow> bool" for tree r where
  way_start: "way_in tree r (start_way r)"
| way_below: "way_in tree r w \<Longrightarrow> (decl, target) \<in> set (children tree (way_file w)) \<Longrightarrow> way_in tree r (way_child w decl target)"

definition way_reach :: "CrateRoot \<Rightarrow> Way \<Rightarrow> Reach" where
  "way_reach r w = (reach_of (way_path w) (way_gates w) (default_features r))\<lparr>reach_placed := way_placed w\<rparr>"

definition real_reaches :: "ModuleTree \<Rightarrow> CrateRoot set \<Rightarrow> reaches \<Rightarrow> bool" where
  "real_reaches tree roots reaches \<longleftrightarrow> (\<forall>f rs x. reaches f = Some rs \<longrightarrow> x \<in> set rs \<longrightarrow>
     (\<exists>r \<in> roots. \<exists>w. way_in tree r w \<and> way_file w = f \<and> x = way_reach r w))"

lemma real_reaches_add:
  assumes "real_reaches tree roots reaches" "r \<in> roots" "way_in tree r w"
  shows "real_reaches tree roots (add_reach (way_file w) (way_reach r w) reaches)"
  unfolding real_reaches_def
proof (intro allI impI)
  fix f rs x assume h: "add_reach (way_file w) (way_reach r w) reaches f = Some rs" "x \<in> set rs"
  show "\<exists>r \<in> roots. \<exists>w. way_in tree r w \<and> way_file w = f \<and> x = way_reach r w"
  proof (cases "x = way_reach r w \<and> f = way_file w")
    case True
    then show ?thesis using assms(2,3) by blast
  next
    case False
    then obtain old where "reaches f = Some old" "x \<in> set old"
      using h by (fastforce simp: add_reach_def Let_def split: option.splits if_splits)
    then show ?thesis using assms(1) unfolding real_reaches_def by blast
  qed
qed

lemma scope_loop_real:
  assumes "scope_loop n tree (default_features r) pending seen reaches = Some out"
    and "real_reaches tree roots reaches" "r \<in> roots" "\<And>w. w \<in> set pending \<Longrightarrow> way_in tree r w"
  shows "real_reaches tree roots out"
  using assms
proof (induction n arbitrary: pending seen reaches)
  case 0
  then show ?case by (simp add: scope_loop.simps)
next
  case (Suc n)
  show ?case
  proof (cases "pending = []")
    case True
    then show ?thesis using Suc.prems by (simp add: scope_loop.simps)
  next
    case False
    let ?w = "last pending"
    have w: "way_in tree r ?w" and rest: "\<And>v. v \<in> set (butlast pending) \<Longrightarrow> way_in tree r v"
      using Suc.prems(4) set_butlast_last [OF False] by auto
    show ?thesis
    proof (cases "way_pair ?w \<in> seen")
      case True
      from Suc.IH [OF Suc.prems(1) [unfolded scope_loop_step(1) [OF False True]] Suc.prems(2,3) rest] show ?thesis .
    next
      case new: False
      have "way_in tree r v" if "v \<in> set (butlast pending @ child_ways tree ?w)" for v
        using that rest w by (auto simp: child_ways_def intro: way_in.way_below)
      from Suc.IH [OF Suc.prems(1) [unfolded scope_loop_step(2) [OF False new] way_reach_def [symmetric]]
        real_reaches_add [OF Suc.prems(2,3) w] Suc.prems(3) this] show ?thesis .
    qed
  qed
qed

lemma scope_roots_real:
  assumes "scope_roots n tree rs reaches = Some out" "real_reaches tree roots reaches" "set rs \<subseteq> roots"
  shows "real_reaches tree roots out"
  using assms
proof (induction rs arbitrary: reaches)
  case (Cons r rs)
  then obtain mid where mid: "scope_walk n tree r reaches = Some mid" "scope_roots n tree rs mid = Some out"
    by (auto simp: bind_eq_Some_conv)
  have "real_reaches tree roots mid"
  proof (cases "root_entry r \<in> set (indexed tree)")
    case True
    then show ?thesis
      using scope_loop_real [of n tree r "[start_way r]" "{}" reaches mid roots] mid(1) Cons.prems(2,3)
      by (auto simp: scope_walk_def intro: way_in.way_start)
  qed (use mid(1) Cons.prems(2) in \<open>simp add: scope_walk_def\<close>)
  from Cons.IH [OF mid(2) this] Cons.prems(3) show ?case by simp
qed simp

lemma way_reach_true:
  assumes "reach_truth (way_reach r w) = 2" "agrees b (with_features (default_features r))"
  shows "\<exists>gates. way_gates w = Some gates \<and> list_all (holds b) gates"
proof (cases "way_gates w")
  case (Some gates)
  show ?thesis
  proof (cases gates)
    case Nil
    then show ?thesis using Some by simp
  next
    case (Cons g gs)
    have "truth_rank (eval_in (with_features (default_features r)) (CAll gates)) = 2"
      using assms(1) by (simp add: way_reach_def reach_of_def Some Cons)
    then have "eval_in (with_features (default_features r)) (CAll gates) = TTrue"
      by (cases "eval_in (with_features (default_features r)) (CAll gates)") simp_all
    then have "holds b (CAll gates)" using eval_decides [OF assms(2), of "CAll gates"] by (simp add: eval_in_def)
    then show ?thesis using Some by simp
  qed
qed (use assms(1) in \<open>simp add: way_reach_def reach_of_def\<close>)

lemma scope_active:
  assumes "file_active (scope rs out) = CFG_ACTIVE" shows "\<exists>x \<in> set rs. reach_truth x = 2"
proof -
  have "rs \<noteq> [] \<and> Max (set (map reach_truth rs)) = 2"
    using assms by (auto simp: scope_def Let_def verdict_words split: list.splits if_splits)
  then show ?thesis using Max_in [of "set (map reach_truth rs)"] by auto
qed

text \<open>C15: a file that is recorded as active is compiled by the default build: some crate root reaches it through
  declarations all of whose gates hold in every build of the default profile of that root.\<close>

theorem active_file_compiled:
  assumes "analyse_scope n tree roots ff = Some facts" "facts f = Some cfg" "file_active cfg = CFG_ACTIVE"
  shows "\<exists>r \<in> set roots. \<exists>w. way_in tree r w \<and> way_file w = f \<and>
    (\<forall>b. agrees b (with_features (default_features r)) \<longrightarrow> (\<exists>gates. way_gates w = Some gates \<and> list_all (holds b) gates))"
proof -
  obtain reaches where reaches: "scope_roots n tree roots Map.empty = Some reaches" "facts = file_facts ff reaches"
    using assms(1) by (auto simp: analyse_scope_def)
  have real: "real_reaches tree (set roots) reaches"
    by (rule scope_roots_real [OF reaches(1)]) (simp_all add: real_reaches_def)
  obtain rs where rs: "reaches f = Some rs" "cfg = scope rs (ff f = Some CompiledOut)"
    using assms(2) by (auto simp: reaches(2) file_facts_def bind_eq_Some_conv Let_def split: if_splits)
  obtain x where x: "x \<in> set rs" "reach_truth x = 2" using scope_active assms(3) rs(2) by blast
  then obtain r w where "r \<in> set roots" "way_in tree r w" "way_file w = f" "x = way_reach r w"
    using real rs(1) unfolding real_reaches_def by blast
  then show ?thesis using way_reach_true x(2) by blast
qed

definition gated_tree :: ModuleTree where
  "gated_tree = \<lparr>mods = (\<lambda>f. if f = [''src'', ''lib.rs''] then [plain_mod ''imp'' [CNot (CFeature ''x'')]] else []),
     indexed = [[''src'', ''lib.rs''], [''src'', ''imp.rs'']], crate_entries = {[''src'', ''lib.rs'']}\<rparr>"

lemma active_file_compiled_witness:
  "\<exists>r \<in> set demo_roots. \<exists>w. way_in gated_tree r w \<and> way_file w = [''src'', ''imp.rs''] \<and>
    (\<forall>b. agrees b (with_features (default_features r)) \<longrightarrow> (\<exists>gates. way_gates w = Some gates \<and> list_all (holds b) gates))"
proof -
  have a: "map_option (\<lambda>facts. facts [''src'', ''imp.rs'']) (analyse_scope 9 gated_tree demo_roots Map.empty)
     = Some (Some \<lparr>module_path = ''src/lib.rs::imp'', file_gate = ''not(feature=x)'', file_active = CFG_ACTIVE\<rparr>)"
    by code_simp
  then obtain facts where "analyse_scope 9 gated_tree demo_roots Map.empty = Some facts"
    "facts [''src'', ''imp.rs''] = Some \<lparr>module_path = ''src/lib.rs::imp'', file_gate = ''not(feature=x)'', file_active = CFG_ACTIVE\<rparr>"
    by auto
  then show ?thesis by (rule active_file_compiled) simp
qed

text \<open>C16: the walk from a crate root returns exactly when the \<open>mod\<close> declarations below the root have no cycle.
  A file that declares itself through a \<open>path\<close> attribute, which is legal Rust when the declaration is compiled
  out, makes the walk run forever: every turn gives the file a new module path, so it is never seen.\<close>

theorem scope_walk_returns_iff:
  assumes "root_entry r \<in> set (indexed tree)"
  shows "(\<exists>n out. scope_walk n tree r reaches = Some out) \<longleftrightarrow> acyclic (declared_below tree (root_entry r))"
proof
  assume "acyclic (declared_below tree (root_entry r))"
  from scope_loop_returns [OF declared_below_wf [OF assms this], of "[start_way r]"]
  show "\<exists>n out. scope_walk n tree r reaches = Some out" using assms by (auto simp: scope_walk_def start_way_def)
next
  assume "\<exists>n out. scope_walk n tree r reaches = Some out"
  then obtain n out where "scope_loop n tree (default_features r) [start_way r] {} reaches = Some out"
    using assms by (auto simp: scope_walk_def)
  from scope_loop_closed [OF this] obtain S where S: "finite S" "\<forall>x \<in> S. below tree x \<subseteq> S" "way_pair (start_way r) \<in> S" by auto
  show "acyclic (declared_below tree (root_entry r))"
  proof (rule acyclicI, intro allI notI)
    fix f assume "(f, f) \<in> (declared_below tree (root_entry r))\<^sup>+"
    then have c: "(f, f) \<in> (declares tree)\<^sup>+" and e: "(root_entry r, f) \<in> (declares tree)\<^sup>*"
      by (auto simp: declared_below_def dest: trancl_mono tranclD)
    have "\<exists>q. (f, q) \<in> S"
    proof (cases "f = root_entry r")
      case True
      then show ?thesis using S(3) by (auto simp: way_pair_def start_way_def)
    next
      case False
      then have "(root_entry r, f) \<in> (declares tree)\<^sup>+" using e by (metis rtranclD)
      from below_trancl [OF this _ S(2)] show ?thesis using S(3) by (auto simp: way_pair_def start_way_def)
    qed
    then show False using closed_no_cycle [OF S(1,2)] c by blast
  qed
qed

definition self_tree :: ModuleTree where
  "self_tree = \<lparr>mods = (\<lambda>f. if f = [''src'', ''lib.rs'']
       then [\<lparr>decl_name = ''again'', path_attr = Some ''lib.rs'', decl_cfg = Some [CAny []], cfg_text = [], alt_paths = []\<rparr>] else []),
     indexed = [[''src'', ''lib.rs'']], crate_entries = {[''src'', ''lib.rs'']}\<rparr>"

lemma scope_walk_returns_iff_witness: "\<forall>n. scope_walk n self_tree (hd demo_roots) Map.empty = None"
proof
  fix n
  have e: "root_entry (hd demo_roots) = [''src'', ''lib.rs'']" by (simp add: demo_roots_def)
  have i: "root_entry (hd demo_roots) \<in> set (indexed self_tree)" by (simp add: e self_tree_def)
  have "map snd (children self_tree [''src'', ''lib.rs'']) = [[''src'', ''lib.rs'']]" by code_simp
  then have "([''src'', ''lib.rs''], [''src'', ''lib.rs'']) \<in> declares self_tree" by (auto simp: declares_def)
  then have "\<not> acyclic (declared_below self_tree (root_entry (hd demo_roots)))"
    by (auto simp: acyclic_def declared_below_def e)
  then show "scope_walk n self_tree (hd demo_roots) Map.empty = None"
    using scope_walk_returns_iff [OF i, of Map.empty] by (cases "scope_walk n self_tree (hd demo_roots) Map.empty") auto
qed

text \<open>C37: a defect. Two declarations of one module name the same file with the same module path, so the walk
  looks at only one of them, the last. For \<open>#[cfg(not(feature = "x"))] mod imp;\<close> followed by
  \<open>#[cfg(feature = "x")] mod imp;\<close> the file is recorded under the second gate alone and as compiled out of the
  default build, although the first declaration compiles it and the analysis of the features says so.\<close>

definition twice_tree :: ModuleTree where
  "twice_tree = \<lparr>mods = (\<lambda>f. if f = [''src'', ''lib.rs'']
       then [plain_mod ''imp'' [CNot (CFeature ''x'')], plain_mod ''imp'' [CFeature ''x'']] else []),
     indexed = [[''src'', ''lib.rs''], [''src'', ''imp.rs'']], crate_entries = {[''src'', ''lib.rs'']}\<rparr>"

theorem second_declaration_lost:
  "snd (analyse_features twice_tree demo_roots) [''src'', ''imp.rs''] = Some (Enabled {})
   \<and> map_option (\<lambda>facts. facts [''src'', ''imp.rs'']) (analyse_scope 10 twice_tree demo_roots (snd (analyse_features twice_tree demo_roots)))
     = Some (Some \<lparr>module_path = ''src/lib.rs::imp'', file_gate = ''feature=x'', file_active = CFG_INACTIVE\<rparr>)"
  by (intro conjI; code_simp)

end
