(* ===== verification/Protocol.thy ===== *)
theory Protocol
  imports VerificationProps "HOL-Library.Sublist"
begin

text \<open>
  The protocol of a clarification session as an abstract machine, and the proof that the six tools on the file
  system refine it. The abstract state is what a session file means: no session, or its state and the number
  of its turns. The steps carry the act that makes them, so a sequence of requests is refined by a run of the
  machine over acts that were requested.
\<close>

section \<open>The abstract machine\<close>

type_synonym protocol = "(SessionState \<times> nat) option"

text \<open>A session file whose turn count does not fit in 64 bits is not readable any more.\<close>

inductive protocol_step :: "SessionAct \<Rightarrow> protocol \<Rightarrow> protocol \<Rightarrow> bool" where
  open_new: "protocol_step StartAct None (Some (Open, 0))"
| reopen: "protocol_step StartAct (Some (Aborted, n)) (Some (Open, 0))"
| ask_first: "protocol_step AskAct (Some (Open, n)) (Some (WaitingForUser, Suc n))"
| ask: "protocol_step AskAct (Some (WaitingForAgent, n)) (Some (WaitingForUser, Suc n))"
| answer: "protocol_step AnswerAct (Some (WaitingForUser, n)) (Some (WaitingForAgent, Suc n))"
| close: "protocol_step FinalizeAct (Some (WaitingForAgent, n)) (Some (Finalized, n))"
| give_up: "st \<in> {Open, WaitingForUser, WaitingForAgent} \<Longrightarrow> protocol_step AbortAct (Some (st, n)) (Some (Aborted, n))"
| ask_overflow: "st \<in> {Open, WaitingForAgent} \<Longrightarrow> 2 ^ 64 \<le> Suc n \<Longrightarrow> protocol_step AskAct (Some (st, n)) None"
| answer_overflow: "2 ^ 64 \<le> Suc n \<Longrightarrow> protocol_step AnswerAct (Some (WaitingForUser, n)) None"

inductive_simps protocol_step_simps [simp]:
  "protocol_step StartAct q q'" "protocol_step AskAct q q'" "protocol_step AnswerAct q q'"
  "protocol_step FinalizeAct q q'" "protocol_step AbortAct q q'"

inductive protocol_run :: "SessionAct list \<Rightarrow> protocol \<Rightarrow> protocol \<Rightarrow> bool" where
  stay: "protocol_run [] q q"
| step: "protocol_run ks q q' \<Longrightarrow> protocol_step k q' q'' \<Longrightarrow> protocol_run (ks @ [k]) q q''"

section \<open>The refinement\<close>

definition protocol_of :: "content option \<Rightarrow> protocol" where
  "protocol_of c = map_option (\<lambda>s. (state s, length (transcript s))) (session_in c)"

lemma protocol_of_written:
  "protocol_of (Some (CJson (session_json s))) =
     (if session_in_range s then Some (state s, length (transcript s)) else None)"
  by (simp add: protocol_of_def session_in_def session_of_session_json)

lemma legal_refines_new: "legal_session k None s \<Longrightarrow> k = StartAct \<and> protocol_of (Some (CJson (session_json s))) = Some (Open, 0)"
  by (erule legal_sessionE) (auto simp: protocol_of_written session_in_range_def build_new_session_def)

lemma legal_refines:
  assumes "legal_session k (Some s) s'" "session_in_range s"
  shows "protocol_step k (Some (state s, length (transcript s))) (protocol_of (Some (CJson (session_json s'))))"
  using assms(1)
proof (cases rule: legal_session.cases)
  case (restart run finding ok stamp)
  then show ?thesis by (simp add: protocol_of_written session_in_range_def build_new_session_def reopen)
next
  case (append e args)
  then obtain st where st: "can_transition (state s) (turn_event (ap_kind args)) = Inr st" "state s' = st"
    "length (transcript s') = Suc (length (transcript s))" "turn_count s' = Suc (length (transcript s))"
    "transcript s' = transcript s @ [last (transcript s')]" "seq (last (transcript s')) = length (transcript s)"
    by (auto simp: build_appended_session_def and_then_Inr Let_def)
  have legal: "protocol_step k (Some (state s, length (transcript s))) (Some (st, Suc (length (transcript s))))"
    using st(1) append(1) by (cases "ap_kind args") (auto simp: can_transition_Inr turn_event_def)
  have "session_in_range s' \<longleftrightarrow> Suc (length (transcript s)) < 2 ^ 64"
    using assms(2) st(4,6) by (subst session_in_range_def, subst st(5)) (auto simp: session_in_range_def)
  moreover have "protocol_step k (Some (state s, length (transcript s))) None" if "2 ^ 64 \<le> Suc (length (transcript s))"
    using legal that append(1) by (cases "ap_kind args") auto
  ultimately show ?thesis using legal st(2,3) by (auto simp: protocol_of_written simp del: protocol_step_simps)
next
  case (finalize stamp)
  then have "state s = WaitingForAgent"
    by (auto simp: check_finalize_preconditions_def and_then_Inr can_transition_Inr split: if_splits)
  then show ?thesis using assms(2) finalize by (auto simp: protocol_of_written session_in_range_def intro: close)
next
  case (abort reason stamp)
  then have "can_transition (state s) EAbort = Inr Aborted" "state s' = Aborted" "transcript s' = transcript s"
    "turn_count s' = turn_count s"
    by (auto simp: build_aborted_session_def and_then_Inr can_transition_Inr)
  then show ?thesis using assms(2)
    using abort(1) by (auto simp: protocol_of_written session_in_range_def can_transition_Inr)
qed

lemma stepped_refines:
  assumes "stepped k c c'" shows "protocol_step k (protocol_of c) (protocol_of c')"
proof -
  from assms obtain before s' where s': "legal_session k before s'" "c' = Some (CJson (session_json s'))"
    "before = None \<and> c = None \<or> before \<noteq> None \<and> session_in c = before"
    unfolding stepped_def by blast
  show ?thesis
  proof (cases before)
    case None
    then have "protocol_of c = None" "protocol_of c' = Some (Open, 0)" "k = StartAct"
      using s' legal_refines_new by (auto simp: protocol_of_def session_in_def)
    then show ?thesis by simp
  next
    case (Some s)
    then have "session_in c = Some s" using s'(3) by simp
    then show ?thesis
      using legal_refines [of k s s'] s'(1,2) Some session_in_in_range by (simp add: protocol_of_def)
  qed
qed

text \<open>The act that a request asks for at a session file, and whether it was acknowledged: the answer has
  \<open>status\<close> ok.\<close>

fun request_act :: "request \<Rightarrow> SessionAct option" where
  "request_act (Extract a) = None"
| "request_act (Refine a) = None"
| "request_act (Start a) = Some StartAct"
| "request_act (Append a) = append_act a"
| "request_act (Finalize a) = Some FinalizeAct"
| "request_act (Abort a) = Some AbortAct"

definition act_at :: "fpath \<Rightarrow> request \<Rightarrow> SessionAct option" where
  "act_at p q = (if session_place (request_args q) = Some p then request_act q else None)"

fun answer_of :: "env \<Rightarrow> request \<Rightarrow> files \<Rightarrow> json" where
  "answer_of e (Extract a) fs = fst (run_extract_finding e a fs)"
| "answer_of e (Refine a) fs = fst (run_refine_finding e a fs)"
| "answer_of e (Start a) fs = fst (run_start_verification e a fs)"
| "answer_of e (Append a) fs = fst (run_append_clarification e a fs)"
| "answer_of e (Finalize a) fs = fst (run_finalize_verification e a fs)"
| "answer_of e (Abort a) fs = fst (run_abort_verification e a fs)"

definition status_ok :: "json \<Rightarrow> bool" where
  "status_ok v \<longleftrightarrow> Option.bind (as_object v) (\<lambda>m. get m ''status'') = Some (JStr ''ok'')"

text \<open>A server that serves a list of requests, each in its own environment: the files at the end, and the acts
  at a session file that were acknowledged.\<close>

fun serve_all :: "(env \<times> request) list \<Rightarrow> files \<Rightarrow> files" where
  "serve_all [] fs = fs"
| "serve_all ((e, q) # qs) fs = serve_all qs (handle e q fs)"

fun acked :: "fpath \<Rightarrow> (env \<times> request) list \<Rightarrow> files \<Rightarrow> SessionAct list" where
  "acked p [] fs = []"
| "acked p ((e, q) # qs) fs =
     (case act_at p q of Some k \<Rightarrow> if status_ok (answer_of e q fs) then [k] else [] | None \<Rightarrow> []) @ acked p qs (handle e q fs)"

lemma respond_ok: "status_ok (fst (respond r)) \<Longrightarrow> \<exists>resp. fst r = Inr resp"
  by (cases r; cases "fst r") (auto simp: respond_def stage2_error_response_def status_ok_def)

text \<open>The contract of a tool gives the simulation: a session file stays as it is or makes the step of the request,
  and an acknowledged request has made it.\<close>

context session_tool
begin

lemma moves:
  assumes "session_file p" "snd (run e a fs) p \<noteq> fs p"
  shows "session_place a = Some p \<and> (\<exists>k. act a = Some k \<and> protocol_step k (protocol_of (fs p)) (protocol_of (snd (run e a fs) p)))"
  using session_steps [OF assms] stepped_refines by blast

lemma has_moved:
  assumes "fst (run e a fs) = Inr resp" "session_place a = Some p" "act a = Some k"
  shows "protocol_step k (protocol_of (fs p)) (protocol_of (snd (run e a fs) p))"
  using acknowledged [OF assms(1)] assms(2,3) stepped_refines by fastforce

end

lemma handle_moves:
  assumes "session_file p" "handle e q fs p \<noteq> fs p"
  shows "\<exists>k. act_at p q = Some k \<and> protocol_step k (protocol_of (fs p)) (protocol_of (handle e q fs p))"
  using assms
  by (cases q) (auto simp: stage2_run_defs act_at_def simp del: protocol_step_simps
    dest: extracting.moves refining.moves starting.moves appending.moves finalizing.moves aborting.moves)

lemma handle_has_moved:
  assumes "act_at p q = Some k" "status_ok (answer_of e q fs)"
  shows "protocol_step k (protocol_of (fs p)) (protocol_of (handle e q fs p))"
proof -
  have place: "session_place (request_args q) = Some p" "request_act q = Some k"
    using assms(1) by (auto simp: act_at_def split: if_splits)
  show ?thesis
    using place assms(2)
    by (cases q) (auto simp: stage2_run_defs simp del: protocol_step_simps dest!: respond_ok
      intro: starting.has_moved appending.has_moved finalizing.has_moved aborting.has_moved)
qed

lemma protocol_run_append: "protocol_run ks q q' \<Longrightarrow> protocol_run ks' q' q'' \<Longrightarrow> protocol_run (ks @ ks') q q''"
  by (rotate_tac, induction rule: protocol_run.induct) (auto simp flip: append_assoc intro: protocol_run.step)

lemma protocol_run_one: "protocol_step k q q' \<Longrightarrow> protocol_run [k] q q'"
  using protocol_run.step [OF protocol_run.stay] by fastforce

text \<open>C4: the six tools refine the protocol. Whatever list of requests a server is given, each with its own clock and
  failing writes, what a session file means at the end is reached from what it meant before by a run of the
  protocol whose acts are among those that the requests ask for at that file, in their order, and contain
  every one that was acknowledged with status ok. In the protocol a start opens an empty session or reopens an
  aborted one, questions and answers alternate, only an answered question can be finalized, only a session
  that is not finished can be aborted, and each act is one step.\<close>

theorem tools_refine_protocol:
  assumes "session_file p"
  shows "\<exists>ks. protocol_run ks (protocol_of (fs p)) (protocol_of (serve_all qs fs p)) \<and>
    subseq (acked p qs fs) ks \<and> subseq ks (List.map_filter (\<lambda>(e, q). act_at p q) qs)"
proof (induction qs arbitrary: fs)
  case Nil
  show ?case by (auto simp: List.map_filter_def intro: protocol_run.stay)
next
  case (Cons eq qs)
  obtain e q where eq: "eq = (e, q)" by fastforce
  let ?fs = "handle e q fs"
  from Cons.IH [of ?fs] obtain ks where ks: "protocol_run ks (protocol_of (?fs p)) (protocol_of (serve_all qs ?fs p))"
    "subseq (acked p qs ?fs) ks" "subseq ks (List.map_filter (\<lambda>(e, q). act_at p q) qs)"
    by blast
  consider (none) "act_at p q = None" | (still) k where "act_at p q = Some k" "?fs p = fs p" "\<not> status_ok (answer_of e q fs)"
    | (moved) k where "act_at p q = Some k" "protocol_step k (protocol_of (fs p)) (protocol_of (?fs p))"
    using handle_moves [OF assms, of e q fs] handle_has_moved [of p q _ e fs] by (cases "act_at p q") auto
  then show ?case
  proof cases
    case none
    then have "?fs p = fs p" using handle_moves [OF assms, of e q fs] by auto
    then show ?thesis using ks none by (intro exI [of _ ks]) (simp add: eq map_filter_simps)
  next
    case still
    then show ?thesis using ks by (intro exI [of _ ks]) (auto simp: eq map_filter_simps)
  next
    case moved
    then show ?thesis using protocol_run_append [OF protocol_run_one [OF moved(2)] ks(1)] ks(2,3)
      by (intro exI [of _ "k # ks"]) (auto simp: eq map_filter_simps)
  qed
qed

text \<open>A question to a session that waits for the agent is acknowledged, so the run is exactly that question.\<close>

theorem tools_refine_protocol_witness:
  "protocol_run [AskAct] (Some (WaitingForAgent, 2)) (Some (WaitingForUser, 3))"
proof -
  let ?fs = "demo_files (demo_session WaitingForAgent)" and ?qs = "[(demo_env, Append demo_args)]"
  have demo: "protocol_of (serve_all ?qs ?fs demo_path) = Some (WaitingForUser, 3)"
    "protocol_of (?fs demo_path) = Some (WaitingForAgent, 2)" "acked demo_path ?qs ?fs = [AskAct]"
    "List.map_filter (\<lambda>(e, q). act_at demo_path q) ?qs = [AskAct]"
    by code_simp+
  from tools_refine_protocol [OF demo_path_session, of ?fs ?qs] obtain ks where
    "protocol_run ks (Some (WaitingForAgent, 2)) (Some (WaitingForUser, 3))" "subseq [AskAct] ks" "subseq ks [AskAct]"
    unfolding demo by blast
  moreover from this(2,3) have "ks = [AskAct]" by (rule subseq_order.antisym [symmetric])
  ultimately show ?thesis by simp
qed

end
