(* ===== verification/Impact.thy ===== *)
theory Impact
  imports CfgTwins AmbiguityPolicy
begin

text \<open>
  The blast radius of a symbol and what is not known about it: \<open>src/clustering/impact.rs\<close>,
  \<open>impact_reasons.rs\<close>, \<open>impact_other_owner.rs\<close>, \<open>src/epistemic.rs\<close> and the counts of
  \<open>src/graph_store/callsite_reasons.rs\<close>. The store is what it answers to each query text; the caches of the
  source hold such answers and are left out. The parser and the order of \<open>f64\<close> are parameters.
\<close>

section \<open>Boundaries and floors\<close>

datatype Boundary = Exact | LowerBound

fun boundary_str :: "Boundary \<Rightarrow> string" where
  "boundary_str Exact = ''exact''"
| "boundary_str LowerBound = ''lower-bound''"

definition DYNAMIC_DISPATCH_LABELS :: "string list" where
  "DYNAMIC_DISPATCH_LABELS = [''Trait'']"

definition is_dynamic_dispatch_surface :: "string \<Rightarrow> bool" where
  "is_dynamic_dispatch_surface label \<longleftrightarrow> label \<in> set DYNAMIC_DISPATCH_LABELS"

definition hundredths :: "'f f64 \<Rightarrow> nat \<Rightarrow> 'f" where
  "hundredths F n = f_div F (f_lit F n) (f_lit F 100)"

definition relation_confidence_floor :: "'f f64 \<Rightarrow> string \<Rightarrow> 'f" where
  "relation_confidence_floor F rel =
     (if starts_with rel ''Calls_'' then hundredths F 90
      else if starts_with rel ''Implements_'' \<or> starts_with rel ''Extends_'' then hundredths F 85
      else if starts_with rel ''Uses_'' then hundredths F 80
      else if starts_with rel ''Imports_'' then hundredths F 90
      else f_lit F 1)"

definition is_heuristic_edge :: "'f f64 \<Rightarrow> 'f \<Rightarrow> bool" where
  "is_heuristic_edge F confidence = f_gt F (f_lit F 1) confidence"

section \<open>The reverse dependencies\<close>

record 'f ImpactNode =
  node_id :: string
  node_qn :: string
  node_label :: string
  confidence :: 'f
  node_context :: string

record 'f Dependents =
  callers :: "'f ImpactNode list"
  importers :: "'f ImpactNode list"
  users :: "'f ImpactNode list"
  implementors :: "'f ImpactNode list"
  references :: "'f ImpactNode list"

fun dependent_node :: "(string \<Rightarrow> 'f option) \<Rightarrow> string list \<Rightarrow> string \<Rightarrow> 'f \<Rightarrow> 'f ImpactNode option" where
  "dependent_node parse (i # qn # cells) from_label floor =
     Some \<lparr>node_id = i, node_qn = qn, node_label = from_label,
       confidence = (case cells of c # _ \<Rightarrow> (case parse c of Some x \<Rightarrow> x | None \<Rightarrow> floor) | [] \<Rightarrow> floor),
       node_context = []\<rparr>"
| "dependent_node parse row from_label floor = None"

definition dependents_query :: "string \<Rightarrow> string \<times> string \<times> string \<Rightarrow> string" where
  "dependents_query esc r =
     (case r of (rel, from_label, to_label) \<Rightarrow>
       ''MATCH (a:'' @ from_label @ '')-[r:'' @ rel @ '']->(b:'' @ to_label @ '') WHERE ''
       @ (if label_has_qualified_name to_label then ''b.id = '' @ esc @ '' OR b.qualified_name = '' @ esc else ''b.id = '' @ esc)
       @ '' RETURN a.id, '' @ (if label_has_qualified_name from_label then ''a.qualified_name'' else ''a.id'') @ '', r.confidence'')"

definition reverse_dependents :: "'f f64 \<Rightarrow> (string \<Rightarrow> 'f option) \<Rightarrow> store \<Rightarrow> string \<Rightarrow> string \<Rightarrow> 'f ImpactNode list" where
  "reverse_dependents F parse store esc prefix =
     concat (map (\<lambda>(rel, from_label, to_label).
       if starts_with rel prefix \<and> from_label \<noteq> NODE_CALL_SITE
       then List.map_filter (\<lambda>row. dependent_node parse row from_label (relation_confidence_floor F prefix))
              (rows_of store (dependents_query esc (rel, from_label, to_label)))
       else []) REL_TABLES)"

section \<open>Call sites of another owner\<close>

definition REASON_EXTERNAL_CALLEE :: string where "REASON_EXTERNAL_CALLEE = ''external_callee''"
definition REASON_NOT_RECORDED :: string where "REASON_NOT_RECORDED = ''not_recorded''"
definition CALLSITE_UNRESOLVED_REASON_OUTSIDE_TARGETS :: string where
  "CALLSITE_UNRESOLVED_REASON_OUTSIDE_TARGETS = ''outside_compiled_targets''"

definition CLOSED_STD_TYPES :: "string list" where
  "CLOSED_STD_TYPES = [''bool'', ''char'', ''str'', ''u8'', ''u16'', ''u32'', ''u64'', ''u128'', ''usize'', ''i8'',
     ''i16'', ''i32'', ''i64'', ''i128'', ''isize'', ''f32'', ''f64'', ''String'', ''Vec'', ''VecDeque'', ''HashMap'',
     ''HashSet'', ''BTreeMap'', ''BTreeSet'', ''BinaryHeap'', ''Option'', ''Result'']"

record SiteSpelling =
  site_callee :: string
  site_hint :: string
  site_reason :: string
  site_language :: string

record OtherOwnerFilter =
  owner :: string
  trait_name :: "string option"

definition has_row :: "store \<Rightarrow> string \<Rightarrow> bool option" where
  "has_row store cypher = (case store cypher of Inl e \<Rightarrow> None | Inr rows \<Rightarrow> Some (list_ex (\<lambda>r. r \<noteq> []) rows))"

definition strip_generics :: "string \<Rightarrow> string" where
  "strip_generics s = takeWhile (\<lambda>c. c \<noteq> CHR ''<'') s"

definition for_target :: "store \<Rightarrow> string \<Rightarrow> OtherOwnerFilter option" where
  "for_target store esc =
     (case rows_of store (''MATCH (m:Method) WHERE (m.id = '' @ esc @ '' OR m.qualified_name = '' @ esc @ '') AND m.language = ''
             @ cypher_str ''rust'' @ '' RETURN m.receiver_type, m.trait_name LIMIT 1'') of
        (receiver # cells) # _ \<Rightarrow>
          let owner_qn = strip_generics (trim receiver);
              tn = (case cells of t # _ \<Rightarrow> let n = after_colons (strip_generics (trim t)) in if n = [] then None else Some n | [] \<Rightarrow> None);
              concrete = list_ex (\<lambda>label. has_row store (''MATCH (n:'' @ label @ '') WHERE n.qualified_name = ''
                 @ cypher_str owner_qn @ '' RETURN n.id LIMIT 1'') = Some True) [''Struct'', ''Enum''];
              own = after_colons owner_qn
          in if concrete \<and> own \<noteq> [] then Some \<lparr>owner = own, trait_name = tn\<rparr> else None
      | _ \<Rightarrow> None)"

definition is_self_or_owner :: "OtherOwnerFilter \<Rightarrow> string \<Rightarrow> bool" where
  "is_self_or_owner flt name \<longleftrightarrow> name = ''Self'' \<or> name = ''self'' \<or> name = owner flt"

definition is_repo_type :: "store \<Rightarrow> string \<Rightarrow> bool" where
  "is_repo_type store name = list_ex (\<lambda>label. has_row store (''MATCH (n:'' @ label @ '') WHERE n.name = '' @ cypher_str name
     @ '' RETURN n.id LIMIT 1'') = Some True) [''Struct'', ''Enum'']"

definition is_aliased :: "store \<Rightarrow> string \<Rightarrow> bool" where
  "is_aliased store name = list_ex (\<lambda>label. has_row store (''MATCH (n:'' @ label @ '') WHERE n.''
     @ (if label = ''Import'' then ''alias'' else ''name'') @ '' = '' @ cypher_str name @ '' RETURN n.id LIMIT 1'') \<noteq> Some False)
     [''TypeAlias'', ''Import'']"

definition type_derefs :: "store \<Rightarrow> string \<Rightarrow> bool" where
  "type_derefs store name = (has_row store (''MATCH (m:Method) WHERE m.trait_name CONTAINS '' @ [CHR 0x27] @ ''Deref'' @ [CHR 0x27]
     @ '' AND m.receiver_type CONTAINS '' @ cypher_str (''::'' @ name) @ '' RETURN m.id LIMIT 1'') \<noteq> Some False)"

definition path_is_another_owner :: "store \<Rightarrow> OtherOwnerFilter \<Rightarrow> string \<Rightarrow> string \<Rightarrow> bool" where
  "path_is_another_owner store flt qualifier reason =
     (if is_self_or_owner flt qualifier \<or> is_aliased store qualifier then False
      else if is_repo_type store qualifier then True
      else if reason \<noteq> REASON_EXTERNAL_CALLEE then False
      else case trait_name flt of None \<Rightarrow> True | Some _ \<Rightarrow> qualifier \<in> set CLOSED_STD_TYPES)"

text \<open>References and \<open>mut\<close> in front of a written type are skipped.\<close>

function skip_refs :: "string \<Rightarrow> string" where
  "skip_refs rest =
     (case (case strip_prefix rest ''&'' of Some r \<Rightarrow> Some r | None \<Rightarrow> strip_prefix rest ''mut '') of
        Some next_rest \<Rightarrow> skip_refs (trim_start next_rest)
      | None \<Rightarrow> rest)"
  by pat_completeness auto

lemma trim_start_length: "length (trim_start s) \<le> length s"
proof (induction s rule: trim_start.induct)
  case (1 s)
  show ?case
  proof (cases "find (\<lambda>n. starts_white n s) [1, 2, 3]")
    case None
    then show ?thesis by (subst trim_start.simps) simp
  next
    case (Some n)
    then show ?thesis using "1.IH" [OF Some] by (subst trim_start.simps) simp
  qed
qed

termination skip_refs
proof (relation "measure length", goal_cases)
  case (2 rest r)
  then have "rest = ''&'' @ r \<or> rest = ''mut '' @ r"
    by (auto simp: strip_prefix_Some split: option.splits)
  then have "length r < length rest" by auto
  then show ?case using trim_start_length [of r] by simp
qed simp

declare skip_refs.simps [simp del]

definition hint_type_name :: "string \<Rightarrow> string option" where
  "hint_type_name hint =
     (let plain = strip_generics (skip_refs (trim hint))
      in if plain \<noteq> [] \<and> list_all (\<lambda>c. is_alnum c \<or> c = CHR ''_'' \<or> c = CHR '':'') plain
         then (let s = after_colons plain in if s = [] then None else Some s)
         else None)"

definition receiver_is_another_type :: "store \<Rightarrow> OtherOwnerFilter \<Rightarrow> string \<Rightarrow> bool" where
  "receiver_is_another_type store flt hint =
     (case hint_type_name hint of
        None \<Rightarrow> False
      | Some name \<Rightarrow>
          if is_self_or_owner flt name \<or> is_aliased store name then False
          else if is_repo_type store name then \<not> type_derefs store name
          else name \<in> set CLOSED_STD_TYPES)"

definition excludes :: "store \<Rightarrow> OtherOwnerFilter \<Rightarrow> SiteSpelling \<Rightarrow> bool" where
  "excludes store flt site =
     (if site_language site \<noteq> ''rust'' then False
      else if list_ex (\<lambda>c. c = CHR ''.'') (site_callee site) then receiver_is_another_type store flt (site_hint site)
      else case callee_names_type (site_callee site) of
             Some qualifier \<Rightarrow> path_is_another_owner store flt qualifier (site_reason site)
           | None \<Rightarrow> False)"

definition cell :: "string list \<Rightarrow> nat \<Rightarrow> string" where
  "cell row i = (if i < length row then row ! i else [])"

definition site_of_row :: "string list \<Rightarrow> SiteSpelling" where
  "site_of_row row = \<lparr>site_callee = cell row 2, site_hint = cell row 4, site_reason = cell row 1, site_language = cell row 3\<rparr>"

definition drop_other_owner_sites :: "store \<Rightarrow> string \<Rightarrow> string list list \<Rightarrow> string list list \<times> nat" where
  "drop_other_owner_sites store esc rows =
     (case for_target store esc of
        None \<Rightarrow> (rows, 0)
      | Some flt \<Rightarrow>
          let kept = filter (\<lambda>row. \<not> excludes store flt (site_of_row row)) rows
          in (kept, length rows - length kept))"

section \<open>The count of the open call sites\<close>

record Attribution =
  total :: nat
  outside_targets :: nat
  outside_target_files :: "string list"
  cfg_twins :: nat
  by_reason :: "string \<rightharpoonup> nat"
  excluded_other_owner :: nat

definition reason_or_not_recorded :: "string \<Rightarrow> string" where
  "reason_or_not_recorded reason = (if reason = [] then REASON_NOT_RECORDED else reason)"

definition count_reason :: "string \<Rightarrow> (string \<rightharpoonup> nat) \<Rightarrow> (string \<rightharpoonup> nat)" where
  "count_reason reason m =
     (let r = reason_or_not_recorded reason in m(r \<mapsto> (case m r of Some n \<Rightarrow> n + 1 | None \<Rightarrow> 1)))"

definition count_by_reason :: "string list \<Rightarrow> string \<rightharpoonup> nat" where
  "count_by_reason reasons = fold count_reason reasons Map.empty"

definition has_reason :: "string \<Rightarrow> string list \<Rightarrow> bool" where
  "has_reason reason row \<longleftrightarrow> 1 < length row \<and> row ! 1 = reason"

definition count_cfg_twins :: "string list list \<Rightarrow> nat" where
  "count_cfg_twins rows = length (filter (has_reason CALLSITE_UNRESOLVED_REASON_CFG_TWINS) rows)"

definition outside_target_sites :: "string list list \<Rightarrow> nat \<times> string list" where
  "outside_target_sites rows =
     (let out = filter (has_reason CALLSITE_UNRESOLVED_REASON_OUTSIDE_TARGETS) rows
      in (length out, sorted_list_of_set (set (map (extract_file_prefix_or_self \<circ> hd) out))))"

definition unresolved_name_filter :: "string \<Rightarrow> string" where
  "unresolved_name_filter bare =
     ''cs.is_resolved = false AND (cs.callee_name = '' @ cypher_str bare @ '' OR cs.callee_name ENDS WITH ''
     @ cypher_str (''.'' @ bare) @ '' OR cs.callee_name ENDS WITH '' @ cypher_str (''::'' @ bare) @ '')''"

definition outside_target_sites_query :: "string \<Rightarrow> string" where
  "outside_target_sites_query bare =
     ''MATCH (cs:CallSite) WHERE '' @ unresolved_name_filter bare @ '' AND cs.unresolved_reason = ''
     @ cypher_str CALLSITE_UNRESOLVED_REASON_OUTSIDE_TARGETS @ '' RETURN cs.id ORDER BY cs.id''"

definition first_number :: "nat \<Rightarrow> store \<Rightarrow> string \<Rightarrow> nat" where
  "first_number bound store cypher =
     (case rows_of store cypher of
        (c # cells) # rows \<Rightarrow> (case parse_dec bound c of Some n \<Rightarrow> n | None \<Rightarrow> 0)
      | _ \<Rightarrow> 0)"

definition count_unresolved :: "store \<Rightarrow> string \<Rightarrow> nat" where
  "count_unresolved store name_filter =
     first_number (2 ^ 64) store (''MATCH (cs:CallSite) WHERE '' @ name_filter @ '' RETURN count(cs)'')"

definition unresolved_sites_query :: "store \<Rightarrow> string \<Rightarrow> string" where
  "unresolved_sites_query store name_filter =
     ''MATCH (cs:CallSite) WHERE '' @ name_filter @ '' RETURN cs.id, cs.unresolved_reason, cs.callee_name, cs.language''
     @ (if has_column store NODE_CALL_SITE ''receiver_hint'' then '', cs.receiver_hint'' else [])"

definition attribution_without_reason_column :: "store \<Rightarrow> string \<Rightarrow> Attribution" where
  "attribution_without_reason_column store name_filter =
     (let n = count_unresolved store name_filter
      in \<lparr>total = n, outside_targets = 0, outside_target_files = [], cfg_twins = 0,
          by_reason = (if 0 < n then [REASON_NOT_RECORDED \<mapsto> n] else Map.empty), excluded_other_owner = 0\<rparr>)"

definition unresolved_callsite_attribution :: "store \<Rightarrow> string \<Rightarrow> string \<Rightarrow> Attribution" where
  "unresolved_callsite_attribution store esc bare =
     (let name_filter = unresolved_name_filter bare
      in if \<not> has_column store NODE_CALL_SITE ''unresolved_reason''
         then attribution_without_reason_column store name_filter
         else let all_rows = rows_of store (unresolved_sites_query store name_filter);
                  (rows, excluded) = drop_other_owner_sites store esc all_rows;
                  (outside, fs) = outside_target_sites rows
              in \<lparr>total = length rows, outside_targets = outside, outside_target_files = fs,
                  cfg_twins = count_cfg_twins rows, by_reason = count_by_reason (map (\<lambda>row. cell row 1) rows),
                  excluded_other_owner = excluded\<rparr>)"

section \<open>The reasons of a lower bound\<close>

definition SYMBOL_LABELS :: "string list" where
  "SYMBOL_LABELS = [''Function'', ''Method'', ''Struct'', ''Enum'', ''Trait'', ''Constant'', ''TypeAlias'', ''Module'']"

definition lookup_target_label :: "store \<Rightarrow> string \<Rightarrow> string option" where
  "lookup_target_label store esc =
     find (\<lambda>label. has_row store (''MATCH (n:'' @ label @ '') WHERE n.id = '' @ esc @ '' OR n.qualified_name = '' @ esc
       @ '' RETURN n.id LIMIT 1'') = Some True) SYMBOL_LABELS"

text \<open>The dash of the messages, in UTF-8.\<close>

definition em_dash :: string where "em_dash = [CHR 0xE2, CHR 0x80, CHR 0x94]"

definition dynamic_dispatch_reason :: "store \<Rightarrow> string \<Rightarrow> 'f ImpactNode list \<Rightarrow> string option" where
  "dynamic_dispatch_reason store esc impls =
     (case lookup_target_label store esc of
        None \<Rightarrow> None
      | Some label \<Rightarrow>
          if is_dynamic_dispatch_surface label
          then Some (''target is a '' @ label @ '' (dynamic-dispatch surface): call sites that invoke it polymorphically are ''
            @ ''not exhaustively captured by static resolution; the '' @ dec (length impls)
            @ '' implementor(s) and direct callers shown are a lower bound'')
          else None)"

definition all_dependents :: "'f Dependents \<Rightarrow> 'f ImpactNode list" where
  "all_dependents deps = callers deps @ importers deps @ users deps @ implementors deps @ references deps"

definition heuristic_edge_reason :: "'f f64 \<Rightarrow> 'f Dependents \<Rightarrow> string option" where
  "heuristic_edge_reason F deps =
     (let n = length (filter (\<lambda>d. is_heuristic_edge F (confidence d)) (all_dependents deps))
      in if n = 0 then None
         else Some (dec n @ '' reverse-dependency edge(s) were resolved heuristically (confidence < 1.0) and may be incomplete or incorrect''))"

definition unresolved_callsite_reason :: "Attribution \<Rightarrow> string option" where
  "unresolved_callsite_reason att =
     (if total att = 0 then None
      else Some (dec (total att) @ '' unresolved call site(s) name this symbol '' @ em_dash @ '' '' @ dec (total att)
        @ '' `CallSite` node(s) in the graph reference it by name but were never resolved to a Calls edge; ''
        @ ''the reported callers are a lower bound''
        @ (if 0 < outside_targets att
           then ''; '' @ dec (outside_targets att) @ '' of them sit in files outside the compiled Cargo targets (''
             @ join_with '', '' (outside_target_files att)
             @ '') '' @ em_dash @ '' unresolvable by the language server; static receiver binding may still resolve them'' else [])
        @ (if 0 < excluded_other_owner att
           then ''; '' @ dec (excluded_other_owner att) @ '' more open call site(s) with the same bare name were left out ''
             @ ''because their path or receiver names another type'' else [])))"

definition is_file_node :: "store \<Rightarrow> string \<Rightarrow> bool" where
  "is_file_node store esc = (has_row store (''MATCH (f:File) WHERE f.id = '' @ esc @ '' RETURN f.id LIMIT 1'') = Some True)"

definition doc_script_query :: string where
  "doc_script_query = ''MATCH (f:File) WHERE '' @ join_with '' OR ''
     (map (\<lambda>ext. ''f.id ENDS WITH '' @ cypher_str ext) [''.md'', ''.markdown'', ''.mdx'', ''.sh'', ''.bash'']) @ '' RETURN count(f)''"

definition missing_reference_indexing_reason :: "store \<Rightarrow> string option" where
  "missing_reference_indexing_reason store =
     (let n = (case rows_of store doc_script_query of
                 (c # cells) # rows \<Rightarrow> (case parse_i64 c of Some n \<Rightarrow> n | None \<Rightarrow> 0)
               | _ \<Rightarrow> 0)
      in if n = 0 then None
         else if rows_of store ''MATCH (:File)-[r:References_File_File]->(:File) RETURN r LIMIT 1'' \<noteq> [] then None
         else Some ((if n < 0 then ''-'' else []) @ dec (nat \<bar>n\<bar>)
           @ '' markdown/shell file(s) exist in this graph but it contains zero References_File_File edges '' @ em_dash @ '' either this ''
           @ ''graph predates reference-edge indexing (issue #205) or these files are genuinely unreferenced; code-only ''
           @ ''fan-in over a File target is a lower bound''))"

definition build_epistemic_reasons :: "'f f64 \<Rightarrow> store \<Rightarrow> string \<Rightarrow> Attribution \<Rightarrow> 'f Dependents \<Rightarrow> string list" where
  "build_epistemic_reasons F store esc att deps =
     List.map_filter id
       [dynamic_dispatch_reason store esc (implementors deps), heuristic_edge_reason F deps, unresolved_callsite_reason att,
        if references deps = [] \<and> is_file_node store esc then missing_reference_indexing_reason store else None]"

definition cfg_twin_reason :: "TwinRow list \<Rightarrow> Attribution \<Rightarrow> string option" where
  "cfg_twin_reason twins att =
     (if length twins < 2 then None
      else Some (''target is one of '' @ dec (length twins) @ '' twins of one item under exclusive #[cfg] gates (''
        @ join_with ''; '' (map (\<lambda>t. ''cfg('' @ twin_gate t @ '') is '' @ twin_active t) twins)
        @ '') under the default build; a caller that names the item without a gate reaches whichever twin the build ''
        @ ''compiles, and is recorded on that twin only when the default build decides it''
        @ (if 0 < cfg_twins att
           then ''; '' @ dec (cfg_twins att) @ '' call site(s) naming the item were left unresolved because the default build ''
             @ ''does not decide which twin they reach'' else [])))"

section \<open>The answer\<close>

definition last_segment :: "string \<Rightarrow> string" where
  "last_segment s =
     (let after = after_colons s in case rsplit_once CHR ''.'' after of Some (a, b) \<Rightarrow> b | None \<Rightarrow> after)"

record Epistemics =
  attribution :: Attribution
  reasons :: "string list"
  boundary :: Boundary
  twins :: "TwinRow list"

definition resolve_epistemic :: "'f f64 \<Rightarrow> store \<Rightarrow> string \<Rightarrow> string \<Rightarrow> 'f Dependents \<Rightarrow> Attribution \<times> string list \<times> Boundary" where
  "resolve_epistemic F store esc bare deps =
     (let att = unresolved_callsite_attribution store esc bare;
          rs = build_epistemic_reasons F store esc att deps
      in (att, rs, if rs = [] then Exact else LowerBound))"

definition resolve_epistemics :: "'f f64 \<Rightarrow> store \<Rightarrow> string \<Rightarrow> string \<Rightarrow> 'f Dependents \<Rightarrow> Epistemics" where
  "resolve_epistemics F store qn esc deps =
     (let plain = strip_cfg_gates qn;
          (att, rs, bound) = resolve_epistemic F store esc (last_segment plain) deps;
          tw = (if has_cfg_gate qn then cfg_twin_rows store plain else [])
      in case cfg_twin_reason tw att of
           Some reason \<Rightarrow> \<lparr>attribution = att, reasons = rs @ [reason], boundary = LowerBound, twins = tw\<rparr>
         | None \<Rightarrow> \<lparr>attribution = att, reasons = rs, boundary = bound, twins = tw\<rparr>)"

definition collect_dependents :: "'f f64 \<Rightarrow> (string \<Rightarrow> 'f option) \<Rightarrow> store \<Rightarrow> string \<Rightarrow> 'f Dependents" where
  "collect_dependents F parse store esc =
     \<lparr>callers = reverse_dependents F parse store esc ''Calls_'', importers = reverse_dependents F parse store esc ''Imports_'',
      users = reverse_dependents F parse store esc ''Uses_'', implementors = reverse_dependents F parse store esc ''Implements_'',
      references = reverse_dependents F parse store esc ''References_''\<rparr>"

definition get_impact :: "'f f64 \<Rightarrow> (string \<Rightarrow> 'f option) \<Rightarrow> store \<Rightarrow> string \<Rightarrow> 'f Dependents \<times> Epistemics" where
  "get_impact F parse store qn =
     (let esc = cypher_str qn; deps = collect_dependents F parse store esc
      in (deps, resolve_epistemics F store qn esc deps))"

section \<open>What an exact answer says\<close>

lemma map_filter_id_Nil: "List.map_filter id xs = [] \<longleftrightarrow> (\<forall>x \<in> set xs. x = None)"
  by (induction xs) (auto simp: List.map_filter_def)

lemma build_reasons_Nil: "build_epistemic_reasons F store esc att deps = [] \<longleftrightarrow>
    dynamic_dispatch_reason store esc (implementors deps) = None \<and> heuristic_edge_reason F deps = None
    \<and> unresolved_callsite_reason att = None
    \<and> (references deps = [] \<and> is_file_node store esc \<longrightarrow> missing_reference_indexing_reason store = None)"
  unfolding build_epistemic_reasons_def map_filter_id_Nil by auto

lemma dynamic_dispatch_None: "dynamic_dispatch_reason store esc impls = None \<longleftrightarrow> lookup_target_label store esc \<noteq> Some ''Trait''"
  by (auto simp: dynamic_dispatch_reason_def is_dynamic_dispatch_surface_def DYNAMIC_DISPATCH_LABELS_def split: option.splits)

lemma heuristic_None: "heuristic_edge_reason F deps = None \<longleftrightarrow>
    (\<forall>d \<in> set (all_dependents deps). \<not> is_heuristic_edge F (confidence d))"
  by (auto simp: heuristic_edge_reason_def Let_def filter_empty_conv)

lemma unresolved_None: "unresolved_callsite_reason att = None \<longleftrightarrow> total att = 0"
  by (simp add: unresolved_callsite_reason_def)

lemma twin_reason_None: "cfg_twin_reason tw att = None \<longleftrightarrow> length tw < 2"
  by (simp add: cfg_twin_reason_def)

text \<open>The answer for a symbol is called exact exactly when nothing is known to be missing: the target is not
  a trait, every reverse dependency is certain, no open call site names the symbol, the symbol is not one of
  several twins, and the references of a file were indexed; otherwise at least one reason is given.\<close>

theorem exact_answer:
  "(case get_impact F parse store qn of (deps, ep) \<Rightarrow>
     (boundary ep = Exact \<longleftrightarrow> reasons ep = []) \<and>
     (boundary ep = Exact \<longleftrightarrow>
        lookup_target_label store (cypher_str qn) \<noteq> Some ''Trait''
        \<and> list_all (\<lambda>d. \<not> is_heuristic_edge F (confidence d)) (all_dependents deps)
        \<and> total (attribution ep) = 0 \<and> length (twins ep) < 2
        \<and> \<not> (references deps = [] \<and> is_file_node store (cypher_str qn) \<and> missing_reference_indexing_reason store \<noteq> None)))"
proof -
  define deps where "deps = collect_dependents F parse store (cypher_str qn)"
  let ?esc = "cypher_str qn" and ?bare = "last_segment (strip_cfg_gates qn)"
  let ?tw = "if has_cfg_gate qn then cfg_twin_rows store (strip_cfg_gates qn) else []"
  let ?att = "unresolved_callsite_attribution store ?esc ?bare"
  let ?rs = "build_epistemic_reasons F store ?esc ?att deps"
  obtain ep where ep: "ep = resolve_epistemics F store qn ?esc deps" by simp
  have run: "get_impact F parse store qn = (deps, ep)" by (simp add: get_impact_def Let_def ep deps_def)
  have parts: "attribution ep = ?att" "twins ep = ?tw"
    "reasons ep = ?rs @ (case cfg_twin_reason ?tw ?att of Some r \<Rightarrow> [r] | None \<Rightarrow> [])"
    "boundary ep = (if ?rs = [] \<and> cfg_twin_reason ?tw ?att = None then Exact else LowerBound)"
    unfolding ep resolve_epistemics_def resolve_epistemic_def Let_def
    by (cases "cfg_twin_reason ?tw ?att"; simp)+
  have "reasons ep = [] \<longleftrightarrow> ?rs = [] \<and> cfg_twin_reason ?tw ?att = None" unfolding parts(3) by (auto split: option.splits)
  then show ?thesis
    unfolding run prod.case parts(1,2,4) build_reasons_Nil dynamic_dispatch_None heuristic_None unresolved_None twin_reason_None
      list_all_iff
    by auto
qed

section \<open>The counts add up\<close>

definition reason_total :: "(string \<rightharpoonup> nat) \<Rightarrow> nat" where
  "reason_total m = (\<Sum>r \<in> dom m. the (m r))"

lemma count_reason_total: "finite (dom m) \<Longrightarrow> reason_total (count_reason reason m) = Suc (reason_total m) \<and> finite (dom (count_reason reason m))"
proof -
  assume fin: "finite (dom m)"
  let ?r = "reason_or_not_recorded reason"
  have rest: "(\<Sum>r \<in> dom m - {?r}. the ((m(?r \<mapsto> n)) r)) = (\<Sum>r \<in> dom m - {?r}. the (m r))" for n
    by (rule sum.cong) auto
  show ?thesis
  proof (cases "m ?r")
    case None
    then have "?r \<notin> dom m" by auto
    then show ?thesis using fin None rest [of 1]
      by (simp add: reason_total_def count_reason_def Let_def)
  next
    case (Some n)
    then have d: "dom m = insert ?r (dom m - {?r})" by auto
    have "reason_total m = n + (\<Sum>r \<in> dom m - {?r}. the (m r))"
      unfolding reason_total_def by (subst d, subst sum.insert) (use fin Some in auto)
    moreover have "reason_total (m(?r \<mapsto> n + 1)) = (n + 1) + (\<Sum>r \<in> dom m - {?r}. the (m r))"
      unfolding reason_total_def dom_fun_upd using rest [of "n + 1"] fin by (simp add: sum.insert_remove)
    ultimately show ?thesis using fin Some by (simp add: count_reason_def Let_def)
  qed
qed

lemma fold_count_total:
  "finite (dom m) \<Longrightarrow> reason_total (fold count_reason rs m) = reason_total m + length rs \<and> finite (dom (fold count_reason rs m))"
  by (induction rs arbitrary: m) (use count_reason_total in auto)

lemma count_by_reason_total: "reason_total (count_by_reason rs) = length rs"
  using fold_count_total [of Map.empty rs] by (simp add: count_by_reason_def reason_total_def)

lemma fold_count_lookup:
  "(case fold count_reason rs m r of Some n \<Rightarrow> n | None \<Rightarrow> 0) =
     (case m r of Some n \<Rightarrow> n | None \<Rightarrow> 0) + length (filter (\<lambda>x. reason_or_not_recorded x = r) rs)"
  by (induction rs arbitrary: m) (auto simp: count_reason_def Let_def split: option.splits)

text \<open>The counts of the open call sites add up: every site that the query answers is either counted or left
  out as one of another owner, the counts by reason sum to the total, and the sites outside the Cargo
  targets and those left open between twins are the counts of their reasons.\<close>

theorem attribution_adds_up:
  assumes "has_column store NODE_CALL_SITE ''unresolved_reason''"
    and "att = unresolved_callsite_attribution store esc bare"
  shows "total att + excluded_other_owner att = length (rows_of store (unresolved_sites_query store (unresolved_name_filter bare)))
    \<and> reason_total (by_reason att) = total att
    \<and> outside_targets att = (case by_reason att CALLSITE_UNRESOLVED_REASON_OUTSIDE_TARGETS of Some n \<Rightarrow> n | None \<Rightarrow> 0)
    \<and> cfg_twins att = (case by_reason att CALLSITE_UNRESOLVED_REASON_CFG_TWINS of Some n \<Rightarrow> n | None \<Rightarrow> 0)"
proof -
  let ?all = "rows_of store (unresolved_sites_query store (unresolved_name_filter bare))"
  obtain rows ex where d: "drop_other_owner_sites store esc ?all = (rows, ex)" by fastforce
  have sum: "length rows + ex = length ?all"
    using d length_filter_le [of "\<lambda>row. \<not> excludes store flt (site_of_row row)" ?all for flt]
    by (auto simp: drop_other_owner_sites_def Let_def split: option.splits)
  have att: "att = \<lparr>total = length rows, outside_targets = fst (outside_target_sites rows),
      outside_target_files = snd (outside_target_sites rows), cfg_twins = count_cfg_twins rows,
      by_reason = count_by_reason (map (\<lambda>row. cell row 1) rows), excluded_other_owner = ex\<rparr>"
    using assms(1) d by (simp add: assms(2) unresolved_callsite_attribution_def Let_def split: prod.splits)
  have reason: "(case count_by_reason (map (\<lambda>row. cell row 1) rows) r of Some n \<Rightarrow> n | None \<Rightarrow> 0) =
      length (filter (has_reason r) rows)" if "r \<noteq> REASON_NOT_RECORDED" "r \<noteq> []" for r
  proof -
    have "(reason_or_not_recorded (cell row 1) = r) = has_reason r row" for row
      using that by (auto simp: reason_or_not_recorded_def has_reason_def cell_def)
    then show ?thesis unfolding count_by_reason_def fold_count_lookup by (simp add: filter_map comp_def)
  qed
  show ?thesis
    using sum reason [of CALLSITE_UNRESOLVED_REASON_OUTSIDE_TARGETS] reason [of CALLSITE_UNRESOLVED_REASON_CFG_TWINS]
    by (simp add: att count_by_reason_total outside_target_sites_def count_cfg_twins_def Let_def
      CALLSITE_UNRESOLVED_REASON_OUTSIDE_TARGETS_def CALLSITE_UNRESOLVED_REASON_CFG_TWINS_def REASON_NOT_RECORDED_def)
qed

definition demo_store :: store where
  "demo_store cypher =
     (if starts_with cypher ''CALL table_info'' then Inr [[''0'', ''unresolved_reason'']]
      else if starts_with cypher ''MATCH (cs:CallSite)''
      then Inr [[''src/a.rs::f::call@1:1'', ''cfg_twins'', ''g'', ''rust''],
                [''src/b.rs::f::call@2:1'', ''outside_compiled_targets'', ''g'', ''rust'']]
      else Inr [])"

lemma attribution_adds_up_witness:
  "reason_total (by_reason (unresolved_callsite_attribution demo_store ''x'' ''g'')) = 2"
proof -
  have "has_column demo_store NODE_CALL_SITE ''unresolved_reason''" by code_simp
  from attribution_adds_up [OF this refl, of "''x''" "''g''"]
  have "reason_total (by_reason (unresolved_callsite_attribution demo_store ''x'' ''g''))
      = total (unresolved_callsite_attribution demo_store ''x'' ''g'')" by blast
  also have "\<dots> = 2" by code_simp
  finally show ?thesis .
qed

section \<open>A store that cannot be read\<close>

text \<open>A defect. Every error of a query is taken for an empty answer: for a store that answers nothing but
  errors the impact of any plain symbol has no dependents, no open call sites and no reasons, and is called
  exact.\<close>

theorem unreadable_store_is_exact:
  "(case get_impact F parse (\<lambda>cypher. Inl e) qn of (deps, ep) \<Rightarrow>
     all_dependents deps = [] \<and> total (attribution ep) = 0 \<and> reasons ep = [] \<and> boundary ep = Exact)"
proof -
  have "reverse_dependents F parse (\<lambda>cypher. Inl e) esc prefix = []" for esc prefix
    by (auto simp: reverse_dependents_def rows_of_def List.map_filter_def)
  moreover have "\<not> has_column (\<lambda>cypher. Inl e) label column" for label column
    by (simp add: has_column_def node_column_exists_def reading_def)
  moreover have "cfg_twin_rows (\<lambda>cypher. Inl e) plain = []" for plain
    by (simp add: cfg_twin_rows_def rows_of_def CFG_GATE_LABELS_def Let_def)
  ultimately show ?thesis
    by (auto simp: get_impact_def resolve_epistemics_def resolve_epistemic_def collect_dependents_def all_dependents_def
      unresolved_callsite_attribution_def attribution_without_reason_column_def count_unresolved_def first_number_def
      rows_of_def cfg_twin_reason_def build_reasons_Nil dynamic_dispatch_None heuristic_None
      unresolved_None is_file_node_def has_row_def lookup_target_label_def SYMBOL_LABELS_def Let_def)
qed

text \<open>A site that names the owner with a path among its generic arguments is left out when the resolver gave it
  up as external, although the count promises to keep every site that could reach the target.\<close>

lemma own_generic_site_left_out:
  "excludes (\<lambda>cypher. Inr []) \<lparr>owner = ''Set'', trait_name = None\<rparr>
     \<lparr>site_callee = ''Set::<a::B>::new'', site_hint = [], site_reason = REASON_EXTERNAL_CALLEE, site_language = ''rust''\<rparr>
   \<and> \<not> excludes (\<lambda>cypher. Inr []) \<lparr>owner = ''Set'', trait_name = None\<rparr>
     \<lparr>site_callee = ''Set::<B>::new'', site_hint = [], site_reason = REASON_EXTERNAL_CALLEE, site_language = ''rust''\<rparr>"
  by (intro conjI; code_simp)

end
