(* ===== verification/Tarjan.thy ===== *)
theory Tarjan
  imports Main
begin

text \<open>
  The search for strongly connected components of the graph diff (\<open>src/semantic_diff.rs\<close>,
  \<open>tarjan_scc\<close> and its helpers): an iterative depth-first search with an explicit work list of
  (node, next edge) pairs, the arrays \<open>index\<close>, \<open>lowlink\<close> and \<open>on_stack\<close>, and a stack of the nodes that
  belong to no finished component. The model keeps the arrays as lists and the two stacks with their top
  first; the loop is a \<open>partial_function\<close>, so that it returns is part of what is proved.

  The proof goes in two layers. \<open>scc_inv\<close> is the invariant over sets and functions, with one lemma for
  each thing a turn of the loop can do; \<open>tarjan_inv\<close> ties it to the arrays.
\<close>

section \<open>The search\<close>

record TarjanState =
  index :: "int list"
  lowlink :: "int list"
  on_stack :: "bool list"
  scc_stack :: "nat list"
  sccs :: "nat list list"
  counter :: int

definition visit :: "nat \<Rightarrow> TarjanState \<Rightarrow> TarjanState" where
  "visit v s = s\<lparr>index := (index s)[v := counter s], lowlink := (lowlink s)[v := counter s],
     on_stack := (on_stack s)[v := True], scc_stack := v # scc_stack s, counter := counter s + 1\<rparr>"

fun pop_loop :: "nat \<Rightarrow> nat list \<Rightarrow> bool list \<Rightarrow> nat list \<Rightarrow> nat list \<times> bool list \<times> nat list" where
  "pop_loop v [] marks part = ([], marks, part)"
| "pop_loop v (w # st) marks part =
     (if w = v then (st, marks[w := False], part @ [w]) else pop_loop v st (marks[w := False]) (part @ [w]))"

definition pop_scc :: "nat \<Rightarrow> TarjanState \<Rightarrow> TarjanState" where
  "pop_scc v s = (case pop_loop v (scc_stack s) (on_stack s) [] of
     (st, marks, part) \<Rightarrow> s\<lparr>scc_stack := st, on_stack := marks, sccs := sccs s @ [part]\<rparr>)"

definition lower :: "nat \<Rightarrow> int \<Rightarrow> TarjanState \<Rightarrow> TarjanState" where
  "lower v x s = s\<lparr>lowlink := (lowlink s)[v := min (lowlink s ! v) x]\<rparr>"

fun dfs_step :: "nat list list \<Rightarrow> (nat \<times> nat) list \<Rightarrow> TarjanState \<Rightarrow> (nat \<times> nat) list \<times> TarjanState" where
  "dfs_step adj [] s = ([], s)"
| "dfs_step adj ((v, i) # rest) s =
     (if i < length (adj ! v)
      then let w = adj ! v ! i in
        if index s ! w = -1 then ((w, 0) # (v, i + 1) # rest, visit w s)
        else if on_stack s ! w then ((v, i + 1) # rest, lower v (index s ! w) s)
        else ((v, i + 1) # rest, s)
      else let t = (if lowlink s ! v = index s ! v then pop_scc v s else s) in
        (rest, case rest of [] \<Rightarrow> t | (parent, j) # _ \<Rightarrow> lower parent (lowlink t ! v) t))"

partial_function (option) dfs_loop :: "nat list list \<Rightarrow> (nat \<times> nat) list \<Rightarrow> TarjanState \<Rightarrow> TarjanState option" where
  "dfs_loop adj work s = (case work of [] \<Rightarrow> Some s | _ \<Rightarrow> (case dfs_step adj work s of (work', s') \<Rightarrow> dfs_loop adj work' s'))"

declare dfs_loop.simps [code]

definition dfs_iterative :: "nat \<Rightarrow> nat list list \<Rightarrow> TarjanState \<Rightarrow> TarjanState option" where
  "dfs_iterative start adj s = dfs_loop adj [(start, 0)] (visit start s)"

fun tarjan_from :: "nat list list \<Rightarrow> nat list \<Rightarrow> TarjanState \<Rightarrow> TarjanState option" where
  "tarjan_from adj [] s = Some s"
| "tarjan_from adj (v # vs) s =
     (if index s ! v \<noteq> -1 then tarjan_from adj vs s
      else case dfs_iterative v adj s of None \<Rightarrow> None | Some t \<Rightarrow> tarjan_from adj vs t)"

definition tarjan_start :: "nat \<Rightarrow> TarjanState" where
  "tarjan_start n = \<lparr>index = replicate n (-1), lowlink = replicate n (-1), on_stack = replicate n False,
     scc_stack = [], sccs = [], counter = 0\<rparr>"

definition tarjan_scc :: "nat list list \<Rightarrow> nat list list option" where
  "tarjan_scc adj = map_option sccs (tarjan_from adj [0..<length adj] (tarjan_start (length adj)))"

section \<open>Reachability\<close>

definition edges_of :: "nat list list \<Rightarrow> (nat \<times> nat) set" where
  "edges_of adj = {(u, w). u < length adj \<and> w \<in> set (adj ! u)}"

definition scc_of :: "('a \<times> 'a) set \<Rightarrow> 'a \<Rightarrow> 'a set" where
  "scc_of E v = {w. (v, w) \<in> E\<^sup>* \<and> (w, v) \<in> E\<^sup>*}"

definition graph_ok :: "nat list list \<Rightarrow> bool" where
  "graph_ok adj \<longleftrightarrow> list_all (list_all (\<lambda>w. w < length adj)) adj"

lemma edges_of_range: "graph_ok adj \<Longrightarrow> (u, w) \<in> edges_of adj \<Longrightarrow> u < length adj \<and> w < length adj"
  by (auto simp: graph_ok_def edges_of_def list_all_length in_set_conv_nth)

lemma scc_of_same: "w \<in> scc_of E v \<Longrightarrow> scc_of E w = scc_of E v"
  by (auto simp: scc_of_def intro: rtrancl_trans)

section \<open>The invariant of the search\<close>

text \<open>\<open>I\<close> and \<open>L\<close> are the two arrays, \<open>st\<close> the stack, \<open>gray\<close> the nodes of the work list, \<open>seen\<close> the edges
  looked at and \<open>R\<close> the nodes of finished components. A gray node is responsible for the nodes between it and
  the next gray node on the stack: its \<open>lowlink\<close> bounds the edges that lead out of them.\<close>

definition between :: "(nat \<Rightarrow> int) \<Rightarrow> nat list \<Rightarrow> nat \<Rightarrow> nat \<Rightarrow> bool" where
  "between I gray v u \<longleftrightarrow> I v \<le> I u \<and> (\<forall>g \<in> set gray. I v < I g \<longrightarrow> I u < I g)"

definition order_inv where
  "order_inv I st gray R \<longleftrightarrow> sorted_wrt (\<lambda>a b. I b < (I a :: int)) st \<and> sorted_wrt (\<lambda>a b. I b < I a) gray
     \<and> set gray \<subseteq> set st \<and> set st \<inter> R = {} \<and> (\<forall>u \<in> set st. 0 \<le> I u)"

definition edge_inv where
  "edge_inv E seen st gray R \<longleftrightarrow> seen \<subseteq> E \<and> (\<forall>u w. (u, w) \<in> seen \<longrightarrow> u \<in> set st \<union> R \<and> w \<in> set st \<union> R)
     \<and> (\<forall>u w. u \<in> set st - set gray \<longrightarrow> (u, w) \<in> E \<longrightarrow> (u, w) \<in> seen) \<and> (\<forall>u w. (u, w) \<in> E \<longrightarrow> u \<in> R \<longrightarrow> w \<in> R)"

definition low_inv where
  "low_inv E seen I L st gray \<longleftrightarrow>
     (\<forall>v \<in> set gray. L v \<le> I v \<and> (\<exists>x \<in> set st. I x = (L v :: int) \<and> (v, x) \<in> E\<^sup>*))
     \<and> (\<forall>v \<in> set gray. \<forall>u \<in> set st. \<forall>w \<in> set st. between I gray v u \<longrightarrow> (u, w) \<in> seen \<longrightarrow> L v \<le> I w)"

definition reach_inv where
  "reach_inv E I st gray \<longleftrightarrow> (\<forall>u \<in> set st - set gray. \<exists>x \<in> set st. (I x :: int) < I u \<and> (u, x) \<in> E\<^sup>*)
     \<and> (\<forall>v \<in> set gray. \<forall>u \<in> set st. I v \<le> I u \<longrightarrow> (v, u) \<in> E\<^sup>*)"

definition scc_inv where
  "scc_inv E seen I L st gray R \<longleftrightarrow>
     order_inv I st gray R \<and> edge_inv E seen st gray R \<and> low_inv E seen I L st gray \<and> reach_inv E I st gray"

lemma scc_invI:
  "order_inv I st gray R \<Longrightarrow> edge_inv E seen st gray R \<Longrightarrow> low_inv E seen I L st gray \<Longrightarrow> reach_inv E I st gray
   \<Longrightarrow> scc_inv E seen I L st gray R"
  by (simp add: scc_inv_def)

lemma scc_invD:
  assumes "scc_inv E seen I L st gray R"
  shows "order_inv I st gray R" "edge_inv E seen st gray R" "low_inv E seen I L st gray" "reach_inv E I st gray"
  using assms by (simp_all add: scc_inv_def)

lemma index_inj: "sorted_wrt (\<lambda>a b. I b < (I a :: int)) st \<Longrightarrow> a \<in> set st \<Longrightarrow> b \<in> set st \<Longrightarrow> I a = I b \<Longrightarrow> a = b"
  by (induction st) auto

lemma stack_reaches_gray:
  assumes "order_inv I st gray R" "reach_inv E I st gray" "u \<in> set st"
  shows "\<exists>g \<in> set gray. I g \<le> I u \<and> (u, g) \<in> E\<^sup>*"
  using assms(3)
proof (induction "nat (I u)" arbitrary: u rule: less_induct)
  case less
  show ?case
  proof (cases "u \<in> set gray")
    case False
    with less.prems assms(2) obtain x where x: "x \<in> set st" "I x < I u" "(u, x) \<in> E\<^sup>*" unfolding reach_inv_def by blast
    have "0 \<le> I x" using assms(1) x(1) by (auto simp: order_inv_def)
    then obtain g where "g \<in> set gray" "I g \<le> I x" "(x, g) \<in> E\<^sup>*" using less.hyps [of x] x by auto
    then show ?thesis using x by (auto intro!: bexI [of _ g] intro: rtrancl_trans)
  qed auto
qed

text \<open>An edge to a finished component changes nothing; an edge to a node of the stack lowers the top gray node.\<close>

lemma scc_inv_edge:
  assumes inv: "scc_inv E seen I L st (v # gray) R" and e: "(v, w) \<in> E" and w: "w \<in> set st \<union> R"
    and L': "L' = (if w \<in> set st then L(v := min (L v) (I w)) else L)"
  shows "scc_inv E (insert (v, w) seen) I L' st (v # gray) R"
proof (rule scc_invI)
  note D = scc_invD [OF inv]
  show "order_inv I st (v # gray) R" "reach_inv E I st (v # gray)" using D by auto
  have v: "v \<in> set st" "v \<notin> set gray" using D(1) by (auto simp: order_inv_def)
  show "edge_inv E (insert (v, w) seen) st (v # gray) R" using D(2) e w v unfolding edge_inv_def by auto
  show "low_inv E (insert (v, w) seen) I L' st (v # gray)" unfolding low_inv_def
  proof (intro conjI ballI allI impI)
    fix x assume x: "x \<in> set (v # gray)"
    have old: "L x \<le> I x" "\<exists>y \<in> set st. I y = L x \<and> (x, y) \<in> E\<^sup>*" using D(3) x by (auto simp: low_inv_def)
    show "L' x \<le> I x" using old L' by auto
    show "\<exists>y \<in> set st. I y = L' x \<and> (x, y) \<in> E\<^sup>*"
      using old e by (cases "x = v") (auto simp: L' min_def intro: r_into_rtrancl)
  next
    fix x u y
    assume a: "x \<in> set (v # gray)" "u \<in> set st" "y \<in> set st" "between I (v # gray) x u" "(u, y) \<in> insert (v, w) seen"
    show "L' x \<le> I y"
    proof (cases "(u, y) \<in> seen")
      case True
      then have "L x \<le> I y" using D(3) a unfolding low_inv_def by blast
      then show ?thesis by (auto simp: L')
    next
      case False
      then have uy: "u = v" "y = w" using a by auto
      then have "\<not> I x < I v" using a(4) by (auto simp: between_def)
      moreover have "I x \<le> I v" using a(4) uy by (simp add: between_def)
      ultimately have "x = v" using index_inj [of I st x v] a(1) D(1) v by (auto simp: order_inv_def)
      then show ?thesis using uy a(3) by (simp add: L')
    qed
  qed
qed

lemma sorted_wrt_fresh:
  "w \<notin> set xs \<Longrightarrow> sorted_wrt (\<lambda>a b. (I(w := c)) b < (I(w := c)) (a :: nat)) xs \<longleftrightarrow> sorted_wrt (\<lambda>a b. I b < (I a :: int)) xs"
  by (induction xs) auto

lemma scc_inv_visit:
  assumes inv: "scc_inv E seen I L st (v # gray) R" and e: "(v, w) \<in> E" and w: "w \<notin> set st \<union> R"
    and c: "0 \<le> c" "\<forall>u \<in> set st. I u < c"
  shows "scc_inv E (insert (v, w) seen) (I(w := c)) (L(w := c)) (w # st) (w # v # gray) R"
proof (rule scc_invI)
  note D = scc_invD [OF inv]
  have gr: "set (v # gray) \<subseteq> set st" using D(1) by (simp add: order_inv_def)
  then have old: "\<And>x. x \<in> set (v # gray) \<Longrightarrow> x \<noteq> w" "\<And>x. x \<in> set st \<Longrightarrow> x \<noteq> w" using w by auto
  show "order_inv (I(w := c)) (w # st) (w # v # gray) R"
  proof -
    have "sorted_wrt (\<lambda>a b. (I(w := c)) b < (I(w := c)) a) st"
      using D(1) w by (subst sorted_wrt_fresh) (auto simp: order_inv_def)
    moreover have "sorted_wrt (\<lambda>a b. (I(w := c)) b < (I(w := c)) a) (v # gray)"
      using D(1) w gr by (subst sorted_wrt_fresh) (auto simp: order_inv_def)
    ultimately show ?thesis using D(1) w c old gr unfolding order_inv_def by auto
  qed
  show "edge_inv E (insert (v, w) seen) (w # st) (w # v # gray) R" using D(2) e w gr unfolding edge_inv_def by auto
  show "low_inv E (insert (v, w) seen) (I(w := c)) (L(w := c)) (w # st) (w # v # gray)" unfolding low_inv_def
  proof (intro conjI ballI allI impI)
    fix x assume x: "x \<in> set (w # v # gray)"
    show "(L(w := c)) x \<le> (I(w := c)) x" using D(3) x by (auto simp: low_inv_def)
    show "\<exists>y \<in> set (w # st). (I(w := c)) y = (L(w := c)) x \<and> (x, y) \<in> E\<^sup>*"
    proof (cases "x = w")
      case False
      then obtain y where y: "y \<in> set st" "I y = L x" "(x, y) \<in> E\<^sup>*" using D(3) x by (auto simp: low_inv_def)
      then show ?thesis using False old(2) [of y] by auto
    qed auto
  next
    fix x u y
    assume a: "x \<in> set (w # v # gray)" "u \<in> set (w # st)" "y \<in> set (w # st)"
      "between (I(w := c)) (w # v # gray) x u" "(u, y) \<in> insert (v, w) seen"
    have u: "u \<in> set st" "u \<noteq> w" using D(2) a(5) w gr a(2) old(2) unfolding edge_inv_def by auto
    have "x \<noteq> w" using a(4) c(2) u by (auto simp: between_def)
    then have x: "x \<in> set (v # gray)" "x \<noteq> w" using a(1) by auto
    have low: "L x \<le> I x" "I x < c" using D(3) x(1) c(2) gr by (auto simp: low_inv_def)
    show "(L(w := c)) x \<le> (I(w := c)) y"
    proof (cases "y = w")
      case False
      then have s: "(u, y) \<in> seen" "y \<in> set st" using a by auto
      have "between I (v # gray) x u"
        using a(4) x u old(1) unfolding between_def by auto
      then have "L x \<le> I y" using D(3) s u(1) x(1) unfolding low_inv_def by blast
      then show ?thesis using x False by simp
    qed (use low x in auto)
  qed
  have vw: "(x, w) \<in> E\<^sup>*" if "x \<in> set (v # gray)" for x
  proof -
    have "I x \<le> I v" using D(1) that by (auto simp: order_inv_def)
    then have "(x, v) \<in> E\<^sup>*" using D(4) that gr by (auto simp: reach_inv_def)
    then show ?thesis using e by auto
  qed
  show "reach_inv E (I(w := c)) (w # st) (w # v # gray)" unfolding reach_inv_def
  proof (intro conjI ballI impI)
    fix u assume "u \<in> set (w # st) - set (w # v # gray)"
    then have u: "u \<in> set st - set (v # gray)" "u \<noteq> w" by auto
    then obtain x where "x \<in> set st" "I x < I u" "(u, x) \<in> E\<^sup>*" using D(4) unfolding reach_inv_def by blast
    then show "\<exists>x \<in> set (w # st). (I(w := c)) x < (I(w := c)) u \<and> (u, x) \<in> E\<^sup>*" using u old(2) [of x] by auto
  next
    fix x u assume a: "x \<in> set (w # v # gray)" "u \<in> set (w # st)" "(I(w := c)) x \<le> (I(w := c)) u"
    show "(x, u) \<in> E\<^sup>*"
    proof (cases "x = w")
      case True
      then have "u = w" using a(2,3) c(2) by (auto split: if_splits)
      then show ?thesis using True by simp
    next
      case False
      then have x: "x \<in> set (v # gray)" using a(1) by auto
      show ?thesis
      proof (cases "u = w")
        case True
        then show ?thesis using vw [OF x] by simp
      next
        case False
        then show ?thesis using D(4) x a \<open>x \<noteq> w\<close> unfolding reach_inv_def by auto
      qed
    qed
  qed
qed

text \<open>The top gray node is finished and stays on the stack: the next gray node takes over its nodes.\<close>

lemma scc_inv_finish:
  assumes inv: "scc_inv E seen I L st (v # gray) R" and full: "\<forall>w. (v, w) \<in> E \<longrightarrow> (v, w) \<in> seen" and ne: "L v \<noteq> I v"
  shows "\<exists>p rest. gray = p # rest \<and> scc_inv E seen I (L(p := min (L p) (L v))) st gray R"
proof -
  note D = scc_invD [OF inv]
  have low: "L v < I v" using D(3) ne by (auto simp: low_inv_def)
  obtain x where x: "x \<in> set st" "I x = L v" "(v, x) \<in> E\<^sup>*" using D(3) by (auto simp: low_inv_def)
  obtain g where g: "g \<in> set (v # gray)" "I g \<le> I x" using stack_reaches_gray [OF D(1,4) x(1)] by blast
  then have "g \<in> set gray" using x low by auto
  then obtain p rest where p: "gray = p # rest" by (cases gray) auto
  have pst: "p \<in> set st" "v \<in> set st" "I p < I v" "p \<noteq> v" using D(1) p by (auto simp: order_inv_def)
  have rear: "I h \<le> I p" if "h \<in> set gray" for h using D(1) that p by (auto simp: order_inv_def)
  have pv: "(p, v) \<in> E\<^sup>*" using D(4) p pst by (auto simp: reach_inv_def)
  have "scc_inv E seen I (L(p := min (L p) (L v))) st gray R"
  proof (rule scc_invI)
    show "order_inv I st gray R" using D(1) by (auto simp: order_inv_def)
    show "edge_inv E seen st gray R" using D(2) full unfolding edge_inv_def by auto
    show "reach_inv E I st gray" unfolding reach_inv_def
    proof (intro conjI ballI impI)
      fix u assume u: "u \<in> set st - set gray"
      show "\<exists>y \<in> set st. I y < I u \<and> (u, y) \<in> E\<^sup>*"
      proof (cases "u = v")
        case True
        then show ?thesis using x low by (intro bexI [of _ x]) auto
      next
        case False
        then show ?thesis using D(4) u unfolding reach_inv_def by auto
      qed
    qed (use D(4) in \<open>auto simp: reach_inv_def\<close>)
    show "low_inv E seen I (L(p := min (L p) (L v))) st gray" unfolding low_inv_def
    proof (intro conjI ballI allI impI)
      fix h assume h: "h \<in> set gray"
      have old: "L h \<le> I h" "\<exists>y \<in> set st. I y = L h \<and> (h, y) \<in> E\<^sup>*" using D(3) h by (auto simp: low_inv_def)
      show "(L(p := min (L p) (L v))) h \<le> I h" using old by auto
      show "\<exists>y \<in> set st. I y = (L(p := min (L p) (L v))) h \<and> (h, y) \<in> E\<^sup>*"
        using old x pv by (cases "h = p") (auto simp: min_def intro: rtrancl_trans)
    next
      fix h u y
      assume a: "h \<in> set gray" "u \<in> set st" "y \<in> set st" "between I gray h u" "(u, y) \<in> seen"
      show "(L(p := min (L p) (L v))) h \<le> I y"
      proof (cases "between I (v # gray) h u")
        case True
        then have "L h \<le> I y" using D(3) a unfolding low_inv_def by auto
        then show ?thesis by auto
      next
        case False
        then have u: "I v \<le> I u" "I h < I v" using a(4) by (auto simp: between_def)
        have "between I (v # gray) v u" using u rear pst unfolding between_def by (auto dest: rear)
        then have v: "L v \<le> I y" using D(3) a unfolding low_inv_def by auto
        have "\<not> I h < I p" using a(4) p u pst by (auto simp: between_def)
        then have "I h = I p" using rear [OF a(1)] by simp
        then have "h = p" using index_inj [of I st h p] a(1) pst D(1) by (auto simp: order_inv_def)
        then show ?thesis using v by simp
      qed
    qed
  qed
  then show ?thesis using p by blast
qed

text \<open>The top gray node is finished and is the first of its component: the component is popped.\<close>

lemma scc_inv_pop:
  assumes inv: "scc_inv E seen I L st (v # gray) R" and full: "\<forall>w. (v, w) \<in> E \<longrightarrow> (v, w) \<in> seen" and eq: "L v = I v"
    and C: "C = {u \<in> set st. I v \<le> I u}"
  shows "C = scc_of E v" "scc_inv E seen I L (filter (\<lambda>u. I u < I v) st) gray (R \<union> C)"
proof -
  note D = scc_invD [OF inv]
  have v: "v \<in> set st" "\<And>g. g \<in> set gray \<Longrightarrow> I g < I v" "set gray \<subseteq> set st" "v \<notin> R" using D(1) by (auto simp: order_inv_def)
  have rest: "set st = set (filter (\<lambda>u. I u < I v) st) \<union> C" using C by auto
  have out: "w \<in> C \<union> R" if u: "u \<in> C" and e: "(u, w) \<in> E" for u w
  proof -
    have "u \<notin> set gray" using v(2) [of u] u C by auto
    then have s: "(u, w) \<in> seen" using D(2) full e u C unfolding edge_inv_def by (cases "u = v") auto
    then have w: "w \<in> set st \<union> R" using D(2) unfolding edge_inv_def by blast
    have "between I (v # gray) v u" using u C v(2) by (force simp: between_def)
    then have "I v \<le> I w" if "w \<in> set st" using D(3) that s u C eq unfolding low_inv_def by auto
    then show ?thesis using w C by auto
  qed
  have closedR: "y \<in> R" if "(x, y) \<in> E\<^sup>*" "x \<in> R" for x y
    using that D(2) by induction (auto simp: edge_inv_def)
  have closedCR: "y \<in> C \<union> R" if "(x, y) \<in> E\<^sup>*" "x \<in> C \<union> R" for x y
    using that
  proof induction
    case (step y z)
    then show ?case using out D(2) unfolding edge_inv_def by blast
  qed auto
  show "C = scc_of E v"
  proof (intro set_eqI iffI)
    fix u assume "u \<in> C"
    then have u: "u \<in> set st" "I v \<le> I u" using C by auto
    obtain g where g: "g \<in> set (v # gray)" "(u, g) \<in> E\<^sup>*" using stack_reaches_gray [OF D(1,4) u(1)] by blast
    have "I g \<le> I v" using g(1) v(2) by force
    then have "(g, v) \<in> E\<^sup>*" using D(4) g(1) v(1) by (auto simp: reach_inv_def)
    moreover have "(v, u) \<in> E\<^sup>*" using D(4) u by (auto simp: reach_inv_def)
    ultimately show "u \<in> scc_of E v" using g(2) by (auto simp: scc_of_def intro: rtrancl_trans)
  next
    fix u assume "u \<in> scc_of E v"
    then have u: "(v, u) \<in> E\<^sup>*" "(u, v) \<in> E\<^sup>*" by (auto simp: scc_of_def)
    have "v \<in> C" using v(1) C by simp
    then have "u \<in> C \<union> R" using closedCR [OF u(1)] by simp
    then show "u \<in> C" using closedR [OF u(2)] v(4) by auto
  qed
  show "scc_inv E seen I L (filter (\<lambda>u. I u < I v) st) gray (R \<union> C)"
  proof (rule scc_invI)
    show "order_inv I (filter (\<lambda>u. I u < I v) st) gray (R \<union> C)"
      using D(1) v(2) C by (auto simp: order_inv_def sorted_wrt_filter)
    show "edge_inv E seen (filter (\<lambda>u. I u < I v) st) gray (R \<union> C)" unfolding edge_inv_def
    proof (intro conjI allI impI)
      show "seen \<subseteq> E" using D(2) by (simp add: edge_inv_def)
      fix u w
      show "u \<in> set (filter (\<lambda>u. I u < I v) st) \<union> (R \<union> C)" "w \<in> set (filter (\<lambda>u. I u < I v) st) \<union> (R \<union> C)"
        if "(u, w) \<in> seen" using D(2) that rest unfolding edge_inv_def by blast+
      show "(u, w) \<in> seen" if "u \<in> set (filter (\<lambda>u. I u < I v) st) - set gray" "(u, w) \<in> E"
        using D(2) that unfolding edge_inv_def by auto
      show "w \<in> R \<union> C" if "(u, w) \<in> E" "u \<in> R \<union> C" using closedCR [OF r_into_rtrancl [OF that(1)]] that(2) by auto
    qed
    show "low_inv E seen I L (filter (\<lambda>u. I u < I v) st) gray" unfolding low_inv_def
    proof (intro conjI ballI allI impI)
      fix x assume x: "x \<in> set gray"
      then show "L x \<le> I x" using D(3) by (auto simp: low_inv_def)
      moreover obtain y where "y \<in> set st" "I y = L x" "(x, y) \<in> E\<^sup>*" using D(3) x by (auto simp: low_inv_def)
      ultimately show "\<exists>y \<in> set (filter (\<lambda>u. I u < I v) st). I y = L x \<and> (x, y) \<in> E\<^sup>*" using v(2) [OF x] by auto
    next
      fix x u w assume a: "x \<in> set gray" "u \<in> set (filter (\<lambda>u. I u < I v) st)" "w \<in> set (filter (\<lambda>u. I u < I v) st)"
        "between I gray x u" "(u, w) \<in> seen"
      then have "between I (v # gray) x u" by (auto simp: between_def)
      then show "L x \<le> I w" using D(3) a unfolding low_inv_def by auto
    qed
    show "reach_inv E I (filter (\<lambda>u. I u < I v) st) gray" unfolding reach_inv_def
    proof (intro conjI ballI impI)
      fix u assume u: "u \<in> set (filter (\<lambda>u. I u < I v) st) - set gray"
      then have "u \<in> set st - set (v # gray)" by auto
      then obtain x where "x \<in> set st" "I x < I u" "(u, x) \<in> E\<^sup>*" using D(4) unfolding reach_inv_def by blast
      then show "\<exists>x \<in> set (filter (\<lambda>u. I u < I v) st). I x < I u \<and> (u, x) \<in> E\<^sup>*" using u by auto
    qed (use D(4) in \<open>auto simp: reach_inv_def\<close>)
  qed
qed

lemma scc_inv_start:
  assumes "\<forall>u w. (u, w) \<in> E \<longrightarrow> u \<in> R \<longrightarrow> w \<in> R" "seen \<subseteq> E" "\<forall>u w. (u, w) \<in> seen \<longrightarrow> u \<in> R" "v \<notin> R" "0 \<le> I v"
  shows "scc_inv E seen I (L(v := I v)) [v] [v] R"
proof -
  have "edge_inv E seen [v] [v] R" using assms(1-3) unfolding edge_inv_def by fastforce
  then show ?thesis using assms(4,5) by (auto simp: scc_inv_def order_inv_def low_inv_def reach_inv_def between_def)
qed

lemma scc_inv_end:
  assumes "scc_inv E seen I L st [] R"
  shows "st = []"
proof (rule ccontr)
  assume "st \<noteq> []"
  then show False using stack_reaches_gray [OF scc_invD(1,4) [OF assms], of "hd st"] by auto
qed

section \<open>The arrays\<close>

definition seen_edges :: "nat list list \<Rightarrow> (nat \<times> nat) list \<Rightarrow> int list \<Rightarrow> (nat \<times> nat) set" where
  "seen_edges adj work idx = {(u, w). u < length adj \<and> idx ! u \<noteq> -1 \<and>
     w \<in> set (take (case map_of work u of Some i \<Rightarrow> i | None \<Rightarrow> length (adj ! u)) (adj ! u))}"

definition finished :: "TarjanState \<Rightarrow> nat set" where
  "finished s = set (concat (sccs s))"

definition arrays_ok :: "nat \<Rightarrow> TarjanState \<Rightarrow> bool" where
  "arrays_ok n s \<longleftrightarrow> length (index s) = n \<and> length (lowlink s) = n \<and> length (on_stack s) = n \<and> 0 \<le> counter s
     \<and> (\<forall>u < n. index s ! u < counter s \<and> (index s ! u \<noteq> -1 \<longleftrightarrow> u \<in> set (scc_stack s) \<union> finished s))
     \<and> (\<forall>u < n. on_stack s ! u \<longleftrightarrow> u \<in> set (scc_stack s)) \<and> set (scc_stack s) \<union> finished s \<subseteq> {..<n}"

definition parts_ok :: "nat list list \<Rightarrow> nat list list \<Rightarrow> bool" where
  "parts_ok adj parts \<longleftrightarrow> distinct (concat parts) \<and> (\<forall>C \<in> set parts. C \<noteq> [] \<and> (\<forall>v \<in> set C. set C = scc_of (edges_of adj) v))"

definition tarjan_inv :: "nat list list \<Rightarrow> (nat \<times> nat) list \<Rightarrow> TarjanState \<Rightarrow> bool" where
  "tarjan_inv adj work s \<longleftrightarrow> arrays_ok (length adj) s \<and> parts_ok adj (sccs s) \<and>
     scc_inv (edges_of adj) (seen_edges adj work (index s)) ((!) (index s)) ((!) (lowlink s)) (scc_stack s)
       (map fst work) (finished s)"

lemma tarjan_invD:
  assumes "tarjan_inv adj work s"
  shows "arrays_ok (length adj) s" "parts_ok adj (sccs s)"
    "scc_inv (edges_of adj) (seen_edges adj work (index s)) ((!) (index s)) ((!) (lowlink s)) (scc_stack s)
       (map fst work) (finished s)"
  using assms by (simp_all add: tarjan_inv_def)

lemma nth_update_fun: "v < length xs \<Longrightarrow> (!) (xs[v := c]) = ((!) xs)(v := c)"
  by (auto simp: fun_eq_iff nth_list_update)

lemma seen_advance:
  assumes "v < length adj" "idx ! v \<noteq> -1" "i < length (adj ! v)"
  shows "seen_edges adj ((v, i + 1) # rest) idx = insert (v, adj ! v ! i) (seen_edges adj ((v, i) # rest) idx)"
  using assms by (auto simp: seen_edges_def take_Suc_conv_app_nth split: if_splits)

lemma seen_visit:
  assumes "w < length adj" "idx ! w = -1" "length idx = length adj"
  shows "seen_edges adj ((w, 0) # work) (idx[w := c]) = seen_edges adj work idx"
  using assms by (auto simp: seen_edges_def nth_list_update split: if_splits)

lemma seen_finish:
  assumes "length (adj ! v) \<le> i" "v \<notin> fst ` set rest"
  shows "seen_edges adj rest idx = seen_edges adj ((v, i) # rest) idx"
proof -
  have "map_of rest v = None" using assms(2) by (simp add: map_of_eq_None_iff)
  then show ?thesis using assms by (auto simp: seen_edges_def split: if_splits)
qed

lemma nth_unmark: "u < length marks \<Longrightarrow> marks[v := False] ! u \<longleftrightarrow> marks ! u \<and> u \<noteq> v"
  by (cases "u = v") auto

lemma pop_loop_split:
  assumes "v \<in> set st"
  shows "\<exists>front rear marks'. st = front @ v # rear \<and> v \<notin> set front
    \<and> pop_loop v st marks part = (rear, marks', part @ front @ [v]) \<and> length marks' = length marks
    \<and> (\<forall>u < length marks. marks' ! u \<longleftrightarrow> marks ! u \<and> u \<notin> set (front @ [v]))"
  using assms
proof (induction v st marks part rule: pop_loop.induct)
  case (2 v w st marks part)
  show ?case
  proof (cases "w = v")
    case True
    show ?thesis unfolding True
      by (rule exI [of _ "[]"], rule exI [of _ st], rule exI [of _ "marks[v := False]"]) (auto simp: nth_unmark)
  next
    case False
    then have "v \<in> set st" using 2 by simp
    from 2(1) [OF False this] obtain front rear marks' where
      "st = front @ v # rear" "v \<notin> set front"
      "pop_loop v st (marks[w := False]) (part @ [w]) = (rear, marks', (part @ [w]) @ front @ [v])"
      "length marks' = length (marks[w := False])"
      "\<forall>u < length (marks[w := False]). marks' ! u \<longleftrightarrow> marks[w := False] ! u \<and> u \<notin> set (front @ [v])" by blast
    then show ?thesis using False
      by - (rule exI [of _ "w # front"], rule exI [of _ rear], rule exI [of _ marks'], auto simp: nth_unmark)
  qed
qed simp

lemma top_gray:
  assumes "tarjan_inv adj ((v, i) # rest) s"
  shows "v < length adj" "index s ! v \<noteq> -1" "v \<in> set (scc_stack s)" "v \<notin> fst ` set rest" "lowlink s ! v \<le> index s ! v"
    "fst ` set rest \<subseteq> set (scc_stack s)"
proof -
  note D = tarjan_invD [OF assms]
  have o: "order_inv ((!) (index s)) (scc_stack s) (v # map fst rest) (finished s)" using scc_invD(1) [OF D(3)] by simp
  show st: "v \<in> set (scc_stack s)" using o by (simp add: order_inv_def)
  then show "v < length adj" "index s ! v \<noteq> -1" using D(1) by (auto simp: arrays_ok_def)
  show "v \<notin> fst ` set rest" using o by (auto simp: order_inv_def)
  show "fst ` set rest \<subseteq> set (scc_stack s)" using o by (auto simp: order_inv_def)
  show "lowlink s ! v \<le> index s ! v" using scc_invD(3) [OF D(3)] by (simp add: low_inv_def)
qed

lemma step_edge:
  assumes inv: "tarjan_inv adj ((v, i) # rest) s" and i: "i < length (adj ! v)" and w: "w = adj ! v ! i"
    and ok: "graph_ok adj" and vis: "index s ! w \<noteq> -1"
  shows "tarjan_inv adj ((v, i + 1) # rest) (if on_stack s ! w then lower v (index s ! w) s else s)"
proof -
  note D = tarjan_invD [OF inv] and T = top_gray [OF inv]
  have e: "(v, w) \<in> edges_of adj" using T(1) i w by (auto simp: edges_of_def)
  then have wn: "w < length adj" using edges_of_range [OF ok] by blast
  have w2: "w \<in> set (scc_stack s) \<union> finished s" "on_stack s ! w \<longleftrightarrow> w \<in> set (scc_stack s)"
    using D(1) wn vis by (auto simp: arrays_ok_def)
  have lv: "v < length (lowlink s)" using D(1) T(1) by (simp add: arrays_ok_def)
  have L: "(!) (lowlink (if on_stack s ! w then lower v (index s ! w) s else s))
      = (if w \<in> set (scc_stack s) then ((!) (lowlink s))(v := min (lowlink s ! v) (index s ! w)) else (!) (lowlink s))"
    using w2 nth_update_fun [OF lv] by (simp add: lower_def)
  have "scc_inv (edges_of adj) (insert (v, w) (seen_edges adj ((v, i) # rest) (index s))) ((!) (index s))
    ((!) (lowlink (if on_stack s ! w then lower v (index s ! w) s else s))) (scc_stack s) (v # map fst rest) (finished s)"
    by (rule scc_inv_edge [where L = "(!) (lowlink s)", OF _ e]) (use D(3) w2(1) L in simp_all)
  moreover have "seen_edges adj ((v, i + 1) # rest) (index s) = insert (v, w) (seen_edges adj ((v, i) # rest) (index s))"
    using seen_advance [OF T(1,2) i, of rest] w by simp
  ultimately show ?thesis using D(1,2) by (simp add: tarjan_inv_def lower_def finished_def arrays_ok_def split: if_splits)
qed

lemma step_visit:
  assumes inv: "tarjan_inv adj ((v, i) # rest) s" and i: "i < length (adj ! v)" and w: "w = adj ! v ! i"
    and ok: "graph_ok adj" and vis: "index s ! w = -1"
  shows "tarjan_inv adj ((w, 0) # (v, i + 1) # rest) (visit w s)"
proof -
  note D = tarjan_invD [OF inv] and T = top_gray [OF inv]
  have e: "(v, w) \<in> edges_of adj" using T(1) i w by (auto simp: edges_of_def)
  then have wn: "w < length adj" using edges_of_range [OF ok] by blast
  have w2: "w \<notin> set (scc_stack s) \<union> finished s" using D(1) wn vis by (auto simp: arrays_ok_def)
  have len: "w < length (index s)" "w < length (lowlink s)" using D(1) wn by (auto simp: arrays_ok_def)
  have c: "0 \<le> counter s" "\<forall>u \<in> set (scc_stack s). index s ! u < counter s" using D(1) by (auto simp: arrays_ok_def)
  have "scc_inv (edges_of adj) (insert (v, w) (seen_edges adj ((v, i) # rest) (index s))) (((!) (index s))(w := counter s))
    (((!) (lowlink s))(w := counter s)) (w # scc_stack s) (w # v # map fst rest) (finished s)"
    by (rule scc_inv_visit [OF _ e w2 c]) (use D(3) in simp)
  moreover have "seen_edges adj ((w, 0) # (v, i + 1) # rest) (index (visit w s))
      = insert (v, w) (seen_edges adj ((v, i) # rest) (index s))"
  proof -
    have "seen_edges adj ((w, 0) # (v, i + 1) # rest) (index (visit w s)) = seen_edges adj ((v, i + 1) # rest) (index s)"
      using seen_visit [OF wn vis, of "(v, i + 1) # rest" "counter s"] D(1) by (simp add: visit_def arrays_ok_def)
    then show ?thesis using seen_advance [OF T(1,2) i, of rest] w by simp
  qed
  moreover have "finished (visit w s) = finished s" "sccs (visit w s) = sccs s" by (simp_all add: finished_def visit_def)
  moreover have "arrays_ok (length adj) (visit w s)" using D(1) wn w2
    by (auto simp: arrays_ok_def visit_def nth_list_update finished_def)
  ultimately show ?thesis using D(2) by (simp add: tarjan_inv_def visit_def nth_update_fun [OF len(1)] nth_update_fun [OF len(2)])
qed

lemma finished_pop: "pop_loop v (scc_stack s) (on_stack s) [] = (st, marks, part) \<Longrightarrow> finished (pop_scc v s) = finished s \<union> set part"
  by (simp add: pop_scc_def finished_def)

lemma sorted_split_filter:
  assumes "sorted_wrt (\<lambda>a b. I b < (I a :: int)) (front @ v # rear)"
  shows "filter (\<lambda>u. I u < I v) (front @ v # rear) = rear" "{u \<in> set (front @ v # rear). I v \<le> I u} = set (front @ [v])"
proof -
  have "\<And>u. u \<in> set rear \<Longrightarrow> I u < I v" "\<And>u. u \<in> set front \<Longrightarrow> I v < I u" using assms by (auto simp: sorted_wrt_append)
  then show "filter (\<lambda>u. I u < I v) (front @ v # rear) = rear" "{u \<in> set (front @ v # rear). I v \<le> I u} = set (front @ [v])"
    by (fastforce simp: filter_id_conv filter_empty_conv)+
qed

lemma step_pop:
  assumes inv: "tarjan_inv adj ((v, i) # rest) s" and i: "length (adj ! v) \<le> i" and eq: "lowlink s ! v = index s ! v"
  shows "tarjan_inv adj rest (pop_scc v s)"
proof -
  note D = tarjan_invD [OF inv] and T = top_gray [OF inv]
  from pop_loop_split [OF T(3), of "on_stack s" "[]"] obtain front rear marks' where
    st: "scc_stack s = front @ v # rear" and p: "pop_loop v (scc_stack s) (on_stack s) [] = (rear, marks', [] @ front @ [v])"
    and m: "length marks' = length (on_stack s)" "\<forall>u < length (on_stack s). marks' ! u \<longleftrightarrow> on_stack s ! u \<and> u \<notin> set (front @ [v])"
    by blast
  have s': "pop_scc v s = s\<lparr>scc_stack := rear, on_stack := marks', sccs := sccs s @ [front @ [v]]\<rparr>" using p by (simp add: pop_scc_def)
  have o: "order_inv ((!) (index s)) (front @ v # rear) (v # map fst rest) (finished s)" using scc_invD(1) [OF D(3)] st by simp
  then have srt: "sorted_wrt (\<lambda>a b. index s ! b < index s ! a) (front @ v # rear)" by (simp add: order_inv_def)
  note F = sorted_split_filter [OF srt]
  have full: "\<forall>w. (v, w) \<in> edges_of adj \<longrightarrow> (v, w) \<in> seen_edges adj ((v, i) # rest) (index s)"
    using i T(1,2) by (auto simp: seen_edges_def edges_of_def)
  have pop: "set (front @ [v]) = scc_of (edges_of adj) v"
    "scc_inv (edges_of adj) (seen_edges adj ((v, i) # rest) (index s)) ((!) (index s)) ((!) (lowlink s)) rear
       (map fst rest) (finished s \<union> set (front @ [v]))"
    using scc_inv_pop [OF _ full, of "(!) (index s)" "(!) (lowlink s)" "scc_stack s" "map fst rest" "finished s" "set (front @ [v])"]
      D(3) eq F by (simp_all add: st)
  have dist: "distinct (front @ v # rear)" using srt
    by (metis (mono_tags, lifting) less_irrefl sorted_wrt_iff_nth_less distinct_conv_nth linorder_neqE_nat)
  have fin: "finished (pop_scc v s) = finished s \<union> set (front @ [v])" using finished_pop [OF p] by simp
  have disj: "set (front @ v # rear) \<inter> finished s = {}" using o by (simp add: order_inv_def)
  have "\<forall>x \<in> set (front @ [v]). set (front @ [v]) = scc_of (edges_of adj) x" using pop(1) scc_of_same by metis
  moreover have "distinct (concat (sccs s) @ front @ [v])" using D(2) dist disj by (auto simp: parts_ok_def finished_def)
  ultimately have "parts_ok adj (sccs (pop_scc v s))" using D(2) by (simp add: parts_ok_def s') (metis scc_of_same)
  moreover have "arrays_ok (length adj) (pop_scc v s)" using D(1) fin dist m unfolding arrays_ok_def
    by (auto simp: s' st)
  moreover have "seen_edges adj rest (index (pop_scc v s)) = seen_edges adj ((v, i) # rest) (index s)"
    using seen_finish [OF i T(4)] by (simp add: s')
  ultimately show ?thesis using pop(2) fin by (simp add: tarjan_inv_def) (simp add: s')
qed

lemma step_finish:
  assumes inv: "tarjan_inv adj ((v, i) # rest) s" and i: "length (adj ! v) \<le> i" and ne: "lowlink s ! v \<noteq> index s ! v"
  shows "\<exists>p j rest'. rest = (p, j) # rest' \<and> tarjan_inv adj rest (lower p (lowlink s ! v) s)"
proof -
  note D = tarjan_invD [OF inv] and T = top_gray [OF inv]
  have full: "\<forall>w. (v, w) \<in> edges_of adj \<longrightarrow> (v, w) \<in> seen_edges adj ((v, i) # rest) (index s)"
    using i T(1,2) by (auto simp: seen_edges_def edges_of_def)
  have top: "scc_inv (edges_of adj) (seen_edges adj ((v, i) # rest) (index s)) ((!) (index s)) ((!) (lowlink s)) (scc_stack s)
     (v # map fst rest) (finished s)" using D(3) by simp
  obtain p gray where p: "map fst rest = p # gray" and inv': "scc_inv (edges_of adj) (seen_edges adj ((v, i) # rest) (index s))
     ((!) (index s)) (((!) (lowlink s))(p := min (lowlink s ! p) (lowlink s ! v))) (scc_stack s) (map fst rest) (finished s)"
    using scc_inv_finish [OF top full ne] by (elim exE conjE) (rule that)
  then obtain j rest' where r: "rest = (p, j) # rest'" by (cases rest) auto
  have "p < length (lowlink s)" using T(6) r D(1) by (auto simp: arrays_ok_def)
  then have "(!) (lowlink (lower p (lowlink s ! v) s)) = ((!) (lowlink s))(p := min (lowlink s ! p) (lowlink s ! v))"
    by (simp add: lower_def nth_update_fun)
  moreover have "seen_edges adj rest (index s) = seen_edges adj ((v, i) # rest) (index s)" using seen_finish [OF i T(4)] .
  ultimately have "tarjan_inv adj rest (lower p (lowlink s ! v) s)"
    using inv' D(1,2) unfolding tarjan_inv_def by (simp add: lower_def finished_def arrays_ok_def)
  then show ?thesis using r by blast
qed

text \<open>After a component is popped, lowering the parent by the root's own number changes nothing.\<close>

lemma lower_same:
  assumes "tarjan_inv adj ((p, j) # rest) s" "lowlink s ! p \<le> x"
  shows "lower p x s = s"
  using assms by (simp add: lower_def min_absorb1)

section \<open>The loop ends\<close>

definition open_nodes :: "nat list list \<Rightarrow> int list \<Rightarrow> nat" where
  "open_nodes adj idx = (\<Sum>u | u < length adj \<and> idx ! u = -1. length (adj ! u) + 2)"

definition work_size :: "nat list list \<Rightarrow> (nat \<times> nat) list \<Rightarrow> nat" where
  "work_size adj work = (\<Sum>(v, i)\<leftarrow>work. Suc (length (adj ! v) - i))"

lemma open_nodes_visit:
  assumes "w < length adj" "length idx = length adj" "idx ! w = -1" "c \<noteq> -1"
  shows "open_nodes adj idx = open_nodes adj (idx[w := c]) + length (adj ! w) + 2"
proof -
  have "{u. u < length adj \<and> idx ! u = -1} = insert w {u. u < length adj \<and> idx[w := c] ! u = -1}"
    using assms by (auto simp: nth_list_update)
  moreover have "w \<notin> {u. u < length adj \<and> idx[w := c] ! u = -1}" using assms by simp
  ultimately show ?thesis by (simp add: open_nodes_def)
qed

lemma dfs_step_inv:
  assumes inv: "tarjan_inv adj ((v, i) # rest) s" and ok: "graph_ok adj" and st: "dfs_step adj ((v, i) # rest) s = (work', s')"
  shows "tarjan_inv adj work' s' \<and> open_nodes adj (index s') + work_size adj work' < open_nodes adj (index s) + work_size adj ((v, i) # rest)"
proof (cases "i < length (adj ! v)")
  case True
  let ?w = "adj ! v ! i"
  have D: "length (index s) = length adj" "0 \<le> counter s" using tarjan_invD(1) [OF inv] by (auto simp: arrays_ok_def)
  have w: "?w < length adj" using top_gray(1) [OF inv] True ok by (auto simp: graph_ok_def list_all_length)
  show ?thesis
  proof (cases "index s ! ?w = -1")
    case vis: True
    then have "work' = (?w, 0) # (v, i + 1) # rest" "s' = visit ?w s" using st True by (auto simp: Let_def)
    then show ?thesis
      using step_visit [OF inv True refl ok vis] open_nodes_visit [OF w D(1) vis, of "counter s"] D True
      by (auto simp: visit_def work_size_def)
  next
    case vis: False
    then have "work' = (v, i + 1) # rest" "s' = (if on_stack s ! ?w then lower v (index s ! ?w) s else s)"
      using st True by (auto simp: Let_def split: if_splits)
    then show ?thesis using step_edge [OF inv True refl ok vis] True by (auto simp: work_size_def lower_def)
  qed
next
  case False
  then have i: "length (adj ! v) \<le> i" by simp
  show ?thesis
  proof (cases "lowlink s ! v = index s ! v")
    case True
    have inv': "tarjan_inv adj rest (pop_scc v s)" using step_pop [OF inv i True] .
    have same: "index (pop_scc v s) = index s" "lowlink (pop_scc v s) = lowlink s"
      by (simp_all add: pop_scc_def split: prod.splits)
    have "s' = pop_scc v s"
    proof (cases rest)
      case (Cons q rest')
      obtain p j where q: "q = (p, j)" by (cases q)
      have "lowlink s ! p \<le> index s ! p" using top_gray(5) [of adj p j rest'] inv' Cons q same by metis
      moreover have "index s ! p < index s ! v"
        using scc_invD(1) [OF tarjan_invD(3) [OF inv]] Cons q by (simp add: order_inv_def)
      ultimately have "lower p (lowlink (pop_scc v s) ! v) (pop_scc v s) = pop_scc v s"
        using lower_same [of adj p j rest' "pop_scc v s"] inv' Cons q same True by simp
      then show ?thesis using st False True Cons q by (simp add: Let_def)
    qed (use st False True in \<open>simp add: Let_def\<close>)
    moreover have "work' = rest" using st False by (simp add: Let_def)
    ultimately show ?thesis using inv' same by (simp add: work_size_def)
  next
    case ne: False
    obtain p j rest' where r: "rest = (p, j) # rest'" "tarjan_inv adj rest (lower p (lowlink s ! v) s)"
      using step_finish [OF inv i ne] by blast
    then have "work' = rest" "s' = lower p (lowlink s ! v) s" using st False ne by (auto simp: Let_def)
    then show ?thesis using r by (simp add: work_size_def lower_def)
  qed
qed

lemma dfs_step_visited:
  assumes "dfs_step adj work s = (work', s')" "index s ! u \<noteq> -1" "0 \<le> counter s" "u < length (index s)"
  shows "index s' ! u \<noteq> -1"
proof -
  have "index (lower v x t) = index t" "index (pop_scc v t) = index t" for v x t
    by (simp_all add: lower_def pop_scc_def split: prod.splits)
  moreover have "(index s)[w := counter s] ! u \<noteq> -1" for w using assms by (cases "u = w") auto
  ultimately show ?thesis using assms
    by (cases "(adj, work, s)" rule: dfs_step.cases) (auto simp: Let_def visit_def split: if_splits list.splits)
qed

lemma dfs_loop_returns:
  assumes "tarjan_inv adj work s" "graph_ok adj"
  shows "\<exists>t. dfs_loop adj work s = Some t \<and> tarjan_inv adj [] t \<and> (\<forall>u < length adj. index s ! u \<noteq> -1 \<longrightarrow> index t ! u \<noteq> -1)"
  using assms(1)
proof (induction "open_nodes adj (index s) + work_size adj work" arbitrary: work s rule: less_induct)
  case less
  show ?case
  proof (cases work)
    case Nil
    then show ?thesis using less.prems by (simp add: dfs_loop.simps)
  next
    case (Cons q rest)
    obtain v i where q: "q = (v, i)" by (cases q)
    obtain work' s' where st: "dfs_step adj work s = (work', s')" by (cases "dfs_step adj work s")
    have d: "tarjan_inv adj work' s'" "open_nodes adj (index s') + work_size adj work' < open_nodes adj (index s) + work_size adj work"
      using dfs_step_inv [of adj v i rest s work' s'] less.prems assms(2) st Cons q by auto
    have "dfs_loop adj work s = dfs_loop adj work' s'" using st Cons by (subst dfs_loop.simps) simp
    moreover have "\<forall>u < length adj. index s ! u \<noteq> -1 \<longrightarrow> index s' ! u \<noteq> -1"
      using dfs_step_visited [OF st] tarjan_invD(1) [OF less.prems] by (auto simp: arrays_ok_def)
    ultimately show ?thesis using less.hyps [OF d(2,1)] by auto
  qed
qed

section \<open>The components found are the strongly connected components\<close>

lemma tarjan_inv_done:
  assumes "tarjan_inv adj [] s"
  shows "scc_stack s = []"
  using scc_inv_end tarjan_invD(3) [OF assms] by simp

lemma tarjan_inv_start: "tarjan_inv adj [] (tarjan_start (length adj))"
  by (auto simp: tarjan_inv_def tarjan_start_def arrays_ok_def parts_ok_def finished_def scc_inv_def order_inv_def
      edge_inv_def low_inv_def reach_inv_def seen_edges_def)

lemma dfs_iterative_returns:
  assumes inv: "tarjan_inv adj [] s" and ok: "graph_ok adj" and v: "v < length adj" "index s ! v = -1"
  shows "\<exists>t. dfs_iterative v adj s = Some t \<and> tarjan_inv adj [] t \<and> index t ! v \<noteq> -1
    \<and> (\<forall>u < length adj. index s ! u \<noteq> -1 \<longrightarrow> index t ! u \<noteq> -1)"
proof -
  note D = tarjan_invD [OF inv] and st = tarjan_inv_done [OF inv]
  have len: "v < length (index s)" "v < length (lowlink s)" "0 \<le> counter s" "v \<notin> finished s" using D(1) v by (auto simp: arrays_ok_def)
  have "scc_inv (edges_of adj) (seen_edges adj [(v, 0)] ((index s)[v := counter s])) ((!) ((index s)[v := counter s]))
     (((!) (lowlink s))(v := (!) ((index s)[v := counter s]) v)) [v] [v] (finished s)"
  proof (rule scc_inv_start)
    show "\<forall>u w. (u, w) \<in> edges_of adj \<longrightarrow> u \<in> finished s \<longrightarrow> w \<in> finished s"
      using scc_invD(2) [OF D(3)] unfolding edge_inv_def by blast
    show "seen_edges adj [(v, 0)] ((index s)[v := counter s]) \<subseteq> edges_of adj"
      by (auto simp: seen_edges_def edges_of_def split: if_splits)
    show "\<forall>u w. (u, w) \<in> seen_edges adj [(v, 0)] ((index s)[v := counter s]) \<longrightarrow> u \<in> finished s"
      using D(1) st by (auto simp: seen_edges_def arrays_ok_def nth_list_update split: if_splits)
  qed (use len in auto)
  moreover have "arrays_ok (length adj) (visit v s)" using D(1) v st
    by (auto simp: arrays_ok_def visit_def nth_list_update finished_def)
  ultimately have inv': "tarjan_inv adj [(v, 0)] (visit v s)" using D(2) len st
    by (simp add: tarjan_inv_def visit_def nth_update_fun finished_def)
  have "index (visit v s) ! v \<noteq> -1" "\<And>u. index s ! u \<noteq> -1 \<Longrightarrow> index (visit v s) ! u \<noteq> -1"
    using len v by (auto simp: visit_def nth_list_update)
  then show ?thesis using dfs_loop_returns [OF inv' ok] v unfolding dfs_iterative_def by blast
qed

lemma tarjan_from_returns:
  assumes "tarjan_inv adj [] s" "graph_ok adj" "set vs \<subseteq> {..<length adj}"
  shows "\<exists>t. tarjan_from adj vs s = Some t \<and> tarjan_inv adj [] t \<and> (\<forall>v \<in> set vs. index t ! v \<noteq> -1)
    \<and> (\<forall>u < length adj. index s ! u \<noteq> -1 \<longrightarrow> index t ! u \<noteq> -1)"
  using assms(1,3)
proof (induction vs arbitrary: s)
  case (Cons v vs)
  then have v: "v < length adj" "set vs \<subseteq> {..<length adj}" by auto
  show ?case
  proof (cases "index s ! v = -1")
    case True
    obtain t where t: "dfs_iterative v adj s = Some t" "tarjan_inv adj [] t" "index t ! v \<noteq> -1"
      "\<forall>u < length adj. index s ! u \<noteq> -1 \<longrightarrow> index t ! u \<noteq> -1"
      using dfs_iterative_returns [OF Cons.prems(1) assms(2) v(1) True] by blast
    then show ?thesis using Cons.IH [OF t(2) v(2)] v(1) True by auto
  next
    case False
    then show ?thesis using Cons.IH [OF Cons.prems(1) v(2)] v(1) by auto
  qed
qed simp

text \<open>The search returns for every graph, and the parts it returns are the strongly connected components of
  the graph: every node is in exactly one part, and two nodes share a part when each reaches the other.\<close>

lemma tarjan_exact:
  assumes "graph_ok adj"
  shows "\<exists>parts. tarjan_scc adj = Some parts \<and> distinct (concat parts)
    \<and> set ` set parts = scc_of (edges_of adj) ` {..<length adj}"
proof -
  obtain t where t: "tarjan_from adj [0..<length adj] (tarjan_start (length adj)) = Some t" "tarjan_inv adj [] t"
    "\<forall>v \<in> set [0..<length adj]. index t ! v \<noteq> -1"
    using tarjan_from_returns [OF tarjan_inv_start assms, of "[0..<length adj]"] by force
  note D = tarjan_invD [OF t(2)]
  have all: "finished t = {..<length adj}" using D(1) t(3) tarjan_inv_done [OF t(2)] by (auto simp: arrays_ok_def)
  have "set ` set (sccs t) = scc_of (edges_of adj) ` {..<length adj}"
  proof (intro set_eqI iffI)
    fix C assume "C \<in> set ` set (sccs t)"
    then obtain c where c: "c \<in> set (sccs t)" "C = set c" by auto
    then obtain v where "v \<in> set c" using D(2) unfolding parts_ok_def by (metis last_in_set)
    then show "C \<in> scc_of (edges_of adj) ` {..<length adj}" using c D(2) all unfolding parts_ok_def finished_def by fastforce
  next
    fix C assume "C \<in> scc_of (edges_of adj) ` {..<length adj}"
    then obtain v where v: "v \<in> finished t" "C = scc_of (edges_of adj) v" using all by auto
    then obtain c where "c \<in> set (sccs t)" "v \<in> set c" by (auto simp: finished_def)
    then show "C \<in> set ` set (sccs t)" using v D(2) by (auto simp: parts_ok_def)
  qed
  then show ?thesis using t(1) D(2) by (auto simp: tarjan_scc_def parts_ok_def)
qed

lemma tarjan_example:
  "set ` set (the (tarjan_scc [[1], [2], [1, 0], [2]])) = scc_of (edges_of [[1], [2], [1, 0], [2]]) ` {..<4}
   \<and> tarjan_scc [[1], [2], [1, 0], [2]] = Some [[2, 1, 0], [3]]"
proof -
  have "tarjan_scc [[1], [2], [1, 0], [2]] = Some [[2, 1, 0], [3]]" by code_simp
  moreover have "graph_ok [[1], [2], [1, 0], [2]]" by code_simp
  ultimately show ?thesis using tarjan_exact [of "[[1], [2], [1, 0], [2]]"] by (simp add: lessThan_Suc numeral_eq_Suc)
qed

end
