(* ===== verification/SemanticDiff.thy ===== *)
theory SemanticDiff
  imports Complex_Main Tarjan GraphColumns Adjacency Json "HOL-Library.Product_Lexorder"
begin

text \<open>
  The diff of two graphs (\<open>src/semantic_diff.rs\<close>): the named nodes of eight labels, the edges between nodes
  with a qualified name, the edges whose target is not among those nodes, the cycles, and the verdict. A
  \<open>BTreeSet\<close> is a sorted list, the \<open>HashSet\<close> of edges a list in the order of insertion; what is read from it
  is sorted or a set. The arithmetic of \<open>f64\<close> is a parameter.
\<close>

section \<open>Snapshots\<close>

definition DIFFABLE_LABELS :: "string list" where
  "DIFFABLE_LABELS = [''Function'', ''Method'', ''Struct'', ''Enum'', ''Trait'', ''Module'', ''Constant'', ''TypeAlias'']"

type_synonym NodeSet = "(string \<times> string list) list"
type_synonym EdgeTriple = "string \<times> string \<times> string"

record Snapshot =
  snap_nodes :: NodeSet
  snap_edges :: "EdgeTriple list"
  snap_unresolved :: nat

definition btree_set :: "'a::linorder list \<Rightarrow> 'a list" where
  "btree_set xs = dedup_adj (sort xs)"

fun collect_labels :: "store \<Rightarrow> string list \<Rightarrow> string + NodeSet" where
  "collect_labels store [] = Inr []"
| "collect_labels store (label # labels) =
     and_then (store (''MATCH (n:'' @ label @ '') RETURN n.qualified_name''))
       (\<lambda>rows. and_then (collect_labels store labels)
         (\<lambda>out. Inr ((label, btree_set (filter (\<lambda>qn. qn \<noteq> []) (map hd (filter (\<lambda>row. row \<noteq> []) rows)))) # out)))"

definition collect_nodes :: "store \<Rightarrow> string + NodeSet" where
  "collect_nodes store = map_sum id (sort_key fst) (collect_labels store DIFFABLE_LABELS)"

definition rel_kind :: "string \<Rightarrow> string" where
  "rel_kind rel = takeWhile (\<lambda>c. c \<noteq> CHR ''_'') rel"

fun insert_triple :: "string \<Rightarrow> string list \<Rightarrow> EdgeTriple list \<Rightarrow> EdgeTriple list" where
  "insert_triple kind (f # t # cells) out = (if f = [] \<or> t = [] then out else List.insert (f, kind, t) out)"
| "insert_triple kind row out = out"

definition edge_query :: "string \<Rightarrow> string \<Rightarrow> string \<Rightarrow> string" where
  "edge_query rel from_label to_label =
     ''MATCH (a:'' @ from_label @ '')-[:'' @ rel @ '']->(b:'' @ to_label @ '') RETURN a.qualified_name, b.qualified_name''"

fun collect_tables :: "store \<Rightarrow> (string \<times> string \<times> string) list \<Rightarrow> EdgeTriple list \<Rightarrow> string + EdgeTriple list" where
  "collect_tables store [] out = Inr out"
| "collect_tables store ((rel, from_label, to_label) # tables) out =
     (if \<not> label_declares_column from_label ''qualified_name'' \<or> \<not> label_declares_column to_label ''qualified_name''
      then collect_tables store tables out
      else and_then (store (edge_query rel from_label to_label))
        (\<lambda>rows. collect_tables store tables (fold (insert_triple (rel_kind rel)) rows out)))"

definition collect_edges :: "store \<Rightarrow> string + EdgeTriple list" where
  "collect_edges store = collect_tables store REL_TABLES []"

definition count_unresolved :: "store \<Rightarrow> string + nat" where
  "count_unresolved store =
     and_then (store ''MATCH (i:Import) WHERE i.is_resolved = false OR i.is_resolved IS NULL RETURN count(i)'')
       (\<lambda>rows. case rows of
          (count # cells) # _ \<Rightarrow> ok_or ''semantic diff: invalid unresolved count: {e}'' (parse_dec (2 ^ 64) count)
        | _ \<Rightarrow> Inl ''semantic diff: unresolved count query returned no count'')"

definition collect :: "(string \<Rightarrow> string + store) \<Rightarrow> string \<Rightarrow> string + Snapshot" where
  "collect open_or_create path =
     and_then (open_or_create path) (\<lambda>store.
     and_then (collect_nodes store) (\<lambda>nodes.
     and_then (collect_edges store) (\<lambda>edges.
     and_then (count_unresolved store) (\<lambda>unresolved.
       Inr \<lparr>snap_nodes = nodes, snap_edges = edges, snap_unresolved = unresolved\<rparr>))))"

section \<open>What changed\<close>

record NodeDiff =
  nodes_new :: "(string \<times> string) list"
  nodes_gone :: "(string \<times> string) list"

definition names_of :: "NodeSet \<Rightarrow> string \<Rightarrow> string list" where
  "names_of nodes label = (case map_of nodes label of Some qns \<Rightarrow> qns | None \<Rightarrow> [])"

definition diff_nodes :: "NodeSet \<Rightarrow> NodeSet \<Rightarrow> NodeDiff" where
  "diff_nodes was now =
     (let labels = btree_set (map fst was @ map fst now)
      in \<lparr>nodes_new = concat (map (\<lambda>l. map (Pair l) (filter (\<lambda>qn. qn \<notin> set (names_of was l)) (names_of now l))) labels),
          nodes_gone = concat (map (\<lambda>l. map (Pair l) (filter (\<lambda>qn. qn \<notin> set (names_of now l)) (names_of was l))) labels)\<rparr>)"

record EdgeDiff =
  edges_new :: "EdgeTriple list"
  edges_gone :: "EdgeTriple list"

definition diff_edges :: "EdgeTriple list \<Rightarrow> EdgeTriple list \<Rightarrow> EdgeDiff" where
  "diff_edges was now = \<lparr>edges_new = sort (filter (\<lambda>e. e \<notin> set was) now), edges_gone = sort (filter (\<lambda>e. e \<notin> set now) was)\<rparr>"

definition compute_dangling :: "NodeSet \<Rightarrow> EdgeTriple list \<Rightarrow> EdgeTriple list" where
  "compute_dangling nodes edges = sort (filter (\<lambda>(f, k, t). t \<notin> set (concat (map snd nodes))) edges)"

section \<open>Cycles\<close>

fun index_of :: "'a \<Rightarrow> 'a list \<Rightarrow> nat option" where
  "index_of x [] = None"
| "index_of x (y # ys) = (if x = y then Some 0 else map_option Suc (index_of x ys))"

definition push_name :: "string \<Rightarrow> string list \<Rightarrow> string list" where
  "push_name qn node_list = (if qn \<in> set node_list then node_list else node_list @ [qn])"

fun add_edge :: "string list \<Rightarrow> EdgeTriple \<Rightarrow> nat list list \<times> nat list \<Rightarrow> nat list list \<times> nat list" where
  "add_edge node_list (f, kind, t) (adj, self_loops) =
     (case (index_of f node_list, index_of t node_list) of
        (Some fi, Some ti) \<Rightarrow> if fi = ti then (adj, insort_insert fi self_loops) else (adj[fi := adj ! fi @ [ti]], self_loops)
      | _ \<Rightarrow> (adj, self_loops))"

definition build_adjacency :: "NodeSet \<Rightarrow> EdgeTriple list \<Rightarrow> string list \<times> nat list list \<times> nat list" where
  "build_adjacency nodes edges =
     (let node_list = fold push_name (concat (map snd nodes)) []
      in (node_list, fold (add_edge node_list) edges (replicate (length node_list) [], [])))"

definition strongly_connected_cycles :: "NodeSet \<Rightarrow> EdgeTriple list \<Rightarrow> string list option" where
  "strongly_connected_cycles nodes edges =
     (case build_adjacency nodes edges of (node_list, adj, self_loops) \<Rightarrow>
        map_option (\<lambda>parts. btree_set
          (map (\<lambda>part. join_with '','' (sort (map (\<lambda>i. node_list ! i) part))) (filter (\<lambda>part. 2 \<le> length part) parts)
           @ map (\<lambda>i. node_list ! i) self_loops)) (tarjan_scc adj))"

definition diff_cycle_sets :: "string list \<Rightarrow> string list \<Rightarrow> string list" where
  "diff_cycle_sets was now = filter (\<lambda>c. c \<notin> set was) now"

section \<open>The score and the verdict\<close>

record DiffSummary =
  nodes_added :: nat
  nodes_removed :: nat
  edges_added :: nat
  edges_removed :: nat
  dangling_references :: nat
  new_unresolved_delta :: int
  new_cycles :: nat

definition f_min :: "'f f64 \<Rightarrow> 'f \<Rightarrow> 'f \<Rightarrow> 'f" where
  "f_min F a b = (if f_gt F a b then b else a)"

definition tenths :: "'f f64 \<Rightarrow> nat \<Rightarrow> 'f" where
  "tenths F n = f_div F (f_lit F n) (f_lit F 10)"

definition regression_score :: "'f f64 \<Rightarrow> DiffSummary \<Rightarrow> 'f" where
  "regression_score F s =
     (let dangling = f_mul F (f_lit F 1) (f_lit F (dangling_references s));
          cycles = f_mul F (tenths F 5) (f_lit F (new_cycles s));
          unresolved = f_mul F (tenths F 1) (f_lit F (nat (max (new_unresolved_delta s) 0)));
          unresolved = f_min F unresolved (f_mul F (f_mul F (f_lit F 5) (tenths F 1)) (f_lit F 10))
      in f_min F (f_add F (f_add F dangling cycles) unresolved) (f_lit F 10))"

definition classify_verdict :: "'f f64 \<Rightarrow> 'f \<Rightarrow> string" where
  "classify_verdict F score =
     (if f_gt F (f_lit F 1) score then ''clean'' else if f_gt F (f_lit F 5) score then ''concerning'' else ''regression'')"

definition verdict_for_summary :: "'f f64 \<Rightarrow> DiffSummary \<Rightarrow> 'f \<Rightarrow> string" where
  "verdict_for_summary F s score =
     (if 0 < new_unresolved_delta s \<and> f_gt F (f_lit F 1) score then ''concerning'' else classify_verdict F score)"

section \<open>The report\<close>

definition DETAILS_TRUNCATION :: nat where
  "DETAILS_TRUNCATION = 100"

definition truncate_labeled :: "(string \<times> string) list \<Rightarrow> json" where
  "truncate_labeled items =
     JArr (map (\<lambda>(l, q). JObj [(''label'', JStr l), (''qualified_name'', JStr q)]) (take DETAILS_TRUNCATION items))"

definition truncate_triples :: "EdgeTriple list \<Rightarrow> json" where
  "truncate_triples items =
     JArr (map (\<lambda>(f, k, t). JObj [(''from'', JStr f), (''kind'', JStr k), (''to'', JStr t)]) (take DETAILS_TRUNCATION items))"

definition truncate_strings :: "string list \<Rightarrow> json" where
  "truncate_strings items = JArr (map JStr (take DETAILS_TRUNCATION items))"

definition summary_json :: "DiffSummary \<Rightarrow> json" where
  "summary_json s = JObj [
     (''nodes_added'', JInt (int (nodes_added s))), (''nodes_removed'', JInt (int (nodes_removed s))),
     (''edges_added'', JInt (int (edges_added s))), (''edges_removed'', JInt (int (edges_removed s))),
     (''dangling_references'', JInt (int (dangling_references s))),
     (''new_unresolved_delta'', JInt (new_unresolved_delta s)), (''new_cycles'', JInt (int (new_cycles s)))]"

definition build_report :: "('f \<Rightarrow> string) \<Rightarrow> string \<times> string \<Rightarrow> string \<Rightarrow> DiffSummary \<Rightarrow> 'f \<Rightarrow> string \<Rightarrow> NodeDiff \<Rightarrow> EdgeDiff
    \<Rightarrow> EdgeTriple list \<Rightarrow> string list \<Rightarrow> json" where
  "build_report show_f64 args verified_at summary score verdict node_diff edge_diff dangling cycles = JObj [
     (''verified_at'', JStr verified_at), (''before_graph_path'', JStr (fst args)), (''after_graph_path'', JStr (snd args)),
     (''summary'', summary_json summary), (''regression_score'', JFloat (show_f64 score)), (''verdict'', JStr verdict),
     (''details'', JObj [
       (''nodes_added'', truncate_labeled (nodes_new node_diff)), (''nodes_removed'', truncate_labeled (nodes_gone node_diff)),
       (''edges_added'', truncate_triples (edges_new edge_diff)), (''edges_removed'', truncate_triples (edges_gone edge_diff)),
       (''dangling_references'', truncate_triples dangling), (''new_cycles'', truncate_strings cycles)])]"

section \<open>The diff\<close>

record 'f SemanticDiffOutcome =
  out_summary :: DiffSummary
  out_score :: 'f
  out_verdict :: string
  out_report :: json

definition check_paths_exist :: "(string \<Rightarrow> bool) \<Rightarrow> string \<times> string \<Rightarrow> string + unit" where
  "check_paths_exist path_exists args =
     (if \<not> path_exists (fst args) then Inl (''before_graph_path_missing: '' @ fst args)
      else if \<not> path_exists (snd args) then Inl (''after_graph_path_missing: '' @ snd args)
      else Inr ())"

text \<open>The counts are cast to \<open>i64\<close> before they are subtracted.\<close>

definition as_i64 :: "nat \<Rightarrow> int" where
  "as_i64 n = (if n < 2 ^ 63 then int n else int n - 2 ^ 64)"

definition diff_snapshots :: "'f f64 \<Rightarrow> ('f \<Rightarrow> string) \<Rightarrow> string \<times> string \<Rightarrow> string \<Rightarrow> Snapshot \<Rightarrow> Snapshot
    \<Rightarrow> 'f SemanticDiffOutcome option" where
  "diff_snapshots F show_f64 args verified_at was now =
     (case (strongly_connected_cycles (snap_nodes was) (snap_edges was),
            strongly_connected_cycles (snap_nodes now) (snap_edges now)) of
        (Some cycles_before, Some cycles_after) \<Rightarrow>
          let node_diff = diff_nodes (snap_nodes was) (snap_nodes now);
              edge_diff = diff_edges (snap_edges was) (snap_edges now);
              dangling = compute_dangling (snap_nodes now) (snap_edges now);
              cycles = diff_cycle_sets cycles_before cycles_after;
              summary = \<lparr>nodes_added = length (nodes_new node_diff), nodes_removed = length (nodes_gone node_diff),
                edges_added = length (edges_new edge_diff), edges_removed = length (edges_gone edge_diff),
                dangling_references = length dangling,
                new_unresolved_delta = as_i64 (snap_unresolved now) - as_i64 (snap_unresolved was), new_cycles = length cycles\<rparr>;
              score = regression_score F summary;
              verdict = verdict_for_summary F summary score
          in Some \<lparr>out_summary = summary, out_score = score, out_verdict = verdict,
               out_report = build_report show_f64 args verified_at summary score verdict node_diff edge_diff dangling cycles\<rparr>
      | _ \<Rightarrow> None)"

text \<open>\<open>None\<close> is a search for cycles that does not end; \<open>cycles_found\<close> below shows that it always ends.\<close>

definition diff :: "'f f64 \<Rightarrow> ('f \<Rightarrow> string) \<Rightarrow> (string \<Rightarrow> bool) \<Rightarrow> (string \<Rightarrow> string + store) \<Rightarrow> string \<times> string \<Rightarrow> string
    \<Rightarrow> (string + 'f SemanticDiffOutcome) option" where
  "diff F show_f64 path_exists open_or_create args verified_at =
     (case and_then (check_paths_exist path_exists args) (\<lambda>_.
           and_then (collect open_or_create (fst args)) (\<lambda>was.
           and_then (collect open_or_create (snd args)) (\<lambda>now. Inr (was, now)))) of
        Inl e \<Rightarrow> Some (Inl e)
      | Inr (was, now) \<Rightarrow> map_option Inr (diff_snapshots F show_f64 args verified_at was now))"

section \<open>The cycles are the strongly connected components\<close>

lemma set_btree_set [simp]: "set (btree_set xs) = set xs"
  by (simp add: btree_set_def)

lemma index_of_None: "index_of x ys = None \<longleftrightarrow> x \<notin> set ys"
  by (induction ys) auto

lemma index_of_Some: "index_of x ys = Some i \<Longrightarrow> i < length ys \<and> ys ! i = x"
  by (induction ys arbitrary: i) (auto split: if_splits)

lemma index_of_nth: "distinct ys \<Longrightarrow> i < length ys \<Longrightarrow> index_of (ys ! i) ys = Some i"
  by (metis index_of_None index_of_Some nth_eq_iff_index_eq nth_mem option.exhaust)

lemma push_names: "set (fold push_name qs node_list) = set node_list \<union> set qs"
  by (induction qs arbitrary: node_list) (auto simp: push_name_def)

lemma distinct_push_names: "distinct node_list \<Longrightarrow> distinct (fold push_name qs node_list)"
  by (induction qs arbitrary: node_list) (auto simp: push_name_def)

definition names :: "NodeSet \<Rightarrow> string set" where
  "names nodes = set (concat (map snd nodes))"

definition name_edges :: "NodeSet \<Rightarrow> EdgeTriple list \<Rightarrow> (string \<times> string) set" where
  "name_edges nodes edges = {(f, t). f \<in> names nodes \<and> t \<in> names nodes \<and> (\<exists>kind. (f, kind, t) \<in> set edges)}"

definition adjacency_ok :: "string list \<Rightarrow> EdgeTriple list \<Rightarrow> nat list list \<times> nat list \<Rightarrow> bool" where
  "adjacency_ok ns edges = (\<lambda>(adj, loops). length adj = length ns \<and>
     edges_of adj = {(i, j). i < length ns \<and> j < length ns \<and> i \<noteq> j \<and> (\<exists>kind. (ns ! i, kind, ns ! j) \<in> set edges)} \<and>
     set loops = {i. i < length ns \<and> (\<exists>kind. (ns ! i, kind, ns ! i) \<in> set edges)})"

lemma edges_of_push:
  "i < length adj \<Longrightarrow> edges_of (adj[i := adj ! i @ [j]]) = insert (i, j) (edges_of adj)"
  by (auto simp: edges_of_def nth_list_update split: if_splits)

lemma adjacency_ok_add:
  assumes "adjacency_ok ns edges g" "distinct ns"
  shows "adjacency_ok ns (edges @ [e]) (add_edge ns e g)"
proof -
  obtain f kind t where e: "e = (f, kind, t)" by (rule prod_cases3)
  obtain adj loops where g: "g = (adj, loops)" by (cases g)
  show ?thesis
  proof (cases "f \<in> set ns \<and> t \<in> set ns")
    case True
    then obtain i j where ij: "index_of f ns = Some i" "index_of t ns = Some j" using index_of_None by (metis option.exhaust)
    then have n: "i < length ns" "ns ! i = f" "j < length ns" "ns ! j = t" using index_of_Some by metis+
    have u: "ns ! a = ns ! i \<longleftrightarrow> a = i" "ns ! a = ns ! j \<longleftrightarrow> a = j" if "a < length ns" for a
      using that n assms(2) by (metis nth_eq_iff_index_eq)+
    show ?thesis using assms(1) ij(1,2) n(1,3) unfolding e g adjacency_ok_def n(2,4) [symmetric]
      by (auto simp: edges_of_push set_insort_insert u)
  next
    case False
    then have "add_edge ns e g = g" by (auto simp: e g index_of_None [THEN iffD2] split: option.splits)
    moreover have "ns ! a \<noteq> f \<or> ns ! b \<noteq> t" if "a < length ns" "b < length ns" for a b using that False nth_mem by metis
    ultimately show ?thesis using assms(1) unfolding e g adjacency_ok_def by auto
  qed
qed

lemma build_adjacency_ok:
  assumes "build_adjacency nodes edges = (ns, adj, loops)"
  shows "distinct ns" "set ns = names nodes" "adjacency_ok ns edges (adj, loops)"
proof -
  have ns: "ns = fold push_name (concat (map snd nodes)) []" and g: "(adj, loops) = fold (add_edge ns) edges (replicate (length ns) [], [])"
    using assms by (auto simp: build_adjacency_def Let_def)
  show d: "distinct ns" "set ns = names nodes" using ns by (simp_all add: distinct_push_names push_names names_def)
  have "adjacency_ok ns es (fold (add_edge ns) es (replicate (length ns) [], []))" for es
  proof (induction es rule: rev_induct)
    case Nil
    show ?case by (auto simp: adjacency_ok_def edges_of_def)
  next
    case (snoc e es)
    then show ?case using adjacency_ok_add [OF snoc d(1)] by simp
  qed
  then show "adjacency_ok ns edges (adj, loops)" using g by simp
qed

lemma name_reach:
  assumes "distinct ns" "set ns = names nodes" "adjacency_ok ns edges (adj, loops)" "i < length ns"
  shows "j < length ns \<Longrightarrow> (i, j) \<in> (edges_of adj)\<^sup>* \<longleftrightarrow> (ns ! i, ns ! j) \<in> (name_edges nodes edges)\<^sup>*"
    and "(ns ! i, y) \<in> (name_edges nodes edges)\<^sup>* \<Longrightarrow> \<exists>j < length ns. y = ns ! j \<and> (i, j) \<in> (edges_of adj)\<^sup>*"
proof -
  have E: "(a, b) \<in> edges_of adj \<longleftrightarrow> a < length ns \<and> b < length ns \<and> a \<noteq> b \<and> (ns ! a, ns ! b) \<in> name_edges nodes edges" for a b
    using assms(2,3) unfolding adjacency_ok_def name_edges_def by (auto simp flip: assms(2))
  show other: "\<exists>j < length ns. y = ns ! j \<and> (i, j) \<in> (edges_of adj)\<^sup>*" if "(ns ! i, y) \<in> (name_edges nodes edges)\<^sup>*" for y
    using that
  proof induction
    case (step y z)
    then obtain j where j: "j < length ns" "y = ns ! j" "(i, j) \<in> (edges_of adj)\<^sup>*" by blast
    have "z \<in> set ns" using step assms(2) by (auto simp: name_edges_def)
    then obtain k where k: "k < length ns" "z = ns ! k" by (auto simp: in_set_conv_nth)
    then show ?case using j step E [of j k] by (cases "j = k") (auto intro: rtrancl_into_rtrancl)
  qed (use assms(4) in auto)
  assume j: "j < length ns"
  have "(ns ! i, ns ! b) \<in> (name_edges nodes edges)\<^sup>*" if "(i, b) \<in> (edges_of adj)\<^sup>*" for b
    using that by induction (auto simp: E intro: rtrancl_into_rtrancl)
  moreover have "(i, j) \<in> (edges_of adj)\<^sup>*" if "(ns ! i, ns ! j) \<in> (name_edges nodes edges)\<^sup>*"
    using other [OF that] j assms(1) by (metis nth_eq_iff_index_eq)
  ultimately show "(i, j) \<in> (edges_of adj)\<^sup>* \<longleftrightarrow> (ns ! i, ns ! j) \<in> (name_edges nodes edges)\<^sup>*" by blast
qed

lemma scc_names:
  assumes "distinct ns" "set ns = names nodes" "adjacency_ok ns edges (adj, loops)" "i < length ns"
  shows "(!) ns ` scc_of (edges_of adj) i = scc_of (name_edges nodes edges) (ns ! i)" "scc_of (edges_of adj) i \<subseteq> {..<length ns}"
proof -
  have "length adj = length ns" using assms(3) by (simp add: adjacency_ok_def)
  have inside: "b < length ns" if "(a, b) \<in> (edges_of adj)\<^sup>*" "a < length ns" for a b
    using that assms(3) by induction (auto simp: adjacency_ok_def)
  then show sub: "scc_of (edges_of adj) i \<subseteq> {..<length ns}" using assms(4) by (auto simp: scc_of_def)
  show "(!) ns ` scc_of (edges_of adj) i = scc_of (name_edges nodes edges) (ns ! i)"
  proof (intro set_eqI iffI)
    fix y assume "y \<in> (!) ns ` scc_of (edges_of adj) i"
    then show "y \<in> scc_of (name_edges nodes edges) (ns ! i)"
      using sub name_reach(1) [OF assms(1-3)] assms(4) by (auto simp: scc_of_def)
  next
    fix y assume y: "y \<in> scc_of (name_edges nodes edges) (ns ! i)"
    then obtain j where j: "j < length ns" "y = ns ! j" using name_reach(2) [OF assms] by (auto simp: scc_of_def)
    then have "j \<in> scc_of (edges_of adj) i"
      using y name_reach(1) [OF assms(1-3)] assms(4) by (auto simp: scc_of_def)
    then show "y \<in> (!) ns ` scc_of (edges_of adj) i" using j by blast
  qed
qed

lemma sort_part:
  assumes "distinct ns" "distinct part" "set part \<subseteq> {..<length ns}"
  shows "sort (map (\<lambda>i. ns ! i) part) = sorted_list_of_set ((!) ns ` set part)" "length part = card ((!) ns ` set part)"
proof -
  have d: "distinct (map (\<lambda>i. ns ! i) part)"
    using assms by (auto simp: distinct_map inj_on_def nth_eq_iff_index_eq subset_iff)
  show "sort (map (\<lambda>i. ns ! i) part) = sorted_list_of_set ((!) ns ` set part)"
    using sorted_list_of_set_sort_remdups [of "map (\<lambda>i. ns ! i) part"] d by (simp add: distinct_remdups_id)
  show "length part = card ((!) ns ` set part)" using distinct_card [OF d] by simp
qed

lemma graph_okI: "(\<And>i j. (i, j) \<in> edges_of adj \<Longrightarrow> j < length adj) \<Longrightarrow> graph_ok adj"
  by (auto simp: graph_ok_def list_all_iff edges_of_def in_set_conv_nth [of _ adj])

definition cycle_names :: "(string \<times> string) set \<Rightarrow> string set \<Rightarrow> string set" where
  "cycle_names E V = {join_with '','' (sorted_list_of_set C) | C. \<exists>q \<in> V. C = scc_of E q \<and> 2 \<le> card C} \<union> {q \<in> V. (q, q) \<in> E}"

lemma cycles_found:
  "\<exists>cs. strongly_connected_cycles nodes edges = Some cs \<and> set cs = cycle_names (name_edges nodes edges) (names nodes)"
proof -
  obtain ns adj loops where b: "build_adjacency nodes edges = (ns, adj, loops)" by (rule prod_cases3)
  note B = build_adjacency_ok [OF b]
  let ?E = "name_edges nodes edges" and ?V = "names nodes"
  have len: "length adj = length ns" using B(3) by (simp add: adjacency_ok_def)
  have "graph_ok adj" by (rule graph_okI) (use B(3) len in \<open>simp add: adjacency_ok_def\<close>)
  then obtain parts where p: "tarjan_scc adj = Some parts" "distinct (concat parts)"
    "set ` set parts = scc_of (edges_of adj) ` {..<length ns}" using tarjan_exact [of adj] len by auto
  define big where "big = map (\<lambda>part. join_with '','' (sort (map (\<lambda>i. ns ! i) part))) (filter (\<lambda>part. 2 \<le> length part) parts)"
  have part: "\<exists>q \<in> ?V. (!) ns ` set c = scc_of ?E q" "distinct c" "set c \<subseteq> {..<length ns}" if "c \<in> set parts" for c
  proof -
    have "set c \<in> scc_of (edges_of adj) ` {..<length ns}" using that by (simp flip: p(3))
    then obtain i where i: "i < length ns" "set c = scc_of (edges_of adj) i" by auto
    then show "\<exists>q \<in> ?V. (!) ns ` set c = scc_of ?E q" "set c \<subseteq> {..<length ns}"
      using scc_names [OF B i(1)] B(2) nth_mem by auto
    show "distinct c" using p(2) that by (simp add: distinct_concat_iff)
  qed
  have "set big = {join_with '','' (sorted_list_of_set C) | C. \<exists>q \<in> ?V. C = scc_of ?E q \<and> 2 \<le> card C}"
  proof (intro set_eqI iffI)
    fix x assume "x \<in> set big"
    then obtain c where c: "c \<in> set parts" "2 \<le> length c" "x = join_with '','' (sort (map (\<lambda>i. ns ! i) c))" by (auto simp: big_def)
    then show "x \<in> {join_with '','' (sorted_list_of_set C) | C. \<exists>q \<in> ?V. C = scc_of ?E q \<and> 2 \<le> card C}"
      using part [OF c(1)] sort_part [OF B(1) part(2,3) [OF c(1)]] by auto
  next
    fix x assume "x \<in> {join_with '','' (sorted_list_of_set C) | C. \<exists>q \<in> ?V. C = scc_of ?E q \<and> 2 \<le> card C}"
    then obtain C q where C: "q \<in> ?V" "C = scc_of ?E q" "2 \<le> card C" "x = join_with '','' (sorted_list_of_set C)" by blast
    then have "q \<in> set ns" using B(2) by simp
    then obtain i where i: "i < length ns" "q = ns ! i" by (auto simp: in_set_conv_nth)
    then obtain c where c: "c \<in> set parts" "set c = scc_of (edges_of adj) i" using p(3) by (metis imageE imageI lessThan_iff)
    have "(!) ns ` set c = C" using scc_names(1) [OF B i(1)] c C i by simp
    then show "x \<in> set big" using c(1) C sort_part [OF B(1) part(2,3) [OF c(1)]]
      by (auto simp: big_def intro!: image_eqI [of _ _ c])
  qed
  moreover have "(!) ns ` set loops = {q \<in> ?V. (q, q) \<in> ?E}"
    using B(3) unfolding adjacency_ok_def name_edges_def B(2) [symmetric] by (auto simp: in_set_conv_nth [of _ ns] image_iff)
  ultimately have "set (btree_set (big @ map (\<lambda>i. ns ! i) loops)) = cycle_names ?E ?V" by (simp add: cycle_names_def)
  then show ?thesis using p(1) by (simp add: strongly_connected_cycles_def b big_def)
qed

text \<open>C1: whatever nodes and edges a graph has, the search for its cycles returns, and what it returns are the
  strongly connected components with at least two names and the names with an edge to themselves, whatever
  the order in which the edges are read.\<close>

theorem cycles_exact:
  "\<exists>cs. strongly_connected_cycles nodes edges = Some cs \<and> set cs = cycle_names (name_edges nodes edges) (names nodes)"
  by (rule cycles_found)

section \<open>A graph compared with itself\<close>

text \<open>The diff of a graph with itself finds no node, edge, unresolved import or cycle that changed, and its
  dangling references are all the edges whose target is no node of the eight labels.\<close>

lemma same_graph_summary:
  "\<exists>out. diff_snapshots F show_f64 args verified_at s s = Some out \<and>
     out_summary out = \<lparr>nodes_added = 0, nodes_removed = 0, edges_added = 0, edges_removed = 0,
       dangling_references = length (filter (\<lambda>(f, kind, t). t \<notin> names (snap_nodes s)) (snap_edges s)),
       new_unresolved_delta = 0, new_cycles = 0\<rparr>"
proof -
  obtain cs where "strongly_connected_cycles (snap_nodes s) (snap_edges s) = Some cs" using cycles_found by blast
  then show ?thesis
    by (simp add: diff_snapshots_def Let_def diff_nodes_def diff_edges_def diff_cycle_sets_def compute_dangling_def names_def
        filter_False)
qed

lemma insert_triple_keeps: "e \<in> set out \<Longrightarrow> e \<in> set (insert_triple kind row out)"
  by (induction kind row out rule: insert_triple.induct) auto

lemma insert_rows_keep: "e \<in> set out \<Longrightarrow> e \<in> set (fold (insert_triple kind) rows out)"
  by (induction rows arbitrary: out) (auto simp: insert_triple_keeps)

lemma insert_rows_row:
  "f # t # cells \<in> set rows \<Longrightarrow> f \<noteq> [] \<Longrightarrow> t \<noteq> [] \<Longrightarrow> (f, kind, t) \<in> set (fold (insert_triple kind) rows out)"
  by (induction rows arbitrary: out) (auto simp: insert_rows_keep)

lemma collect_tables_keep: "collect_tables store tables out = Inr out' \<Longrightarrow> e \<in> set out \<Longrightarrow> e \<in> set out'"
  by (induction store tables out rule: collect_tables.induct)
    (auto simp: and_then_Inr insert_rows_keep split: if_splits)

lemma collect_tables_row:
  assumes "collect_tables store tables out = Inr out'" "(rel, a, b) \<in> set tables"
    "label_declares_column a ''qualified_name''" "label_declares_column b ''qualified_name''"
    "store (edge_query rel a b) = Inr rows" "f # t # cells \<in> set rows" "f \<noteq> []" "t \<noteq> []"
  shows "(f, rel_kind rel, t) \<in> set out'"
  using assms
proof (induction store tables out rule: collect_tables.induct)
  case (2 store rel' a' b' tables out)
  show ?case
  proof (cases "(rel', a', b') = (rel, a, b)")
    case True
    then have "collect_tables store tables (fold (insert_triple (rel_kind rel)) rows out) = Inr out'"
      using "2.prems"(1,3-5) by (simp add: and_then_Inr)
    then show ?thesis using collect_tables_keep insert_rows_row [OF "2.prems"(6-8)] by blast
  next
    case False
    then have "(rel, a, b) \<in> set tables" using "2.prems"(2) by auto
    then show ?thesis using "2.prems"(1,3-8) "2.IH" by (auto simp: and_then_Inr split: if_splits)
  qed
qed simp

lemma collect_tables_total: "(\<And>q. \<exists>rows. store q = Inr rows) \<Longrightarrow> \<exists>out'. collect_tables store tables out = Inr out'"
proof (induction store tables out rule: collect_tables.induct)
  case (2 store rel a b tables out)
  obtain rows where "store (edge_query rel a b) = Inr rows" using "2.prems" by blast
  then show ?case using 2 by (simp add: and_then_Inr)
qed simp

definition rat_arith :: "rat f64" where
  "rat_arith = \<lparr>f_lit = of_nat, f_add = (+), f_sub = (-), f_mul = (*), f_div = (/), f_eq = (=), f_gt = (>)\<rparr>"

lemma score_of_dangling:
  assumes "new_cycles s = 0" "new_unresolved_delta s = 0"
  shows "regression_score rat_arith s = min (of_nat (dangling_references s)) 10"
  using assms by (simp add: regression_score_def rat_arith_def f_min_def tenths_def min_def)

text \<open>A defect. \<open>HasVariant_Enum_Variant\<close> edges are read, but \<open>Variant\<close> is not among the labels whose
  nodes are read, so a graph in which an enum has a variant is never clean, not even compared with itself.
  (The score is computed exactly here; with one dangling reference it is at least 1 in \<open>f64\<close> too.)\<close>

theorem variants_dangle:
  assumes snap: "collect open_or_create path = Inr s" and st: "open_or_create path = Inr store"
    and rows: "store (edge_query ''HasVariant_Enum_Variant'' ''Enum'' ''Variant'') = Inr rows"
    and row: "[enum, variant] \<in> set rows" "enum \<noteq> []" "variant \<noteq> []" and v: "variant \<notin> names (snap_nodes s)"
    and here: "path_exists path"
  shows "\<exists>out. diff rat_arith show_f64 path_exists open_or_create (path, path) verified_at = Some (Inr out)
    \<and> (enum, ''HasVariant'', variant) \<in> set (compute_dangling (snap_nodes s) (snap_edges s)) \<and> out_verdict out \<noteq> ''clean''"
proof -
  have "collect_tables store REL_TABLES [] = Inr (snap_edges s)"
    using snap st by (auto simp: collect_def and_then_Inr collect_edges_def)
  moreover have "(''HasVariant_Enum_Variant'', ''Enum'', ''Variant'') \<in> set REL_TABLES" by code_simp
  moreover have "label_declares_column ''Enum'' ''qualified_name''" "label_declares_column ''Variant'' ''qualified_name''"
    by code_simp+
  ultimately have "(enum, rel_kind ''HasVariant_Enum_Variant'', variant) \<in> set (snap_edges s)"
    using rows row by (rule collect_tables_row)
  then have e: "(enum, ''HasVariant'', variant) \<in> set (snap_edges s)" by (simp add: rel_kind_def)
  let ?d = "length (filter (\<lambda>(f, kind, t). t \<notin> names (snap_nodes s)) (snap_edges s))"
  have d: "0 < ?d" using e v by (auto simp: length_greater_0_conv filter_empty_conv)
  obtain out where out: "diff_snapshots rat_arith show_f64 (path, path) verified_at s s = Some out"
    "out_summary out = \<lparr>nodes_added = 0, nodes_removed = 0, edges_added = 0, edges_removed = 0,
       dangling_references = ?d, new_unresolved_delta = 0, new_cycles = 0\<rparr>" using same_graph_summary by blast
  have "out_verdict out = verdict_for_summary rat_arith (out_summary out) (regression_score rat_arith (out_summary out))"
    using out(1) by (auto simp: diff_snapshots_def Let_def split: option.splits)
  then have "out_verdict out = classify_verdict rat_arith (min (of_nat ?d) 10)"
    using out(2) by (simp add: verdict_for_summary_def score_of_dangling)
  moreover have "1 \<le> min (rat_of_nat ?d) 10" using d by (simp add: Suc_le_eq)
  ultimately have "out_verdict out \<noteq> ''clean''" by (simp add: classify_verdict_def rat_arith_def)
  then show ?thesis using out(1) snap here e v
    by (simp add: diff_def check_paths_exist_def compute_dangling_def names_def)
qed

definition enum_store :: store where
  "enum_store q =
     (if q = ''MATCH (n:Enum) RETURN n.qualified_name'' then Inr [[''lib.rs::E'']]
      else if q = edge_query ''HasVariant_Enum_Variant'' ''Enum'' ''Variant'' then Inr [[''lib.rs::E'', ''lib.rs::E::A'']]
      else if starts_with q ''MATCH (i:Import)'' then Inr [[''0'']] else Inr [])"

lemma enum_store_snapshot:
  "\<exists>s. collect (\<lambda>p. Inr enum_store) ''g'' = Inr s \<and> names (snap_nodes s) = {''lib.rs::E''}"
proof -
  have n: "collect_nodes enum_store = Inr [(''Constant'', []), (''Enum'', [''lib.rs::E'']), (''Function'', []), (''Method'', []),
      (''Module'', []), (''Struct'', []), (''Trait'', []), (''TypeAlias'', [])]" by code_simp
  have "enum_store ''MATCH (i:Import) WHERE i.is_resolved = false OR i.is_resolved IS NULL RETURN count(i)'' = Inr [[''0'']]"
    by code_simp
  moreover have "dec 0 = ''0''" by code_simp
  then have "parse_dec (2 ^ 64) ''0'' = Some 0" using parse_dec_dec [of 0 "2 ^ 64"] by simp
  ultimately have c: "count_unresolved enum_store = Inr 0" by (simp add: count_unresolved_def)
  have "\<And>q. \<exists>rows. enum_store q = Inr rows" by (simp add: enum_store_def)
  then obtain es where e: "collect_edges enum_store = Inr es"
    using collect_tables_total [of enum_store REL_TABLES "[]"] by (auto simp: collect_edges_def)
  show ?thesis by (simp add: collect_def and_then_Inr n c e names_def)
qed

lemma variants_dangle_witness:
  "\<exists>out. diff rat_arith (\<lambda>x. ''1.0'') (\<lambda>p. True) (\<lambda>p. Inr enum_store) (''g'', ''g'') ''now'' = Some (Inr out)
     \<and> out_verdict out \<noteq> ''clean''"
proof -
  obtain s where s: "collect (\<lambda>p. Inr enum_store) ''g'' = Inr s" "names (snap_nodes s) = {''lib.rs::E''}"
    using enum_store_snapshot by blast
  have "enum_store (edge_query ''HasVariant_Enum_Variant'' ''Enum'' ''Variant'') = Inr [[''lib.rs::E'', ''lib.rs::E::A'']]" by code_simp
  then show ?thesis
    using variants_dangle [OF s(1) refl, of "[[''lib.rs::E'', ''lib.rs::E::A'']]" "''lib.rs::E''" "''lib.rs::E::A''"
      "\<lambda>p. True" "\<lambda>x. ''1.0''" "''now''"] s(2) by auto
qed

end
