(* ===== verification/Incremental.thy ===== *)
theory Incremental
  imports Prelude "HOL-Library.Multiset"
begin

text \<open>
  The incremental index: the manifest of the files (\<open>src/indexer/manifest.rs\<close>), the classification of what
  changed (\<open>src/indexer/incremental/classify.rs\<close>), and the coverage report, both of a full run
  (\<open>src/indexer/coverage.rs\<close>, \<open>src/indexer/mod.rs\<close>) and of an incremental one
  (\<open>src/indexer/incremental/mod.rs\<close>, \<open>coverage.rs\<close>). Parameters: the hash of a file, \<open>None\<close> when it cannot be
  read; the outcome of parsing a file; what the pass over infrastructure files says of a file; what Cargo
  says of the files.
\<close>

section \<open>The manifest\<close>

record FileState =
  mtime_ns :: int
  file_size :: nat
  content_hash :: string

record FileManifest =
  schema_version :: nat
  manifest_files :: "(string \<times> FileState) list"

definition MANIFEST_SCHEMA_VERSION :: nat where
  "MANIFEST_SCHEMA_VERSION = 1"

definition new_manifest :: FileManifest where
  "new_manifest = \<lparr>schema_version = MANIFEST_SCHEMA_VERSION, manifest_files = []\<rparr>"

definition parse_manifest :: "(string \<Rightarrow> FileManifest option) \<Rightarrow> string \<Rightarrow> FileManifest option" where
  "parse_manifest from_slice bytes =
     (case from_slice bytes of
        None \<Rightarrow> None
      | Some m \<Rightarrow> if MANIFEST_SCHEMA_VERSION < schema_version m then None else Some m)"

section \<open>What changed since the manifest\<close>

record Discovered =
  d_rel :: string
  d_abs :: string
  d_mtime_ns :: int
  d_size :: nat

record Rename =
  old_rel :: string
  new_file :: Discovered

record ChangeSet =
  changed :: "Discovered list"
  added :: "Discovered list"
  deleted :: "string list"
  renamed :: "Rename list"

record Plan =
  change_set :: ChangeSet
  unchanged :: "Discovered list"
  next_manifest :: FileManifest

type_synonym hashes = "string \<Rightarrow> string option"

definition insert_state :: "Discovered \<Rightarrow> FileState \<Rightarrow> FileManifest \<Rightarrow> FileManifest" where
  "insert_state d st m = m\<lparr>manifest_files := btree_insert (d_rel d) st (manifest_files m)\<rparr>"

definition fresh_state :: "Discovered \<Rightarrow> string \<Rightarrow> FileState" where
  "fresh_state d hash = \<lparr>mtime_ns = d_mtime_ns d, file_size = d_size d, content_hash = hash\<rparr>"

definition file_hash :: "hashes \<Rightarrow> Discovered \<Rightarrow> string" where
  "file_hash hash_file d = (case hash_file (d_abs d) of Some h \<Rightarrow> h | None \<Rightarrow> [])"

text \<open>The three partitions and the next manifest, in the order (changed, added, unchanged, next).\<close>

type_synonym partition = "Discovered list \<times> Discovered list \<times> Discovered list \<times> FileManifest"

fun diff_one :: "hashes \<Rightarrow> FileManifest \<Rightarrow> Discovered \<Rightarrow> partition \<Rightarrow> partition" where
  "diff_one hash_file prior d (ch, cand, same, nxt) =
     (case map_of (manifest_files prior) (d_rel d) of
        None \<Rightarrow> (ch, cand @ [d], same, nxt)
      | Some prev \<Rightarrow>
          if mtime_ns prev = d_mtime_ns d \<and> file_size prev = d_size d
          then (ch, cand, same @ [d], insert_state d prev nxt)
          else let hash = file_hash hash_file d in
            if hash \<noteq> [] \<and> hash = content_hash prev
            then (ch, cand, same @ [d], insert_state d (fresh_state d hash) nxt)
            else (ch @ [d], cand, same, insert_state d (fresh_state d hash) nxt))"

definition diff_current_against_prior :: "hashes \<Rightarrow> FileManifest \<Rightarrow> Discovered list \<Rightarrow> FileManifest \<Rightarrow> partition" where
  "diff_current_against_prior hash_file prior current nxt = fold (diff_one hash_file prior) current ([], [], [], nxt)"

definition push_hash :: "FileManifest \<Rightarrow> string \<Rightarrow> (string \<rightharpoonup> string list) \<Rightarrow> (string \<rightharpoonup> string list)" where
  "push_hash prior r by_hash =
     (case map_of (manifest_files prior) r of
        Some st \<Rightarrow>
          if content_hash st = [] then by_hash
          else by_hash(content_hash st \<mapsto> (case by_hash (content_hash st) of Some rs \<Rightarrow> rs | None \<Rightarrow> []) @ [r])
      | None \<Rightarrow> by_hash)"

definition index_deleted_by_hash :: "FileManifest \<Rightarrow> string set \<Rightarrow> string list \<times> (string \<rightharpoonup> string list)" where
  "index_deleted_by_hash prior current_ids =
     (let candidates = filter (\<lambda>r. r \<notin> current_ids) (map fst (manifest_files prior))
      in (candidates, fold (push_hash prior) candidates Map.empty))"

type_synonym matching = "Rename list \<times> Discovered list \<times> string set \<times> FileManifest"

fun match_one :: "hashes \<Rightarrow> (string \<rightharpoonup> string list) \<Rightarrow> Discovered \<Rightarrow> matching \<Rightarrow> matching" where
  "match_one hash_file by_hash d (ren, add, consumed, nxt) =
     (let hash = file_hash hash_file d;
          matched_old = (if hash = [] then None
            else case by_hash hash of None \<Rightarrow> None | Some olds \<Rightarrow> find (\<lambda>old. old \<notin> consumed) olds);
          nxt = insert_state d (fresh_state d hash) nxt
      in case matched_old of
           Some old \<Rightarrow> (ren @ [\<lparr>old_rel = old, new_file = d\<rparr>], add, insert old consumed, nxt)
         | None \<Rightarrow> (ren, add @ [d], consumed, nxt))"

definition match_renames_and_adds :: "hashes \<Rightarrow> Discovered list \<Rightarrow> (string \<rightharpoonup> string list) \<Rightarrow> FileManifest \<Rightarrow> matching" where
  "match_renames_and_adds hash_file candidates by_hash nxt = fold (match_one hash_file by_hash) candidates ([], [], {}, nxt)"

definition classify :: "hashes \<Rightarrow> FileManifest \<Rightarrow> Discovered list \<Rightarrow> Plan" where
  "classify hash_file prior current =
     (case diff_current_against_prior hash_file prior current new_manifest of (ch, cand, same, nxt) \<Rightarrow>
      case index_deleted_by_hash prior (set (map d_rel current)) of (gone, by_hash) \<Rightarrow>
      case match_renames_and_adds hash_file cand by_hash nxt of (ren, add, consumed, nxt) \<Rightarrow>
        \<lparr>change_set = \<lparr>changed = ch, added = add, deleted = filter (\<lambda>r. r \<notin> consumed) gone, renamed = ren\<rparr>,
         unchanged = same, next_manifest = nxt\<rparr>)"

text \<open>The manifest that a full index writes.\<close>

definition full_manifest :: "hashes \<Rightarrow> Discovered list \<Rightarrow> FileManifest" where
  "full_manifest hash_file current = fold (\<lambda>d m. insert_state d (fresh_state d (file_hash hash_file d)) m) current new_manifest"

section \<open>The classification is a partition\<close>

definition listed :: "FileManifest \<Rightarrow> string set" where
  "listed m = set (map fst (manifest_files m))"

lemma listed_insert [simp]: "listed (insert_state d st m) = insert (d_rel d) (listed m)"
  using btree_insert_keys [of "d_rel d" st "manifest_files m"] by (cases m) (simp add: listed_def insert_state_def)

lemma diff_parts:
  assumes "fold (diff_one hash_file prior) current (ch, cand, same, nxt) = (ch', cand', same', nxt')"
  shows "mset (ch' @ cand' @ same') = mset (ch @ cand @ same) + mset current"
    "listed nxt' = listed nxt
       \<union> {r \<in> set (map d_rel current). map_of (manifest_files prior) r \<noteq> None}"
    "set cand' = set cand \<union> {d \<in> set current. map_of (manifest_files prior) (d_rel d) = None}"
proof -
  have "mset (ch' @ cand' @ same') = mset (ch @ cand @ same) + mset current
     \<and> listed nxt' = listed nxt
       \<union> {r \<in> set (map d_rel current). map_of (manifest_files prior) r \<noteq> None}
     \<and> set cand' = set cand \<union> {d \<in> set current. map_of (manifest_files prior) (d_rel d) = None}"
    using assms
  proof (induction current arbitrary: ch cand same nxt)
    case (Cons d ds)
    obtain ch1 cand1 same1 nxt1 where s: "diff_one hash_file prior d (ch, cand, same, nxt) = (ch1, cand1, same1, nxt1)"
      by (metis prod_cases4)
    have step: "mset (ch1 @ cand1 @ same1) = mset (ch @ cand @ same) + {#d#}"
      "listed nxt1 = listed nxt
         \<union> {r. r = d_rel d \<and> map_of (manifest_files prior) r \<noteq> None}"
      "set cand1 = set cand \<union> {x. x = d \<and> map_of (manifest_files prior) (d_rel x) = None}"
      using s by (auto simp: Let_def split: option.splits if_splits)
    show ?case using Cons.IH [of ch1 cand1 same1 nxt1] Cons.prems s step by auto
  qed auto
  then show "mset (ch' @ cand' @ same') = mset (ch @ cand @ same) + mset current"
    "listed nxt' = listed nxt
       \<union> {r \<in> set (map d_rel current). map_of (manifest_files prior) r \<noteq> None}"
    "set cand' = set cand \<union> {d \<in> set current. map_of (manifest_files prior) (d_rel d) = None}" by blast+
qed

text \<open>The index by hash lists gone files under the hash that the manifest has for them, each once.\<close>

definition by_hash_ok :: "FileManifest \<Rightarrow> string set \<Rightarrow> (string \<rightharpoonup> string list) \<Rightarrow> bool" where
  "by_hash_ok prior gone by_hash \<longleftrightarrow> (\<forall>h olds. by_hash h = Some olds \<longrightarrow> h \<noteq> [] \<and>
     (\<forall>r \<in> set olds. r \<in> gone \<and> (\<exists>st. map_of (manifest_files prior) r = Some st \<and> content_hash st = h)))"

lemma by_hash_ok_push: "by_hash_ok prior gone by_hash \<Longrightarrow> r \<in> gone \<Longrightarrow> by_hash_ok prior gone (push_hash prior r by_hash)"
proof (cases "map_of (manifest_files prior) r")
  case (Some st)
  assume "by_hash_ok prior gone by_hash" "r \<in> gone"
  then show ?thesis using Some
    by (cases "by_hash (content_hash st)") (auto simp: by_hash_ok_def push_hash_def)
qed (simp add: push_hash_def)

lemma by_hash_ok_fold: "set rs \<subseteq> gone \<Longrightarrow> by_hash_ok prior gone by_hash \<Longrightarrow> by_hash_ok prior gone (fold (push_hash prior) rs by_hash)"
  by (induction rs arbitrary: by_hash) (auto simp: by_hash_ok_push)

definition rename_ok :: "hashes \<Rightarrow> FileManifest \<Rightarrow> string set \<Rightarrow> Rename \<Rightarrow> bool" where
  "rename_ok hash_file prior gone r \<longleftrightarrow> old_rel r \<in> gone \<and>
     (\<exists>st. map_of (manifest_files prior) (old_rel r) = Some st \<and> content_hash st \<noteq> []
        \<and> hash_file (d_abs (new_file r)) = Some (content_hash st))"

lemma match_parts:
  assumes "fold (match_one hash_file by_hash) cands (ren, add, consumed, nxt) = (ren', add', consumed', nxt')"
    "by_hash_ok prior gone by_hash" "consumed = set (map old_rel ren)" "distinct (map old_rel ren)"
    "\<forall>r \<in> set ren. rename_ok hash_file prior gone r"
  shows "mset (map new_file ren' @ add') = mset (map new_file ren @ add) + mset cands"
    "consumed' = set (map old_rel ren')" "distinct (map old_rel ren')"
    "\<forall>r \<in> set ren'. rename_ok hash_file prior gone r"
    "listed nxt' = listed nxt \<union> set (map d_rel cands)"
proof -
  have "mset (map new_file ren' @ add') = mset (map new_file ren @ add) + mset cands \<and> consumed' = set (map old_rel ren')
    \<and> distinct (map old_rel ren') \<and> (\<forall>r \<in> set ren'. rename_ok hash_file prior gone r)
    \<and> listed nxt' = listed nxt \<union> set (map d_rel cands)"
    using assms(1,3-5)
  proof (induction cands arbitrary: ren add consumed nxt)
    case (Cons d ds)
    obtain ren1 add1 consumed1 nxt1 where s: "match_one hash_file by_hash d (ren, add, consumed, nxt) = (ren1, add1, consumed1, nxt1)"
      by (metis prod_cases4)
    have hash: "file_hash hash_file d \<noteq> [] \<Longrightarrow> hash_file (d_abs d) = Some (file_hash hash_file d)"
      by (simp add: file_hash_def split: option.splits)
    have step: "mset (map new_file ren1 @ add1) = mset (map new_file ren @ add) + {#d#} \<and> consumed1 = set (map old_rel ren1)
      \<and> distinct (map old_rel ren1) \<and> (\<forall>r \<in> set ren1. rename_ok hash_file prior gone r) \<and> listed nxt1 = listed nxt \<union> {d_rel d}"
    proof (cases "\<exists>olds old. file_hash hash_file d \<noteq> [] \<and> by_hash (file_hash hash_file d) = Some olds \<and> find (\<lambda>old. old \<notin> consumed) olds = Some old")
      case True
      then obtain olds old where m: "file_hash hash_file d \<noteq> []" "by_hash (file_hash hash_file d) = Some olds"
        "find (\<lambda>old. old \<notin> consumed) olds = Some old" by blast
      have old: "old \<in> set olds" "old \<notin> consumed" using m(3) by (auto simp: find_Some_iff)
      have "rename_ok hash_file prior gone \<lparr>old_rel = old, new_file = d\<rparr>"
        using assms(2) m(1,2) old(1) hash by (force simp: by_hash_ok_def rename_ok_def)
      then show ?thesis using s m old Cons.prems(2-4) by (auto simp: Let_def)
    next
      case False
      then have "ren1 = ren" "add1 = add @ [d]" "consumed1 = consumed" "nxt1 = insert_state d (fresh_state d (file_hash hash_file d)) nxt"
        using s by (auto simp: Let_def split: option.splits if_splits)
      then show ?thesis using Cons.prems(2-4) by simp
    qed
    show ?case using Cons.IH [of ren1 add1 consumed1 nxt1] Cons.prems(1) s step by auto
  qed auto
  then show "mset (map new_file ren' @ add') = mset (map new_file ren @ add) + mset cands"
    "consumed' = set (map old_rel ren')" "distinct (map old_rel ren')"
    "\<forall>r \<in> set ren'. rename_ok hash_file prior gone r"
    "listed nxt' = listed nxt \<union> set (map d_rel cands)" by blast+
qed

lemma classify_parts:
  fixes hash_file prior current
  defines "p \<equiv> classify hash_file prior current" and "gone \<equiv> set (map fst (manifest_files prior)) - set (map d_rel current)"
  shows "mset (unchanged p @ changed (change_set p) @ added (change_set p) @ map new_file (renamed (change_set p))) = mset current"
    "distinct (map old_rel (renamed (change_set p)))" "\<forall>r \<in> set (renamed (change_set p)). rename_ok hash_file prior gone r"
    "listed (next_manifest p) = set (map d_rel current)"
    "deleted (change_set p) = filter (\<lambda>r. r \<in> gone \<and> r \<notin> old_rel ` set (renamed (change_set p))) (map fst (manifest_files prior))"
proof -
  obtain ch cand same nxt where d: "fold (diff_one hash_file prior) current ([], [], [], new_manifest) = (ch, cand, same, nxt)"
    by (metis prod_cases4)
  define by_hash where "by_hash = fold (push_hash prior) (filter (\<lambda>r. r \<notin> set (map d_rel current)) (map fst (manifest_files prior))) Map.empty"
  obtain ren add consumed nxt' where m: "fold (match_one hash_file by_hash) cand ([], [], {}, nxt) = (ren, add, consumed, nxt')"
    by (metis prod_cases4)
  have p: "p = \<lparr>change_set = \<lparr>changed = ch, added = add, deleted = filter (\<lambda>r. r \<notin> consumed)
       (filter (\<lambda>r. r \<notin> set (map d_rel current)) (map fst (manifest_files prior))), renamed = ren\<rparr>,
     unchanged = same, next_manifest = nxt'\<rparr>"
    using d m by (simp add: p_def classify_def diff_current_against_prior_def index_deleted_by_hash_def
        match_renames_and_adds_def by_hash_def Let_def)
  have ok: "by_hash_ok prior gone by_hash"
    unfolding by_hash_def by (rule by_hash_ok_fold) (auto simp: gone_def by_hash_ok_def)
  have start: "{} = set (map old_rel [])" "distinct (map old_rel [])" "\<forall>r \<in> set []. rename_ok hash_file prior gone r" by simp_all
  note D = diff_parts [OF d] and M = match_parts [OF m ok start]
  show "mset (unchanged p @ changed (change_set p) @ added (change_set p) @ map new_file (renamed (change_set p))) = mset current"
  proof -
    have "mset cand = image_mset new_file (mset ren) + mset add" using M(1) by simp
    then show ?thesis using D(1) by (simp add: p ac_simps)
  qed
  show "distinct (map old_rel (renamed (change_set p)))" "\<forall>r \<in> set (renamed (change_set p)). rename_ok hash_file prior gone r"
    using M(3,4) by (simp_all add: p)
  show "listed (next_manifest p) = set (map d_rel current)"
  proof -
    have e: "listed new_manifest = {}" by (simp add: new_manifest_def listed_def)
    have c: "set (map d_rel cand) = {r \<in> set (map d_rel current). map_of (manifest_files prior) r = None}" using D(3) by auto
    have "listed nxt' = {} \<union> {r \<in> set (map d_rel current). map_of (manifest_files prior) r \<noteq> None}
       \<union> {r \<in> set (map d_rel current). map_of (manifest_files prior) r = None}"
      by (simp only: M(5) D(2) e c)
    then show ?thesis unfolding p by auto
  qed
  show "deleted (change_set p) = filter (\<lambda>r. r \<in> gone \<and> r \<notin> old_rel ` set (renamed (change_set p))) (map fst (manifest_files prior))"
    using M(2) by (auto simp: p gone_def intro!: filter_cong)
qed

text \<open>C7: the classification loses no file and counts none twice. Every file found is in exactly one of the four
  classes. A file of the manifest that is gone is either deleted or the old end of exactly one rename, and the
  two ends of a rename have the same recorded, nonempty hash. The next manifest describes exactly the files found.\<close>

theorem classify_partition:
  assumes "distinct (map fst (manifest_files prior))" and "p = classify hash_file prior current"
  shows "mset (unchanged p @ changed (change_set p) @ added (change_set p) @ map new_file (renamed (change_set p))) = mset current
    \<and> mset (deleted (change_set p) @ map old_rel (renamed (change_set p)))
       = mset (filter (\<lambda>r. r \<notin> set (map d_rel current)) (map fst (manifest_files prior)))
    \<and> list_all (\<lambda>r. \<exists>st. map_of (manifest_files prior) (old_rel r) = Some st
       \<and> content_hash st \<noteq> [] \<and> hash_file (d_abs (new_file r)) = Some (content_hash st)) (renamed (change_set p))
    \<and> listed (next_manifest p) = set (map d_rel current)"
proof (intro conjI)
  note P = classify_parts [of hash_file prior current, folded assms(2)]
  show "mset (unchanged p @ changed (change_set p) @ added (change_set p) @ map new_file (renamed (change_set p))) = mset current"
    by (rule P(1))
  show "listed (next_manifest p) = set (map d_rel current)" by (rule P(4))
  show "list_all (\<lambda>r. \<exists>st. map_of (manifest_files prior) (old_rel r) = Some st
       \<and> content_hash st \<noteq> [] \<and> hash_file (d_abs (new_file r)) = Some (content_hash st)) (renamed (change_set p))"
    using P(3) by (simp add: rename_ok_def list_all_iff)
  show "mset (deleted (change_set p) @ map old_rel (renamed (change_set p)))
       = mset (filter (\<lambda>r. r \<notin> set (map d_rel current)) (map fst (manifest_files prior)))"
  proof (rule set_eq_iff_mset_eq_distinct [THEN iffD1])
    show "distinct (deleted (change_set p) @ map old_rel (renamed (change_set p)))"
      using P(2) assms(1) by (auto simp: P(5))
    show "distinct (filter (\<lambda>r. r \<notin> set (map d_rel current)) (map fst (manifest_files prior)))" using assms(1) by simp
    show "set (deleted (change_set p) @ map old_rel (renamed (change_set p)))
       = set (filter (\<lambda>r. r \<notin> set (map d_rel current)) (map fst (manifest_files prior)))"
      using P(3) by (auto simp: P(5) rename_ok_def)
  qed
qed

definition file_at :: "string \<Rightarrow> int \<Rightarrow> Discovered" where
  "file_at r t = \<lparr>d_rel = r, d_abs = r, d_mtime_ns = t, d_size = 3\<rparr>"

definition demo_hash :: hashes where
  "demo_hash f = (if f = ''locked.rs'' then None else if f = ''new.rs'' then Some ''h1'' else Some ''h2'')"

definition demo_prior :: FileManifest where
  "demo_prior = \<lparr>schema_version = 1, manifest_files =
     [(''locked.rs'', \<lparr>mtime_ns = 1, file_size = 3, content_hash = ''h0''\<rparr>), (''old.rs'', \<lparr>mtime_ns = 1, file_size = 3, content_hash = ''h1''\<rparr>)]\<rparr>"

lemma classify_partition_witness:
  "mset (deleted (change_set (classify demo_hash demo_prior [file_at ''new.rs'' 2]))
     @ map old_rel (renamed (change_set (classify demo_hash demo_prior [file_at ''new.rs'' 2])))) = {#''locked.rs'', ''old.rs''#}
   \<and> map old_rel (renamed (change_set (classify demo_hash demo_prior [file_at ''new.rs'' 2]))) = [''old.rs'']"
proof -
  have d: "distinct (map fst (manifest_files demo_prior))" by code_simp
  have "map old_rel (renamed (change_set (classify demo_hash demo_prior [file_at ''new.rs'' 2]))) = [''old.rs'']" by code_simp
  then show ?thesis using classify_partition [OF d refl, of demo_hash "[file_at ''new.rs'' 2]"]
    by (simp add: demo_prior_def file_at_def)
qed

section \<open>A second run\<close>

definition recorded :: "FileManifest \<Rightarrow> Discovered \<Rightarrow> bool" where
  "recorded m d \<longleftrightarrow> (case map_of (manifest_files m) (d_rel d) of
     Some st \<Rightarrow> mtime_ns st = d_mtime_ns d \<and> file_size st = d_size d | None \<Rightarrow> False)"

lemma recorded_insert:
  "recorded (insert_state d st m) e \<longleftrightarrow> (if d_rel e = d_rel d then mtime_ns st = d_mtime_ns e \<and> file_size st = d_size e else recorded m e)"
  by (auto simp: recorded_def insert_state_def map_of_btree_insert)

lemma fresh_state_simps [simp]: "mtime_ns (fresh_state d h) = d_mtime_ns d" "file_size (fresh_state d h) = d_size d"
  by (simp_all add: fresh_state_def)

lemma diff_records:
  assumes "fold (diff_one hash_file prior) ds (ch, cand, same, nxt) = (ch', cand', same', nxt')"
    "distinct (map d_rel (seen @ ds))" "\<forall>d \<in> set seen. d \<in> set cand \<or> recorded nxt d" "set cand \<subseteq> set seen"
  shows "\<forall>d \<in> set (seen @ ds). d \<in> set cand' \<or> recorded nxt' d"
  using assms
proof (induction ds arbitrary: ch cand same nxt seen)
  case (Cons d ds)
  obtain ch1 cand1 same1 nxt1 where s: "diff_one hash_file prior d (ch, cand, same, nxt) = (ch1, cand1, same1, nxt1)"
    by (metis prod_cases4)
  have "d_rel e \<noteq> d_rel d" if "e \<in> set seen" for e using Cons.prems(2) that by (force simp: image_iff)
  then have "\<forall>e \<in> set (seen @ [d]). e \<in> set cand1 \<or> recorded nxt1 e"
    using s Cons.prems(3) by (auto simp: Let_def recorded_insert split: option.splits if_splits)
  moreover have "set cand1 \<subseteq> set (seen @ [d])" using s Cons.prems(4) by (auto simp: Let_def split: option.splits if_splits)
  ultimately show ?case using Cons.IH [of ch1 cand1 same1 nxt1 "seen @ [d]"] Cons.prems(1,2) s by simp
qed simp

lemma match_records:
  assumes "fold (match_one hash_file by_hash) ds (ren, add, consumed, nxt) = (ren', add', consumed', nxt')" "distinct (map d_rel ds)"
    "d_rel e \<in> set (map d_rel ds) \<Longrightarrow> e \<in> set ds" "e \<in> set ds \<or> recorded nxt e"
  shows "recorded nxt' e"
  using assms
proof (induction ds arbitrary: ren add consumed nxt)
  case (Cons d ds)
  obtain ren1 add1 consumed1 nxt1 where s: "match_one hash_file by_hash d (ren, add, consumed, nxt) = (ren1, add1, consumed1, nxt1)"
    by (metis prod_cases4)
  then have n: "nxt1 = insert_state d (fresh_state d (file_hash hash_file d)) nxt" by (auto simp: Let_def split: option.splits)
  have "e \<in> set ds \<or> recorded nxt1 e" using Cons.prems(3,4) n by (auto simp: recorded_insert)
  moreover have "d_rel e \<in> set (map d_rel ds) \<Longrightarrow> e \<in> set ds" using Cons.prems(2,3) by auto
  ultimately show ?case using Cons.IH [of ren1 add1 consumed1 nxt1] Cons.prems(1,2) s by simp
qed simp

lemma classify_records:
  assumes "distinct (map d_rel current)" "d \<in> set current"
  shows "recorded (next_manifest (classify hash_file prior current)) d"
proof -
  obtain ch cand same nxt where f: "fold (diff_one hash_file prior) current ([], [], [], new_manifest) = (ch, cand, same, nxt)"
    by (metis prod_cases4)
  define by_hash where "by_hash = fold (push_hash prior) (filter (\<lambda>r. r \<notin> set (map d_rel current)) (map fst (manifest_files prior))) Map.empty"
  obtain ren add consumed nxt' where m: "fold (match_one hash_file by_hash) cand ([], [], {}, nxt) = (ren, add, consumed, nxt')"
    by (metis prod_cases4)
  have sub: "set cand \<subseteq> set current" using diff_parts(3) [OF f] by auto
  have "mset (ch @ cand @ same) = mset current" using diff_parts(1) [OF f] by simp
  then have "mset (map d_rel (ch @ cand @ same)) = mset (map d_rel current)" by (metis mset_map)
  then have dc: "distinct (map d_rel cand)" using assms(1) mset_eq_imp_distinct_iff by fastforce
  have inj: "e \<in> set cand" if "d_rel e \<in> set (map d_rel cand)" "e \<in> set current" for e
    using that sub assms(1) by (auto simp: distinct_map inj_on_def)
  have "d \<in> set cand \<or> recorded nxt d" using diff_records [OF f, of "[]"] assms by simp
  then have "recorded nxt' d" using match_records [OF m dc, of d] inj assms(2) by blast
  then show ?thesis using f m by (simp add: classify_def diff_current_against_prior_def index_deleted_by_hash_def
        match_renames_and_adds_def by_hash_def Let_def)
qed

lemma diff_recorded:
  "\<forall>d \<in> set ds. recorded prior d \<Longrightarrow>
   \<exists>nxt'. fold (diff_one hash_file prior) ds (ch, cand, same, nxt) = (ch, cand, same @ ds, nxt')"
proof (induction ds arbitrary: same nxt)
  case (Cons d ds)
  then obtain st where "map_of (manifest_files prior) (d_rel d) = Some st" "mtime_ns st = d_mtime_ns d" "file_size st = d_size d"
    by (auto simp: recorded_def split: option.splits)
  then show ?case using Cons.IH [of "same @ [d]" "insert_state d st nxt"] Cons.prems by simp
qed simp

text \<open>A run that finds the files as the run before left them changes nothing: every file is unchanged. This
  holds whatever could be read: a file that could not be read in the first run, and so was skipped by the parser after its old
  symbols were removed, has its new time and size in the manifest and is not looked at again.\<close>

theorem second_run_unchanged:
  assumes "distinct (map d_rel current)"
  shows "\<exists>m. classify hash_file' (next_manifest (classify hash_file prior current)) current =
    \<lparr>change_set = \<lparr>changed = [], added = [], deleted = [], renamed = []\<rparr>, unchanged = current, next_manifest = m\<rparr>"
proof -
  let ?m = "next_manifest (classify hash_file prior current)"
  have r: "\<forall>d \<in> set current. recorded ?m d" using classify_records [OF assms] by blast
  obtain nxt where f: "fold (diff_one hash_file' ?m) current ([], [], [], new_manifest) = ([], [], current, nxt)"
    using diff_recorded [OF r, of hash_file' "[]" "[]" "[]" new_manifest] by auto
  have "set (map fst (manifest_files ?m)) = set (map d_rel current)" using classify_parts(4) [of hash_file prior current] by (simp add: listed_def)
  then have "filter (\<lambda>r. r \<notin> set (map d_rel current)) (map fst (manifest_files ?m)) = []" by (auto simp: filter_empty_conv)
  then show ?thesis using f unfolding classify_def diff_current_against_prior_def index_deleted_by_hash_def
      match_renames_and_adds_def Let_def by simp
qed

text \<open>\<open>locked.rs\<close> was touched and could not be read: it is changed in the first run and unchanged in the second.\<close>

lemma second_run_unchanged_witness:
  "map d_rel (changed (change_set (classify demo_hash demo_prior [file_at ''locked.rs'' 5]))) = [''locked.rs''] \<and>
   (\<exists>m. classify (\<lambda>f. Some ''h9'') (next_manifest (classify demo_hash demo_prior [file_at ''locked.rs'' 5])) [file_at ''locked.rs'' 5] =
    \<lparr>change_set = \<lparr>changed = [], added = [], deleted = [], renamed = []\<rparr>, unchanged = [file_at ''locked.rs'' 5], next_manifest = m\<rparr>)"
proof (rule conjI)
  show "map d_rel (changed (change_set (classify demo_hash demo_prior [file_at ''locked.rs'' 5]))) = [''locked.rs'']" by code_simp
qed (rule second_run_unchanged, simp)

end
