(* ===== verification/Coverage.thy ===== *)
theory Coverage
  imports Incremental
begin

text \<open>
  The coverage report: what of a codebase the graph does not hold. \<open>full_coverage\<close> is the report of a full
  index (\<open>index_codebase\<close> in \<open>src/indexer/mod.rs\<close> over the collector of \<open>coverage.rs\<close>),
  \<open>incremental_coverage\<close> the one an incremental index derives from the report before it
  (\<open>src/indexer/incremental/mod.rs\<close> and \<open>incremental/coverage.rs\<close>). What a file parses to, what the pass
  over infrastructure files says and what Cargo says are parameters.
\<close>

section \<open>Reports\<close>

datatype CoverageKind = ParsePartial | Skipped | Quarantined | OutsideBuildTargets | UnlinkedFile | FeatureGated

record FileCoverage =
  cov_kind :: CoverageKind
  cov_detail :: string
  error_ranges :: "(nat \<times> nat) list"

datatype CargoAttributionStatus = Known | Unknown string | NotApplicable string

record CoverageReport =
  cov_version :: nat
  index_mode :: string
  cov_indexed :: nat
  cov_files :: "(string \<times> FileCoverage) list"
  cov_pruned :: "(string \<times> string) list"
  cov_attribution :: "CargoAttributionStatus option"

record CoverageCounts =
  parse_partial :: nat
  skipped :: nat
  quarantined :: nat
  outside_build_targets :: nat
  unlinked_file :: nat
  feature_gated :: nat

definition COVERAGE_SCHEMA_VERSION :: nat where
  "COVERAGE_SCHEMA_VERSION = 1"

definition new_report :: "string \<Rightarrow> nat \<Rightarrow> CoverageReport" where
  "new_report mode n = \<lparr>cov_version = COVERAGE_SCHEMA_VERSION, index_mode = mode, cov_indexed = n, cov_files = [],
     cov_pruned = [], cov_attribution = None\<rparr>"

fun count_kind :: "CoverageKind \<Rightarrow> CoverageCounts \<Rightarrow> CoverageCounts" where
  "count_kind ParsePartial c = c\<lparr>parse_partial := parse_partial c + 1\<rparr>"
| "count_kind Skipped c = c\<lparr>skipped := skipped c + 1\<rparr>"
| "count_kind Quarantined c = c\<lparr>quarantined := quarantined c + 1\<rparr>"
| "count_kind OutsideBuildTargets c = c\<lparr>outside_build_targets := outside_build_targets c + 1\<rparr>"
| "count_kind UnlinkedFile c = c\<lparr>unlinked_file := unlinked_file c + 1\<rparr>"
| "count_kind FeatureGated c = c\<lparr>feature_gated := feature_gated c + 1\<rparr>"

definition counts :: "CoverageReport \<Rightarrow> CoverageCounts" where
  "counts r = fold (\<lambda>(rel, cov). count_kind (cov_kind cov)) (cov_files r)
     \<lparr>parse_partial = 0, skipped = 0, quarantined = 0, outside_build_targets = 0, unlinked_file = 0, feature_gated = 0\<rparr>"

text \<open>\<open>entry(k).or_insert(v)\<close>.\<close>

definition or_insert :: "string \<Rightarrow> 'a \<Rightarrow> (string \<times> 'a) list \<Rightarrow> (string \<times> 'a) list" where
  "or_insert k v m = (if map_of m k = None then btree_insert k v m else m)"

definition record_unlinked_file :: "string \<Rightarrow> string \<Rightarrow> CoverageReport \<Rightarrow> CoverageReport" where
  "record_unlinked_file rel detail r =
     r\<lparr>cov_files := or_insert rel \<lparr>cov_kind = UnlinkedFile, cov_detail = detail, error_ranges = []\<rparr> (cov_files r)\<rparr>"

definition load_report :: "(string \<Rightarrow> CoverageReport option) \<Rightarrow> string \<Rightarrow> CoverageReport option" where
  "load_report from_slice bytes =
     (case from_slice bytes of
        None \<Rightarrow> None
      | Some r \<Rightarrow> if COVERAGE_SCHEMA_VERSION < cov_version r then None else Some r)"

section \<open>The collector of a run\<close>

record CoverageCollector =
  col_files :: "(string \<times> FileCoverage) list"
  col_indexed :: nat
  col_pruned :: "(string \<times> string) list"
  col_attribution :: "CargoAttributionStatus option"

definition new_collector :: CoverageCollector where
  "new_collector = \<lparr>col_files = [], col_indexed = 0, col_pruned = [], col_attribution = None\<rparr>"

definition note_indexed :: "CoverageCollector \<Rightarrow> CoverageCollector" where
  "note_indexed c = c\<lparr>col_indexed := col_indexed c + 1\<rparr>"

definition partial_gap :: "(nat \<times> nat) list \<Rightarrow> FileCoverage" where
  "partial_gap ranges = \<lparr>cov_kind = ParsePartial, cov_detail = dec (length ranges) @ '' error range(s)'', error_ranges = ranges\<rparr>"

definition skipped_gap :: "string \<Rightarrow> FileCoverage" where
  "skipped_gap reason = \<lparr>cov_kind = Skipped, cov_detail = reason, error_ranges = []\<rparr>"

definition quarantined_gap :: "string \<Rightarrow> FileCoverage" where
  "quarantined_gap reason = \<lparr>cov_kind = Quarantined, cov_detail = reason, error_ranges = []\<rparr>"

definition record_partial :: "string \<Rightarrow> (nat \<times> nat) list \<Rightarrow> CoverageCollector \<Rightarrow> CoverageCollector" where
  "record_partial rel ranges c = c\<lparr>col_files := btree_insert rel (partial_gap ranges) (col_files c)\<rparr>"

definition record_skipped :: "string \<Rightarrow> string \<Rightarrow> CoverageCollector \<Rightarrow> CoverageCollector" where
  "record_skipped rel reason c = c\<lparr>col_files := btree_insert rel (skipped_gap reason) (col_files c)\<rparr>"

definition record_quarantined :: "string \<Rightarrow> string \<Rightarrow> CoverageCollector \<Rightarrow> CoverageCollector" where
  "record_quarantined rel reason c = c\<lparr>col_files := btree_insert rel (quarantined_gap reason) (col_files c)\<rparr>"

definition record_pruned :: "string \<Rightarrow> string \<Rightarrow> CoverageCollector \<Rightarrow> CoverageCollector" where
  "record_pruned rel reason c = c\<lparr>col_pruned := btree_insert rel reason (col_pruned c)\<rparr>"

definition OUTSIDE_TARGETS_DETAIL :: string where
  "OUTSIDE_TARGETS_DETAIL = ''not in any Cargo target (cargo metadata --no-deps); declarations are indexed, calls cannot be resolved by the language server''"

definition outside_gap :: FileCoverage where
  "outside_gap = \<lparr>cov_kind = OutsideBuildTargets, cov_detail = OUTSIDE_TARGETS_DETAIL, error_ranges = []\<rparr>"

definition gated_gap :: "string \<Rightarrow> FileCoverage" where
  "gated_gap detail = \<lparr>cov_kind = FeatureGated, cov_detail = detail, error_ranges = []\<rparr>"

definition record_outside_targets :: "string \<Rightarrow> CoverageCollector \<Rightarrow> CoverageCollector" where
  "record_outside_targets rel c = c\<lparr>col_files := or_insert rel outside_gap (col_files c)\<rparr>"

definition record_feature_gated :: "string \<Rightarrow> string \<Rightarrow> CoverageCollector \<Rightarrow> CoverageCollector" where
  "record_feature_gated rel detail c = c\<lparr>col_files := or_insert rel (gated_gap detail) (col_files c)\<rparr>"

datatype ParseOutcome = FileIndexed | FilePartial "(nat \<times> nat) list" | FileSkipped string | FileQuarantined string

fun record_outcome :: "string \<Rightarrow> ParseOutcome \<Rightarrow> CoverageCollector \<Rightarrow> CoverageCollector" where
  "record_outcome rel FileIndexed c = note_indexed c"
| "record_outcome rel (FilePartial ranges) c = record_partial rel ranges (note_indexed c)"
| "record_outcome rel (FileSkipped reason) c = record_skipped rel reason c"
| "record_outcome rel (FileQuarantined reason) c = record_quarantined rel reason c"

record IacGaps =
  iac_partial :: "(string \<times> (nat \<times> nat) list) list"
  iac_skipped :: "(string \<times> string) list"

definition fold_iac_gaps :: "IacGaps \<Rightarrow> CoverageCollector \<Rightarrow> CoverageCollector" where
  "fold_iac_gaps gaps c =
     fold (\<lambda>(rel, reason). record_skipped rel reason) (iac_skipped gaps)
       (fold (\<lambda>(rel, ranges). record_partial rel ranges) (iac_partial gaps) c)"

record WalkOutcome =
  walk_files :: "string list"
  excluded_dirs :: "string list"
  unreadable_dirs :: "string list"
  walk_pruned :: "(string \<times> string) list"

record CargoAttributions =
  attr_status :: CargoAttributionStatus
  outside_targets :: "string list"
  attr_gated :: "(string \<times> string) list"

section \<open>A full run\<close>

definition record_walk :: "WalkOutcome \<Rightarrow> CoverageCollector \<Rightarrow> CoverageCollector" where
  "record_walk w c =
     fold (\<lambda>(rel, reason). record_pruned rel reason) (walk_pruned w)
      (fold (\<lambda>rel. record_skipped rel ''unreadable'') (unreadable_dirs w)
        (fold (\<lambda>rel. record_skipped rel ''user_excluded'') (excluded_dirs w) c))"

definition record_cargo_attributions :: "CargoAttributions \<Rightarrow> CoverageCollector \<Rightarrow> CoverageCollector" where
  "record_cargo_attributions found c =
     (fold (\<lambda>(rel, detail). record_feature_gated rel detail) (attr_gated found)
       (fold record_outside_targets (outside_targets found) c))\<lparr>col_attribution := Some (attr_status found)\<rparr>"

definition full_coverage :: "WalkOutcome \<Rightarrow> (string \<Rightarrow> ParseOutcome) \<Rightarrow> (string list \<Rightarrow> IacGaps) \<Rightarrow> CargoAttributions \<Rightarrow> CoverageReport" where
  "full_coverage w outcome iac found =
     (let c = record_walk w new_collector;
          c = fold (\<lambda>rel. record_outcome rel (outcome rel)) (walk_files w) c;
          n = col_indexed c;
          c = fold_iac_gaps (iac (walk_files w)) c;
          c = record_cargo_attributions found c
      in (new_report ''full'' n)\<lparr>cov_pruned := col_pruned c, cov_attribution := col_attribution c, cov_files := col_files c\<rparr>)"

section \<open>An incremental run\<close>

definition discover_gaps :: "WalkOutcome \<Rightarrow> CoverageCollector" where
  "discover_gaps w =
     fold (\<lambda>rel. record_skipped rel ''unreadable'') (unreadable_dirs w)
       (fold (\<lambda>(rel, reason). record_pruned rel reason) (walk_pruned w)
         (fold (\<lambda>rel. record_skipped rel ''user_excluded'') (excluded_dirs w) new_collector))"

fun record_reparse_outcome :: "string \<Rightarrow> ParseOutcome \<Rightarrow> CoverageCollector \<Rightarrow> CoverageCollector" where
  "record_reparse_outcome rel FileIndexed c = c"
| "record_reparse_outcome rel (FilePartial ranges) c = record_partial rel ranges c"
| "record_reparse_outcome rel (FileSkipped reason) c = record_skipped rel reason c"
| "record_reparse_outcome rel (FileQuarantined reason) c = record_quarantined rel reason c"

definition reparsed_files :: "ChangeSet \<Rightarrow> string list" where
  "reparsed_files ch = map d_rel (changed ch) @ map d_rel (added ch) @ map (\<lambda>r. d_rel (new_file r)) (renamed ch)"

text \<open>The coverage part of \<open>apply_changes\<close>: the files are parsed in the order changed, added, renamed; the pass
  over infrastructure files gets the reparsed files in the order in which they were found.\<close>

definition reparse_gaps :: "ChangeSet \<Rightarrow> Discovered list \<Rightarrow> (string \<Rightarrow> ParseOutcome) \<Rightarrow> (string list \<Rightarrow> IacGaps) \<Rightarrow> (string \<times> FileCoverage) list" where
  "reparse_gaps ch current outcome iac =
     (let c = fold (\<lambda>rel. record_reparse_outcome rel (outcome rel)) (reparsed_files ch) new_collector;
          again = filter (\<lambda>rel. rel \<in> set (reparsed_files ch)) (map d_rel current)
      in col_files (if again = [] then c else fold_iac_gaps (iac again) c))"

definition recomputed_kind :: "CoverageKind \<Rightarrow> bool" where
  "recomputed_kind k \<longleftrightarrow> k = OutsideBuildTargets \<or> k = UnlinkedFile \<or> k = FeatureGated"

definition extend :: "(string \<times> 'a) list \<Rightarrow> (string \<times> 'a) list \<Rightarrow> (string \<times> 'a) list" where
  "extend m extra = fold (\<lambda>(k, v). btree_insert k v) extra m"

definition merge_coverage :: "CoverageReport option \<Rightarrow> string set \<Rightarrow> string set \<Rightarrow> (string \<times> FileCoverage) list \<Rightarrow> string \<Rightarrow> nat \<Rightarrow> CoverageReport" where
  "merge_coverage prior reparsed_rels current_rels gaps mode n =
     (let report = new_report mode n;
          carried = (case prior of None \<Rightarrow> [] | Some p \<Rightarrow>
            extend [] (filter (\<lambda>(rel, cov). rel \<in> current_rels \<and> rel \<notin> reparsed_rels \<and> \<not> recomputed_kind (cov_kind cov)) (cov_files p)));
          report = report\<lparr>cov_files := extend carried gaps\<rparr>;
          cs = counts report
      in report\<lparr>cov_indexed := n - (skipped cs + quarantined cs)\<rparr>)"

definition overlay_cargo_attributions :: "CargoAttributions \<Rightarrow> CoverageReport \<Rightarrow> CoverageReport" where
  "overlay_cargo_attributions found report =
     report\<lparr>cov_files := fold (\<lambda>(rel, detail). or_insert rel (gated_gap detail)) (attr_gated found)
              (fold (\<lambda>rel. or_insert rel outside_gap) (outside_targets found) (cov_files report)),
            cov_attribution := Some (attr_status found)\<rparr>"

definition incremental_coverage :: "CoverageReport option \<Rightarrow> WalkOutcome \<Rightarrow> Discovered list \<Rightarrow> ChangeSet
    \<Rightarrow> (string \<Rightarrow> ParseOutcome) \<Rightarrow> (string list \<Rightarrow> IacGaps) \<Rightarrow> CargoAttributions \<Rightarrow> CoverageReport" where
  "incremental_coverage prior w current ch outcome iac found =
     (let walk = discover_gaps w;
          merged_gaps = extend (reparse_gaps ch current outcome iac) (col_files walk);
          report = merge_coverage prior (set (reparsed_files ch)) (set (map d_rel current)) merged_gaps ''incremental'' (length current);
          report = report\<lparr>cov_pruned := col_pruned walk\<rparr>
      in overlay_cargo_attributions found report)"

section \<open>The two reports agree on the files\<close>

fun gap_of :: "ParseOutcome \<Rightarrow> FileCoverage option" where
  "gap_of FileIndexed = None"
| "gap_of (FilePartial ranges) = Some (partial_gap ranges)"
| "gap_of (FileSkipped reason) = Some (skipped_gap reason)"
| "gap_of (FileQuarantined reason) = Some (quarantined_gap reason)"

text \<open>The pass over infrastructure files judges each file on its own: \<open>Inl\<close> incomplete, \<open>Inr\<close> not read.\<close>

type_synonym iac_judgement = "string \<rightharpoonup> (nat \<times> nat) list + string"

definition gaps_of :: "iac_judgement \<Rightarrow> string list \<Rightarrow> IacGaps" where
  "gaps_of g fs = \<lparr>iac_partial = List.map_filter (\<lambda>f. case g f of Some (Inl ranges) \<Rightarrow> Some (f, ranges) | _ \<Rightarrow> None) fs,
     iac_skipped = List.map_filter (\<lambda>f. case g f of Some (Inr reason) \<Rightarrow> Some (f, reason) | _ \<Rightarrow> None) fs\<rparr>"

definition iac_gap :: "(nat \<times> nat) list + string \<Rightarrow> FileCoverage" where
  "iac_gap j = (case j of Inl ranges \<Rightarrow> partial_gap ranges | Inr reason \<Rightarrow> skipped_gap reason)"

text \<open>What is known to be missing of a file before Cargo is asked.\<close>

definition own_gap :: "(string \<Rightarrow> ParseOutcome) \<Rightarrow> iac_judgement \<Rightarrow> string \<Rightarrow> FileCoverage option" where
  "own_gap outcome g f = (case g f of Some j \<Rightarrow> Some (iac_gap j) | None \<Rightarrow> gap_of (outcome f))"

definition lookup :: "CoverageCollector \<Rightarrow> string \<Rightarrow> FileCoverage option" where
  "lookup c = map_of (col_files c)"

lemma lookup_simps [simp]:
  "lookup (note_indexed c) = lookup c"
  "lookup (record_partial f ranges c) = (lookup c)(f \<mapsto> partial_gap ranges)"
  "lookup (record_skipped f reason c) = (lookup c)(f \<mapsto> skipped_gap reason)"
  "lookup (record_quarantined f reason c) = (lookup c)(f \<mapsto> quarantined_gap reason)"
  "lookup (record_pruned f reason c) = lookup c"
  "lookup new_collector = Map.empty"
  by (simp_all add: lookup_def note_indexed_def record_partial_def record_skipped_def record_quarantined_def record_pruned_def
      map_of_btree_insert new_collector_def)

lemma lookup_outcome: "lookup (record_outcome f x c) = (case gap_of x of Some cov \<Rightarrow> (lookup c)(f \<mapsto> cov) | None \<Rightarrow> lookup c)"
  and lookup_reparse: "lookup (record_reparse_outcome f x c) = (case gap_of x of Some cov \<Rightarrow> (lookup c)(f \<mapsto> cov) | None \<Rightarrow> lookup c)"
  by (cases x; simp)+

lemma lookup_outcomes:
  "lookup (fold (\<lambda>f. record_outcome f (x f)) fs c) f = (if f \<in> set fs \<and> gap_of (x f) \<noteq> None then gap_of (x f) else lookup c f)"
  by (induction fs arbitrary: c) (auto simp: lookup_outcome split: option.splits)

lemma lookup_reparses:
  "lookup (fold (\<lambda>f. record_reparse_outcome f (x f)) fs c) f = (if f \<in> set fs \<and> gap_of (x f) \<noteq> None then gap_of (x f) else lookup c f)"
  by (induction fs arbitrary: c) (auto simp: lookup_reparse split: option.splits)

lemma lookup_partials:
  "lookup (fold (\<lambda>(f, ranges). record_partial f ranges) (iac_partial (gaps_of g fs)) c) f =
     (case g f of Some (Inl ranges) \<Rightarrow> if f \<in> set fs then Some (partial_gap ranges) else lookup c f | _ \<Rightarrow> lookup c f)"
  by (induction fs arbitrary: c) (auto simp: gaps_of_def map_filter_simps split: option.splits sum.splits)

lemma lookup_skips:
  "lookup (fold (\<lambda>(f, reason). record_skipped f reason) (iac_skipped (gaps_of g fs)) c) f =
     (case g f of Some (Inr reason) \<Rightarrow> if f \<in> set fs then Some (skipped_gap reason) else lookup c f | _ \<Rightarrow> lookup c f)"
  by (induction fs arbitrary: c) (auto simp: gaps_of_def map_filter_simps split: option.splits sum.splits)

lemma lookup_iac:
  "lookup (fold_iac_gaps (gaps_of g fs) c) f = (if f \<in> set fs \<and> g f \<noteq> None then map_option iac_gap (g f) else lookup c f)"
  by (simp add: fold_iac_gaps_def lookup_partials lookup_skips iac_gap_def split: option.splits sum.splits)

lemma map_of_or_insert: "map_of (or_insert k v m) = (if map_of m k = None then (map_of m)(k \<mapsto> v) else map_of m)"
  by (simp add: or_insert_def map_of_btree_insert)

lemma map_of_extend: "ordered_keys extra \<Longrightarrow> map_of (extend m extra) = map_of m ++ map_of extra"
proof -
  have "map_of (extend m extra) = map_of m ++ map_of (rev extra)" unfolding extend_def
  proof (induction extra arbitrary: m)
    case (Cons p extra)
    then show ?case by (cases p) (simp add: map_of_btree_insert fun_eq_iff map_add_def split: option.splits)
  qed simp
  moreover assume "ordered_keys extra"
  then have "map_of (rev extra) = map_of extra"
    by (intro map_of_inject_set [THEN iffD2]) (simp_all add: rev_map [symmetric] ordered_distinct)
  ultimately show ?thesis by simp
qed

lemma ordered_extend: "ordered_keys m \<Longrightarrow> ordered_keys (extend m extra)"
  unfolding extend_def by (induction extra arbitrary: m) (auto simp: ordered_btree_insert)

lemma ordered_or_insert: "ordered_keys m \<Longrightarrow> ordered_keys (or_insert k v m)"
  by (simp add: or_insert_def ordered_btree_insert)

lemma fold_keeps: "(\<And>x c. P c \<Longrightarrow> P (f x c)) \<Longrightarrow> P c \<Longrightarrow> P (fold f xs c)"
  by (induction xs arbitrary: c) auto

definition tidy_collector :: "CoverageCollector \<Rightarrow> bool" where
  "tidy_collector c \<longleftrightarrow> ordered_keys (col_files c)"

lemma tidy_records [simp]:
  "tidy_collector new_collector"
  "tidy_collector c \<Longrightarrow> tidy_collector (record_partial f ranges c)"
  "tidy_collector c \<Longrightarrow> tidy_collector (record_skipped f reason c)"
  "tidy_collector c \<Longrightarrow> tidy_collector (record_quarantined f reason c)"
  "tidy_collector (record_pruned f reason c) = tidy_collector c"
  "tidy_collector (note_indexed c) = tidy_collector c"
  "tidy_collector c \<Longrightarrow> tidy_collector (record_outside_targets f c)"
  "tidy_collector c \<Longrightarrow> tidy_collector (record_feature_gated f detail c)"
  by (simp_all add: tidy_collector_def new_collector_def record_partial_def record_skipped_def record_quarantined_def
      record_pruned_def note_indexed_def record_outside_targets_def record_feature_gated_def ordered_btree_insert ordered_or_insert)
    (simp add: ordered_keys_def)

lemma tidy_outcome [simp]:
  "tidy_collector c \<Longrightarrow> tidy_collector (record_outcome f x c)"
  "tidy_collector c \<Longrightarrow> tidy_collector (record_reparse_outcome f x c)"
  by (cases x; simp)+

lemma tidy_folds:
  "tidy_collector c \<Longrightarrow> tidy_collector (fold_iac_gaps gaps c)"
  "tidy_collector c \<Longrightarrow> tidy_collector (record_walk w c)"
  "tidy_collector (discover_gaps w)"
  by (auto simp: fold_iac_gaps_def record_walk_def discover_gaps_def intro!: fold_keeps [where P = tidy_collector])

lemma lookup_skipped_dirs:
  "lookup (fold (\<lambda>f. record_skipped f reason) ds c) f = (if f \<in> set ds then Some (skipped_gap reason) else lookup c f)"
  by (induction ds arbitrary: c) auto

lemma lookup_pruned: "lookup (fold (\<lambda>(f, reason). record_pruned f reason) ps c) = lookup c"
  by (induction ps arbitrary: c) auto

lemma pruned_skipped_dirs: "col_pruned (fold (\<lambda>f. record_skipped f reason) ds c) = col_pruned c"
  by (induction ds arbitrary: c) (auto simp: record_skipped_def)

lemma pruned_fold: "col_pruned (fold (\<lambda>(f, reason). record_pruned f reason) ps c) = extend (col_pruned c) ps"
  unfolding extend_def by (induction ps arbitrary: c) (auto simp: record_pruned_def)

lemma walk_lookup: "lookup (record_walk w new_collector) = lookup (discover_gaps w)"
  and walk_dirs: "f \<notin> set (excluded_dirs w) \<union> set (unreadable_dirs w) \<Longrightarrow> lookup (discover_gaps w) f = None"
  and walk_pruned_eq: "col_pruned (record_walk w new_collector) = col_pruned (discover_gaps w)"
  by (auto simp: fun_eq_iff record_walk_def discover_gaps_def lookup_skipped_dirs lookup_pruned pruned_skipped_dirs pruned_fold)

lemma outcomes_keep:
  "col_pruned (fold (\<lambda>f. record_outcome f (x f)) fs c) = col_pruned c"
proof (induction fs arbitrary: c)
  case (Cons f fs)
  have "col_pruned (record_outcome f (x f) c) = col_pruned c"
    by (cases "x f") (auto simp: note_indexed_def record_partial_def record_skipped_def record_quarantined_def)
  then show ?case using Cons by simp
qed simp

lemma iac_keeps: "col_pruned (fold_iac_gaps gaps c) = col_pruned c"
proof -
  have "col_pruned (fold (\<lambda>(f, ranges). record_partial f ranges) ps d) = col_pruned d" for ps d
    by (induction ps arbitrary: d) (auto simp: record_partial_def)
  moreover have "col_pruned (fold (\<lambda>(f, reason). record_skipped f reason) ps d) = col_pruned d" for ps d
    by (induction ps arbitrary: d) (auto simp: record_skipped_def)
  ultimately show ?thesis by (simp add: fold_iac_gaps_def)
qed

definition cargo_overlay :: "CargoAttributions \<Rightarrow> (string \<times> FileCoverage) list \<Rightarrow> (string \<times> FileCoverage) list" where
  "cargo_overlay found m = fold (\<lambda>(f, detail). or_insert f (gated_gap detail)) (attr_gated found)
     (fold (\<lambda>f. or_insert f outside_gap) (outside_targets found) m)"

lemma record_cargo_files:
  "col_files (record_cargo_attributions found c) = cargo_overlay found (col_files c)"
  "col_pruned (record_cargo_attributions found c) = col_pruned c"
  "col_attribution (record_cargo_attributions found c) = Some (attr_status found)"
proof -
  have o: "col_files (fold record_outside_targets fs d) = fold (\<lambda>f. or_insert f outside_gap) fs (col_files d)
     \<and> col_pruned (fold record_outside_targets fs d) = col_pruned d" for fs d
    by (induction fs arbitrary: d) (auto simp: record_outside_targets_def)
  have g: "col_files (fold (\<lambda>(f, detail). record_feature_gated f detail) ps d) = fold (\<lambda>(f, detail). or_insert f (gated_gap detail)) ps (col_files d)
     \<and> col_pruned (fold (\<lambda>(f, detail). record_feature_gated f detail) ps d) = col_pruned d" for ps d
    by (induction ps arbitrary: d) (auto simp: record_feature_gated_def)
  show "col_files (record_cargo_attributions found c) = cargo_overlay found (col_files c)"
    "col_pruned (record_cargo_attributions found c) = col_pruned c"
    "col_attribution (record_cargo_attributions found c) = Some (attr_status found)"
    by (simp_all add: record_cargo_attributions_def cargo_overlay_def o g)
qed

definition carried_gap :: "CoverageReport option \<Rightarrow> string \<Rightarrow> FileCoverage option" where
  "carried_gap prior f =
     (case prior of None \<Rightarrow> None
      | Some p \<Rightarrow> (case map_of (cov_files p) f of Some cov \<Rightarrow> if recomputed_kind (cov_kind cov) then None else Some cov | None \<Rightarrow> None))"

definition ordered_report :: "CoverageReport option \<Rightarrow> bool" where
  "ordered_report prior \<longleftrightarrow> (case prior of None \<Rightarrow> True | Some p \<Rightarrow> ordered_keys (cov_files p))"

lemma map_of_filter_key:
  "distinct (map fst m) \<Longrightarrow> map_of (filter (\<lambda>(k, v). P k v) m) k = (case map_of m k of Some v \<Rightarrow> if P k v then Some v else None | None \<Rightarrow> None)"
proof (induction m)
  case (Cons p m)
  then show ?case by (cases p) (auto simp: map_of_eq_None_iff image_iff split: option.splits)
qed simp

lemma ordered_filter: "ordered_keys m \<Longrightarrow> ordered_keys (filter P m)"
  by (simp add: ordered_keys_def sorted_wrt_map sorted_wrt_filter)

lemma merge_files:
  assumes "ordered_report prior" "ordered_keys gaps"
  shows "map_of (cov_files (merge_coverage prior R C gaps mode n)) f =
      (case map_of gaps f of Some cov \<Rightarrow> Some cov | None \<Rightarrow> if f \<in> C \<and> f \<notin> R then carried_gap prior f else None)"
    "ordered_keys (cov_files (merge_coverage prior R C gaps mode n))"
proof -
  have "ordered_keys []" by (simp add: ordered_keys_def)
  then show "ordered_keys (cov_files (merge_coverage prior R C gaps mode n))"
    by (cases prior) (auto simp: merge_coverage_def Let_def intro!: ordered_extend)
  show "map_of (cov_files (merge_coverage prior R C gaps mode n)) f =
      (case map_of gaps f of Some cov \<Rightarrow> Some cov | None \<Rightarrow> if f \<in> C \<and> f \<notin> R then carried_gap prior f else None)"
  proof (cases prior)
    case None
    then show ?thesis using assms by (simp add: merge_coverage_def Let_def map_of_extend carried_gap_def split: option.splits)
  next
    case (Some p)
    then have o: "ordered_keys (cov_files p)" using assms by (simp add: ordered_report_def)
    show ?thesis using assms(2) Some
      by (auto simp: merge_coverage_def Let_def map_of_extend ordered_filter [OF o] map_add_def map_of_filter_key [OF ordered_distinct [OF o]]
          carried_gap_def split: option.splits)
  qed
qed

lemma reparse_files:
  assumes "set (reparsed_files ch) \<subseteq> set (map d_rel current)"
  shows "map_of (reparse_gaps ch current outcome (gaps_of g)) f = (if f \<in> set (reparsed_files ch) then own_gap outcome g f else None)"
    "ordered_keys (reparse_gaps ch current outcome (gaps_of g))"
proof -
  let ?c = "fold (\<lambda>rel. record_reparse_outcome rel (outcome rel)) (reparsed_files ch) new_collector"
  let ?again = "filter (\<lambda>rel. rel \<in> set (reparsed_files ch)) (map d_rel current)"
  have again: "set ?again = set (reparsed_files ch)" using assms by auto
  have t: "tidy_collector ?c" by (rule fold_keeps [where P = tidy_collector]) auto
  then show "ordered_keys (reparse_gaps ch current outcome (gaps_of g))"
    using tidy_folds(1) [OF t] by (simp add: reparse_gaps_def Let_def tidy_collector_def)
  have l: "lookup ?c f = (if f \<in> set (reparsed_files ch) then gap_of (outcome f) else None)" by (simp add: lookup_reparses)
  show "map_of (reparse_gaps ch current outcome (gaps_of g)) f = (if f \<in> set (reparsed_files ch) then own_gap outcome g f else None)"
  proof (cases "?again = []")
    case True
    then have "reparsed_files ch = []" using again by simp
    then show ?thesis by (simp add: reparse_gaps_def Let_def new_collector_def)
  next
    case False
    then have "map_of (reparse_gaps ch current outcome (gaps_of g)) f = lookup (fold_iac_gaps (gaps_of g ?again) ?c) f"
      by (simp add: reparse_gaps_def Let_def lookup_def)
    then show ?thesis unfolding lookup_iac l again by (auto simp: own_gap_def split: option.splits)
  qed
qed

lemma full_files:
  assumes "set (excluded_dirs w) \<union> set (unreadable_dirs w) \<subseteq> - set (walk_files w)"
  shows "\<exists>m. cov_files (full_coverage w outcome (gaps_of g) found) = cargo_overlay found m \<and> ordered_keys m
    \<and> map_of m = (\<lambda>f. if f \<in> set (walk_files w) then own_gap outcome g f else lookup (discover_gaps w) f)"
proof -
  let ?c = "fold_iac_gaps (gaps_of g (walk_files w)) (fold (\<lambda>rel. record_outcome rel (outcome rel)) (walk_files w) (record_walk w new_collector))"
  have "tidy_collector ?c" by (auto intro!: tidy_folds fold_keeps [where P = tidy_collector])
  moreover have "lookup ?c f = (if f \<in> set (walk_files w) then own_gap outcome g f else lookup (discover_gaps w) f)" for f
    using assms walk_dirs [of f w] unfolding lookup_iac lookup_outcomes walk_lookup by (auto simp: own_gap_def split: option.splits)
  ultimately show ?thesis
    by (intro exI [of _ "col_files ?c"]) (auto simp: full_coverage_def Let_def record_cargo_files tidy_collector_def lookup_def fun_eq_iff)
qed

text \<open>What Cargo says of a file shows only where nothing else is said of it, and is of another kind than what a file
  has of its own.\<close>

definition cargo_gap :: "CargoAttributions \<Rightarrow> string \<Rightarrow> FileCoverage option" where
  "cargo_gap found f = (if f \<in> set (outside_targets found) then Some outside_gap else map_option gated_gap (map_of (attr_gated found) f))"

lemma map_of_cargo_overlay: "map_of (cargo_overlay found m) f = (case map_of m f of Some cov \<Rightarrow> Some cov | None \<Rightarrow> cargo_gap found f)"
proof -
  have o: "map_of (fold (\<lambda>f. or_insert f outside_gap) fs m) f
      = (case map_of m f of Some cov \<Rightarrow> Some cov | None \<Rightarrow> if f \<in> set fs then Some outside_gap else None)" for fs
    by (induction fs arbitrary: m) (auto simp: map_of_or_insert split: option.splits if_splits)
  have g: "map_of (fold (\<lambda>(f, detail). or_insert f (gated_gap detail)) ps m) f
      = (case map_of m f of Some cov \<Rightarrow> Some cov | None \<Rightarrow> map_option gated_gap (map_of ps f))" for ps m
    by (induction ps arbitrary: m) (auto simp: map_of_or_insert split: option.splits if_splits)
  show ?thesis by (simp add: cargo_overlay_def g o cargo_gap_def split: option.splits)
qed

lemma gap_kinds:
  "own_gap outcome g f = Some cov \<Longrightarrow> \<not> recomputed_kind (cov_kind cov)"
  "carried_gap prior f = Some cov \<Longrightarrow> \<not> recomputed_kind (cov_kind cov)"
  "cargo_gap found f = Some cov \<Longrightarrow> recomputed_kind (cov_kind cov)"
proof -
  have "gap_of x = Some cov \<Longrightarrow> \<not> recomputed_kind (cov_kind cov)" for x
    by (cases x) (auto simp: partial_gap_def skipped_gap_def quarantined_gap_def recomputed_kind_def)
  then show "own_gap outcome g f = Some cov \<Longrightarrow> \<not> recomputed_kind (cov_kind cov)"
    by (auto simp: own_gap_def iac_gap_def partial_gap_def skipped_gap_def recomputed_kind_def split: option.splits sum.splits)
  show "carried_gap prior f = Some cov \<Longrightarrow> \<not> recomputed_kind (cov_kind cov)"
    by (auto simp: carried_gap_def split: option.splits if_splits)
  show "cargo_gap found f = Some cov \<Longrightarrow> recomputed_kind (cov_kind cov)"
    by (auto simp: cargo_gap_def outside_gap_def gated_gap_def recomputed_kind_def split: if_splits)
qed

text \<open>C8: an incremental run reports the same pruned directories and Cargo status as a full run of the same tree with
  the same parse outcomes, and the same files exactly when, for every file of the tree that is not parsed again, the
  report before it holds the gap that the file has (none for a file without a gap), the kinds that Cargo recomputes
  set aside. So without a usable report the gaps of the unchanged files are lost. The walk lists the current files, a
  directory that is excluded or cannot be read is not one of them, and only current files are parsed again.\<close>

theorem incremental_coverage_exact:
  assumes files: "map d_rel current = walk_files w"
    and dirs: "set (excluded_dirs w) \<union> set (unreadable_dirs w) \<subseteq> - set (walk_files w)"
    and ch: "set (reparsed_files ch) \<subseteq> set (walk_files w)"
    and prior: "ordered_report prior"
  shows "(cov_files (incremental_coverage prior w current ch outcome (gaps_of g) found) = cov_files (full_coverage w outcome (gaps_of g) found)
      \<longleftrightarrow> (\<forall>f \<in> set (walk_files w) - set (reparsed_files ch). carried_gap prior f = own_gap outcome g f))
    \<and> cov_pruned (incremental_coverage prior w current ch outcome (gaps_of g) found) = cov_pruned (full_coverage w outcome (gaps_of g) found)
    \<and> cov_attribution (incremental_coverage prior w current ch outcome (gaps_of g) found)
      = cov_attribution (full_coverage w outcome (gaps_of g) found)"
proof -
  let ?walk = "discover_gaps w"
  let ?gaps = "extend (reparse_gaps ch current outcome (gaps_of g)) (col_files ?walk)"
  let ?merged = "cov_files (merge_coverage prior (set (reparsed_files ch)) (set (map d_rel current)) ?gaps ''incremental'' (length current))"
  let ?same = "\<forall>f \<in> set (walk_files w) - set (reparsed_files ch). carried_gap prior f = own_gap outcome g f"
  have walk: "ordered_keys (col_files ?walk)" using tidy_folds(3) by (simp add: tidy_collector_def)
  note R = reparse_files [OF ch [folded files], of outcome g]
  have gaps: "ordered_keys ?gaps" using R(2) by (rule ordered_extend)
  have look: "map_of ?gaps f = (case lookup ?walk f of Some cov \<Rightarrow> Some cov
      | None \<Rightarrow> if f \<in> set (reparsed_files ch) then own_gap outcome g f else None)" for f
    by (simp add: map_of_extend [OF walk] map_add_def R(1) lookup_def split: option.splits)
  have merged: "map_of ?merged f = (if f \<in> set (walk_files w) then if f \<in> set (reparsed_files ch) then own_gap outcome g f
      else carried_gap prior f else lookup ?walk f)" for f
  proof (cases "f \<in> set (walk_files w)")
    case True
    then have "lookup ?walk f = None" using dirs by (intro walk_dirs) auto
    then show ?thesis using True files by (auto simp: merge_files(1) [OF prior gaps] look split: option.splits)
  next
    case False
    then show ?thesis using ch files by (auto simp: merge_files(1) [OF prior gaps] look split: option.splits)
  qed
  obtain m where m: "cov_files (full_coverage w outcome (gaps_of g) found) = cargo_overlay found m" "ordered_keys m"
    "map_of m = (\<lambda>f. if f \<in> set (walk_files w) then own_gap outcome g f else lookup ?walk f)" using full_files [OF dirs] by blast
  have inc: "cov_files (incremental_coverage prior w current ch outcome (gaps_of g) found) = cargo_overlay found ?merged"
    by (simp add: incremental_coverage_def Let_def overlay_cargo_attributions_def cargo_overlay_def)
  have "cargo_overlay found ?merged = cargo_overlay found m \<longleftrightarrow> ?same"
  proof
    assume ?same
    then have "map_of ?merged f = map_of m f" for f unfolding merged m(3) by auto
    then have "?merged = m" by (intro ordered_map_eq [OF merge_files(2) [OF prior gaps] m(2)]) (simp only: fun_eq_iff simp_thms)
    then show "cargo_overlay found ?merged = cargo_overlay found m" by simp
  next
    assume eq: "cargo_overlay found ?merged = cargo_overlay found m"
    have "carried_gap prior f = own_gap outcome g f" if "f \<in> set (walk_files w)" "f \<notin> set (reparsed_files ch)" for f
    proof -
      have "(case carried_gap prior f of Some cov \<Rightarrow> Some cov | None \<Rightarrow> cargo_gap found f)
          = (case own_gap outcome g f of Some cov \<Rightarrow> Some cov | None \<Rightarrow> cargo_gap found f)"
        using map_of_cargo_overlay [of found ?merged f, unfolded eq merged] map_of_cargo_overlay [of found m f, unfolded m(3)] that
        by simp
      then show ?thesis using gap_kinds(1) [of outcome g f] gap_kinds(2) [of prior f] gap_kinds(3) [of found f]
        by (cases "carried_gap prior f"; cases "own_gap outcome g f"; cases "cargo_gap found f") auto
    qed
    then show ?same by simp
  qed
  then show ?thesis using m(1) inc
    by (simp add: incremental_coverage_def Let_def overlay_cargo_attributions_def full_coverage_def record_cargo_files
        outcomes_keep iac_keeps walk_pruned_eq)
qed

text \<open>The report of a full run carries what it should: so an incremental run after a full run of the tree before, whose
  unchanged files parse as they did, reports what a full run would.\<close>

lemma full_report_carries:
  assumes "set (excluded_dirs w) \<union> set (unreadable_dirs w) \<subseteq> - set (walk_files w)" "f \<in> set (walk_files w)"
  shows "carried_gap (Some (full_coverage w outcome (gaps_of g) found)) f = own_gap outcome g f"
proof -
  obtain m where m: "cov_files (full_coverage w outcome (gaps_of g) found) = cargo_overlay found m"
    "map_of m = (\<lambda>f. if f \<in> set (walk_files w) then own_gap outcome g f else lookup (discover_gaps w) f)"
    using full_files [OF assms(1)] by blast
  show ?thesis using assms(2) gap_kinds(1) [of outcome g f] gap_kinds(3) [of found f]
    by (auto simp: carried_gap_def m map_of_cargo_overlay split: option.splits)
qed

definition demo_walk :: WalkOutcome where
  "demo_walk = \<lparr>walk_files = [''a.rs'', ''b.rs''], excluded_dirs = [''vendor''], unreadable_dirs = [], walk_pruned = [(''target'', ''build output'')]\<rparr>"

definition demo_current :: "Discovered list" where
  "demo_current = [file_at ''a.rs'' 1, file_at ''b.rs'' 2]"

definition demo_outcome :: "string \<Rightarrow> ParseOutcome" where
  "demo_outcome f = (if f = ''a.rs'' then FilePartial [(3, 4)] else FileIndexed)"

definition demo_found :: CargoAttributions where
  "demo_found = \<lparr>attr_status = Known, outside_targets = [], attr_gated = [(''b.rs'', ''feature x'')]\<rparr>"

definition demo_changes :: ChangeSet where
  "demo_changes = \<lparr>changed = [file_at ''b.rs'' 2], added = [], deleted = [], renamed = []\<rparr>"

definition demo_report :: CoverageReport where
  "demo_report = full_coverage demo_walk demo_outcome (gaps_of Map.empty) demo_found"

lemma incremental_coverage_exact_witness:
  "cov_files (incremental_coverage (Some demo_report) demo_walk demo_current demo_changes demo_outcome (gaps_of Map.empty) demo_found)
     = cov_files demo_report \<and> map fst (cov_files demo_report) = [''a.rs'', ''b.rs'', ''vendor''] \<and>
   cov_files (incremental_coverage None demo_walk demo_current demo_changes demo_outcome (gaps_of Map.empty) demo_found)
     \<noteq> cov_files demo_report"
proof -
  have k: "map fst (cov_files demo_report) = [''a.rs'', ''b.rs'', ''vendor'']" by code_simp
  then have o: "ordered_report (Some demo_report)" "ordered_report None" by (simp_all add: ordered_report_def ordered_keys_def)
  have f: "map d_rel demo_current = walk_files demo_walk" by code_simp
  have w: "set (walk_files demo_walk) - set (reparsed_files demo_changes) = {''a.rs''}" by code_simp
  have c: "own_gap demo_outcome Map.empty ''a.rs'' = Some (partial_gap [(3, 4)])" by code_simp
  have d: "set (excluded_dirs demo_walk) \<union> set (unreadable_dirs demo_walk) \<subseteq> - set (walk_files demo_walk)"
    by (simp add: demo_walk_def)
  then have "carried_gap (Some demo_report) ''a.rs'' = own_gap demo_outcome Map.empty ''a.rs''"
    unfolding demo_report_def by (rule full_report_carries) (simp add: demo_walk_def)
  moreover have "set (reparsed_files demo_changes) \<subseteq> set (walk_files demo_walk)" by code_simp
  ultimately show ?thesis
    using incremental_coverage_exact [OF f d _ o(1), of demo_changes demo_outcome Map.empty demo_found]
      incremental_coverage_exact [OF f d _ o(2), of demo_changes demo_outcome Map.empty demo_found] w c k
    by (simp add: demo_report_def carried_gap_def)
qed

text \<open>A defect. The number of indexed files is the number of files without the skipped and quarantined entries,
  and a directory that the user excluded is such an entry: in the report of an incremental run it is subtracted
  from the files. Of two indexed files beside one excluded directory the full report counts two, the incremental one.\<close>

theorem excluded_directory_subtracted:
  "cov_indexed demo_report = 2
   \<and> cov_indexed (incremental_coverage (Some demo_report) demo_walk demo_current demo_changes demo_outcome (gaps_of Map.empty) demo_found) = 1"
  by (intro conjI; code_simp)

end
