(* ===== verification/LspWire.thy ===== *)
theory LspWire
  imports PercentCodec GraphWrite Json
begin

text \<open>
  What goes over the pipes to a language server (\<open>src/lsp_client/\<close>): the \<open>file://\<close> URIs (\<open>uri.rs\<close>), the
  frames with their \<open>Content-Length\<close> header (\<open>protocol.rs\<close>) and the thread that cuts the output of the server
  into frames (\<open>frames.rs\<close>). The output is a list of bytes that ends with the end of the stream. Parameters are
  \<open>String::from_utf8_lossy\<close> on text that is no UTF-8, and the parser and printer of \<open>serde_json\<close>.
\<close>

section \<open>URIs\<close>

definition uri_keep :: "char \<Rightarrow> bool" where
  "uri_keep c \<longleftrightarrow> is_alnum c \<or> c \<in> set ''-._~/''"

fun uri_encode :: "string \<Rightarrow> string" where
  "uri_encode [] = []"
| "uri_encode (c # s) =
     (if uri_keep c then c # uri_encode s
      else CHR ''%'' # hex_digit_upper (byte c div 16) # hex_digit_upper (byte c mod 16) # uri_encode s)"

definition path_to_file_uri :: "string \<Rightarrow> string" where
  "path_to_file_uri path = ''file://'' @ uri_encode path"

fun uri_decode :: "string \<Rightarrow> string" where
  "uri_decode (CHR ''%'' # h # l # s) =
     (if is_hexdigit h \<and> is_hexdigit l
      then (case parse_hex 256 [h, l] of Some b \<Rightarrow> char_of b | None \<Rightarrow> CHR ''%'') # uri_decode s
      else CHR ''%'' # uri_decode (h # l # s))"
| "uri_decode (c # s) = c # uri_decode s"
| "uri_decode [] = []"

definition strip_file_scheme_and_authority :: "string \<Rightarrow> string option" where
  "strip_file_scheme_and_authority uri =
     (case strip_prefix uri ''file://'' of
        None \<Rightarrow> None
      | Some rest \<Rightarrow>
          (case find_str ''/'' rest of
             None \<Rightarrow> None
           | Some path_start \<Rightarrow>
               let authority = take path_start rest in
               if authority = [] \<or> map to_lower authority = ''localhost'' then Some (drop path_start rest) else None))"

definition file_uri_to_path :: "(string \<Rightarrow> string) \<Rightarrow> string \<Rightarrow> string option" where
  "file_uri_to_path lossy uri =
     map_option (\<lambda>encoded. let out = uri_decode encoded in if utf8_valid out then out else lossy out)
       (strip_file_scheme_and_authority uri)"

lemma uri_decode_plain: "c \<noteq> CHR ''%'' \<Longrightarrow> uri_decode (c # s) = c # uri_decode s"
  by (cases "c # s" rule: uri_decode.cases) auto

interpretation file_uri: percent_codec uri_keep uri_encode "\<lambda>s. Some (uri_decode s)"
proof unfold_locales
  show "\<not> uri_keep CHR ''%''" by (simp add: uri_keep_def is_alnum_def is_digit_def is_upper_def is_lower_def byte_simps)
  fix h l b and s :: string
  assume "is_hexdigit h" "is_hexdigit l" "parse_hex 256 [h, l] = Some b"
  then show "Some (uri_decode (CHR ''%'' # h # l # s)) = map_option ((#) (char_of b)) (Some (uri_decode s))" by simp
qed (simp_all add: uri_decode_plain)

text \<open>The URI of an absolute path reads back as the path.\<close>

theorem file_uri_round_trip:
  assumes "starts_with path ''/''" "utf8_valid path"
  shows "file_uri_to_path lossy (path_to_file_uri path) = Some path"
proof -
  obtain p where p: "path = CHR ''/'' # p" using assms(1) by (cases path) (auto simp: starts_with_def)
  have k: "uri_keep CHR ''/''" by (simp add: uri_keep_def)
  have "strip_prefix (path_to_file_uri path) ''file://'' = Some (uri_encode path)"
    by (simp add: strip_prefix_def path_to_file_uri_def starts_with_def)
  moreover have "find_str ''/'' (uri_encode path) = Some 0" by (simp add: p k starts_with_def)
  ultimately have "strip_file_scheme_and_authority (path_to_file_uri path) = Some (uri_encode path)"
    by (simp add: strip_file_scheme_and_authority_def)
  then show ?thesis using file_uri.dec_enc [of path] assms(2) by (simp add: file_uri_to_path_def)
qed

lemma file_uri_round_trip_witness:
  "file_uri_to_path (\<lambda>b. b) (path_to_file_uri ''/src/a b%.rs'') = Some ''/src/a b%.rs''"
  by (rule file_uri_round_trip) (simp_all add: starts_with_def utf8_valid_ascii is_ascii_def byte_simps)

section \<open>Frames\<close>

datatype FrameError = Payload string | Fatal string | Timeout string

fun message :: "FrameError \<Rightarrow> string" where
  "message (Payload m) = m" | "message (Fatal m) = m" | "message (Timeout m) = m"

fun is_skippable :: "FrameError \<Rightarrow> bool" where
  "is_skippable (Payload m) = True" | "is_skippable e = False"

definition write_lsp_message :: "string \<Rightarrow> string" where
  "write_lsp_message msg = ''Content-Length: '' @ dec (length msg) @ [CHR 0x0D, CHR 0x0A, CHR 0x0D, CHR 0x0A] @ msg"

definition LF :: char where "LF = CHR 0x0A"

text \<open>\<open>read_line\<close>: the bytes up to and with the next newline, or up to the end of the stream.\<close>

definition read_line :: "string \<Rightarrow> string \<times> string" where
  "read_line s = (takeWhile (\<lambda>c. c \<noteq> LF) s @ take 1 (dropWhile (\<lambda>c. c \<noteq> LF) s), drop 1 (dropWhile (\<lambda>c. c \<noteq> LF) s))"

lemma read_line_split: "read_line s = (line, rest) \<Longrightarrow> s = line @ rest"
  by (auto simp: read_line_def simp del: take_Suc)

lemma read_line_shorter: "s \<noteq> [] \<Longrightarrow> length (snd (read_line s)) < length s"
proof -
  assume s: "s \<noteq> []"
  obtain line rest where r: "read_line s = (line, rest)" by (cases "read_line s")
  have "line \<noteq> []" using s r by (cases s) (auto simp: read_line_def split: if_splits)
  then show ?thesis using read_line_split [OF r] r by simp
qed

function read_headers :: "nat option \<Rightarrow> bool \<Rightarrow> string \<Rightarrow> (FrameError + nat option) \<times> string" where
  "read_headers content_length saw_any_byte s =
     (if s = [] then (Inl (Fatal (if saw_any_byte then ''eof_before_body: partial header then EOF''
        else ''eof_before_header: child stdout closed without LSP framing'')), [])
      else case read_line s of (line, rest) \<Rightarrow>
        if \<not> utf8_valid line then (Inl (Fatal ''read header line: stream did not contain valid UTF-8''), rest)
        else let trimmed = trim line in
          if trimmed = [] then (Inr content_length, rest)
          else read_headers (case strip_prefix trimmed ''Content-Length:'' of
              Some r \<Rightarrow> parse_dec (2 ^ 64) (trim r) | None \<Rightarrow> content_length) True rest)"
  by pat_completeness auto
termination read_headers
proof (relation "measure (\<lambda>(n, b, s). length s)", goal_cases)
  case (2 n b s line rest)
  have "length rest < length s" using read_line_shorter [OF 2(1)] 2(2) by (metis snd_conv)
  then show ?case by simp
qed simp

declare read_headers.simps [simp del]

text \<open>\<open>None\<close> is a panic: a buffer of more than \<open>isize::MAX\<close> bytes cannot be allocated.\<close>

type_synonym frame = "FrameError + json"

definition read_lsp_message :: "(string \<Rightarrow> json option) \<Rightarrow> string \<Rightarrow> (frame \<times> string) option" where
  "read_lsp_message from_slice s =
     (case read_headers None False s of
        (Inl e, rest) \<Rightarrow> Some (Inl e, rest)
      | (Inr None, rest) \<Rightarrow> Some (Inl (Fatal ''missing Content-Length header''), rest)
      | (Inr (Some len), rest) \<Rightarrow>
          if 2 ^ 63 \<le> len then None
          else if length rest < len then Some (Inl (Fatal (''read body ('' @ dec len @ '' bytes): failed to fill whole buffer'')), [])
          else Some (case from_slice (take len rest) of
              Some v \<Rightarrow> Inr v | None \<Rightarrow> Inl (Payload ''parse JSON body: {e}''), drop len rest))"

lemma read_headers_result:
  "read_headers n b s = (r, rest) \<Longrightarrow> (\<exists>m. r = Inl (Fatal m)) \<or> (\<exists>x. r = Inr x \<and> length rest < length s)"
proof (induction n b s arbitrary: r rest rule: read_headers.induct)
  case (1 n b s)
  show ?case
  proof (cases "s = []")
    case False
    obtain line rest' where l: "read_line s = (line, rest')" by (cases "read_line s")
    then have len: "length rest' < length s" using read_line_shorter [OF False] by simp
    show ?thesis
    proof (cases "utf8_valid line \<and> trim line \<noteq> []")
      case True
      let ?n = "case strip_prefix (trim line) ''Content-Length:'' of Some r \<Rightarrow> parse_dec (2 ^ 64) (trim r) | None \<Rightarrow> n"
      have "read_headers ?n True rest' = (r, rest)"
        using True "1.prems" False l by (simp add: read_headers.simps [of n b s] Let_def)
      then have "(\<exists>m. r = Inl (Fatal m)) \<or> (\<exists>x. r = Inr x \<and> length rest < length rest')"
        using "1.IH" [OF False l [symmetric]] True by simp
      then show ?thesis using len by auto
    next
      case False
      then show ?thesis using "1.prems" \<open>s \<noteq> []\<close> l len by (auto simp: read_headers.simps [of n b s] Let_def split: if_splits)
    qed
  next
    case True
    then show ?thesis using "1.prems" by (cases b) (auto simp: read_headers.simps [of n _ "[]"])
  qed
qed

lemma read_message_shorter:
  assumes "read_lsp_message from_slice s = Some (frame, rest)" "\<forall>m. frame \<noteq> Inl (Fatal m)"
  shows "length rest < length s"
proof -
  obtain r rest' where h: "read_headers None False s = (r, rest')" by (cases "read_headers None False s")
  from read_headers_result [OF h] show ?thesis
    using assms by (auto simp: read_lsp_message_def h split: option.splits if_splits)
qed

text \<open>The reader thread sends every frame and stops after a fatal one, or when it panics.\<close>

function frames_of :: "(string \<Rightarrow> json option) \<Rightarrow> string \<Rightarrow> frame list" where
  "frames_of from_slice s =
     (case read_lsp_message from_slice s of
        None \<Rightarrow> []
      | Some (Inl (Fatal m), rest) \<Rightarrow> [Inl (Fatal m)]
      | Some (frame, rest) \<Rightarrow> frame # frames_of from_slice rest)"
  by pat_completeness auto
termination frames_of
  by (relation "measure (\<lambda>(f, s). length s)") (auto dest: read_message_shorter)

declare frames_of.simps [simp del]


section \<open>Frames read back\<close>

definition ascii_white :: "char \<Rightarrow> bool" where
  "ascii_white c \<longleftrightarrow> 9 \<le> byte c \<and> byte c \<le> 13 \<or> byte c = 32"

lemma white_ascii: "list_all is_ascii w \<Longrightarrow> is_whitespace w \<longleftrightarrow> length w = 1 \<and> ascii_white (hd w)"
  by (cases w rule: remdups_adj.cases; cases "tl (tl w)"; cases "tl (tl (tl w))")
    (auto simp: is_whitespace_def ascii_white_def is_ascii_def)

lemma trim_start_ascii: "list_all is_ascii s \<Longrightarrow> trim_start s = dropWhile ascii_white s"
proof (induction s rule: length_induct)
  case (1 s)
  have ta: "list_all is_ascii (take n s)" for n using "1.prems" by (auto simp: list_all_iff dest: in_set_takeD)
  have w: "starts_white n s \<longleftrightarrow> n = 1 \<and> s \<noteq> [] \<and> ascii_white (hd s)" if "n \<in> {1, 2, 3}" for n
    using that white_ascii [OF ta, of n] by (cases s) (auto simp: starts_white_def)
  show ?case
  proof (cases s)
    case Nil
    then show ?thesis by (subst trim_start.simps) (simp add: starts_white_def)
  next
    case (Cons c s')
    then show ?thesis using w [of 1] w [of 2] w [of 3] "1.IH" "1.prems" by (subst trim_start.simps) auto
  qed
qed

lemma trim_end_ascii: "list_all is_ascii s \<Longrightarrow> trim_end s = rev (dropWhile ascii_white (rev s))"
proof (induction s rule: length_induct)
  case (1 s)
  have ta: "list_all is_ascii (drop n s)" for n using "1.prems" by (auto simp: list_all_iff dest: in_set_dropD)
  have w: "ends_white n s \<longleftrightarrow> n = 1 \<and> s \<noteq> [] \<and> ascii_white (last s)" if "n \<in> {1, 2, 3}" for n
  proof (cases "n \<le> length s")
    case True
    then have "length (drop (length s - n) s) = n" by simp
    then show ?thesis using True that white_ascii [OF ta, of "length s - n"]
      by (cases s rule: rev_cases) (auto simp: ends_white_def)
  qed (use that in \<open>cases s; auto simp: ends_white_def\<close>)
  show ?case
  proof (cases s rule: rev_cases)
    case Nil
    then show ?thesis by (subst trim_end.simps) (simp add: ends_white_def)
  next
    case (snoc s' c)
    then show ?thesis using w [of 1] w [of 2] w [of 3] "1.IH" "1.prems" by (subst trim_end.simps) auto
  qed
qed

lemma trim_ascii: "list_all is_ascii s \<Longrightarrow> trim s = rev (dropWhile ascii_white (rev (dropWhile ascii_white s)))"
  by (simp add: trim_def trim_start_ascii trim_end_ascii list_all_iff) (metis trim_end_ascii list_all_iff set_dropWhileD)

lemma dec_ascii: "c \<in> set (dec n) \<Longrightarrow> is_ascii c \<and> \<not> ascii_white c \<and> c \<noteq> LF"
  using dec_digits [of n] by (auto simp: list_all_iff is_ascii_def ascii_white_def LF_def is_digit_def byte_simps)

lemma dropWhile_dec: "dropWhile ascii_white (dec n) = dec n" "dropWhile ascii_white (rev (dec n)) = rev (dec n)"
proof -
  have "\<not> ascii_white (hd (dec n))" "\<not> ascii_white (last (dec n))" using dec_ascii [of _ n] hd_in_set [of "dec n"] last_in_set [of "dec n"] by auto
  then show "dropWhile ascii_white (dec n) = dec n" "dropWhile ascii_white (rev (dec n)) = rev (dec n)"
    by (simp_all add: dropWhile_eq_self_iff hd_rev)
qed

lemma trim_dec: "trim (CHR '' '' # dec n) = dec n"
proof -
  have "ascii_white CHR '' ''" by (simp add: ascii_white_def byte_simps)
  moreover have "list_all is_ascii (CHR '' '' # dec n)" using dec_ascii [of _ n] by (auto simp: list_all_iff is_ascii_def byte_simps)
  ultimately show ?thesis by (simp add: trim_ascii dropWhile_dec)
qed

lemma read_line_until: "LF \<notin> set line \<Longrightarrow> read_line (line @ LF # rest) = (line @ [LF], rest)"
  by (induction line) (auto simp: read_line_def)

definition header_line :: "nat \<Rightarrow> string" where
  "header_line n = ''Content-Length: '' @ dec n @ [CHR 0x0D]"

lemma header_line_facts:
  "LF \<notin> set (header_line n)" "list_all is_ascii (header_line n @ [LF])" "trim (header_line n @ [LF]) = ''Content-Length: '' @ dec n"
proof -
  show f: "LF \<notin> set (header_line n)" using dec_ascii [of LF n] by (auto simp: header_line_def LF_def)
  have a: "list_all is_ascii (dec n)" using dec_ascii by (auto simp: list_all_iff)
  then show asc: "list_all is_ascii (header_line n @ [LF])"
    by (simp add: header_line_def LF_def) (simp add: is_ascii_def byte_simps)
  have w: "ascii_white (CHR 0x0D)" "ascii_white LF" "\<not> ascii_white (CHR ''C'')" by (simp_all add: ascii_white_def byte_simps LF_def)
  have "dropWhile ascii_white (rev (''Content-Length: '' @ dec n)) = rev (''Content-Length: '' @ dec n)"
    using dropWhile_dec(2) [of n] by (simp add: dropWhile_append1 dropWhile_eq_self_iff hd_append)
  then have "dropWhile ascii_white (rev (header_line n @ [LF])) = rev (''Content-Length: '' @ dec n)"
    using w by (simp add: header_line_def)
  moreover have "dropWhile ascii_white (header_line n @ [LF]) = header_line n @ [LF]" using w by (simp add: header_line_def)
  ultimately show "trim (header_line n @ [LF]) = ''Content-Length: '' @ dec n" by (simp add: trim_ascii [OF asc])
qed

lemma write_message_lines: "write_lsp_message msg = header_line (length msg) @ LF # [CHR 0x0D] @ LF # msg"
  by (simp add: write_lsp_message_def header_line_def LF_def)

lemma read_headers_written:
  assumes "length msg < 2 ^ 64"
  shows "read_headers None False (write_lsp_message msg @ rest) = (Inr (Some (length msg)), msg @ rest)"
proof -
  have blank: "list_all is_ascii [CHR 0x0D, LF]" "trim [CHR 0x0D, LF] = []"
  proof -
    show a: "list_all is_ascii [CHR 0x0D, LF]" by (simp add: is_ascii_def byte_simps LF_def)
    have "ascii_white (CHR 0x0D)" "ascii_white LF" by (simp_all add: ascii_white_def byte_simps LF_def)
    then show "trim [CHR 0x0D, LF] = []" by (simp add: trim_ascii [OF a])
  qed
  have l2: "read_line ([CHR 0x0D] @ LF # msg @ rest) = ([CHR 0x0D] @ [LF], msg @ rest)"
    by (rule read_line_until) (simp add: LF_def)
  have two: "read_headers x b ([CHR 0x0D] @ LF # msg @ rest) = (Inr x, msg @ rest)" for x b
    using blank utf8_valid_ascii [of "[CHR 0x0D, LF]"] l2 by (subst read_headers.simps) simp
  have l1: "read_line (write_lsp_message msg @ rest) = (header_line (length msg) @ [LF], [CHR 0x0D] @ LF # msg @ rest)"
    using read_line_until [OF header_line_facts(1), of "length msg" "[CHR 0x0D] @ LF # msg @ rest"] by (simp add: write_message_lines)
  have u: "utf8_valid (header_line (length msg) @ [LF])" using header_line_facts(2) by (intro utf8_valid_ascii)
  have sp: "strip_prefix (''Content-Length: '' @ dec (length msg)) ''Content-Length:'' = Some (CHR '' '' # dec (length msg))"
    by (simp add: strip_prefix_def starts_with_def)
  have "write_lsp_message msg \<noteq> []" by (simp add: write_lsp_message_def)
  then have "read_headers None False (write_lsp_message msg @ rest)
      = read_headers (Some (length msg)) True ([CHR 0x0D] @ LF # msg @ rest)"
    using l1 u header_line_facts(3) [of "length msg"] sp trim_dec parse_dec_dec [OF assms]
    by (subst read_headers.simps) (simp add: Let_def)
  then show ?thesis by (simp only: two)
qed

definition frame_of :: "(string \<Rightarrow> json option) \<Rightarrow> string \<Rightarrow> frame" where
  "frame_of from_slice msg = (case from_slice msg of Some v \<Rightarrow> Inr v | None \<Rightarrow> Inl (Payload ''parse JSON body: {e}''))"

lemma frames_of_written:
  assumes "length msg < 2 ^ 63"
  shows "frames_of from_slice (write_lsp_message msg @ rest) = frame_of from_slice msg # frames_of from_slice rest"
proof -
  have "length msg < 2 ^ 64" using assms by simp
  then have "read_lsp_message from_slice (write_lsp_message msg @ rest) = Some (frame_of from_slice msg, rest)"
    using assms by (simp add: read_lsp_message_def read_headers_written frame_of_def)
  then show ?thesis by (subst frames_of.simps) (simp add: frame_of_def split: option.splits)
qed

text \<open>C27: the frames that one side writes are the frames the other side reads, in order, up to the end of the
  stream. A body that is no JSON costs its own frame only: the reader stays in step and reads the next one.\<close>

theorem frames_read_back:
  assumes "list_all (\<lambda>msg. length msg < 2 ^ 63) msgs"
  shows "frames_of from_slice (concat (map write_lsp_message msgs)) =
    map (frame_of from_slice) msgs @ [Inl (Fatal ''eof_before_header: child stdout closed without LSP framing'')]"
  using assms
proof (induction msgs)
  case Nil
  have "read_lsp_message from_slice [] = Some (Inl (Fatal ''eof_before_header: child stdout closed without LSP framing''), [])"
    by (simp add: read_lsp_message_def read_headers.simps)
  then show ?case by (subst frames_of.simps) simp
qed (simp add: frames_of_written)

definition demo_slice :: "string \<Rightarrow> json option" where
  "demo_slice s = (if s = ''{}'' then Some (JObj []) else None)"

lemma frames_read_back_witness:
  "frames_of demo_slice (write_lsp_message ''{bad'' @ write_lsp_message ''{}'') =
     [Inl (Payload ''parse JSON body: {e}''), Inr (JObj []), Inl (Fatal ''eof_before_header: child stdout closed without LSP framing'')]"
  using frames_read_back [of "[''{bad'', ''{}'']" demo_slice] by (simp add: frame_of_def demo_slice_def)

end
