(* ===== verification/LspSession.thy ===== *)
theory LspSession
  imports LspWire "HOL-Library.Word"
begin

text \<open>
  The conversation with a language server (\<open>src/lsp_client.rs\<close> and \<open>protocol.rs\<close>, \<open>health.rs\<close>,
  \<open>readiness.rs\<close>, \<open>diagnostics.rs\<close>, \<open>commands.rs\<close> of \<open>src/lsp_client/\<close>): which command may be
  started, the two loops that wait for the server, and what is read from its answers.

  The server is whatever it likes to be. A \<open>server\<close> is the record of one call: \<open>now k\<close> is the clock at the
  head of the \<open>k\<close>-th turn of a loop, \<open>later k\<close> the clock when that turn reads it again, \<open>recv k\<close> what
  \<open>recv_timeout\<close> returned in it (turn 0 is before the loop). Times are in milliseconds. A loop that waits is a
  \<open>partial_function\<close>, so that it returns is part of what is proved; both loops are instances of one
  contract, the locale \<open>poll_loop\<close>. Parameters are the printers of \<open>serde_json\<close> and of \<open>Duration\<close>.
\<close>

section \<open>Commands\<close>

definition LSP_COMMAND_ALLOWLIST :: "string list" where
  "LSP_COMMAND_ALLOWLIST = [''rust-analyzer'', ''pyright'', ''pyright-langserver'', ''typescript-language-server'']"

definition detect_lsp_command :: "string \<Rightarrow> (string \<times> string list) option" where
  "detect_lsp_command language =
     (if language = ''rust'' then Some (''rust-analyzer'', [])
      else if language = ''python'' then Some (''pyright-langserver'', [''--stdio''])
      else if language = ''typescript'' then Some (''typescript-language-server'', [''--stdio''])
      else None)"

text \<open>\<open>debug\<close> is the text that \<open>{:?}\<close> prints for a string.\<close>

definition validate_lsp_command :: "(string \<Rightarrow> string) \<Rightarrow> string \<Rightarrow> string + unit" where
  "validate_lsp_command debug cmd =
     (if contains cmd ''/'' \<or> contains cmd [CHR 0x5C]
      then Inl (''lsp_command_not_allowed: path separators are forbidden (got '' @ debug cmd @ '')'')
      else if cmd \<notin> set LSP_COMMAND_ALLOWLIST
      then Inl (''lsp_command_not_allowed: '' @ debug cmd @ '' not in allowlist [\"rust-analyzer\", \"pyright\", \"pyright-langserver\", \"typescript-language-server\"]'')
      else Inr ())"

section \<open>Reading messages\<close>

text \<open>\<open>Value::get\<close> with a key, and a \<open>Value::pointer\<close> of object keys.\<close>

definition at :: "json \<Rightarrow> string \<Rightarrow> json option" where
  "at v key = (case as_object v of None \<Rightarrow> None | Some m \<Rightarrow> get m key)"

fun at_path :: "json \<Rightarrow> string list \<Rightarrow> json option" where
  "at_path v [] = Some v"
| "at_path v (key # keys) = (case at v key of None \<Rightarrow> None | Some w \<Rightarrow> at_path w keys)"

definition method_of :: "json \<Rightarrow> string option" where
  "method_of msg = Option.bind (at msg ''method'') as_str"

definition is_response_to :: "json \<Rightarrow> int \<Rightarrow> bool" where
  "is_response_to msg target_id \<longleftrightarrow> at msg ''method'' = None \<and> Option.bind (at msg ''id'') as_i64 = Some target_id"

subsection \<open>Health and progress\<close>

datatype ServerHealthLevel = HealthOk | HealthWarning | HealthError | HealthUnknown

datatype ReadinessOutcome = ServerReportedQuiescent | NoProgressReported | AllProgressEnded | DeadlineExpired

record ServerHealth =
  health_level :: ServerHealthLevel
  health_message :: "string option"
  health_readiness :: ReadinessOutcome

definition not_probed :: ServerHealth where
  "not_probed = \<lparr>health_level = HealthUnknown, health_message = None, health_readiness = NoProgressReported\<rparr>"

record ServerStatus =
  status_health :: ServerHealthLevel
  status_quiescent :: bool
  status_message :: "string option"

definition health_named :: "string option \<Rightarrow> ServerHealthLevel" where
  "health_named h =
     (if h = Some ''ok'' then HealthOk else if h = Some ''warning'' then HealthWarning
      else if h = Some ''error'' then HealthError else HealthUnknown)"

definition parse_server_status :: "json \<Rightarrow> ServerStatus option" where
  "parse_server_status msg =
     (if method_of msg \<noteq> Some ''experimental/serverStatus'' then None
      else Option.bind (at msg ''params'') (\<lambda>params.
        Option.bind (Option.bind (at params ''quiescent'') as_bool) (\<lambda>quiescent.
          Some \<lparr>status_health = health_named (Option.bind (at params ''health'') as_str),
                status_quiescent = quiescent,
                status_message = Option.bind (at params ''message'') as_str\<rparr>)))"

datatype ProgressKind = Begin | Report | End

definition server_workdone_progress_create :: "json \<Rightarrow> int option" where
  "server_workdone_progress_create msg =
     (if method_of msg \<noteq> Some ''window/workDoneProgress/create'' then None
      else Option.bind (at msg ''id'') as_i64)"

text \<open>The decimal text of an \<open>i64\<close>.\<close>

definition show_i64 :: "int \<Rightarrow> string" where
  "show_i64 n = (if n < 0 then CHR ''-'' # dec (nat (- n)) else dec (nat n))"

definition token_of :: "json \<Rightarrow> string option" where
  "token_of token = (case as_str token of Some s \<Rightarrow> Some s | None \<Rightarrow> map_option show_i64 (as_i64 token))"

definition kind_named :: "string \<Rightarrow> ProgressKind option" where
  "kind_named kind =
     (if kind = ''begin'' then Some Begin else if kind = ''report'' then Some Report
      else if kind = ''end'' then Some End else None)"

definition progress_kind :: "json \<Rightarrow> (string \<times> ProgressKind) option" where
  "progress_kind msg =
     (if method_of msg \<noteq> Some ''$/progress'' then None
      else Option.bind (at msg ''params'') (\<lambda>params.
        Option.bind (Option.bind (at params ''token'') token_of) (\<lambda>token.
          Option.bind (Option.bind (Option.bind (at params ''value'') (\<lambda>v. at v ''kind'')) as_str) (\<lambda>kind.
            map_option (Pair token) (kind_named kind)))))"

section \<open>Waiting for a frame\<close>

datatype received = Arrived frame | Elapsed | Disconnected

record server =
  now :: "nat \<Rightarrow> nat"
  later :: "nat \<Rightarrow> nat"
  recv :: "nat \<Rightarrow> received"

definition LSP_TIMEOUT_PREFIX :: string where
  "LSP_TIMEOUT_PREFIX = ''lsp_timeout:''"

definition is_lsp_timeout :: "string \<Rightarrow> bool" where
  "is_lsp_timeout e \<longleftrightarrow> starts_with e LSP_TIMEOUT_PREFIX"

fun next_frame :: "(nat \<Rightarrow> string) \<Rightarrow> received \<Rightarrow> nat \<Rightarrow> frame" where
  "next_frame show_duration (Arrived frame) timeout = frame"
| "next_frame show_duration Elapsed timeout = Inl (Timeout (LSP_TIMEOUT_PREFIX @ '' no frame within '' @ show_duration timeout))"
| "next_frame show_duration Disconnected timeout = Inl (Fatal ''eof_before_header: child stdout closed without LSP framing'')"

text \<open>A loop whose turn \<open>k\<close> either ends it or goes on in a new state. A loop that must end by turn \<open>n\<close>
  returns, and what each turn keeps holds when it does.\<close>

locale poll_loop =
  fixes run :: "nat \<Rightarrow> 's \<Rightarrow> 'r option"
    and step :: "nat \<Rightarrow> 's \<Rightarrow> 'r + 's"
  assumes run_step: "run k s = (case step k s of Inl r \<Rightarrow> Some r | Inr s' \<Rightarrow> run (Suc k) s')"
begin

lemma total:
  assumes stops: "\<And>s. \<exists>r. step n s = Inl r"
    and keep: "\<And>j s s'. P j s \<Longrightarrow> step j s = Inr s' \<Longrightarrow> P (Suc j) s'"
    and quit: "\<And>j s r. P j s \<Longrightarrow> step j s = Inl r \<Longrightarrow> j \<le> n \<Longrightarrow> Q j r"
    and "k \<le> n" "P k s"
  shows "\<exists>j r. j \<le> n \<and> run k s = Some r \<and> Q j r"
  using assms(4,5)
proof (induction "n - k" arbitrary: k s)
  case 0
  obtain r where "step k s = Inl r" using stops [of s] 0 by auto
  then show ?case using quit [OF 0(3)] 0(2) run_step [of k s] by auto
next
  case (Suc d)
  show ?case
  proof (cases "step k s")
    case (Inl r)
    then show ?thesis using quit [OF Suc(4) Inl] Suc(3) run_step [of k s] by auto
  next
    case (Inr s')
    have "d = n - Suc k" "Suc k \<le> n" using Suc(2) by auto
    from Suc(1) [OF this keep [OF Suc(4) Inr]] show ?thesis using Inr run_step [of k s] by simp
  qed
qed

end

section \<open>Waiting for an answer\<close>

datatype UnparseableFrame = Skip | FailFast

datatype ReadFailure = Expired | Frame string

definition read_step ::
  "(nat \<Rightarrow> string) \<Rightarrow> server \<Rightarrow> int \<Rightarrow> nat \<Rightarrow> UnparseableFrame \<Rightarrow> nat \<Rightarrow> unit \<Rightarrow> (ReadFailure + json) + unit" where
  "read_step show_duration E target_id deadline policy k u =
     (let remaining = deadline - now E k in
      if remaining = 0 then Inl (Inl Expired)
      else case next_frame show_duration (recv E k) remaining of
          Inl e \<Rightarrow> if is_skippable e \<and> policy = Skip then Inr () else Inl (Inl (Frame (message e)))
        | Inr msg \<Rightarrow> if is_response_to msg target_id then Inl (Inr msg) else Inr ())"

partial_function (option) read_loop ::
  "(nat \<Rightarrow> string) \<Rightarrow> server \<Rightarrow> int \<Rightarrow> nat \<Rightarrow> UnparseableFrame \<Rightarrow> nat \<Rightarrow> unit \<Rightarrow> (ReadFailure + json) option" where
  "read_loop show_duration E target_id deadline policy k u =
     (case read_step show_duration E target_id deadline policy k u of
        Inl r \<Rightarrow> Some r | Inr u' \<Rightarrow> read_loop show_duration E target_id deadline policy (Suc k) u')"

text \<open>The deadline is read off the clock before the first turn.\<close>

definition read_response ::
  "(nat \<Rightarrow> string) \<Rightarrow> server \<Rightarrow> int \<Rightarrow> nat \<Rightarrow> UnparseableFrame \<Rightarrow> (ReadFailure + json) option" where
  "read_response show_duration E target_id budget policy =
     read_loop show_duration E target_id (now E 0 + budget) policy 1 ()"

interpretation answer: poll_loop "read_loop sd E t d p" "read_step sd E t d p"
  by unfold_locales (rule read_loop.simps)


definition passed_over :: "received \<Rightarrow> int \<Rightarrow> UnparseableFrame \<Rightarrow> bool" where
  "passed_over r target_id policy \<longleftrightarrow>
     (\<exists>msg. r = Arrived (Inr msg) \<and> \<not> is_response_to msg target_id) \<or>
     (\<exists>m. r = Arrived (Inl (Payload m)) \<and> policy = Skip)"

definition answered ::
  "(nat \<Rightarrow> string) \<Rightarrow> server \<Rightarrow> int \<Rightarrow> nat \<Rightarrow> UnparseableFrame \<Rightarrow> nat \<Rightarrow> ReadFailure + json \<Rightarrow> bool" where
  "answered sd E target_id budget policy j r \<longleftrightarrow> 1 \<le> j \<and>
    (\<forall>i. 1 \<le> i \<and> i < j \<longrightarrow> now E i < now E 0 + budget \<and> passed_over (recv E i) target_id policy) \<and>
    (case r of
       Inr msg \<Rightarrow> recv E j = Arrived (Inr msg) \<and> is_response_to msg target_id
     | Inl Expired \<Rightarrow> now E 0 + budget \<le> now E j
     | Inl (Frame m) \<Rightarrow> \<not> passed_over (recv E j) target_id policy \<and>
         next_frame sd (recv E j) (now E 0 + budget - now E j) \<in> Inl ` {e. message e = m})"

lemma request_decided:
  assumes "now E 0 + budget \<le> now E n" "1 \<le> n"
  shows "\<exists>j r. j \<le> n \<and> read_response sd E target_id budget policy = Some r \<and> answered sd E target_id budget policy j r"
  unfolding read_response_def
proof (rule answer.total [where P = "\<lambda>j u. 1 \<le> j \<and>
    (\<forall>i. 1 \<le> i \<and> i < j \<longrightarrow> now E i < now E 0 + budget \<and> passed_over (recv E i) target_id policy)"])
  show "\<exists>r. read_step sd E target_id (now E 0 + budget) policy n u = Inl r" for u
    using assms(1) by (simp add: read_step_def)
next
  fix j u u' assume p: "1 \<le> j \<and> (\<forall>i. 1 \<le> i \<and> i < j \<longrightarrow> now E i < now E 0 + budget \<and> passed_over (recv E i) target_id policy)"
    and "read_step sd E target_id (now E 0 + budget) policy j u = Inr u'"
  then have "now E j < now E 0 + budget \<and> passed_over (recv E j) target_id policy"
    by (cases "recv E j") (auto simp: read_step_def passed_over_def Let_def split: if_splits sum.splits elim: is_skippable.elims)
  then show "1 \<le> Suc j \<and> (\<forall>i. 1 \<le> i \<and> i < Suc j \<longrightarrow> now E i < now E 0 + budget \<and> passed_over (recv E i) target_id policy)"
    using p by (auto simp: less_Suc_eq)
next
  fix j u r assume "1 \<le> j \<and> (\<forall>i. 1 \<le> i \<and> i < j \<longrightarrow> now E i < now E 0 + budget \<and> passed_over (recv E i) target_id policy)"
    "read_step sd E target_id (now E 0 + budget) policy j u = Inl r"
  then show "answered sd E target_id budget policy j r"
    by (cases "recv E j") (auto simp: answered_def read_step_def passed_over_def Let_def split: if_splits sum.splits)
qed (use assms(2) in auto)

text \<open>C24: a wait for an answer ends as soon as the clock has reached the deadline, whatever the server sends
  and however long it goes on. Every message before that is passed over only because it is no answer to this
  request (or is no JSON and may be skipped); what is returned is the first answer to it, the first frame that
  ends the exchange, or the expiry of the budget.\<close>

theorem request_returns:
  assumes "now E 0 + budget \<le> now E n" "1 \<le> n"
  shows "\<exists>j r. 1 \<le> j \<and> j \<le> n \<and> read_response sd E target_id budget policy = Some r \<and>
    (\<forall>i. 1 \<le> i \<and> i < j \<longrightarrow> now E i < now E 0 + budget \<and> passed_over (recv E i) target_id policy) \<and>
    (case r of
       Inr msg \<Rightarrow> recv E j = Arrived (Inr msg) \<and> is_response_to msg target_id
     | Inl Expired \<Rightarrow> now E 0 + budget \<le> now E j
     | Inl (Frame m) \<Rightarrow> \<not> passed_over (recv E j) target_id policy \<and>
         next_frame sd (recv E j) (now E 0 + budget - now E j) \<in> Inl ` {e. message e = m})"
  using request_decided [OF assms] unfolding answered_def by meson

definition demo_answer :: json where
  "demo_answer = JObj [(''id'', JInt 7), (''result'', JNull)]"

definition demo_question :: json where
  "demo_question = JObj [(''id'', JInt 7), (''method'', JStr ''workspace/configuration'')]"

definition demo_server :: server where
  "demo_server = \<lparr>now = (\<lambda>k. k), later = (\<lambda>k. k),
     recv = (\<lambda>k. Arrived (Inr (if k = 1 then demo_question else demo_answer)))\<rparr>"

lemma request_returns_witness:
  "\<exists>msg. read_response dec demo_server 7 9 Skip = Some (Inr msg)"
proof -
  have a: "is_response_to demo_answer 7" "\<not> is_response_to demo_question 7"
    by (simp_all add: is_response_to_def demo_answer_def demo_question_def at_def)
  obtain j r where r: "1 \<le> j" "j \<le> 9" "read_response dec demo_server 7 9 Skip = Some r"
    "case r of Inr msg \<Rightarrow> recv demo_server j = Arrived (Inr msg) \<and> is_response_to msg 7
     | Inl Expired \<Rightarrow> now demo_server 0 + 9 \<le> now demo_server j
     | Inl (Frame m) \<Rightarrow> \<not> passed_over (recv demo_server j) 7 Skip \<and>
         next_frame dec (recv demo_server j) (now demo_server 0 + 9 - now demo_server j) \<in> Inl ` {e. message e = m}"
    "\<forall>i. 1 \<le> i \<and> i < j \<longrightarrow> now demo_server i < now demo_server 0 + 9 \<and> passed_over (recv demo_server i) 7 Skip"
    using request_returns [of demo_server 9 9 dec 7 Skip] by (auto simp: demo_server_def)
  have "\<not> 2 < j"
  proof
    assume "2 < j"
    then have "passed_over (recv demo_server 2) 7 Skip" using r(5) by auto
    then show False using a by (simp add: passed_over_def demo_server_def)
  qed
  then show ?thesis using r by (cases r) (auto simp: demo_server_def split: ReadFailure.splits)
qed


section \<open>Waiting until the server is ready\<close>

definition PROGRESS_QUIET_WINDOW :: nat where
  "PROGRESS_QUIET_WINDOW = 500"

record ProgressState =
  outstanding :: "string set"
  ever_began :: bool
  idle_since :: "nat option"
  onset_deadline :: nat
  server_status_seen :: bool

definition new_progress :: "nat \<Rightarrow> ProgressState" where
  "new_progress t = \<lparr>outstanding = {}, ever_began = False, idle_since = Some t,
     onset_deadline = t + PROGRESS_QUIET_WINDOW, server_status_seen = False\<rparr>"

definition checkpoint :: "ProgressState \<Rightarrow> nat \<Rightarrow> nat" where
  "checkpoint p deadline =
     (if server_status_seen p then deadline
      else min (case (ever_began p, idle_since p) of
                  (False, _) \<Rightarrow> onset_deadline p
                | (True, Some idle_at) \<Rightarrow> idle_at + PROGRESS_QUIET_WINDOW
                | (True, None) \<Rightarrow> deadline) deadline)"

definition note_server_status_activity :: "ProgressState \<Rightarrow> ProgressState" where
  "note_server_status_activity p = p\<lparr>server_status_seen := True\<rparr>"

definition give_up :: "bool \<Rightarrow> bool \<Rightarrow> ReadinessOutcome" where
  "give_up began outstanding_empty =
     (if \<not> began then NoProgressReported else if outstanding_empty then AllProgressEnded else DeadlineExpired)"

definition state_give_up :: "ProgressState \<Rightarrow> ReadinessOutcome" where
  "state_give_up p = give_up (ever_began p) (outstanding p = {})"

text \<open>\<open>apply\<close> also returns the \<open>create\<close> requests it acknowledges; \<open>t\<close> is the clock. A failed
  acknowledgement is ignored.\<close>

definition apply_frame :: "json \<Rightarrow> nat \<Rightarrow> ProgressState \<Rightarrow> ProgressState \<times> int list" where
  "apply_frame msg t p =
     (case server_workdone_progress_create msg of
        Some n \<Rightarrow> (p, [n])
      | None \<Rightarrow>
          (case progress_kind msg of
             Some (token, Begin) \<Rightarrow>
               (p\<lparr>ever_began := True, outstanding := insert token (outstanding p), idle_since := None\<rparr>, [])
           | Some (token, End) \<Rightarrow>
               (let p' = p\<lparr>outstanding := outstanding p - {token}\<rparr> in
                (if outstanding p' = {} then p'\<lparr>idle_since := Some t\<rparr> else p', []))
           | _ \<Rightarrow> (p, [])))"

record HealthTrack =
  level :: ServerHealthLevel
  track_message :: "string option"

definition new_track :: HealthTrack where
  "new_track = \<lparr>level = HealthUnknown, track_message = None\<rparr>"

definition record_health :: "HealthTrack \<Rightarrow> ServerStatus \<Rightarrow> HealthTrack" where
  "record_health h status = h\<lparr>level := status_health status, track_message := status_message status\<rparr>"

definition finish :: "HealthTrack \<Rightarrow> ReadinessOutcome \<Rightarrow> ServerHealth" where
  "finish h readiness = \<lparr>health_level = level h, health_message = track_message h, health_readiness = readiness\<rparr>"

text \<open>What the loop carries: the bookkeeping, the health, and the requests it has acknowledged.\<close>

record waiting =
  progress :: ProgressState
  health :: HealthTrack
  acknowledged :: "int list"

definition wait_step ::
  "(nat \<Rightarrow> string) \<Rightarrow> server \<Rightarrow> nat \<Rightarrow> nat \<Rightarrow> waiting \<Rightarrow> (ServerHealth \<times> int list) + waiting" where
  "wait_step show_duration E deadline k w =
     (let c = checkpoint (progress w) deadline;
          stop = Inl (finish (health w) (state_give_up (progress w)), acknowledged w) in
      if c \<le> now E k then stop
      else case next_frame show_duration (recv E k) (c - now E k) of
          Inl e \<Rightarrow> if is_skippable e then Inr w else (case e of Timeout _ \<Rightarrow> Inr w | _ \<Rightarrow> stop)
        | Inr msg \<Rightarrow>
            (case parse_server_status msg of
               Some status \<Rightarrow>
                 (let h = record_health (health w) status in
                  if status_quiescent status then Inl (finish h ServerReportedQuiescent, acknowledged w)
                  else Inr (w\<lparr>health := h, progress := note_server_status_activity (progress w)\<rparr>))
             | None \<Rightarrow>
                 (case apply_frame msg (later E k) (progress w) of
                    (p, acks) \<Rightarrow> Inr (w\<lparr>progress := p, acknowledged := acknowledged w @ acks\<rparr>))))"

partial_function (option) wait_loop ::
  "(nat \<Rightarrow> string) \<Rightarrow> server \<Rightarrow> nat \<Rightarrow> nat \<Rightarrow> waiting \<Rightarrow> (ServerHealth \<times> int list) option" where
  "wait_loop show_duration E deadline k w =
     (case wait_step show_duration E deadline k w of
        Inl r \<Rightarrow> Some r | Inr w' \<Rightarrow> wait_loop show_duration E deadline (Suc k) w')"

text \<open>The bookkeeping starts with the second reading of the clock; the caller reads it first, for the deadline.\<close>

definition wait_for_ready :: "(nat \<Rightarrow> string) \<Rightarrow> server \<Rightarrow> nat \<Rightarrow> (ServerHealth \<times> int list) option" where
  "wait_for_ready show_duration E deadline =
     wait_loop show_duration E deadline 1
       \<lparr>progress = new_progress (later E 0), health = new_track, acknowledged = []\<rparr>"

interpretation ready: poll_loop "wait_loop sd E d" "wait_step sd E d"
  by unfold_locales (rule wait_loop.simps)

subsection \<open>What the wait reports\<close>

text \<open>The messages of the first turns; a token is open when it began and has not ended since.\<close>

definition messages :: "server \<Rightarrow> nat \<Rightarrow> json list" where
  "messages E j = concat (map (\<lambda>i. case recv E i of Arrived (Inr msg) \<Rightarrow> [msg] | _ \<Rightarrow> []) [1..<j])"

definition is_status :: "json \<Rightarrow> bool" where
  "is_status msg \<longleftrightarrow> parse_server_status msg \<noteq> None"

fun open_tokens :: "json list \<Rightarrow> string set" where
  "open_tokens [] = {}"
| "open_tokens (msg # later_msgs) =
     open_tokens later_msgs \<union>
     {token. progress_kind msg = Some (token, Begin) \<and>
       (\<forall>m \<in> set later_msgs. progress_kind m \<noteq> Some (token, End))}"

definition last_status :: "json list \<Rightarrow> ServerStatus option" where
  "last_status msgs = (case rev (List.map_filter parse_server_status msgs) of [] \<Rightarrow> None | s # _ \<Rightarrow> Some s)"

definition begun :: "json list \<Rightarrow> bool" where
  "begun msgs \<longleftrightarrow> (\<exists>m \<in> set msgs. \<exists>token. progress_kind m = Some (token, Begin))"

definition tracked :: "json list \<Rightarrow> HealthTrack" where
  "tracked msgs = (case last_status msgs of None \<Rightarrow> new_track | Some s \<Rightarrow> record_health new_track s)"

lemma messages_Suc:
  "1 \<le> j \<Longrightarrow> messages E (Suc j) = messages E j @ (case recv E j of Arrived (Inr msg) \<Rightarrow> [msg] | _ \<Rightarrow> [])"
  by (simp add: messages_def)

lemma open_tokens_snoc:
  "open_tokens (msgs @ [m]) =
     (open_tokens msgs - {token. progress_kind m = Some (token, End)}) \<union> {token. progress_kind m = Some (token, Begin)}"
  by (induction msgs) auto

lemma last_status_snoc:
  "last_status (msgs @ [m]) = (case parse_server_status m of None \<Rightarrow> last_status msgs | Some s \<Rightarrow> Some s)"
  by (simp add: last_status_def map_filter_def split: option.splits)

lemma method_kinds:
  "parse_server_status msg = Some s \<Longrightarrow> progress_kind msg = None"
  "parse_server_status msg = Some s \<Longrightarrow> server_workdone_progress_create msg = None"
  "server_workdone_progress_create msg = Some n \<Longrightarrow> progress_kind msg = None"
  by (auto simp: parse_server_status_def progress_kind_def server_workdone_progress_create_def split: if_splits)


definition quiescent :: "json \<Rightarrow> bool" where
  "quiescent msg \<longleftrightarrow> (case parse_server_status msg of None \<Rightarrow> False | Some s \<Rightarrow> status_quiescent s)"

definition ends_at :: "server \<Rightarrow> nat \<Rightarrow> bool" where
  "ends_at E i \<longleftrightarrow> (\<exists>msg token. recv E i = Arrived (Inr msg) \<and> progress_kind msg = Some (token, End))"

definition steady :: "server \<Rightarrow> bool" where
  "steady E \<longleftrightarrow> (\<forall>k. now E k \<le> later E k \<and> later E k \<le> now E (Suc k))"

definition keeps_track :: "server \<Rightarrow> nat \<Rightarrow> waiting \<Rightarrow> bool" where
  "keeps_track E k w \<longleftrightarrow> 1 \<le> k \<and>
     outstanding (progress w) = open_tokens (messages E k) \<and>
     ever_began (progress w) = begun (messages E k) \<and>
     (idle_since (progress w) = None \<longleftrightarrow> open_tokens (messages E k) \<noteq> {}) \<and>
     (\<forall>t. idle_since (progress w) = Some t \<longrightarrow>
        later E 0 \<le> t \<and> t \<le> now E k \<and> (\<forall>i. 1 \<le> i \<and> i < k \<and> ends_at E i \<longrightarrow> later E i \<le> t)) \<and>
     onset_deadline (progress w) = later E 0 + PROGRESS_QUIET_WINDOW \<and>
     server_status_seen (progress w) = list_ex is_status (messages E k) \<and>
     health w = tracked (messages E k) \<and>
     acknowledged w = List.map_filter server_workdone_progress_create (messages E k) \<and>
     \<not> list_ex quiescent (messages E k)"

lemma steady_mono: "steady E \<Longrightarrow> i \<le> j \<Longrightarrow> now E i \<le> now E j"
  by (induction j) (auto simp: steady_def le_Suc_eq intro: le_trans)

lemma steady_later: "steady E \<Longrightarrow> i < k \<Longrightarrow> later E i \<le> later E k"
  using steady_mono [of E "Suc i" k] by (meson Suc_leI le_trans steady_def)

lemma open_begun: "open_tokens msgs \<noteq> {} \<Longrightarrow> begun msgs"
  by (induction msgs) (auto simp: begun_def)

lemma begun_snoc: "begun (msgs @ [m]) \<longleftrightarrow> begun msgs \<or> (\<exists>token. progress_kind m = Some (token, Begin))"
  by (auto simp: begun_def)

lemma tracked_snoc:
  "tracked (msgs @ [m]) = (case parse_server_status m of None \<Rightarrow> tracked msgs | Some s \<Rightarrow> record_health (tracked msgs) s)"
  by (simp add: tracked_def last_status_snoc record_health_def new_track_def split: option.splits)

lemma keeps_track_start:
  "steady E \<Longrightarrow> keeps_track E 1 \<lparr>progress = new_progress (later E 0), health = new_track, acknowledged = []\<rparr>"
  unfolding steady_def
  by (simp add: keeps_track_def messages_def new_progress_def begun_def tracked_def last_status_def map_filter_def)

text \<open>A turn that goes on without a message leaves everything as it was; one with a message adds it.\<close>

lemma keeps_track_idle:
  assumes "keeps_track E k w" "steady E" "\<forall>msg. recv E k \<noteq> Arrived (Inr msg)"
  shows "keeps_track E (Suc k) w"
proof -
  have m: "messages E (Suc k) = messages E k"
    using assms(1,3) by (auto simp: keeps_track_def messages_Suc split: received.splits sum.splits)
  have "now E k \<le> now E (Suc k)" "\<not> ends_at E k"
    using steady_mono [OF assms(2), of k "Suc k"] assms(3) by (auto simp: ends_at_def)
  then show ?thesis using assms(1) unfolding keeps_track_def m by (auto simp: less_Suc_eq intro: le_trans)
qed

lemma keeps_track_status:
  assumes "keeps_track E k w" "steady E" "recv E k = Arrived (Inr msg)" "parse_server_status msg = Some s" "\<not> status_quiescent s"
  shows "keeps_track E (Suc k) (w\<lparr>health := record_health (health w) s, progress := note_server_status_activity (progress w)\<rparr>)"
proof -
  have m: "messages E (Suc k) = messages E k @ [msg]" using assms(1,3) by (simp add: keeps_track_def messages_Suc)
  have "now E k \<le> now E (Suc k)" "\<not> ends_at E k"
    using steady_mono [OF assms(2), of k "Suc k"] assms(3) method_kinds(1) [OF assms(4)] by (auto simp: ends_at_def)
  then show ?thesis using assms(1,4,5) method_kinds(1,2) [OF assms(4)]
    unfolding keeps_track_def m
    by (auto simp: note_server_status_activity_def open_tokens_snoc begun_snoc tracked_snoc map_filter_def is_status_def
      quiescent_def less_Suc_eq intro: le_trans)
qed

lemma keeps_track_apply:
  assumes k: "keeps_track E k w" and s: "steady E" and r: "recv E k = Arrived (Inr msg)" and n: "parse_server_status msg = None"
    and a: "apply_frame msg (later E k) (progress w) = (p, acks)"
  shows "keeps_track E (Suc k) (w\<lparr>progress := p, acknowledged := acknowledged w @ acks\<rparr>)"
proof -
  have m: "messages E (Suc k) = messages E k @ [msg]" using k r by (simp add: keeps_track_def messages_Suc)
  have t: "now E k \<le> now E (Suc k)" "now E k \<le> later E k" "later E k \<le> now E (Suc k)" "later E 0 \<le> now E k"
    using steady_mono [OF s, of 1 k] k s by (auto simp: steady_def keeps_track_def intro: le_trans)
  have i: "i < k \<Longrightarrow> later E i \<le> later E k" for i using steady_later [OF s] .
  have simps: "list_ex is_status (messages E k @ [msg]) = list_ex is_status (messages E k)"
    "list_ex quiescent (messages E k @ [msg]) = list_ex quiescent (messages E k)"
    "tracked (messages E k @ [msg]) = tracked (messages E k)"
    using n by (simp_all add: is_status_def quiescent_def tracked_snoc)
  show ?thesis
  proof (cases "server_workdone_progress_create msg")
    case (Some x)
    then have "progress_kind msg = None" "p = progress w" "acks = [x]" "\<not> ends_at E k"
      using method_kinds(3) [OF Some] a r by (auto simp: apply_frame_def ends_at_def)
    then show ?thesis using k Some t unfolding keeps_track_def m simps
      by (auto simp: open_tokens_snoc begun_snoc map_filter_def less_Suc_eq intro: le_trans)
  next
    case None
    then have acks: "acks = []" "List.map_filter server_workdone_progress_create (messages E k @ [msg]) =
        List.map_filter server_workdone_progress_create (messages E k)"
      using a by (auto simp: apply_frame_def map_filter_def Let_def split: option.splits prod.splits ProgressKind.splits if_splits)
    have p: "fst (apply_frame msg (later E k) (progress w)) = p" using a by simp
    show ?thesis
    proof (cases "progress_kind msg")
      case None': None
      then have "p = progress w" "\<not> ends_at E k" using p None r by (auto simp: apply_frame_def ends_at_def)
      then show ?thesis using k t None' unfolding keeps_track_def m simps acks
        by (auto simp: open_tokens_snoc begun_snoc less_Suc_eq intro: le_trans)
    next
      case (Some tk)
      then obtain token kind where tk: "progress_kind msg = Some (token, kind)" by (cases tk) auto
      show ?thesis
      proof (cases kind)
        case Begin
        then have "p = (progress w)\<lparr>ever_began := True, outstanding := insert token (outstanding (progress w)), idle_since := None\<rparr>"
          using p None tk by (simp add: apply_frame_def)
        then show ?thesis using k tk Begin unfolding keeps_track_def m simps acks
          by (auto simp: open_tokens_snoc begun_snoc)
      next
        case Report
        then have "p = progress w" "\<not> ends_at E k" using p None tk r by (auto simp: apply_frame_def ends_at_def)
        then show ?thesis using k t tk Report unfolding keeps_track_def m simps acks
          by (auto simp: open_tokens_snoc begun_snoc less_Suc_eq intro: le_trans)
      next
        case End
        have o: "open_tokens (messages E k @ [msg]) = open_tokens (messages E k) - {token}"
          using tk End by (auto simp: open_tokens_snoc)
        have "p = (let p' = (progress w)\<lparr>outstanding := outstanding (progress w) - {token}\<rparr> in
            if outstanding p' = {} then p'\<lparr>idle_since := Some (later E k)\<rparr> else p')"
          using p None tk End by (simp add: apply_frame_def Let_def)
        then show ?thesis using k t i tk End unfolding keeps_track_def m simps acks o
          by (auto simp: begun_snoc Let_def less_Suc_eq intro: le_trans)
      qed
    qed
  qed
qed


lemma keeps_track_step:
  assumes k: "keeps_track E k w" and s: "steady E" and w: "wait_step sd E deadline k w = Inr w'"
  shows "keeps_track E (Suc k) w'"
proof -
  have c: "\<not> checkpoint (progress w) deadline \<le> now E k" using w by (auto simp: wait_step_def Let_def)
  show ?thesis
  proof (cases "\<exists>msg. recv E k = Arrived (Inr msg)")
    case False
    then have "w' = w" using w c
      by (cases "recv E k") (auto simp: wait_step_def Let_def split: sum.splits if_splits FrameError.splits)
    then show ?thesis using keeps_track_idle [OF k s] False by simp
  next
    case True
    then obtain msg where r: "recv E k = Arrived (Inr msg)" by blast
    show ?thesis
    proof (cases "parse_server_status msg")
      case (Some st)
      then have "\<not> status_quiescent st"
        "w' = w\<lparr>health := record_health (health w) st, progress := note_server_status_activity (progress w)\<rparr>"
        using w c r by (auto simp: wait_step_def Let_def split: if_splits)
      then show ?thesis using keeps_track_status [OF k s r Some] by simp
    next
      case None
      obtain p acks where a: "apply_frame msg (later E k) (progress w) = (p, acks)" by fastforce
      then show ?thesis using keeps_track_apply [OF k s r None a] w c r None by (simp add: wait_step_def Let_def)
    qed
  qed
qed

text \<open>What the wait reports when it ends in turn \<open>j\<close>.\<close>

definition quiet :: "server \<Rightarrow> nat \<Rightarrow> bool" where
  "quiet E j \<longleftrightarrow> \<not> list_ex is_status (messages E j) \<and> open_tokens (messages E j) = {} \<and>
     later E 0 + PROGRESS_QUIET_WINDOW \<le> now E j \<and>
     (begun (messages E j) \<longrightarrow> (\<forall>i. 1 \<le> i \<and> i < j \<and> ends_at E i \<longrightarrow> later E i + PROGRESS_QUIET_WINDOW \<le> now E j))"

definition broken :: "received \<Rightarrow> bool" where
  "broken r \<longleftrightarrow> r = Disconnected \<or> (\<exists>m. r = Arrived (Inl (Fatal m)))"

definition reported :: "server \<Rightarrow> nat \<Rightarrow> nat \<Rightarrow> ServerHealth \<Rightarrow> bool" where
  "reported E deadline j r \<longleftrightarrow> \<not> list_ex quiescent (messages E j) \<and>
     ((\<exists>msg s. recv E j = Arrived (Inr msg) \<and> now E j < deadline \<and> parse_server_status msg = Some s \<and>
        status_quiescent s \<and> r = finish (record_health new_track s) ServerReportedQuiescent) \<or>
      ((deadline \<le> now E j \<or> broken (recv E j) \<or> quiet E j) \<and>
        r = finish (tracked (messages E j)) (give_up (begun (messages E j)) (open_tokens (messages E j) = {}))))"

lemma wait_stops:
  assumes k: "keeps_track E k w" and w: "wait_step sd E deadline k w = Inl (r, acks)"
  shows "reported E deadline k r \<and> acks = List.map_filter server_workdone_progress_create (messages E k)"
proof -
  let ?M = "messages E k"
  have f: "state_give_up (progress w) = give_up (begun ?M) (open_tokens ?M = {})" "health w = tracked ?M"
    "acknowledged w = List.map_filter server_workdone_progress_create ?M" "\<not> list_ex quiescent ?M"
    using k by (auto simp: keeps_track_def state_give_up_def)
  show ?thesis
  proof (cases "checkpoint (progress w) deadline \<le> now E k")
    case True
    have "deadline \<le> now E k \<or> quiet E k"
    proof (rule ccontr)
      assume no: "\<not> (deadline \<le> now E k \<or> quiet E k)"
      then have s: "\<not> list_ex is_status ?M" using True k by (auto simp: checkpoint_def keeps_track_def)
      show False
      proof (cases "begun ?M")
        case False
        then have "open_tokens ?M = {}" using open_begun by blast
        then show False using no True k s False by (auto simp: checkpoint_def keeps_track_def quiet_def)
      next
        case b: True
        then obtain t where t: "idle_since (progress w) = Some t"
          using no True k s by (auto simp: checkpoint_def keeps_track_def split: option.splits)
        then have "t + PROGRESS_QUIET_WINDOW \<le> now E k" "later E 0 \<le> t" "open_tokens ?M = {}"
          "\<forall>i. 1 \<le> i \<and> i < k \<and> ends_at E i \<longrightarrow> later E i \<le> t"
          using no True k s b by (auto simp: checkpoint_def keeps_track_def)
        then show False using no s by (fastforce simp: quiet_def)
      qed
    qed
    then show ?thesis using True w f by (auto simp: wait_step_def reported_def)
  next
    case False
    have d: "now E k < deadline" using False by (auto simp: checkpoint_def split: if_splits)
    have h: "record_health (tracked ?M) s = record_health new_track s" for s
      by (simp add: tracked_def record_health_def new_track_def split: option.splits)
    show ?thesis using w f False d
      by (cases "recv E k") (auto simp: wait_step_def reported_def broken_def Let_def h
        split: sum.splits if_splits FrameError.splits option.splits prod.splits)
  qed
qed

lemma readiness_decided:
  assumes "steady E" "deadline \<le> now E n" "1 \<le> n"
  shows "\<exists>j r. 1 \<le> j \<and> j \<le> n \<and> reported E deadline j r \<and>
    wait_for_ready sd E deadline = Some (r, List.map_filter server_workdone_progress_create (messages E j))"
proof -
  let ?start = "\<lparr>progress = new_progress (later E 0), health = new_track, acknowledged = []\<rparr>"
  have "\<exists>j r. j \<le> n \<and> wait_loop sd E deadline 1 ?start = Some r \<and>
      1 \<le> j \<and> reported E deadline j (fst r) \<and> snd r = List.map_filter server_workdone_progress_create (messages E j)"
  proof (rule ready.total [where P = "keeps_track E"])
    show "\<exists>r. wait_step sd E deadline n w = Inl r" for w
      using assms(2) by (simp add: wait_step_def checkpoint_def min_def)
    show "keeps_track E 1 ?start" using keeps_track_start [OF assms(1)] .
    show "1 \<le> n" by (rule assms(3))
  next
    fix j w w' assume "keeps_track E j w" "wait_step sd E deadline j w = Inr w'"
    then show "keeps_track E (Suc j) w'" using keeps_track_step [OF _ assms(1)] by blast
  next
    fix j w r assume k: "keeps_track E j w" "wait_step sd E deadline j w = Inl r"
    then show "1 \<le> j \<and> reported E deadline j (fst r) \<and> snd r = List.map_filter server_workdone_progress_create (messages E j)"
      using wait_stops [OF k(1), of sd deadline "fst r" "snd r"] by (simp add: keeps_track_def)
  qed
  then obtain j r where "1 \<le> j" "j \<le> n" "wait_loop sd E deadline 1 ?start = Some r" "reported E deadline j (fst r)"
    "snd r = List.map_filter server_workdone_progress_create (messages E j)" by blast
  then show ?thesis unfolding wait_for_ready_def
    by (intro exI [of _ j] exI [of _ "fst r"]) (metis prod.collapse)
qed

text \<open>C10: the wait for readiness always ends, at the latest when the clock has reached the deadline. It ends early
  for three reasons only: the server says it is quiescent; the stream is broken; or the server never reported a
  status, no token is open, and nothing has begun or ended for the quiet window. The outcome and the health are
  those of the messages received, the last status winning, and every request to create a token was acknowledged.\<close>

theorem readiness_wait_exact:
  assumes "steady E" "deadline \<le> now E n" "1 \<le> n"
  shows "\<exists>j r. 1 \<le> j \<and> j \<le> n \<and> reported E deadline j r \<and>
    wait_for_ready sd E deadline = Some (r, List.map_filter server_workdone_progress_create (messages E j))"
  using readiness_decided [OF assms] .

text \<open>A server that is still loading, and says so once, and then says nothing.\<close>

definition loading_status :: json where
  "loading_status = JObj [(''method'', JStr ''experimental/serverStatus''),
     (''params'', JObj [(''health'', JStr ''ok''), (''quiescent'', JBool False)])]"

definition loading_server :: server where
  "loading_server = \<lparr>now = (\<lambda>k. if k \<le> 2 then k else 2000), later = (\<lambda>k. if k < 2 then k else if k = 2 then 2 else 2000),
     recv = (\<lambda>k. if k = 1 then Arrived (Inr loading_status) else Elapsed)\<rparr>"

lemma loading_server_steady: "steady loading_server"
  by (simp add: steady_def loading_server_def)

lemma loading_status_parsed:
  "parse_server_status loading_status = Some \<lparr>status_health = HealthOk, status_quiescent = False, status_message = None\<rparr>"
  by (simp add: parse_server_status_def loading_status_def method_of_def at_def health_named_def)

lemma readiness_wait_exact_witness:
  "\<exists>j r. 1 \<le> j \<and> j \<le> 3 \<and> reported loading_server 2000 j r \<and>
    wait_for_ready dec loading_server 2000 = Some (r, List.map_filter server_workdone_progress_create (messages loading_server j))"
  by (rule readiness_wait_exact [OF loading_server_steady]) (simp_all add: loading_server_def)

text \<open>Its full deadline passes, and the outcome is the one of a server that reports nothing.\<close>

lemma loading_server_not_reported:
  "map_option (\<lambda>(r, acks). health_readiness r) (wait_for_ready dec loading_server 2000) = Some NoProgressReported"
proof -
  have s1: "wait_step dec loading_server 2000 1 \<lparr>progress = new_progress 0, health = new_track, acknowledged = []\<rparr> =
    Inr \<lparr>progress = note_server_status_activity (new_progress 0),
         health = record_health new_track \<lparr>status_health = HealthOk, status_quiescent = False, status_message = None\<rparr>,
         acknowledged = []\<rparr>" (is "_ = Inr ?w")
    by (simp add: wait_step_def loading_server_def loading_status_parsed checkpoint_def new_progress_def PROGRESS_QUIET_WINDOW_def
      new_track_def)
  have s2: "wait_step dec loading_server 2000 2 ?w = Inr ?w"
    by (simp add: wait_step_def loading_server_def checkpoint_def note_server_status_activity_def new_progress_def)
  have s3: "wait_step dec loading_server 2000 3 ?w = Inl (finish (health ?w) NoProgressReported, [])"
    by (simp add: wait_step_def loading_server_def checkpoint_def note_server_status_activity_def new_progress_def state_give_up_def
      give_up_def)
  have z: "later loading_server 0 = 0" by (simp add: loading_server_def)
  have "wait_loop dec loading_server 2000 3 ?w = Some (finish (health ?w) NoProgressReported, [])"
    by (subst wait_loop.simps) (simp only: s3 sum.case)
  moreover have "wait_loop dec loading_server 2000 2 ?w = wait_loop dec loading_server 2000 3 ?w"
    by (subst wait_loop.simps, simp only: s2 sum.case) simp
  moreover have "wait_for_ready dec loading_server 2000 = wait_loop dec loading_server 2000 2 ?w"
    unfolding wait_for_ready_def z by (subst wait_loop.simps, simp only: s1 sum.case) (simp add: numeral_2_eq_2)
  ultimately have "wait_for_ready dec loading_server 2000 = Some (finish (health ?w) NoProgressReported, [])" by simp
  then show ?thesis by (simp add: finish_def)
qed


section \<open>The handshake and the requests\<close>

text \<open>\<open>show_json\<close> is the text that a JSON value prints as, \<open>debug\<close> the one that \<open>{:?}\<close> prints for an optional
  string.\<close>

definition dash :: string where
  "dash = [CHR 0xE2, CHR 0x80, CHR 0x94]"

definition classify_probe_err :: "string \<Rightarrow> string" where
  "classify_probe_err e =
     (if starts_with e ''lsp_probe_failed'' then e
      else case (if contains e ''eof_before_header''
                 then Some (''found on PATH but didn'' @ [CHR 0x27] @ ''t respond as an LSP server (stdout closed immediately; likely a stub, proxy, or non-LSP binary)'')
                 else if contains e ''eof_before_body''
                 then Some ''found on PATH but dropped the connection mid-header (partial LSP framing then EOF)''
                 else if contains e ''missing Content-Length''
                 then Some ''found on PATH but sent non-LSP output (no Content-Length header)''
                 else if is_lsp_timeout e \<or> contains e ''no response within probe timeout''
                 then Some (''found on PATH but didn'' @ [CHR 0x27] @ ''t respond within the probe window (not an LSP server or hung)'')
                 else if contains e ''parse JSON body''
                 then Some ''found on PATH but sent non-JSON-RPC bytes as the first frame''
                 else None) of
          None \<Rightarrow> ''lsp_probe_failed: '' @ e
        | Some reason \<Rightarrow> ''lsp_probe_failed: '' @ reason @ '' '' @ dash @ '' underlying: '' @ e)"

definition validate_probe_response :: "(string option \<Rightarrow> string) \<Rightarrow> json \<Rightarrow> string + unit" where
  "validate_probe_response debug resp =
     (let jsonrpc = Option.bind (at resp ''jsonrpc'') as_str in
      if jsonrpc \<noteq> Some ''2.0''
      then Inl (''lsp_probe_failed: first response missing jsonrpc=\"2.0\" field (got '' @ debug jsonrpc @ '')'')
      else if at resp ''result'' = None \<and> at resp ''error'' = None
      then Inl ''lsp_probe_failed: first response has neither `result` nor `error`''
      else Inr ())"

definition advertises_pull_diagnostics :: "json \<Rightarrow> bool" where
  "advertises_pull_diagnostics init_response =
     (case at_path init_response [''result'', ''capabilities'', ''diagnosticProvider''] of
        None \<Rightarrow> False | Some v \<Rightarrow> v \<noteq> JNull \<and> v \<noteq> JBool False)"

record LspClient =
  request_id :: "64 word"
  client_timeout :: nat
  server_health :: ServerHealth
  pull_diagnostics :: bool

definition start_client :: "nat \<Rightarrow> LspClient" where
  "start_client timeout_ms = \<lparr>request_id = 1, client_timeout = timeout_ms, server_health = not_probed, pull_diagnostics = False\<rparr>"

text \<open>\<open>fetch_add\<close> wraps around.\<close>

definition next_id :: "LspClient \<Rightarrow> int \<times> LspClient" where
  "next_id c = (sint (request_id c), c\<lparr>request_id := request_id c + 1\<rparr>)"

text \<open>What happens to one message that is sent: the bytes go out, or there is an error of the pipe. Then the
  server answers. An \<open>exchange\<close> is the error, if there is one, and the server.\<close>

type_synonym exchange = "string option \<times> server"

definition send_request :: "exchange \<Rightarrow> string + unit" where
  "send_request x = (case fst x of Some e \<Rightarrow> Inl e | None \<Rightarrow> Inr ())"

definition read_response_for_id :: "(nat \<Rightarrow> string) \<Rightarrow> server \<Rightarrow> int \<Rightarrow> LspClient \<Rightarrow> (string + json) option" where
  "read_response_for_id show_duration E target_id c =
     map_option (\<lambda>r. case r of
         Inr msg \<Rightarrow> Inr msg
       | Inl Expired \<Rightarrow> Inl (LSP_TIMEOUT_PREFIX @ '' waiting for response id='' @ show_i64 target_id)
       | Inl (Frame m) \<Rightarrow> Inl m)
     (read_response show_duration E target_id (client_timeout c) Skip)"

definition read_initialize_response :: "(nat \<Rightarrow> string) \<Rightarrow> server \<Rightarrow> int \<Rightarrow> nat \<Rightarrow> (string + json) option" where
  "read_initialize_response show_duration E target_id probe_timeout =
     map_option (\<lambda>r. case r of
         Inr msg \<Rightarrow> Inr msg
       | Inl Expired \<Rightarrow> Inl (''lsp_probe_failed: no response within probe timeout ('' @ dec probe_timeout @ ''ms)'')
       | Inl (Frame m) \<Rightarrow> Inl (classify_probe_err m))
     (read_response show_duration E target_id probe_timeout FailFast)"

text \<open>The handshake, with the exchanges of its two messages and the server during the wait that follows. The
  client is returned as it is left.\<close>

definition initialize_with_probe ::
  "(nat \<Rightarrow> string) \<Rightarrow> (string option \<Rightarrow> string) \<Rightarrow> exchange \<Rightarrow> exchange \<Rightarrow> nat \<Rightarrow> LspClient \<Rightarrow> ((string + unit) \<times> LspClient) option" where
  "initialize_with_probe show_duration debug x y probe_timeout c0 =
     (case next_id c0 of (n, c) \<Rightarrow>
       (case send_request x of
          Inl e \<Rightarrow> Some (Inl (classify_probe_err e), c)
        | Inr _ \<Rightarrow> Option.bind (read_initialize_response show_duration (snd x) n probe_timeout) (\<lambda>r.
            case r of
              Inl e \<Rightarrow> Some (Inl e, c)
            | Inr resp \<Rightarrow>
                (case validate_probe_response debug resp of
                   Inl e \<Rightarrow> Some (Inl e, c)
                 | Inr _ \<Rightarrow>
                    (let c = c\<lparr>pull_diagnostics := advertises_pull_diagnostics resp\<rparr> in
                     case send_request y of
                       Inl e \<Rightarrow> Some (Inl (classify_probe_err e), c)
                     | Inr _ \<Rightarrow> map_option (\<lambda>(h, acks). (Inr (), c\<lparr>server_health := h\<rparr>))
                         (wait_for_ready show_duration (snd y) (now (snd y) 0 + client_timeout c)))))))"


subsection \<open>Answers\<close>

record DefinitionResult =
  def_uri :: string
  start_line :: nat
  start_col :: nat

definition or_else :: "'a option \<Rightarrow> 'a option \<Rightarrow> 'a option" where
  "or_else a b = (case a of Some x \<Rightarrow> Some x | None \<Rightarrow> b)"

definition preferred_uri :: "json \<Rightarrow> string option" where
  "preferred_uri location = Option.bind (or_else (at location ''targetUri'') (at location ''uri'')) as_str"

definition preferred_range :: "json \<Rightarrow> json option" where
  "preferred_range location =
     or_else (or_else (at location ''targetSelectionRange'') (at location ''targetRange'')) (at location ''range'')"

definition location_at :: "string \<Rightarrow> json \<Rightarrow> string + DefinitionResult option" where
  "location_at u r =
     (case at r ''start'' of
        None \<Rightarrow> Inl ''missing range.start''
      | Some start \<Rightarrow> Inr (Some \<lparr>def_uri = u,
          start_line = (case Option.bind (at start ''line'') as_u64 of Some n \<Rightarrow> n | None \<Rightarrow> 0),
          start_col = (case Option.bind (at start ''character'') as_u64 of Some n \<Rightarrow> n | None \<Rightarrow> 0)\<rparr>))"

definition location_result :: "json \<Rightarrow> string + DefinitionResult option" where
  "location_result location =
     (case (preferred_uri location, preferred_range location) of
        (Some u, Some r) \<Rightarrow> location_at u r
      | _ \<Rightarrow> Inr None)"

definition parse_definition_response :: "(json \<Rightarrow> string) \<Rightarrow> json \<Rightarrow> string + DefinitionResult option" where
  "parse_definition_response show_json resp =
     (case at resp ''error'' of
        Some err \<Rightarrow> Inl (''LSP error: '' @ show_json err)
      | None \<Rightarrow>
          (case at resp ''result'' of
             None \<Rightarrow> Inr None
           | Some JNull \<Rightarrow> Inr None
           | Some (JArr []) \<Rightarrow> Inr None
           | Some (JArr (location # _)) \<Rightarrow> location_result location
           | Some (JObj m) \<Rightarrow> location_result (JObj m)
           | Some _ \<Rightarrow> Inr None))"

record PulledDiagnostic =
  code :: "string option"
  diag_message :: string

text \<open>\<open>show_float\<close> prints a number that is no integer.\<close>

definition UNLINKED_FILE_CODE :: string where
  "UNLINKED_FILE_CODE = ''unlinked-file''"

definition pulled_diagnostic :: "(string \<Rightarrow> string) \<Rightarrow> json \<Rightarrow> PulledDiagnostic" where
  "pulled_diagnostic show_float item =
     \<lparr>code = (case at item ''code'' of
        Some (JStr s) \<Rightarrow> Some s
      | Some (JInt n) \<Rightarrow> Some (show_i64 n)
      | Some (JFloat x) \<Rightarrow> Some (show_float x)
      | _ \<Rightarrow> None),
      diag_message = (case Option.bind (at item ''message'') as_str of Some s \<Rightarrow> s | None \<Rightarrow> [])\<rparr>"

definition parse_document_diagnostic_report ::
  "(string \<Rightarrow> string) \<Rightarrow> (json \<Rightarrow> string) \<Rightarrow> json \<Rightarrow> string + PulledDiagnostic list" where
  "parse_document_diagnostic_report show_float show_json resp =
     (case at resp ''error'' of
        Some err \<Rightarrow> Inl (''LSP error: '' @ show_json err)
      | None \<Rightarrow>
          (case Option.bind (at_path resp [''result'', ''items'']) as_array of
             None \<Rightarrow> Inr []
           | Some items \<Rightarrow> Inr (map (pulled_diagnostic show_float) items)))"

definition unlinked_file_message :: "PulledDiagnostic list \<Rightarrow> string option" where
  "unlinked_file_message diagnostics = map_option diag_message (find (\<lambda>d. code d = Some UNLINKED_FILE_CODE) diagnostics)"

subsection \<open>Requests\<close>

text \<open>The way of every request: a number, the message, the wait, the reader of the answer.\<close>

definition request :: "LspClient \<Rightarrow> (nat \<Rightarrow> string) \<Rightarrow> exchange \<Rightarrow> (json \<Rightarrow> string + 'a) \<Rightarrow> ((string + 'a) \<times> LspClient) option" where
  "request c0 show_duration x parse =
     (case next_id c0 of (n, c) \<Rightarrow>
       (case send_request x of
          Inl e \<Rightarrow> Some (Inl e, c)
        | Inr _ \<Rightarrow> map_option (\<lambda>r. (case r of Inl e \<Rightarrow> Inl e | Inr resp \<Rightarrow> parse resp, c))
            (read_response_for_id show_duration (snd x) n c)))"

definition get_definition ::
  "(nat \<Rightarrow> string) \<Rightarrow> (json \<Rightarrow> string) \<Rightarrow> exchange \<Rightarrow> LspClient \<Rightarrow> ((string + DefinitionResult option) \<times> LspClient) option" where
  "get_definition show_duration show_json x c = request c show_duration x (parse_definition_response show_json)"

definition diagnostics_of ::
  "(nat \<Rightarrow> string) \<Rightarrow> (string \<Rightarrow> string) \<Rightarrow> (json \<Rightarrow> string) \<Rightarrow> exchange \<Rightarrow> LspClient
     \<Rightarrow> ((string + PulledDiagnostic list) \<times> LspClient) option" where
  "diagnostics_of show_duration show_float show_json x c =
     request c show_duration x (parse_document_diagnostic_report show_float show_json)"

text \<open>\<open>shutdown\<close> asks, says goodbye, looks up to twenty times whether the process has ended, and kills it if
  it has not. The result is whether it was killed, and how often it was looked at.\<close>

definition SHUTDOWN_GRACE_POLLS :: nat where
  "SHUTDOWN_GRACE_POLLS = 20"

fun poll_exit :: "(nat \<Rightarrow> bool) \<Rightarrow> nat \<Rightarrow> nat \<Rightarrow> bool \<times> nat" where
  "poll_exit exited k 0 = (True, k)"
| "poll_exit exited k (Suc left) = (if exited k then (False, Suc k) else poll_exit exited (Suc k) left)"

definition shutdown :: "(nat \<Rightarrow> string) \<Rightarrow> exchange \<Rightarrow> (nat \<Rightarrow> bool) \<Rightarrow> LspClient \<Rightarrow> (bool \<times> nat) option" where
  "shutdown show_duration x exited c0 =
     (case next_id c0 of (n, c) \<Rightarrow>
       Option.bind (case send_request x of
            Inl e \<Rightarrow> Some (Inl e)
          | Inr _ \<Rightarrow> read_response_for_id show_duration (snd x) n c)
        (\<lambda>ignored. Some (poll_exit exited 0 SHUTDOWN_GRACE_POLLS)))"


section \<open>The verdict of the handshake\<close>

lemma classify_marked: "starts_with (classify_probe_err e) ''lsp_probe_failed''"
  by (auto simp: classify_probe_err_def starts_with_def split: option.splits)

lemma initialize_answer_marked:
  assumes "now E 0 + t \<le> now E n" "1 \<le> n"
  shows "(\<exists>e. read_initialize_response sd E i t = Some (Inl e) \<and> starts_with e ''lsp_probe_failed'') \<or>
    (\<exists>j resp. j \<le> n \<and> read_initialize_response sd E i t = Some (Inr resp) \<and> answered sd E i t FailFast j (Inr resp))"
proof -
  obtain j r where r: "j \<le> n" "read_response sd E i t FailFast = Some r" "answered sd E i t FailFast j r"
    using request_decided [OF assms] by blast
  show ?thesis
  proof (cases r)
    case (Inl f)
    then show ?thesis using r(2) classify_marked
      by (cases f) (auto simp: read_initialize_response_def starts_with_def)
  next
    case (Inr resp)
    then show ?thesis using r by (auto simp: read_initialize_response_def)
  qed
qed

definition speaks_protocol :: "json \<Rightarrow> bool" where
  "speaks_protocol resp \<longleftrightarrow> at resp ''jsonrpc'' = Some (JStr ''2.0'') \<and> (at resp ''result'' \<noteq> None \<or> at resp ''error'' \<noteq> None)"

lemma as_str_Some: "as_str v = Some s \<longleftrightarrow> v = JStr s"
  by (cases v) auto

lemma validate_cases:
  "(validate_probe_response debug resp = Inr () \<and> speaks_protocol resp) \<or>
   (\<not> speaks_protocol resp \<and> (\<exists>e. validate_probe_response debug resp = Inl e \<and> starts_with e ''lsp_probe_failed''))"
  by (auto simp: validate_probe_response_def speaks_protocol_def starts_with_def Let_def bind_eq_Some_conv as_str_Some)

text \<open>The handshake always returns, once the clock has passed the window of the probe and then the deadline
  of the wait. When it fails, the error carries the mark \<open>lsp_probe_failed\<close>, whatever went wrong, and no health
  is recorded. When it succeeds, the first answer to its own request (not a question of the server with the same
  number) spoke JSON-RPC 2.0, everything before it was well-formed JSON, and the health of the client is what
  the wait reported. Either way the number is used up.\<close>

theorem handshake_decides:
  assumes "now E 0 + probe \<le> now E m" "1 \<le> m" "steady F" "now F 0 + client_timeout c \<le> now F n" "1 \<le> n"
  shows "\<exists>out d. initialize_with_probe sd debug (x, E) (y, F) probe c = Some (out, d) \<and> request_id d = request_id c + 1 \<and>
    (case out of
       Inl e \<Rightarrow> starts_with e ''lsp_probe_failed'' \<and> server_health d = server_health c
     | Inr _ \<Rightarrow> x = None \<and> y = None \<and> (\<exists>j resp k. 1 \<le> j \<and> j \<le> m \<and> recv E j = Arrived (Inr resp) \<and>
         is_response_to resp (sint (request_id c)) \<and> speaks_protocol resp \<and>
         (\<forall>i. 1 \<le> i \<and> i < j \<longrightarrow> (\<exists>msg. recv E i = Arrived (Inr msg) \<and> \<not> is_response_to msg (sint (request_id c)))) \<and>
         pull_diagnostics d = advertises_pull_diagnostics resp \<and>
         k \<le> n \<and> reported F (now F 0 + client_timeout c) k (server_health d)))"
proof -
  let ?c = "c\<lparr>request_id := request_id c + 1\<rparr>"
  have next_id: "next_id c = (sint (request_id c), ?c)" by (simp add: next_id_def)
  show ?thesis
  proof (cases x)
    case Some
    then show ?thesis using classify_marked by (simp add: initialize_with_probe_def next_id send_request_def)
  next
    case x: None
    from initialize_answer_marked [OF assms(1,2), of sd "sint (request_id c)"] show ?thesis
    proof (elim disjE exE conjE)
      fix e assume "read_initialize_response sd E (sint (request_id c)) probe = Some (Inl e)" "starts_with e ''lsp_probe_failed''"
      then show ?thesis by (simp add: initialize_with_probe_def next_id send_request_def x)
    next
      fix j resp
      assume a: "j \<le> m" "read_initialize_response sd E (sint (request_id c)) probe = Some (Inr resp)"
        "answered sd E (sint (request_id c)) probe FailFast j (Inr resp)"
      from validate_cases [of debug resp] show ?thesis
      proof (elim disjE exE conjE)
        fix e assume "validate_probe_response debug resp = Inl e" "starts_with e ''lsp_probe_failed''"
        then show ?thesis using a(2) by (simp add: initialize_with_probe_def next_id send_request_def x)
      next
        assume v: "validate_probe_response debug resp = Inr ()" "speaks_protocol resp"
        let ?d = "?c\<lparr>pull_diagnostics := advertises_pull_diagnostics resp\<rparr>"
        show ?thesis
        proof (cases y)
          case Some
          then show ?thesis using a(2) v(1) classify_marked by (simp add: initialize_with_probe_def next_id send_request_def x)
        next
          case y: None
          obtain k h acks where k: "k \<le> n" "reported F (now F 0 + client_timeout c) k h"
            "wait_for_ready sd F (now F 0 + client_timeout c) = Some (h, acks)"
            using readiness_decided [OF assms(3-5), of sd] by blast
          have "initialize_with_probe sd debug (x, E) (y, F) probe c = Some (Inr (), ?d\<lparr>server_health := h\<rparr>)"
            using a(2) v(1) k(3) by (simp add: initialize_with_probe_def next_id send_request_def x y)
          moreover have "\<forall>i. 1 \<le> i \<and> i < j \<longrightarrow> (\<exists>msg. recv E i = Arrived (Inr msg) \<and> \<not> is_response_to msg (sint (request_id c)))"
            "1 \<le> j" "recv E j = Arrived (Inr resp)" "is_response_to resp (sint (request_id c))"
            using a(3) by (auto simp: answered_def passed_over_def)
          ultimately show ?thesis using a(1) v(2) k(1,2) x y
            by (intro exI [of _ "Inr ()"] exI [of _ "?d\<lparr>server_health := h\<rparr>"]) (simp, blast)
        qed
      qed
    qed
  qed
qed

definition silent_server :: server where
  "silent_server = \<lparr>now = (\<lambda>k. k), later = (\<lambda>k. k), recv = (\<lambda>k. Disconnected)\<rparr>"

lemma handshake_decides_witness:
  "\<exists>out d. initialize_with_probe dec (\<lambda>s. []) (None, silent_server) (None, silent_server) 3 (start_client 3) = Some (out, d) \<and>
    request_id d = 2"
  using handshake_decides [of silent_server 3 3 silent_server "start_client 3" 3 dec "\<lambda>s. []" None None]
  by (auto simp: silent_server_def steady_def start_client_def)

text \<open>Going away is bounded too: at most twenty looks, then the process is killed.\<close>

lemma poll_exit_spec:
  "poll_exit exited k left = (killed, k') \<Longrightarrow>
     k' \<le> k + left \<and> (killed \<longleftrightarrow> (\<forall>i. k \<le> i \<and> i < k + left \<longrightarrow> \<not> exited i))"
  by (induction exited k left rule: poll_exit.induct)
     (auto split: if_splits, (metis Suc_leI le_less less_add_Suc1 add_Suc_right le_eq_less_or_eq)+)

end
