(* ===== verification/Paging.thy ===== *)
theory Paging
  imports Json ReadOnlyGate Impact "HOL-Library.AList"
begin

text \<open>
  Answers that are cut to a size and continued (\<open>src/response_budget.rs\<close>), the page window of \<open>query_graph\<close>
  (\<open>src/query_handlers.rs\<close>), the shapes of a list (\<open>src/token_surface.rs\<close>) and the sections of an impact
  answer (\<open>src/process_impact_handlers/impact.rs\<close>).

  Parameters: \<open>cost\<close>, the number of bytes of the compact text that \<open>serde_json\<close> writes for a value, and
  \<open>engine\<close>, which executes a read-only statement. A client that follows the cursor is not part of the program;
  it is the reader that the documentation of \<open>BoundedPage\<close> describes, and the locale \<open>cursor\<close> is what it needs of
  a source of pages.
\<close>

section \<open>The budget\<close>

definition MAX_RESPONSE_CHARS :: nat where
  "MAX_RESPONSE_CHARS = 100000"

text \<open>The \<open>f64\<close> product of the cap and 0.40 is exactly 40000.\<close>

definition per_section_chars :: nat where
  "per_section_chars = MAX_RESPONSE_CHARS * 40 div 100"

record Bounded =
  bounded_items :: "json list"
  bounded_total :: nat
  bounded_truncated :: bool

record BoundedPage =
  page_items :: "json list"
  page_total :: nat
  page_truncated :: bool
  next_offset :: "nat option"

fun fill :: "(json \<Rightarrow> nat) \<Rightarrow> nat \<Rightarrow> json list \<Rightarrow> nat \<Rightarrow> json list \<Rightarrow> json list" where
  "fill cost char_budget items used [] = items"
| "fill cost char_budget items used (v # vs) =
     (if items \<noteq> [] \<and> char_budget < used + cost v then items
      else fill cost char_budget (items @ [v]) (used + cost v) vs)"

definition bound_values_paged :: "(json \<Rightarrow> nat) \<Rightarrow> json list \<Rightarrow> nat \<Rightarrow> nat \<Rightarrow> BoundedPage" where
  "bound_values_paged cost values offset char_budget =
     (let total_count = length values;
          start = min offset total_count;
          items = fill cost char_budget [] 0 (drop start values);
          next_index = start + length items;
          more_remain = next_index < total_count in
      \<lparr>page_items = items, page_total = total_count, page_truncated = more_remain,
       next_offset = (if more_remain then Some next_index else None)\<rparr>)"

fun bound_from :: "(json \<Rightarrow> nat) \<Rightarrow> nat \<Rightarrow> nat \<Rightarrow> json list \<Rightarrow> nat \<Rightarrow> json list \<Rightarrow> Bounded" where
  "bound_from cost char_budget total_count items used [] =
     \<lparr>bounded_items = items, bounded_total = total_count, bounded_truncated = False\<rparr>"
| "bound_from cost char_budget total_count items used (v # vs) =
     (if items \<noteq> [] \<and> char_budget < used + cost v
      then \<lparr>bounded_items = items, bounded_total = total_count, bounded_truncated = True\<rparr>
      else bound_from cost char_budget total_count (items @ [v]) (used + cost v) vs)"

definition bound_values :: "(json \<Rightarrow> nat) \<Rightarrow> json list \<Rightarrow> nat \<Rightarrow> Bounded" where
  "bound_values cost values char_budget = bound_from cost char_budget (length values) [] 0 values"

text \<open>A page fits when its values do, or when it is a single value that is too large by itself. It is the longest
  such prefix.\<close>

definition fits :: "(json \<Rightarrow> nat) \<Rightarrow> nat \<Rightarrow> json list \<Rightarrow> bool" where
  "fits cost char_budget items \<longleftrightarrow> sum_list (map cost items) \<le> char_budget \<or> length items \<le> 1"

lemma fill_prefix:
  assumes "used = sum_list (map cost items)" "fits cost b items"
  shows "\<exists>n. n \<le> length vs \<and> fill cost b items used vs = items @ take n vs \<and> fits cost b (items @ take n vs) \<and>
    (n < length vs \<longrightarrow> items @ take n vs \<noteq> [] \<and> \<not> fits cost b (items @ take (Suc n) vs))"
  using assms
proof (induction cost b items used vs rule: fill.induct)
  case (2 cost b items used v vs)
  show ?case
  proof (cases "items \<noteq> [] \<and> b < used + cost v")
    case True
    then have "length (items @ [v]) > 1" by (cases items) auto
    then show ?thesis using True 2(2,3) by (intro exI [of _ 0]) (auto simp: fits_def)
  next
    case False
    have "fits cost b (items @ [v])" using False 2(2) by (auto simp: fits_def)
    with 2(1) [OF False] 2(2) obtain n where n: "n \<le> length vs"
      "fill cost b (items @ [v]) (used + cost v) vs = (items @ [v]) @ take n vs" "fits cost b ((items @ [v]) @ take n vs)"
      "n < length vs \<longrightarrow> \<not> fits cost b ((items @ [v]) @ take (Suc n) vs)" by auto
    then show ?thesis using False by (intro exI [of _ "Suc n"]) auto
  qed
qed auto

lemma fill_page:
  "\<exists>n. n \<le> length vs \<and> fill cost b [] 0 vs = take n vs \<and> fits cost b (take n vs) \<and>
     (n < length vs \<longrightarrow> 1 \<le> n \<and> \<not> fits cost b (take (Suc n) vs))"
  using fill_prefix [of 0 cost "[]" b vs] by (auto simp: fits_def Suc_le_eq)

lemma bound_from_fill:
  "bound_from cost b tc items used vs =
     \<lparr>bounded_items = fill cost b items used vs, bounded_total = tc,
      bounded_truncated = (length (fill cost b items used vs) < length items + length vs)\<rparr>"
proof (induction cost b tc items used vs rule: bound_from.induct)
  case (2 cost b tc items used v vs)
  then show ?case by auto
qed simp

text \<open>The two cuts agree: a bounded list is the first page.\<close>

lemma bound_values_first_page:
  "bound_values cost values b =
     (let p = bound_values_paged cost values 0 b in
      \<lparr>bounded_items = page_items p, bounded_total = page_total p, bounded_truncated = page_truncated p\<rparr>)"
  by (simp add: bound_values_def bound_from_fill bound_values_paged_def Let_def)

section \<open>Following the cursor\<close>

partial_function (option) read_all :: "(nat \<Rightarrow> ('v list \<times> nat option) option) \<Rightarrow> nat \<Rightarrow> 'v list list option" where
  "read_all fetch offset =
     Option.bind (fetch offset) (\<lambda>(items, next).
       case next of None \<Rightarrow> Some [items] | Some n \<Rightarrow> Option.bind (read_all fetch n) (\<lambda>pages. Some (items # pages)))"

text \<open>Pages that follow each other from an offset, each good at its place.\<close>

fun placed :: "(nat \<Rightarrow> 'v list \<Rightarrow> bool) \<Rightarrow> nat \<Rightarrow> 'v list list \<Rightarrow> bool" where
  "placed good offset [] \<longleftrightarrow> True"
| "placed good offset (p # ps) \<longleftrightarrow> good offset p \<and> placed good (offset + length p) ps"

lemma placed_conj: "placed (\<lambda>i p. P i p \<and> Q i p) offset ps \<longleftrightarrow> placed P offset ps \<and> placed Q offset ps"
  by (induction ps arbitrary: offset) auto

lemma placed_const: "placed (\<lambda>i. P) offset ps \<longleftrightarrow> list_all P ps"
  by (induction ps arbitrary: offset) auto

lemma placed_slices: "placed (\<lambda>i p. p = take (length p) (drop i xs)) offset ps \<Longrightarrow> concat ps = take (length (concat ps)) (drop offset xs)"
proof (induction ps arbitrary: offset)
  case (Cons p ps)
  then have "concat ps = take (length (concat ps)) (drop (offset + length p) xs)" "p = take (length p) (drop offset xs)" by auto
  then show ?case by (metis add.commute append_take_drop_id concat.simps(2) drop_drop length_append take_add)
qed simp

text \<open>What a reader needs of a source of pages over a list of \<open>total\<close> values: a page that is asked for within the list
  ends within it, is not empty before its end, is good at its place, and names its end as the next offset unless it is
  the last one.\<close>

locale cursor =
  fixes fetch :: "nat \<Rightarrow> ('v list \<times> nat option) option"
    and total :: nat
    and good :: "nat \<Rightarrow> 'v list \<Rightarrow> bool"
  assumes page: "offset \<le> total \<Longrightarrow> \<exists>items. offset + length items \<le> total \<and> (offset < total \<longrightarrow> items \<noteq> []) \<and> good offset items \<and>
    fetch offset = Some (items, if offset + length items < total then Some (offset + length items) else None)"
begin

lemma read_from:
  "offset \<le> total \<Longrightarrow>
     \<exists>pages. read_all fetch offset = Some pages \<and> length (concat pages) = total - offset \<and> placed good offset pages"
proof (induction "total - offset" arbitrary: offset rule: less_induct)
  case less
  obtain items where k: "offset + length items \<le> total" "offset < total \<longrightarrow> items \<noteq> []" "good offset items"
    "fetch offset = Some (items, if offset + length items < total then Some (offset + length items) else None)"
    using page [OF less(2)] by blast
  show ?case
  proof (cases "offset + length items < total")
    case True
    then have "total - (offset + length items) < total - offset" using k(2) by (cases items) auto
    then obtain pages where "read_all fetch (offset + length items) = Some pages"
      "length (concat pages) = total - (offset + length items)" "placed good (offset + length items) pages"
      using less(1) [of "offset + length items"] k(1) by blast
    then show ?thesis using k True by (subst read_all.simps) simp
  next
    case False
    then show ?thesis using k by (subst read_all.simps) simp
  qed
qed

lemma reads_everything: "\<exists>pages. read_all fetch 0 = Some pages \<and> length (concat pages) = total \<and> placed good 0 pages"
  using read_from [of 0] by simp

end

definition page_of :: "BoundedPage \<Rightarrow> (json list \<times> nat option) option" where
  "page_of p = Some (page_items p, next_offset p)"

interpretation pages: cursor "\<lambda>offset. page_of (bound_values_paged cost vs offset b)" "length vs"
  "\<lambda>i p. fits cost b p \<and> p = take (length p) (drop i vs)"
proof unfold_locales
  fix offset assume o: "offset \<le> length vs"
  obtain n where n: "n \<le> length vs - offset" "fill cost b [] 0 (drop offset vs) = take n (drop offset vs)"
    "fits cost b (take n (drop offset vs))" "n < length vs - offset \<longrightarrow> 1 \<le> n"
    using fill_page [of "drop offset vs" cost b] by auto
  then show "\<exists>items. offset + length items \<le> length vs \<and> (offset < length vs \<longrightarrow> items \<noteq> []) \<and>
    (fits cost b items \<and> items = take (length items) (drop offset vs)) \<and>
    page_of (bound_values_paged cost vs offset b) =
      Some (items, if offset + length items < length vs then Some (offset + length items) else None)"
    using o by (intro exI [of _ "take n (drop offset vs)"]) (auto simp: page_of_def bound_values_paged_def Let_def)
qed


section \<open>The page window of \<open>query_graph\<close>\<close>

record QueryResult =
  columns :: "string list"
  rows :: "string list list"

definition QUERY_GRAPH_ROW_LIMIT :: nat where
  "QUERY_GRAPH_ROW_LIMIT = 500"

definition saturating_add :: "nat \<Rightarrow> nat \<Rightarrow> nat" where
  "saturating_add a b = min (a + b) (2 ^ 64 - 1)"

definition injected_fetch_limit :: "nat \<Rightarrow> nat" where
  "injected_fetch_limit offset = saturating_add offset (QUERY_GRAPH_ROW_LIMIT + 1)"

definition clip_probe_row :: "'a list \<Rightarrow> nat \<Rightarrow> 'a list \<times> bool" where
  "clip_probe_row rs offset =
     (let window_end = saturating_add offset QUERY_GRAPH_ROW_LIMIT in (take window_end rs, window_end < length rs))"

definition format_query_result :: "string list \<Rightarrow> string list list \<Rightarrow> string" where
  "format_query_result cols rs =
     join_with '' | '' cols @ concat (map (\<lambda>row. CHR 0x0A # join_with '' | '' row) rs)"

record QueryPageMeta =
  meta_offset :: nat
  elapsed_ms :: nat
  order_stable :: bool
  limit_injected :: bool
  row_limit_reached :: bool

definition row_value :: "string list \<Rightarrow> json" where
  "row_value row = JArr (map JStr row)"

definition query_page :: "(json \<Rightarrow> nat) \<Rightarrow> QueryResult \<Rightarrow> nat \<Rightarrow> BoundedPage" where
  "query_page cost qr offset = bound_values_paged cost (map row_value (rows qr)) offset MAX_RESPONSE_CHARS"

text \<open>The cursor of the answer: the end of the page, or else the end of the window that was cut.\<close>

definition query_next :: "QueryResult \<Rightarrow> QueryPageMeta \<Rightarrow> BoundedPage \<Rightarrow> nat option" where
  "query_next qr meta page =
     (case next_offset page of
        Some n \<Rightarrow> Some n
      | None \<Rightarrow> if row_limit_reached meta then Some (length (rows qr)) else None)"

definition paged_query_response :: "(json \<Rightarrow> nat) \<Rightarrow> QueryResult \<Rightarrow> QueryPageMeta \<Rightarrow> json_map" where
  "paged_query_response cost qr meta =
     (let page = query_page cost qr (meta_offset meta);
          returned_rows = page_items page;
          start = min (meta_offset meta) (length (rows qr));
          returned_string_rows = take (length returned_rows) (drop start (rows qr)) in
      [(''stage'', JInt 3), (''status'', JStr ''ok''), (''tool'', JStr ''query_graph''),
       (''columns'', JArr (map JStr (columns qr))),
       (''rows'', JArr returned_rows),
       (''result'', JStr (format_query_result (columns qr) returned_string_rows)),
       (''elapsed_ms'', JInt (int (elapsed_ms meta))),
       (''total_count'', JInt (int (page_total page))),
       (''returned_count'', JInt (int (length returned_rows))),
       (''offset'', JInt (int (meta_offset meta))),
       (''truncated'', JBool (page_truncated page \<or> row_limit_reached meta)),
       (''order_stable'', JBool (order_stable meta)),
       (''limit_injected'', JBool (limit_injected meta))] @
      (if limit_injected meta then [(''row_limit'', JInt (int QUERY_GRAPH_ROW_LIMIT))] else []) @
      (case query_next qr meta page of Some n \<Rightarrow> [(''next_offset'', JInt (int n))] | None \<Rightarrow> []))"

definition run_gated_cypher ::
  "(json \<Rightarrow> nat) \<Rightarrow> (string \<Rightarrow> string + QueryResult) \<Rightarrow> nat \<Rightarrow> string \<Rightarrow> nat \<Rightarrow> string + json_map" where
  "run_gated_cypher cost engine elapsed query offset =
     (case inject_limit_if_absent query (injected_fetch_limit offset) of (effective_query, injected) \<Rightarrow>
       (case engine effective_query of
          Inl e \<Rightarrow> Inl e
        | Inr qr \<Rightarrow>
            (let (clipped, reached) = (if injected then clip_probe_row (rows qr) offset else (rows qr, False)) in
             Inr (paged_query_response cost (qr\<lparr>rows := clipped\<rparr>)
               \<lparr>meta_offset = offset, elapsed_ms = elapsed, order_stable = has_order_by_clause query,
                limit_injected = injected, row_limit_reached = reached\<rparr>))))"

subsection \<open>The request and its shape\<close>

definition gated_cypher_request :: "bool \<Rightarrow> json_map \<Rightarrow> string \<Rightarrow> string + string \<times> nat" where
  "gated_cypher_request graph_exists args graph_str =
     (case Option.bind (get args ''query'') as_str of
        None \<Rightarrow> Inl (''missing required field '' @ [CHR 0x27] @ ''query'' @ [CHR 0x27])
      | Some query \<Rightarrow>
          (let offset = (case Option.bind (get args ''offset'') as_u64 of Some n \<Rightarrow> n | None \<Rightarrow> 0) in
           case forbidden_cypher_keyword query of
             Some bad \<Rightarrow> Inl (''read_only_query_required: query_graph is read-only; found forbidden keyword: '' @ bad)
           | None \<Rightarrow>
               if is_multi_statement query
               then Inl (''multi_statement_not_supported: query_graph executes exactly one statement per call. The engine'' @ [CHR 0x27]
                 @ ''s read-only classification and this tool'' @ [CHR 0x27]
                 @ ''s LIMIT injection, ORDER BY detection and offset cursor are all properties of a single statement, so a `;`-chained request has no well-defined page. Send one statement per call; a trailing `;` is accepted.'')
               else if \<not> graph_exists then Inl (''graph_path does not exist: '' @ graph_str)
               else Inr (query, offset)))"

datatype Detail = Full | Ids
datatype Format = AsJson | Tabular

definition parse_detail :: "json_map \<Rightarrow> Detail" where
  "parse_detail args = (if Option.bind (get args ''detail'') as_str = Some ''ids'' then Ids else Full)"

definition parse_format :: "json_map \<Rightarrow> Format" where
  "parse_format args = (if Option.bind (get args ''format'') as_str = Some ''tabular'' then Tabular else AsJson)"

record ListView =
  view_value :: json
  view_columns :: "json option"
  view_detail :: string
  view_format :: string

text \<open>\<open>Value::get\<close> with a key.\<close>

definition item_field :: "json \<Rightarrow> string \<Rightarrow> json option" where
  "item_field item key = (case item of JObj m \<Rightarrow> get m key | _ \<Rightarrow> None)"

definition render_list :: "json list \<Rightarrow> string list \<Rightarrow> string \<Rightarrow> Detail \<Rightarrow> Format \<Rightarrow> ListView" where
  "render_list items cols id_field detail format =
     (case detail of
        Ids \<Rightarrow> \<lparr>view_value = JArr (List.map_filter (\<lambda>it. item_field it id_field) items), view_columns = None,
                view_detail = ''ids'', view_format = ''ids''\<rparr>
      | Full \<Rightarrow> (case format of
          Tabular \<Rightarrow> \<lparr>view_value = JArr (map (\<lambda>it. JArr (map (\<lambda>c. case item_field it c of Some v \<Rightarrow> v | None \<Rightarrow> JNull) cols)) items),
            view_columns = Some (JArr (map JStr cols)), view_detail = ''full'', view_format = ''tabular''\<rparr>
        | AsJson \<Rightarrow> \<lparr>view_value = JArr items, view_columns = None, view_detail = ''full'', view_format = ''json''\<rparr>))"

definition first_cell :: "json \<Rightarrow> json option" where
  "first_cell r = (case r of JArr (c # _) \<Rightarrow> Some c | _ \<Rightarrow> None)"

definition shape_token_surface :: "json_map \<Rightarrow> json_map \<Rightarrow> json_map" where
  "shape_token_surface args out =
     (case parse_detail args of
        Ids \<Rightarrow>
          (let ids = (case Option.bind (get out ''rows'') as_array of Some rs \<Rightarrow> List.map_filter first_cell rs | None \<Rightarrow> []);
               first_col = (case Option.bind (get out ''columns'') as_array of Some cs \<Rightarrow> take 1 cs | None \<Rightarrow> []) in
           AList.update ''format'' (JStr ''ids'') (AList.update ''detail'' (JStr ''ids'')
             (AList.delete ''result'' (AList.update ''columns'' (JArr first_col) (AList.update ''rows'' (JArr ids) out)))))
      | Full \<Rightarrow>
          (case parse_format args of
             Tabular \<Rightarrow> AList.update ''format'' (JStr ''tabular'') (AList.update ''detail'' (JStr ''full'') (AList.delete ''result'' out))
           | AsJson \<Rightarrow> AList.update ''format'' (JStr ''json'') (AList.update ''detail'' (JStr ''full'') out)))"

text \<open>\<open>missed\<close> is the coverage answer of the graph, \<open>graph_exists\<close> whether its path exists.\<close>

definition do_query_graph ::
  "(json \<Rightarrow> nat) \<Rightarrow> (string \<Rightarrow> string + QueryResult) \<Rightarrow> nat \<Rightarrow> (string \<Rightarrow> bool) \<Rightarrow> (string \<Rightarrow> json_map) \<Rightarrow> json
     \<Rightarrow> string + json_map" where
  "do_query_graph cost engine elapsed graph_exists missed arguments =
     (case as_object arguments of
        None \<Rightarrow> Inl ''arguments must be an object''
      | Some args \<Rightarrow>
          (case Option.bind (get args ''graph_path'') as_str of
             None \<Rightarrow> Inl (''missing required field '' @ [CHR 0x27] @ ''graph_path'' @ [CHR 0x27])
           | Some graph_str \<Rightarrow>
               if Option.bind (get args ''graph'') as_str = Some ''missed''
               then if graph_exists graph_str then Inr (missed graph_str) else Inl (''graph_path does not exist: '' @ graph_str)
               else (case gated_cypher_request (graph_exists graph_str) args graph_str of
                   Inl e \<Rightarrow> Inl e
                 | Inr (query, offset) \<Rightarrow>
                     (case run_gated_cypher cost engine elapsed query offset of
                        Inl e \<Rightarrow> Inl e
                      | Inr out \<Rightarrow> Inr (shape_token_surface args out)))))"

definition query_failure_reason :: "string \<Rightarrow> string" where
  "query_failure_reason msg =
     (if contains msg ''read_only_query_required'' then ''read_only_query_required''
      else if contains msg ''multi_statement_not_supported'' then ''multi_statement_not_supported''
      else ''query_failed'')"

definition run_query_graph ::
  "(json \<Rightarrow> nat) \<Rightarrow> (string \<Rightarrow> string + QueryResult) \<Rightarrow> nat \<Rightarrow> (string \<Rightarrow> bool) \<Rightarrow> (string \<Rightarrow> json_map) \<Rightarrow> json \<Rightarrow> json_map" where
  "run_query_graph cost engine elapsed graph_exists missed arguments =
     (case do_query_graph cost engine elapsed graph_exists missed arguments of
        Inr v \<Rightarrow> v
      | Inl msg \<Rightarrow> [(''stage'', JInt 3), (''status'', JStr ''error''), (''reason'', JStr (query_failure_reason msg)),
          (''message'', JStr msg)])"


section \<open>Sections of an impact answer\<close>

text \<open>\<open>show2\<close> is the text of a confidence with two digits.\<close>

definition impact_handle :: "('f \<Rightarrow> string) \<Rightarrow> 'f ImpactNode \<Rightarrow> json" where
  "impact_handle show2 n =
     JObj ([(''id'', JStr (node_id n)), (''qualified_name'', JStr (node_qn n)), (''label'', JStr (node_label n)),
       (''confidence'', JStr (show2 (confidence n)))] @
       (if node_context n = [] then [] else [(''context'', JStr (node_context n))]))"

record ImpactSections =
  sec_offset :: nat
  sec_callers :: BoundedPage
  sec_importers :: Bounded
  sec_users :: Bounded
  sec_implementors :: Bounded
  sec_references :: Bounded
  dependents_total :: nat
  references_total_full :: nat

definition paged_impact_sections :: "(json \<Rightarrow> nat) \<Rightarrow> ('f \<Rightarrow> string) \<Rightarrow> 'f Dependents \<Rightarrow> nat \<Rightarrow> ImpactSections" where
  "paged_impact_sections cost show2 impact offset =
     (let handles = map (impact_handle show2) in
      \<lparr>sec_offset = offset,
       sec_callers = bound_values_paged cost (handles (callers impact)) offset per_section_chars,
       sec_importers = bound_values cost (handles (importers impact)) per_section_chars,
       sec_users = bound_values cost (handles (users impact)) per_section_chars,
       sec_implementors = bound_values cost (handles (implementors impact)) per_section_chars,
       sec_references = bound_values cost (handles (references impact)) per_section_chars,
       dependents_total = length (callers impact) + length (importers impact) + length (users impact) + length (implementors impact),
       references_total_full = length (references impact)\<rparr>)"

definition section_cost :: "(json \<Rightarrow> nat) \<Rightarrow> ImpactSections \<Rightarrow> nat" where
  "section_cost cost s =
     sum_list (map cost (page_items (sec_callers s))) + sum_list (map cost (bounded_items (sec_importers s))) +
     sum_list (map cost (bounded_items (sec_users s))) + sum_list (map cost (bounded_items (sec_implementors s))) +
     sum_list (map cost (bounded_items (sec_references s)))"

section \<open>Every row exactly once\<close>

text \<open>What a client reads off an answer.\<close>

definition answer_page :: "string + json_map \<Rightarrow> (json list \<times> nat option) option" where
  "answer_page r =
     (case r of Inl e \<Rightarrow> None
      | Inr out \<Rightarrow> map_option (\<lambda>rs. (rs, Option.bind (get out ''next_offset'') as_u64)) (Option.bind (get out ''rows'') as_array))"

text \<open>What the client relies on of the engine while it reads: the statement has the same number of rows on every call,
  as many of them as the \<open>LIMIT\<close> that was added allows are answered, and when the query declares an \<open>ORDER BY\<close> they
  come in that order. Without one the engine may answer other rows in another order on every call.\<close>

definition engine_keeps_count :: "(string \<Rightarrow> string + QueryResult) \<Rightarrow> string \<Rightarrow> string list \<Rightarrow> string list list \<Rightarrow> bool" where
  "engine_keeps_count engine query cols all_rows \<longleftrightarrow>
     (\<forall>n < 2 ^ 64. \<exists>rs. length rs = length all_rows \<and> (has_order_by_clause query \<longrightarrow> rs = all_rows) \<and>
        engine (fst (inject_limit_if_absent query n)) =
          Inr \<lparr>columns = cols, rows = (if has_limit_clause query then rs else take n rs)\<rparr>)"

lemma response_page:
  "length (rows qr) < 2 ^ 64 \<Longrightarrow>
     answer_page (Inr (paged_query_response cost qr meta)) =
       Some (page_items (query_page cost qr (meta_offset meta)), query_next qr meta (query_page cost qr (meta_offset meta)))"
  by (auto simp: answer_page_def paged_query_response_def Let_def get_append query_next_def query_page_def
    bound_values_paged_def split: option.splits)

lemma response_truncated:
  "get (paged_query_response cost qr meta) ''truncated'' =
     Some (JBool (get (paged_query_response cost qr meta) ''next_offset'' \<noteq> None))"
  by (auto simp: paged_query_response_def Let_def get_append query_next_def query_page_def bound_values_paged_def
    split: option.splits)

lemma response_order: "get (paged_query_response cost qr meta) ''order_stable'' = Some (JBool (order_stable meta))"
  by (simp add: paged_query_response_def Let_def)

lemma run_snd: "snd (inject_limit_if_absent query n) = (\<not> has_limit_clause query)"
  by (simp add: inject_limit_if_absent_def)

text \<open>One page over a prefix of the rows.\<close>

lemma page_of_prefix:
  assumes "offset \<le> w" "w \<le> length all_rows"
  shows "\<exists>k. offset + k \<le> w \<and> (offset < w \<longrightarrow> 1 \<le> k) \<and> fits cost b (take k (drop offset all_rows)) \<and>
    page_items (bound_values_paged cost (take w all_rows) offset b) = take k (drop offset all_rows) \<and>
    next_offset (bound_values_paged cost (take w all_rows) offset b) = (if offset + k < w then Some (offset + k) else None)"
proof -
  obtain n where n: "n \<le> w - offset" "fill cost b [] 0 (drop offset (take w all_rows)) = take n (drop offset (take w all_rows))"
    "fits cost b (take n (drop offset (take w all_rows)))" "n < w - offset \<longrightarrow> 1 \<le> n"
    using fill_page [of "drop offset (take w all_rows)" cost b] assms by auto
  have "take n (drop offset (take w all_rows)) = take n (drop offset all_rows)"
    using n(1) by (simp add: drop_take)
  then show ?thesis using n assms by (intro exI [of _ n]) (auto simp: bound_values_paged_def Let_def)
qed

lemma query_cursor:
  assumes "length all_rows < 2 ^ 63" "engine_keeps_count engine query cols all_rows"
  shows "cursor (\<lambda>offset. answer_page (run_gated_cypher cost engine t query offset)) (length all_rows)
    (\<lambda>i p. fits cost MAX_RESPONSE_CHARS p \<and> (has_order_by_clause query \<longrightarrow> p = take (length p) (drop i (map row_value all_rows))))"
proof unfold_locales
  fix offset assume o: "offset \<le> length all_rows"
  let ?n = "injected_fetch_limit offset"
  have lim: "injected_fetch_limit offset = offset + 501" "saturating_add offset QUERY_GRAPH_ROW_LIMIT = offset + 500"
    using o assms(1) by (auto simp: injected_fetch_limit_def saturating_add_def QUERY_GRAPH_ROW_LIMIT_def)
  have "?n < 2 ^ 64" using o assms(1) by (simp add: lim)
  then obtain rs where rs: "length rs = length all_rows" "has_order_by_clause query \<longrightarrow> rs = all_rows"
    "engine (fst (inject_limit_if_absent query ?n)) =
        Inr \<lparr>columns = cols, rows = (if has_limit_clause query then rs else take (offset + 501) rs)\<rparr>"
    using assms(2) unfolding engine_keeps_count_def lim by blast
  define w where "w = (if has_limit_clause query then length rs else min (length rs) (offset + 500))"
  define meta where "meta = \<lparr>meta_offset = offset, elapsed_ms = t, order_stable = has_order_by_clause query,
    limit_injected = (\<not> has_limit_clause query), row_limit_reached = (w < length rs)\<rparr>"
  define qr where "qr = \<lparr>columns = cols, rows = take w rs\<rparr>"
  have w: "offset \<le> w" "w \<le> length rs" "offset < length rs \<longrightarrow> offset < w"
    "\<not> (w < length rs) \<or> w = offset + 500" using o rs(1) by (auto simp: w_def)
  have run: "run_gated_cypher cost engine t query offset = Inr (paged_query_response cost qr meta)"
  proof -
    obtain eq inj where i: "inject_limit_if_absent query ?n = (eq, inj)" by fastforce
    then have inj: "inj = (\<not> has_limit_clause query)" using run_snd [of query ?n] by simp
    show ?thesis
    proof (cases "has_limit_clause query")
      case True
      then show ?thesis using rs(3) i inj by (simp add: run_gated_cypher_def qr_def meta_def w_def)
    next
      case False
      have c: "clip_probe_row (take (offset + 501) rs) offset = (take w rs, w < length rs)"
        using False by (auto simp: clip_probe_row_def lim w_def min_def)
      show ?thesis using False rs(3) i inj c by (simp add: run_gated_cypher_def qr_def meta_def)
    qed
  qed
  obtain k where k: "offset + k \<le> w" "offset < w \<longrightarrow> 1 \<le> k" "fits cost MAX_RESPONSE_CHARS (take k (drop offset (map row_value rs)))"
    "page_items (query_page cost qr offset) = take k (drop offset (map row_value rs))"
    "next_offset (query_page cost qr offset) = (if offset + k < w then Some (offset + k) else None)"
    using page_of_prefix [OF w(1), of "map row_value rs" cost MAX_RESPONSE_CHARS] w(2)
    by (auto simp: query_page_def qr_def take_map)
  have nxt: "query_next qr meta (query_page cost qr offset) = (if offset + k < length rs then Some (offset + k) else None)"
    using k w by (auto simp: query_next_def meta_def qr_def)
  have len: "length (take k (drop offset (map row_value rs))) = k" using k(1) w(2) by simp
  have "length (rows qr) < 2 ^ 64" using w(2) assms(1) rs(1) by (simp add: qr_def)
  moreover have "meta_offset meta = offset" by (simp add: meta_def)
  ultimately have "answer_page (run_gated_cypher cost engine t query offset) =
      Some (take k (drop offset (map row_value rs)), if offset + k < length all_rows then Some (offset + k) else None)"
    unfolding run using response_page [of qr cost meta] k(4) nxt rs(1) by simp
  then show "\<exists>items. offset + length items \<le> length all_rows \<and> (offset < length all_rows \<longrightarrow> items \<noteq> []) \<and>
      (fits cost MAX_RESPONSE_CHARS items \<and>
       (has_order_by_clause query \<longrightarrow> items = take (length items) (drop offset (map row_value all_rows)))) \<and>
      answer_page (run_gated_cypher cost engine t query offset) =
        Some (items, if offset + length items < length all_rows then Some (offset + length items) else None)"
    using k(1-3) w rs(1,2) len by (intro exI [of _ "take k (drop offset (map row_value rs))"]) auto
qed

text \<open>C11: a client that asks \<open>query_graph\<close> again with the cursor of each answer, starting at 0, gets an end after as many
  rows as the result has, although the statement is sent with a different \<open>LIMIT\<close> each time, and every page fits the
  budget or is a single row. When the query declares an \<open>ORDER BY\<close>, which each answer reports as \<open>order_stable\<close>, it has
  then seen every row exactly once and in order. An answer says that it is truncated exactly when it has a cursor. The
  result has fewer than \<open>2\<^sup>6\<^sup>3\<close> rows, its number of rows does not change between the calls, and the engine keeps to the
  declared order.\<close>

theorem query_reads_everything:
  assumes "length all_rows < 2 ^ 63" "engine_keeps_count engine query cols all_rows"
  shows "\<exists>pages. read_all (\<lambda>offset. answer_page (run_gated_cypher cost engine t query offset)) 0 = Some pages \<and>
    length (concat pages) = length all_rows \<and> list_all (fits cost MAX_RESPONSE_CHARS) pages \<and>
    (has_order_by_clause query \<longrightarrow> concat pages = map row_value all_rows) \<and>
    (\<forall>offset out. run_gated_cypher cost engine t query offset = Inr out \<longrightarrow>
       get out ''order_stable'' = Some (JBool (has_order_by_clause query)) \<and>
       get out ''truncated'' = Some (JBool (get out ''next_offset'' \<noteq> None)))"
proof -
  have "get out ''order_stable'' = Some (JBool (has_order_by_clause query)) \<and>
      get out ''truncated'' = Some (JBool (get out ''next_offset'' \<noteq> None))"
    if r: "run_gated_cypher cost engine t query offset = Inr out" for offset out
  proof -
    obtain qr meta where "out = paged_query_response cost qr meta" "order_stable meta = has_order_by_clause query"
      using r by (auto simp: run_gated_cypher_def Let_def split: prod.splits sum.splits if_splits)
    then show ?thesis using response_truncated response_order by simp
  qed
  moreover obtain pages where pages: "read_all (\<lambda>offset. answer_page (run_gated_cypher cost engine t query offset)) 0 = Some pages"
    "length (concat pages) = length all_rows" "list_all (fits cost MAX_RESPONSE_CHARS) pages"
    "placed (\<lambda>i p. has_order_by_clause query \<longrightarrow> p = take (length p) (drop i (map row_value all_rows))) 0 pages"
    using cursor.reads_everything [OF query_cursor [OF assms]] unfolding placed_conj placed_const by blast
  moreover have "concat pages = map row_value all_rows" if "has_order_by_clause query"
  proof -
    have "placed (\<lambda>i p. p = take (length p) (drop i (map row_value all_rows))) 0 pages" using pages(4) by (simp add: that)
    from placed_slices [OF this] show ?thesis by (simp add: pages(2))
  qed
  ultimately show ?thesis by blast
qed


definition demo_query :: string where
  "demo_query = ''MATCH (n) RETURN n.id ORDER BY n.id''"

definition demo_engine :: "string \<Rightarrow> string + QueryResult" where
  "demo_engine q = Inr \<lparr>columns = [''n.id''],
     rows = (case parse_dec (2 ^ 64) (drop 42 q) of Some n \<Rightarrow> take n [[''a''], [''b'']] | None \<Rightarrow> [])\<rparr>"

lemma demo_query_facts: "has_limit_clause demo_query = False" "executable_prefix demo_query = demo_query" "length demo_query = 35"
  "has_order_by_clause demo_query"
  unfolding demo_query_def by code_simp+

lemma demo_engine_count: "engine_keeps_count demo_engine demo_query [''n.id''] [[''a''], [''b'']]"
  unfolding engine_keeps_count_def
proof (intro allI impI exI [of _ "[[''a''], [''b'']]"] conjI)
  fix n :: nat assume n: "n < 2 ^ 64"
  have "drop 42 (demo_query @ [CHR 0x0A] @ ''LIMIT '' @ dec n) = dec n" by (simp add: demo_query_facts(3))
  then show "demo_engine (fst (inject_limit_if_absent demo_query n)) =
      Inr \<lparr>columns = [''n.id''], rows = (if has_limit_clause demo_query then [[''a''], [''b'']] else take n [[''a''], [''b'']])\<rparr>"
    using parse_dec_dec [OF n] by (simp add: inject_limit_if_absent_def demo_query_facts(1,2) demo_engine_def)
qed simp_all

lemma query_reads_everything_witness:
  "\<exists>pages. read_all (\<lambda>offset. answer_page (run_gated_cypher (\<lambda>v. 60000) demo_engine 0 demo_query offset)) 0 = Some pages \<and>
     concat pages = [JArr [JStr ''a''], JArr [JStr ''b'']]"
  using query_reads_everything [OF _ demo_engine_count, of "\<lambda>v. 60000" 0] demo_query_facts(4) by (auto simp: row_value_def)

section \<open>What the budget does not count\<close>

text \<open>A value is at least as long as its parts.\<close>

definition compact :: "(json \<Rightarrow> nat) \<Rightarrow> bool" where
  "compact cost \<longleftrightarrow>
     (\<forall>m. sum_list (map (\<lambda>(k, v). cost v) m) \<le> cost (JObj m)) \<and>
     (\<forall>xs. sum_list (map cost xs) \<le> cost (JArr xs)) \<and>
     (\<forall>s. length s \<le> cost (JStr s))"

definition row_text :: "string list \<Rightarrow> nat" where
  "row_text row = length (CHR 0x0A # join_with '' | '' row)"

lemma response_cost:
  assumes "compact cost"
  shows "sum_list (map cost (page_items (query_page cost qr (meta_offset meta)))) +
    sum_list (map row_text (take (length (page_items (query_page cost qr (meta_offset meta)))) (drop (meta_offset meta) (rows qr))))
      \<le> cost (JObj (paged_query_response cost qr meta))"
proof -
  let ?p = "query_page cost qr (meta_offset meta)" and ?o = "paged_query_response cost qr meta"
  let ?rs = "take (length (page_items ?p)) (drop (min (meta_offset meta) (length (rows qr))) (rows qr))"
  have rs: "?rs = take (length (page_items ?p)) (drop (meta_offset meta) (rows qr))" by (simp add: min_def)
  have t: "length (format_query_result (columns qr) ?rs) = length (join_with '' | '' (columns qr)) + sum_list (map row_text ?rs)"
    by (simp add: format_query_result_def length_concat comp_def row_text_def [abs_def])
  have "cost (JArr (page_items ?p)) + cost (JStr (format_query_result (columns qr) ?rs)) \<le> sum_list (map (\<lambda>(k, v). cost v) ?o)"
    by (simp add: paged_query_response_def Let_def)
  also have "\<dots> \<le> cost (JObj ?o)" using assms by (simp add: compact_def)
  finally have "cost (JArr (page_items ?p)) + cost (JStr (format_query_result (columns qr) ?rs)) \<le> cost (JObj ?o)" .
  moreover have "sum_list (map cost (page_items ?p)) \<le> cost (JArr (page_items ?p))"
    "length (format_query_result (columns qr) ?rs) \<le> cost (JStr (format_query_result (columns qr) ?rs))"
    using assms by (simp_all add: compact_def)
  ultimately show ?thesis using t unfolding rs by linarith
qed

text \<open>C39: the rows of an answer of \<open>query_graph\<close> fill the whole budget, and the readable text of the same rows is sent
  beside them. So in the default shape an answer whose page was cut is larger than the cap it was cut for, whenever the
  lines of its rows are together at least as long as the compact text of the one row that was left out, for every
  printer whose text of a value is at least as long as the texts of its parts.\<close>

theorem cut_answer_exceeds_cap:
  assumes "compact cost" "next_offset (query_page cost qr (meta_offset meta)) = Some n"
    "cost (row_value (rows qr ! n)) \<le>
       sum_list (map row_text (take (length (page_items (query_page cost qr (meta_offset meta)))) (drop (meta_offset meta) (rows qr))))"
  shows "MAX_RESPONSE_CHARS < cost (JObj (paged_query_response cost qr meta))"
proof -
  let ?o = "meta_offset meta" and ?vs = "map row_value (rows qr)"
  obtain k where k: "fill cost MAX_RESPONSE_CHARS [] 0 (drop ?o ?vs) = take k (drop ?o ?vs)" "k \<le> length (drop ?o ?vs)"
    "k < length (drop ?o ?vs) \<longrightarrow> \<not> fits cost MAX_RESPONSE_CHARS (take (Suc k) (drop ?o ?vs))"
    using fill_page [of "drop ?o ?vs" cost MAX_RESPONSE_CHARS] by blast
  have n: "?o < length ?vs" "n = ?o + k" "n < length ?vs"
    using assms(2) k by (auto simp: query_page_def bound_values_paged_def Let_def min_def split: if_splits)
  have p: "page_items (query_page cost qr ?o) = take k (drop ?o ?vs)"
    using n(1) k(1) by (simp add: query_page_def bound_values_paged_def Let_def min_def)
  have "take (Suc k) (drop ?o ?vs) = take k (drop ?o ?vs) @ [?vs ! n]"
    using n by (simp add: take_Suc_conv_app_nth)
  then have "MAX_RESPONSE_CHARS < sum_list (map cost (take k (drop ?o ?vs))) + cost (row_value (rows qr ! n))"
    using k(3) n by (auto simp: fits_def)
  then show ?thesis using response_cost [OF assms(1), of qr meta] assms(3) unfolding p by linarith
qed

text \<open>A printer for the witness: the compact text without escapes.\<close>

fun text_length :: "json \<Rightarrow> nat" where
  "text_length JNull = 4"
| "text_length (JBool b) = (if b then 4 else 5)"
| "text_length (JInt n) = 20"
| "text_length (JFloat s) = length s"
| "text_length (JStr s) = 2 + length s"
| "text_length (JArr xs) = 2 + sum_list (map text_length xs) + (length xs - 1)"
| "text_length (JObj m) = 2 + sum_list (map (\<lambda>(k, v). length k + 3 + text_length v) m) + (length m - 1)"

lemma text_length_compact: "compact text_length"
proof -
  have "sum_list (map (\<lambda>(k, v). text_length v) m) \<le> sum_list (map (\<lambda>(k, v). length k + 3 + text_length v) m)" for m :: json_map
    by (rule sum_list_mono) auto
  then show ?thesis by (auto simp: compact_def intro!: le_SucI trans_le_add1)
qed

definition demo_wide :: QueryResult where
  "demo_wide = \<lparr>columns = [''id''], rows = replicate 3 [replicate 40000 CHR ''x'']\<rparr>"

definition demo_meta :: QueryPageMeta where
  "demo_meta = \<lparr>meta_offset = 0, elapsed_ms = 0, order_stable = True, limit_injected = False, row_limit_reached = False\<rparr>"

lemma demo_wide_page:
  "query_page text_length demo_wide 0 =
     \<lparr>page_items = replicate 2 (row_value [replicate 40000 CHR ''x'']), page_total = 3, page_truncated = True, next_offset = Some 2\<rparr>"
  by (simp add: query_page_def bound_values_paged_def demo_wide_def row_value_def MAX_RESPONSE_CHARS_def numeral_3_eq_3 numeral_2_eq_2 Let_def)

lemma cut_answer_exceeds_cap_witness:
  "100000 < text_length (JObj (paged_query_response text_length demo_wide demo_meta))"
proof -
  have m: "meta_offset demo_meta = 0" by (simp add: demo_meta_def)
  have r: "rows demo_wide = replicate 3 [replicate 40000 CHR ''x'']" by (simp add: demo_wide_def)
  have "text_length (row_value (rows demo_wide ! 2)) = 40004" by (simp add: r row_value_def)
  moreover have "sum_list (map row_text (take 2 (rows demo_wide))) = 80002"
    by (simp add: r row_text_def numeral_3_eq_3 numeral_2_eq_2)
  ultimately have "MAX_RESPONSE_CHARS < text_length (JObj (paged_query_response text_length demo_wide demo_meta))"
    by (intro cut_answer_exceeds_cap [OF text_length_compact, where n = 2]) (simp_all add: m demo_wide_page)
  then show ?thesis by (simp add: MAX_RESPONSE_CHARS_def)
qed

subsection \<open>Five sections\<close>

lemma bounded_full:
  assumes "bounded_truncated (bound_values cost (replicate N v) b)"
  shows "b < sum_list (map cost (bounded_items (bound_values cost (replicate N v) b))) + cost v"
proof -
  obtain n where n: "n \<le> N" "fill cost b [] 0 (replicate N v) = replicate n v"
    "n < N \<longrightarrow> \<not> fits cost b (replicate (Suc n) v)"
    using fill_page [of "replicate N v" cost b] by (auto simp: min_def)
  have "n < N" using assms n by (simp add: bound_values_def bound_from_fill)
  then have "b < Suc n * cost v" using n(3) by (auto simp: fits_def sum_list_replicate)
  then show ?thesis using n(2) by (simp add: bound_values_def bound_from_fill sum_list_replicate)
qed

lemma bound_values_replicate:
  assumes "0 < cost v" "b < N"
  shows "b < sum_list (map cost (bounded_items (bound_values cost (replicate N v) b))) + cost v"
proof (cases "bounded_truncated (bound_values cost (replicate N v) b)")
  case False
  then have "bounded_items (bound_values cost (replicate N v) b) = replicate N v"
  proof -
    obtain n where n: "n \<le> N" "fill cost b [] 0 (replicate N v) = replicate n v"
      using fill_page [of "replicate N v" cost b] by (auto simp: min_def)
    then show ?thesis using False by (auto simp: bound_values_def bound_from_fill)
  qed
  moreover have "N \<le> N * cost v" using assms(1) by simp
  then have "b < N * cost v" using assms(2) by linarith
  ultimately show ?thesis by (simp add: sum_list_replicate)
qed (rule bounded_full)

text \<open>The five sections of an impact answer are cut to two fifths of the cap each, so together they can exceed
  it. For every dependent that prints in less than 20000 bytes, enough of them in every list do.\<close>

theorem impact_sections_exceed_cap:
  assumes "0 < cost (impact_handle show2 d)" "cost (impact_handle show2 d) < 20000" "per_section_chars < N"
  shows "MAX_RESPONSE_CHARS < section_cost cost (paged_impact_sections cost show2
    \<lparr>callers = replicate N d, importers = replicate N d, users = replicate N d, implementors = replicate N d,
     references = replicate N d\<rparr> 0)"
proof -
  let ?v = "impact_handle show2 d" and ?b = per_section_chars
  have "?b < sum_list (map cost (bounded_items (bound_values cost (replicate N ?v) ?b))) + cost ?v"
    using assms(1,3) by (rule bound_values_replicate [where v = ?v])
  moreover have b: "?b = 40000" by (simp add: per_section_chars_def MAX_RESPONSE_CHARS_def)
  ultimately have "20000 < sum_list (map cost (bounded_items (bound_values cost (replicate N ?v) ?b)))"
    using assms(2) by linarith
  moreover note b
  moreover have "page_items (bound_values_paged cost (replicate N ?v) 0 ?b) = bounded_items (bound_values cost (replicate N ?v) ?b)"
    by (simp add: bound_values_first_page Let_def)
  moreover have "MAX_RESPONSE_CHARS = 100000" by (simp add: MAX_RESPONSE_CHARS_def)
  ultimately show ?thesis by (simp add: section_cost_def paged_impact_sections_def Let_def)
qed

definition demo_dependent :: "nat ImpactNode" where
  "demo_dependent = \<lparr>node_id = ''f'', node_qn = ''f'', node_label = ''Function'', confidence = 1, node_context = []\<rparr>"

lemma impact_sections_exceed_cap_witness:
  "MAX_RESPONSE_CHARS < section_cost text_length (paged_impact_sections text_length (\<lambda>c. ''1.00'')
    \<lparr>callers = replicate 40001 demo_dependent, importers = replicate 40001 demo_dependent, users = replicate 40001 demo_dependent,
     implementors = replicate 40001 demo_dependent, references = replicate 40001 demo_dependent\<rparr> 0)"
  by (rule impact_sections_exceed_cap) (simp_all add: impact_handle_def demo_dependent_def per_section_chars_def MAX_RESPONSE_CHARS_def)

end
