(* ===== verification/GraphCache.thy ===== *)
theory GraphCache
  imports Prelude "HOL-Library.AList"
begin

text \<open>
  The cache of open graphs (\<open>src/graph_cache.rs\<close>) and the rule of one live handle per graph
  (\<open>src/graph_store/handles.rs\<close>).

  A graph on disk has a state of some type \<open>'c\<close>; \<open>fp\<close> is \<open>GraphFingerprint::of\<close> on it, \<open>opener\<close> opens it (and
  may touch it, as an embedded database does), \<open>canon\<close> is \<open>canonicalize\<close> with its fallback. A handle is what an
  \<open>Rc<GraphStore>\<close> points to: the graph, the number of the opening, and the view it was opened with. \<open>held\<close> are the
  clones that the running request holds; a handle is closed when the cache and the request have both dropped it, and
  \<open>ckpt\<close> is what closing does to the disk. The facts about the database that a theorem needs are its hypotheses; they
  are the ones that \<open>handles.rs\<close> records of it.
\<close>

section \<open>Fingerprints\<close>

record GraphFingerprint =
  newest_mtime_nanos :: nat
  total_size_bytes :: nat

text \<open>What \<open>metadata\<close> and \<open>read_dir\<close> find: a time that is missing or before the epoch is \<open>None\<close>; a path or a
  directory that cannot be read is \<open>Unreadable\<close>.\<close>

datatype fs_node = FsFile "nat option" nat | FsDir "nat option" "fs_node list" | Unreadable

definition newer :: "nat option \<Rightarrow> nat \<Rightarrow> nat" where
  "newer modified newest = (case modified of None \<Rightarrow> newest | Some t \<Rightarrow> if t > newest then t else newest)"

fun accumulate :: "fs_node \<Rightarrow> nat \<times> nat \<Rightarrow> (nat \<times> nat) option"
and accumulate_all :: "fs_node list \<Rightarrow> nat \<times> nat \<Rightarrow> (nat \<times> nat) option" where
  "accumulate Unreadable acc = None"
| "accumulate (FsFile modified len) acc = Some (newer modified (fst acc), min (snd acc + len) (2 ^ 64 - 1))"
| "accumulate (FsDir modified kids) acc = accumulate_all kids (newer modified (fst acc), snd acc)"
| "accumulate_all [] acc = Some acc"
| "accumulate_all (n # ns) acc = Option.bind (accumulate n acc) (accumulate_all ns)"

definition fingerprint_of :: "fs_node \<Rightarrow> GraphFingerprint option" where
  "fingerprint_of n = map_option (\<lambda>(t, s). \<lparr>newest_mtime_nanos = t, total_size_bytes = s\<rparr>) (accumulate n (0, 0))"

fun readable :: "fs_node \<Rightarrow> bool" where
  "readable Unreadable = False"
| "readable (FsFile modified len) = True"
| "readable (FsDir modified kids) = list_all readable kids"

fun times :: "fs_node \<Rightarrow> nat list" where
  "times Unreadable = []"
| "times (FsFile modified len) = (case modified of None \<Rightarrow> [] | Some t \<Rightarrow> [t])"
| "times (FsDir modified kids) = (case modified of None \<Rightarrow> [] | Some t \<Rightarrow> [t]) @ concat (map times kids)"

fun bytes :: "fs_node \<Rightarrow> nat" where
  "bytes Unreadable = 0"
| "bytes (FsFile modified len) = len"
| "bytes (FsDir modified kids) = sum_list (map bytes kids)"

lemma newer_fold: "newer modified t = fold max (case modified of None \<Rightarrow> [] | Some m \<Rightarrow> [m]) t"
  by (simp add: newer_def max_def split: option.splits)

lemma capped_sum: "min (min (a + b) m + c) m = min (a + (b + c)) (m::nat)"
  by (simp add: min_def)

lemma accumulate_exact:
  "snd acc \<le> 2 ^ 64 - 1 \<Longrightarrow> accumulate n acc =
     (if readable n then Some (fold max (times n) (fst acc), min (snd acc + bytes n) (2 ^ 64 - 1)) else None)"
  "snd acc \<le> 2 ^ 64 - 1 \<Longrightarrow> accumulate_all ns acc =
     (if list_all readable ns
      then Some (fold max (concat (map times ns)) (fst acc), min (snd acc + sum_list (map bytes ns)) (2 ^ 64 - 1)) else None)"
proof (induction n acc and ns acc rule: accumulate_accumulate_all.induct)
  case (4 acc)
  then show ?case by simp
next
  case (5 n ns acc)
  then show ?case by (simp add: capped_sum)
qed (simp_all add: newer_fold)

text \<open>The fingerprint of a tree is its newest time and its size, capped at the largest \<open>u64\<close>.\<close>

lemma fingerprint_exact:
  "fingerprint_of n = (if readable n
     then Some \<lparr>newest_mtime_nanos = Max (insert 0 (set (times n))), total_size_bytes = min (bytes n) (2 ^ 64 - 1)\<rparr> else None)"
  using Max.set_eq_fold [of 0 "times n"] by (simp add: fingerprint_of_def accumulate_exact)

section \<open>The cache\<close>

definition MAX_CACHED_GRAPHS :: nat where
  "MAX_CACHED_GRAPHS = 8"

record 'v handle =
  of_graph :: string
  opened :: nat
  view :: 'v

record 'v CacheEntry =
  store :: "'v handle"
  fingerprint :: GraphFingerprint
  opened_seq :: nat

record ('c, 'v) world =
  disk :: "string \<Rightarrow> 'c"
  entries :: "(string \<times> 'v CacheEntry) list"
  next_seq :: nat
  held :: "'v handle list"

definition new_world :: "(string \<Rightarrow> 'c) \<Rightarrow> ('c, 'v) world" where
  "new_world d = \<lparr>disk = d, entries = [], next_seq = 0, held = []\<rparr>"

text \<open>The cache drops a clone: the handle is closed unless the request still holds one.\<close>

definition close_handle :: "('v \<Rightarrow> 'c \<Rightarrow> 'c) \<Rightarrow> 'v handle \<Rightarrow> ('c, 'v) world \<Rightarrow> ('c, 'v) world" where
  "close_handle ckpt h w = w\<lparr>disk := (disk w)(of_graph h := ckpt (view h) (disk w (of_graph h)))\<rparr>"

definition drop_handle :: "('v \<Rightarrow> 'c \<Rightarrow> 'c) \<Rightarrow> 'v handle \<Rightarrow> ('c, 'v) world \<Rightarrow> ('c, 'v) world" where
  "drop_handle ckpt h w = (if h \<in> set (held w) then w else close_handle ckpt h w)"

definition victim :: "(string \<times> 'v CacheEntry) list \<Rightarrow> (string \<times> 'v CacheEntry) option" where
  "victim es = find (\<lambda>(k, e). list_all (\<lambda>(k', e'). opened_seq e \<le> opened_seq e') es) es"

lemma victim_in: "victim es = Some (k, e) \<Longrightarrow> (k, e) \<in> set es"
  by (auto simp: victim_def find_Some_iff in_set_conv_nth)

function evict_if_over_capacity :: "('v \<Rightarrow> 'c \<Rightarrow> 'c) \<Rightarrow> ('c, 'v) world \<Rightarrow> ('c, 'v) world" where
  "evict_if_over_capacity ckpt w =
     (if length (entries w) \<le> MAX_CACHED_GRAPHS then w
      else (case victim (entries w) of
          None \<Rightarrow> w
        | Some (k, e) \<Rightarrow> evict_if_over_capacity ckpt (drop_handle ckpt (store e) (w\<lparr>entries := AList.delete k (entries w)\<rparr>))))"
  by pat_completeness auto
termination evict_if_over_capacity
proof (relation "measure (\<lambda>(ckpt, w). length (entries w))", goal_cases)
  case (2 ckpt w p k e)
  have "(k, e) \<in> set (entries w)" using victim_in 2(2,3) by metis
  then have "length (AList.delete k (entries w)) < length (entries w)"
    unfolding AList.delete_eq by (intro length_filter_less [of "(k, e)"]) auto
  then show ?case by (simp add: drop_handle_def close_handle_def)
qed simp

declare evict_if_over_capacity.simps [simp del]

definition get_with_opener ::
  "('c \<Rightarrow> GraphFingerprint option) \<Rightarrow> ('v \<Rightarrow> 'c \<Rightarrow> 'c) \<Rightarrow> (string \<Rightarrow> string) \<Rightarrow> ('c \<Rightarrow> string + 'v \<times> 'c)
     \<Rightarrow> string \<Rightarrow> ('c, 'v) world \<Rightarrow> (string + 'v handle) \<times> ('c, 'v) world" where
  "get_with_opener fp ckpt canon opener path w =
     (let key = canon path;
          open_it =
            (case opener (disk w key) of
               Inl e \<Rightarrow> (Inl e, w)
             | Inr (v, d) \<Rightarrow>
                (let seq = next_seq w;
                     h = \<lparr>of_graph = key, opened = seq, view = v\<rparr>;
                     f = (case fp d of Some f \<Rightarrow> f | None \<Rightarrow> \<lparr>newest_mtime_nanos = 0, total_size_bytes = 0\<rparr>);
                     w1 = w\<lparr>disk := (disk w)(key := d), next_seq := seq + 1, held := h # held w,
                            entries := AList.update key \<lparr>store = h, fingerprint = f, opened_seq = seq\<rparr> (entries w)\<rparr>;
                     w2 = (case map_of (entries w) key of None \<Rightarrow> w1 | Some old \<Rightarrow> drop_handle ckpt (store old) w1) in
                 (Inr h, evict_if_over_capacity ckpt w2))) in
      case (fp (disk w key), map_of (entries w) key) of
        (Some current, Some e) \<Rightarrow>
          if fingerprint e = current then (Inr (store e), w\<lparr>held := store e # held w\<rparr>) else open_it
      | _ \<Rightarrow> open_it)"

text \<open>The request ends: its clones are dropped, and what the cache does not hold any more is closed.\<close>

fun drop_all :: "('v \<Rightarrow> 'c \<Rightarrow> 'c) \<Rightarrow> 'v handle list \<Rightarrow> ('c, 'v) world \<Rightarrow> ('c, 'v) world" where
  "drop_all ckpt [] w = w\<lparr>held := []\<rparr>"
| "drop_all ckpt (h # hs) w =
     drop_all ckpt hs (if h \<in> set hs \<or> h \<in> store ` snd ` set (entries w) then w else close_handle ckpt h w)"

definition end_request :: "('v \<Rightarrow> 'c \<Rightarrow> 'c) \<Rightarrow> ('c, 'v) world \<Rightarrow> ('c, 'v) world" where
  "end_request ckpt w = drop_all ckpt (held w) w"

definition release :: "('v \<Rightarrow> 'c \<Rightarrow> 'c) \<Rightarrow> (string \<Rightarrow> string) \<Rightarrow> string \<Rightarrow> ('c, 'v) world \<Rightarrow> (string + unit) \<times> ('c, 'v) world" where
  "release ckpt canon path w =
     (case map_of (entries w) (canon path) of
        Some e \<Rightarrow>
          if store e \<in> set (held w)
          then (Inl (''graph_handle_in_use: '' @ path @
            '' is held by a running request, and a write through another handle would be overwritten when it closes''), w)
          else (Inr (), drop_handle ckpt (store e) (w\<lparr>entries := AList.delete (canon path) (entries w)\<rparr>))
      | None \<Rightarrow> (Inr (), w))"

section \<open>What the cache serves\<close>

text \<open>The life of the server: a request reads graphs and ends, a tool releases a graph before it writes, and anything
  may write to the disk (\<open>index_codebase\<close> after a release, or another process at any time).\<close>

inductive step for fp ckpt canon opener where
  read: "step fp ckpt canon opener w (snd (get_with_opener fp ckpt canon opener path w))"
| finish: "step fp ckpt canon opener w (end_request ckpt w)"
| release: "step fp ckpt canon opener w (snd (release ckpt canon path w))"
| external: "step fp ckpt canon opener w (w\<lparr>disk := d\<rparr>)"

definition reachable where
  "reachable fp ckpt canon opener d w \<longleftrightarrow> (step fp ckpt canon opener)\<^sup>*\<^sup>* (new_world d) w"


definition entry_ok :: "('c, 'v) world \<Rightarrow> string \<times> 'v CacheEntry \<Rightarrow> bool" where
  "entry_ok w ke \<longleftrightarrow> opened_seq (snd ke) < next_seq w \<and> of_graph (store (snd ke)) = fst ke \<and>
     opened (store (snd ke)) = opened_seq (snd ke)"

definition sound :: "('c, 'v) world \<Rightarrow> bool" where
  "sound w \<longleftrightarrow> distinct (map fst (entries w)) \<and>
     (\<forall>(k, e) \<in> set (entries w). \<forall>(k', e') \<in> set (entries w). opened_seq e = opened_seq e' \<longrightarrow> k = k') \<and>
     (\<forall>ke \<in> set (entries w). entry_ok w ke)"

lemma sound_disk: "sound (w\<lparr>disk := d\<rparr>) = sound w"
  by (simp add: sound_def entry_ok_def)

lemma sound_held: "sound (w\<lparr>held := hs\<rparr>) = sound w"
  by (simp add: sound_def entry_ok_def)

lemma drop_frame:
  "entries (drop_handle ckpt h w) = entries w" "next_seq (drop_handle ckpt h w) = next_seq w" "held (drop_handle ckpt h w) = held w"
  "sound (drop_handle ckpt h w) = sound w"
  "k \<noteq> of_graph h \<Longrightarrow> disk (drop_handle ckpt h w) k = disk w k"
  by (auto simp: drop_handle_def close_handle_def sound_disk)

lemma distinct_map_filter_of: "distinct (map f xs) \<Longrightarrow> distinct (map f (filter P xs))"
  by (induction xs) auto

lemma sound_delete: "sound w \<Longrightarrow> sound (w\<lparr>entries := AList.delete k (entries w)\<rparr>)"
  unfolding sound_def AList.delete_eq entry_ok_def by (auto simp: distinct_map_filter_of)

text \<open>The loop of the eviction runs at most once on a cache that was full, and takes the oldest.\<close>

lemma victim_exists:
  assumes "es \<noteq> []"
  shows "\<exists>k e. victim es = Some (k, e) \<and> (k, e) \<in> set es \<and> (\<forall>(k', e') \<in> set es. opened_seq e \<le> opened_seq e')"
proof -
  let ?s = "opened_seq \<circ> snd"
  have "Min (?s ` set es) \<in> ?s ` set es" by (rule Min_in) (use assms in auto)
  then obtain ke where ke: "ke \<in> set es" "?s ke = Min (?s ` set es)" by (metis imageE)
  then have m: "\<forall>ke' \<in> set es. ?s ke \<le> ?s ke'" by simp
  obtain k0 e0 where k0: "ke = (k0, e0)" by (cases ke)
  then have "list_all (\<lambda>(k', e'). opened_seq e0 \<le> opened_seq e') es" using m by (auto simp: list_all_iff)
  then have "victim es \<noteq> None"
    using ke(1) k0 unfolding victim_def find_None_iff by blast
  then obtain k e where v: "victim es = Some (k, e)" by fastforce
  then have "list_all (\<lambda>(k', e'). opened_seq e \<le> opened_seq e') es"
    by (auto simp: victim_def find_Some_iff)
  then show ?thesis using v victim_in [OF v] by (auto simp: list_all_iff)
qed

lemma evict_frame:
  "sound w \<Longrightarrow>
     sound (evict_if_over_capacity ckpt w) \<and> length (entries (evict_if_over_capacity ckpt w)) \<le> MAX_CACHED_GRAPHS \<and>
     set (entries (evict_if_over_capacity ckpt w)) \<subseteq> set (entries w) \<and> next_seq (evict_if_over_capacity ckpt w) = next_seq w \<and>
     held (evict_if_over_capacity ckpt w) = held w"
proof (induction ckpt w rule: evict_if_over_capacity.induct)
  case (1 ckpt w)
  show ?case
  proof (cases "length (entries w) \<le> MAX_CACHED_GRAPHS")
    case True
    then show ?thesis using 1(2) by (subst (1 2 3 4 5) evict_if_over_capacity.simps) simp
  next
    case False
    then have "entries w \<noteq> []" by auto
    then obtain k e where v: "victim (entries w) = Some (k, e)" using victim_exists by blast
    let ?w = "drop_handle ckpt (store e) (w\<lparr>entries := AList.delete k (entries w)\<rparr>)"
    have e: "evict_if_over_capacity ckpt w = evict_if_over_capacity ckpt ?w"
      using False v by (subst evict_if_over_capacity.simps) simp
    have "sound ?w" using sound_delete [OF 1(2)] by (simp add: drop_frame)
    moreover have "set (entries ?w) \<subseteq> set (entries w)" by (auto simp: drop_frame AList.delete_eq)
    ultimately show ?thesis using 1(1) [OF False v] unfolding e by (auto simp: drop_frame)
  qed
qed


lemma set_alist_update:
  "distinct (map fst al) \<Longrightarrow> set (AList.update k v al) = insert (k, v) {x \<in> set al. fst x \<noteq> k}"
proof (induction al)
  case (Cons x al)
  then show ?case by (cases x) (auto simp: image_iff)
qed simp

lemma sound_insert:
  assumes s: "sound w"
  shows "sound (w\<lparr>next_seq := next_seq w + 1,
    entries := AList.update key \<lparr>store = \<lparr>of_graph = key, opened = next_seq w, view = v\<rparr>, fingerprint = f, opened_seq = next_seq w\<rparr> (entries w)\<rparr>)"
proof -
  have seqs: "\<And>k e. (k, e) \<in> set (entries w) \<Longrightarrow> opened_seq e < next_seq w" using s by (auto simp: sound_def entry_ok_def)
  let ?e = "\<lparr>store = \<lparr>of_graph = key, opened = next_seq w, view = v\<rparr>, fingerprint = f, opened_seq = next_seq w\<rparr>"
  have d: "distinct (map fst (entries w))" using s by (simp add: sound_def)
  have e: "set (AList.update key ?e (entries w)) = insert (key, ?e) {x \<in> set (entries w). fst x \<noteq> key}"
    by (rule set_alist_update [OF d])
  have "\<forall>(k, e) \<in> set (AList.update key ?e (entries w)). \<forall>(k', e') \<in> set (AList.update key ?e (entries w)).
      opened_seq e = opened_seq e' \<longrightarrow> k = k'"
    using s seqs unfolding e sound_def by (auto dest: seqs)
  moreover have "entry_ok (w\<lparr>next_seq := next_seq w + 1, entries := es\<rparr>) ke"
    if "ke \<in> set (AList.update key ?e (entries w))" for ke es
    using that s unfolding e sound_def by (auto simp: entry_ok_def less_Suc_eq)
  moreover have "distinct (map fst (AList.update key ?e (entries w)))" using d by (rule distinct_update)
  ultimately show ?thesis by (simp add: sound_def)
qed


text \<open>An entry that was opened after all others survives the eviction, and its graph is not closed.\<close>

lemma evict_keeps:
  "sound w \<Longrightarrow> (key, e) \<in> set (entries w) \<Longrightarrow>
     \<forall>(k', e') \<in> set (entries w). k' \<noteq> key \<longrightarrow> opened_seq e' < opened_seq e \<Longrightarrow>
     (key, e) \<in> set (entries (evict_if_over_capacity ckpt w)) \<and> disk (evict_if_over_capacity ckpt w) key = disk w key"
proof (induction ckpt w rule: evict_if_over_capacity.induct)
  case (1 ckpt w)
  show ?case
  proof (cases "length (entries w) \<le> MAX_CACHED_GRAPHS")
    case True
    then show ?thesis using 1(3) by (subst (1 2) evict_if_over_capacity.simps) simp
  next
    case False
    have ne: "entries w \<noteq> []" using False by auto
    obtain k v where v: "victim (entries w) = Some (k, v)" "(k, v) \<in> set (entries w)"
      "\<forall>(k', e') \<in> set (entries w). opened_seq v \<le> opened_seq e'" using victim_exists [OF ne] by blast
    let ?w = "drop_handle ckpt (store v) (w\<lparr>entries := AList.delete k (entries w)\<rparr>)"
    have d: "distinct (map fst (entries w))" using 1(2) by (simp add: sound_def)
    have "fst ` set (entries w) \<noteq> {key}"
    proof
      assume "fst ` set (entries w) = {key}"
      then have "length (entries w) = 1" using distinct_card [OF d] by simp
      then show False using False by (simp add: MAX_CACHED_GRAPHS_def)
    qed
    then obtain k' e' where "(k', e') \<in> set (entries w)" "k' \<noteq> key" using 1(3) by force
    then have k: "k \<noteq> key" using 1(3,4) v d by (auto dest: eq_key_imp_eq_value) (metis (mono_tags, lifting) case_prodD eq_key_imp_eq_value leD)
    have e: "evict_if_over_capacity ckpt w = evict_if_over_capacity ckpt ?w"
      using False v(1) by (subst evict_if_over_capacity.simps) simp
    have "of_graph (store v) = k" using 1(2) v(2) by (auto simp: sound_def entry_ok_def)
    then have "disk ?w key = disk w key" using k by (simp add: drop_frame)
    moreover have "sound ?w" using sound_delete [OF 1(2)] by (simp add: drop_frame)
    moreover have "(key, e) \<in> set (entries ?w)" using 1(3) k by (simp add: drop_frame AList.delete_eq)
    moreover have "\<forall>(k', e') \<in> set (entries ?w). k' \<noteq> key \<longrightarrow> opened_seq e' < opened_seq e"
      using 1(4) by (auto simp: drop_frame AList.delete_eq)
    ultimately show ?thesis using 1(1) [OF False v(1)] unfolding e by auto
  qed
qed

text \<open>A read is a hit, a failure of the opener, or a new entry.\<close>

definition hit :: "('c \<Rightarrow> GraphFingerprint option) \<Rightarrow> string \<Rightarrow> ('c, 'v) world \<Rightarrow> 'v CacheEntry \<Rightarrow> bool" where
  "hit fp key w e \<longleftrightarrow> map_of (entries w) key = Some e \<and> fp (disk w key) = Some (fingerprint e)"

lemma get_cases:
  assumes s: "sound w" and key: "key = canon path"
  shows "(\<exists>e. hit fp key w e \<and> get_with_opener fp ckpt canon opener path w = (Inr (store e), w\<lparr>held := store e # held w\<rparr>)) \<or>
    (\<exists>e. opener (disk w key) = Inl e \<and> get_with_opener fp ckpt canon opener path w = (Inl e, w)) \<or>
    ((\<nexists>e. hit fp key w e) \<and> (\<exists>v d e w1 w2. opener (disk w key) = Inr (v, d) \<and>
       store e = \<lparr>of_graph = key, opened = next_seq w, view = v\<rparr> \<and>
       fingerprint e = (case fp d of Some f \<Rightarrow> f | None \<Rightarrow> \<lparr>newest_mtime_nanos = 0, total_size_bytes = 0\<rparr>) \<and>
       w1 = w\<lparr>disk := (disk w)(key := d), next_seq := next_seq w + 1, held := store e # held w, entries := AList.update key e (entries w)\<rparr> \<and>
       w2 = (case map_of (entries w) key of None \<Rightarrow> w1 | Some old \<Rightarrow> drop_handle ckpt (store old) w1) \<and>
       sound w1 \<and> sound w2 \<and>
       set (entries w2) = insert (key, e) {x \<in> set (entries w). fst x \<noteq> key} \<and>
       (key, e) \<in> set (entries (evict_if_over_capacity ckpt w2)) \<and> disk (evict_if_over_capacity ckpt w2) key = disk w2 key \<and>
       get_with_opener fp ckpt canon opener path w = (Inr (store e), evict_if_over_capacity ckpt w2)))"
proof (cases "\<exists>e. hit fp key w e")
  case True
  then show ?thesis by (auto simp: get_with_opener_def hit_def key Let_def)
next
  case no: False
  show ?thesis
  proof (cases "opener (disk w key)")
    case (Inl e)
    then show ?thesis using no by (auto simp: get_with_opener_def hit_def key Let_def split: option.splits)
  next
    case (Inr vd)
    obtain v d where vd: "vd = (v, d)" by (cases vd)
    define f where "f = (case fp d of Some f \<Rightarrow> f | None \<Rightarrow> \<lparr>newest_mtime_nanos = 0, total_size_bytes = 0\<rparr>)"
    define e where "e = \<lparr>store = \<lparr>of_graph = key, opened = next_seq w, view = v\<rparr>, fingerprint = f, opened_seq = next_seq w\<rparr>"
    define w1 where "w1 = w\<lparr>disk := (disk w)(key := d), next_seq := next_seq w + 1, held := store e # held w,
      entries := AList.update key e (entries w)\<rparr>"
    define w2 where "w2 = (case map_of (entries w) key of None \<Rightarrow> w1 | Some old \<Rightarrow> drop_handle ckpt (store old) w1)"
    have get: "get_with_opener fp ckpt canon opener path w = (Inr (store e), evict_if_over_capacity ckpt w2)"
      using no Inr by (auto simp: get_with_opener_def hit_def key Let_def vd e_def f_def w1_def w2_def split: option.splits)
    have "sound (w\<lparr>next_seq := next_seq w + 1, entries := AList.update key e (entries w)\<rparr>)"
      using sound_insert [OF s, of key v f] unfolding e_def by simp
    then have s1: "sound w1" unfolding w1_def sound_def entry_ok_def by simp
    have w2: "entries w2 = entries w1" "sound w2" using s1 by (auto simp: w2_def drop_frame split: option.splits)
    have ent: "set (entries w1) = insert (key, e) {x \<in> set (entries w). fst x \<noteq> key}"
      using set_alist_update [of "entries w" key e] s by (simp add: w1_def sound_def)
    have "(key, e) \<in> set (entries w2)" "\<forall>(k', e') \<in> set (entries w2). k' \<noteq> key \<longrightarrow> opened_seq e' < opened_seq e"
      using s unfolding w2 ent by (auto simp: e_def sound_def entry_ok_def)
    note keep = evict_keeps [OF w2(2) this, of ckpt]
    show ?thesis
    proof (intro disjI2 conjI)
      show "\<nexists>e. hit fp key w e" by (rule no)
      show "\<exists>v d e w1 w2. opener (disk w key) = Inr (v, d) \<and>
         store e = \<lparr>of_graph = key, opened = next_seq w, view = v\<rparr> \<and>
         fingerprint e = (case fp d of Some f \<Rightarrow> f | None \<Rightarrow> \<lparr>newest_mtime_nanos = 0, total_size_bytes = 0\<rparr>) \<and>
         w1 = w\<lparr>disk := (disk w)(key := d), next_seq := next_seq w + 1, held := store e # held w, entries := AList.update key e (entries w)\<rparr> \<and>
         w2 = (case map_of (entries w) key of None \<Rightarrow> w1 | Some old \<Rightarrow> drop_handle ckpt (store old) w1) \<and>
         sound w1 \<and> sound w2 \<and>
         set (entries w2) = insert (key, e) {x \<in> set (entries w). fst x \<noteq> key} \<and>
         (key, e) \<in> set (entries (evict_if_over_capacity ckpt w2)) \<and> disk (evict_if_over_capacity ckpt w2) key = disk w2 key \<and>
         get_with_opener fp ckpt canon opener path w = (Inr (store e), evict_if_over_capacity ckpt w2)"
        by (rule exI [of _ v], rule exI [of _ d], rule exI [of _ e], rule exI [of _ w1], rule exI [of _ w2])
           (use get s1 w2(2) ent [folded w2(1)] keep Inr vd e_def f_def w1_def w2_def in \<open>simp_all only: simp_thms CacheEntry.select_convs\<close>)
    qed
  qed
qed


lemma get_keeps:
  assumes "sound w" "length (entries w) \<le> MAX_CACHED_GRAPHS"
  shows "sound (snd (get_with_opener fp ckpt canon opener path w)) \<and>
    length (entries (snd (get_with_opener fp ckpt canon opener path w))) \<le> MAX_CACHED_GRAPHS"
  using get_cases [where fp = fp and ckpt = ckpt and canon = canon and opener = opener and path = path, OF assms(1) refl] assms
proof (elim disjE exE conjE)
  fix v d e w1 w2
  assume "sound w2" "get_with_opener fp ckpt canon opener path w = (Inr (store e), evict_if_over_capacity ckpt w2)"
  then show ?thesis using evict_frame [of w2 ckpt] by simp
qed (simp_all add: sound_held)

lemma close_frame:
  "entries (close_handle ckpt h w) = entries w" "sound (close_handle ckpt h w) = sound w"
  by (simp_all add: close_handle_def sound_disk)

lemma drop_all_frame:
  "entries (drop_all ckpt hs w) = entries w \<and> sound (drop_all ckpt hs w) = sound w"
  by (induction ckpt hs w rule: drop_all.induct) (auto simp: close_frame sound_held)

lemma release_keeps:
  assumes "sound w" "length (entries w) \<le> MAX_CACHED_GRAPHS"
  shows "sound (snd (release ckpt canon path w)) \<and> length (entries (snd (release ckpt canon path w))) \<le> MAX_CACHED_GRAPHS"
  using assms sound_delete [OF assms(1)] length_delete_le [of "canon path" "entries w"]
  by (auto simp: release_def drop_frame split: option.splits intro: le_trans)

lemma new_world_sound: "sound (new_world d)" "length (entries (new_world d)) \<le> MAX_CACHED_GRAPHS"
  by (simp_all add: sound_def new_world_def)

lemma reachable_sound:
  assumes "reachable fp ckpt canon opener d w"
  shows "sound w \<and> length (entries w) \<le> MAX_CACHED_GRAPHS"
  using assms unfolding reachable_def
proof (induction rule: rtranclp_induct)
  case base
  then show ?case by (simp add: new_world_sound)
next
  case (step u v)
  from step(2) show ?case
  proof cases
    case (read path)
    then show ?thesis using get_keeps [of u fp ckpt canon opener path] step(3) by simp
  next
    case finish
    then show ?thesis using step(3) drop_all_frame [of ckpt "held u" u] by (simp add: end_request_def)
  next
    case (release path)
    then show ?thesis using release_keeps [of u ckpt canon path] step(3) by simp
  next
    case (external d)
    then show ?thesis using step(3) by (simp add: sound_disk)
  qed
qed

text \<open>Where an entry comes from: at an earlier moment of the run the graph was opened from the disk, the handle has the
  view of that opening, and the entry the fingerprint of the state that the opening left (0 and 0 when that could not
  be read).\<close>

definition origin :: "('c \<Rightarrow> GraphFingerprint option) \<Rightarrow> ('v \<Rightarrow> 'c \<Rightarrow> 'c) \<Rightarrow> (string \<Rightarrow> string) \<Rightarrow> ('c \<Rightarrow> string + 'v \<times> 'c) \<Rightarrow>
    (string \<Rightarrow> 'c) \<Rightarrow> ('c, 'v) world \<Rightarrow> string \<Rightarrow> 'v \<Rightarrow> GraphFingerprint \<Rightarrow> bool" where
  "origin fp ckpt canon opener d w k v f \<longleftrightarrow> (\<exists>u c. reachable fp ckpt canon opener d u \<and> (step fp ckpt canon opener)\<^sup>*\<^sup>* u w \<and>
     opener (disk u k) = Inr (v, c) \<and> f = (case fp c of Some f \<Rightarrow> f | None \<Rightarrow> \<lparr>newest_mtime_nanos = 0, total_size_bytes = 0\<rparr>))"

lemma origin_step:
  "origin fp ckpt canon opener d w k v f \<Longrightarrow> step fp ckpt canon opener w w' \<Longrightarrow> origin fp ckpt canon opener d w' k v f"
  unfolding origin_def by (blast intro: rtranclp.rtrancl_into_rtrancl)

lemma get_entries:
  assumes "sound w" "(k, e) \<in> set (entries (snd (get_with_opener fp ckpt canon opener path w)))" "(k, e) \<notin> set (entries w)"
  shows "\<exists>c. opener (disk w k) = Inr (view (store e), c) \<and>
    fingerprint e = (case fp c of Some f \<Rightarrow> f | None \<Rightarrow> \<lparr>newest_mtime_nanos = 0, total_size_bytes = 0\<rparr>)"
  using get_cases [where fp = fp and ckpt = ckpt and canon = canon and opener = opener and path = path, OF assms(1) refl]
proof (elim disjE exE conjE)
  fix v c e' w1 w2
  assume a: "opener (disk w (canon path)) = Inr (v, c)" "store e' = \<lparr>of_graph = canon path, opened = next_seq w, view = v\<rparr>"
    "fingerprint e' = (case fp c of Some f \<Rightarrow> f | None \<Rightarrow> \<lparr>newest_mtime_nanos = 0, total_size_bytes = 0\<rparr>)"
    "sound w2" "set (entries w2) = insert (canon path, e') {x \<in> set (entries w). fst x \<noteq> canon path}"
    "get_with_opener fp ckpt canon opener path w = (Inr (store e'), evict_if_over_capacity ckpt w2)"
  then have "(k, e) \<in> set (entries w2)" using assms(2) evict_frame [OF a(4), of ckpt] by auto
  then have "k = canon path" "e = e'" using a(5) assms(3) by auto
  then show ?thesis using a(1-3) by simp
qed (use assms(2,3) in auto)

lemma reachable_origin:
  assumes "reachable fp ckpt canon opener d w" "(k, e) \<in> set (entries w)"
  shows "origin fp ckpt canon opener d w k (view (store e)) (fingerprint e)"
  using assms unfolding reachable_def
proof (induction arbitrary: k e rule: rtranclp_induct)
  case base
  then show ?case by (simp add: new_world_def)
next
  case (step u v)
  have u: "reachable fp ckpt canon opener d u" using step(1) by (simp add: reachable_def)
  show ?case
  proof (cases "(k, e) \<in> set (entries u)")
    case True
    then show ?thesis using step(2,3) by (blast intro: origin_step)
  next
    case False
    from step(2) show ?thesis
    proof cases
      case (read path)
      then obtain c where "opener (disk u k) = Inr (view (store e), c)"
        "fingerprint e = (case fp c of Some f \<Rightarrow> f | None \<Rightarrow> \<lparr>newest_mtime_nanos = 0, total_size_bytes = 0\<rparr>)"
        using get_entries [of u k e fp ckpt canon opener path] False step(4) reachable_sound [OF u] by blast
      then show ?thesis using u step(2) unfolding origin_def by blast
    next
      case finish
      then show ?thesis using False step(4) drop_all_frame [of ckpt "held u" u] by (simp add: end_request_def)
    next
      case (release path)
      then show ?thesis using False step(4) by (auto simp: release_def drop_frame AList.delete_eq split: option.splits if_splits)
    next
      case (external d)
      then show ?thesis using False step(4) by simp
    qed
  qed
qed

text \<open>The fingerprint that stands for a state that could not be read is that of a graph without a byte.\<close>

lemma zero_fingerprint:
  "fingerprint_of n = Some \<lparr>newest_mtime_nanos = 0, total_size_bytes = 0\<rparr> \<Longrightarrow> bytes n = 0"
  by (auto simp: fingerprint_exact min_def split: if_splits)



text \<open>A read of a graph that another process has rewritten can undo the rewrite. The new handle is opened while
  the old one is still open; then the old one is dropped, and closing it writes its own view (as \<open>handles.rs\<close> found
  of the database). The caller sees the new content, and the disk has the old one again.\<close>

theorem refresh_undoes_write:
  assumes "reachable fp ckpt canon opener d w" "\<forall>c v d. opener c = Inr (v, d) \<longrightarrow> v = content c" "\<forall>v c. content (ckpt v c) = v"
    "map_of (entries w) (canon path) = Some e" "store e \<notin> set (held w)" "fp (disk w (canon path)) \<noteq> Some (fingerprint e)"
    "opener (disk w (canon path)) \<in> range Inr"
  shows "\<exists>h w'. get_with_opener fp ckpt canon opener path w = (Inr h, w') \<and>
    view h = content (disk w (canon path)) \<and> content (disk w' (canon path)) = view (store e)"
proof -
  have s: "sound w" using reachable_sound [OF assms(1)] by blast
  from get_cases [where fp = fp and ckpt = ckpt and canon = canon and opener = opener and path = path, OF s refl] show ?thesis
  proof (elim disjE exE conjE)
    fix e' assume "hit fp (canon path) w e'"
    then show ?thesis using assms(4,6) by (auto simp: hit_def)
  next
    fix x assume "opener (disk w (canon path)) = Inl x"
    then show ?thesis using assms(7) by auto
  next
    fix v c e' w1 w2
    assume a: "opener (disk w (canon path)) = Inr (v, c)" "store e' = \<lparr>of_graph = canon path, opened = next_seq w, view = v\<rparr>"
      "w1 = w\<lparr>disk := (disk w)(canon path := c), next_seq := next_seq w + 1, held := store e' # held w,
         entries := AList.update (canon path) e' (entries w)\<rparr>"
      "w2 = (case map_of (entries w) (canon path) of None \<Rightarrow> w1 | Some old \<Rightarrow> drop_handle ckpt (store old) w1)"
      "disk (evict_if_over_capacity ckpt w2) (canon path) = disk w2 (canon path)"
      "get_with_opener fp ckpt canon opener path w = (Inr (store e'), evict_if_over_capacity ckpt w2)"
    have o: "of_graph (store e) = canon path" "opened (store e) < next_seq w"
      using s map_of_SomeD [OF assms(4)] by (auto simp: sound_def entry_ok_def)
    have "store e \<noteq> store e'" using o(2) a(2) by (metis handle.select_convs(2) less_irrefl)
    then have "w2 = close_handle ckpt (store e) w1" using a(3,4) assms(4,5) by (simp add: drop_handle_def)
    then have "content (disk w2 (canon path)) = view (store e)" using assms(3) o(1) by (simp add: close_handle_def)
    moreover have "v = content (disk w (canon path))" using a(1) assms(2) by blast
    ultimately show ?thesis using a by auto
  qed
qed

section \<open>A small disk\<close>

text \<open>A graph is a number, kept in a file of a directory; writing it later gives the file a later time.\<close>

definition demo_tree :: "nat \<Rightarrow> fs_node" where
  "demo_tree c = FsDir None [FsFile (Some (Suc c)) 1]"

definition demo_opener :: "nat \<Rightarrow> string + nat \<times> nat" where
  "demo_opener c = Inr (c, c)"

definition demo_read :: "(nat, nat) world \<Rightarrow> (string + nat handle) \<times> (nat, nat) world" where
  "demo_read = get_with_opener (\<lambda>c. fingerprint_of (demo_tree c)) (\<lambda>v c. v) (\<lambda>p. p) demo_opener ''g''"

definition demo_cached :: "(nat, nat) world" where
  "demo_cached = end_request (\<lambda>v c. v) (snd (demo_read (new_world (\<lambda>k. 1))))"

definition demo_rewritten :: "(nat, nat) world" where
  "demo_rewritten = demo_cached\<lparr>disk := (\<lambda>k. 2)\<rparr>"

lemma demo_fingerprint: "fingerprint_of (demo_tree c) = Some \<lparr>newest_mtime_nanos = Suc c, total_size_bytes = 1\<rparr>"
  by (simp add: demo_tree_def fingerprint_of_def newer_def)

lemma demo_reachable:
  "reachable (\<lambda>c. fingerprint_of (demo_tree c)) (\<lambda>v c. v) (\<lambda>p. p) demo_opener (\<lambda>k. 1) demo_cached"
  "reachable (\<lambda>c. fingerprint_of (demo_tree c)) (\<lambda>v c. v) (\<lambda>p. p) demo_opener (\<lambda>k. 1) demo_rewritten"
proof -
  let ?s = "step (\<lambda>c. fingerprint_of (demo_tree c)) (\<lambda>v c. v) (\<lambda>p. p) demo_opener"
  have "?s\<^sup>*\<^sup>* (new_world (\<lambda>k. 1)) (snd (demo_read (new_world (\<lambda>k. 1))))"
    unfolding demo_read_def by (rule r_into_rtranclp, rule step.read)
  then have c: "?s\<^sup>*\<^sup>* (new_world (\<lambda>k. 1)) demo_cached"
    unfolding demo_cached_def by (rule rtranclp.rtrancl_into_rtrancl) (rule step.finish)
  then show "reachable (\<lambda>c. fingerprint_of (demo_tree c)) (\<lambda>v c. v) (\<lambda>p. p) demo_opener (\<lambda>k. 1) demo_cached"
    by (simp add: reachable_def)
  show "reachable (\<lambda>c. fingerprint_of (demo_tree c)) (\<lambda>v c. v) (\<lambda>p. p) demo_opener (\<lambda>k. 1) demo_rewritten"
    unfolding reachable_def demo_rewritten_def by (rule rtranclp.rtrancl_into_rtrancl [OF c]) (rule step.external)
qed

lemma demo_cached_eval:
  "demo_cached = \<lparr>disk = (\<lambda>k. 1),
     entries = [(''g'', \<lparr>store = \<lparr>of_graph = ''g'', opened = 0, view = 1\<rparr>,
       fingerprint = \<lparr>newest_mtime_nanos = 2, total_size_bytes = 1\<rparr>, opened_seq = 0\<rparr>)], next_seq = 1, held = []\<rparr>"
  by (simp add: demo_cached_def demo_read_def end_request_def get_with_opener_def new_world_def demo_fingerprint demo_opener_def
    evict_if_over_capacity.simps MAX_CACHED_GRAPHS_def fun_upd_idem numeral_2_eq_2 Let_def)



lemma refresh_undoes_write_witness:
  "\<exists>h w'. demo_read demo_rewritten = (Inr h, w') \<and> view h = 2 \<and> disk w' ''g'' = 1"
  using refresh_undoes_write [OF demo_reachable(2), where path = "''g''" and content = "\<lambda>c. c"]
  by (auto simp: demo_read_def demo_rewritten_def demo_cached_eval demo_fingerprint demo_opener_def)

end
