(* ===== verification/Freshness.thy ===== *)
theory Freshness
  imports Incremental HandlerUtil GraphWrite
begin

text \<open>
  The freshness receipt of an answer (\<open>src/graph_freshness.rs\<close>, \<open>src/git_provenance.rs\<close>) and the paths a graph may be
  written to (\<open>src/query_handlers/graph_paths.rs\<close>): what the sidecar \<open>meta.json\<close> records, when it is believed, and
  what is compared with the disk.

  A \<open>host\<close> is what the check asks the machine: canonical paths, directories, the time and length of a file, its
  bytes, and \<open>git -C root\<close> with its arguments (\<open>None\<close> when it cannot be run or fails, else its standard output).
  Parameters are the JSON readers of \<open>serde_json\<close>.
\<close>

section \<open>Paths\<close>

text \<open>\<open>Path::parent\<close>: trailing slashes and single dots are no component.\<close>

fun strip_tail :: "string \<Rightarrow> string" where
  "strip_tail (CHR ''/'' # s) = strip_tail s"
| "strip_tail (CHR ''.'' # CHR ''/'' # s) = strip_tail s"
| "strip_tail s = s"

definition parent_of :: "string \<Rightarrow> string option" where
  "parent_of p =
     (let t = strip_tail (rev p) in
      if t = [] then None
      else let d = dropWhile (\<lambda>c. c \<noteq> CHR ''/'') t in
        if d = [] then Some [] else let e = strip_tail d in Some (if e = [] then ''/'' else rev e))"

text \<open>\<open>Path::file_name\<close>: the last component, unless it is \<open>..\<close> or the path starts with a dot only.\<close>

definition file_name :: "string \<Rightarrow> string option" where
  "file_name p =
     (case rev (components p) of [] \<Rightarrow> None | c # _ \<Rightarrow> if c = ''..'' then None else Some c)"

definition FORBIDDEN_GRAPH_PATH_PREFIXES :: "string list" where
  "FORBIDDEN_GRAPH_PATH_PREFIXES = [''/'', ''/Users'', ''/home'', ''/root'', ''/tmp'', ''/var'', ''/etc'', ''/usr'', ''/bin'', ''/sbin'', ''/dev'',
     ''/opt'', ''/System'', ''/Library'']"

text \<open>\<open>debug\<close> is the text that \<open>{:?}\<close> prints for a path.\<close>

definition validate_graph_path_safe :: "(string \<Rightarrow> string) \<Rightarrow> string \<Rightarrow> string + unit" where
  "validate_graph_path_safe debug path =
     (if \<not> is_absolute path then Inl (''unsafe_graph_path: must be absolute (got '' @ debug path @ '')'')
      else if file_name path \<noteq> Some ''graph'' then Inl (''unsafe_graph_path: must end in '' @ [CHR 0x27] @ ''/graph'' @ [CHR 0x27] @ '' (got '' @ debug path @ '')'')
      else if list_ex (\<lambda>forbidden. path = forbidden \<or> path = forbidden @ ''/graph'') FORBIDDEN_GRAPH_PATH_PREFIXES
      then Inl (''unsafe_graph_path: '' @ debug path @ '' is a forbidden system path'')
      else Inr ())"

text \<open>A manifest key made of ordinary components only: no root, no leading dot, no \<open>..\<close>.\<close>

definition is_contained_key :: "string \<Rightarrow> bool" where
  "is_contained_key r \<longleftrightarrow> r \<noteq> [] \<and> \<not> is_absolute r \<and> hd (split_on ''/'' r) \<noteq> ''.'' \<and> list_all (\<lambda>c. c \<noteq> ''..'') (components r)"

section \<open>Git\<close>

record host =
  path_exists :: "string \<Rightarrow> bool"
  canonicalize :: "string \<Rightarrow> string option"
  is_dir :: "string \<Rightarrow> bool"
  stat :: "string \<Rightarrow> (int \<times> nat) option"
  read_bytes :: "string \<Rightarrow> string option"
  git :: "string \<Rightarrow> string list \<Rightarrow> string option"

definition git_head :: "host \<Rightarrow> string \<Rightarrow> string option" where
  "git_head H root =
     (case git H root [''rev-parse'', ''HEAD''] of
        None \<Rightarrow> None
      | Some out \<Rightarrow> let sha = trim out in if sha = [] then None else Some sha)"

definition is_hex_sha :: "string \<Rightarrow> bool" where
  "is_hex_sha s \<longleftrightarrow> s \<noteq> [] \<and> list_all is_hexdigit s"

text \<open>\<open>split_whitespace\<close>.\<close>

fun words_of :: "string list \<Rightarrow> string \<Rightarrow> string list" where
  "words_of [] w = [w]"
| "words_of (c # cs) w = (if is_whitespace c then w # words_of cs [] else words_of cs (w @ c))"

definition split_whitespace :: "string \<Rightarrow> string list" where
  "split_whitespace s = filter (\<lambda>w. w \<noteq> []) (words_of (chars s) [])"

definition commit_divergence :: "host \<Rightarrow> string \<Rightarrow> string option \<Rightarrow> (nat \<times> nat) option" where
  "commit_divergence H root indexed =
     (case indexed of
        None \<Rightarrow> None
      | Some sha \<Rightarrow>
          if \<not> is_hex_sha sha then None
          else (case git_head H root of
              None \<Rightarrow> None
            | Some head \<Rightarrow>
                if sha = head then Some (0, 0)
                else (case git H root [''rev-list'', ''--left-right'', ''--count'', sha @ ''...'' @ head] of
                    None \<Rightarrow> None
                  | Some out \<Rightarrow>
                      (case split_whitespace out of
                         a # b # _ \<Rightarrow>
                           (case (parse_dec (2 ^ 64) a, parse_dec (2 ^ 64) b) of
                              (Some ahead, Some behind) \<Rightarrow> Some (ahead, behind) | _ \<Rightarrow> None)
                       | _ \<Rightarrow> None))))"

section \<open>The sidecar\<close>

record GraphMeta =
  meta_root :: string
  meta_commit_sha :: "string option"
  meta_manifest_size :: "nat option"
  meta_manifest_mtime_ns :: "int option"

definition describes_manifest :: "GraphMeta \<Rightarrow> nat \<Rightarrow> int \<Rightarrow> bool" where
  "describes_manifest meta size_now mtime_now =
     (case (meta_manifest_size meta, meta_manifest_mtime_ns meta) of
        (Some claimed_size, Some claimed_mtime) \<Rightarrow> claimed_size = size_now \<and> claimed_mtime = mtime_now
      | _ \<Rightarrow> False)"

definition de_meta :: "json \<Rightarrow> GraphMeta option" where
  "de_meta j =
     (case j of
        JObj m \<Rightarrow>
          Option.bind (field m ''root'' as_str) (\<lambda>r.
            Option.bind (opt_field m ''commit_sha'' as_str) (\<lambda>c.
              Option.bind (opt_field m ''manifest_size'' as_u64) (\<lambda>s.
                Option.bind (opt_field m ''manifest_mtime_ns'' as_i64) (\<lambda>t.
                  Some \<lparr>meta_root = r, meta_commit_sha = c, meta_manifest_size = s, meta_manifest_mtime_ns = t\<rparr>))))
      | _ \<Rightarrow> None)"

definition read_meta :: "(string \<Rightarrow> json option) \<Rightarrow> host \<Rightarrow> string \<Rightarrow> GraphMeta option" where
  "read_meta from_slice H output_dir =
     Option.bind (read_bytes H (path_join output_dir ''meta.json'')) (\<lambda>b. Option.bind (from_slice b) de_meta)"

definition manifest_path :: "string \<Rightarrow> string" where
  "manifest_path output_dir = path_join output_dir ''file_manifest.json''"

definition load_with_identity :: "(string \<Rightarrow> FileManifest option) \<Rightarrow> host \<Rightarrow> string \<Rightarrow> (FileManifest \<times> nat \<times> int) option" where
  "load_with_identity manifest_slice H path =
     (case (stat H path, read_bytes H path) of
        (Some (mtime, len), Some bytes) \<Rightarrow> map_option (\<lambda>m. (m, len, mtime)) (parse_manifest manifest_slice bytes)
      | _ \<Rightarrow> None)"

text \<open>What an index writes as its last file: the value of \<open>meta.json\<close>.\<close>

definition write_graph_meta :: "host \<Rightarrow> string \<Rightarrow> string \<Rightarrow> json" where
  "write_graph_meta H output_dir root =
     (let manifest = stat H (manifest_path output_dir) in
      JObj [(''schema_version'', JInt 3), (''root'', JStr root), (''tool'', JStr ''ai-architect-mcp-codebase''),
        (''commit_sha'', or_null JStr (git_head H root)),
        (''manifest_size'', or_null (\<lambda>m. JInt (int (snd m))) manifest),
        (''manifest_mtime_ns'', or_null (\<lambda>m. JInt (fst m)) manifest)])"

section \<open>The receipt\<close>

definition forbidden_roots :: "host \<Rightarrow> string list" where
  "forbidden_roots H = concat (map (\<lambda>literal.
     (case canonicalize H literal of Some c \<Rightarrow> if c \<noteq> literal then [c] else [] | None \<Rightarrow> []) @ [literal])
     FORBIDDEN_GRAPH_PATH_PREFIXES)"

definition validated_root :: "host \<Rightarrow> string \<Rightarrow> string option" where
  "validated_root H claimed =
     (if \<not> is_absolute claimed then None
      else Option.bind (canonicalize H claimed) (\<lambda>root.
        if \<not> is_dir H root then None else if root \<in> set (forbidden_roots H) then None else Some root))"

record CheckInputs =
  in_root :: string
  in_files :: "(string \<times> FileState) list"
  in_commit_sha :: "string option"

definition admissible_inputs ::
  "(string \<Rightarrow> json option) \<Rightarrow> (string \<Rightarrow> FileManifest option) \<Rightarrow> host \<Rightarrow> string \<Rightarrow> CheckInputs option" where
  "admissible_inputs from_slice manifest_slice H graph_path =
     (if \<not> path_exists H graph_path then None
      else Option.bind (parent_of graph_path) (\<lambda>output_dir.
        Option.bind (read_meta from_slice H output_dir) (\<lambda>meta.
          Option.bind (validated_root H (meta_root meta)) (\<lambda>root.
            Option.bind (load_with_identity manifest_slice H (manifest_path output_dir)) (\<lambda>(loaded, len, mtime).
              if \<not> describes_manifest meta len mtime then None
              else Some \<lparr>in_root = root, in_files = manifest_files loaded, in_commit_sha = meta_commit_sha meta\<rparr>)))))"

definition dirty :: "host \<Rightarrow> string \<Rightarrow> string \<times> FileState \<Rightarrow> bool" where
  "dirty H root entry =
     (case entry of (r, state) \<Rightarrow>
       if \<not> is_contained_key r then True
       else (case stat H (path_join root r) of
           Some (mtime, len) \<Rightarrow> mtime \<noteq> mtime_ns state \<or> len \<noteq> file_size state
         | None \<Rightarrow> True))"

definition count_dirty :: "host \<Rightarrow> string \<Rightarrow> (string \<times> FileState) list \<Rightarrow> nat" where
  "count_dirty H root files = length (filter (dirty H root) files)"

definition unknown_receipt :: json where
  "unknown_receipt = JObj [(''state'', JStr ''unknown'')]"

definition head_moved :: "(nat \<times> nat) option \<Rightarrow> bool" where
  "head_moved divergence = (case divergence of Some (ahead, behind) \<Rightarrow> 0 < ahead \<or> 0 < behind | None \<Rightarrow> False)"

definition verdict :: "host \<Rightarrow> CheckInputs \<Rightarrow> json" where
  "verdict H inputs =
     (let dirty_files = count_dirty H (in_root inputs) (in_files inputs);
          divergence = commit_divergence H (in_root inputs) (in_commit_sha inputs) in
      if in_files inputs = [] \<and> divergence = None then unknown_receipt
      else JObj [(''state'', JStr (if dirty_files = 0 \<and> \<not> head_moved divergence then ''fresh'' else ''stale'')),
        (''checked_files'', JInt (int (length (in_files inputs)))),
        (''dirty_files'', JInt (int dirty_files)),
        (''commits_behind'', or_null (\<lambda>d. JInt (int (snd d))) divergence),
        (''commits_ahead'', or_null (\<lambda>d. JInt (int (fst d))) divergence)])"

definition check :: "(string \<Rightarrow> json option) \<Rightarrow> (string \<Rightarrow> FileManifest option) \<Rightarrow> host \<Rightarrow> string \<Rightarrow> json" where
  "check from_slice manifest_slice H graph_path =
     (case admissible_inputs from_slice manifest_slice H graph_path of
        None \<Rightarrow> unknown_receipt | Some inputs \<Rightarrow> verdict H inputs)"

text \<open>\<open>attach_from_arguments\<close>: the receipt goes into a response that is an object, under its key.\<close>

definition RESPONSE_KEY :: string where
  "RESPONSE_KEY = ''graph_freshness''"

definition attach_from_arguments ::
  "(string \<Rightarrow> json option) \<Rightarrow> (string \<Rightarrow> FileManifest option) \<Rightarrow> host \<Rightarrow> json \<Rightarrow> json \<Rightarrow> json" where
  "attach_from_arguments from_slice manifest_slice H response arguments =
     (case Option.bind (Option.bind (as_object arguments) (\<lambda>m. get m ''graph_path'')) as_str of
        None \<Rightarrow> response
      | Some graph_str \<Rightarrow>
          (case response of
             JObj m \<Rightarrow> JObj (filter (\<lambda>(k, v). k \<noteq> RESPONSE_KEY) m @ [(RESPONSE_KEY, check from_slice manifest_slice H graph_str)])
           | v \<Rightarrow> v))"


section \<open>What the receipt means\<close>

definition receipt_state :: "json \<Rightarrow> string" where
  "receipt_state j = (case j of JObj m \<Rightarrow> (case get m ''state'' of Some (JStr s) \<Rightarrow> s | _ \<Rightarrow> []) | _ \<Rightarrow> [])"

lemma receipt_state_verdict:
  "receipt_state (verdict H inputs) =
     (if in_files inputs = [] \<and> commit_divergence H (in_root inputs) (in_commit_sha inputs) = None then ''unknown''
      else if count_dirty H (in_root inputs) (in_files inputs) = 0 \<and>
        \<not> head_moved (commit_divergence H (in_root inputs) (in_commit_sha inputs)) then ''fresh'' else ''stale'')"
  by (simp add: verdict_def receipt_state_def unknown_receipt_def Let_def)

lemma receipt_unknown: "receipt_state unknown_receipt = ''unknown''"
  by (simp add: receipt_state_def unknown_receipt_def)

text \<open>What the index wrote is what the check reads.\<close>

lemma opt_or_null: "de v = Some x \<Longrightarrow> v \<noteq> JNull \<Longrightarrow> opt_field [(k, v)] k de = Some (Some x)"
  by (cases v) (simp_all add: opt_field_def)

lemma de_meta_written:
  assumes "stat H0 (manifest_path dir) = Some (t, len)" "- (2 ^ 63) \<le> t" "t < 2 ^ 63" "len < 2 ^ 64"
  shows "de_meta (write_graph_meta H0 dir root) = Some \<lparr>meta_root = root, meta_commit_sha = git_head H0 root,
    meta_manifest_size = Some len, meta_manifest_mtime_ns = Some t\<rparr>"
  using assms by (cases "git_head H0 root") (simp_all add: write_graph_meta_def de_meta_def field_def opt_field_def or_null_def Let_def)

text \<open>The sidecar and the manifest of an index of \<open>current\<close> are on the disk; \<open>H0\<close> is the host when they were written.\<close>

definition sidecar_of ::
  "(string \<Rightarrow> json option) \<Rightarrow> (string \<Rightarrow> FileManifest option) \<Rightarrow> host \<Rightarrow> host \<Rightarrow> string \<Rightarrow> string \<Rightarrow> FileManifest \<Rightarrow> bool" where
  "sidecar_of from_slice manifest_slice H0 H graph_path root m \<longleftrightarrow>
     (\<exists>dir bytes t len. path_exists H graph_path \<and> parent_of graph_path = Some dir \<and>
       stat H0 (manifest_path dir) = Some (t, len) \<and> - (2 ^ 63) \<le> t \<and> t < 2 ^ 63 \<and> len < 2 ^ 64 \<and>
       stat H (manifest_path dir) = Some (t, len) \<and>
       Option.bind (read_bytes H (path_join dir ''meta.json'')) from_slice = Some (write_graph_meta H0 dir root) \<and>
       read_bytes H (manifest_path dir) = Some bytes \<and> parse_manifest manifest_slice bytes = Some m)"

lemma admissible_written:
  assumes "sidecar_of from_slice manifest_slice H0 H graph_path root m" "validated_root H root = Some root"
  shows "admissible_inputs from_slice manifest_slice H graph_path =
    Some \<lparr>in_root = root, in_files = manifest_files m, in_commit_sha = git_head H0 root\<rparr>"
proof -
  obtain dir bytes t len where d: "path_exists H graph_path" "parent_of graph_path = Some dir"
    "stat H0 (manifest_path dir) = Some (t, len)" "- (2 ^ 63) \<le> t" "t < 2 ^ 63" "len < 2 ^ 64"
    "stat H (manifest_path dir) = Some (t, len)"
    "Option.bind (read_bytes H (path_join dir ''meta.json'')) from_slice = Some (write_graph_meta H0 dir root)"
    "read_bytes H (manifest_path dir) = Some bytes" "parse_manifest manifest_slice bytes = Some m"
    using assms(1) unfolding sidecar_of_def by blast
  have "read_meta from_slice H dir = Some \<lparr>meta_root = root, meta_commit_sha = git_head H0 root,
      meta_manifest_size = Some len, meta_manifest_mtime_ns = Some t\<rparr>"
    using d(8) de_meta_written [OF d(3-6)] by (auto simp: read_meta_def bind_eq_Some_conv)
  then show ?thesis using d assms(2)
    by (simp add: admissible_inputs_def load_with_identity_def describes_manifest_def)
qed

lemma ordered_insert_state: "ordered_keys (manifest_files m) \<Longrightarrow> ordered_keys (manifest_files (insert_state d st m))"
  by (simp add: insert_state_def ordered_btree_insert)

lemma diff_ordered:
  "fold (diff_one hash_file prior) ds (ch, cand, same, nxt) = (ch', cand', same', nxt') \<Longrightarrow>
     ordered_keys (manifest_files nxt) \<Longrightarrow> ordered_keys (manifest_files nxt')"
proof (induction ds arbitrary: ch cand same nxt)
  case (Cons d ds)
  obtain ch1 cand1 same1 nxt1 where s: "diff_one hash_file prior d (ch, cand, same, nxt) = (ch1, cand1, same1, nxt1)"
    by (metis prod_cases4)
  then have "ordered_keys (manifest_files nxt1)"
    using Cons.prems(2) by (auto simp: Let_def ordered_insert_state split: option.splits if_splits)
  then show ?case using Cons.IH Cons.prems(1) s by simp
qed simp

lemma match_ordered:
  "fold (match_one hash_file by_hash) ds (ren, add, consumed, nxt) = (ren', add', consumed', nxt') \<Longrightarrow>
     ordered_keys (manifest_files nxt) \<Longrightarrow> ordered_keys (manifest_files nxt')"
proof (induction ds arbitrary: ren add consumed nxt)
  case (Cons d ds)
  obtain ren1 add1 consumed1 nxt1 where s: "match_one hash_file by_hash d (ren, add, consumed, nxt) = (ren1, add1, consumed1, nxt1)"
    by (metis prod_cases4)
  then have "ordered_keys (manifest_files nxt1)"
    using Cons.prems(2) by (auto simp: Let_def ordered_insert_state split: option.splits)
  then show ?case using Cons.IH Cons.prems(1) s by simp
qed simp

lemma classify_distinct: "distinct (map fst (manifest_files (next_manifest (classify hash_file prior current))))"
proof -
  obtain ch cand same nxt where f: "fold (diff_one hash_file prior) current ([], [], [], new_manifest) = (ch, cand, same, nxt)"
    by (metis prod_cases4)
  define by_hash where "by_hash = fold (push_hash prior) (filter (\<lambda>r. r \<notin> set (map d_rel current)) (map fst (manifest_files prior))) Map.empty"
  obtain ren add consumed nxt' where m: "fold (match_one hash_file by_hash) cand ([], [], {}, nxt) = (ren, add, consumed, nxt')"
    by (metis prod_cases4)
  have "ordered_keys (manifest_files new_manifest)" by (simp add: new_manifest_def ordered_keys_def)
  then have "ordered_keys (manifest_files nxt')" using match_ordered [OF m] diff_ordered [OF f] by simp
  then show ?thesis using f m ordered_distinct by (simp add: classify_def diff_current_against_prior_def index_deleted_by_hash_def
        match_renames_and_adds_def by_hash_def Let_def)
qed

text \<open>C13: after an index of the files \<open>current\<close>, the receipt says fresh exactly when every one of these files still has
  the time and length it was indexed with and the head of the repository has not moved against the recorded
  commit; otherwise it says stale. (A file added since is seen through the head only.)\<close>

theorem fresh_means_unchanged:
  assumes "sidecar_of from_slice manifest_slice H0 H graph_path root (next_manifest (classify hash_file prior current))"
    "validated_root H root = Some root" "distinct (map d_rel current)" "current \<noteq> []"
    "list_all (\<lambda>d. is_contained_key (d_rel d)) current"
  shows "receipt_state (check from_slice manifest_slice H graph_path) =
    (if (\<forall>d \<in> set current. stat H (path_join root (d_rel d)) = Some (d_mtime_ns d, d_size d)) \<and>
       \<not> head_moved (commit_divergence H root (git_head H0 root)) then ''fresh'' else ''stale'')"
proof -
  let ?m = "next_manifest (classify hash_file prior current)"
  have keys: "fst ` set (manifest_files ?m) = d_rel ` set current"
    using classify_parts(4) [of hash_file prior current] by (simp add: listed_def)
  then have ne: "manifest_files ?m \<noteq> []" using assms(4) by auto
  have "distinct (map fst (manifest_files ?m))" by (rule classify_distinct)
  then have entry: "\<exists>st. (d_rel d, st) \<in> set (manifest_files ?m) \<and> mtime_ns st = d_mtime_ns d \<and> file_size st = d_size d \<and>
      (\<forall>st'. (d_rel d, st') \<in> set (manifest_files ?m) \<longrightarrow> st' = st)" if "d \<in> set current" for d
    using classify_records [OF assms(3) that, of hash_file prior] unfolding recorded_def
    by (auto split: option.splits dest: map_of_SomeD) (metis eq_key_imp_eq_value map_of_SomeD)
  have dirty_iff: "dirty H root (d_rel d, st) \<longleftrightarrow> stat H (path_join root (d_rel d)) \<noteq> Some (d_mtime_ns d, d_size d)"
    if "d \<in> set current" "(d_rel d, st) \<in> set (manifest_files ?m)" for d st
    using entry [OF that(1)] that assms(5) by (auto simp: dirty_def list_all_iff split: option.splits)
  have "count_dirty H root (manifest_files ?m) = 0 \<longleftrightarrow> (\<forall>e \<in> set (manifest_files ?m). \<not> dirty H root e)"
    by (auto simp: count_dirty_def filter_empty_conv)
  also have "\<dots> \<longleftrightarrow> (\<forall>d \<in> set current. stat H (path_join root (d_rel d)) = Some (d_mtime_ns d, d_size d))"
  proof
    assume l: "\<forall>e \<in> set (manifest_files ?m). \<not> dirty H root e"
    show "\<forall>d \<in> set current. stat H (path_join root (d_rel d)) = Some (d_mtime_ns d, d_size d)"
      using l entry dirty_iff by blast
  next
    assume r: "\<forall>d \<in> set current. stat H (path_join root (d_rel d)) = Some (d_mtime_ns d, d_size d)"
    show "\<forall>e \<in> set (manifest_files ?m). \<not> dirty H root e"
    proof
      fix e assume e: "e \<in> set (manifest_files ?m)"
      then obtain d where d: "d \<in> set current" "fst e = d_rel d" using keys by force
      then show "\<not> dirty H root e" using dirty_iff [of d "snd e"] r e by (cases e) auto
    qed
  qed
  finally show ?thesis
    using ne by (simp add: check_def admissible_written [OF assms(1,2)] receipt_state_verdict)
qed


section \<open>What the receipt reads\<close>

lemma components_path_join_relative:
  assumes "is_absolute p" "\<not> is_absolute s" "s \<noteq> []"
  shows "components (path_join p s) = components p @ components s"
proof (cases "ends_with p ''/''")
  case True
  then obtain q where q: "p = q @ CHR ''/'' # []" by (auto simp: ends_with_iff)
  have "split_on ''/'' (p @ s) = split_on ''/'' q @ split_on ''/'' s"
    using split_on_append [of "CHR ''/''" q s] q by simp
  moreover have "split_on ''/'' p = split_on ''/'' q @ split_on ''/'' []"
    using split_on_append [of "CHR ''/''" q "[]"] q by simp
  moreover have "split_on ''/'' [] = [[]]" by (simp add: split_on_def)
  ultimately show ?thesis using True assms by (simp add: path_join_def components_def)
next
  case False
  moreover have "p \<noteq> []" using assms(1) by (auto simp: is_absolute_def starts_with_iff)
  ultimately show ?thesis using assms split_on_append [of "CHR ''/''" p s] by (simp add: path_join_def components_def)
qed

text \<open>The root that the sidecar beside a graph names, when it is an acceptable one.\<close>

definition claimed_root :: "(string \<Rightarrow> json option) \<Rightarrow> host \<Rightarrow> string \<Rightarrow> string option" where
  "claimed_root from_slice H graph_path =
     Option.bind (parent_of graph_path) (\<lambda>dir. map_option meta_root (read_meta from_slice H dir))"

definition named_root :: "(string \<Rightarrow> json option) \<Rightarrow> host \<Rightarrow> string \<Rightarrow> string option" where
  "named_root from_slice H graph_path = Option.bind (claimed_root from_slice H graph_path) (validated_root H)"

text \<open>The only questions to \<open>git\<close>: the head, and the distance between a commit in hexadecimal and another name.\<close>

definition git_question :: "string list \<Rightarrow> bool" where
  "git_question args \<longleftrightarrow> args = [''rev-parse'', ''HEAD''] \<or>
     (\<exists>sha head. is_hex_sha sha \<and> args = [''rev-list'', ''--left-right'', ''--count'', sha @ ''...'' @ head])"

text \<open>Two hosts that agree on the graph path, on the two files beside the graph, on whether the root that the sidecar
  claims is acceptable, and inside this root on the entries of contained keys and the questions to \<open>git\<close>. On every
  other path and in every other repository they may differ in everything.\<close>

definition agree_beside :: "host \<Rightarrow> host \<Rightarrow> string \<Rightarrow> bool" where
  "agree_beside H H' graph_path \<longleftrightarrow> path_exists H' graph_path = path_exists H graph_path \<and>
     (\<forall>dir. parent_of graph_path = Some dir \<longrightarrow>
        read_bytes H' (path_join dir ''meta.json'') = read_bytes H (path_join dir ''meta.json'') \<and>
        read_bytes H' (manifest_path dir) = read_bytes H (manifest_path dir) \<and>
        stat H' (manifest_path dir) = stat H (manifest_path dir))"

definition agree_on_root :: "(string \<Rightarrow> json option) \<Rightarrow> host \<Rightarrow> host \<Rightarrow> string \<Rightarrow> bool" where
  "agree_on_root from_slice H H' graph_path \<longleftrightarrow>
     list_all (\<lambda>p. canonicalize H' p = canonicalize H p) FORBIDDEN_GRAPH_PATH_PREFIXES \<and>
     (\<forall>claimed. claimed_root from_slice H graph_path = Some claimed \<longrightarrow>
        canonicalize H' claimed = canonicalize H claimed \<and>
        (\<forall>root. canonicalize H claimed = Some root \<longrightarrow> is_dir H' root = is_dir H root))"

definition agree_inside :: "host \<Rightarrow> host \<Rightarrow> string \<Rightarrow> bool" where
  "agree_inside H H' root \<longleftrightarrow>
     (\<forall>r. is_contained_key r \<longrightarrow> stat H' (path_join root r) = stat H (path_join root r)) \<and>
     (\<forall>args. git_question args \<longrightarrow> git H' root args = git H root args)"

lemma commit_divergence_inside:
  assumes "agree_inside H H' root"
  shows "commit_divergence H' root c = commit_divergence H root c"
proof -
  have head: "git_head H' root = git_head H root"
    using assms by (simp add: git_head_def agree_inside_def git_question_def)
  have "git H' root [''rev-list'', ''--left-right'', ''--count'', sha @ ''...'' @ h] =
      git H root [''rev-list'', ''--left-right'', ''--count'', sha @ ''...'' @ h]" if "is_hex_sha sha" for sha h
  proof -
    have "git_question [''rev-list'', ''--left-right'', ''--count'', sha @ ''...'' @ h]"
      using that unfolding git_question_def by blast
    then show ?thesis using assms unfolding agree_inside_def by blast
  qed
  then show ?thesis unfolding commit_divergence_def head by (auto split: option.split simp del: append_Cons)
qed

lemma verdict_inside:
  assumes "agree_inside H H' (in_root i)"
  shows "verdict H' i = verdict H i"
proof -
  have "dirty H' (in_root i) e = dirty H (in_root i) e" for e
    using assms by (cases e) (simp add: dirty_def agree_inside_def)
  then have "dirty H' (in_root i) = dirty H (in_root i)" by (rule ext)
  then show ?thesis by (simp add: verdict_def count_dirty_def commit_divergence_inside [OF assms])
qed

lemma validated_root_agree:
  assumes "list_all (\<lambda>p. canonicalize H' p = canonicalize H p) FORBIDDEN_GRAPH_PATH_PREFIXES"
    "canonicalize H' c = canonicalize H c" "\<And>root. canonicalize H c = Some root \<Longrightarrow> is_dir H' root = is_dir H root"
  shows "validated_root H' c = validated_root H c"
proof -
  have "forbidden_roots H' = forbidden_roots H"
    using assms(1) unfolding forbidden_roots_def by (intro arg_cong [where f = concat] map_cong) (auto simp: list_all_iff)
  then show ?thesis using assms(2,3) by (auto simp: validated_root_def intro!: Option.bind_cong)
qed

lemma admissible_agree:
  assumes "agree_beside H H' graph_path" "agree_on_root from_slice H H' graph_path"
  shows "admissible_inputs from_slice manifest_slice H' graph_path = admissible_inputs from_slice manifest_slice H graph_path"
proof -
  have "validated_root H' (meta_root meta) = validated_root H (meta_root meta)"
    if "parent_of graph_path = Some dir" "read_meta from_slice H dir = Some meta" for dir meta
    using assms(2) that by (intro validated_root_agree) (auto simp: agree_on_root_def claimed_root_def)
  moreover have "read_meta from_slice H' dir = read_meta from_slice H dir"
    "load_with_identity manifest_slice H' (manifest_path dir) = load_with_identity manifest_slice H (manifest_path dir)"
    if "parent_of graph_path = Some dir" for dir
    using assms(1) that by (simp_all add: agree_beside_def read_meta_def load_with_identity_def)
  ultimately show ?thesis
    using assms(1) unfolding admissible_inputs_def agree_beside_def by (auto intro!: Option.bind_cong)
qed

lemma admissible_root:
  "admissible_inputs from_slice manifest_slice H graph_path = Some i \<Longrightarrow> named_root from_slice H graph_path = Some (in_root i)"
  by (auto simp: admissible_inputs_def named_root_def claimed_root_def bind_eq_Some_conv split: if_splits)

text \<open>C38: the sidecar cannot make the check look outside of the root it names. Let two hosts agree on the existence of
  the graph path, on the two files beside it (\<open>meta.json\<close>, and the manifest with its time and length), on the
  canonical paths of the claimed root and the forbidden places, on whether the root is a directory, and inside the one
  root that the sidecar names on the time and length of contained keys and on two kinds of question to \<open>git\<close>. Then
  they give the same receipt, whatever else differs: contents of any other file, times outside of the root, other
  repositories. The named root is a directory and no forbidden place. A contained key is looked up below the root
  it is joined to, and has no parent component.\<close>

theorem check_stays_inside_root:
  assumes "agree_beside H H' graph_path" "agree_on_root from_slice H H' graph_path"
    "\<And>root. named_root from_slice H graph_path = Some root \<Longrightarrow> agree_inside H H' root"
  shows "check from_slice manifest_slice H' graph_path = check from_slice manifest_slice H graph_path \<and>
    (\<forall>root. named_root from_slice H graph_path = Some root \<longrightarrow> is_dir H root \<and> root \<notin> set FORBIDDEN_GRAPH_PATH_PREFIXES) \<and>
    (\<forall>root r. is_absolute root \<and> is_contained_key r \<longrightarrow>
       components (path_join root r) = components root @ components r \<and> ''..'' \<notin> set (components r))"
proof (intro conjI allI impI)
  show "check from_slice manifest_slice H' graph_path = check from_slice manifest_slice H graph_path"
    unfolding check_def admissible_agree [OF assms(1,2)]
    by (auto split: option.split intro: verdict_inside assms(3) admissible_root)
next
  fix root assume "named_root from_slice H graph_path = Some root"
  then show "is_dir H root" and "root \<notin> set FORBIDDEN_GRAPH_PATH_PREFIXES"
    by (auto simp: named_root_def validated_root_def forbidden_roots_def bind_eq_Some_conv split: if_splits)
next
  fix root r assume a: "is_absolute root \<and> is_contained_key r"
  then show "components (path_join root r) = components root @ components r"
    using components_path_join_relative [of root r] by (auto simp: is_contained_key_def)
  show "''..'' \<notin> set (components r)" using a by (auto simp: is_contained_key_def list_all_iff)
qed

section \<open>Forbidden places\<close>

definition demo_forbidden_spelling :: "string \<Rightarrow> string" where
  "demo_forbidden_spelling p = (if p = ''/'' then ''/graph'' else p @ ''/./graph'')"

text \<open>A repository with one file, and a host on which \<open>a.rs\<close> has another time than it was indexed with.\<close>

definition demo_found :: "Discovered list" where
  "demo_found = [\<lparr>d_rel = ''a.rs'', d_abs = ''/r/a.rs'', d_mtime_ns = 5, d_size = 9\<rparr>]"

definition demo_manifest :: FileManifest where
  "demo_manifest = next_manifest (classify (\<lambda>f. None) new_manifest demo_found)"

definition demo_host :: "int \<Rightarrow> host" where
  "demo_host t = \<lparr>path_exists = (\<lambda>p. True), canonicalize = (\<lambda>p. if is_absolute p then Some p else None), is_dir = (\<lambda>p. p = ''/r''),
     stat = (\<lambda>p. if p = ''/out/file_manifest.json'' then Some (7, 40) else if p = ''/r/a.rs'' then Some (t, 9) else None),
     read_bytes = Some, git = (\<lambda>root args. None)\<rparr>"

definition demo_from_slice :: "string \<Rightarrow> json option" where
  "demo_from_slice b = Some (write_graph_meta (demo_host 5) ''/out'' ''/r'')"

lemma demo_paths:
  "parent_of ''/out/graph'' = Some ''/out''" "manifest_path ''/out'' = ''/out/file_manifest.json''"
  "is_contained_key ''a.rs''" "path_join ''/r'' ''a.rs'' = ''/r/a.rs''"
  by code_simp+

lemma demo_root: "validated_root (demo_host t) ''/r'' = Some ''/r''"
  by (simp add: validated_root_def demo_host_def forbidden_roots_def FORBIDDEN_GRAPH_PATH_PREFIXES_def is_absolute_def starts_with_def)

lemma demo_sidecar:
  "sidecar_of demo_from_slice (\<lambda>b. Some demo_manifest) (demo_host 5) (demo_host t) ''/out/graph'' ''/r'' demo_manifest"
proof -
  have "schema_version demo_manifest = 1" unfolding demo_manifest_def demo_found_def by code_simp
  then have "parse_manifest (\<lambda>b. Some demo_manifest) b = Some demo_manifest" for b
    by (simp add: parse_manifest_def MANIFEST_SCHEMA_VERSION_def)
  then show ?thesis unfolding sidecar_of_def
    by (rule_tac exI [of _ "''/out''"], rule_tac exI [of _ "''/out/file_manifest.json''"], rule_tac exI [of _ 7], rule_tac exI [of _ 40])
       (simp add: demo_paths demo_host_def demo_from_slice_def)
qed

lemma fresh_means_unchanged_witness:
  "receipt_state (check demo_from_slice (\<lambda>b. Some demo_manifest) (demo_host 5) ''/out/graph'') = ''fresh'' \<and>
   receipt_state (check demo_from_slice (\<lambda>b. Some demo_manifest) (demo_host 6) ''/out/graph'') = ''stale''"
proof -
  have r: "receipt_state (check demo_from_slice (\<lambda>b. Some demo_manifest) (demo_host t) ''/out/graph'') =
      (if (\<forall>d \<in> set demo_found. stat (demo_host t) (path_join ''/r'' (d_rel d)) = Some (d_mtime_ns d, d_size d)) \<and>
         \<not> head_moved (commit_divergence (demo_host t) ''/r'' (git_head (demo_host 5) ''/r'')) then ''fresh'' else ''stale'')" for t
    by (rule fresh_means_unchanged [where hash_file = "\<lambda>f. None" and prior = new_manifest and current = demo_found,
        folded demo_manifest_def, OF demo_sidecar demo_root]) (simp_all add: demo_found_def demo_paths)
  have g: "git_head (demo_host 5) ''/r'' = None" by (simp add: git_head_def demo_host_def)
  show ?thesis unfolding r g by (simp add: demo_found_def demo_paths commit_divergence_def head_moved_def) (simp add: demo_host_def)
qed

text \<open>A host that differs in what lies outside: another file has appeared, other contents, another repository.\<close>

definition demo_elsewhere :: host where
  "demo_elsewhere = (demo_host 5)
     \<lparr>path_exists := (\<lambda>p. p = ''/out/graph''),
      stat := (\<lambda>p. if p = ''/etc/passwd'' then Some (1, 1) else stat (demo_host 5) p),
      read_bytes := (\<lambda>p. if starts_with p ''/out/'' then Some p else None),
      git := (\<lambda>root args. if root = ''/r'' then None else Some ''abc'')\<rparr>"

lemma check_stays_inside_root_witness:
  "check demo_from_slice (\<lambda>b. Some demo_manifest) demo_elsewhere ''/out/graph'' =
   check demo_from_slice (\<lambda>b. Some demo_manifest) (demo_host 5) ''/out/graph'' \<and>
   named_root demo_from_slice (demo_host 5) ''/out/graph'' = Some ''/r'' \<and>
   stat demo_elsewhere ''/etc/passwd'' \<noteq> stat (demo_host 5) ''/etc/passwd'' \<and>
   git demo_elsewhere ''/etc'' [] \<noteq> git (demo_host 5) ''/etc'' []"
proof -
  have meta: "path_join ''/out'' ''meta.json'' = ''/out/meta.json''" by code_simp
  have c: "claimed_root demo_from_slice (demo_host 5) ''/out/graph'' = Some ''/r''"
    using de_meta_written [of "demo_host 5" "''/out''" 7 40 "''/r''"]
    by (simp add: claimed_root_def demo_paths read_meta_def demo_host_def demo_from_slice_def)
  have n: "named_root demo_from_slice (demo_host 5) ''/out/graph'' = Some ''/r''"
    by (simp add: named_root_def c demo_root)
  have "path_join ''/r'' r \<noteq> ''/etc/passwd''" if "is_contained_key r" for r
    using that by (auto simp: path_join_def is_contained_key_def ends_with_def starts_with_def)
  then have inside: "agree_inside (demo_host 5) demo_elsewhere ''/r''"
    by (simp add: agree_inside_def demo_elsewhere_def) (simp add: demo_host_def)
  have beside: "agree_beside (demo_host 5) demo_elsewhere ''/out/graph''"
    by (simp add: agree_beside_def demo_paths meta demo_elsewhere_def) (simp add: demo_host_def starts_with_def)
  have on_root: "agree_on_root demo_from_slice (demo_host 5) demo_elsewhere ''/out/graph''"
    by (simp add: agree_on_root_def c demo_elsewhere_def list_all_iff)
  have "check demo_from_slice (\<lambda>b. Some demo_manifest) demo_elsewhere ''/out/graph'' =
      check demo_from_slice (\<lambda>b. Some demo_manifest) (demo_host 5) ''/out/graph''"
    using check_stays_inside_root [OF beside on_root] inside n by simp
  then show ?thesis by (simp add: n demo_elsewhere_def) (simp add: demo_host_def)
qed

text \<open>Every forbidden place has a spelling that the check of graph paths accepts. The check compares texts: the
  place for the root is compared as \<open>//graph\<close>, so \<open>/graph\<close> passes, and a dot between slashes hides any other one.
  What is accepted may be removed with everything below it.\<close>

theorem forbidden_place_accepted:
  assumes p: "p \<in> set FORBIDDEN_GRAPH_PATH_PREFIXES"
  shows "\<exists>q. validate_graph_path_safe debug q = Inr () \<and> components q = components (p @ ''/graph'') \<and> is_absolute q"
proof -
  have "list_all (\<lambda>p. let q = demo_forbidden_spelling p in is_absolute q \<and> file_name q = Some ''graph'' \<and>
      \<not> list_ex (\<lambda>f. q = f \<or> q = f @ ''/graph'') FORBIDDEN_GRAPH_PATH_PREFIXES \<and> components q = components (p @ ''/graph''))
      FORBIDDEN_GRAPH_PATH_PREFIXES"
    by code_simp
  then have "is_absolute (demo_forbidden_spelling p)" "file_name (demo_forbidden_spelling p) = Some ''graph''"
    "\<not> list_ex (\<lambda>f. demo_forbidden_spelling p = f \<or> demo_forbidden_spelling p = f @ ''/graph'') FORBIDDEN_GRAPH_PATH_PREFIXES"
    "components (demo_forbidden_spelling p) = components (p @ ''/graph'')"
    using p by (auto simp: list_all_iff Let_def)
  then show "\<exists>q. validate_graph_path_safe debug q = Inr () \<and> components q = components (p @ ''/graph'') \<and> is_absolute q"
    by (intro exI [of _ "demo_forbidden_spelling p"]) (simp add: validate_graph_path_safe_def)
qed

lemma forbidden_place_accepted_witness:
  "\<exists>q. validate_graph_path_safe id q = Inr () \<and> components q = components ''/etc/graph'' \<and> is_absolute q"
  using forbidden_place_accepted [of "''/etc''" id] by (simp add: FORBIDDEN_GRAPH_PATH_PREFIXES_def)

end
