(* ===== verification/SecurityGates.thy ===== *)
theory SecurityGates
  imports Impact Json
begin

text \<open>
  The security gates (\<open>src/security_gates/\<close>), with the lookup of a symbol by name (\<open>src/search/name_lookup.rs\<close>) and
  of its community (\<open>src/graph_store/membership.rs\<close>) they rest on. The store answers a statement with rows or an
  error; \<open>prepared\<close> answers a statement with the one parameter \<open>$v\<close>.
\<close>

section \<open>The symbol that a name stands for\<close>

definition SEARCHABLE_LABELS :: "string list" where
  "SEARCHABLE_LABELS = [''Function'', ''Method'', ''Struct'', ''Enum'', ''Trait'', ''Module'', ''Constant'', ''TypeAlias'']"

text \<open>The text before the first \<open>::\<close>, without its first path component.\<close>

definition strip_leading_path_component :: "string \<Rightarrow> string option" where
  "strip_leading_path_component input =
     (let (path_part, rest) = (case find_str ''::'' input of Some i \<Rightarrow> (take i input, drop i input) | None \<Rightarrow> (input, [])) in
      case find_str ''/'' path_part of None \<Rightarrow> None | Some idx \<Rightarrow> Some (drop (idx + 1) path_part @ rest))"

text \<open>The first cell of the first row; a row is never skipped for a later one.\<close>

definition first_cell_of :: "string list list \<Rightarrow> string option" where
  "first_cell_of rs = (case rs of (c # cs) # _ \<Rightarrow> Some c | _ \<Rightarrow> None)"

fun first_of :: "('a \<Rightarrow> 'b option) \<Rightarrow> 'a list \<Rightarrow> 'b option" where
  "first_of f [] = None"
| "first_of f (x # xs) = (case f x of Some y \<Rightarrow> Some y | None \<Rightarrow> first_of f xs)"

definition exact_match_qn :: "store \<Rightarrow> string \<Rightarrow> string option" where
  "exact_match_qn store input =
     (let escaped = cypher_str input in
      first_of (\<lambda>label. first_cell_of (rows_of store (''MATCH (n:'' @ label @ '') WHERE n.qualified_name = '' @ escaped
        @ '' OR n.id = '' @ escaped @ '' RETURN n.qualified_name LIMIT 1''))) SEARCHABLE_LABELS)"

definition add_candidate :: "nat \<Rightarrow> string list \<Rightarrow> string list \<Rightarrow> string list" where
  "add_candidate limit row out =
     (if limit \<le> length out then out
      else case row of [] \<Rightarrow> out | c # cs \<Rightarrow> if c \<in> set out then out else out @ [c])"

definition find_name_candidates :: "store \<Rightarrow> string \<Rightarrow> nat \<Rightarrow> string list" where
  "find_name_candidates store name limit =
     fold (\<lambda>label out.
       if limit \<le> length out then out
       else fold (add_candidate limit) (rows_of store (''MATCH (n:'' @ label @ '') WHERE n.name = '' @ cypher_str name
         @ '' RETURN n.qualified_name LIMIT '' @ dec limit)) out) SEARCHABLE_LABELS []"

text \<open>\<open>None\<close>: no twinned item; \<open>Some (Inr id)\<close>: the twin that the default build compiles; \<open>Some (Inl ids)\<close>: all twins.\<close>

definition resolve_twins :: "store \<Rightarrow> string \<Rightarrow> (string list + string) option" where
  "resolve_twins store name =
     (let twins = filter (\<lambda>row. twin_label row \<in> set SEARCHABLE_LABELS) (cfg_twin_rows store name) in
      if twins = [] then None
      else Some (case filter (\<lambda>row. twin_active row = CFG_ACTIVE) twins of
          [only] \<Rightarrow> Inr (twin_id only)
        | _ \<Rightarrow> Inl (map twin_id twins)))"

text \<open>\<open>rsplit("::").next()\<close>: the text after the last \<open>::\<close>, searched from the right.\<close>

definition leaf_name :: "string \<Rightarrow> string" where
  "leaf_name input = (case find_str ''::'' (rev input) of Some i \<Rightarrow> rev (take i (rev input)) | None \<Rightarrow> input)"

definition resolve_qualified_name :: "store \<Rightarrow> string \<Rightarrow> string list + string" where
  "resolve_qualified_name store input =
     (let stripped = strip_leading_path_component input in
      case exact_match_qn store input of
        Some qn \<Rightarrow> Inr qn
      | None \<Rightarrow>
          (case Option.bind stripped (exact_match_qn store) of
             Some qn \<Rightarrow> Inr qn
           | None \<Rightarrow>
               (case first_of (resolve_twins store) (input # (case stripped of Some s \<Rightarrow> [s] | None \<Rightarrow> [])) of
                  Some r \<Rightarrow> r
                | None \<Rightarrow> Inl (find_name_candidates store (leaf_name input) 5))))"

section \<open>Flags\<close>

definition AUTH_CRITICAL_PATTERNS :: "string list" where
  "AUTH_CRITICAL_PATTERNS = [''auth'', ''password'', ''token'', ''permission'', ''role'', ''crypto'', ''encrypt'', ''decrypt'', ''verify'',
     ''jwt'', ''oauth'', ''session'']"

record SecurityFlag =
  gate :: string
  severity :: string
  symbol :: string
  flag_message :: string
  details :: json_map

record SecuritySummary =
  changed_symbols :: nat
  critical_count :: nat
  warning_count :: nat
  info_count :: nat

record SecurityReport =
  gates_passed :: bool
  flags :: "SecurityFlag list"
  summary :: SecuritySummary

definition assessment_complete :: "SecurityReport \<Rightarrow> bool" where
  "assessment_complete r \<longleftrightarrow> 0 < changed_symbols (summary r) \<and>
     \<not> list_ex (\<lambda>flag. gate flag = ''input_unresolved'' \<or> get (details flag) ''skipped'' = Some (JBool True)) (flags r)"

section \<open>The five gates\<close>

definition auth_critical :: "string \<Rightarrow> bool" where
  "auth_critical name \<longleftrightarrow> list_ex (\<lambda>p. contains (map to_lower name) p) AUTH_CRITICAL_PATTERNS"

definition find_auth_communities :: "store \<Rightarrow> string set" where
  "find_auth_communities store =
     {cid. \<exists>label \<in> set SYMBOL_LABELS. \<exists>row \<in> set (rows_of store (''MATCH (s:'' @ label @ '')-[:MemberOf_'' @ label
        @ ''_Community]->(c:Community) RETURN s.name, c.id'')).
      \<exists>name rest. row = name # cid # rest \<and> auth_critical name \<and> cid \<noteq> []}"

definition member_community :: "(string \<Rightarrow> string \<Rightarrow> string + string list list) \<Rightarrow> string \<Rightarrow> string \<Rightarrow> string option" where
  "member_community prepared label qn =
     (case prepared (''MATCH (n:'' @ label @ '')-[:MemberOf_'' @ label @ ''_Community]->(c:Community) WHERE (n.qualified_name = $v)''
        @ '' AND c.id <> '' @ [CHR 0x27, CHR 0x27] @ '' RETURN c.id, c.name, c.member_count ORDER BY c.id LIMIT 1'') qn of
        Inr ((cid # name # members # rest) # _) \<Rightarrow> Some cid
      | _ \<Rightarrow> None)"

definition community_of :: "(string \<Rightarrow> string \<Rightarrow> string + string list list) \<Rightarrow> string \<Rightarrow> string option" where
  "community_of prepared qn = first_of (\<lambda>label. member_community prepared label qn) SYMBOL_LABELS"

definition run_s1 :: "(string \<Rightarrow> string \<Rightarrow> string + string list list) \<Rightarrow> string \<Rightarrow> string set \<Rightarrow> SecurityFlag list" where
  "run_s1 prepared qn auth_communities =
     (if auth_communities = {} then []
      else case community_of prepared qn of
        None \<Rightarrow> []
      | Some cid \<Rightarrow>
          if cid \<notin> auth_communities then []
          else [\<lparr>gate = ''auth_critical_touch'', severity = ''critical'', symbol = qn,
            flag_message = ''changed symbol shares community '' @ [CHR 0x27] @ cid @ [CHR 0x27] @ '' with auth-critical symbols'',
            details = [(''community_id'', JStr cid), (''auth_patterns'', JArr (map JStr AUTH_CRITICAL_PATTERNS))]\<rparr>])"

definition run_s2 :: "string \<Rightarrow> SecurityFlag list" where
  "run_s2 qn =
     [\<lparr>gate = ''unsafe_symbol'', severity = ''info'', symbol = qn,
       flag_message = ''unsafe detection unavailable: the Rust parser does not record is_unsafe (see stages/stage-8.md '' @ [CHR 0xC2, CHR 0xA7]
         @ ''7 Q1; unblocks when stage 3a-v2 ships)'',
       details = [(''skipped'', JBool True), (''reason'', JStr ''parser_missing_is_unsafe'')]\<rparr>]"

definition FILE_DEFINES :: "string list" where
  "FILE_DEFINES = [''Defines_File_Function'', ''Defines_File_Struct'', ''Defines_File_Enum'', ''Defines_File_Trait'',
     ''Defines_File_Constant'', ''Defines_File_TypeAlias'']"

text \<open>\<open>Some None\<close>: the symbol is there and its visibility is blank.\<close>

definition fetch_visibility :: "store \<Rightarrow> string \<Rightarrow> string option option" where
  "fetch_visibility store escaped =
     first_of (\<lambda>label. map_option (\<lambda>v. if trim v = [] then None else Some (trim v))
       (first_cell_of (rows_of store (''MATCH (n:'' @ label @ '') WHERE n.qualified_name = '' @ escaped @ '' RETURN n.visibility LIMIT 1''))))
     [''Function'', ''Method'', ''Struct'', ''Enum'', ''Trait'']"

definition file_parent_rows :: "store \<Rightarrow> string \<Rightarrow> string \<Rightarrow> string option" where
  "file_parent_rows store escaped rel =
     first_cell_of (rows_of store (''MATCH (f:File)-[:'' @ rel @ '']->(n) WHERE n.qualified_name = '' @ escaped @ '' RETURN f.path LIMIT 1''))"

definition has_file_parent :: "store \<Rightarrow> string \<Rightarrow> bool" where
  "has_file_parent store escaped = list_ex (\<lambda>rel. file_parent_rows store escaped rel \<noteq> None) FILE_DEFINES"

definition lookup_file_path :: "store \<Rightarrow> string \<Rightarrow> string option" where
  "lookup_file_path store escaped =
     first_of (\<lambda>rel. case file_parent_rows store escaped rel of Some p \<Rightarrow> if p = [] then None else Some p | None \<Rightarrow> None) FILE_DEFINES"

definition run_s3 :: "store \<Rightarrow> string \<Rightarrow> SecurityFlag list" where
  "run_s3 store qn =
     (let escaped = cypher_str qn in
      case fetch_visibility store escaped of
        None \<Rightarrow> []
      | Some vis \<Rightarrow>
          if vis \<noteq> Some ''pub'' then []
          else if \<not> has_file_parent store escaped then []
          else [\<lparr>gate = ''public_api_change'', severity = ''warning'', symbol = qn,
            flag_message = ''touches a crate-root public API symbol '' @ em_dash @ '' downstream consumers may break'',
            details = [(''visibility'', JStr ''pub''), (''parent_label'', JStr ''File''),
              (''file_path'', or_null JStr (lookup_file_path store escaped))]\<rparr>])"

text \<open>The longest path, the last one among equals (\<open>max_by_key\<close>).\<close>

fun longest :: "string list \<Rightarrow> string option" where
  "longest [] = None"
| "longest (p # ps) = (case longest ps of None \<Rightarrow> Some p | Some q \<Rightarrow> if length p \<le> length q then Some q else Some p)"

definition import_source_file :: "store \<Rightarrow> string \<Rightarrow> string + string option" where
  "import_source_file store qn =
     (case store (''MATCH (f:File) WHERE '' @ cypher_str qn @ '' STARTS WITH (f.path + '' @ [CHR 0x27] @ ''::'' @ [CHR 0x27] @ '') RETURN f.path'') of
        Inl e \<Rightarrow> Inl (''checking unresolved imports: locating source file: '' @ e)
      | Inr rs \<Rightarrow> Inr (longest (List.map_filter (\<lambda>row. case row of c # cs \<Rightarrow> Some c | [] \<Rightarrow> None) rs)))"

definition more_specific_file_exclusions :: "store \<Rightarrow> string \<Rightarrow> string + string" where
  "more_specific_file_exclusions store prefix =
     (case store (''MATCH (f:File) WHERE f.path STARTS WITH '' @ prefix @ '' RETURN f.path'') of
        Inl e \<Rightarrow> Inl (''checking unresolved imports: locating nested file prefixes: '' @ e)
      | Inr rs \<Rightarrow> Inr (concat (map (\<lambda>path. '' AND NOT (i.id STARTS WITH '' @ cypher_str (path @ ''::'') @ '')'')
          (sort (List.map_filter (\<lambda>row. case row of c # cs \<Rightarrow> Some c | [] \<Rightarrow> None) rs)))))"

text \<open>The message of the standard library for a text that is not a \<open>u64\<close>.\<close>

definition parse_int_error :: "string \<Rightarrow> string" where
  "parse_int_error c =
     (let ds = (if starts_with c ''+'' then drop 1 c else c) in
      if c = [] then ''cannot parse integer from empty string''
      else if parse_dec (2 ^ 64) (''0'' @ takeWhile is_digit ds) = None then ''number too large to fit in target type''
      else ''invalid digit found in string'')"

definition unresolved_import_count :: "store \<Rightarrow> string \<Rightarrow> string + nat" where
  "unresolved_import_count store file_path =
     (let prefix = cypher_str (file_path @ ''::'') in
      case more_specific_file_exclusions store prefix of
        Inl e \<Rightarrow> Inl e
      | Inr exclusions \<Rightarrow>
          (case store (''MATCH (i:Import) WHERE i.id STARTS WITH '' @ prefix @ exclusions
             @ '' AND (i.is_resolved = false OR i.is_resolved IS NULL) RETURN count(i)'') of
             Inl e \<Rightarrow> Inl (''checking unresolved imports: '' @ e)
           | Inr rs \<Rightarrow>
               (case first_cell_of rs of
                  None \<Rightarrow> Inl ''checking unresolved imports: missing count''
                | Some c \<Rightarrow> (case parse_dec (2 ^ 64) c of
                    None \<Rightarrow> Inl (''checking unresolved imports: invalid count: '' @ parse_int_error c) | Some n \<Rightarrow> Inr n))))"

definition run_s4 :: "store \<Rightarrow> string \<Rightarrow> string + SecurityFlag list" where
  "run_s4 store qn =
     (case import_source_file store qn of
        Inl e \<Rightarrow> Inl e
      | Inr None \<Rightarrow> Inr [\<lparr>gate = ''unresolved_imports'', severity = ''info'', symbol = qn,
          flag_message = ''unresolved-import check unavailable: source file not identified'',
          details = [(''skipped'', JBool True), (''reason'', JStr ''source_file_unavailable'')]\<rparr>]
      | Inr (Some file_path) \<Rightarrow>
          (case unresolved_import_count store file_path of
             Inl e \<Rightarrow> Inl e
           | Inr n \<Rightarrow>
               if n > 0 then Inr [\<lparr>gate = ''unresolved_imports'', severity = (if 2 \<le> n then ''critical'' else ''warning''), symbol = qn,
                 flag_message = dec n @ '' unresolved import(s) in the changed symbol'' @ [CHR 0x27] @ ''s file'',
                 details = [(''file_path'', JStr file_path), (''unresolved_count'', JInt (int n))]\<rparr>]
               else Inr []))"

definition test_processes :: "store \<Rightarrow> string \<Rightarrow> string \<Rightarrow> nat" where
  "test_processes store escaped label =
     (case first_cell_of (rows_of store (''MATCH (n:'' @ label @ '')-[:ParticipatesIn_'' @ label @ ''_Process]->(p:Process) WHERE n.qualified_name = ''
        @ escaped @ '' AND p.entry_kind = '' @ [CHR 0x27] @ ''test'' @ [CHR 0x27] @ '' RETURN count(p)'')) of
        None \<Rightarrow> 0 | Some c \<Rightarrow> (case parse_dec (2 ^ 64) c of None \<Rightarrow> 0 | Some n \<Rightarrow> n))"

definition run_s5 :: "store \<Rightarrow> string \<Rightarrow> SecurityFlag list" where
  "run_s5 store qn =
     (let escaped = cypher_str qn; reached = test_processes store escaped ''Function'' + test_processes store escaped ''Method'' in
      if reached > 0 then []
      else [\<lparr>gate = ''test_coverage_gap'', severity = ''warning'', symbol = qn,
        flag_message = ''no ParticipatesIn path from any test-entry process '' @ em_dash @ '' structural coverage gap'',
        details = [(''test_processes_reaching_symbol'', JInt 0)]\<rparr>])"

section \<open>The report\<close>

definition tally :: "SecurityFlag list \<Rightarrow> nat \<Rightarrow> SecuritySummary" where
  "tally fs n =
     \<lparr>changed_symbols = n,
      critical_count = length (filter (\<lambda>f. severity f = ''critical'') fs),
      warning_count = length (filter (\<lambda>f. severity f = ''warning'') fs),
      info_count = length (filter (\<lambda>f. severity f \<noteq> ''critical'' \<and> severity f \<noteq> ''warning'') fs)\<rparr>"

fun gates_for :: "store \<Rightarrow> (string \<Rightarrow> string \<Rightarrow> string + string list list) \<Rightarrow> string set \<Rightarrow> (string \<times> (string list + string)) list
    \<Rightarrow> string + SecurityFlag list" where
  "gates_for store prepared auth [] = Inr []"
| "gates_for store prepared auth ((input, Inl suggestions) # rs) = gates_for store prepared auth rs"
| "gates_for store prepared auth ((input, Inr qn) # rs) =
     (case run_s4 store qn of
        Inl e \<Rightarrow> Inl e
      | Inr s4 \<Rightarrow>
          (case gates_for store prepared auth rs of
             Inl e \<Rightarrow> Inl e
           | Inr fs \<Rightarrow> Inr (run_s1 prepared qn auth @ run_s2 qn @ run_s3 store qn @ s4 @ run_s5 store qn @ fs)))"

definition resolve_all :: "store \<Rightarrow> string list \<Rightarrow> (string \<times> (string list + string)) list" where
  "resolve_all store inputs = map (\<lambda>input. (input, resolve_qualified_name store input)) inputs"

definition unresolved_flag :: "string \<times> (string list + string) \<Rightarrow> SecurityFlag list" where
  "unresolved_flag r =
     (case r of
        (input, Inl suggestions) \<Rightarrow> [\<lparr>gate = ''input_unresolved'', severity = ''info'', symbol = input,
          flag_message = ''changed symbol '' @ [CHR 0x27] @ input @ [CHR 0x27] @ '' did not resolve in graph'',
          details = [(''did_you_mean'', JArr (map JStr suggestions))]\<rparr>]
      | (input, Inr qn) \<Rightarrow> [])"

definition check_gates :: "store \<Rightarrow> (string \<Rightarrow> string \<Rightarrow> string + string list list) \<Rightarrow> string list \<Rightarrow> string + SecurityReport" where
  "check_gates store prepared inputs =
     (let resolved = resolve_all store inputs in
      case gates_for store prepared (find_auth_communities store) resolved of
        Inl e \<Rightarrow> Inl e
      | Inr fs \<Rightarrow>
          (let all_flags = fs @ concat (map unresolved_flag resolved);
               s = tally all_flags (length inputs) in
           Inr \<lparr>gates_passed = (critical_count s = 0), flags = all_flags, summary = s\<rparr>))"


text \<open>\<open>report_to_json\<close>, with the graph path as text.\<close>

definition flag_json :: "SecurityFlag \<Rightarrow> json" where
  "flag_json f = JObj [(''gate'', JStr (gate f)), (''severity'', JStr (severity f)), (''symbol'', JStr (symbol f)),
     (''message'', JStr (flag_message f)), (''details'', JObj (details f))]"

definition report_to_json :: "SecurityReport \<Rightarrow> string \<Rightarrow> string \<Rightarrow> string \<Rightarrow> string list \<Rightarrow> string \<Rightarrow> json" where
  "report_to_json report run_id finding_id graph_path inputs checked_at =
     JObj [(''run_id'', JStr run_id), (''finding_id'', JStr finding_id), (''graph_path'', JStr graph_path),
       (''changed_symbols'', JArr (map JStr inputs)), (''checked_at'', JStr checked_at),
       (''gates_passed'', JBool (gates_passed report)), (''assessment_complete'', JBool (assessment_complete report)),
       (''summary'', JObj [(''changed_symbols'', JInt (int (changed_symbols (summary report)))),
          (''critical_count'', JInt (int (critical_count (summary report)))),
          (''warning_count'', JInt (int (warning_count (summary report)))),
          (''info_count'', JInt (int (info_count (summary report))))]),
       (''flags'', JArr (map flag_json (flags report)))]"

section \<open>What a pass means\<close>

definition touches_auth :: "store \<Rightarrow> (string \<Rightarrow> string \<Rightarrow> string + string list list) \<Rightarrow> string \<Rightarrow> bool" where
  "touches_auth store prepared qn \<longleftrightarrow> (\<exists>cid \<in> find_auth_communities store. community_of prepared qn = Some cid)"

definition many_unresolved :: "store \<Rightarrow> string \<Rightarrow> bool" where
  "many_unresolved store qn \<longleftrightarrow>
     (\<exists>path n. import_source_file store qn = Inr (Some path) \<and> unresolved_import_count store path = Inr n \<and> 2 \<le> n)"

definition critical :: "SecurityFlag \<Rightarrow> bool" where
  "critical f \<longleftrightarrow> severity f = ''critical''"

lemma s1_critical: "filter critical (run_s1 prepared qn (find_auth_communities store)) \<noteq> [] \<longleftrightarrow> touches_auth store prepared qn"
  by (auto simp: run_s1_def critical_def touches_auth_def split: option.splits)

lemma s4_critical: "run_s4 store qn = Inr fs \<Longrightarrow> filter critical fs \<noteq> [] \<longleftrightarrow> many_unresolved store qn"
  by (auto simp: run_s4_def critical_def many_unresolved_def split: sum.splits option.splits if_splits)

lemma other_gates: "filter critical (run_s2 qn) = []" "filter critical (run_s3 store qn) = []" "filter critical (run_s5 store qn) = []"
  "filter critical (unresolved_flag r) = []"
  by (auto simp: run_s2_def run_s3_def run_s5_def unresolved_flag_def critical_def Let_def split: option.splits sum.splits prod.splits)

lemma gates_for_critical:
  "gates_for store prepared (find_auth_communities store) rs = Inr fs \<Longrightarrow>
     filter critical fs = [] \<longleftrightarrow> (\<forall>(input, r) \<in> set rs. \<forall>qn. r = Inr qn \<longrightarrow> \<not> touches_auth store prepared qn \<and> \<not> many_unresolved store qn)"
proof (induction store prepared "find_auth_communities store" rs arbitrary: fs rule: gates_for.induct)
  case (3 store prepared input qn rs)
  then obtain s4 gs where s4: "run_s4 store qn = Inr s4" and gs: "gates_for store prepared (find_auth_communities store) rs = Inr gs"
    and fs: "fs = run_s1 prepared qn (find_auth_communities store) @ run_s2 qn @ run_s3 store qn @ s4 @ run_s5 store qn @ gs"
    by (auto split: sum.splits)
  have "filter critical fs = [] \<longleftrightarrow> \<not> touches_auth store prepared qn \<and> \<not> many_unresolved store qn \<and> filter critical gs = []"
  proof -
    have "filter critical (run_s1 prepared qn (find_auth_communities store)) = [] \<longleftrightarrow> \<not> touches_auth store prepared qn"
      "filter critical s4 = [] \<longleftrightarrow> \<not> many_unresolved store qn"
      using s1_critical [of prepared qn store] s4_critical [OF s4] by blast+
    then show ?thesis unfolding fs by (simp add: other_gates)
  qed
  then show ?case using 3(1) [OF s4 gs] by auto
qed (auto split: sum.splits)

lemma gates_for_skip:
  "gates_for store prepared auth rs = Inr fs \<Longrightarrow> (input, Inr qn) \<in> set rs \<Longrightarrow> run_s2 qn \<noteq> [] \<and> set (run_s2 qn) \<subseteq> set fs"
  by (induction store prepared auth rs arbitrary: fs rule: gates_for.induct) (auto simp: run_s2_def split: sum.splits)

lemma tally_total: "critical_count (tally fs n) + warning_count (tally fs n) + info_count (tally fs n) = length fs"
  by (induction fs) (auto simp: tally_def)

text \<open>C26: the gates pass exactly when no changed symbol that was found lies in a community with an auth-critical name
  and none lies in a file with two or more unresolved imports; nothing else can fail them. Every flag is counted
  once. The assessment is never complete: the gate for unsafe code is skipped for every symbol that is found, and
  a symbol that is not found, or no symbol at all, is incomplete too.\<close>

theorem gates_verdict_exact:
  assumes "check_gates store prepared inputs = Inr r"
  shows "(gates_passed r \<longleftrightarrow> (\<forall>input \<in> set inputs. \<forall>qn. resolve_qualified_name store input = Inr qn \<longrightarrow>
       \<not> touches_auth store prepared qn \<and> \<not> many_unresolved store qn)) \<and>
    critical_count (summary r) + warning_count (summary r) + info_count (summary r) = length (flags r) \<and>
    \<not> assessment_complete r"
proof -
  let ?rs = "resolve_all store inputs"
  obtain fs where fs: "gates_for store prepared (find_auth_communities store) ?rs = Inr fs"
    and r: "r = \<lparr>gates_passed = (critical_count (tally (fs @ concat (map unresolved_flag ?rs)) (length inputs)) = 0),
      flags = fs @ concat (map unresolved_flag ?rs), summary = tally (fs @ concat (map unresolved_flag ?rs)) (length inputs)\<rparr>"
    using assms by (auto simp: check_gates_def Let_def split: sum.splits)
  have "filter critical (concat (map unresolved_flag ?rs)) = []" by (simp add: filter_concat comp_def other_gates)
  moreover have "critical_count (tally gs n) = length (filter critical gs)" for gs n by (simp add: tally_def critical_def [abs_def])
  ultimately have "gates_passed r \<longleftrightarrow> filter critical fs = []" by (simp add: r)
  also have "\<dots> \<longleftrightarrow> (\<forall>input \<in> set inputs. \<forall>qn. resolve_qualified_name store input = Inr qn \<longrightarrow>
       \<not> touches_auth store prepared qn \<and> \<not> many_unresolved store qn)"
    unfolding gates_for_critical [OF fs] by (auto simp: resolve_all_def)
  moreover have "\<not> assessment_complete r"
  proof (cases inputs)
    case Nil
    then show ?thesis by (simp add: assessment_complete_def r tally_def)
  next
    case (Cons input rest)
    show ?thesis
    proof (cases "resolve_qualified_name store input")
      case (Inl suggestions)
      then have "(input, Inl suggestions) \<in> set ?rs" by (simp add: resolve_all_def Cons)
      then have "set (unresolved_flag (input, Inl suggestions)) \<subseteq> set (flags r)" by (auto simp: r)
      then have "\<exists>f \<in> set (flags r). gate f = ''input_unresolved''" by (simp add: unresolved_flag_def) (metis SecurityFlag.select_convs(1))
      then show ?thesis by (auto simp: assessment_complete_def list_ex_iff)
    next
      case (Inr qn)
      then have "(input, Inr qn) \<in> set ?rs" by (simp add: resolve_all_def Cons)
      then have "set (run_s2 qn) \<subseteq> set (flags r)" using gates_for_skip [OF fs] by (auto simp: r)
      then have "\<exists>f \<in> set (flags r). get (details f) ''skipped'' = Some (JBool True)"
        by (simp add: run_s2_def) (metis SecurityFlag.select_convs(5) get_simps(2))
      then show ?thesis by (auto simp: assessment_complete_def list_ex_iff)
    qed
  qed
  ultimately show ?thesis using tally_total by (simp add: r)
qed

text \<open>A store with one symbol, \<open>login\<close>, in the community \<open>c1\<close> of a symbol \<open>verify_token\<close>.\<close>

definition demo_gate_store :: store where
  "demo_gate_store q =
     (if starts_with q ''MATCH (n:Function) WHERE n.qualified_name = '' then Inr [[''m.rs::login'']]
      else if starts_with q ''MATCH (s:Function)-[:MemberOf'' then Inr [[''Verify_Token'', ''c1'']]
      else Inr [])"

definition demo_gate_prepared :: "string \<Rightarrow> string \<Rightarrow> string + string list list" where
  "demo_gate_prepared q v = Inr [[''c1'', ''community'', ''2'']]"

lemma gates_verdict_exact_witness:
  "\<exists>r. check_gates demo_gate_store demo_gate_prepared [''m.rs::login''] = Inr r \<and> \<not> gates_passed r \<and> \<not> assessment_complete r"
proof -
  have sep: "exact_match_qn demo_gate_store ''m.rs::login'' = Some ''m.rs::login''"
    by (simp add: exact_match_qn_def SEARCHABLE_LABELS_def demo_gate_store_def first_cell_of_def rows_of_def starts_with_def Let_def)
  then have res: "resolve_qualified_name demo_gate_store ''m.rs::login'' = Inr ''m.rs::login''"
    by (simp add: resolve_qualified_name_def Let_def)
  have src: "import_source_file demo_gate_store ''m.rs::login'' = Inr None"
    by (simp add: import_source_file_def demo_gate_store_def starts_with_def map_filter_def)
  then obtain r where r: "check_gates demo_gate_store demo_gate_prepared [''m.rs::login''] = Inr r"
    by (simp add: check_gates_def resolve_all_def res run_s4_def Let_def)
  have "auth_critical ''Verify_Token''" by code_simp
  then have "''c1'' \<in> find_auth_communities demo_gate_store"
    unfolding find_auth_communities_def
    by (auto simp: SYMBOL_LABELS_def demo_gate_store_def rows_of_def starts_with_def)
  moreover have "community_of demo_gate_prepared ''m.rs::login'' = Some ''c1''"
    by (simp add: community_of_def SYMBOL_LABELS_def member_community_def demo_gate_prepared_def)
  ultimately have "touches_auth demo_gate_store demo_gate_prepared ''m.rs::login''" by (auto simp: touches_auth_def)
  then show ?thesis using gates_verdict_exact [OF r] r res by auto
qed

end
