(* ===== verification/Zera.thy ===== *)
theory Zera
  imports Prelude "HOL-Library.Product_Lexorder" "HOL-Library.Multiset"
begin

text \<open>
  The crate \<open>zera\<close> (\<open>crates/zera/src/\<close>): a graph in canonical form and its content hash with the HELLO exchange
  (\<open>lib.rs\<close>), the codebook and the graph encoded against it (\<open>codebook.rs\<close>), and the grammar that leaves out the
  reverse of a symmetric edge (\<open>grammar.rs\<close>). Parameters: BLAKE3, the length of a value as JSON, and the order in
  which a hash map gives its keys. The sizes after zstd are not modelled.
\<close>

section \<open>The canonical graph and its hash\<close>

record NodeRef =
  node_id :: string
  node_label :: string

record EdgeRef =
  edge_from :: string
  edge_to :: string
  edge_kind :: string

record GraphState =
  state_nodes :: "NodeRef list"
  state_edges :: "EdgeRef list"

definition node_key :: "NodeRef \<Rightarrow> string \<times> string" where
  "node_key n = (node_label n, node_id n)"

definition edge_key :: "EdgeRef \<Rightarrow> string \<times> string \<times> string" where
  "edge_key e = (edge_kind e, edge_from e, edge_to e)"

definition new_state :: "NodeRef list \<Rightarrow> EdgeRef list \<Rightarrow> GraphState" where
  "new_state ns es = \<lparr>state_nodes = dedup_adj (sort_key node_key ns), state_edges = dedup_adj (sort_key edge_key es)\<rparr>"

text \<open>\<open>(n as u64).to_le_bytes()\<close>, and a text after its length.\<close>

definition u64_le :: "nat \<Rightarrow> string" where
  "u64_le n = map (\<lambda>i. char_of (n div 256 ^ i)) [0..<8]"

definition prefixed :: "string \<Rightarrow> string" where
  "prefixed s = u64_le (length s) @ s"

definition node_bytes :: "NodeRef \<Rightarrow> string" where
  "node_bytes n = prefixed (node_label n) @ prefixed (node_id n)"

definition edge_bytes :: "EdgeRef \<Rightarrow> string" where
  "edge_bytes e = prefixed (edge_kind e) @ prefixed (edge_from e) @ prefixed (edge_to e)"

definition counted :: "('a \<Rightarrow> string) \<Rightarrow> 'a list \<Rightarrow> string" where
  "counted f xs = u64_le (length xs) @ concat (map f xs)"

definition state_bytes :: "GraphState \<Rightarrow> string" where
  "state_bytes g = counted node_bytes (state_nodes g) @ counted edge_bytes (state_edges g)"

definition hex_encode :: "string \<Rightarrow> string" where
  "hex_encode bytes = concat (map (\<lambda>b. [''0123456789abcdef'' ! (byte b div 16), ''0123456789abcdef'' ! (byte b mod 16)]) bytes)"

definition state_content_id :: "(string \<Rightarrow> string) \<Rightarrow> GraphState \<Rightarrow> string" where
  "state_content_id blake3 g = hex_encode (blake3 (state_bytes g))"

record Histograms =
  by_label :: "(string \<times> nat) list"
  by_kind :: "(string \<times> nat) list"

definition bump :: "string \<Rightarrow> (string \<times> nat) list \<Rightarrow> (string \<times> nat) list" where
  "bump k m = btree_insert k (Suc (case map_of m k of Some n \<Rightarrow> n | None \<Rightarrow> 0)) m"

definition state_histograms :: "GraphState \<Rightarrow> Histograms" where
  "state_histograms g = \<lparr>by_label = foldl (\<lambda>m n. bump (node_label n) m) [] (state_nodes g),
     by_kind = foldl (\<lambda>m e. bump (edge_kind e) m) [] (state_edges g)\<rparr>"

record HelloRequest =
  cached_graph_ids :: "string list"
  cached_codebook_ids :: "string list"
  cached_grammar_id :: "string option"

record HelloResponse =
  graph_id :: string
  cache_hit :: bool
  baseline_json_bytes :: nat
  manifest_bytes :: nat
  node_count :: nat
  edge_count :: nat
  histograms :: Histograms
  zera_version :: string

definition hello :: "(string \<Rightarrow> string) \<Rightarrow> (GraphState \<Rightarrow> nat) \<Rightarrow> (HelloResponse \<Rightarrow> nat) \<Rightarrow> GraphState \<Rightarrow> HelloRequest \<Rightarrow> HelloResponse" where
  "hello blake3 state_size response_size g req =
     (let gid = state_content_id blake3 g;
          resp = \<lparr>graph_id = gid, cache_hit = gid \<in> set (cached_graph_ids req), baseline_json_bytes = state_size g,
            manifest_bytes = 0, node_count = length (state_nodes g), edge_count = length (state_edges g),
            histograms = state_histograms g, zera_version = ''0.0.1''\<rparr> in
      resp\<lparr>manifest_bytes := response_size resp\<rparr>)"

section \<open>The codebook\<close>

record Codebook =
  labels :: "string list"
  kinds :: "string list"
  id_prefixes :: "string list"

text \<open>The prefix of an id up to its first colon.\<close>

definition colon_prefix :: "NodeRef \<Rightarrow> string option" where
  "colon_prefix n = (case find_str '':'' (node_id n) of Some colon \<Rightarrow> Some (take (colon + 1) (node_id n)) | None \<Rightarrow> None)"

definition prefix_count :: "NodeRef list \<Rightarrow> string \<Rightarrow> nat" where
  "prefix_count ns p = length (filter (\<lambda>n. colon_prefix n = Some p) ns)"

definition extract_common_prefixes :: "(string list \<Rightarrow> string list) \<Rightarrow> NodeRef list \<Rightarrow> string list" where
  "extract_common_prefixes iterate ns =
     (let threshold = max (length ns) 1 div 50 in
      sort_key (\<lambda>p. - int (prefix_count ns p))
        (filter (\<lambda>p. threshold < prefix_count ns p) (iterate (remdups (List.map_filter colon_prefix ns)))))"

fun first_seen :: "string list \<Rightarrow> string list \<Rightarrow> string list" where
  "first_seen [] seen = seen"
| "first_seen (x # xs) seen = first_seen xs (if x \<in> set seen then seen else seen @ [x])"

definition from_graph :: "(string list \<Rightarrow> string list) \<Rightarrow> GraphState \<Rightarrow> Codebook" where
  "from_graph iterate g =
     \<lparr>labels = sort (first_seen (map node_label (state_nodes g)) []), kinds = sort (first_seen (map edge_kind (state_edges g)) []),
      id_prefixes = extract_common_prefixes iterate (state_nodes g)\<rparr>"

definition codebook_bytes :: "Codebook \<Rightarrow> string" where
  "codebook_bytes c = counted prefixed (labels c) @ counted prefixed (kinds c) @ counted prefixed (id_prefixes c)"

definition codebook_content_id :: "(string \<Rightarrow> string) \<Rightarrow> Codebook \<Rightarrow> string" where
  "codebook_content_id blake3 c = hex_encode (blake3 (codebook_bytes c))"

record EncNode =
  enc_l :: nat
  enc_p :: "nat option"
  enc_s :: string

record EncEdge =
  enc_k :: nat
  enc_fp :: "nat option"
  enc_fs :: string
  enc_tp :: "nat option"
  enc_ts :: string

record EncodedGraph =
  codebook_id :: string
  enc_nodes :: "EncNode list"
  enc_edges :: "EncEdge list"

fun idx_of :: "string list \<Rightarrow> string \<Rightarrow> nat option" where
  "idx_of [] needle = None"
| "idx_of (s # palette) needle = (if s = needle then Some 0 else map_option Suc (idx_of palette needle))"

definition as_u32 :: "nat \<Rightarrow> nat" where
  "as_u32 n = n mod 2 ^ 32"

fun split_prefix_from :: "nat \<Rightarrow> string list \<Rightarrow> string \<Rightarrow> nat option \<times> string" where
  "split_prefix_from i [] text_id = (None, text_id)"
| "split_prefix_from i (p # prefixes) text_id =
     (case strip_prefix text_id p of Some stripped \<Rightarrow> (Some (as_u32 i), stripped) | None \<Rightarrow> split_prefix_from (i + 1) prefixes text_id)"

definition split_prefix :: "string list \<Rightarrow> string \<Rightarrow> nat option \<times> string" where
  "split_prefix prefixes text_id = split_prefix_from 0 prefixes text_id"

text \<open>\<open>None\<close>: the panic of \<open>expect\<close>.\<close>

definition encode_node :: "Codebook \<Rightarrow> NodeRef \<Rightarrow> EncNode option" where
  "encode_node c n = (case idx_of (labels c) (node_label n) of
      None \<Rightarrow> None
    | Some l \<Rightarrow> (let (p, s) = split_prefix (id_prefixes c) (node_id n) in Some \<lparr>enc_l = as_u32 l, enc_p = p, enc_s = s\<rparr>))"

definition encode_edge :: "Codebook \<Rightarrow> EdgeRef \<Rightarrow> EncEdge option" where
  "encode_edge c e = (case idx_of (kinds c) (edge_kind e) of
      None \<Rightarrow> None
    | Some k \<Rightarrow>
        (let (fp, fs) = split_prefix (id_prefixes c) (edge_from e); (tp, ts) = split_prefix (id_prefixes c) (edge_to e) in
         Some \<lparr>enc_k = as_u32 k, enc_fp = fp, enc_fs = fs, enc_tp = tp, enc_ts = ts\<rparr>))"

fun all_some :: "'a option list \<Rightarrow> 'a list option" where
  "all_some [] = Some []"
| "all_some (None # xs) = None"
| "all_some (Some x # xs) = map_option ((#) x) (all_some xs)"

definition encode_graph :: "(string \<Rightarrow> string) \<Rightarrow> GraphState \<Rightarrow> Codebook \<Rightarrow> EncodedGraph option" where
  "encode_graph blake3 g c =
     (case all_some (map (encode_node c) (state_nodes g)) of
        None \<Rightarrow> None
      | Some ns \<Rightarrow>
          (case all_some (map (encode_edge c) (state_edges g)) of
             None \<Rightarrow> None
           | Some es \<Rightarrow> Some \<lparr>codebook_id = codebook_content_id blake3 c, enc_nodes = ns, enc_edges = es\<rparr>))"

section \<open>The grammar\<close>

datatype Rule = SymmetricClosure "string list"

definition for_cortex_memory :: "Rule list" where
  "for_cortex_memory = [SymmetricClosure [''co_occurrence'', ''correlates_with'']]"

definition is_symmetric :: "Rule list \<Rightarrow> string \<Rightarrow> bool" where
  "is_symmetric rules kind \<longleftrightarrow> list_ex (\<lambda>r. case r of SymmetricClosure ks \<Rightarrow> kind \<in> set ks) rules"

definition canon :: "EdgeRef \<Rightarrow> string \<times> string \<times> string" where
  "canon e = (if edge_from e \<le> edge_to e then (edge_kind e, edge_from e, edge_to e) else (edge_kind e, edge_to e, edge_from e))"

fun bidirectional :: "Rule list \<Rightarrow> EdgeRef list \<Rightarrow> (string \<times> string \<times> string) set \<Rightarrow> (string \<times> string \<times> string) set
    \<Rightarrow> (string \<times> string \<times> string) set" where
  "bidirectional rules [] seen_once both = both"
| "bidirectional rules (e # es) seen_once both =
     (if \<not> is_symmetric rules (edge_kind e) \<or> edge_from e = edge_to e then bidirectional rules es seen_once both
      else if canon e \<in> seen_once then bidirectional rules es seen_once (insert (canon e) both)
      else bidirectional rules es (insert (canon e) seen_once) both)"

fun emit :: "Rule list \<Rightarrow> (string \<times> string \<times> string) set \<Rightarrow> EdgeRef list \<Rightarrow> (string \<times> string \<times> string) set
    \<Rightarrow> EdgeRef list \<times> nat list \<times> EdgeRef list \<Rightarrow> EdgeRef list \<times> nat list \<times> EdgeRef list" where
  "emit rules both [] emitted out = out"
| "emit rules both (e # es) emitted (base, idx, derivable) =
     (if is_symmetric rules (edge_kind e) \<and> edge_from e \<noteq> edge_to e then
        (if canon e \<in> emitted then emit rules both es emitted (base, idx, derivable @ [e])
         else emit rules both es (insert (canon e) emitted)
           (base @ [e], (if canon e \<in> both then idx @ [as_u32 (length base)] else idx), derivable))
      else emit rules both es emitted (base @ [e], idx, derivable))"

definition split_edges :: "Rule list \<Rightarrow> EdgeRef list \<Rightarrow> EdgeRef list \<times> nat list \<times> EdgeRef list" where
  "split_edges rules es = emit rules (bidirectional rules es {} {}) es {} ([], [], [])"

definition reverse_edge :: "EdgeRef \<Rightarrow> EdgeRef" where
  "reverse_edge e = \<lparr>edge_from = edge_to e, edge_to = edge_from e, edge_kind = edge_kind e\<rparr>"

definition derive_edges :: "EdgeRef list \<Rightarrow> nat list \<Rightarrow> EdgeRef list" where
  "derive_edges base idx = List.map_filter (\<lambda>i. if i < length base then Some (reverse_edge (base ! i)) else None) idx"

definition round_trip_check :: "Rule list \<Rightarrow> GraphState \<Rightarrow> bool \<times> nat \<times> nat" where
  "round_trip_check rules g =
     (let (base, idx, dropped) = split_edges rules (state_edges g);
          combined = edge_key ` set base \<union> edge_key ` set (derive_edges base idx);
          original = edge_key ` set (state_edges g) in
      (combined = original, card original, card combined))"

section \<open>The grammar loses nothing\<close>

definition sym_edge :: "Rule list \<Rightarrow> EdgeRef \<Rightarrow> bool" where
  "sym_edge rules e \<longleftrightarrow> is_symmetric rules (edge_kind e) \<and> edge_from e \<noteq> edge_to e"

lemma inj_edge_key: "inj edge_key"
  by (rule injI) (simp add: edge_key_def)

lemma inj_node_key: "inj node_key"
  by (rule injI) (simp add: node_key_def)

lemma canon_eq: "canon e = canon f \<longleftrightarrow> e = f \<or> e = reverse_edge f"
  by (cases e; cases f) (auto simp: canon_def reverse_edge_def)

lemma reverse_edge_simps [simp]: "reverse_edge (reverse_edge e) = e" "sym_edge rules (reverse_edge e) = sym_edge rules e"
  "canon (reverse_edge e) = canon e" "reverse_edge e = e \<longleftrightarrow> edge_from e = edge_to e"
  by (cases e; auto simp: reverse_edge_def sym_edge_def canon_def)+

lemma bidirectional_exact:
  "c \<in> bidirectional rules es seen both \<longleftrightarrow>
     c \<in> both \<or> (let n = length (filter (\<lambda>e. sym_edge rules e \<and> canon e = c) es) in 2 \<le> n \<or> c \<in> seen \<and> 1 \<le> n)"
  by (induction rules es seen both rule: bidirectional.induct) (auto simp: Let_def sym_edge_def)

definition idx_ok :: "Rule list \<Rightarrow> (string \<times> string \<times> string) set \<Rightarrow> EdgeRef list \<Rightarrow> nat list \<Rightarrow> bool" where
  "idx_ok rules both base idx \<longleftrightarrow> set idx = {i. i < length base \<and> sym_edge rules (base ! i) \<and> canon (base ! i) \<in> both}"

lemma idx_ok_snoc:
  "idx_ok rules both base idx \<Longrightarrow> length base < 2 ^ 32 \<Longrightarrow>
     idx_ok rules both (base @ [e]) (if sym_edge rules e \<and> canon e \<in> both then idx @ [as_u32 (length base)] else idx)"
proof -
  assume ok: "idx_ok rules both base idx" and "length base < 2 ^ 32"
  then have u: "as_u32 (length base) = length base" by (simp add: as_u32_def)
  have "{i. i < length (base @ [e]) \<and> sym_edge rules ((base @ [e]) ! i) \<and> canon ((base @ [e]) ! i) \<in> both} =
      {i. i < length base \<and> sym_edge rules (base ! i) \<and> canon (base ! i) \<in> both} \<union>
      {i. i = length base \<and> sym_edge rules e \<and> canon e \<in> both}"
    by (auto simp: nth_append less_Suc_eq)
  then show ?thesis using ok by (auto simp: idx_ok_def u)
qed

lemma sym_edge_irrefl: "sym_edge rules e \<Longrightarrow> reverse_edge e \<noteq> e"
  by (simp add: sym_edge_def)

definition kept :: "Rule list \<Rightarrow> EdgeRef list \<Rightarrow> EdgeRef \<Rightarrow> bool" where
  "kept rules es e \<longleftrightarrow> (if sym_edge rules e then find (\<lambda>f. sym_edge rules f \<and> canon f = canon e) es = Some e else e \<in> set es)"

lemma emit_exact:
  "emit rules both es emitted (base, idx, der) = (base', idx', der') \<Longrightarrow> idx_ok rules both base idx \<Longrightarrow>
     length base + length es \<le> 2 ^ 32 \<Longrightarrow>
     idx_ok rules both base' idx' \<and> mset base' + mset der' = mset base + mset der + mset es \<and>
     (\<forall>e. e \<in> set base' \<longleftrightarrow> e \<in> set base \<or> (kept rules es e \<and> \<not> (sym_edge rules e \<and> canon e \<in> emitted)))"
proof (induction es arbitrary: emitted base idx der)
  case (Cons e es)
  note ok = idx_ok_snoc [OF Cons.prems(2), of e]
  consider (plain) "\<not> sym_edge rules e" | (again) "sym_edge rules e" "canon e \<in> emitted" | (fresh) "sym_edge rules e" "canon e \<notin> emitted" by blast
  then show ?case
  proof cases
    case plain
    then have "emit rules both es emitted (base @ [e], idx, der) = (base', idx', der')"
      using Cons.prems(1) by (auto simp: sym_edge_def)
    from Cons.IH [OF this] ok plain Cons.prems(3) show ?thesis by (auto simp: kept_def)
  next
    case again
    then have "emit rules both es emitted (base, idx, der @ [e]) = (base', idx', der')"
      using Cons.prems(1) by (auto simp: sym_edge_def)
    from Cons.IH [OF this Cons.prems(2)] again Cons.prems(3) show ?thesis by (auto simp: kept_def)
  next
    case fresh
    then have "emit rules both es (insert (canon e) emitted)
        (base @ [e], (if canon e \<in> both then idx @ [as_u32 (length base)] else idx), der) = (base', idx', der')"
      using Cons.prems(1) by (auto simp: sym_edge_def)
    from Cons.IH [OF this] ok fresh Cons.prems(3) show ?thesis by (auto simp: kept_def)
  qed
qed (simp add: kept_def)

lemma derive_exact:
  assumes "idx_ok rules both base idx"
  shows "set (derive_edges base idx) = reverse_edge ` {e \<in> set base. sym_edge rules e \<and> canon e \<in> both}"
proof -
  have "set (derive_edges base idx) = (\<lambda>i. reverse_edge (base ! i)) ` {i \<in> set idx. i < length base}"
    by (auto simp: derive_edges_def map_filter_def split: if_splits)
  also have "\<dots> = reverse_edge ` {e \<in> set base. sym_edge rules e \<and> canon e \<in> both}"
    using assms by (auto simp: idx_ok_def in_set_conv_nth image_iff)
  finally show ?thesis .
qed

lemma count_pair:
  "sym_edge rules e \<Longrightarrow>
     length (filter (\<lambda>f. sym_edge rules f \<and> canon f = canon e) es) = count_list es e + count_list es (reverse_edge e)"
proof (induction es)
  case (Cons f es)
  have "canon f = canon e \<Longrightarrow> sym_edge rules f" using Cons.prems by (auto simp: canon_eq)
  moreover have "reverse_edge e \<noteq> e" using Cons.prems by (simp add: sym_edge_def)
  ultimately show ?case using Cons by (auto simp: canon_eq)
qed simp

lemma count_list_pos: "1 \<le> count_list xs x \<longleftrightarrow> x \<in> set xs"
  by (metis One_nat_def Suc_le_eq count_list_0_iff gr0I less_irrefl)

text \<open>What the server ships and what the client derives from it.\<close>

definition shipped :: "Rule list \<Rightarrow> EdgeRef list \<Rightarrow> EdgeRef list \<Rightarrow> nat list \<Rightarrow> EdgeRef list \<Rightarrow> bool" where
  "shipped rules es base idx derivable \<longleftrightarrow> split_edges rules es = (base, idx, derivable) \<and> length es \<le> 2 ^ 32"

lemma shipped_exact:
  assumes "shipped rules es base idx derivable"
  shows "idx_ok rules (bidirectional rules es {} {}) base idx" "mset base + mset derivable = mset es"
    "\<And>e. e \<in> set base \<longleftrightarrow> kept rules es e"
  using emit_exact [of rules "bidirectional rules es {} {}" es "{}" "[]" "[]" "[]" base idx derivable] assms
  by (auto simp: split_edges_def idx_ok_def shipped_def)

lemma kept_in: "kept rules es f \<Longrightarrow> f \<in> set es"
  by (auto simp: kept_def find_Some_iff split: if_splits)

lemma first_kept:
  assumes "e \<in> set es" "sym_edge rules e"
  obtains f where "kept rules es f" "f = e \<or> f = reverse_edge e"
proof -
  have "find (\<lambda>f. sym_edge rules f \<and> canon f = canon e) es \<noteq> None"
    using assms by (auto simp: find_None_iff)
  then obtain f where f: "find (\<lambda>f. sym_edge rules f \<and> canon f = canon e) es = Some f" by auto
  then have "sym_edge rules f" "canon f = canon e" by (auto simp: find_Some_iff)
  moreover from this f have "kept rules es f" by (simp add: kept_def)
  ultimately show ?thesis using that canon_eq by metis
qed

lemma derived:
  assumes "shipped rules es base idx derivable"
  shows "set (derive_edges base idx) =
    reverse_edge ` {f. kept rules es f \<and> sym_edge rules f \<and> 2 \<le> count_list es f + count_list es (reverse_edge f)}"
  unfolding derive_exact [OF shipped_exact(1) [OF assms]] bidirectional_exact
  by (auto simp: count_pair Let_def shipped_exact(3) [OF assms])

lemma shipped_covers:
  assumes S: "shipped rules es base idx derivable"
  shows "set es \<subseteq> set base \<union> set (derive_edges base idx)"
proof
  fix e assume e: "e \<in> set es"
  show "e \<in> set base \<union> set (derive_edges base idx)"
  proof (cases "sym_edge rules e")
    case True
    from first_kept [OF e True] obtain f where f: "kept rules es f" "f = e \<or> f = reverse_edge e" .
    show ?thesis
    proof (cases "f = e")
      case False
      with f have fe: "f = reverse_edge e" by simp
      have "1 \<le> count_list es e" "1 \<le> count_list es f" using e kept_in [OF f(1)] by (simp_all only: count_list_pos)
      then have "reverse_edge f \<in> set (derive_edges base idx)"
        unfolding derived [OF S] using f(1) True by (intro imageI) (simp add: fe)
      then show ?thesis by (simp add: fe)
    qed (use f shipped_exact(3) [OF S] in simp)
  qed (use e shipped_exact(3) [OF S] in \<open>simp add: kept_def\<close>)
qed

lemma shipped_round_trip:
  assumes S: "shipped rules es base idx derivable"
  shows "set base \<union> set (derive_edges base idx) = set es \<longleftrightarrow>
     (\<forall>e \<in> set es. sym_edge rules e \<and> 2 \<le> count_list es e \<longrightarrow> reverse_edge e \<in> set es)" (is "_ \<longleftrightarrow> ?R")
proof
  assume eq: "set base \<union> set (derive_edges base idx) = set es"
  show ?R
  proof (intro ballI impI)
    fix e assume e: "e \<in> set es" "sym_edge rules e \<and> 2 \<le> count_list es e"
    then obtain f where f: "kept rules es f" "f = e \<or> f = reverse_edge e" using first_kept by blast
    then show "reverse_edge e \<in> set es"
    proof (cases "f = reverse_edge e")
      case False
      with f e have "reverse_edge e \<in> set (derive_edges base idx)" unfolding derived [OF S] by (intro imageI) auto
      with eq show ?thesis by blast
    qed (use kept_in [OF f(1)] in simp)
  qed
next
  assume R: ?R
  have "reverse_edge f \<in> set es" if "kept rules es f" "sym_edge rules f" "2 \<le> count_list es f + count_list es (reverse_edge f)" for f
  proof (cases "1 \<le> count_list es (reverse_edge f)")
    case False
    with that R kept_in [OF that(1)] show ?thesis by auto
  qed (simp only: count_list_pos)
  then have "set (derive_edges base idx) \<subseteq> set es" unfolding derived [OF S] by blast
  moreover have "set base \<subseteq> set es" using shipped_exact(3) [OF S] kept_in by blast
  ultimately show "set base \<union> set (derive_edges base idx) = set es" using shipped_covers [OF S] by blast
qed

lemma derived_dropped:
  assumes S: "shipped rules es base idx derivable" and "distinct es"
  shows "set (derive_edges base idx) = set derivable"
proof -
  have one: "count_list es f \<le> 1" for f
    using assms(2) distinct_count_atmost_1 [of es] by (simp add: count_mset [symmetric] split: if_splits)
  then have "\<not> 2 \<le> count_list es f" for f by (metis Suc_1 not_less_eq_eq One_nat_def)
  then have "set base \<union> set (derive_edges base idx) = set es" unfolding shipped_round_trip [OF S] by blast
  moreover have "distinct (base @ derivable)"
    using assms(2) shipped_exact(2) [OF S] by (metis mset_append mset_eq_imp_distinct_iff)
  moreover have "set base \<union> set derivable = set es" using shipped_exact(2) [OF S] by (metis set_mset_mset set_mset_union)
  moreover have "reverse_edge f \<notin> set base" if "kept rules es f" "sym_edge rules f" for f
    using that unfolding shipped_exact(3) [OF S] by (auto simp: kept_def sym_edge_irrefl dest!: sym_edge_irrefl)
  then have "set (derive_edges base idx) \<inter> set base = {}" unfolding derived [OF S] by blast
  ultimately show ?thesis by auto
qed

text \<open>C2: the grammar is checked to lose nothing exactly when a symmetric edge that is listed twice has its reverse in
  the list as well; a graph in canonical form lists no edge twice, so it always passes, and there the client derives
  precisely the edges that the server left out.\<close>

theorem grammar_round_trip:
  assumes "length (state_edges g) \<le> 2 ^ 32"
  shows "(fst (round_trip_check rules g) \<longleftrightarrow>
      (\<forall>e \<in> set (state_edges g). sym_edge rules e \<and> 2 \<le> count_list (state_edges g) e \<longrightarrow> reverse_edge e \<in> set (state_edges g))) \<and>
    (\<forall>ns es base idx derivable. g = new_state ns es \<longrightarrow> split_edges rules (state_edges g) = (base, idx, derivable) \<longrightarrow>
      fst (round_trip_check rules g) \<and> set (derive_edges base idx) = set derivable \<and>
      length base + length derivable = length (state_edges g))"
proof -
  obtain base idx derivable where sp: "split_edges rules (state_edges g) = (base, idx, derivable)" by (metis prod_cases3)
  then have S: "shipped rules (state_edges g) base idx derivable" using assms by (simp add: shipped_def)
  have check: "fst (round_trip_check rules g) \<longleftrightarrow> set base \<union> set (derive_edges base idx) = set (state_edges g)"
    using inj_image_eq_iff [OF inj_edge_key] by (simp add: round_trip_check_def sp Let_def image_Un [symmetric])
  have "fst (round_trip_check rules g) \<and> set (derive_edges base idx) = set derivable \<and> length base + length derivable = length (state_edges g)"
    if "g = new_state ns es" for ns es
  proof -
    have d: "distinct (state_edges g)"
      unfolding that new_state_def by (auto intro!: distinct_dedup_adj [of edge_key] intro: inj_on_subset [OF inj_edge_key])
    then have "count_list (state_edges g) e \<le> 1" for e
      using distinct_count_atmost_1 [of "state_edges g"] by (simp add: count_mset [symmetric] split: if_splits)
    then have "\<not> 2 \<le> count_list (state_edges g) e" for e by (metis Suc_1 not_less_eq_eq One_nat_def)
    moreover have "length base + length derivable = length (state_edges g)"
      using arg_cong [OF shipped_exact(2) [OF S], of size] by simp
    ultimately show ?thesis using derived_dropped [OF S d] unfolding check shipped_round_trip [OF S] by blast
  qed
  then show ?thesis unfolding check shipped_round_trip [OF S] using sp by auto
qed

lemma grammar_round_trip_witness:
  "\<not> fst (round_trip_check for_cortex_memory \<lparr>state_nodes = [], state_edges = replicate 2 \<lparr>edge_from = ''a'', edge_to = ''b'', edge_kind = ''co_occurrence''\<rparr>\<rparr>)"
proof -
  let ?e = "\<lparr>edge_from = ''a'', edge_to = ''b'', edge_kind = ''co_occurrence''\<rparr>"
  let ?g = "\<lparr>state_nodes = [], state_edges = replicate 2 ?e\<rparr>"
  have "sym_edge for_cortex_memory ?e \<and> 2 \<le> count_list (state_edges ?g) ?e" "reverse_edge ?e \<notin> set (state_edges ?g)"
    "?e \<in> set (state_edges ?g)"
    by (simp_all add: sym_edge_def is_symmetric_def for_cortex_memory_def reverse_edge_def numeral_2_eq_2)
  moreover have "length (state_edges ?g) \<le> 2 ^ 32" by simp
  ultimately show ?thesis using grammar_round_trip [of ?g for_cortex_memory] by blast
qed

section \<open>The bytes that are hashed\<close>

lemma length_u64_le [simp]: "length (u64_le n) = 8"
  by (simp add: u64_le_def)

lemma u64_le_inj:
  assumes "u64_le m = u64_le n" "m < 2 ^ 64" "n < 2 ^ 64"
  shows "m = n"
proof -
  have digits: "m div 256 ^ i mod 256 = n div 256 ^ i mod 256" if "i < 8" for i
  proof -
    have "u64_le m ! i = u64_le n ! i" by (simp add: assms(1))
    with that have "(char_of (m div 256 ^ i) :: char) = char_of (n div 256 ^ i)" by (simp add: u64_le_def)
    then show ?thesis by (metis of_char_of)
  qed
  have "m mod 256 ^ i = n mod 256 ^ i" if "i \<le> 8" for i
    using that
  proof (induction i)
    case (Suc i)
    have step: "k mod 256 ^ Suc i = 256 ^ i * (k div 256 ^ i mod 256) + k mod 256 ^ i" for k :: nat
      using mod_mult2_eq [of k "256 ^ i" 256] by (simp only: power_Suc2)
    from Suc digits [of i] show ?case unfolding step by simp
  qed simp
  from this [of 8] show ?thesis using assms(2,3) by simp
qed

text \<open>A text of bytes that can be cut off the front again; \<open>fits x\<close>: no length in \<open>x\<close> exceeds a \<open>u64\<close>.\<close>

definition self_delimiting :: "('a \<Rightarrow> bool) \<Rightarrow> ('a \<Rightarrow> string) \<Rightarrow> bool" where
  "self_delimiting fits f \<longleftrightarrow> (\<forall>x y r s. fits x \<longrightarrow> fits y \<longrightarrow> f x @ r = f y @ s \<longrightarrow> x = y \<and> r = s)"

lemma self_delimitingD:
  "self_delimiting fits f \<Longrightarrow> fits x \<Longrightarrow> fits y \<Longrightarrow> f x @ r = f y @ s \<Longrightarrow> x = y \<and> r = s"
  unfolding self_delimiting_def by blast

definition short :: "'a list \<Rightarrow> bool" where
  "short xs \<longleftrightarrow> length xs < 2 ^ 64"

lemma prefixed_delimits: "self_delimiting short prefixed"
  unfolding self_delimiting_def
proof (intro allI impI)
  fix x y r s :: string
  assume "short x" "short y" and eq: "prefixed x @ r = prefixed y @ s"
  then have "u64_le (length x) = u64_le (length y)" "x @ r = y @ s" by (simp_all add: prefixed_def append_eq_append_conv)
  with \<open>short x\<close> \<open>short y\<close> u64_le_inj [of "length x" "length y"] show "x = y \<and> r = s" by (simp add: short_def)
qed

lemma counted_delimits:
  assumes f: "self_delimiting fits f"
  shows "self_delimiting (\<lambda>xs. short xs \<and> list_all fits xs) (counted f)"
  unfolding self_delimiting_def
proof (intro allI impI)
  fix xs ys r s
  assume xs: "short xs \<and> list_all fits xs" and ys: "short ys \<and> list_all fits ys" and eq: "counted f xs @ r = counted f ys @ s"
  then have "u64_le (length xs) = u64_le (length ys)" and bytes: "concat (map f xs) @ r = concat (map f ys) @ s"
    by (simp_all add: counted_def append_eq_append_conv)
  then have len: "length xs = length ys" using xs ys u64_le_inj by (simp add: short_def)
  have "list_all fits xs \<Longrightarrow> list_all fits ys \<Longrightarrow> concat (map f xs) @ r = concat (map f ys) @ s \<Longrightarrow> xs = ys \<and> r = s"
    using len by (induction xs ys rule: list_induct2) (auto dest: self_delimitingD [OF f])
  then show "xs = ys \<and> r = s" using xs ys bytes by blast
qed

lemma pair_delimits:
  assumes "self_delimiting p f" "self_delimiting q g" "\<And>x y. a x = a y \<Longrightarrow> b x = b y \<Longrightarrow> x = y"
  shows "self_delimiting (\<lambda>x. p (a x) \<and> q (b x)) (\<lambda>x. f (a x) @ g (b x))"
  using assms unfolding self_delimiting_def by (metis append.assoc)

definition node_fits :: "NodeRef \<Rightarrow> bool" where
  "node_fits n \<longleftrightarrow> short (node_label n) \<and> short (node_id n)"

definition edge_fits :: "EdgeRef \<Rightarrow> bool" where
  "edge_fits e \<longleftrightarrow> short (edge_kind e) \<and> short (edge_from e) \<and> short (edge_to e)"

definition state_fits :: "GraphState \<Rightarrow> bool" where
  "state_fits g \<longleftrightarrow> short (state_nodes g) \<and> list_all node_fits (state_nodes g) \<and> short (state_edges g) \<and> list_all edge_fits (state_edges g)"

lemma node_delimits: "self_delimiting node_fits node_bytes"
  unfolding node_bytes_def [abs_def] node_fits_def [abs_def]
  by (rule pair_delimits [OF prefixed_delimits prefixed_delimits]) simp

lemma edge_delimits: "self_delimiting edge_fits edge_bytes"
proof -
  have two: "self_delimiting (\<lambda>x. short (fst x) \<and> short (snd x)) (\<lambda>x. prefixed (fst x) @ prefixed (snd x))"
    by (rule pair_delimits [OF prefixed_delimits prefixed_delimits]) (rule prod_eqI)
  have "self_delimiting (\<lambda>e :: EdgeRef. short (edge_kind e) \<and> short (fst (edge_from e, edge_to e)) \<and> short (snd (edge_from e, edge_to e)))
      (\<lambda>e. prefixed (edge_kind e) @ prefixed (fst (edge_from e, edge_to e)) @ prefixed (snd (edge_from e, edge_to e)) :: string)"
    by (rule pair_delimits [OF prefixed_delimits two, of edge_kind "\<lambda>e. (edge_from e, edge_to e)"]) simp
  then show ?thesis unfolding edge_bytes_def [abs_def] edge_fits_def [abs_def] by simp
qed

lemma state_bytes_inj: "state_bytes g = state_bytes h \<Longrightarrow> state_fits g \<Longrightarrow> state_fits h \<Longrightarrow> g = h"
  using self_delimitingD [OF pair_delimits [OF counted_delimits [OF node_delimits] counted_delimits [OF edge_delimits],
      of state_nodes state_edges], of g h "[]" "[]"]
  by (simp add: state_fits_def state_bytes_def)

lemma dedup_sort_eq:
  assumes "inj f"
  shows "dedup_adj (sort_key f xs) = dedup_adj (sort_key f ys) \<longleftrightarrow> set xs = set ys"
proof
  assume "set xs = set ys"
  have strict: "sorted_wrt (<) (map f (dedup_adj (sort_key f zs)))" for zs
    unfolding strict_sorted_iff distinct_map
    by (intro conjI sorted_dedup_adj distinct_dedup_adj [of f] inj_on_subset [OF assms]) auto
  have "map f (dedup_adj (sort_key f xs)) = map f (dedup_adj (sort_key f ys))"
    by (rule strict_sorted_equal [OF strict strict]) (simp add: \<open>set xs = set ys\<close>)
  then show "dedup_adj (sort_key f xs) = dedup_adj (sort_key f ys)" using assms by (simp add: inj_map_eq_map)
next
  assume "dedup_adj (sort_key f xs) = dedup_adj (sort_key f ys)"
  from arg_cong [OF this, of set] show "set xs = set ys" by simp
qed

text \<open>The bytes that are hashed for a graph tell apart any two graphs that differ in a node or an edge, and only
  those: neither the order nor the repetition of what the constructor is given matters. The same holds for the bytes
  of a codebook, which are hashed in the order of its palettes.\<close>

theorem content_bytes_exact:
  assumes "state_fits (new_state ns es)" "state_fits (new_state ns' es')"
  shows "state_bytes (new_state ns es) = state_bytes (new_state ns' es') \<longleftrightarrow> set ns = set ns' \<and> set es = set es'"
proof -
  have "state_bytes (new_state ns es) = state_bytes (new_state ns' es') \<longleftrightarrow> new_state ns es = new_state ns' es'"
    using state_bytes_inj assms by metis
  then show ?thesis
    by (simp add: new_state_def dedup_sort_eq [OF inj_node_key] dedup_sort_eq [OF inj_edge_key])
qed

lemma content_bytes_exact_witness:
  "state_bytes (new_state [\<lparr>node_id = ''ab'', node_label = ''c''\<rparr>] []) \<noteq> state_bytes (new_state [\<lparr>node_id = ''a'', node_label = ''bc''\<rparr>] [])"
  using content_bytes_exact [of "[\<lparr>node_id = ''ab'', node_label = ''c''\<rparr>]" "[]" "[\<lparr>node_id = ''a'', node_label = ''bc''\<rparr>]" "[]"]
  by (simp add: state_fits_def new_state_def short_def node_fits_def)

section \<open>The codebook\<close>

lemma idx_of_Some: "x \<in> set xs \<Longrightarrow> \<exists>i. idx_of xs x = Some i \<and> i < length xs \<and> xs ! i = x"
  by (induction xs x rule: idx_of.induct) auto

lemma first_seen_set [simp]: "set (first_seen xs seen) = set xs \<union> set seen"
  by (induction xs seen rule: first_seen.induct) auto

text \<open>What a client makes of an index and a suffix.\<close>

definition join_prefix :: "string list \<Rightarrow> nat option \<Rightarrow> string \<Rightarrow> string" where
  "join_prefix prefixes p s = (case p of None \<Rightarrow> s | Some i \<Rightarrow> prefixes ! i @ s)"

definition decode_node :: "Codebook \<Rightarrow> EncNode \<Rightarrow> NodeRef" where
  "decode_node c n = \<lparr>node_id = join_prefix (id_prefixes c) (enc_p n) (enc_s n), node_label = labels c ! enc_l n\<rparr>"

definition decode_edge :: "Codebook \<Rightarrow> EncEdge \<Rightarrow> EdgeRef" where
  "decode_edge c e = \<lparr>edge_from = join_prefix (id_prefixes c) (enc_fp e) (enc_fs e),
     edge_to = join_prefix (id_prefixes c) (enc_tp e) (enc_ts e), edge_kind = kinds c ! enc_k e\<rparr>"

lemma split_prefix_from_join:
  "split_prefix_from i prefixes s = (p, r) \<Longrightarrow> length pre = i \<Longrightarrow> i + length prefixes \<le> 2 ^ 32 \<Longrightarrow>
     join_prefix (pre @ prefixes) p r = s"
proof (induction i prefixes s arbitrary: pre rule: split_prefix_from.induct)
  case (2 i q prefixes s)
  show ?case
  proof (cases "strip_prefix s q")
    case None
    then show ?thesis using 2(1) [OF None, of "pre @ [q]"] 2(2-) by simp
  next
    case (Some stripped)
    moreover have "as_u32 i = i" using 2(4) by (simp add: as_u32_def)
    ultimately have "p = Some i" "r = stripped" "s = q @ stripped" using 2(2) Some by (auto simp: strip_prefix_Some [symmetric])
    then show ?thesis by (simp add: join_prefix_def flip: 2(3))
  qed
qed (simp add: join_prefix_def)

lemma split_prefix_join: "length prefixes \<le> 2 ^ 32 \<Longrightarrow> split_prefix prefixes s = (p, r) \<Longrightarrow> join_prefix prefixes p r = s"
  using split_prefix_from_join [of 0 prefixes s p r "[]"] by (simp add: split_prefix_def)

definition codebook_fits :: "Codebook \<Rightarrow> bool" where
  "codebook_fits c \<longleftrightarrow> length (labels c) \<le> 2 ^ 32 \<and> length (kinds c) \<le> 2 ^ 32 \<and> length (id_prefixes c) \<le> 2 ^ 32"

lemma encode_node_decode:
  assumes "codebook_fits c" "node_label n \<in> set (labels c)"
  shows "\<exists>x. encode_node c n = Some x \<and> decode_node c x = n"
  using idx_of_Some [OF assms(2)] assms(1)
  by (auto simp: encode_node_def decode_node_def codebook_fits_def as_u32_def split_prefix_join split: prod.splits)

lemma encode_edge_decode:
  assumes "codebook_fits c" "edge_kind e \<in> set (kinds c)"
  shows "\<exists>x. encode_edge c e = Some x \<and> decode_edge c x = e"
  using idx_of_Some [OF assms(2)] assms(1)
  by (auto simp: encode_edge_def decode_edge_def codebook_fits_def as_u32_def split_prefix_join split: prod.splits)

lemma all_some_map:
  "(\<And>x. x \<in> set xs \<Longrightarrow> \<exists>y. f x = Some y \<and> g y = x) \<Longrightarrow> \<exists>ys. all_some (map f xs) = Some ys \<and> map g ys = xs"
proof (induction xs)
  case (Cons x xs)
  then obtain y ys where "f x = Some y" "g y = x" "all_some (map f xs) = Some ys" "map g ys = xs" by fastforce
  then show ?case by simp
qed simp

lemma encode_own:
  assumes "codebook_fits (from_graph iterate g)"
  shows "\<exists>enc. encode_graph blake3 g (from_graph iterate g) = Some enc \<and>
    map (decode_node (from_graph iterate g)) (enc_nodes enc) = state_nodes g \<and>
    map (decode_edge (from_graph iterate g)) (enc_edges enc) = state_edges g"
proof -
  let ?c = "from_graph iterate g"
  have nodes: "\<And>n. n \<in> set (state_nodes g) \<Longrightarrow> node_label n \<in> set (labels ?c)" by (simp add: from_graph_def)
  have edges: "\<And>e. e \<in> set (state_edges g) \<Longrightarrow> edge_kind e \<in> set (kinds ?c)" by (simp add: from_graph_def)
  obtain ns where "all_some (map (encode_node ?c) (state_nodes g)) = Some ns" "map (decode_node ?c) ns = state_nodes g"
    using all_some_map [of "state_nodes g" "encode_node ?c" "decode_node ?c"] encode_node_decode [OF assms] nodes by blast
  moreover obtain es where "all_some (map (encode_edge ?c) (state_edges g)) = Some es" "map (decode_edge ?c) es = state_edges g"
    using all_some_map [of "state_edges g" "encode_edge ?c" "decode_edge ?c"] encode_edge_decode [OF assms] edges by blast
  ultimately show ?thesis by (simp add: encode_graph_def)
qed

text \<open>The prefixes that get a slot, and the orders a hash map may give its keys in.\<close>

definition common :: "NodeRef list \<Rightarrow> string set" where
  "common ns = {p \<in> set (List.map_filter colon_prefix ns). max (length ns) 1 div 50 < prefix_count ns p}"

definition some_order :: "(string list \<Rightarrow> string list) \<Rightarrow> bool" where
  "some_order iterate \<longleftrightarrow> (\<forall>xs. mset (iterate xs) = mset xs)"

lemma extract_set: "some_order iterate \<Longrightarrow> set (extract_common_prefixes iterate ns) = common ns"
proof -
  assume "some_order iterate"
  then have "set (iterate xs) = set xs" for xs unfolding some_order_def by (metis set_mset_mset)
  then show ?thesis by (auto simp: extract_common_prefixes_def common_def Let_def)
qed

lemma extract_sorted: "sorted (map (\<lambda>p. - int (prefix_count ns p)) (extract_common_prefixes iterate ns))"
  by (simp add: extract_common_prefixes_def Let_def)

lemma extract_distinct: "some_order iterate \<Longrightarrow> distinct (extract_common_prefixes iterate ns)"
proof -
  assume "some_order iterate"
  then have "distinct (iterate (remdups xs))" for xs unfolding some_order_def by (metis distinct_remdups mset_eq_imp_distinct_iff)
  then show ?thesis by (simp add: extract_common_prefixes_def Let_def)
qed

lemma extract_order_free:
  assumes "some_order iterate" "some_order iterate'" "inj_on (prefix_count ns) (common ns)"
  shows "extract_common_prefixes iterate ns = extract_common_prefixes iterate' ns"
proof -
  let ?f = "\<lambda>p. - int (prefix_count ns p)"
  have "inj_on ?f (common ns)" using assms(3) by (auto simp: inj_on_def)
  then show ?thesis
    by (intro map_sorted_distinct_set_unique [of ?f])
      (simp_all add: extract_set assms(1,2) extract_sorted extract_distinct distinct_map)
qed

lemma own_reverse: "xs = rev xs \<Longrightarrow> distinct xs \<Longrightarrow> x \<in> set xs \<Longrightarrow> y \<in> set xs \<Longrightarrow> x = y"
proof -
  assume xs: "xs = rev xs" "distinct xs" "x \<in> set xs" "y \<in> set xs"
  then have "xs \<noteq> []" by auto
  then have "xs ! 0 = xs ! (length xs - 1)" using arg_cong [OF xs(1), of "\<lambda>ys. ys ! 0"] by (simp add: rev_nth)
  with xs(2) \<open>xs \<noteq> []\<close> have "length xs = 1" by (simp add: nth_eq_iff_index_eq le_Suc_eq)
  with xs show "x = y" by (auto simp: length_Suc_conv)
qed

lemma extract_order_matters:
  assumes "p \<in> common ns" "q \<in> common ns" "p \<noteq> q" "prefix_count ns p = prefix_count ns q"
  shows "extract_common_prefixes id ns \<noteq> extract_common_prefixes rev ns"
proof
  let ?k = "- int (prefix_count ns p)" and ?f = "\<lambda>p. - int (prefix_count ns p)"
  let ?big = "\<lambda>p. max (length ns) 1 div 50 < prefix_count ns p"
  let ?keys = "remdups (List.map_filter colon_prefix ns)"
  let ?tied = "filter (\<lambda>r. ?f r = ?k) (filter ?big ?keys)"
  assume "extract_common_prefixes id ns = extract_common_prefixes rev ns"
  from arg_cong [OF this, of "filter (\<lambda>r. ?f r = ?k)"] have "?tied = rev ?tied"
    unfolding extract_common_prefixes_def Let_def sort_key_stable by (simp add: rev_filter)
  moreover have "p \<in> set ?tied" "q \<in> set ?tied" using assms by (auto simp: common_def)
  moreover have "distinct ?tied" by simp
  ultimately show False using assms(3) own_reverse by metis
qed

lemma first_seen_length: "length (first_seen xs seen) \<le> length xs + length seen"
  by (induction xs seen rule: first_seen.induct) (auto split: if_splits)

lemma codebook_small:
  assumes "some_order iterate" "length (state_nodes g) \<le> 2 ^ 32" "length (state_edges g) \<le> 2 ^ 32"
  shows "codebook_fits (from_graph iterate g)"
proof -
  have len: "length (iterate xs) = length xs" for xs using assms(1) unfolding some_order_def by (metis size_mset)
  have "length (extract_common_prefixes iterate ns) \<le> length ns" for ns
  proof -
    have "length (extract_common_prefixes iterate ns) \<le> length (iterate (remdups (List.map_filter colon_prefix ns)))"
      by (simp add: extract_common_prefixes_def Let_def)
    also have "\<dots> \<le> length (List.map_filter colon_prefix ns)" by (simp add: len)
    also have "\<dots> \<le> length ns" by (simp add: map_filter_def)
    finally show ?thesis .
  qed
  note this [of "state_nodes g"]
    first_seen_length [of "map node_label (state_nodes g)" "[]"] first_seen_length [of "map edge_kind (state_edges g)" "[]"]
  then show ?thesis using assms(2,3) by (simp add: codebook_fits_def from_graph_def)
qed

text \<open>C37: encoding a graph against its own codebook never panics and a client reads the same graph back from it. The
  codebook itself is a function of the graph only when no two of its prefixes occur equally often: with a tie, the
  order of the hash map decides, so two runs give the same graph codebooks with different content ids.\<close>

theorem codebook_lossless_but_unstable:
  assumes "some_order iterate" "length (state_nodes g) \<le> 2 ^ 32" "length (state_edges g) \<le> 2 ^ 32"
  shows "(\<exists>enc. encode_graph blake3 g (from_graph iterate g) = Some enc \<and>
      map (decode_node (from_graph iterate g)) (enc_nodes enc) = state_nodes g \<and>
      map (decode_edge (from_graph iterate g)) (enc_edges enc) = state_edges g) \<and>
    ((\<forall>it it'. some_order it \<longrightarrow> some_order it' \<longrightarrow> from_graph it g = from_graph it' g) \<longleftrightarrow>
      inj_on (prefix_count (state_nodes g)) (common (state_nodes g)))"
proof -
  have "inj_on (prefix_count (state_nodes g)) (common (state_nodes g))"
    if "\<forall>it it'. some_order it \<longrightarrow> some_order it' \<longrightarrow> from_graph it g = from_graph it' g"
  proof (rule inj_onI, rule ccontr)
    fix p q assume tie: "p \<in> common (state_nodes g)" "q \<in> common (state_nodes g)"
      "prefix_count (state_nodes g) p = prefix_count (state_nodes g) q" "p \<noteq> q"
    have "some_order id" "some_order rev" by (simp_all add: some_order_def)
    with that have "from_graph id g = from_graph rev g" by blast
    from arg_cong [OF this, of id_prefixes] extract_order_matters [OF tie(1,2,4,3)] show False by (simp add: from_graph_def)
  qed
  then show ?thesis using encode_own [OF codebook_small [OF assms]] extract_order_free unfolding from_graph_def by blast
qed

definition demo_state :: GraphState where
  "demo_state = \<lparr>state_nodes = [\<lparr>node_id = ''memory:1'', node_label = ''Memory''\<rparr>, \<lparr>node_id = ''entity:1'', node_label = ''Entity''\<rparr>], state_edges = []\<rparr>"

lemma demo_prefixes:
  "colon_prefix \<lparr>node_id = ''memory:1'', node_label = l\<rparr> = Some ''memory:''"
  "colon_prefix \<lparr>node_id = ''entity:1'', node_label = l\<rparr> = Some ''entity:''"
  by (simp_all add: colon_prefix_def starts_with_def)

lemma codebook_lossless_but_unstable_witness:
  "\<not> (\<forall>it it'. some_order it \<longrightarrow> some_order it' \<longrightarrow> from_graph it demo_state = from_graph it' demo_state)"
proof -
  have "length (state_nodes demo_state) \<le> 2 ^ 32" "length (state_edges demo_state) \<le> 2 ^ 32" by (simp_all add: demo_state_def)
  moreover have "\<not> inj_on (prefix_count (state_nodes demo_state)) (common (state_nodes demo_state))"
  proof
    have "''memory:'' \<in> common (state_nodes demo_state)" "''entity:'' \<in> common (state_nodes demo_state)"
      "prefix_count (state_nodes demo_state) ''memory:'' = prefix_count (state_nodes demo_state) ''entity:''"
      by (simp_all add: common_def demo_state_def prefix_count_def demo_prefixes map_filter_def)
    moreover assume "inj_on (prefix_count (state_nodes demo_state)) (common (state_nodes demo_state))"
    ultimately have "''memory:'' = ''entity:''" by (rule_tac inj_onD)
    then show False by simp
  qed
  ultimately show ?thesis using codebook_lossless_but_unstable [of id demo_state] by (simp add: some_order_def)
qed

end
