(* ===== verification/Cochange.thy ===== *)
theory Cochange
  imports GitDiff GraphWrite
begin

text \<open>
  Files that change together (\<open>src/cochange.rs\<close>): the commits of \<open>git log\<close> are folded into counters per file and per
  pair of files, and the pairs above the thresholds become edges. Git is the parameter \<open>git\<close> (the output of a command
  that succeeds), the database an executor, and the arithmetic of \<open>f64\<close> the record \<open>ratios\<close>.
\<close>

section \<open>The state\<close>

record PairAgg =
  pair_count :: int
  last_ts :: int

record CochangeState =
  state_version :: nat
  last_sha :: string
  file_changes :: "(string \<times> int) list"
  pairs :: "(string \<times> PairAgg) list"

definition COCHANGE_SCHEMA_VERSION :: nat where "COCHANGE_SCHEMA_VERSION = 1"
definition WINDOW_SINCE :: string where "WINDOW_SINCE = ''1 year ago''"
definition MAX_COMMITS :: string where "MAX_COMMITS = ''10000''"
definition MAX_FILES_PER_COMMIT :: nat where "MAX_FILES_PER_COMMIT = 20"
definition MIN_COCHANGE :: int where "MIN_COCHANGE = 3"

definition empty_state :: CochangeState where
  "empty_state = \<lparr>state_version = COCHANGE_SCHEMA_VERSION, last_sha = [], file_changes = [], pairs = []\<rparr>"

definition load_state :: "(string \<Rightarrow> CochangeState option) \<Rightarrow> string option \<Rightarrow> CochangeState option" where
  "load_state decode bytes =
     Option.bind bytes (\<lambda>b. Option.bind (decode b) (\<lambda>s. if COCHANGE_SCHEMA_VERSION < state_version s then None else Some s))"

definition save_state :: "(CochangeState \<Rightarrow> string + string) \<Rightarrow> (string \<Rightarrow> string + unit) \<Rightarrow> string + unit \<Rightarrow> CochangeState \<Rightarrow> string + unit" where
  "save_state encode write rename s =
     and_then (map_err (\<lambda>e. ''cochange: encode: '' @ e) (encode s)) (\<lambda>json.
     and_then (map_err (\<lambda>e. ''cochange: write: '' @ e) (write json)) (\<lambda>_.
     map_err (\<lambda>e. ''cochange: rename: '' @ e) rename))"

section \<open>Commits\<close>

record CommitFiles =
  commit_files :: "string list"
  commit_ts :: int

definition RS :: char where "RS = CHR 0x1E"
definition US :: char where "US = CHR 0x1F"

definition trim_newlines :: "string \<Rightarrow> string" where
  "trim_newlines s = rev (dropWhile (\<lambda>c. c = CHR 0x0A) (rev (dropWhile (\<lambda>c. c = CHR 0x0A) s)))"

definition strip_prefix_path :: "string \<Rightarrow> string \<Rightarrow> string option" where
  "strip_prefix_path path prefix = (if prefix = [] then Some path else strip_prefix path prefix)"

definition header_ts :: "string \<Rightarrow> int" where
  "header_ts header =
     (case split_on [US] header of
        a # t # rest \<Rightarrow> (case parse_i64 (trim t) of Some n \<Rightarrow> n | None \<Rightarrow> 0)
      | _ \<Rightarrow> 0)"

definition commit_of_chunk :: "string \<Rightarrow> string \<Rightarrow> CommitFiles option" where
  "commit_of_chunk prefix raw =
     (let chunk = trim_newlines raw in
      if chunk = [] then None
      else case lines_of chunk of
        [] \<Rightarrow> None
      | header # ls \<Rightarrow>
          (let fs = List.map_filter (\<lambda>p. strip_prefix_path p prefix) (filter (\<lambda>l. trim l \<noteq> []) ls) in
           if fs = [] then None else Some \<lparr>commit_files = fs, commit_ts = header_ts header\<rparr>))"

definition read_commit_files :: "(string list \<Rightarrow> string option) \<Rightarrow> string list \<Rightarrow> string \<Rightarrow> CommitFiles list" where
  "read_commit_files git revs prefix =
     (case git ([''-c'', ''core.quotepath=false'', ''log'', ''--no-merges'', ''--name-only'',
         ''--pretty=format:'' @ [RS] @ ''%H'' @ [US] @ ''%at''] @ revs) of
        None \<Rightarrow> []
      | Some out \<Rightarrow> List.map_filter (commit_of_chunk prefix) (split_on [RS] out))"

section \<open>Counting\<close>

definition pair_key :: "string \<Rightarrow> string \<Rightarrow> string" where
  "pair_key a b = a @ [US] @ b"

definition order :: "string \<Rightarrow> string \<Rightarrow> string \<times> string" where
  "order a b = (if a \<le> b then (a, b) else (b, a))"

definition split_key :: "string \<Rightarrow> (string \<times> string) option" where
  "split_key key = (case split_on [US] key of a # b # rest \<Rightarrow> Some (a, b) | _ \<Rightarrow> None)"

definition bump_file :: "string \<Rightarrow> (string \<times> int) list \<Rightarrow> (string \<times> int) list" where
  "bump_file f m = btree_insert f ((case map_of m f of Some n \<Rightarrow> n | None \<Rightarrow> 0) + 1) m"

definition bump_agg :: "int \<Rightarrow> PairAgg option \<Rightarrow> PairAgg" where
  "bump_agg ts entry =
     (let agg = (case entry of Some a \<Rightarrow> a | None \<Rightarrow> \<lparr>pair_count = 0, last_ts = 0\<rparr>) in
      \<lparr>pair_count = pair_count agg + 1, last_ts = (if last_ts agg < ts then ts else last_ts agg)\<rparr>)"

definition bump_pair :: "int \<Rightarrow> string \<Rightarrow> string \<Rightarrow> (string \<times> PairAgg) list \<Rightarrow> (string \<times> PairAgg) list" where
  "bump_pair ts f g m = (let (a, b) = order f g; key = pair_key a b in btree_insert key (bump_agg ts (map_of m key)) m)"

fun bump_pairs :: "int \<Rightarrow> string list \<Rightarrow> (string \<times> PairAgg) list \<Rightarrow> (string \<times> PairAgg) list" where
  "bump_pairs ts [] m = m"
| "bump_pairs ts (f # fs) m = bump_pairs ts fs (fold (bump_pair ts f) fs m)"

definition accumulate_commit :: "CommitFiles \<Rightarrow> CochangeState \<Rightarrow> CochangeState" where
  "accumulate_commit c s =
     (let fs = commit_files c in
      if MAX_FILES_PER_COMMIT < length fs \<or> length fs < 2 then
        (if length fs = 1 then s\<lparr>file_changes := bump_file (hd fs) (file_changes s)\<rparr> else s)
      else s\<lparr>file_changes := fold bump_file fs (file_changes s), pairs := bump_pairs (commit_ts c) fs (pairs s)\<rparr>)"

definition accumulate :: "CochangeState \<Rightarrow> CommitFiles list \<Rightarrow> CochangeState" where
  "accumulate s cs = fold accumulate_commit cs s"

section \<open>Edges\<close>

record 'f ratios =
  ratio :: "int \<Rightarrow> int \<Rightarrow> 'f"
  below_min :: "'f \<Rightarrow> bool"
  zero_ratio :: 'f
  show4 :: "'f \<Rightarrow> string"

definition show_i64 :: "int \<Rightarrow> string" where
  "show_i64 n = (if n < 0 then ''-'' @ dec (nat (- n)) else dec (nat n))"

definition changes_of :: "CochangeState \<Rightarrow> string \<Rightarrow> int" where
  "changes_of s f = (case map_of (file_changes s) f of Some n \<Rightarrow> n | None \<Rightarrow> 0)"

definition edge_of_pair :: "'f ratios \<Rightarrow> CochangeState \<Rightarrow> string \<times> PairAgg \<Rightarrow> (string \<times> string \<times> row) option" where
  "edge_of_pair R s entry =
     (let (key, agg) = entry in
      if pair_count agg < MIN_COCHANGE then None
      else case split_key key of
        None \<Rightarrow> None
      | Some (a, b) \<Rightarrow>
          (let ca = changes_of s a; cb = changes_of s b; support = min ca cb in
           if support \<le> 0 then None
           else let coupling = ratio R (pair_count agg) support in
             if below_min R coupling then None
             else let union = ca + cb - pair_count agg;
                      jaccard = (if union > 0 then ratio R (pair_count agg) union else zero_ratio R) in
               Some (a, b, [(''cochange_count'', show_i64 (pair_count agg)), (''support'', show_i64 support), (''coupling'', show4 R coupling),
                 (''jaccard'', show4 R jaccard), (''last_co_change'', show_i64 (last_ts agg))])))"

definition write_edge :: "'d executor \<Rightarrow> string \<times> string \<times> row \<Rightarrow> 'd \<times> nat \<Rightarrow> 'd \<times> nat" where
  "write_edge exec edge st =
     (let (a, b, props) = edge; (db, written) = st in
      case insert_edge exec ''FILE_CHANGES_WITH'' a b props db of
        (db, Inl e) \<Rightarrow> (db, written)
      | (db, Inr _) \<Rightarrow>
          (case edge_exists exec ''FILE_CHANGES_WITH'' a b db of
             (db, Inr True) \<Rightarrow> (db, written + 1)
           | (db, _) \<Rightarrow> (db, written)))"

definition rewrite_edges :: "'f ratios \<Rightarrow> 'd executor \<Rightarrow> CochangeState \<Rightarrow> 'd \<Rightarrow> 'd \<times> (string + nat)" where
  "rewrite_edges R exec s db =
     (case exec db ''MATCH ()-[r:FILE_CHANGES_WITH]->() DELETE r'' of
        (db, Inl e) \<Rightarrow> (db, Inl e)
      | (db, Inr _) \<Rightarrow> map_prod id Inr (fold (write_edge exec) (List.map_filter (edge_of_pair R s) (pairs s)) (db, 0)))"

section \<open>Mining\<close>

datatype Mode = Full | Incremental

record MineResult =
  result_mode :: string
  commits_scanned :: nat
  edges_written :: nat
  mined_to_sha :: string

definition git_head :: "(string list \<Rightarrow> string option) \<Rightarrow> string option" where
  "git_head git = Option.bind (git [''rev-parse'', ''HEAD'']) (\<lambda>s. if trim s = [] then None else Some (trim s))"

definition git_known :: "(string list \<Rightarrow> string option) \<Rightarrow> string \<Rightarrow> bool" where
  "git_known git sha \<longleftrightarrow> list_all is_hexdigit sha \<and> git [''cat-file'', ''-e'', sha @ ''^{commit}''] \<noteq> None"

definition resume_point :: "(string list \<Rightarrow> string option) \<Rightarrow> Mode \<Rightarrow> CochangeState option \<Rightarrow> CochangeState \<times> string list \<times> string" where
  "resume_point git mode prior =
     (let full = (empty_state, [''--since='' @ WINDOW_SINCE, ''--max-count='' @ MAX_COMMITS], ''full'') in
      case (mode, prior) of
        (Incremental, Some p) \<Rightarrow>
          if last_sha p \<noteq> [] \<and> git_known git (last_sha p) then (p, [last_sha p @ ''..HEAD''], ''incremental'') else full
      | _ \<Rightarrow> full)"

text \<open>\<open>save\<close> is \<open>save_state\<close> on the sidecar of the output directory.\<close>

definition mine :: "'f ratios \<Rightarrow> (string list \<Rightarrow> string option) \<Rightarrow> 'd executor \<Rightarrow> (CochangeState \<Rightarrow> string + unit) \<Rightarrow> Mode
    \<Rightarrow> CochangeState option \<Rightarrow> 'd \<Rightarrow> 'd \<times> (string + MineResult option)" where
  "mine R git exec save mode prior db =
     (case git_head git of
        None \<Rightarrow> (db, Inr None)
      | Some head \<Rightarrow>
          (let prefix = (case git [''rev-parse'', ''--show-prefix''] of Some s \<Rightarrow> trim s | None \<Rightarrow> []);
               (state, revs, label) = resume_point git mode prior;
               commits = read_commit_files git revs prefix;
               state = (accumulate state commits)\<lparr>last_sha := head\<rparr> in
           case rewrite_edges R exec state db of
             (db, Inl e) \<Rightarrow> (db, Inl e)
           | (db, Inr n) \<Rightarrow>
               (db, and_then (save state) (\<lambda>_. Inr (Some \<lparr>result_mode = label, commits_scanned = length commits,
                  edges_written = n, mined_to_sha = head\<rparr>)))))"

section \<open>The counters are exact\<close>

definition plain :: "string \<Rightarrow> bool" where
  "plain f \<longleftrightarrow> US \<notin> set f"

definition key_of :: "string \<Rightarrow> string \<Rightarrow> string" where
  "key_of f g = (case order f g of (a, b) \<Rightarrow> pair_key a b)"

lemma pair_key_inj: "plain a \<Longrightarrow> plain a' \<Longrightarrow> pair_key a b = pair_key a' b' \<longleftrightarrow> a = a' \<and> b = b'"
  by (auto simp: pair_key_def plain_def append_eq_append_conv2 Cons_eq_append_conv append_eq_Cons_conv)

lemma key_of_eq:
  assumes "plain f" "plain g" "plain f'" "plain g'"
  shows "key_of f g = key_of f' g' \<longleftrightarrow> (f = f' \<and> g = g') \<or> (f = g' \<and> g = f')"
  using assms by (auto simp: key_of_def order_def pair_key_inj)

lemma bump_pair_lookup:
  "map_of (bump_pair ts f g m) = (map_of m)(key_of f g \<mapsto> bump_agg ts (map_of m (key_of f g)))"
  by (simp add: bump_pair_def key_of_def map_of_btree_insert Let_def split: prod.splits)

lemma bump_row_lookup:
  "distinct gs \<Longrightarrow> plain f \<Longrightarrow> list_all plain gs \<Longrightarrow> f \<notin> set gs \<Longrightarrow>
     map_of (fold (bump_pair ts f) gs m) k =
       (if \<exists>g \<in> set gs. key_of f g = k then Some (bump_agg ts (map_of m k)) else map_of m k)"
proof (induction gs arbitrary: m)
  case (Cons g gs)
  have "key_of f h \<noteq> key_of f g" if "h \<in> set gs" for h
    using that Cons.prems by (subst key_of_eq) (auto simp: list_all_iff)
  with Cons show ?case by (auto simp: bump_pair_lookup)
qed simp

text \<open>The keys of the pairs of a commit.\<close>

definition keys_of :: "string list \<Rightarrow> string set" where
  "keys_of fs = {key_of f g | f g. f \<in> set fs \<and> g \<in> set fs \<and> f \<noteq> g}"

lemma key_of_sym: "key_of f g = key_of g f"
  by (auto simp: key_of_def order_def)

lemma keys_of_Cons: "f \<notin> set fs \<Longrightarrow> keys_of (f # fs) = key_of f ` set fs \<union> keys_of fs"
  unfolding keys_of_def by (auto simp: key_of_sym)

lemma bump_pairs_lookup:
  "distinct fs \<Longrightarrow> list_all plain fs \<Longrightarrow>
     map_of (bump_pairs ts fs m) k = (if k \<in> keys_of fs then Some (bump_agg ts (map_of m k)) else map_of m k)"
proof (induction fs arbitrary: m)
  case (Cons f fs)
  have "k \<in> keys_of fs \<Longrightarrow> \<not> (\<exists>g \<in> set fs. key_of f g = k)"
    using Cons.prems by (auto simp: keys_of_def list_all_iff key_of_eq)
  with Cons show ?case by (auto simp: bump_row_lookup keys_of_Cons)
qed (simp add: keys_of_def)

definition counted :: "CommitFiles \<Rightarrow> bool" where
  "counted c \<longleftrightarrow> 1 \<le> length (commit_files c) \<and> length (commit_files c) \<le> MAX_FILES_PER_COMMIT"

definition coupled :: "CommitFiles \<Rightarrow> bool" where
  "coupled c \<longleftrightarrow> 2 \<le> length (commit_files c) \<and> length (commit_files c) \<le> MAX_FILES_PER_COMMIT"

definition as_git_lists :: "CommitFiles \<Rightarrow> bool" where
  "as_git_lists c \<longleftrightarrow> distinct (commit_files c) \<and> list_all plain (commit_files c)"

abbreviation tally_of :: "(string \<times> int) list \<Rightarrow> string \<Rightarrow> int" where
  "tally_of m f \<equiv> (case map_of m f of Some n \<Rightarrow> n | None \<Rightarrow> 0)"

lemma bump_file_tally: "tally_of (bump_file g m) f = tally_of m f + (if f = g then 1 else 0)"
  by (simp add: bump_file_def map_of_btree_insert)

lemma bump_files_tally: "distinct fs \<Longrightarrow> tally_of (fold bump_file fs m) f = tally_of m f + (if f \<in> set fs then 1 else 0)"
  by (induction fs arbitrary: m) (auto simp: bump_file_tally)

lemma commit_changes:
  assumes "as_git_lists c"
  shows "changes_of (accumulate_commit c s) f = changes_of s f + (if counted c \<and> f \<in> set (commit_files c) then 1 else 0)"
  using assms bump_files_tally [of "commit_files c" "file_changes s" f] bump_file_tally [of "hd (commit_files c)" "file_changes s" f]
  by (cases "commit_files c")
    (auto simp: accumulate_commit_def changes_of_def counted_def as_git_lists_def Let_def MAX_FILES_PER_COMMIT_def not_less_eq_eq)

lemma accumulate_changes:
  "list_all as_git_lists cs \<Longrightarrow>
     changes_of (accumulate s cs) f = changes_of s f + int (length (filter (\<lambda>c. counted c \<and> f \<in> set (commit_files c)) cs))"
  by (induction cs arbitrary: s) (auto simp: accumulate_def commit_changes)

lemma commit_pairs:
  "as_git_lists c \<Longrightarrow> map_of (pairs (accumulate_commit c s)) k =
     (if coupled c \<and> k \<in> keys_of (commit_files c) then Some (bump_agg (commit_ts c) (map_of (pairs s) k)) else map_of (pairs s) k)"
  by (auto simp: accumulate_commit_def coupled_def as_git_lists_def Let_def bump_pairs_lookup)

lemma accumulate_pairs:
  "list_all as_git_lists cs \<Longrightarrow> map_of (pairs (accumulate s cs)) k =
     fold (\<lambda>c entry. Some (bump_agg (commit_ts c) entry)) (filter (\<lambda>c. coupled c \<and> k \<in> keys_of (commit_files c)) cs) (map_of (pairs s) k)"
  by (induction cs arbitrary: s) (auto simp: accumulate_def commit_pairs)

lemma bump_agg_fold:
  "fold (\<lambda>c entry. Some (bump_agg (commit_ts c) entry)) cs (Some a) =
     Some \<lparr>pair_count = pair_count a + int (length cs), last_ts = fold max (map commit_ts cs) (last_ts a)\<rparr>"
  by (induction cs arbitrary: a) (simp_all add: bump_agg_def max_def)

lemma bump_agg_first:
  "fold (\<lambda>c entry. Some (bump_agg (commit_ts c) entry)) cs None =
     (if cs = [] then None else Some \<lparr>pair_count = int (length cs), last_ts = fold max (map commit_ts cs) 0\<rparr>)"
  by (cases cs) (simp_all add: bump_agg_fold, simp add: bump_agg_def max_def)

lemma keys_of_mem:
  assumes "as_git_lists c" "plain a" "plain b" "a \<noteq> b"
  shows "key_of a b \<in> keys_of (commit_files c) \<longleftrightarrow> a \<in> set (commit_files c) \<and> b \<in> set (commit_files c)"
  using assms unfolding keys_of_def as_git_lists_def by (auto simp: list_all_iff key_of_eq)

definition both_in :: "string \<Rightarrow> string \<Rightarrow> CommitFiles list \<Rightarrow> CommitFiles list" where
  "both_in a b cs = filter (\<lambda>c. coupled c \<and> a \<in> set (commit_files c) \<and> b \<in> set (commit_files c)) cs"

definition listed_in :: "string \<Rightarrow> CommitFiles list \<Rightarrow> CommitFiles list" where
  "listed_in f cs = filter (\<lambda>c. counted c \<and> f \<in> set (commit_files c)) cs"

lemma both_listed: "length (both_in a b cs) \<le> length (listed_in a cs)" "length (both_in a b cs) \<le> length (listed_in b cs)"
  unfolding both_in_def listed_in_def by (induction cs) (auto simp: coupled_def counted_def)

text \<open>C36: mined at once or in two goes, the counters are those of all the commits together: a file counts the commits of
  one to twenty files that list it, a pair of files those of two to twenty files that list both, with the latest of their
  times. So a pair never counts more commits than either of its files: the coupling is at most one, and the union
  under the Jaccard index is not zero.\<close>

theorem cochange_counts_exact:
  assumes git: "list_all as_git_lists (older @ newer)" and files: "plain a" "plain b" "a \<noteq> b"
  shows "let s = accumulate (accumulate empty_state older) newer; both = both_in a b (older @ newer) in
    map_of (pairs s) (key_of a b) =
      (if both = [] then None else Some \<lparr>pair_count = int (length both), last_ts = fold max (map commit_ts both) 0\<rparr>) \<and>
    changes_of s a = int (length (listed_in a (older @ newer))) \<and> changes_of s b = int (length (listed_in b (older @ newer))) \<and>
    int (length both) \<le> min (changes_of s a) (changes_of s b)"
proof -
  let ?s = "accumulate (accumulate empty_state older) newer"
  have once: "?s = accumulate empty_state (older @ newer)" by (simp add: accumulate_def)
  have "filter (\<lambda>c. coupled c \<and> key_of a b \<in> keys_of (commit_files c)) (older @ newer) = both_in a b (older @ newer)"
    unfolding both_in_def using git by (intro filter_cong) (auto simp: list_all_iff keys_of_mem files)
  then have "map_of (pairs ?s) (key_of a b) = (let both = both_in a b (older @ newer) in
      if both = [] then None else Some \<lparr>pair_count = int (length both), last_ts = fold max (map commit_ts both) 0\<rparr>)"
    unfolding once accumulate_pairs [OF git] by (simp add: empty_state_def bump_agg_first Let_def)
  moreover have "changes_of ?s f = int (length (listed_in f (older @ newer)))" for f
    unfolding once accumulate_changes [OF git] by (simp add: listed_in_def changes_of_def empty_state_def)
  ultimately show ?thesis using both_listed [of a b "older @ newer"] by (simp add: Let_def)
qed

definition demo_commit :: "int \<Rightarrow> CommitFiles" where
  "demo_commit t = \<lparr>commit_files = [''a.rs'', ''b.rs''], commit_ts = t\<rparr>"

lemma cochange_counts_exact_witness:
  "map_of (pairs (accumulate (accumulate empty_state [demo_commit 7]) [demo_commit 9])) (key_of ''a.rs'' ''b.rs'') =
     Some \<lparr>pair_count = 2, last_ts = 9\<rparr>"
proof -
  have "list_all as_git_lists ([demo_commit 7] @ [demo_commit 9])"
    by (simp add: demo_commit_def as_git_lists_def plain_def US_def)
  moreover have "both_in ''a.rs'' ''b.rs'' ([demo_commit 7] @ [demo_commit 9]) = [demo_commit 7, demo_commit 9]"
    by (simp add: both_in_def demo_commit_def coupled_def MAX_FILES_PER_COMMIT_def)
  ultimately show ?thesis
    using cochange_counts_exact [of "[demo_commit 7]" "[demo_commit 9]" "''a.rs''" "''b.rs''"]
    by (simp add: Let_def plain_def US_def demo_commit_def)
qed

text \<open>A \<open>git log\<close> that fails is taken for a range without commits. A full run then deletes every edge, reports
  success, and records the head as mined, so that no later incremental run reads the commits again.\<close>

theorem failed_log_is_success:
  assumes head: "git_head git = Some head"
    and fails: "\<And>args. args \<noteq> [] \<Longrightarrow> hd args = ''-c'' \<Longrightarrow> git args = None"
    and cleared: "exec db ''MATCH ()-[r:FILE_CHANGES_WITH]->() DELETE r'' = (db', Inr rows)"
    and saves: "save (empty_state\<lparr>last_sha := head\<rparr>) = Inr ()"
  shows "mine R git exec save Full prior db =
    (db', Inr (Some \<lparr>result_mode = ''full'', commits_scanned = 0, edges_written = 0, mined_to_sha = head\<rparr>))"
proof -
  have "read_commit_files git args prefix = []" for args prefix by (simp add: read_commit_files_def fails)
  moreover have "rewrite_edges R exec (empty_state\<lparr>last_sha := head\<rparr>) db = (db', Inr 0)"
    by (simp add: rewrite_edges_def cleared empty_state_def map_filter_def)
  ultimately show ?thesis
    by (simp add: mine_def head resume_point_def Let_def accumulate_def saves split: prod.splits)
qed

definition demo_git :: "string list \<Rightarrow> string option" where
  "demo_git args = (if args = [''rev-parse'', ''HEAD''] then Some ''abc'' else None)"

lemma failed_log_is_success_witness:
  "mine \<lparr>ratio = (\<lambda>a b. a), below_min = (\<lambda>r. False), zero_ratio = 0, show4 = show_i64\<rparr> demo_git (\<lambda>db q. (db, Inr [])) (\<lambda>s. Inr ()) Full None () =
     ((), Inr (Some \<lparr>result_mode = ''full'', commits_scanned = 0, edges_written = 0, mined_to_sha = ''abc''\<rparr>))"
proof -
  have "git_head demo_git = Some ''abc''" by code_simp
  moreover have "demo_git args = None" if "args \<noteq> []" "hd args = ''-c''" for args
    using that by (cases args) (auto simp: demo_git_def)
  ultimately show ?thesis by (intro failed_log_is_success) auto
qed

end
