(* ===== verification/History.thy ===== *)
theory History
  imports GitDiff Freshness CfgTwins
begin

text \<open>
  The history of a codebase in the graph (\<open>src/history/\<close>): commits, the versions of files and symbols that they changed,
  and the edges between them. \<open>run_git\<close> runs git in the codebase and gives the standard output, or the error text of a
  command that fails; the graph is read by \<open>store\<close> and written by the runner of \<open>GraphWrite\<close>. The cache of
  \<open>collect_versions\<close> is transparent, since nothing writes to the graph while it is used.
\<close>

section \<open>Commits\<close>

record CommitMeta =
  sha :: string
  author :: string
  email :: string
  committed_at :: int
  parents :: "string list"
  message :: string

definition DEFAULT_MAX_COMMITS :: nat where "DEFAULT_MAX_COMMITS = 200"
definition GIT_FIELD_SEP :: char where "GIT_FIELD_SEP = CHR 0x1F"
definition SYMBOL_LABELS_WITH_LINES :: "string list" where
  "SYMBOL_LABELS_WITH_LINES = [''Function'', ''Struct'', ''Enum'', ''Trait'']"

definition parse_log_line :: "string \<Rightarrow> CommitMeta option" where
  "parse_log_line line =
     (case split_on [GIT_FIELD_SEP] line of
        h # a # e # t # ps # rest \<Rightarrow>
          if trim h = [] then None
          else (case parse_i64 (trim t) of
              None \<Rightarrow> None
            | Some n \<Rightarrow> Some \<lparr>sha = trim h, author = a, email = e, committed_at = n, parents = split_whitespace ps,
                message = (case rest of m # _ \<Rightarrow> m | [] \<Rightarrow> [])\<rparr>)
      | _ \<Rightarrow> None)"

type_synonym git_runner = "string list \<Rightarrow> string + string"

definition log_format :: string where
  "log_format = ''--pretty=format:'' @ join_with ''%x1f'' [''%H'', ''%an'', ''%ae'', ''%at'', ''%P'', ''%s'']"

definition read_git_log :: "git_runner \<Rightarrow> nat \<Rightarrow> string + CommitMeta list" where
  "read_git_log run_git limit =
     (case run_git [''log'', ''--no-color'', ''-n'', dec limit, log_format] of
        Inl stderr \<Rightarrow> if contains stderr ''does not have any commits'' then Inr [] else Inl (''git log failed: '' @ stderr)
      | Inr text_out \<Rightarrow> Inr (List.map_filter parse_log_line (lines_of text_out)))"

definition strip_dir_prefix :: "string \<Rightarrow> string \<Rightarrow> string option" where
  "strip_dir_prefix git_path prefix = (if prefix = [] then Some git_path else strip_prefix git_path (prefix @ ''/''))"

text \<open>\<open>debug\<close> is the text that \<open>{:?}\<close> prints.\<close>

definition validate_sha :: "(string \<Rightarrow> string) \<Rightarrow> string \<Rightarrow> string + unit" where
  "validate_sha debug s =
     (if length s < 4 \<or> 64 < length s then Inl (''invalid_sha: implausible length ('' @ dec (length s) @ '')'')
      else if \<not> list_all is_hexdigit s then Inl (''invalid_sha: non-hex characters in '' @ debug s)
      else Inr ())"

definition git_show_diff :: "(string \<Rightarrow> string) \<Rightarrow> git_runner \<Rightarrow> string \<Rightarrow> string + string" where
  "git_show_diff debug run_git s =
     and_then (validate_sha debug s) (\<lambda>_.
       map_err (\<lambda>stderr. ''git show '' @ s @ '' failed: '' @ stderr) (run_git [''show'', s, ''--no-color'', ''--format='', ''--unified=3'']))"

section \<open>What a commit changed\<close>

record ChangedEntity =
  entity_id :: string
  entity_qn :: string
  entity_label :: string
  entity_change :: string
  lines_changed :: nat

record SymRange =
  range_id :: string
  range_qn :: string
  range_label :: string
  range_start :: nat
  range_end :: nat

definition parse_u64 :: "string \<Rightarrow> nat" where
  "parse_u64 s = (case parse_dec (2 ^ 64) s of Some n \<Rightarrow> n | None \<Rightarrow> 0)"

definition range_of_row :: "string \<Rightarrow> string list \<Rightarrow> SymRange option" where
  "range_of_row label row =
     (case row of
        i # qn # s # e # rest \<Rightarrow> Some \<lparr>range_id = i, range_qn = qn, range_label = label, range_start = parse_u64 s, range_end = parse_u64 e\<rparr>
      | _ \<Rightarrow> None)"

definition push_ranges :: "store \<Rightarrow> string \<Rightarrow> string \<Rightarrow> SymRange list" where
  "push_ranges store cypher label = List.map_filter (range_of_row label) (rows_of store cypher)"

definition file_symbol_ranges :: "store \<Rightarrow> string \<Rightarrow> SymRange list" where
  "file_symbol_ranges store path =
     (let esc = cypher_str path in
      concat (map (\<lambda>label. push_ranges store (''MATCH (f:File)-[:Defines_File_'' @ label @ '']->(n:'' @ label @ '') WHERE f.path = '' @ esc
        @ '' RETURN n.id, n.qualified_name, n.start_line, n.end_line'') label) SYMBOL_LABELS_WITH_LINES) @
      concat (map (\<lambda>container. push_ranges store (''MATCH (f:File)-[:Defines_File_'' @ container @ '']->(c)-[:HasMethod_'' @ container
        @ ''_Method]->(m:Method) WHERE f.path = '' @ esc @ '' RETURN m.id, m.qualified_name, m.start_line, m.end_line'') ''Method'')
        [''Struct'', ''Enum'', ''Trait'']))"

definition change_type :: "bool \<Rightarrow> bool \<Rightarrow> string" where
  "change_type new gone = (if new then ''added'' else if gone then ''deleted'' else ''modified'')"

definition touched :: "SymRange \<Rightarrow> nat list \<Rightarrow> nat" where
  "touched r lines = length (filter (\<lambda>l. range_start r \<le> l \<and> l \<le> range_end r) lines)"

fun overlapping :: "SymRange list \<Rightarrow> nat list \<Rightarrow> bool \<Rightarrow> bool \<Rightarrow> string \<Rightarrow> string set \<Rightarrow> ChangedEntity list" where
  "overlapping [] lines new gone ct seen = []"
| "overlapping (r # rs) lines new gone ct seen =
     (if touched r lines = 0 \<and> \<not> new \<and> \<not> gone then overlapping rs lines new gone ct seen
      else if range_id r \<in> seen then overlapping rs lines new gone ct seen
      else \<lparr>entity_id = range_id r, entity_qn = range_qn r, entity_label = range_label r, entity_change = ct,
          lines_changed = (if new \<or> gone then range_end r - range_start r + 1 else touched r lines)\<rparr>
        # overlapping rs lines new gone ct (insert (range_id r) seen))"

definition hunk_entities :: "store \<Rightarrow> string \<Rightarrow> string set \<Rightarrow> FileHunk \<Rightarrow> ChangedEntity list" where
  "hunk_entities store prefix known hunk =
     (case strip_dir_prefix (file_path hunk) prefix of
        None \<Rightarrow> []
      | Some file_id \<Rightarrow>
          if file_id \<notin> known then []
          else (let ct = change_type (is_new hunk) (is_deleted hunk) in
            \<lparr>entity_id = file_id, entity_qn = file_id, entity_label = ''File'', entity_change = ct,
              lines_changed = length (changed_lines hunk)\<rparr>
            # overlapping (file_symbol_ranges store file_id) (changed_lines hunk) (is_new hunk) (is_deleted hunk) ct {}))"

definition changed_entities :: "(string \<Rightarrow> string) \<Rightarrow> git_runner \<Rightarrow> store \<Rightarrow> string \<Rightarrow> string set \<Rightarrow> CommitMeta \<Rightarrow> string + ChangedEntity list" where
  "changed_entities debug run_git store prefix known commit =
     and_then (git_show_diff debug run_git (sha commit)) (\<lambda>diff.
     and_then (parse_unified_diff diff) (\<lambda>hs. Inr (concat (map (hunk_entities store prefix known) hs))))"

section \<open>Versions\<close>

record VersionRow =
  version_id :: string
  entity :: ChangedEntity
  commit_sha :: string
  version_at :: int

record Collected =
  versions :: "VersionRow list"
  changed_in :: "(string \<times> string) list"
  version_of :: "(string \<times> (string \<times> string) list) list"
  prev_version :: "(string \<times> string) list"

definition nothing_collected :: Collected where
  "nothing_collected = \<lparr>versions = [], changed_in = [], version_of = [], prev_version = []\<rparr>"

fun push_under :: "string \<Rightarrow> 'a \<Rightarrow> (string \<times> 'a list) list \<Rightarrow> (string \<times> 'a list) list" where
  "push_under k x [] = [(k, [x])]"
| "push_under k x ((k', xs) # m) = (if k = k' then (k', xs @ [x]) # m else (k', xs) # push_under k x m)"

definition add_version :: "CommitMeta \<Rightarrow> ChangedEntity \<Rightarrow> Collected \<times> (string \<Rightarrow> string option) \<Rightarrow> Collected \<times> (string \<Rightarrow> string option)" where
  "add_version commit e st =
     (let (c, last_version) = st; vid = entity_id e @ ''@'' @ sha commit in
      (\<lparr>versions = versions c @ [\<lparr>version_id = vid, entity = e, commit_sha = sha commit, version_at = committed_at commit\<rparr>],
        changed_in = changed_in c @ [(vid, sha commit)],
        version_of = push_under (entity_label e) (vid, entity_id e) (version_of c),
        prev_version = (case last_version (entity_id e) of Some prev \<Rightarrow> prev_version c @ [(vid, prev)] | None \<Rightarrow> prev_version c)\<rparr>,
       last_version(entity_id e \<mapsto> vid)))"

fun collect_commits :: "(CommitMeta \<Rightarrow> string + ChangedEntity list) \<Rightarrow> CommitMeta list \<Rightarrow> Collected \<times> (string \<Rightarrow> string option)
    \<Rightarrow> string + Collected \<times> (string \<Rightarrow> string option)" where
  "collect_commits entities_of [] st = Inr st"
| "collect_commits entities_of (c # cs) st =
     (if 1 < length (parents c) then collect_commits entities_of cs st
      else and_then (entities_of c) (\<lambda>es. collect_commits entities_of cs (fold (add_version c) es st)))"

definition collect_versions :: "(string \<Rightarrow> string) \<Rightarrow> git_runner \<Rightarrow> store \<Rightarrow> string \<Rightarrow> string set \<Rightarrow> CommitMeta list \<Rightarrow> string + Collected" where
  "collect_versions debug run_git store prefix known commits =
     map_sum id fst (collect_commits (changed_entities debug run_git store prefix known) (rev commits) (nothing_collected, \<lambda>e. None))"

section \<open>Writing\<close>

datatype history_error = Reading string | Writing write_error

definition load_file_ids :: "store \<Rightarrow> string + string set" where
  "load_file_ids store =
     map_sum id (\<lambda>rs. set (List.map_filter (\<lambda>row. case row of f # _ \<Rightarrow> Some f | [] \<Rightarrow> None) rs)) (store ''MATCH (f:File) RETURN f.id'')"

definition show_int :: "int \<Rightarrow> string" where
  "show_int n = (if n < 0 then ''-'' @ dec (nat (- n)) else dec (nat n))"

definition commit_row :: "CommitMeta \<Rightarrow> row" where
  "commit_row c = [(''id'', sha c), (''sha'', sha c), (''author'', author c), (''author_email'', email c),
     (''committed_at'', show_int (committed_at c)), (''message'', message c)]"

definition lineage_edge :: "string set \<Rightarrow> CommitMeta \<Rightarrow> PropEdge option" where
  "lineage_edge shas c = (case parents c of parent # _ \<Rightarrow> if parent \<in> shas then Some (sha c, parent, []) else None | [] \<Rightarrow> None)"

definition version_row :: "VersionRow \<Rightarrow> row" where
  "version_row v = [(''id'', version_id v), (''entity_id'', entity_id (entity v)), (''entity_kind'', entity_label (entity v)),
     (''qualified_name'', entity_qn (entity v)), (''change_type'', entity_change (entity v)), (''commit_sha'', commit_sha v),
     (''committed_at'', show_int (version_at v)), (''lines_changed'', dec (lines_changed (entity v)))]"

definition to_propless_edges :: "(string \<times> string) list \<Rightarrow> PropEdge list" where
  "to_propless_edges = map (\<lambda>(a, b). (a, b, []))"

record HistoryResult =
  result_commits :: nat
  result_versions :: nat
  commit_edges :: nat
  version_edges :: nat

text \<open>The sum of the edges written for each of a list of tables, up to the first error.\<close>

fun write_tables :: "(string \<Rightarrow> 'f option) \<Rightarrow> ('d, 'f) runner \<Rightarrow> (string \<times> PropEdge list) list \<Rightarrow> 'd \<Rightarrow> nat \<Rightarrow> 'd \<times> (write_error + nat)" where
  "write_tables pf run [] db n = (db, Inr n)"
| "write_tables pf run ((rel, es) # ts) db n =
     (case bulk_insert_edges pf run rel es db of
        (db, Inl e) \<Rightarrow> (db, Inl e)
      | (db, Inr k) \<Rightarrow> write_tables pf run ts db (n + k))"

definition version_tables :: "Collected \<Rightarrow> (string \<times> PropEdge list) list" where
  "version_tables c =
     (''ChangedIn_Version_Commit'', to_propless_edges (changed_in c))
     # map (\<lambda>(label, ps). (''VersionOf_Version_'' @ label, to_propless_edges ps)) (version_of c)
     @ [(''PreviousVersion_Version_Version'', to_propless_edges (prev_version c))]"

definition persist_commits :: "(string \<Rightarrow> 'f option) \<Rightarrow> ('d, 'f) runner \<Rightarrow> CommitMeta list \<Rightarrow> 'd \<Rightarrow> 'd \<times> (write_error + nat)" where
  "persist_commits pf run cs db = bulk_insert_nodes pf run ''Commit'' (map commit_row cs) db"

definition persist_commit_lineage :: "(string \<Rightarrow> 'f option) \<Rightarrow> ('d, 'f) runner \<Rightarrow> CommitMeta list \<Rightarrow> 'd \<Rightarrow> 'd \<times> (write_error + nat)" where
  "persist_commit_lineage pf run cs db =
     bulk_insert_edges pf run ''PreviousVersion_Commit_Commit'' (List.map_filter (lineage_edge (sha ` set cs)) cs) db"

definition persist_versions :: "(string \<Rightarrow> 'f option) \<Rightarrow> ('d, 'f) runner \<Rightarrow> VersionRow list \<Rightarrow> 'd \<Rightarrow> 'd \<times> (write_error + nat)" where
  "persist_versions pf run vs db = bulk_insert_nodes pf run ''Version'' (map version_row vs) db"

text \<open>\<open>read db\<close> answers statements on the graph as it stands; \<open>prefix\<close> is the result of \<open>repo_root_prefix\<close>.\<close>

definition index_history :: "(string \<Rightarrow> string) \<Rightarrow> (string \<Rightarrow> 'f option) \<Rightarrow> ('d, 'f) runner \<Rightarrow> ('d \<Rightarrow> store) \<Rightarrow> git_runner \<Rightarrow> string + string
    \<Rightarrow> nat option \<Rightarrow> 'd \<Rightarrow> 'd \<times> (history_error + HistoryResult)" where
  "index_history debug pf run read run_git prefix max_commits db =
     (let limit = (case max_commits of Some n \<Rightarrow> n | None \<Rightarrow> DEFAULT_MAX_COMMITS) in
      case read_git_log run_git limit of
        Inl e \<Rightarrow> (db, Inl (Reading e))
      | Inr [] \<Rightarrow> (db, Inr \<lparr>result_commits = 0, result_versions = 0, commit_edges = 0, version_edges = 0\<rparr>)
      | Inr commits \<Rightarrow>
          (case and_then prefix (\<lambda>p. map_sum id (Pair p) (load_file_ids (read db))) of
             Inl e \<Rightarrow> (db, Inl (Reading e))
           | Inr (p, known) \<Rightarrow>
               (case persist_commits pf run commits db of
                  (db, Inl e) \<Rightarrow> (db, Inl (Writing e))
                | (db, Inr n_commits) \<Rightarrow>
                    (case persist_commit_lineage pf run commits db of
                       (db, Inl e) \<Rightarrow> (db, Inl (Writing e))
                     | (db, Inr n_lineage) \<Rightarrow>
                         (case collect_versions debug run_git (read db) p known commits of
                            Inl e \<Rightarrow> (db, Inl (Reading e))
                          | Inr c \<Rightarrow>
                              (case persist_versions pf run (versions c) db of
                                 (db, Inl e) \<Rightarrow> (db, Inl (Writing e))
                               | (db, Inr n_versions) \<Rightarrow>
                                   (case write_tables pf run (version_tables c) db 0 of
                                      (db, Inl e) \<Rightarrow> (db, Inl (Writing e))
                                    | (db, Inr n_edges) \<Rightarrow>
                                        (db, Inr \<lparr>result_commits = n_commits, result_versions = n_versions, commit_edges = n_lineage,
                                           version_edges = n_edges\<rparr>))))))))"

section \<open>The chain of versions\<close>

definition same_entity :: "VersionRow \<Rightarrow> VersionRow \<Rightarrow> bool" where
  "same_entity v w \<longleftrightarrow> entity_id (entity v) = entity_id (entity w)"

text \<open>A version and the one of the same entity next before it.\<close>

definition next_before :: "VersionRow list \<Rightarrow> nat \<Rightarrow> nat \<Rightarrow> bool" where
  "next_before vs j i \<longleftrightarrow> i < j \<and> j < length vs \<and> same_entity (vs ! i) (vs ! j) \<and> (\<forall>k. i < k \<and> k < j \<longrightarrow> \<not> same_entity (vs ! k) (vs ! j))"

definition links :: "VersionRow list \<Rightarrow> (string \<times> string) set" where
  "links vs = {(version_id (vs ! j), version_id (vs ! i)) | i j. next_before vs j i}"

definition last_of :: "string \<Rightarrow> VersionRow list \<Rightarrow> nat option" where
  "last_of e vs = find (\<lambda>i. entity_id (entity (vs ! i)) = e) (rev [0..<length vs])"

lemma last_of_None: "last_of e vs = None \<longleftrightarrow> (\<forall>i < length vs. entity_id (entity (vs ! i)) \<noteq> e)"
  by (auto simp: last_of_def find_None_iff)

lemma last_of_snoc: "last_of e (vs @ [v]) = (if entity_id (entity v) = e then Some (length vs) else last_of e vs)"
proof -
  have "find (\<lambda>i. entity_id (entity ((vs @ [v]) ! i)) = e) (rev [0..<length vs]) = find (\<lambda>i. entity_id (entity (vs ! i)) = e) (rev [0..<length vs])"
    by (rule find_cong) (auto simp: nth_append)
  then show ?thesis by (simp add: last_of_def)
qed

lemma last_of_next:
  "last_of (entity_id (entity v)) vs = Some i \<longleftrightarrow> next_before (vs @ [v]) (length vs) i"
proof (induction vs rule: rev_induct)
  case (snoc w vs)
  show ?case
  proof (cases "same_entity w v")
    case True
    have "next_before ((vs @ [w]) @ [v]) (Suc (length vs)) i \<longleftrightarrow> i = length vs"
    proof
      assume nb: "next_before ((vs @ [w]) @ [v]) (Suc (length vs)) i"
      then have "\<not> i < length vs" using True by (auto simp: next_before_def nth_append)
      with nb show "i = length vs" by (simp add: next_before_def)
    qed (use True in \<open>auto simp: next_before_def nth_append less_Suc_eq\<close>)
    then show ?thesis using True by (auto simp: last_of_snoc same_entity_def)
  next
    case False
    then have "last_of (entity_id (entity v)) (vs @ [w]) = Some i \<longleftrightarrow> next_before (vs @ [v]) (length vs) i"
      using snoc by (simp add: last_of_snoc same_entity_def)
    also have "\<dots> \<longleftrightarrow> next_before ((vs @ [w]) @ [v]) (length (vs @ [w])) i"
      using False by (auto simp: next_before_def nth_append less_Suc_eq)
    finally show ?thesis .
  qed
qed (simp add: last_of_def next_before_def)

lemma links_snoc:
  "links (vs @ [v]) = links vs \<union> (case last_of (entity_id (entity v)) vs of Some i \<Rightarrow> {(version_id v, version_id (vs ! i))} | None \<Rightarrow> {})"
proof -
  have old: "next_before (vs @ [v]) j i \<longleftrightarrow> next_before vs j i" if "j < length vs" for i j
    using that by (auto simp: next_before_def nth_append)
  have "links (vs @ [v]) = {(version_id ((vs @ [v]) ! j), version_id ((vs @ [v]) ! i)) | i j. j < length vs \<and> next_before vs j i} \<union>
      {(version_id v, version_id ((vs @ [v]) ! i)) | i. next_before (vs @ [v]) (length vs) i}"
  proof -
    have "next_before (vs @ [v]) j i \<Longrightarrow> j < length vs \<or> j = length vs" for i j by (auto simp: next_before_def)
    then have step: "next_before (vs @ [v]) j i \<longleftrightarrow> j < length vs \<and> next_before vs j i \<or> j = length vs \<and> next_before (vs @ [v]) (length vs) i" for i j
      using old by blast
    have "links (vs @ [v]) = {(version_id ((vs @ [v]) ! j), version_id ((vs @ [v]) ! i)) | i j.
        j < length vs \<and> next_before vs j i \<or> j = length vs \<and> next_before (vs @ [v]) (length vs) i}"
      unfolding links_def by (intro Collect_cong iff_exI conj_cong refl step)
    also have "\<dots> = {(version_id ((vs @ [v]) ! j), version_id ((vs @ [v]) ! i)) | i j. j < length vs \<and> next_before vs j i} \<union>
      {(version_id ((vs @ [v]) ! length vs), version_id ((vs @ [v]) ! i)) | i. next_before (vs @ [v]) (length vs) i}" by blast
    finally show ?thesis by simp
  qed
  also have "{(version_id ((vs @ [v]) ! j), version_id ((vs @ [v]) ! i)) | i j. j < length vs \<and> next_before vs j i} = links vs"
  proof -
    have "next_before vs j i \<Longrightarrow> j < length vs \<and> (vs @ [v]) ! j = vs ! j \<and> (vs @ [v]) ! i = vs ! i" for i j
      by (simp add: next_before_def nth_append)
    then show ?thesis unfolding links_def by (intro Collect_cong iff_exI) auto
  qed
  also have "{(version_id v, version_id ((vs @ [v]) ! i)) | i. next_before (vs @ [v]) (length vs) i} =
      (case last_of (entity_id (entity v)) vs of Some i \<Rightarrow> {(version_id v, version_id (vs ! i))} | None \<Rightarrow> {})"
  proof -
    have "next_before (vs @ [v]) (length vs) i \<Longrightarrow> (vs @ [v]) ! i = vs ! i" for i by (simp add: next_before_def nth_append)
    then have "{(version_id v, version_id ((vs @ [v]) ! i)) | i. next_before (vs @ [v]) (length vs) i} =
        {(version_id v, version_id (vs ! i)) | i. last_of (entity_id (entity v)) vs = Some i}"
      unfolding last_of_next by (intro Collect_cong) metis
    then show ?thesis by (auto split: option.splits)
  qed
  finally show ?thesis .
qed

definition collected_inv :: "Collected \<times> (string \<Rightarrow> string option) \<Rightarrow> bool" where
  "collected_inv st \<longleftrightarrow> (let (c, last_version) = st in
     set (prev_version c) = links (versions c) \<and>
     last_version = (\<lambda>e. map_option (\<lambda>i. version_id (versions c ! i)) (last_of e (versions c))) \<and>
     changed_in c = map (\<lambda>v. (version_id v, commit_sha v)) (versions c) \<and>
     (\<forall>v \<in> set (versions c). version_id v = entity_id (entity v) @ ''@'' @ commit_sha v))"

lemma last_of_less: "last_of e vs = Some i \<Longrightarrow> i < length vs"
  by (auto simp: last_of_def find_Some_iff rev_nth)

lemma add_version_inv:
  assumes "collected_inv st"
  shows "collected_inv (add_version commit e st)"
proof -
  obtain c lv where st: "st = (c, lv)" by (cases st)
  have lv: "lv = (\<lambda>e. map_option (\<lambda>i. version_id (versions c ! i)) (last_of e (versions c)))" using assms by (simp add: st collected_inv_def)
  define v where "v = \<lparr>version_id = entity_id e @ ''@'' @ sha commit, entity = e, commit_sha = sha commit, version_at = committed_at commit\<rparr>"
  have v: "entity_id (entity v) = entity_id e" "version_id v = entity_id e @ ''@'' @ sha commit" "commit_sha v = sha commit" by (simp_all add: v_def)
  have "lv(entity_id e \<mapsto> version_id v) = (\<lambda>e. map_option (\<lambda>i. version_id ((versions c @ [v]) ! i)) (last_of e (versions c @ [v])))"
    by (auto simp: fun_eq_iff last_of_snoc v(1) lv nth_append dest: last_of_less split: option.splits intro!: option.map_cong)
  moreover have "add_version commit e st = (\<lparr>versions = versions c @ [v], changed_in = changed_in c @ [(version_id v, commit_sha v)],
      version_of = push_under (entity_label e) (version_id v, entity_id e) (version_of c),
      prev_version = (case last_of (entity_id e) (versions c) of Some i \<Rightarrow> prev_version c @ [(version_id v, version_id (versions c ! i))]
        | None \<Rightarrow> prev_version c)\<rparr>, lv(entity_id e \<mapsto> version_id v))"
    by (simp add: st add_version_def Let_def v_def lv split: option.splits)
  moreover have "version_id v = entity_id (entity v) @ ''@'' @ commit_sha v" by (simp add: v_def)
  ultimately show ?thesis using assms by (auto simp: st collected_inv_def links_snoc v(1) split: option.splits)
qed

lemma fold_version_inv: "collected_inv st \<Longrightarrow> collected_inv (fold (add_version c) es st)"
  by (induction es arbitrary: st) (auto simp: add_version_inv)

lemma collect_commits_inv: "collect_commits entities_of cs st = Inr st' \<Longrightarrow> collected_inv st \<Longrightarrow> collected_inv st'"
  by (induction entities_of cs st rule: collect_commits.induct) (auto simp: and_then_Inr fold_version_inv split: if_splits)

lemma fold_versions:
  "versions (fst (fold (add_version c) es st)) = versions (fst st) @
     map (\<lambda>e. \<lparr>version_id = entity_id e @ ''@'' @ sha c, entity = e, commit_sha = sha c, version_at = committed_at c\<rparr>) es"
  by (induction es arbitrary: st) (auto simp: add_version_def Let_def split: prod.splits)

lemma at_sha_inj: "CHR ''@'' \<notin> set s \<Longrightarrow> CHR ''@'' \<notin> set t \<Longrightarrow> a @ ''@'' @ s = b @ ''@'' @ t \<longleftrightarrow> a = b \<and> s = t"
  by (auto simp: append_eq_append_conv2 Cons_eq_append_conv append_eq_Cons_conv)

lemma collect_distinct:
  assumes "collect_commits entities_of cs st = Inr st'" "collected_inv st" "distinct (map version_id (versions (fst st)))"
    "distinct (map sha cs)" "\<forall>v \<in> set (versions (fst st)). commit_sha v \<notin> sha ` set cs \<and> CHR ''@'' \<notin> set (commit_sha v)"
    "\<forall>c \<in> set cs. \<forall>es. length (parents c) \<le> 1 \<longrightarrow> entities_of c = Inr es \<longrightarrow> CHR ''@'' \<notin> set (sha c) \<and> distinct (map entity_id es)"
  shows "distinct (map version_id (versions (fst st')))"
  using assms
proof (induction entities_of cs st rule: collect_commits.induct)
  case (2 entities_of c cs st)
  show ?case
  proof (cases "1 < length (parents c)")
    case True
    with 2(3) have "collect_commits entities_of cs st = Inr st'" by simp
    then show ?thesis by (rule 2(1) [OF True _ 2(4,5)]) (use 2(6-8) in auto)
  next
    case False
    then obtain es where es: "entities_of c = Inr es" and rest: "collect_commits entities_of cs (fold (add_version c) es st) = Inr st'"
      using 2(3) by (auto simp: and_then_Inr)
    let ?new = "\<lambda>e. \<lparr>version_id = entity_id e @ ''@'' @ sha c, entity = e, commit_sha = sha c, version_at = committed_at c\<rparr>"
    have at: "CHR ''@'' \<notin> set (sha c)" "distinct (map entity_id es)" using 2(8) es False by auto
    have ids: "version_id v = entity_id (entity v) @ ''@'' @ commit_sha v" if "v \<in> set (versions (fst st))" for v
      using 2(4) that by (auto simp: collected_inv_def split: prod.splits)
    have "version_id v \<noteq> entity_id e @ ''@'' @ sha c" if "v \<in> set (versions (fst st))" for v e
      using ids [OF that] 2(7) that at(1) at_sha_inj by fastforce
    moreover have "distinct (map (\<lambda>e. entity_id e @ ''@'' @ sha c) es)" using at(2) by (simp add: distinct_map inj_on_def)
    ultimately have "distinct (map version_id (versions (fst (fold (add_version c) es st))))"
      using 2(5) by (auto simp: fold_versions comp_def)
    moreover have "collected_inv (fold (add_version c) es st)" using 2(4) by (rule fold_version_inv)
    moreover have "\<forall>v \<in> set (versions (fst (fold (add_version c) es st))). commit_sha v \<notin> sha ` set cs \<and> CHR ''@'' \<notin> set (commit_sha v)"
      using 2(6,7) at(1) by (auto simp: fold_versions)
    ultimately show ?thesis using 2(2) [OF False rest] 2(6,8) by simp
  qed
qed simp

lemma links_acyclic:
  assumes "distinct (map version_id vs)"
  shows "acyclic (links vs)"
proof -
  let ?ids = "map version_id vs"
  define rank where "rank = inv_into {..<length vs} (\<lambda>i. ?ids ! i)"
  have "inj_on (\<lambda>i. ?ids ! i) {..<length vs}" using assms by (auto simp: inj_on_def nth_eq_iff_index_eq simp del: nth_map)
  then have r: "rank (version_id (vs ! i)) = i" if "i < length vs" for i
    using that inv_into_f_f [of "\<lambda>i. ?ids ! i" "{..<length vs}" i] by (simp add: rank_def)
  have "(links vs)\<inverse> \<subseteq> measure rank" by (auto simp: links_def next_before_def r)
  then have "acyclic ((links vs)\<inverse>)" using wf_acyclic wf_subset wf_measure by metis
  then show ?thesis by simp
qed

lemma hex_no_at: "list_all is_hexdigit s \<Longrightarrow> CHR ''@'' \<notin> set s"
  by (auto simp: list_all_iff is_hexdigit_def is_digit_def byte_simps)

lemma changed_sha: "changed_entities debug run_git store prefix known c = Inr es \<Longrightarrow> CHR ''@'' \<notin> set (sha c)"
  by (auto simp: changed_entities_def git_show_diff_def and_then_Inr validate_sha_def hex_no_at split: if_splits)

definition version_in :: "CommitMeta \<Rightarrow> ChangedEntity \<Rightarrow> VersionRow" where
  "version_in c e = \<lparr>version_id = entity_id e @ ''@'' @ sha c, entity = e, commit_sha = sha c, version_at = committed_at c\<rparr>"

definition changes_of :: "(CommitMeta \<Rightarrow> string + ChangedEntity list) \<Rightarrow> CommitMeta \<Rightarrow> ChangedEntity list" where
  "changes_of entities_of c = (case entities_of c of Inr es \<Rightarrow> es | Inl err \<Rightarrow> [])"

lemma collect_commits_versions:
  "collect_commits entities_of cs st = Inr st' \<Longrightarrow>
     versions (fst st') = versions (fst st) @
       concat (map (\<lambda>c. map (version_in c) (changes_of entities_of c)) (filter (\<lambda>c. length (parents c) \<le> 1) cs))"
proof (induction entities_of cs st rule: collect_commits.induct)
  case (2 entities_of c cs st)
  show ?case
  proof (cases "1 < length (parents c)")
    case True
    with 2(3) have "collect_commits entities_of cs st = Inr st'" by simp
    from 2(1) [OF True this] True show ?thesis by simp
  next
    case False
    then obtain es where es: "entities_of c = Inr es" and rest: "collect_commits entities_of cs (fold (add_version c) es st) = Inr st'"
      using 2(3) by (auto simp: and_then_Inr)
    from 2(2) [OF False rest] es False show ?thesis by (simp add: fold_versions changes_of_def version_in_def)
  qed
qed simp

text \<open>The \<open>VersionOf\<close> edges, grouped by the label of their target.\<close>

definition under :: "(string \<times> 'a list) list \<Rightarrow> string \<Rightarrow> 'a list" where
  "under m k = (case map_of m k of Some xs \<Rightarrow> xs | None \<Rightarrow> [])"

lemma under_push: "under (push_under k x m) k' = (if k' = k then under m k @ [x] else under m k')"
  by (induction m) (auto simp: under_def)

definition grouped :: "Collected \<Rightarrow> bool" where
  "grouped c \<longleftrightarrow> (\<forall>label. under (version_of c) label =
     map (\<lambda>v. (version_id v, entity_id (entity v))) (filter (\<lambda>v. entity_label (entity v) = label) (versions c)))"

lemma add_version_grouped: "grouped (fst st) \<Longrightarrow> grouped (fst (add_version commit e st))"
  by (auto simp: grouped_def add_version_def Let_def under_push split: prod.splits)

lemma collect_commits_grouped: "collect_commits entities_of cs st = Inr st' \<Longrightarrow> grouped (fst st) \<Longrightarrow> grouped (fst st')"
proof (induction entities_of cs st rule: collect_commits.induct)
  case (2 entities_of c cs st)
  have "grouped (fst (fold (add_version c) es st))" for es
    using 2(4) by (induction es arbitrary: st) (auto simp: add_version_grouped)
  then show ?case using 2 by (auto simp: and_then_Inr split: if_splits)
qed simp

text \<open>A commit that lists an entity twice, as a change of a file into a link does (one entry deletes it, one adds it),
  gives two versions with one id, the second linked to itself.\<close>

lemma twice_in_commit_loops:
  "entity_id e = entity_id e' \<Longrightarrow> vid = entity_id e @ ''@'' @ sha c \<Longrightarrow>
     (vid, vid) \<in> set (prev_version (fst (fold (add_version c) [e, e'] st)))"
  by (cases st) (simp add: add_version_def Let_def)

text \<open>C35: the versions are the changes of the commits that are not merges, from the last commit of the log to its first
  (\<open>git log\<close> lists the newest first), each with the hash and the time of its commit. The link to the previous version
  leads from each version to the version of the same entity next before it in that order, so to the newest older commit
  that changed it; each version has the edge to its commit and, under the label of its entity, the edge to the entity.
  When the hashes are distinct and no commit lists an entity twice, ids are unique and following the links never comes
  back to a version.\<close>

theorem history_chain_exact:
  assumes collected: "collect_versions debug run_git store prefix known commits = Inr c"
  shows "versions c = concat (map (\<lambda>commit. map
        (\<lambda>e. \<lparr>version_id = entity_id e @ ''@'' @ sha commit, entity = e, commit_sha = sha commit, version_at = committed_at commit\<rparr>)
        (case changed_entities debug run_git store prefix known commit of Inr es \<Rightarrow> es | Inl err \<Rightarrow> []))
      (filter (\<lambda>commit. length (parents commit) \<le> 1) (rev commits))) \<and>
    set (prev_version c) = links (versions c) \<and>
    changed_in c = map (\<lambda>v. (version_id v, commit_sha v)) (versions c) \<and>
    (\<forall>label. under (version_of c) label =
       map (\<lambda>v. (version_id v, entity_id (entity v))) (filter (\<lambda>v. entity_label (entity v) = label) (versions c))) \<and>
    (distinct (map sha commits) \<longrightarrow>
     (\<forall>commit \<in> set commits. \<forall>es. changed_entities debug run_git store prefix known commit = Inr es \<longrightarrow> distinct (map entity_id es)) \<longrightarrow>
     distinct (map version_id (versions c)) \<and> acyclic (set (prev_version c)))"
proof -
  let ?changes = "changed_entities debug run_git store prefix known"
  obtain lv where run: "collect_commits ?changes (rev commits) (nothing_collected, \<lambda>e. None) = Inr (c, lv)"
    using collected by (auto simp: collect_versions_def map_sum_def split: sum.splits prod.splits)
  have start: "collected_inv (nothing_collected, \<lambda>e. None)"
    by (simp add: collected_inv_def nothing_collected_def links_def next_before_def last_of_def)
  have inv: "collected_inv (c, lv)" by (rule collect_commits_inv [OF run start])
  have "grouped (fst (nothing_collected, \<lambda>e. None :: string option))" by (simp add: grouped_def nothing_collected_def under_def)
  from collect_commits_grouped [OF run this] have grouped: "grouped c" by simp
  have ids: "distinct (map version_id (versions c))" if "distinct (map sha commits)"
      "\<forall>commit \<in> set commits. \<forall>es. ?changes commit = Inr es \<longrightarrow> distinct (map entity_id es)"
  proof -
    have "distinct (map sha (rev commits))" using that(1) by (simp add: rev_map [symmetric])
    moreover have "\<forall>commit \<in> set (rev commits). \<forall>es. length (parents commit) \<le> 1 \<longrightarrow> ?changes commit = Inr es \<longrightarrow>
        CHR ''@'' \<notin> set (sha commit) \<and> distinct (map entity_id es)"
      using that(2) changed_sha by auto
    ultimately show ?thesis using collect_distinct [OF run start] by (simp add: nothing_collected_def)
  qed
  have "versions c = concat (map (\<lambda>commit. map (version_in commit) (changes_of ?changes commit))
      (filter (\<lambda>commit. length (parents commit) \<le> 1) (rev commits)))"
    using collect_commits_versions [OF run] by (simp add: nothing_collected_def)
  note versions = this [unfolded version_in_def [abs_def] changes_of_def]
  have facts: "set (prev_version c) = links (versions c)" "changed_in c = map (\<lambda>v. (version_id v, commit_sha v)) (versions c)"
    using inv by (simp_all add: collected_inv_def)
  have chain: "distinct (map version_id (versions c)) \<and> acyclic (set (prev_version c))" if "distinct (map sha commits)"
      "\<forall>commit \<in> set commits. \<forall>es. ?changes commit = Inr es \<longrightarrow> distinct (map entity_id es)"
    using ids [OF that] links_acyclic unfolding facts(1) by blast
  show ?thesis
    by (intro conjI impI chain) (fact versions facts grouped [unfolded grouped_def])+
qed

definition demo_history_git :: "string list \<Rightarrow> string + string" where
  "demo_history_git args =
     Inr (''diff --git a/m.rs b/m.rs'' @ [CHR 0x0A] @ ''--- a/m.rs'' @ [CHR 0x0A] @ ''+++ b/m.rs'' @ [CHR 0x0A])"

definition demo_history_commit :: "string \<Rightarrow> CommitMeta" where
  "demo_history_commit s = \<lparr>sha = s, author = [], email = [], committed_at = 0, parents = [], message = []\<rparr>"

lemma history_chain_exact_witness:
  "\<exists>c. collect_versions id demo_history_git (\<lambda>q. Inr []) [] {''m.rs''} [demo_history_commit ''bbbb'', demo_history_commit ''aaaa''] = Inr c \<and>
     changed_in c = map (\<lambda>v. (version_id v, commit_sha v)) (versions c) \<and> set (prev_version c) = {(''m.rs@bbbb'', ''m.rs@aaaa'')}"
proof -
  let ?run = "collect_versions id demo_history_git (\<lambda>q. Inr []) [] {''m.rs''} [demo_history_commit ''bbbb'', demo_history_commit ''aaaa'']"
  have "map_sum id prev_version ?run = Inr [(''m.rs@bbbb'', ''m.rs@aaaa'')]" by code_simp
  then obtain c where c: "?run = Inr c" and p: "prev_version c = [(''m.rs@bbbb'', ''m.rs@aaaa'')]" by (cases ?run) auto
  from history_chain_exact [OF c] c p show ?thesis by simp
qed

end
