(* ===== verification/DiffImpact.thy ===== *)
theory DiffImpact
  imports GitDiff Impact
begin

text \<open>
  The symbols a diff changes (the second half of \<open>src/git_diff.rs\<close>): the lines of each file are compared with the line
  ranges of the symbols in the graph, each symbol is given its communities and processes (\<open>get_impact\<close> with the reads
  of \<open>src/graph_store/membership.rs\<close>), and the whole a score and a boundary. \<open>prepared\<close> answers a statement with its
  one parameter; \<open>iterate\<close> is the order in which a hash set gives its elements.
\<close>

section \<open>Memberships of a symbol\<close>

datatype SymbolMatch = ById string | ByQualifiedName string | IdOrQualifiedName string

fun predicate :: "SymbolMatch \<Rightarrow> string" where
  "predicate (ById v) = ''n.id = $v''"
| "predicate (ByQualifiedName v) = ''n.qualified_name = $v''"
| "predicate (IdOrQualifiedName v) = ''n.id = $v OR n.qualified_name = $v''"

fun match_value :: "SymbolMatch \<Rightarrow> string" where
  "match_value (ById v) = v"
| "match_value (ByQualifiedName v) = v"
| "match_value (IdOrQualifiedName v) = v"

type_synonym prepared = "string \<Rightarrow> string \<Rightarrow> string + string list list"

definition first_column :: "prepared \<Rightarrow> string \<Rightarrow> SymbolMatch \<Rightarrow> string list" where
  "first_column prepared cypher m =
     (case prepared cypher (match_value m) of
        Inl e \<Rightarrow> []
      | Inr rs \<Rightarrow> filter (\<lambda>v. v \<noteq> []) (List.map_filter (\<lambda>row. case row of v # vs \<Rightarrow> Some v | [] \<Rightarrow> None) rs))"

definition community_ids :: "prepared \<Rightarrow> string \<Rightarrow> SymbolMatch \<Rightarrow> string list" where
  "community_ids prepared label m =
     first_column prepared (''MATCH (n:'' @ label @ '')-[:MemberOf_'' @ label @ ''_Community]->(c:Community) WHERE '' @ predicate m @ '' RETURN c.id'') m"

definition process_names :: "prepared \<Rightarrow> string \<Rightarrow> SymbolMatch \<Rightarrow> string list" where
  "process_names prepared label m =
     (if label \<notin> {''Function'', ''Method''} then []
      else first_column prepared (''MATCH (n:'' @ label @ '')-[:ParticipatesIn_'' @ label @ ''_Process]->(p:Process) WHERE '' @ predicate m
        @ '' RETURN p.name'') m)"

definition collect_communities :: "prepared \<Rightarrow> string \<Rightarrow> string list" where
  "collect_communities prepared target = concat (map (\<lambda>label. community_ids prepared label (IdOrQualifiedName target)) SYMBOL_LABELS)"

definition collect_processes :: "prepared \<Rightarrow> string \<Rightarrow> string list" where
  "collect_processes prepared target =
     concat (map (\<lambda>label. process_names prepared label (IdOrQualifiedName target)) [''Function'', ''Method''])"

section \<open>From lines to symbols\<close>

record ChangedSymbol =
  changed_qn :: string
  changed_name :: string
  changed_label :: string
  changed_path :: string
  changed_how :: string
  changed_count :: nat
  changed_community :: "string option"
  changed_processes :: "string list"

definition SYMBOL_LABELS_WITH_LINES :: "string list" where
  "SYMBOL_LABELS_WITH_LINES = [''Function'', ''Method'', ''Struct'', ''Enum'', ''Trait'']"

definition symbols_query :: "string \<Rightarrow> string \<Rightarrow> string" where
  "symbols_query path label =
     ''MATCH (f:File)-[:Defines_File_'' @ label @ '']->(n:'' @ label @ '') WHERE f.path = '' @ cypher_str path
       @ '' RETURN n.id, n.name, n.qualified_name, n.start_line, n.end_line''"

definition line_of :: "string \<Rightarrow> nat" where
  "line_of s = (case parse_dec (2 ^ 64) s of Some n \<Rightarrow> n | None \<Rightarrow> 0)"

definition overlap :: "string list \<Rightarrow> nat list \<Rightarrow> nat" where
  "overlap row lines = length (filter (\<lambda>l. line_of (row ! 3) \<le> l \<and> l \<le> line_of (row ! 4)) lines)"

definition row_symbol :: "prepared \<Rightarrow> FileHunk \<Rightarrow> string \<Rightarrow> string list \<Rightarrow> ChangedSymbol" where
  "row_symbol prepared hunk label row =
     \<lparr>changed_qn = row ! 2, changed_name = row ! 1, changed_label = label, changed_path = file_path hunk,
      changed_how = (if is_new hunk then ''added'' else if is_deleted hunk then ''deleted'' else ''modified''),
      changed_count = (if is_new hunk \<or> is_deleted hunk then line_of (row ! 4) - line_of (row ! 3) + 1
        else overlap row (changed_lines hunk)),
      changed_community = (case collect_communities prepared (row ! 2) of c # cs \<Rightarrow> Some c | [] \<Rightarrow> None),
      changed_processes = collect_processes prepared (row ! 2)\<rparr>"

fun map_rows :: "prepared \<Rightarrow> FileHunk \<Rightarrow> (string \<times> string list) list \<Rightarrow> string set \<Rightarrow> ChangedSymbol list" where
  "map_rows prepared hunk [] seen = []"
| "map_rows prepared hunk ((label, row) # rs) seen =
     (if length row < 5 \<or> row ! 0 \<in> seen then map_rows prepared hunk rs seen
      else if overlap row (changed_lines hunk) = 0 \<and> \<not> is_new hunk \<and> \<not> is_deleted hunk then map_rows prepared hunk rs seen
      else row_symbol prepared hunk label row # map_rows prepared hunk rs (insert (row ! 0) seen))"

definition labelled_rows :: "store \<Rightarrow> string \<Rightarrow> (string \<times> string list) list" where
  "labelled_rows store path = concat (map (\<lambda>label. map (Pair label) (rows_of store (symbols_query path label))) SYMBOL_LABELS_WITH_LINES)"

definition map_lines_to_symbols :: "store \<Rightarrow> prepared \<Rightarrow> FileHunk \<Rightarrow> ChangedSymbol list" where
  "map_lines_to_symbols store prepared hunk = map_rows prepared hunk (labelled_rows store (file_path hunk)) {}"

section \<open>The score and the boundary\<close>

definition compute_risk_score :: "'f f64 \<Rightarrow> ChangedSymbol list \<Rightarrow> nat \<Rightarrow> 'f" where
  "compute_risk_score F symbols total_communities =
     (if symbols = [] then f_lit F 0
      else let max_proc = f_lit F (max (Max (set (map (length \<circ> changed_processes) symbols))) 1);
               avg = f_div F (foldl (f_add F) (f_lit F 0) (map (\<lambda>s. f_div F (f_lit F (length (changed_processes s))) max_proc) symbols))
                 (f_lit F (length symbols));
               communities = length (remdups (List.map_filter changed_community symbols));
               community_ratio = f_div F (f_lit F communities) (f_lit F (max total_communities 1));
               risk = f_add F (f_mul F (f_div F (f_lit F 6) (f_lit F 10)) avg) (f_mul F (f_div F (f_lit F 4) (f_lit F 10)) community_ratio) in
           if f_gt F risk (f_lit F 1) then f_lit F 1 else risk)"

definition count_total_communities :: "store \<Rightarrow> nat" where
  "count_total_communities store =
     (case rows_of store ''MATCH (c:Community) RETURN count(c)'' of (c # cs) # rs \<Rightarrow> line_of c | _ \<Rightarrow> 0)"

definition assess_dependency_confidence :: "'f f64 \<Rightarrow> (string \<Rightarrow> 'f option) \<Rightarrow> store \<Rightarrow> ChangedSymbol list \<Rightarrow> 'f \<times> Boundary \<times> string list" where
  "assess_dependency_confidence F parse store symbols =
     (let impacts = map (\<lambda>s. (changed_qn s, get_impact F parse store (changed_qn s))) symbols;
          confs = concat (map (\<lambda>(qn, deps, ep). map confidence (callers deps @ importers deps @ users deps @ implementors deps)) impacts);
          lower = filter (\<lambda>(qn, deps, ep). boundary ep = LowerBound) impacts in
      (if confs = [] then f_lit F 1 else f_div F (foldl (f_add F) (f_lit F 0) confs) (f_lit F (length confs)),
       if lower = [] then Exact else LowerBound,
       concat (map (\<lambda>(qn, deps, ep). map (\<lambda>r. qn @ '': '' @ r) (reasons ep)) lower)))"

record 'f DiffAnalysis =
  files_changed :: nat
  symbols_affected :: "ChangedSymbol list"
  communities_affected :: "string list"
  processes_affected :: "string list"
  risk_score :: 'f
  mean_dependency_confidence :: 'f
  diff_boundary :: Boundary
  diff_reasons :: "string list"

definition build_analysis :: "'f f64 \<Rightarrow> (string \<Rightarrow> 'f option) \<Rightarrow> (string list \<Rightarrow> string list) \<Rightarrow> store \<Rightarrow> prepared \<Rightarrow> FileHunk list \<Rightarrow> 'f DiffAnalysis" where
  "build_analysis F parse iterate store prepared hs =
     (let symbols = concat (map (map_lines_to_symbols store prepared) hs);
          (mean, bound, rs) = assess_dependency_confidence F parse store symbols in
      \<lparr>files_changed = length hs, symbols_affected = symbols,
       communities_affected = iterate (remdups (List.map_filter changed_community symbols)),
       processes_affected = iterate (remdups (concat (map changed_processes symbols))),
       risk_score = compute_risk_score F symbols (count_total_communities store),
       mean_dependency_confidence = mean, diff_boundary = bound, diff_reasons = rs\<rparr>)"

definition analyze_diff :: "'f f64 \<Rightarrow> (string \<Rightarrow> 'f option) \<Rightarrow> (string list \<Rightarrow> string list) \<Rightarrow> store \<Rightarrow> prepared \<Rightarrow> string \<Rightarrow> string + 'f DiffAnalysis" where
  "analyze_diff F parse iterate store prepared diff_text =
     map_sum id (build_analysis F parse iterate store prepared) (parse_unified_diff diff_text)"

text \<open>\<open>git_diff\<close> runs \<open>git diff\<close> on a range: an error to start it, its standard error, or its output.\<close>

definition analyze_git_diff :: "'f f64 \<Rightarrow> (string \<Rightarrow> 'f option) \<Rightarrow> (string list \<Rightarrow> string list) \<Rightarrow> (string \<Rightarrow> string) \<Rightarrow> (string \<Rightarrow> string + (string + string))
    \<Rightarrow> store \<Rightarrow> prepared \<Rightarrow> string \<Rightarrow> string \<Rightarrow> string + 'f DiffAnalysis" where
  "analyze_git_diff F parse iterate debug git_diff store prepared base_ref head_ref =
     and_then (validate_git_ref debug base_ref ''base_ref'') (\<lambda>_.
     and_then (validate_git_ref debug head_ref ''head_ref'') (\<lambda>_.
       case git_diff (base_ref @ ''..'' @ head_ref) of
         Inl e \<Rightarrow> Inl (''failed to run git diff: '' @ e)
       | Inr (Inl stderr) \<Rightarrow> Inl (''git diff failed: '' @ stderr)
       | Inr (Inr diff_text) \<Rightarrow> analyze_diff F parse iterate store prepared diff_text))"

section \<open>What is reported\<close>

definition reportable :: "FileHunk \<Rightarrow> string list \<Rightarrow> bool" where
  "reportable hunk row \<longleftrightarrow> 5 \<le> length row \<and> (is_new hunk \<or> is_deleted hunk \<or>
     (\<exists>l \<in> set (changed_lines hunk). line_of (row ! 3) \<le> l \<and> l \<le> line_of (row ! 4)))"

lemma overlap_0: "overlap row lines = 0 \<longleftrightarrow> \<not> (\<exists>l \<in> set lines. line_of (row ! 3) \<le> l \<and> l \<le> line_of (row ! 4))"
  by (auto simp: overlap_def filter_empty_conv)

lemma map_rows_Cons:
  "map_rows prepared hunk ((label, row) # rs) seen =
     (if reportable hunk row \<and> row ! 0 \<notin> seen then row_symbol prepared hunk label row # map_rows prepared hunk rs (insert (row ! 0) seen)
      else map_rows prepared hunk rs seen)"
  by (auto simp: reportable_def overlap_0)

declare map_rows.simps(2) [simp del]

lemma map_rows_sound:
  "s \<in> set (map_rows prepared hunk rs seen) \<Longrightarrow>
     \<exists>label row. (label, row) \<in> set rs \<and> reportable hunk row \<and> s = row_symbol prepared hunk label row"
proof (induction rs arbitrary: seen)
  case (Cons p rs)
  obtain label row where p: "p = (label, row)" by (cases p)
  from Cons.prems consider "reportable hunk row" "s = row_symbol prepared hunk label row" | seen' where "s \<in> set (map_rows prepared hunk rs seen')"
    by (auto simp: p map_rows_Cons split: if_splits)
  then show ?case
  proof cases
    case 2
    from Cons.IH [OF this] show ?thesis by (auto simp: p)
  qed (auto simp: p)
qed simp

text \<open>The first row of each id.\<close>

fun first_per_id :: "('l \<times> string list) list \<Rightarrow> ('l \<times> string list) list" where
  "first_per_id [] = []"
| "first_per_id (x # xs) = x # first_per_id (filter (\<lambda>y. snd y ! 0 \<noteq> snd x ! 0) xs)"

lemma map_rows_first:
  "map_rows prepared hunk rs seen =
     map (\<lambda>(label, row). row_symbol prepared hunk label row)
       (first_per_id (filter (\<lambda>x. reportable hunk (snd x) \<and> snd x ! 0 \<notin> seen) rs))"
proof (induction rs arbitrary: seen)
  case (Cons p rs)
  obtain label row where p: "p = (label, row)" by (cases p)
  have "filter (\<lambda>x. reportable hunk (snd x) \<and> snd x ! 0 \<notin> insert (row ! 0) seen) rs =
      filter (\<lambda>y. snd y ! 0 \<noteq> row ! 0) (filter (\<lambda>x. reportable hunk (snd x) \<and> snd x ! 0 \<notin> seen) rs)"
    by (auto intro: filter_cong)
  then show ?case using Cons.IH by (simp add: p map_rows_Cons)
qed simp

lemma labelled_rows_mem:
  "(label, row) \<in> set (labelled_rows store path) \<longleftrightarrow> label \<in> set SYMBOL_LABELS_WITH_LINES \<and> row \<in> set (rows_of store (symbols_query path label))"
  by (auto simp: labelled_rows_def)

lemma boundary_exact:
  "fst (snd (assess_dependency_confidence F parse store symbols)) = Exact \<longleftrightarrow>
     (\<forall>s \<in> set symbols. boundary (snd (get_impact F parse store (changed_qn s))) \<noteq> LowerBound)"
  by (auto simp: assess_dependency_confidence_def Let_def filter_empty_conv case_prod_beta)

text \<open>C33: the symbols reported for a file of a diff, in order and each id once: of the rows that the graph gives for the
  functions, methods, structs, enums and traits that the \<open>File\<close> node defines itself, those that have the five columns
  and belong to a new or deleted file or hold a changed line between their first and last line. The answer is called
  exact exactly when the impact of every symbol reported for a file of the diff is not a lower bound. (What a module or
  an \<open>impl\<close> defines is not among those rows, see \<open>changed_methods_missed\<close>.)\<close>

theorem diff_symbols_exact:
  "map_lines_to_symbols store prepared hunk =
     map (\<lambda>(label, row). row_symbol prepared hunk label row)
       (first_per_id (filter (\<lambda>(label, row). 5 \<le> length row \<and> (is_new hunk \<or> is_deleted hunk \<or>
            (\<exists>l \<in> set (changed_lines hunk). line_of (row ! 3) \<le> l \<and> l \<le> line_of (row ! 4))))
          (concat (map (\<lambda>label. map (Pair label) (rows_of store (symbols_query (file_path hunk) label)))
             [''Function'', ''Method'', ''Struct'', ''Enum'', ''Trait'']))))
   \<and> symbols_affected (build_analysis F parse iterate store prepared hs) = concat (map (map_lines_to_symbols store prepared) hs)
   \<and> (diff_boundary (build_analysis F parse iterate store prepared hs) = Exact \<longleftrightarrow>
       list_all (\<lambda>hunk. list_all (\<lambda>s. boundary (snd (get_impact F parse store (changed_qn s))) \<noteq> LowerBound)
         (map_lines_to_symbols store prepared hunk)) hs)"
proof (intro conjI)
  show "map_lines_to_symbols store prepared hunk =
     map (\<lambda>(label, row). row_symbol prepared hunk label row)
       (first_per_id (filter (\<lambda>(label, row). 5 \<le> length row \<and> (is_new hunk \<or> is_deleted hunk \<or>
            (\<exists>l \<in> set (changed_lines hunk). line_of (row ! 3) \<le> l \<and> l \<le> line_of (row ! 4))))
          (concat (map (\<lambda>label. map (Pair label) (rows_of store (symbols_query (file_path hunk) label)))
             [''Function'', ''Method'', ''Struct'', ''Enum'', ''Trait'']))))"
    unfolding map_lines_to_symbols_def map_rows_first labelled_rows_def SYMBOL_LABELS_WITH_LINES_def reportable_def case_prod_beta
    by simp
  show "symbols_affected (build_analysis F parse iterate store prepared hs) = concat (map (map_lines_to_symbols store prepared) hs)"
    by (simp add: build_analysis_def Let_def case_prod_beta)
  show "diff_boundary (build_analysis F parse iterate store prepared hs) = Exact \<longleftrightarrow>
       list_all (\<lambda>hunk. list_all (\<lambda>s. boundary (snd (get_impact F parse store (changed_qn s))) \<noteq> LowerBound)
         (map_lines_to_symbols store prepared hunk)) hs"
    using boundary_exact [of F parse store "concat (map (map_lines_to_symbols store prepared) hs)"]
    by (simp add: build_analysis_def Let_def case_prod_beta list_all_iff)
qed

definition demo_diff_store :: store where
  "demo_diff_store q = (if q = symbols_query ''m.rs'' ''Function'' then Inr [[''m.rs::f'', ''f'', ''m.rs::f'', ''3'', ''7''],
     [''m.rs::g'', ''g'', ''m.rs::g'', ''8'', ''9'']] else Inr [])"

lemma diff_symbols_exact_witness:
  "map changed_qn (map_lines_to_symbols demo_diff_store (\<lambda>q v. Inr [])
     \<lparr>file_path = ''m.rs'', changed_lines = [2, 5], is_new = False, is_deleted = False\<rparr>) = [''m.rs::f'']"
proof -
  let ?hunk = "\<lparr>file_path = ''m.rs'', changed_lines = [2, 5], is_new = False, is_deleted = False\<rparr>"
  have rows: "rows_of demo_diff_store (symbols_query ''m.rs'' ''Function'') = [[''m.rs::f'', ''f'', ''m.rs::f'', ''3'', ''7''],
      [''m.rs::g'', ''g'', ''m.rs::g'', ''8'', ''9'']]"
    "rows_of demo_diff_store (symbols_query ''m.rs'' ''Method'') = []" "rows_of demo_diff_store (symbols_query ''m.rs'' ''Struct'') = []"
    "rows_of demo_diff_store (symbols_query ''m.rs'' ''Enum'') = []" "rows_of demo_diff_store (symbols_query ''m.rs'' ''Trait'') = []"
    by (simp_all add: rows_of_def demo_diff_store_def symbols_query_def)
  have "line_of ''3'' = 3" "line_of ''7'' = 7" "line_of ''8'' = 8" "line_of ''9'' = 9"
    by (simp_all add: line_of_def parse_dec_def starts_with_def digit_value_def is_digit_def byte_simps)
  then show ?thesis
    using diff_symbols_exact [THEN conjunct1, of demo_diff_store "\<lambda>q v. Inr []" ?hunk] by (simp add: rows row_symbol_def)
qed

text \<open>C34: a changed method is never reported. The methods of a file are looked for in the table
  \<open>Defines_File_Method\<close>, which the schema does not declare, so the database refuses the statement and the loop goes on
  with the next label.\<close>

theorem changed_methods_missed:
  assumes refuses: "\<And>path label. \<not> is_known_rel_table (''Defines_File_'' @ label) \<Longrightarrow> \<exists>e. store (symbols_query path label) = Inl e"
  shows "\<forall>s \<in> set (symbols_affected (build_analysis F parse iterate store prepared hs)). changed_label s \<noteq> ''Method''"
proof -
  have "\<not> is_known_rel_table (''Defines_File_'' @ ''Method'')" by (simp add: is_known_rel_table_def REL_TABLES_def)
  then have none: "rows_of store (symbols_query path ''Method'') = []" for path
    using refuses [of "''Method''" path] by (auto simp: rows_of_def)
  have "changed_label s \<noteq> ''Method''" if "s \<in> set (map_lines_to_symbols store prepared h)" for s h
    using map_rows_sound [OF that [unfolded map_lines_to_symbols_def]] none
    by (auto simp: labelled_rows_mem row_symbol_def)
  then show ?thesis by (auto simp: build_analysis_def Let_def split: prod.splits)
qed

lemma changed_methods_missed_witness:
  "list_all (\<lambda>s. changed_label s \<noteq> ''Method'') (symbols_affected (build_analysis \<lparr>f_lit = id, f_add = (+), f_sub = (-), f_mul = (*),
      f_div = (div), f_eq = (=), f_gt = (>)\<rparr> (\<lambda>s. None) id (\<lambda>q. Inl ''Binder exception'') (\<lambda>q v. Inr [])
      [\<lparr>file_path = ''a.rs'', changed_lines = [1], is_new = True, is_deleted = False\<rparr>]))"
  using changed_methods_missed [of "\<lambda>q. Inl ''Binder exception''"] by (simp add: list_all_iff)

end
