(* ===== verification/PrdValidator.thy ===== *)
theory PrdValidator
  imports DiffImpact SecurityGates
begin

text \<open>
  The validation of a PRD against the graph (\<open>src/prd_validator/\<close>): the claims are read from a contract or, without one,
  from the text; each is looked up; the verdicts, the communities and the processes of the symbols give findings, and
  the findings the status. Files are what reading them gives, the parser of JSON is a parameter.
\<close>

section \<open>Claims\<close>

record SymbolClaim =
  claim_token :: string
  change_kind :: string
  claim_rationale :: string

datatype ScopeClaim = CommunityScope string | ProcessExclusion "string list"

definition FALLBACK_MIN_TOKEN_LEN :: nat where "FALLBACK_MIN_TOKEN_LEN = 3"
definition FALLBACK_MAX_TOKENS :: nat where "FALLBACK_MAX_TOKENS = 64"

text \<open>\<open>Value::get\<close> of a key: \<open>None\<close> on anything but an object.\<close>

definition json_member :: "json \<Rightarrow> string \<Rightarrow> json option" where
  "json_member v key = (case v of JObj m \<Rightarrow> get m key | _ \<Rightarrow> None)"

definition str_field :: "json \<Rightarrow> string \<Rightarrow> string" where
  "str_field v key = (case Option.bind (json_member v key) as_str of Some s \<Rightarrow> s | None \<Rightarrow> [])"

definition str_field_default :: "json \<Rightarrow> string \<Rightarrow> string \<Rightarrow> string" where
  "str_field_default v key dflt = (if str_field v key = [] then dflt else str_field v key)"

definition array_field :: "json \<Rightarrow> string \<Rightarrow> json list" where
  "array_field v key = (case Option.bind (json_member v key) as_array of Some xs \<Rightarrow> xs | None \<Rightarrow> [])"

definition structured_claim :: "json \<Rightarrow> SymbolClaim option" where
  "structured_claim item =
     (if str_field item ''qualified_name'' = [] then None
      else Some \<lparr>claim_token = str_field item ''qualified_name'', change_kind = str_field_default item ''change_kind'' ''unknown'',
        claim_rationale = str_field item ''rationale''\<rparr>)"

definition scope_claim :: "json \<Rightarrow> ScopeClaim option" where
  "scope_claim item =
     (if str_field item ''kind'' = ''community_scope'' then Some (CommunityScope (str_field item ''assertion''))
      else if str_field item ''kind'' = ''process_exclusion'' then Some (ProcessExclusion (List.map_filter as_str (array_field item ''processes'')))
      else None)"

definition parse_structured_claims :: "json \<Rightarrow> SymbolClaim list \<times> ScopeClaim list" where
  "parse_structured_claims v =
     (List.map_filter structured_claim (array_field v ''affected_symbols''), List.map_filter scope_claim (array_field v ''scope_claims''))"

definition is_alpha :: "char \<Rightarrow> bool" where
  "is_alpha c \<longleftrightarrow> is_upper c \<or> is_lower c"

definition is_identifier_or_qn :: "string \<Rightarrow> bool" where
  "is_identifier_or_qn s \<longleftrightarrow> s \<noteq> [] \<and> list_all (\<lambda>c. is_alnum c \<or> c = CHR ''_'' \<or> c = CHR '':'') s \<and> list_ex (\<lambda>c. is_alpha c \<or> c = CHR ''_'') s"

text \<open>The spans between backticks on one line.\<close>

function extract_backticked :: "string \<Rightarrow> string list" where
  "extract_backticked [] = []"
| "extract_backticked (c # s) =
     (if c = CHR 0x60 then
        (let span = takeWhile (\<lambda>d. d \<noteq> CHR 0x60 \<and> d \<noteq> CHR 0x0A) s; rest = dropWhile (\<lambda>d. d \<noteq> CHR 0x60 \<and> d \<noteq> CHR 0x0A) s in
         if rest \<noteq> [] \<and> hd rest = CHR 0x60
         then (if is_identifier_or_qn span then [span] else []) @ extract_backticked (tl rest)
         else extract_backticked s)
      else extract_backticked s)"
  by pat_completeness auto

termination extract_backticked
proof (relation "measure length")
  fix c :: char and s span rest :: string
  assume "rest = dropWhile (\<lambda>d. d \<noteq> CHR 0x60 \<and> d \<noteq> CHR 0x0A) s" "rest \<noteq> [] \<and> hd rest = CHR 0x60"
  then show "(tl rest, c # s) \<in> measure length"
    using length_dropWhile_le [of "\<lambda>d. d \<noteq> CHR 0x60 \<and> d \<noteq> CHR 0x0A" s] by simp
qed auto

definition is_path_separator :: "char \<Rightarrow> bool" where
  "is_path_separator c \<longleftrightarrow> byte c \<in> {9, 10, 12, 13, 32} \<or> c \<in> {CHR 0x60, CHR ''('', CHR '')'', CHR '',''}"

fun split_chars :: "(char \<Rightarrow> bool) \<Rightarrow> string \<Rightarrow> string \<Rightarrow> string list" where
  "split_chars sep acc [] = [rev acc]"
| "split_chars sep acc (c # s) = (if sep c then rev acc # split_chars sep [] s else split_chars sep (c # acc) s)"

definition looks_like_file_path :: "string \<Rightarrow> bool" where
  "looks_like_file_path s \<longleftrightarrow> contains s ''/'' \<and>
     list_ex (ends_with s) [''.rs'', ''.ts'', ''.tsx'', ''.py'', ''.go'', ''.js''] \<and>
     list_all (\<lambda>c. is_alnum c \<or> c \<in> {CHR ''_'', CHR ''/'', CHR ''-'', CHR ''.''}) s"

definition trim_punctuation :: "string \<Rightarrow> string" where
  "trim_punctuation s = rev (dropWhile (\<lambda>c. c \<in> {CHR ''.'', CHR '','', CHR '';'', CHR '':''}) (rev s))"

definition extract_file_paths :: "string \<Rightarrow> string list" where
  "extract_file_paths text_in = map trim_punctuation (filter looks_like_file_path (split_chars is_path_separator [] text_in))"

definition push_token :: "string \<Rightarrow> SymbolClaim list \<Rightarrow> SymbolClaim list" where
  "push_token t out =
     (if length t < FALLBACK_MIN_TOKEN_LEN \<or> t \<in> set (map claim_token out) then out
      else out @ [\<lparr>claim_token = t, change_kind = ''unknown'', claim_rationale = ''regex_fallback''\<rparr>])"

fun push_tokens :: "string list \<Rightarrow> SymbolClaim list \<Rightarrow> SymbolClaim list" where
  "push_tokens [] out = out"
| "push_tokens (t # ts) out =
     (if FALLBACK_MAX_TOKENS \<le> length (push_token t out) then push_token t out else push_tokens ts (push_token t out))"

definition regex_extract_symbols :: "string \<Rightarrow> SymbolClaim list" where
  "regex_extract_symbols text_in =
     (let out = push_tokens (extract_backticked text_in) [] in
      if FALLBACK_MAX_TOKENS \<le> length out then out else push_tokens (extract_file_paths text_in) out)"

text \<open>\<open>contract\<close>: the text of the file with the affected symbols, when it exists and can be read.\<close>

definition load_claims :: "(string \<Rightarrow> json option) \<Rightarrow> string \<Rightarrow> string option \<Rightarrow> SymbolClaim list \<times> ScopeClaim list \<times> string \<times> bool" where
  "load_claims parse_json prd_text contract =
     (case Option.bind contract parse_json of
        Some v \<Rightarrow> (let (claims, scopes) = parse_structured_claims v in (claims, scopes, ''structured'', False))
      | None \<Rightarrow> (regex_extract_symbols prd_text, [], ''regex_fallback'', True))"

section \<open>Verdicts\<close>

record ResolvedClaim =
  claim :: SymbolClaim
  resolved_qn :: "string option"
  did_you_mean :: "string list"

definition resolve_one :: "store \<Rightarrow> SymbolClaim \<Rightarrow> ResolvedClaim" where
  "resolve_one store c =
     (case resolve_qualified_name store (claim_token c) of
        Inr qn \<Rightarrow> \<lparr>claim = c, resolved_qn = Some qn, did_you_mean = []\<rparr>
      | Inl suggestions \<Rightarrow> \<lparr>claim = c, resolved_qn = None, did_you_mean = suggestions\<rparr>)"

definition resolve_claims :: "store \<Rightarrow> SymbolClaim list \<Rightarrow> ResolvedClaim list" where
  "resolve_claims store cs = map (resolve_one store) cs"

datatype ClaimVerdict = Resolved | Hallucinated | Unverifiable string | Unscored

definition claim_file_path :: "string \<Rightarrow> string option" where
  "claim_file_path token =
     (case find_str ''::'' token of
        None \<Rightarrow> None
      | Some idx \<Rightarrow> if contains (take idx token) ''.'' then Some (take idx token) else None)"

text \<open>\<open>Path::extension\<close>.\<close>

definition path_extension :: "string \<Rightarrow> string option" where
  "path_extension p =
     (case rev (filter (\<lambda>c. c \<noteq> [] \<and> c \<noteq> ''.'') (split_on ''/'' p)) of
        [] \<Rightarrow> None
      | name # rest \<Rightarrow>
          if name = ''..'' then None
          else (case rsplit_once CHR ''.'' name of Some (before, after) \<Rightarrow> if before = [] then None else Some after | None \<Rightarrow> None))"

definition file_has_graph_node :: "store \<Rightarrow> string \<Rightarrow> bool" where
  "file_has_graph_node store path \<longleftrightarrow> rows_of store (''MATCH (f:File) WHERE f.path = '' @ cypher_str path @ '' RETURN f.id LIMIT 1'') \<noteq> []"

definition unsupported_language :: "string \<Rightarrow> string option" where
  "unsupported_language path =
     (case path_extension path of
        Some ext \<Rightarrow> if ext \<notin> set ALL_EXTENSIONS
          then Some (''language not indexed: '' @ [CHR 0x27] @ ''.'' @ ext @ [CHR 0x27] @ '' has no parser (file '' @ [CHR 0x27] @ path @ [CHR 0x27] @ '')'')
          else None
      | None \<Rightarrow> None)"

definition stripped_has_graph_node :: "store \<Rightarrow> string \<Rightarrow> bool" where
  "stripped_has_graph_node store token =
     (case Option.bind (strip_leading_path_component token) claim_file_path of Some path \<Rightarrow> file_has_graph_node store path | None \<Rightarrow> False)"

definition unverifiable_reason :: "store \<Rightarrow> string \<Rightarrow> string option" where
  "unverifiable_reason store token =
     (case claim_file_path token of
        None \<Rightarrow> None
      | Some path \<Rightarrow>
          (case unsupported_language path of
             Some reason \<Rightarrow> Some reason
           | None \<Rightarrow>
               if file_has_graph_node store path then None
               else if stripped_has_graph_node store token then None
               else Some (''file not present in the indexed graph: '' @ [CHR 0x27] @ path @ [CHR 0x27]
                 @ '' (outside indexed scope, or excluded by a language/dependency filter)'')))"

definition classify_one :: "store \<Rightarrow> ResolvedClaim \<Rightarrow> ClaimVerdict" where
  "classify_one store r =
     (if resolved_qn r \<noteq> None then Resolved
      else if change_kind (claim r) \<notin> {''modify'', ''remove'', ''rename''} then Unscored
      else case unverifiable_reason store (claim_token (claim r)) of Some reason \<Rightarrow> Unverifiable reason | None \<Rightarrow> Hallucinated)"

definition classify_unresolved :: "store \<Rightarrow> ResolvedClaim list \<Rightarrow> ClaimVerdict list" where
  "classify_unresolved store answers = map (classify_one store) answers"

section \<open>Findings\<close>

record ValidationFinding =
  axis :: string
  finding_severity :: string
  finding_message :: string
  finding_symbol :: "string option"
  finding_details :: "(string \<times> json) list"

definition quote :: "string \<Rightarrow> string" where
  "quote s = [CHR 0x27] @ s @ [CHR 0x27]"

definition claimed_symbol :: "SymbolClaim \<Rightarrow> string" where
  "claimed_symbol c = ''claimed symbol '' @ quote (claim_token c) @ '' (change_kind='' @ change_kind c @ '')''"

fun symbol_finding :: "ResolvedClaim \<Rightarrow> ClaimVerdict \<Rightarrow> ValidationFinding list" where
  "symbol_finding r Hallucinated =
     [\<lparr>axis = ''symbol_hallucination'', finding_severity = ''critical'', finding_message = claimed_symbol (claim r) @ '' not found in graph'',
       finding_symbol = Some (claim_token (claim r)),
       finding_details = [(''change_kind'', JStr (change_kind (claim r))), (''did_you_mean'', JArr (map JStr (did_you_mean r)))]\<rparr>]"
| "symbol_finding r (Unverifiable reason) =
     [\<lparr>axis = ''symbol_hallucination'', finding_severity = ''info'',
       finding_message = claimed_symbol (claim r) @ '' could not be verified: '' @ reason, finding_symbol = Some (claim_token (claim r)),
       finding_details = [(''change_kind'', JStr (change_kind (claim r))), (''did_you_mean'', JArr (map JStr (did_you_mean r))),
         (''unverifiable_reason'', JStr reason)]\<rparr>]"
| "symbol_finding r Resolved = []"
| "symbol_finding r Unscored = []"

definition emit_symbol_hallucination :: "ResolvedClaim list \<Rightarrow> ClaimVerdict list \<Rightarrow> ValidationFinding list \<Rightarrow> ValidationFinding list" where
  "emit_symbol_hallucination answers verdicts findings = findings @ concat (map (\<lambda>(r, v). symbol_finding r v) (zip answers verdicts))"

text \<open>The same message for every token that was not found, in the mode that reads the text; the dash is three bytes.\<close>

definition emit_unresolved_info :: "ResolvedClaim list \<Rightarrow> bool \<Rightarrow> ValidationFinding list \<Rightarrow> ValidationFinding list" where
  "emit_unresolved_info answers is_regex_fallback findings =
     (if \<not> is_regex_fallback then findings
      else findings @ map (\<lambda>r. \<lparr>axis = ''symbol_hallucination'', finding_severity = ''info'',
        finding_message = ''unresolved token '' @ quote (claim_token (claim r)) @ '' (regex fallback '' @ [CHR 0xE2, CHR 0x80, CHR 0x94]
          @ '' likely prose)'', finding_symbol = Some (claim_token (claim r)),
        finding_details = [(''did_you_mean'', JArr (map JStr (did_you_mean r))), (''extraction_mode'', JStr ''regex_fallback'')]\<rparr>)
        (filter (\<lambda>r. resolved_qn r = None) answers))"

definition COMMUNITY_SPAN_WARNING_THRESHOLD :: nat where "COMMUNITY_SPAN_WARNING_THRESHOLD = 2"
definition COMMUNITY_SPAN_CRITICAL_THRESHOLD :: nat where "COMMUNITY_SPAN_CRITICAL_THRESHOLD = 3"

definition resolved_names :: "ResolvedClaim list \<Rightarrow> string list" where
  "resolved_names answers = List.map_filter resolved_qn answers"

definition communities_for_resolved :: "prepared \<Rightarrow> ResolvedClaim list \<Rightarrow> string option list" where
  "communities_for_resolved prepared answers = map (community_of prepared) (resolved_names answers)"

text \<open>The elements of a set in order.\<close>

definition distinct_items :: "string option list \<Rightarrow> string list" where
  "distinct_items items = sorted_list_of_set (set (List.map_filter id items))"

definition distinct_count :: "string option list \<Rightarrow> nat" where
  "distinct_count items = length (distinct_items items)"

fun is_community_scope :: "ScopeClaim \<Rightarrow> bool" where
  "is_community_scope (CommunityScope a) = True"
| "is_community_scope (ProcessExclusion ps) = False"

definition emit_community_consistency ::
  "ScopeClaim list \<Rightarrow> string option list \<Rightarrow> ValidationFinding list \<Rightarrow> ValidationFinding list" where
  "emit_community_consistency scope_claims communities findings =
     (let d = distinct_count communities;
          has_scope_assertion = list_ex is_community_scope scope_claims in
      if \<not> has_scope_assertion \<and> d < COMMUNITY_SPAN_WARNING_THRESHOLD then findings
      else if d < COMMUNITY_SPAN_WARNING_THRESHOLD then findings
      else findings @ [\<lparr>axis = ''community_consistency'',
        finding_severity = (if COMMUNITY_SPAN_CRITICAL_THRESHOLD \<le> d then ''critical'' else ''warning''),
        finding_message = ''affected symbols span '' @ dec d @ '' distinct Leiden communities (threshold: warning at ''
          @ dec COMMUNITY_SPAN_WARNING_THRESHOLD @ '', critical at '' @ dec COMMUNITY_SPAN_CRITICAL_THRESHOLD @ '')'',
        finding_symbol = None,
        finding_details = [(''distinct_communities'', JInt (int d)), (''communities'', JArr (map JStr (distinct_items communities))),
          (''has_scope_assertion'', JBool has_scope_assertion)]\<rparr>])"

definition push_new :: "string \<Rightarrow> string list \<Rightarrow> string list" where
  "push_new name out = (if name \<noteq> [] \<and> name \<notin> set out then out @ [name] else out)"

definition processes_of :: "prepared \<Rightarrow> string \<Rightarrow> string list" where
  "processes_of prepared qn =
     fold (\<lambda>label. fold push_new (process_names prepared label (ByQualifiedName qn))) [''Function'', ''Method''] []"

definition processes_for_resolved :: "prepared \<Rightarrow> ResolvedClaim list \<Rightarrow> (string \<times> string list) list" where
  "processes_for_resolved prepared answers = map (\<lambda>qn. (qn, processes_of prepared qn)) (resolved_names answers)"

definition process_finding :: "string list \<Rightarrow> string \<Rightarrow> string \<Rightarrow> ValidationFinding" where
  "process_finding excluded qn hit =
     \<lparr>axis = ''process_impact'', finding_severity = ''critical'',
       finding_message = ''PRD claims exclusion of process '' @ quote hit @ '', but '' @ quote qn @ '' participates in it'',
       finding_symbol = Some qn,
       finding_details = [(''process'', JStr hit), (''excluded_processes'', JArr (map JStr excluded))]\<rparr>"

fun excluded_hits :: "(string \<times> string list) list \<Rightarrow> ScopeClaim \<Rightarrow> ValidationFinding list" where
  "excluded_hits processes (CommunityScope a) = []"
| "excluded_hits processes (ProcessExclusion excluded) =
     concat (map (\<lambda>(qn, actual). map (process_finding excluded qn) (filter (\<lambda>a. a \<in> set excluded) actual)) processes)"

definition emit_process_impact ::
  "ScopeClaim list \<Rightarrow> (string \<times> string list) list \<Rightarrow> ValidationFinding list \<Rightarrow> ValidationFinding list" where
  "emit_process_impact scope_claims processes findings = findings @ concat (map (excluded_hits processes) scope_claims)"

section \<open>The report\<close>

definition compute_status :: "ValidationFinding list \<Rightarrow> string" where
  "compute_status findings =
     (if list_ex (\<lambda>f. finding_severity f = ''critical'') findings then ''fail''
      else if list_ex (\<lambda>f. finding_severity f = ''warning'') findings then ''warning''
      else ''ok'')"

record ValidationSummary =
  claimed_symbols :: nat
  resolved_symbols :: nat
  hallucinated_symbols :: nat
  unverifiable_symbols :: nat
  communities_spanned :: nat
  processes_impacted :: nat

record ValidationReport =
  validation_status :: string
  validation_findings :: "ValidationFinding list"
  validation_summary :: ValidationSummary
  extraction_mode :: string
  contract_missing :: bool
  affected_symbol_count :: nat
  scope_claim_count :: nat

fun is_unverifiable :: "ClaimVerdict \<Rightarrow> bool" where
  "is_unverifiable (Unverifiable reason) = True"
| "is_unverifiable v = False"

definition validation_findings_of ::
  "store \<Rightarrow> prepared \<Rightarrow> ResolvedClaim list \<Rightarrow> ScopeClaim list \<Rightarrow> string \<Rightarrow> ValidationFinding list" where
  "validation_findings_of store prepared answers scopes mode =
     emit_unresolved_info answers (mode = ''regex_fallback'')
       (emit_process_impact scopes (processes_for_resolved prepared answers)
         (emit_community_consistency scopes (communities_for_resolved prepared answers)
           (emit_symbol_hallucination answers (classify_unresolved store answers) [])))"

text \<open>\<open>prd\<close>: the error of reading the PRD or its text, which is empty when there is no such file.\<close>

definition read_prd_text :: "string \<Rightarrow> (string + string) option \<Rightarrow> string + string" where
  "read_prd_text prd_path prd =
     (case prd of
        None \<Rightarrow> Inr []
      | Some (Inr t) \<Rightarrow> Inr t
      | Some (Inl e) \<Rightarrow> Inl (''prd_read_failed: '' @ prd_path @ '': '' @ e))"

definition report_of ::
  "store \<Rightarrow> prepared \<Rightarrow> SymbolClaim list \<Rightarrow> ScopeClaim list \<Rightarrow> string \<Rightarrow> bool \<Rightarrow> ValidationReport" where
  "report_of store prepared claims scopes mode missing =
     (let answers = resolve_claims store claims;
          verdicts = classify_unresolved store answers;
          findings = validation_findings_of store prepared answers scopes mode in
      \<lparr>validation_status = compute_status findings,
       validation_findings = findings,
       validation_summary = \<lparr>claimed_symbols = length claims,
         resolved_symbols = length (filter (\<lambda>r. resolved_qn r \<noteq> None) answers),
         hallucinated_symbols = length (filter (\<lambda>v. v = Hallucinated) verdicts),
         unverifiable_symbols = length (filter is_unverifiable verdicts),
         communities_spanned = distinct_count (communities_for_resolved prepared answers),
         processes_impacted = length (processes_for_resolved prepared answers)\<rparr>,
       extraction_mode = mode, contract_missing = missing,
       affected_symbol_count = length claims, scope_claim_count = length scopes\<rparr>)"

definition validate_prd ::
  "(string \<Rightarrow> json option) \<Rightarrow> store \<Rightarrow> prepared \<Rightarrow> string \<Rightarrow> (string + string) option \<Rightarrow> string option \<Rightarrow> string + ValidationReport" where
  "validate_prd parse_json store prepared prd_path prd contract =
     (case read_prd_text prd_path prd of
        Inl e \<Rightarrow> Inl e
      | Inr prd_text \<Rightarrow>
          (case load_claims parse_json prd_text contract of
             (claims, scopes, mode, missing) \<Rightarrow> Inr (report_of store prepared claims scopes mode missing)))"

definition finding_json :: "ValidationFinding \<Rightarrow> json" where
  "finding_json f = JObj [(''axis'', JStr (axis f)), (''severity'', JStr (finding_severity f)), (''message'', JStr (finding_message f)),
     (''symbol'', (case finding_symbol f of Some s \<Rightarrow> JStr s | None \<Rightarrow> JNull)), (''details'', JObj (finding_details f))]"

definition validation_to_json :: "ValidationReport \<Rightarrow> string \<Rightarrow> string \<Rightarrow> string \<Rightarrow> string \<Rightarrow> string \<Rightarrow> json" where
  "validation_to_json report run_id finding_id prd_path graph_path validated_at =
     JObj [(''run_id'', JStr run_id), (''finding_id'', JStr finding_id), (''prd_path'', JStr prd_path), (''graph_path'', JStr graph_path),
       (''validated_at'', JStr validated_at), (''contract_missing'', JBool (contract_missing report)),
       (''extraction_mode'', JStr (extraction_mode report)), (''affected_symbol_count'', JInt (int (affected_symbol_count report))),
       (''scope_claim_count'', JInt (int (scope_claim_count report))),
       (''findings'', JArr (map finding_json (validation_findings report))),
       (''validation_status'', JStr (validation_status report)),
       (''summary'', JObj (let s = validation_summary report in
         [(''claimed_symbols'', JInt (int (claimed_symbols s))), (''resolved_symbols'', JInt (int (resolved_symbols s))),
          (''hallucinated_symbols'', JInt (int (hallucinated_symbols s))), (''unverifiable_symbols'', JInt (int (unverifiable_symbols s))),
          (''communities_spanned'', JInt (int (communities_spanned s))), (''processes_impacted'', JInt (int (processes_impacted s)))]))]"

section \<open>What the status means\<close>

lemma resolve_one_claim [simp]: "claim (resolve_one store c) = c"
  by (simp add: resolve_one_def split: sum.splits)

lemma resolve_one_resolved [simp]: "resolved_qn (resolve_one store c) = Some qn \<longleftrightarrow> resolve_qualified_name store (claim_token c) = Inr qn"
  by (simp add: resolve_one_def split: sum.splits)

lemma resolve_one_unresolved [simp]: "resolved_qn (resolve_one store c) = None \<longleftrightarrow> (\<exists>near. resolve_qualified_name store (claim_token c) = Inl near)"
  by (simp add: resolve_one_def split: sum.splits)

lemma mem_map_filter [simp]: "y \<in> set (List.map_filter f xs) \<longleftrightarrow> (\<exists>x \<in> set xs. f x = Some y)"
  by (induction xs) (auto split: option.splits)

lemma set_resolved_names [simp]:
  "qn \<in> set (resolved_names (resolve_claims store cs)) \<longleftrightarrow> (\<exists>c \<in> set cs. resolve_qualified_name store (claim_token c) = Inr qn)"
  by (simp add: resolved_names_def resolve_claims_def)

lemma length_resolved_names: "length (resolved_names answers) = length (filter (\<lambda>r. resolved_qn r \<noteq> None) answers)"
  by (simp add: resolved_names_def map_filter_def)

lemma distinct_count_card: "distinct_count items = card {x. Some x \<in> set items}"
proof -
  have "set (List.map_filter id items) = {x. Some x \<in> set items}"
    by auto
  then show ?thesis by (simp add: distinct_count_def distinct_items_def)
qed

lemma communities_spanned_card:
  "distinct_count (communities_for_resolved prepared (resolve_claims store cs)) =
     card {cid. \<exists>c \<in> set cs. \<exists>qn. resolve_qualified_name store (claim_token c) = Inr qn \<and> community_of prepared qn = Some cid}"
proof -
  have "{x. Some x \<in> set (communities_for_resolved prepared (resolve_claims store cs))} =
     {cid. \<exists>c \<in> set cs. \<exists>qn. resolve_qualified_name store (claim_token c) = Inr qn \<and> community_of prepared qn = Some cid}"
    by (force simp: communities_for_resolved_def)
  then show ?thesis by (simp add: distinct_count_card)
qed

lemma set_push_new [simp]: "set (push_new x out) = (if x = [] then set out else insert x (set out))"
  by (auto simp: push_new_def)

lemma set_fold_push_new [simp]: "set (fold push_new xs out) = set out \<union> {x \<in> set xs. x \<noteq> []}"
  by (induction xs arbitrary: out) auto

lemma set_processes_of:
  "p \<in> set (processes_of prepared qn) \<longleftrightarrow>
     p \<noteq> [] \<and> (\<exists>label \<in> {''Function'', ''Method''}. p \<in> set (process_names prepared label (ByQualifiedName qn)))"
  by (auto simp: processes_of_def)

text \<open>The severities, pass by pass.\<close>

definition severities :: "ValidationFinding list \<Rightarrow> string set" where
  "severities fs = finding_severity ` set fs"

lemma severities_append [simp]: "severities (xs @ ys) = severities xs \<union> severities ys"
  by (auto simp: severities_def)

lemma severities_Nil [simp]: "severities [] = {}"
  by (simp add: severities_def)

lemma list_ex_severity: "list_ex (\<lambda>f. finding_severity f = x) fs \<longleftrightarrow> x \<in> severities fs"
  by (induction fs) (auto simp: severities_def)

lemma status_severities:
  "compute_status fs = ''fail'' \<longleftrightarrow> ''critical'' \<in> severities fs"
  "compute_status fs = ''warning'' \<longleftrightarrow> ''critical'' \<notin> severities fs \<and> ''warning'' \<in> severities fs"
  by (simp_all add: compute_status_def list_ex_severity)

lemma severities_unresolved [simp]:
  "x \<noteq> ''info'' \<Longrightarrow> x \<in> severities (emit_unresolved_info answers b fs) \<longleftrightarrow> x \<in> severities fs"
  by (auto simp: emit_unresolved_info_def severities_def)

lemma severities_concat_map: "x \<in> severities (concat (map f ys)) \<longleftrightarrow> (\<exists>y \<in> set ys. x \<in> severities (f y))"
  by (auto simp: severities_def)

lemma severities_excluded_hits:
  "x \<in> severities (excluded_hits processes (ProcessExclusion ps)) \<longleftrightarrow> x = ''critical'' \<and> (\<exists>y \<in> set processes. \<exists>p \<in> set (snd y). p \<in> set ps)"
proof -
  have "x \<in> severities (map (process_finding ps qn) as) \<longleftrightarrow> x = ''critical'' \<and> as \<noteq> []" for qn as
    by (cases as) (auto simp: severities_def process_finding_def)
  then show ?thesis by (auto simp: severities_concat_map case_prod_beta filter_empty_conv)
qed

lemma bex_scope:
  "(\<exists>sc \<in> S. P sc) \<longleftrightarrow> (\<exists>a. CommunityScope a \<in> S \<and> P (CommunityScope a)) \<or> (\<exists>ps. ProcessExclusion ps \<in> S \<and> P (ProcessExclusion ps))"
  by (metis ScopeClaim.exhaust)

lemma severities_process:
  "x \<in> severities (emit_process_impact scopes processes fs) \<longleftrightarrow>
     x \<in> severities fs \<or> (x = ''critical'' \<and> (\<exists>ps. ProcessExclusion ps \<in> set scopes \<and> (\<exists>y \<in> set processes. \<exists>p \<in> set (snd y). p \<in> set ps)))"
  by (auto simp: emit_process_impact_def severities_concat_map bex_scope severities_excluded_hits simp del: excluded_hits.simps(2))

lemma severities_community:
  "x \<in> severities (emit_community_consistency scopes communities fs) \<longleftrightarrow>
     x \<in> severities fs \<or> (x = ''critical'' \<and> 3 \<le> distinct_count communities) \<or> (x = ''warning'' \<and> distinct_count communities = 2)"
  by (auto simp: emit_community_consistency_def severities_def Let_def COMMUNITY_SPAN_WARNING_THRESHOLD_def COMMUNITY_SPAN_CRITICAL_THRESHOLD_def)

lemma severity_of_symbol: "x \<in> severities (symbol_finding r v) \<longleftrightarrow> (x = ''critical'' \<and> v = Hallucinated) \<or> (x = ''info'' \<and> is_unverifiable v)"
  by (cases v) (auto simp: severities_def)

lemma zip_map_self: "zip xs (map f xs) = map (\<lambda>x. (x, f x)) xs"
  by (induction xs) auto

lemma severities_symbol:
  "x \<in> severities (emit_symbol_hallucination answers (classify_unresolved store answers) []) \<longleftrightarrow>
     (\<exists>r \<in> set answers. (x = ''critical'' \<and> classify_one store r = Hallucinated) \<or> (x = ''info'' \<and> is_unverifiable (classify_one store r)))"
  by (simp add: emit_symbol_hallucination_def classify_unresolved_def zip_map_self severities_concat_map comp_def severity_of_symbol)

lemma hallucinated_iff:
  "classify_one store (resolve_one store c) = Hallucinated \<longleftrightarrow>
     change_kind c \<in> {''modify'', ''remove'', ''rename''} \<and> (\<exists>near. resolve_qualified_name store (claim_token c) = Inl near) \<and>
     unverifiable_reason store (claim_token c) = None"
  by (auto simp: classify_one_def split: option.splits)

lemma report_findings_severities:
  assumes "answers = resolve_claims store claims"
  shows "''critical'' \<in> severities (validation_findings_of store prepared answers scopes mode) \<longleftrightarrow>
      (\<exists>c \<in> set claims. classify_one store (resolve_one store c) = Hallucinated) \<or>
      3 \<le> distinct_count (communities_for_resolved prepared answers) \<or>
      (\<exists>ps qn p. ProcessExclusion ps \<in> set scopes \<and> qn \<in> set (resolved_names answers) \<and> p \<in> set (processes_of prepared qn) \<and> p \<in> set ps)"
    and "''warning'' \<in> severities (validation_findings_of store prepared answers scopes mode) \<longleftrightarrow>
      distinct_count (communities_for_resolved prepared answers) = 2"
  using assms
  by (auto simp: validation_findings_of_def processes_for_resolved_def severities_process severities_community severities_symbol
      resolve_claims_def)

text \<open>A claim can be scored when it names no file (a bare name), or a file of an indexed language that the graph covers, as
  it is written or without its first directory.\<close>

definition can_be_scored :: "store \<Rightarrow> string \<Rightarrow> bool" where
  "can_be_scored store token \<longleftrightarrow> (case claim_file_path token of None \<Rightarrow> True
     | Some path \<Rightarrow> unsupported_language path = None \<and> (file_has_graph_node store path \<or>
         (case Option.bind (strip_leading_path_component token) claim_file_path of
            Some stripped \<Rightarrow> file_has_graph_node store stripped | None \<Rightarrow> False)))"

lemma scored_iff: "unverifiable_reason store token = None \<longleftrightarrow> can_be_scored store token"
  by (auto simp: unverifiable_reason_def can_be_scored_def stripped_has_graph_node_def split: option.splits)

text \<open>C32: the status of the validation of a PRD. It fails exactly when a claim to modify, remove or rename names no symbol
  of the graph although it can be scored (it names no file at all, or one of an indexed language that the graph covers),
  when the resolved symbols lie in three or more communities, or when one of them takes part in a process the PRD
  excludes; it warns exactly when nothing of this holds and they lie in two. The summary counts the claims of the first
  kind; what it calls the impacted processes is the number of resolved symbols.\<close>

theorem validation_status_exact:
  assumes "load_claims parse_json prd_text contract = (claims, scopes, mode, missing)"
    and "validate_prd parse_json store prepared prd_path (Some (Inr prd_text)) contract = Inr r"
  shows "(validation_status r = ''fail'' \<longleftrightarrow>
      (\<exists>c \<in> set claims. change_kind c \<in> {''modify'', ''remove'', ''rename''} \<and>
         (\<exists>near. resolve_qualified_name store (claim_token c) = Inl near) \<and> can_be_scored store (claim_token c)) \<or>
      3 \<le> card {cid. \<exists>c \<in> set claims. \<exists>qn. resolve_qualified_name store (claim_token c) = Inr qn \<and> community_of prepared qn = Some cid} \<or>
      (\<exists>excluded. ProcessExclusion excluded \<in> set scopes \<and>
         (\<exists>c \<in> set claims. \<exists>qn. resolve_qualified_name store (claim_token c) = Inr qn \<and>
            (\<exists>p \<in> set excluded. p \<noteq> [] \<and>
               (\<exists>label \<in> {''Function'', ''Method''}. p \<in> set (process_names prepared label (ByQualifiedName qn))))))) \<and>
    (validation_status r = ''warning'' \<longleftrightarrow> validation_status r \<noteq> ''fail'' \<and>
      card {cid. \<exists>c \<in> set claims. \<exists>qn. resolve_qualified_name store (claim_token c) = Inr qn \<and> community_of prepared qn = Some cid} = 2) \<and>
    hallucinated_symbols (validation_summary r) = length (filter (\<lambda>c. change_kind c \<in> {''modify'', ''remove'', ''rename''} \<and>
         (\<exists>near. resolve_qualified_name store (claim_token c) = Inl near) \<and> can_be_scored store (claim_token c)) claims) \<and>
    processes_impacted (validation_summary r) = resolved_symbols (validation_summary r)"
proof -
  have r: "r = report_of store prepared claims scopes mode missing"
    using assms by (simp add: validate_prd_def read_prd_text_def)
  note sev = report_findings_severities [where store = store and claims = claims and prepared = prepared and scopes = scopes and mode = mode, OF refl]
  have fail: "validation_status r = ''fail'' \<longleftrightarrow> ''critical'' \<in> severities (validation_findings_of store prepared (resolve_claims store claims) scopes mode)"
    by (simp add: r report_of_def Let_def status_severities)
  have warn: "validation_status r = ''warning'' \<longleftrightarrow> validation_status r \<noteq> ''fail'' \<and>
      ''warning'' \<in> severities (validation_findings_of store prepared (resolve_claims store claims) scopes mode)"
    by (simp add: r report_of_def Let_def status_severities)
  have procs: "(\<exists>ps qn p. ProcessExclusion ps \<in> set scopes \<and> qn \<in> set (resolved_names (resolve_claims store claims)) \<and> p \<in> set (processes_of prepared qn) \<and> p \<in> set ps) \<longleftrightarrow>
      (\<exists>excluded. ProcessExclusion excluded \<in> set scopes \<and>
         (\<exists>c \<in> set claims. \<exists>qn. resolve_qualified_name store (claim_token c) = Inr qn \<and>
            (\<exists>p \<in> set excluded. p \<noteq> [] \<and>
               (\<exists>label \<in> {''Function'', ''Method''}. p \<in> set (process_names prepared label (ByQualifiedName qn))))))"
    unfolding set_resolved_names set_processes_of by blast
  have count: "length (filter (\<lambda>v. v = Hallucinated) (classify_unresolved store (resolve_claims store claims))) =
      length (filter (\<lambda>c. change_kind c \<in> {''modify'', ''remove'', ''rename''} \<and>
         (\<exists>near. resolve_qualified_name store (claim_token c) = Inl near) \<and> can_be_scored store (claim_token c)) claims)"
    by (simp only: classify_unresolved_def resolve_claims_def filter_map comp_def length_map hallucinated_iff scored_iff)
  note iff = hallucinated_iff [unfolded scored_iff]
  show ?thesis
  proof (intro conjI)
    show "hallucinated_symbols (validation_summary r) = length (filter (\<lambda>c. change_kind c \<in> {''modify'', ''remove'', ''rename''} \<and>
         (\<exists>near. resolve_qualified_name store (claim_token c) = Inl near) \<and> can_be_scored store (claim_token c)) claims)"
      using count by (simp add: r report_of_def Let_def)
    show "processes_impacted (validation_summary r) = resolved_symbols (validation_summary r)"
      by (simp add: r report_of_def Let_def processes_for_resolved_def length_resolved_names)
  qed (use fail warn sev procs in \<open>simp_all only: communities_spanned_card iff\<close>)
qed

text \<open>A PRD that excludes the process \<open>login\<close> and changes a symbol of it; the same symbol lies in no community.\<close>

definition demo_prd_store :: store where
  "demo_prd_store q = (if starts_with q ''MATCH (n:Function) WHERE n.qualified_name = '' then Inr [[''m.rs::f'']] else Inr [])"

definition demo_prd_prepared :: prepared where
  "demo_prd_prepared q v = (if starts_with q ''MATCH (n:Function)-[:ParticipatesIn_'' then Inr [[''login'']] else Inr [])"

definition demo_prd_contract :: json where
  "demo_prd_contract = JObj [(''affected_symbols'', JArr [JObj [(''qualified_name'', JStr ''m.rs::f''), (''change_kind'', JStr ''modify'')]]),
     (''scope_claims'', JArr [JObj [(''kind'', JStr ''process_exclusion''), (''processes'', JArr [JStr ''login''])]])]"

lemma validation_status_exact_witness:
  "\<exists>r. validate_prd (\<lambda>t. Some demo_prd_contract) demo_prd_store demo_prd_prepared ''prd.md'' (Some (Inr ''text'')) (Some ''{}'') = Inr r \<and>
     validation_status r = ''fail'' \<and> hallucinated_symbols (validation_summary r) = 0"
proof -
  let ?c = "\<lparr>claim_token = ''m.rs::f'', change_kind = ''modify'', claim_rationale = []\<rparr>"
  have load: "load_claims (\<lambda>t. Some demo_prd_contract) ''text'' (Some ''{}'') = ([?c], [ProcessExclusion [''login'']], ''structured'', False)"
    by code_simp
  have res: "resolve_qualified_name demo_prd_store ''m.rs::f'' = Inr ''m.rs::f''"
    by (simp add: resolve_qualified_name_def exact_match_qn_def SEARCHABLE_LABELS_def demo_prd_store_def first_cell_of_def rows_of_def starts_with_def Let_def)
  have p: "''login'' \<in> set (process_names demo_prd_prepared ''Function'' (ByQualifiedName ''m.rs::f''))"
    by code_simp
  obtain r where r: "validate_prd (\<lambda>t. Some demo_prd_contract) demo_prd_store demo_prd_prepared ''prd.md'' (Some (Inr ''text'')) (Some ''{}'') = Inr r"
    by (simp add: validate_prd_def read_prd_text_def load)
  from validation_status_exact [OF load r] res p r show ?thesis by auto
qed

text \<open>Without a contract no claim can be refuted: every token has the change kind \<open>unknown\<close>.\<close>

lemma push_tokens_unknown: "list_all (\<lambda>c. change_kind c = ''unknown'') out \<Longrightarrow> list_all (\<lambda>c. change_kind c = ''unknown'') (push_tokens ts out)"
  by (induction ts out rule: push_tokens.induct) (auto simp: push_token_def)

theorem text_claims_never_hallucinated:
  assumes "contract = None" and "validate_prd parse_json store prepared prd_path prd contract = Inr r"
  shows "hallucinated_symbols (validation_summary r) = 0 \<and> contract_missing r"
proof -
  obtain t where r: "r = report_of store prepared (regex_extract_symbols t) [] ''regex_fallback'' True"
    using assms by (auto simp: validate_prd_def load_claims_def split: sum.splits)
  have "list_all (\<lambda>c. change_kind c = ''unknown'') (regex_extract_symbols t)"
    by (simp add: regex_extract_symbols_def Let_def push_tokens_unknown)
  then have "filter (\<lambda>v. v = Hallucinated) (classify_unresolved store (resolve_claims store (regex_extract_symbols t))) = []"
    by (auto simp: filter_empty_conv classify_unresolved_def resolve_claims_def hallucinated_iff list_all_iff)
  then show ?thesis by (simp add: r report_of_def Let_def)
qed

text \<open>A path at the end of a sentence is not seen: the text is trimmed only after the test that the extension comes last.\<close>

theorem path_before_full_stop_missed:
  "extract_file_paths ''see src/a.rs for it'' = [''src/a.rs''] \<and> extract_file_paths ''see src/a.rs.'' = []"
  by code_simp

end
