(* ===== verification/DocClaims.thy ===== *)
theory DocClaims
  imports PrdValidator Freshness "HOL-Library.Product_Lexorder" "HOL-Library.Multiset"
begin

text \<open>
  The check of what a document says about the code (\<open>src/doc_claims/\<close>, and the arguments of its tool in
  \<open>src/doc_claims_handlers.rs\<close>). A claim is a text at a line of a file, a kind and a subject; a row is the claim with a
  verdict, its reason and the evidence. Files are read through a cache, the state of the whole check. Parameters: what
  the machine answers about paths (a \<open>host\<close> of \<open>Freshness\<close> with two questions more), the database, and the gates of
  functions and enums that \<open>parser/rust_item_gates.rs\<close> reads from a syntax tree.
\<close>

section \<open>Files of the repository\<close>

record repo_host = host +
  is_regular_file :: "string \<Rightarrow> bool"
  resolve_error :: "string \<Rightarrow> string"

definition MAX_PARSE_BYTES :: nat where "MAX_PARSE_BYTES = 1048576"

record RepoFiles =
  repo_dir :: string
  repo_cache :: "string \<rightharpoonup> (string + string)"

definition new_repo_files :: "repo_host \<Rightarrow> string \<Rightarrow> string + RepoFiles" where
  "new_repo_files H dir =
     (case canonicalize H dir of
        None \<Rightarrow> Inl (''repo_root cannot be resolved: '' @ dir @ '': '' @ resolve_error H dir)
      | Some c \<Rightarrow>
          if \<not> is_dir H c then Inl (''repo_root is not a directory: '' @ c)
          else Inr \<lparr>repo_dir = c, repo_cache = Map.empty\<rparr>)"

text \<open>\<open>Path::starts_with\<close> compares components.\<close>

definition path_starts_with :: "string \<Rightarrow> string \<Rightarrow> bool" where
  "path_starts_with p base \<longleftrightarrow>
     is_absolute p = is_absolute base \<and> take (length (HandlerUtil.components base)) (HandlerUtil.components p) = HandlerUtil.components base"

definition confine :: "repo_host \<Rightarrow> string \<Rightarrow> string \<Rightarrow> string + string" where
  "confine H dir rel =
     (if rel = [] \<or> contains rel [CHR 0x00] then Inl ''path_empty_or_invalid''
      else if is_absolute rel then Inl ''path_absolute''
      else if ''..'' \<in> set (HandlerUtil.components rel) then Inl ''path_leaves_repo_root''
      else case canonicalize H (path_join dir rel) of
          None \<Rightarrow> Inl ''file_not_found''
        | Some c \<Rightarrow> if path_starts_with c dir then Inr c else Inl ''path_leaves_repo_root'')"

definition load_file :: "repo_host \<Rightarrow> string \<Rightarrow> string \<Rightarrow> string + string" where
  "load_file H dir rel =
     and_then (confine H dir rel) (\<lambda>path.
       case stat H path of
         None \<Rightarrow> Inl ''file_not_found''
       | Some (mtime, len) \<Rightarrow>
           if MAX_PARSE_BYTES < len then Inl (''file_too_large: '' @ dec len @ '' bytes > '' @ dec MAX_PARSE_BYTES)
           else case read_bytes H path of
             None \<Rightarrow> Inl ''file_unreadable''
           | Some bs \<Rightarrow> (case from_utf8 bs of Some t \<Rightarrow> Inr t | None \<Rightarrow> Inl ''file_not_utf8''))"

definition read_file :: "repo_host \<Rightarrow> string \<Rightarrow> RepoFiles \<Rightarrow> RepoFiles \<times> (string + string)" where
  "read_file H rel fs =
     (case repo_cache fs rel of
        Some r \<Rightarrow> (fs, r)
      | None \<Rightarrow> let r = load_file H (repo_dir fs) rel in (fs\<lparr>repo_cache := (repo_cache fs)(rel \<mapsto> r)\<rparr>, r))"

definition file_in_repo :: "repo_host \<Rightarrow> string \<Rightarrow> RepoFiles \<Rightarrow> string + bool" where
  "file_in_repo H rel fs =
     (case confine H (repo_dir fs) rel of
        Inr path \<Rightarrow> Inr (is_regular_file H path)
      | Inl e \<Rightarrow> if e = ''file_not_found'' then Inr False else Inl e)"

definition newlines :: "string \<Rightarrow> nat" where
  "newlines s = length (filter (\<lambda>c. c = CHR 0x0A) s)"

definition anchor_holds :: "string \<Rightarrow> nat \<Rightarrow> string \<Rightarrow> string + unit" where
  "anchor_holds content line t =
     (if trim t = [] then Inl ''text_empty''
      else let ls = lines_of content in
        if line = 0 \<or> length ls < line then Inl (''line_out_of_range: the file has '' @ dec (length ls) @ '' lines'')
        else if contains (join_with [CHR 0x0A] (take (newlines t + 1) (drop (line - 1) ls))) t then Inr ()
        else Inl ''text_not_at_line'')"

section \<open>Claims, verdicts, rows\<close>

definition SUPPORTED_KINDS :: "string list" where
  "SUPPORTED_KINDS = [''symbol_exists'', ''module_exists'', ''file_exists'', ''is_public'', ''test_count'', ''proof_count'', ''enum_variant_count'']"

record DocClaim =
  doc_id :: string
  doc_text :: string
  doc_file :: string
  doc_line :: nat
  doc_kind :: string
  doc_subject :: string
  doc_expected :: string

datatype Verdict = Supported | Contradicted | NotFound | NotVerifiable | RejectedAnchor

definition ALL_VERDICTS :: "Verdict list" where
  "ALL_VERDICTS = [Supported, Contradicted, NotFound, NotVerifiable, RejectedAnchor]"

fun verdict_str :: "Verdict \<Rightarrow> string" where
  "verdict_str Supported = ''supported''"
| "verdict_str Contradicted = ''contradicted''"
| "verdict_str NotFound = ''not_found''"
| "verdict_str NotVerifiable = ''not_verifiable''"
| "verdict_str RejectedAnchor = ''rejected_anchor''"

record Outcome =
  outcome_verdict :: Verdict
  outcome_reason :: "string option"
  outcome_evidence :: "json list"

definition outcome :: "Verdict \<Rightarrow> string option \<Rightarrow> json list \<Rightarrow> Outcome" where
  "outcome v r ev = \<lparr>outcome_verdict = v, outcome_reason = r, outcome_evidence = ev\<rparr>"

definition not_verifiable :: "string \<Rightarrow> json list \<Rightarrow> Outcome" where
  "not_verifiable reason ev = outcome NotVerifiable (Some reason) ev"

definition graph_evidence :: "string \<Rightarrow> json \<Rightarrow> json" where
  "graph_evidence query r = JObj [(''source'', JStr ''graph''), (''query'', JStr query), (''result'', r)]"

definition repo_evidence :: "string \<Rightarrow> json \<Rightarrow> json" where
  "repo_evidence location r = JObj [(''source'', JStr ''repository''), (''location'', JStr location), (''result'', r)]"

record Row =
  row_claim :: DocClaim
  row_outcome :: Outcome

definition row_json :: "Row \<Rightarrow> json" where
  "row_json r = (let c = row_claim r in
     JObj [(''id'', JStr (doc_id c)), (''file'', JStr (doc_file c)), (''line'', JInt (int (doc_line c))), (''kind'', JStr (doc_kind c)),
       (''subject'', JStr (doc_subject c)), (''expected'', JStr (doc_expected c)), (''text'', JStr (doc_text c)),
       (''verdict'', JStr (verdict_str (outcome_verdict (row_outcome r)))),
       (''reason'', (case outcome_reason (row_outcome r) of Some s \<Rightarrow> JStr s | None \<Rightarrow> JNull)),
       (''evidence'', JArr (outcome_evidence (row_outcome r)))])"

text \<open>\<open>Report::counts\<close>: every verdict starts at zero.\<close>

definition bump_verdict :: "Row \<Rightarrow> (string \<times> nat) list \<Rightarrow> (string \<times> nat) list" where
  "bump_verdict r m = (let k = verdict_str (outcome_verdict (row_outcome r)) in
     btree_insert k ((case map_of m k of Some n \<Rightarrow> n | None \<Rightarrow> 0) + 1) m)"

definition verdict_counts :: "Row list \<Rightarrow> (string \<times> nat) list" where
  "verdict_counts rows = fold bump_verdict rows (fold (\<lambda>v. btree_insert (verdict_str v) 0) ALL_VERDICTS [])"

section \<open>Symbols\<close>

definition VISIBILITY_LABELS :: "string list" where
  "VISIBILITY_LABELS = [''Function'', ''Method'', ''Struct'', ''Enum'', ''Trait'']"

record Candidate =
  cand_id :: string
  cand_plain :: string
  cand_label :: string
  cand_visibility :: string
  cand_language :: string
  cand_trait :: string
  cand_line :: nat

record Lookup =
  lookup_candidates :: "Candidate list"
  lookup_evidence :: "json list"

definition distinct_plains :: "Lookup \<Rightarrow> string list" where
  "distinct_plains l = dedup_adj (sort (map cand_plain (lookup_candidates l)))"

definition file_qualified :: "string \<Rightarrow> bool" where
  "file_qualified subject = (case find_str ''::'' subject of Some i \<Rightarrow> contains (take i subject) ''.'' | None \<Rightarrow> False)"

definition column_or :: "store \<Rightarrow> string \<Rightarrow> string \<Rightarrow> string \<Rightarrow> string" where
  "column_or store label name neutral =
     (if has_column store label name then ''coalesce(n.'' @ name @ '', '' @ neutral @ '')'' else neutral)"

definition lookup_query :: "store \<Rightarrow> string \<Rightarrow> string \<Rightarrow> string" where
  "lookup_query store label leaf =
     (let empty_text = [CHR 0x27, CHR 0x27] in
      ''MATCH (n:'' @ label @ '') WHERE n.name = '' @ cypher_str leaf @ '' RETURN n.id, coalesce(n.qualified_name, n.id), ''
        @ column_or store label ''visibility'' empty_text @ '', '' @ column_or store label ''language'' empty_text @ '', ''
        @ column_or store label ''trait_name'' empty_text @ '', '' @ column_or store label ''start_line'' ''0'' @ '' ORDER BY n.id'')"

fun candidate_of :: "string \<Rightarrow> string list \<Rightarrow> Candidate option" where
  "candidate_of label [i, qualified, vis, lang, impl_of, start] =
     Some \<lparr>cand_id = i, cand_plain = strip_cfg_gates qualified, cand_label = label, cand_visibility = trim vis,
       cand_language = lang, cand_trait = impl_of, cand_line = line_of start\<rparr>"
| "candidate_of label _ = None"

definition matches_subject :: "string \<Rightarrow> Candidate \<Rightarrow> bool" where
  "matches_subject subject c \<longleftrightarrow>
     cand_plain c = subject \<or> cand_id c = subject \<or> (\<not> file_qualified subject \<and> ends_with (cand_plain c) (''::'' @ subject))"

definition match_evidence :: "string \<Rightarrow> Candidate list \<Rightarrow> json list" where
  "match_evidence query found =
     (if found = [] then []
      else [graph_evidence query (JObj [(''kept'', JStr (''rows whose qualified name, #cfg(..) suffixes removed, equals the ''
        @ ''subject or ends with ::subject'')), (''matches'', JArr (map (JStr \<circ> cand_id) found))])])"

fun lookup_labels :: "store \<Rightarrow> string \<Rightarrow> string list \<Rightarrow> string + Candidate list \<times> json list" where
  "lookup_labels store subject [] = Inr ([], [])"
| "lookup_labels store subject (label # labels) =
     (let query = lookup_query store label (after_colons subject) in
      and_then (store query) (\<lambda>rs.
        let found = filter (matches_subject subject) (List.map_filter (candidate_of label) rs) in
        and_then (lookup_labels store subject labels) (\<lambda>(cs, ev). Inr (found @ cs, match_evidence query found @ ev))))"

definition lookup_symbol :: "store \<Rightarrow> string \<Rightarrow> string list \<Rightarrow> string + Lookup" where
  "lookup_symbol store subject labels =
     and_then (lookup_labels store subject labels) (\<lambda>(cs, ev). Inr \<lparr>lookup_candidates = sort_key cand_id cs, lookup_evidence = ev\<rparr>)"

definition absent :: "store \<Rightarrow> string \<Rightarrow> json list \<Rightarrow> Outcome" where
  "absent store subject ev =
     (case (if file_qualified subject then unverifiable_reason store subject else None) of
        Some reason \<Rightarrow> not_verifiable reason ev
      | None \<Rightarrow>
          (let names = (case resolve_qualified_name store subject of Inr qn \<Rightarrow> [qn] | Inl near \<Rightarrow> near) in
           outcome NotFound (Some (''absent_from_graph: no node has this name; absence from the graph is not proof of ''
             @ ''absence from the code (macro output and unsupported languages are not indexed)''))
             (ev @ [JObj [(''source'', JStr ''graph''), (''did_you_mean'', JArr (map JStr names))]])))"

definition query_failed :: "string \<Rightarrow> json list \<Rightarrow> Outcome" where
  "query_failed e ev = not_verifiable (''graph_query_failed: '' @ e) ev"

definition symbol_exists :: "store \<Rightarrow> string \<Rightarrow> string list \<Rightarrow> Outcome" where
  "symbol_exists store subject labels =
     (if trim subject = [] then not_verifiable ''subject_empty'' []
      else case lookup_symbol store subject labels of
          Inl e \<Rightarrow> query_failed e []
        | Inr found \<Rightarrow>
            if lookup_candidates found = [] then absent store subject (lookup_evidence found)
            else outcome Supported None (lookup_evidence found))"

definition files_query :: "string \<Rightarrow> string" where
  "files_query subject = (let s = cypher_str subject in
     ''MATCH (f:File) WHERE f.id = '' @ s @ '' OR f.path = '' @ s @ '' RETURN f.id ORDER BY f.id'')"

definition file_exists :: "store \<Rightarrow> repo_host \<Rightarrow> RepoFiles \<Rightarrow> string \<Rightarrow> Outcome" where
  "file_exists store H fs subject =
     (if trim subject = [] then not_verifiable ''subject_empty'' []
      else let query = files_query subject in
        case store query of
          Inl e \<Rightarrow> query_failed e []
        | Inr rs \<Rightarrow>
            if rs \<noteq> [] then outcome Supported None [graph_evidence query (JObj [(''files'', JArr (map (\<lambda>r. JStr (r ! 0)) rs))])]
            else let graph = graph_evidence query (JObj [(''files'', JArr [])]) in
              (case file_in_repo H subject fs of
                 Inr True \<Rightarrow> outcome Supported None [graph, repo_evidence subject (JStr
                   (''a regular file under repo_root; not in the graph (a language it does '' @ ''not parse, or excluded from indexing)''))]
               | Inr False \<Rightarrow> outcome NotFound (Some ''absent: neither the graph nor repo_root holds this file'') [graph]
               | Inl e \<Rightarrow> not_verifiable (''subject_path_refused: '' @ e) [graph]))"

datatype Declared = DeclaredPub | NotPub string | UnknownVisibility string

definition declared :: "Candidate \<Rightarrow> Declared" where
  "declared c =
     (let v = cand_visibility c in
      if cand_label c \<notin> set VISIBILITY_LABELS
      then UnknownVisibility (''no_visibility_recorded: the graph records no visibility for a '' @ cand_label c)
      else if cand_language c \<noteq> ''rust''
      then UnknownVisibility (''visibility_not_checked_for_language: '' @ quote (cand_language c) @ ''; this version reads Rust declarations only'')
      else if v = ''pub'' then DeclaredPub
      else if starts_with v ''pub('' then NotPub (''declared '' @ [CHR 0x60] @ v @ [CHR 0x60])
      else if v = [] \<and> cand_label c = ''Method'' \<and> cand_trait c \<noteq> []
      then UnknownVisibility (''trait_method: a method of '' @ [CHR 0x60] @ ''impl '' @ cand_trait c @ '' for ..'' @ [CHR 0x60] @ '' has the trait''
        @ [CHR 0x27] @ ''s visibility'')
      else if v = [] \<and> cand_label c = ''Method''
      then UnknownVisibility (''method_without_modifier: private in an inherent impl, public in a trait ''
        @ ''declaration; the graph does not tell the two apart'')
      else if v = [] then NotPub (''declared without '' @ [CHR 0x60] @ ''pub'' @ [CHR 0x60] @ '': private to its module'')
      else UnknownVisibility (''unrecognised_visibility: '' @ quote v))"

definition visibility_evidence :: "Candidate \<Rightarrow> json" where
  "visibility_evidence c =
     graph_evidence (''MATCH (n:'' @ cand_label c @ '') WHERE n.id = '' @ cypher_str (cand_id c) @ '' RETURN n.visibility'')
       (JObj [(''id'', JStr (cand_id c)), (''visibility'', JStr (cand_visibility c)), (''language'', JStr (cand_language c))])"

text \<open>How many are public, why the others are not, and the first reason one cannot be decided.\<close>

fun tally_visibility :: "Candidate list \<Rightarrow> nat \<times> string list \<times> string option" where
  "tally_visibility [] = (0, [], None)"
| "tally_visibility (c # cs) =
     (case tally_visibility cs of (n, whys, unknown) \<Rightarrow>
       (case declared c of
          DeclaredPub \<Rightarrow> (n + 1, whys, unknown)
        | NotPub why \<Rightarrow> (n, why # whys, unknown)
        | UnknownVisibility why \<Rightarrow> (n, whys, Some why)))"

definition judge_visibility :: "Lookup \<Rightarrow> Outcome" where
  "judge_visibility found =
     (let cs = lookup_candidates found; items = distinct_plains found in
      if 1 < length items
      then not_verifiable (''ambiguous_subject: '' @ dec (length items) @ '' items match; name one by its qualified name'') (lookup_evidence found)
      else case tally_visibility cs of (public, not_public, unknown) \<Rightarrow>
        let ev = lookup_evidence found @ map visibility_evidence cs in
        if public = length cs
        then outcome Supported None (ev @ [JObj [(''source'', JStr ''graph''), (''note'',
          JStr (''declared '' @ [CHR 0x60] @ ''pub'' @ [CHR 0x60] @ ''; whether the crate root re-exports it is not checked''))]])
        else if length not_public = length cs then outcome Contradicted (Some (hd not_public)) ev
        else not_verifiable (case unknown of Some why \<Rightarrow> why
          | None \<Rightarrow> ''twins_disagree: the #[cfg] twins of this item differ in visibility'') ev)"

definition is_public :: "store \<Rightarrow> string \<Rightarrow> Outcome" where
  "is_public store subject =
     (if trim subject = [] then not_verifiable ''subject_empty'' []
      else case lookup_symbol store subject SEARCHABLE_LABELS of
          Inl e \<Rightarrow> query_failed e []
        | Inr found \<Rightarrow>
            if lookup_candidates found = [] then absent store subject (lookup_evidence found)
            else judge_visibility found)"

section \<open>Counts\<close>

record Harness =
  harness_kind :: string
  harness_option :: string
  harness_contexts :: "string list"

definition TESTS :: Harness where
  "TESTS = \<lparr>harness_kind = ''test'', harness_option = ''test'', harness_contexts = [''production'', ''test'']\<rparr>"

definition PROOFS :: Harness where
  "PROOFS = \<lparr>harness_kind = ''proof'', harness_option = ''kani'', harness_contexts = [''production'', ''proof'']\<rparr>"

text \<open>What the reader of the syntax tree gives.\<close>

record FunctionGate =
  fn_line :: nat
  fn_gate :: string
  fn_cfg_attr :: bool
  fn_nested :: bool

record EnumShape =
  shape_line :: nat
  shape_variants :: nat
  shape_gated :: nat

record item_reader =
  function_gates :: "string \<Rightarrow> string + FunctionGate list"
  enum_shapes :: "string \<Rightarrow> string + EnumShape list"

datatype Expected = Exact nat | AtLeast nat

definition parse_u64 :: "string \<Rightarrow> nat option" where
  "parse_u64 s = parse_dec (2 ^ 64) s"

definition parse_expected :: "string \<Rightarrow> Expected option" where
  "parse_expected raw =
     (let r = trim raw in
      case strip_prefix r ''>='' of
        Some n \<Rightarrow> map_option AtLeast (parse_u64 (trim n))
      | None \<Rightarrow> map_option Exact (parse_u64 r))"

text \<open>The readings that the unit tests of the code list.\<close>

lemma parse_expected_examples:
  "parse_expected '' 26 '' = Some (Exact 26)" "parse_expected ''>=8'' = Some (AtLeast 8)" "parse_expected ''>= 8'' = Some (AtLeast 8)"
  "parse_expected ''eight'' = None" "parse_expected ''-1'' = None" "parse_expected [] = None"
  "parse_expected ''>=2'' = Some (AtLeast 2)" "parse_expected ''>=3'' = Some (AtLeast 3)" "parse_expected ''0'' = Some (Exact 0)"
  "parse_expected ''1'' = Some (Exact 1)" "parse_expected ''2'' = Some (Exact 2)"
proof -
  have t: "trim '' 26 '' = ''26''" "trim ''>=8'' = ''>=8''" "trim ''>= 8'' = ''>= 8''" "trim '' 8'' = ''8''" "trim ''8'' = ''8''" "trim ''eight'' = ''eight''"
    "trim ''-1'' = ''-1''" "trim [] = []" "trim ''>=2'' = ''>=2''" "trim ''>=3'' = ''>=3''" "trim ''2'' = ''2''" "trim ''3'' = ''3''" "trim ''0'' = ''0''"
    "trim ''1'' = ''1''"
    by code_simp+
  note [simp] = parse_expected_def parse_u64_def strip_prefix_def starts_with_def parse_dec_def digit_value_def byte_simps is_digit_def t
  show "parse_expected '' 26 '' = Some (Exact 26)" "parse_expected ''>=8'' = Some (AtLeast 8)" "parse_expected ''>= 8'' = Some (AtLeast 8)"
    "parse_expected ''eight'' = None" "parse_expected ''-1'' = None" "parse_expected [] = None"
    "parse_expected ''>=2'' = Some (AtLeast 2)" "parse_expected ''>=3'' = Some (AtLeast 3)" "parse_expected ''0'' = Some (Exact 0)"
    "parse_expected ''1'' = Some (Exact 1)" "parse_expected ''2'' = Some (Exact 2)"
    by simp_all
qed

definition bad_expected :: "string \<Rightarrow> Outcome" where
  "bad_expected raw =
     not_verifiable (''expected_not_a_count: '' @ quote raw @ ''; write '' @ [CHR 0x22] @ ''N'' @ [CHR 0x22] @ '' for exactly N or ''
       @ [CHR 0x22] @ ''>=N'' @ [CHR 0x22] @ '' for at least N'') []"

fun strip_dot_slash :: "string \<Rightarrow> string" where
  "strip_dot_slash (CHR ''.'' # CHR ''/'' # s) = strip_dot_slash s"
| "strip_dot_slash s = s"

definition scope_prefix :: "string \<Rightarrow> string option" where
  "scope_prefix subject =
     (let s = strip_dot_slash (trim subject) in
      if s = [] \<or> s = ''.'' then None
      else if ends_with s ''/'' then Some s
      else Some (s @ ''::''))"

definition entries_query :: "Harness \<Rightarrow> string \<Rightarrow> string" where
  "entries_query harness subject =
     ''MATCH (f:Function) WHERE f.entry_kind = '' @ cypher_str (harness_kind harness)
       @ (case scope_prefix subject of Some p \<Rightarrow> '' AND f.id STARTS WITH '' @ cypher_str p | None \<Rightarrow> [])
       @ '' RETURN f.id, coalesce(f.start_line, 0) ORDER BY f.id''"

definition count_verdict :: "Expected \<Rightarrow> nat \<Rightarrow> nat \<Rightarrow> json list \<Rightarrow> Outcome" where
  "count_verdict want decl floor ev =
     (let span = ''declared '' @ dec decl @ '', compiled floor '' @ dec floor;
          undecided = (\<lambda>n. if decl < n
            then not_verifiable (''lower_bound: '' @ span @ '', claimed '' @ dec n @ ''; more may exist than the graph holds'') ev
            else not_verifiable (''build_dependent: '' @ span @ '', claimed '' @ dec n @ ''; it depends on what the build compiles'') ev) in
      case want of
        Exact n \<Rightarrow>
          if n < floor then outcome Contradicted (Some (''floor_exceeds_claim: '' @ span @ '', claimed '' @ dec n)) ev
          else if floor = n \<and> decl = n then outcome Supported None ev
          else undecided n
      | AtLeast n \<Rightarrow> if n \<le> floor then outcome Supported None ev else undecided n)"

text \<open>The lines of each file, in the order of the files.\<close>

definition push_line :: "string list \<Rightarrow> (string \<times> nat list) list \<Rightarrow> (string \<times> nat list) list" where
  "push_line row m = (let f = hd (split_on ''::'' (row ! 0)) in
     btree_insert f ((case map_of m f of Some ls \<Rightarrow> ls | None \<Rightarrow> []) @ [line_of (row ! 1)]) m)"

definition lines_by_file :: "string list list \<Rightarrow> (string \<times> nat list) list" where
  "lines_by_file rs = fold push_line rs []"

definition file_row_query :: "string \<Rightarrow> string" where
  "file_row_query f = ''MATCH (f:File) WHERE f.id = '' @ cypher_str f @ '' RETURN f.target_context, f.cfg_gate''"

definition file_row :: "store \<Rightarrow> Harness \<Rightarrow> string \<Rightarrow> string + unit" where
  "file_row store harness f =
     (if \<not> ends_with f ''.rs'' then Inl ''not_rust_source''
      else case find (\<lambda>col. \<not> has_column store ''File'' col) [''target_context'', ''cfg_gate''] of
          Some col \<Rightarrow> Inl (''graph_without_file_'' @ col)
        | None \<Rightarrow>
            (case rows_of store (file_row_query f) of
               [] \<Rightarrow> Inl ''file_not_in_graph''
             | r # _ \<Rightarrow>
                 if r ! 0 \<notin> set (harness_contexts harness)
                 then Inl (''target_not_run_by_harness('' @ (if r ! 0 = [] then ''none'' else r ! 0) @ '')'')
                 else if r ! 1 \<noteq> [] \<and> r ! 1 \<noteq> harness_option harness then Inl (''file_gated('' @ r ! 1 @ '')'')
                 else Inr ()))"

definition file_gates ::
  "store \<Rightarrow> repo_host \<Rightarrow> item_reader \<Rightarrow> Harness \<Rightarrow> string \<Rightarrow> RepoFiles \<Rightarrow> RepoFiles \<times> (string + FunctionGate list)" where
  "file_gates store H R harness f fs =
     (case file_row store harness f of
        Inl why \<Rightarrow> (fs, Inl why)
      | Inr _ \<Rightarrow>
          (case read_file H f fs of
             (fs', Inl e) \<Rightarrow> (fs', Inl (''source_unreadable('' @ e @ '')''))
           | (fs', Inr src) \<Rightarrow> (fs', case function_gates R src of Inr gates \<Rightarrow> Inr gates | Inl e \<Rightarrow> Inl ''source_parse_failed'')))"

definition function_verdict :: "FunctionGate list \<Rightarrow> nat \<Rightarrow> Harness \<Rightarrow> string option" where
  "function_verdict gates line harness =
     (case find (\<lambda>g. fn_line g = line) gates of
        None \<Rightarrow> Some ''not_at_graph_line''
      | Some g \<Rightarrow>
          if fn_nested g then Some ''nested_function''
          else if fn_cfg_attr g then Some ''cfg_attr''
          else if fn_gate g \<noteq> [] \<and> fn_gate g \<noteq> harness_option harness then Some (''gated('' @ fn_gate g @ '')'')
          else None)"

definition line_verdicts :: "string + FunctionGate list \<Rightarrow> nat list \<Rightarrow> Harness \<Rightarrow> string option list" where
  "line_verdicts gates ls harness =
     (case gates of Inl why \<Rightarrow> map (\<lambda>l. Some why) ls | Inr gs \<Rightarrow> map (\<lambda>l. function_verdict gs l harness) ls)"

definition count_why :: "string \<Rightarrow> (string \<times> nat) list \<Rightarrow> (string \<times> nat) list" where
  "count_why why m = btree_insert why ((case map_of m why of Some n \<Rightarrow> n | None \<Rightarrow> 0) + 1) m"

fun floor_of_files ::
  "store \<Rightarrow> repo_host \<Rightarrow> item_reader \<Rightarrow> Harness \<Rightarrow> (string \<times> nat list) list \<Rightarrow> RepoFiles \<Rightarrow> nat \<Rightarrow> (string \<times> nat) list
    \<Rightarrow> RepoFiles \<times> nat \<times> (string \<times> nat) list" where
  "floor_of_files store H R harness [] fs floor excluded = (fs, floor, excluded)"
| "floor_of_files store H R harness ((f, ls) # groups) fs floor excluded =
     (case file_gates store H R harness f fs of
        (fs', gates) \<Rightarrow>
          (let vs = line_verdicts gates ls harness in
           floor_of_files store H R harness groups fs' (floor + length (filter (\<lambda>v. v = None) vs))
             (fold count_why (List.map_filter id vs) excluded)))"

definition compiled_floor ::
  "store \<Rightarrow> repo_host \<Rightarrow> item_reader \<Rightarrow> Harness \<Rightarrow> string list list \<Rightarrow> RepoFiles \<Rightarrow> RepoFiles \<times> nat \<times> (string \<times> nat) list" where
  "compiled_floor store H R harness rs fs = floor_of_files store H R harness (lines_by_file rs) fs 0 []"

definition entry_count ::
  "store \<Rightarrow> repo_host \<Rightarrow> item_reader \<Rightarrow> DocClaim \<Rightarrow> Harness \<Rightarrow> RepoFiles \<Rightarrow> RepoFiles \<times> Outcome" where
  "entry_count store H R c harness fs =
     (case parse_expected (doc_expected c) of
        None \<Rightarrow> (fs, bad_expected (doc_expected c))
      | Some want \<Rightarrow>
          (let query = entries_query harness (doc_subject c) in
           case store query of
             Inl e \<Rightarrow> (fs, query_failed e [])
           | Inr rs \<Rightarrow>
               (case compiled_floor store H R harness rs fs of
                  (fs', floor, excluded) \<Rightarrow>
                    (fs', count_verdict want (length rs) floor
                      [graph_evidence query (JObj [(''declared'', JInt (int (length rs))), (''ids'', JArr (map (\<lambda>r. JStr (r ! 0)) rs))]),
                       JObj [(''source'', JStr ''graph+repository''), (''compiled_floor'', JInt (int floor)),
                         (''left_out_of_floor'', JObj (map (\<lambda>(k, n). (k, JInt (int n))) excluded)),
                         (''epistemic'', JStr ''lower-bound: the graph misses declarations its parser cannot see'')]]))))"

text \<open>Enums.\<close>

definition single_enum :: "store \<Rightarrow> string \<Rightarrow> Outcome + Candidate \<times> json list" where
  "single_enum store subject =
     (if trim subject = [] then Inl (not_verifiable ''subject_empty'' [])
      else case lookup_symbol store subject [''Enum''] of
          Inl e \<Rightarrow> Inl (query_failed e [])
        | Inr found \<Rightarrow>
            (case lookup_candidates found of
               [] \<Rightarrow> Inl (absent store subject (lookup_evidence found))
             | [only] \<Rightarrow> Inr (only, lookup_evidence found)
             | cs \<Rightarrow> Inl (not_verifiable (''ambiguous_subject: '' @ dec (length cs) @ '' enums match ('' @ dec (length (distinct_plains found))
                 @ '' distinct); name one, or a #[cfg] twin, by '' @ ''its id'') (lookup_evidence found))))"

definition unread_language_verdict :: "Expected \<Rightarrow> nat \<Rightarrow> string \<Rightarrow> json list \<Rightarrow> Outcome" where
  "unread_language_verdict want decl lang ev =
     (if (case want of Exact n \<Rightarrow> n = decl | AtLeast n \<Rightarrow> n \<le> decl) then outcome Supported None ev
      else not_verifiable (''variant_completeness_not_established: '' @ quote lang @ '' enums are not read from ''
        @ ''source; the graph holds '' @ dec decl) ev)"

definition variant_verdict :: "Expected \<Rightarrow> nat \<Rightarrow> nat \<Rightarrow> string \<Rightarrow> json list \<Rightarrow> Outcome" where
  "variant_verdict want decl gated claimed ev =
     (let ungated = decl - gated;
          span = dec ungated @ '' ungated of '' @ dec decl @ '' declared'';
          (low, high, certain) = (case want of
             Exact n \<Rightarrow> (n, n, gated = 0)
           | AtLeast n \<Rightarrow> (n, 2 ^ 64 - 1, n \<le> ungated)) in
      if high < ungated \<or> decl < low
      then outcome Contradicted (Some (''variant_count_differs: '' @ span @ '', claimed '' @ claimed)) ev
      else if certain then outcome Supported None ev
      else not_verifiable (''build_dependent: '' @ span @ '', claimed '' @ claimed) ev)"

definition rust_gated_variants ::
  "repo_host \<Rightarrow> item_reader \<Rightarrow> string \<Rightarrow> nat \<Rightarrow> nat \<Rightarrow> RepoFiles \<Rightarrow> RepoFiles \<times> (string + nat \<times> string)" where
  "rust_gated_variants H R enum_id line decl fs =
     (let f = hd (split_on ''::'' enum_id); location = f @ '':'' @ dec line in
      case read_file H f fs of
        (fs', Inl e) \<Rightarrow> (fs', Inl (''source_unreadable: '' @ f @ '': '' @ e))
      | (fs', Inr src) \<Rightarrow> (fs',
          (case enum_shapes R src of
             Inl e \<Rightarrow> Inl (''source_parse_failed: '' @ e)
           | Inr shapes \<Rightarrow>
               (case find (\<lambda>s. shape_line s = line) shapes of
                  None \<Rightarrow> Inl (''source_changed_since_indexing: no enum at '' @ location)
                | Some s \<Rightarrow>
                    if shape_variants s \<noteq> decl
                    then Inl (''graph_and_source_disagree: the source declares '' @ dec (shape_variants s) @ '' variants at '' @ location
                      @ '', the graph '' @ ''holds '' @ dec decl)
                    else Inr (shape_gated s, location)))))"

definition variants_query :: "string \<Rightarrow> string" where
  "variants_query enum_id =
     ''MATCH (e:Enum)-[:HasVariant_Enum_Variant]->(v:Variant) WHERE e.id = '' @ cypher_str enum_id @ '' RETURN v.name '' @ ''ORDER BY v.name''"

definition variant_count :: "store \<Rightarrow> repo_host \<Rightarrow> item_reader \<Rightarrow> DocClaim \<Rightarrow> RepoFiles \<Rightarrow> RepoFiles \<times> Outcome" where
  "variant_count store H R c fs =
     (case parse_expected (doc_expected c) of
        None \<Rightarrow> (fs, bad_expected (doc_expected c))
      | Some want \<Rightarrow>
          (case single_enum store (doc_subject c) of
             Inl answer \<Rightarrow> (fs, answer)
           | Inr (enum_node, ev) \<Rightarrow>
               (let query = variants_query (cand_id enum_node) in
                case store query of
                  Inl e \<Rightarrow> (fs, query_failed e ev)
                | Inr rs \<Rightarrow>
                    (let decl = length rs;
                         ev' = ev @ [graph_evidence query (JObj [(''variants'', JArr (map (\<lambda>r. JStr (r ! 0)) rs))])] in
                     if cand_language enum_node \<noteq> ''rust''
                     then (fs, unread_language_verdict want decl (cand_language enum_node) ev')
                     else case rust_gated_variants H R (cand_id enum_node) (cand_line enum_node) decl fs of
                         (fs', Inl why) \<Rightarrow> (fs', not_verifiable why ev')
                       | (fs', Inr (gated, location)) \<Rightarrow>
                           (fs', variant_verdict want decl gated (trim (doc_expected c))
                             (ev' @ [repo_evidence location (JObj [(''variants'', JInt (int decl)), (''with_their_own_cfg'', JInt (int gated))])]))))))"

section \<open>The check\<close>

definition check_kind :: "store \<Rightarrow> repo_host \<Rightarrow> item_reader \<Rightarrow> DocClaim \<Rightarrow> RepoFiles \<Rightarrow> RepoFiles \<times> Outcome" where
  "check_kind store H R c fs =
     (let k = doc_kind c in
      if k = ''symbol_exists'' then (fs, symbol_exists store (doc_subject c) SEARCHABLE_LABELS)
      else if k = ''module_exists'' then (fs, symbol_exists store (doc_subject c) [''Module''])
      else if k = ''file_exists'' then (fs, file_exists store H fs (doc_subject c))
      else if k = ''is_public'' then (fs, is_public store (doc_subject c))
      else if k = ''test_count'' then entry_count store H R c TESTS fs
      else if k = ''proof_count'' then entry_count store H R c PROOFS fs
      else if k = ''enum_variant_count'' then variant_count store H R c fs
      else (fs, not_verifiable (''kind_not_supported_yet: '' @ quote k @ ''; this version checks '' @ join_with '', '' SUPPORTED_KINDS) []))"

definition check_one :: "store \<Rightarrow> repo_host \<Rightarrow> item_reader \<Rightarrow> DocClaim \<Rightarrow> RepoFiles \<Rightarrow> RepoFiles \<times> Outcome" where
  "check_one store H R c fs =
     (let location = doc_file c @ '':'' @ dec (doc_line c) in
      case read_file H (doc_file c) fs of
        (fs', read) \<Rightarrow>
          (case and_then read (\<lambda>content. anchor_holds content (doc_line c) (doc_text c)) of
             Inl reason \<Rightarrow> (fs', outcome RejectedAnchor (Some reason) [repo_evidence location (JStr ''anchor not found'')])
           | Inr _ \<Rightarrow>
               (case check_kind store H R c fs' of
                  (fs'', answer) \<Rightarrow>
                    (fs'', answer\<lparr>outcome_evidence := repo_evidence location (JStr ''text found verbatim'') # outcome_evidence answer\<rparr>))))"

fun check_rows :: "store \<Rightarrow> repo_host \<Rightarrow> item_reader \<Rightarrow> DocClaim list \<Rightarrow> RepoFiles \<Rightarrow> RepoFiles \<times> Row list" where
  "check_rows store H R [] fs = (fs, [])"
| "check_rows store H R (c # cs) fs =
     (case check_one store H R c fs of
        (fs', answer) \<Rightarrow>
          (case check_rows store H R cs fs' of
             (fs'', rows) \<Rightarrow> (fs'', \<lparr>row_claim = c, row_outcome = answer\<rparr> # rows)))"

definition row_order :: "Row \<Rightarrow> string \<times> nat \<times> string" where
  "row_order r = (doc_file (row_claim r), doc_line (row_claim r), doc_id (row_claim r))"

definition check_claims :: "store \<Rightarrow> repo_host \<Rightarrow> item_reader \<Rightarrow> string \<Rightarrow> DocClaim list \<Rightarrow> string + Row list" where
  "check_claims store H R dir cs =
     and_then (new_repo_files H dir) (\<lambda>fs. Inr (sort_key row_order (snd (check_rows store H R cs fs))))"

section \<open>The arguments of the tool\<close>

definition CLAIM_FIELDS :: "string list" where
  "CLAIM_FIELDS = [''id'', ''text'', ''file'', ''line'', ''kind'', ''subject'', ''expected'']"

definition claim_label :: "nat \<Rightarrow> string" where
  "claim_label index = ''claims['' @ dec index @ '']''"

definition claim_text :: "nat \<Rightarrow> json_map \<Rightarrow> string \<Rightarrow> bool \<Rightarrow> string + string" where
  "claim_text index obj field_name required =
     (case get obj field_name of
        Some (JStr s) \<Rightarrow> Inr s
      | None \<Rightarrow> if required then Inl (claim_label index @ '': missing '' @ quote field_name) else Inr []
      | Some v \<Rightarrow>
          (case v of
             JInt n \<Rightarrow> if field_name = ''expected'' then Inr (if n < 0 then ''-'' @ dec (nat (- n)) else dec (nat n))
               else Inl (claim_label index @ '': '' @ quote field_name @ '' must be a string'')
           | JFloat t \<Rightarrow> if field_name = ''expected'' then Inr t else Inl (claim_label index @ '': '' @ quote field_name @ '' must be a string'')
           | _ \<Rightarrow> Inl (claim_label index @ '': '' @ quote field_name @ '' must be a string'')))"

definition parse_claim :: "nat \<Rightarrow> json \<Rightarrow> string + DocClaim" where
  "parse_claim index item =
     (case as_object item of
        None \<Rightarrow> Inl (claim_label index @ '' must be an object'')
      | Some obj \<Rightarrow>
          (case find (\<lambda>k. k \<notin> set CLAIM_FIELDS) (map fst obj) of
             Some unknown \<Rightarrow> Inl (claim_label index @ '': unknown field '' @ quote unknown)
           | None \<Rightarrow>
               (case Option.bind (get obj ''line'') as_u64 of
                  Some (Suc l) \<Rightarrow>
                    and_then (claim_text index obj ''id'' False) (\<lambda>i.
                    and_then (claim_text index obj ''text'' True) (\<lambda>t.
                    and_then (claim_text index obj ''file'' True) (\<lambda>f.
                    and_then (claim_text index obj ''kind'' True) (\<lambda>k.
                    and_then (claim_text index obj ''subject'' False) (\<lambda>s.
                    and_then (claim_text index obj ''expected'' False) (\<lambda>e.
                      Inr \<lparr>doc_id = (if i = [] then ''c'' @ dec index else i), doc_text = t, doc_file = f, doc_line = Suc l,
                        doc_kind = k, doc_subject = s, doc_expected = e\<rparr>))))))
                | _ \<Rightarrow> Inl (claim_label index @ '': '' @ quote ''line'' @ '' must be an integer >= 1''))))"

fun parse_claim_list :: "nat \<Rightarrow> json list \<Rightarrow> string + DocClaim list" where
  "parse_claim_list index [] = Inr []"
| "parse_claim_list index (item # items) =
     and_then (parse_claim index item) (\<lambda>c. and_then (parse_claim_list (index + 1) items) (\<lambda>cs. Inr (c # cs)))"

definition parse_claims :: "json option \<Rightarrow> string + DocClaim list" where
  "parse_claims raw =
     (case Option.bind raw as_array of
        None \<Rightarrow> Inl (''missing required field '' @ quote ''claims'' @ '' (array of claim objects)'')
      | Some items \<Rightarrow> parse_claim_list 0 items)"

definition wants_full :: "string option \<Rightarrow> string + bool" where
  "wants_full detail =
     (case detail of
        None \<Rightarrow> Inr False
      | Some d \<Rightarrow> if d = ''compact'' then Inr False else if d = ''full'' then Inr True
          else Inl (''detail must be '' @ quote ''compact'' @ '' or '' @ quote ''full'' @ '', got '' @ quote d))"

section \<open>The cache changes nothing\<close>

definition cache_sound :: "repo_host \<Rightarrow> RepoFiles \<Rightarrow> bool" where
  "cache_sound H fs \<longleftrightarrow> (\<forall>rel r. repo_cache fs rel = Some r \<longrightarrow> r = load_file H (repo_dir fs) rel)"

text \<open>An operation on the files gives \<open>r\<close> whatever sound cache it starts with, and leaves a sound one.\<close>

definition gives :: "repo_host \<Rightarrow> string \<Rightarrow> (RepoFiles \<Rightarrow> RepoFiles \<times> 'a) \<Rightarrow> 'a \<Rightarrow> bool" where
  "gives H dir op r \<longleftrightarrow>
     (\<forall>fs. cache_sound H fs \<and> repo_dir fs = dir \<longrightarrow>
        snd (op fs) = r \<and> cache_sound H (fst (op fs)) \<and> repo_dir (fst (op fs)) = dir)"

named_theorems gives_intro

lemma gives_pure [gives_intro]: "r = r' \<Longrightarrow> gives H dir (\<lambda>fs. (fs, r)) r'"
  by (simp add: gives_def)

lemma gives_read [gives_intro]: "gives H dir (read_file H rel) (load_file H dir rel)"
  by (auto simp: gives_def read_file_def cache_sound_def Let_def split: option.splits)

lemma gives_then:
  assumes "gives H dir op a" and "gives H dir (k a) r"
  shows "gives H dir (\<lambda>fs. case op fs of (fs', x) \<Rightarrow> k x fs') r"
  using assms by (simp add: gives_def split: prod.splits) (metis fst_conv snd_conv)

lemma givesD: "gives H dir op r \<Longrightarrow> cache_sound H fs \<Longrightarrow> repo_dir fs = dir \<Longrightarrow> snd (op fs) = r"
  by (simp add: gives_def)

definition no_cache :: "string \<Rightarrow> RepoFiles" where
  "no_cache dir = \<lparr>repo_dir = dir, repo_cache = Map.empty\<rparr>"

lemma no_cache_sound [simp]: "cache_sound H (no_cache dir)" "repo_dir (no_cache dir) = dir"
  by (simp_all add: no_cache_def cache_sound_def)

section \<open>The compiled floor\<close>

text \<open>The gates of the functions of a file, read without a cache.\<close>

definition gates_of :: "store \<Rightarrow> repo_host \<Rightarrow> item_reader \<Rightarrow> Harness \<Rightarrow> string \<Rightarrow> string \<Rightarrow> string + FunctionGate list" where
  "gates_of store H R harness dir f = snd (file_gates store H R harness f (no_cache dir))"

definition source_gates :: "item_reader \<Rightarrow> string + string \<Rightarrow> string + FunctionGate list" where
  "source_gates R r =
     (case r of
        Inl e \<Rightarrow> Inl (''source_unreadable('' @ e @ '')'')
      | Inr src \<Rightarrow> (case function_gates R src of Inr gates \<Rightarrow> Inr gates | Inl e \<Rightarrow> Inl ''source_parse_failed''))"

lemma file_gates_read:
  "file_row store harness f = Inr u \<Longrightarrow>
     file_gates store H R harness f fs = (fst (read_file H f fs), source_gates R (snd (read_file H f fs)))"
  by (auto simp: file_gates_def source_gates_def split: sum.splits prod.splits)

lemma read_file_gives [simp]:
  assumes "cache_sound H fs"
  shows "snd (read_file H f fs) = load_file H (repo_dir fs) f" "cache_sound H (fst (read_file H f fs))"
    "repo_dir (fst (read_file H f fs)) = repo_dir fs"
  using gives_read [of H "repo_dir fs" f] assms by (simp_all add: gives_def)

lemma gives_file_gates: "gives H dir (file_gates store H R harness f) (gates_of store H R harness dir f)"
proof (cases "file_row store harness f")
  case (Inl why)
  then show ?thesis by (simp add: file_gates_def [abs_def] gates_of_def gives_def)
next
  case (Inr u)
  then show ?thesis by (auto simp: gives_def gates_of_def file_gates_read)
qed

text \<open>A declaration that every build the harness makes compiles and runs.\<close>

definition certain :: "store \<Rightarrow> repo_host \<Rightarrow> item_reader \<Rightarrow> string \<Rightarrow> Harness \<Rightarrow> string list \<Rightarrow> bool" where
  "certain store H R dir harness row \<longleftrightarrow>
     (let f = hd (split_on ''::'' (row ! 0)) in
      ends_with f ''.rs'' \<and> has_column store ''File'' ''target_context'' \<and> has_column store ''File'' ''cfg_gate'' \<and>
      (\<exists>r rest. rows_of store (file_row_query f) = r # rest \<and> r ! 0 \<in> set (harness_contexts harness) \<and> r ! 1 \<in> {[], harness_option harness}) \<and>
      (\<exists>src gates g. load_file H dir f = Inr src \<and> function_gates R src = Inr gates \<and> find (\<lambda>g. fn_line g = line_of (row ! 1)) gates = Some g \<and>
         \<not> fn_nested g \<and> \<not> fn_cfg_attr g \<and> fn_gate g \<in> {[], harness_option harness}))"

definition runs_line :: "string + FunctionGate list \<Rightarrow> Harness \<Rightarrow> nat \<Rightarrow> bool" where
  "runs_line gates harness l = (case gates of Inl why \<Rightarrow> False | Inr gs \<Rightarrow> function_verdict gs l harness = None)"

lemma function_verdict_None:
  "function_verdict gs l harness = None \<longleftrightarrow>
     (\<exists>g. find (\<lambda>g. fn_line g = l) gs = Some g \<and> \<not> fn_nested g \<and> \<not> fn_cfg_attr g \<and> fn_gate g \<in> {[], harness_option harness})"
  by (auto simp: function_verdict_def split: option.splits)

lemma file_row_Inr:
  "file_row store harness f = Inr u \<longleftrightarrow>
     ends_with f ''.rs'' \<and> has_column store ''File'' ''target_context'' \<and> has_column store ''File'' ''cfg_gate'' \<and>
     (\<exists>r rest. rows_of store (file_row_query f) = r # rest \<and> r ! 0 \<in> set (harness_contexts harness) \<and> r ! 1 \<in> {[], harness_option harness})"
  by (auto simp: file_row_def split: list.splits if_splits)

lemma gates_of_Inr:
  "gates_of store H R harness dir f = Inr gs \<longleftrightarrow>
     file_row store harness f = Inr () \<and> (\<exists>src. load_file H dir f = Inr src \<and> function_gates R src = Inr gs)"
proof (cases "file_row store harness f")
  case (Inl why)
  then show ?thesis by (simp add: gates_of_def file_gates_def)
next
  case (Inr u)
  then show ?thesis by (simp add: gates_of_def file_gates_read source_gates_def split: sum.splits)
qed

lemma certain_runs:
  "certain store H R dir harness row \<longleftrightarrow>
     runs_line (gates_of store H R harness dir (hd (split_on ''::'' (row ! 0)))) harness (line_of (row ! 1))"
  (is "_ \<longleftrightarrow> runs_line ?g _ _")
proof (cases ?g)
  case (Inl why)
  then have "\<not> (file_row store harness (hd (split_on ''::'' (row ! 0))) = Inr () \<and>
     (\<exists>src gs. load_file H dir (hd (split_on ''::'' (row ! 0))) = Inr src \<and> function_gates R src = Inr gs))"
    using gates_of_Inr [of store H R harness dir "hd (split_on ''::'' (row ! 0))"] by auto
  then have "\<not> certain store H R dir harness row"
    unfolding certain_def Let_def file_row_Inr by blast
  then show ?thesis by (simp add: runs_line_def Inl)
next
  case (Inr gs)
  then have "file_row store harness (hd (split_on ''::'' (row ! 0))) = Inr ()"
    and "\<exists>src. load_file H dir (hd (split_on ''::'' (row ! 0))) = Inr src \<and> function_gates R src = Inr gs"
    using gates_of_Inr by blast+
  then show ?thesis
    unfolding certain_def Let_def file_row_Inr Inr runs_line_def sum.case function_verdict_None by force
qed

text \<open>The sum over the files is the sum over the rows.\<close>

definition file_sum :: "(string \<Rightarrow> nat \<Rightarrow> bool) \<Rightarrow> (string \<times> nat list) list \<Rightarrow> nat" where
  "file_sum P m = sum_list (map (\<lambda>(f, ls). length (filter (P f) ls)) m)"

lemma file_sum_insert:
  assumes "ordered_keys m"
  shows "file_sum P (btree_insert f ls m) + (case map_of m f of Some old \<Rightarrow> length (filter (P f) old) | None \<Rightarrow> 0)
    = file_sum P m + length (filter (P f) ls)"
  using assms
proof (induction f ls m rule: btree_insert.induct)
  case (2 k v k' v' m)
  have tail: "ordered_keys m" and above: "\<forall>x \<in> set (map fst m). k' < x"
    using "2.prems" by (auto simp: ordered_keys_def)
  show ?case
  proof (cases "k < k'")
    case True
    with above have "map_of m k = None" by (auto simp: map_of_eq_None_iff dest: less_trans)
    with True show ?thesis by (simp add: file_sum_def)
  next
    case False
    with "2.IH" tail show ?thesis by (cases "k = k'") (simp_all add: file_sum_def)
  qed
qed (simp add: file_sum_def)

lemma ordered_push_line: "ordered_keys m \<Longrightarrow> ordered_keys (push_line row m)"
  by (simp add: push_line_def Let_def ordered_btree_insert)

lemma file_sum_push:
  assumes "ordered_keys m"
  shows "file_sum P (push_line row m) = file_sum P m + (if P (hd (split_on ''::'' (row ! 0))) (line_of (row ! 1)) then 1 else 0)"
proof -
  let ?f = "hd (split_on ''::'' (row ! 0))" and ?l = "line_of (row ! 1)"
  show ?thesis
  proof (cases "map_of m ?f")
    case None
    then show ?thesis using file_sum_insert [OF assms, of P ?f "[?l]"] by (simp add: push_line_def Let_def)
  next
    case (Some ls)
    then show ?thesis using file_sum_insert [OF assms, of P ?f "ls @ [?l]"] by (simp add: push_line_def Let_def)
  qed
qed

lemma file_sum_rows:
  "ordered_keys m \<Longrightarrow> file_sum P (fold push_line rs m) = file_sum P m + length (filter (\<lambda>row. P (hd (split_on ''::'' (row ! 0))) (line_of (row ! 1))) rs)"
  by (induction rs arbitrary: m) (auto simp: file_sum_push ordered_push_line)

lemma floor_of_files_sum:
  assumes "cache_sound H fs" "repo_dir fs = dir" "floor_of_files store H R harness m fs n excluded = (fs', floor, excluded')"
  shows "cache_sound H fs' \<and> repo_dir fs' = dir \<and> floor = n + file_sum (\<lambda>f. runs_line (gates_of store H R harness dir f) harness) m"
  using assms
proof (induction m arbitrary: fs n excluded)
  case (Cons g m)
  obtain f ls where g: "g = (f, ls)" by (cases g)
  obtain fs1 gates where one: "file_gates store H R harness f fs = (fs1, gates)" by (cases "file_gates store H R harness f fs")
  have fs1: "cache_sound H fs1" "repo_dir fs1 = dir" and gates: "gates = gates_of store H R harness dir f"
    using gives_file_gates [of H dir store R harness f, unfolded gives_def, THEN spec, of fs] Cons.prems(1,2) by (simp_all only: one fst_conv snd_conv HOL.simp_thms)
  have "length (filter (\<lambda>v. v = None) (line_verdicts gates ls harness)) = length (filter (runs_line gates harness) ls)"
    by (cases gates) (simp_all add: line_verdicts_def runs_line_def [abs_def] filter_map comp_def)
  moreover have "floor_of_files store H R harness m fs1 (n + length (filter (\<lambda>v. v = None) (line_verdicts gates ls harness)))
      (fold count_why (List.map_filter id (line_verdicts gates ls harness)) excluded) = (fs', floor, excluded')"
    using Cons.prems(3) by (simp add: g one Let_def)
  note IH = Cons.IH [OF fs1 this]
  ultimately have "floor = n + length (filter (runs_line gates harness) ls) + file_sum (\<lambda>f. runs_line (gates_of store H R harness dir f) harness) m"
    using IH by simp
  with IH show ?case by (simp add: g file_sum_def gates)
qed (simp add: file_sum_def)

lemma compiled_floor_certain:
  assumes "cache_sound H fs" "compiled_floor store H R harness rs fs = (fs', floor, excluded)"
  shows "cache_sound H fs' \<and> repo_dir fs' = repo_dir fs \<and> floor = length (filter (certain store H R (repo_dir fs) harness) rs)"
proof -
  have "ordered_keys ([] :: (string \<times> nat list) list)" by (simp add: ordered_keys_def)
  note sum = file_sum_rows [OF this, of "\<lambda>f. runs_line (gates_of store H R harness (repo_dir fs) f) harness" rs]
  have "certain store H R (repo_dir fs) harness =
      (\<lambda>row. runs_line (gates_of store H R harness (repo_dir fs) (hd (split_on ''::'' (row ! 0)))) harness (line_of (row ! 1)))"
    by (rule ext) (rule certain_runs)
  with sum have
    "file_sum (\<lambda>f. runs_line (gates_of store H R harness (repo_dir fs) f) harness) (lines_by_file rs) =
       length (filter (certain store H R (repo_dir fs) harness) rs)"
    by (simp add: lines_by_file_def) (simp add: file_sum_def)
  then show ?thesis
    using floor_of_files_sum [OF assms(1) refl assms(2) [unfolded compiled_floor_def]] by simp
qed

section \<open>What a verdict means\<close>

lemma outcome_simps [simp]:
  "outcome_verdict (outcome v r ev) = v" "outcome_verdict (not_verifiable why ev) = NotVerifiable" "outcome_verdict (query_failed e ev) = NotVerifiable"
  "outcome_verdict (bad_expected raw) = NotVerifiable"
  by (simp_all add: outcome_def not_verifiable_def query_failed_def bad_expected_def)

lemma absent_not_contradicted [simp]: "outcome_verdict (absent store subject ev) \<noteq> Contradicted" "outcome_verdict (absent store subject ev) \<noteq> Supported"
  by (simp_all add: absent_def Let_def split: option.splits)

lemma symbol_exists_not_contradicted [simp]: "outcome_verdict (symbol_exists store subject labels) \<noteq> Contradicted"
  by (simp add: symbol_exists_def split: sum.splits)

lemma file_exists_not_contradicted [simp]: "outcome_verdict (file_exists store H fs subject) \<noteq> Contradicted"
  by (simp add: file_exists_def Let_def split: sum.splits bool.splits)

lemma count_verdict_cases:
  "outcome_verdict (count_verdict e decl floor ev) = Contradicted \<longleftrightarrow> (\<exists>n. e = Exact n \<and> n < floor)"
  "outcome_verdict (count_verdict e decl floor ev) = Supported \<longleftrightarrow> (case e of Exact n \<Rightarrow> floor = n \<and> decl = n | AtLeast n \<Rightarrow> n \<le> floor)"
  "outcome_verdict (count_verdict e decl floor ev) \<in> {Contradicted, Supported, NotVerifiable}"
  by (auto simp: count_verdict_def Let_def split: Expected.splits)

lemma length_filter_all: "length (filter P xs) = length xs \<longleftrightarrow> list_all P xs"
proof
  assume len: "length (filter P xs) = length xs"
  show "list_all P xs"
    unfolding list_all_iff using len length_filter_less [of _ xs P] by (metis less_irrefl)
next
  assume "list_all P xs"
  then have "filter P xs = xs" by (simp add: list_all_iff filter_id_conv)
  then show "length (filter P xs) = length xs" by simp
qed

lemma entry_count_verdict:
  assumes "cache_sound H fs" "parse_expected (doc_expected c) = Some e" "store (entries_query harness (doc_subject c)) = Inr rs"
    and "entry_count store H R c harness fs = (fs', answer)"
  shows "\<exists>ev. answer = count_verdict e (length rs) (length (filter (certain store H R (repo_dir fs) harness) rs)) ev"
proof -
  obtain fs1 floor excluded where floor: "compiled_floor store H R harness rs fs = (fs1, floor, excluded)"
    by (metis prod_cases3)
  then show ?thesis
    using assms compiled_floor_certain [OF assms(1) floor] by (auto simp: entry_count_def Let_def)
qed

text \<open>C30: the verdict on a number of tests or proof harnesses. A declaration of the graph is certain when the target of its
  file is run, no other \<open>cfg\<close> than the option of the harness reaches it and it is not nested, by the database and by
  the source at the recorded line. However the rows are grouped by file and the files cached, a claim of exactly \<open>n\<close> is
  contradicted exactly when more than \<open>n\<close> declarations are certain and supported exactly when there are \<open>n\<close>, all of
  them certain; a claim of at least \<open>n\<close> is never contradicted, and supported exactly when \<open>n\<close> are certain.\<close>

theorem harness_count_exact:
  assumes "cache_sound H fs" "parse_expected (doc_expected c) = Some e" "store (entries_query harness (doc_subject c)) = Inr rs"
    and "entry_count store H R c harness fs = (fs', answer)"
  shows "(outcome_verdict answer = Contradicted \<longleftrightarrow> (\<exists>n. e = Exact n \<and> n < length (filter (certain store H R (repo_dir fs) harness) rs))) \<and>
    (outcome_verdict answer = Supported \<longleftrightarrow>
      (case e of Exact n \<Rightarrow> length rs = n \<and> list_all (certain store H R (repo_dir fs) harness) rs
       | AtLeast n \<Rightarrow> n \<le> length (filter (certain store H R (repo_dir fs) harness) rs))) \<and>
    outcome_verdict answer \<in> {Contradicted, Supported, NotVerifiable}"
proof -
  obtain ev where "answer = count_verdict e (length rs) (length (filter (certain store H R (repo_dir fs) harness) rs)) ev"
    using entry_count_verdict [OF assms] by blast
  then show ?thesis
    using length_filter_all [of "certain store H R (repo_dir fs) harness" rs]
    by (auto simp only: count_verdict_cases split: Expected.splits)
qed

text \<open>One test at line 3 of \<open>a.rs\<close>.\<close>

definition demo_repo :: repo_host where
  "demo_repo = \<lparr>path_exists = (\<lambda>p. True), canonicalize = Some, is_dir = (\<lambda>p. True), stat = (\<lambda>p. Some (0, 9)), read_bytes = (\<lambda>p. Some ''source''),
     git = (\<lambda>r a. None), is_regular_file = (\<lambda>p. True), resolve_error = id\<rparr>"

definition demo_reader :: item_reader where
  "demo_reader = \<lparr>function_gates = (\<lambda>s. Inr [\<lparr>fn_line = 3, fn_gate = ''test'', fn_cfg_attr = False, fn_nested = False\<rparr>]),
     enum_shapes = (\<lambda>s. Inr [\<lparr>shape_line = 3, shape_variants = 2, shape_gated = 1\<rparr>])\<rparr>"

definition demo_doc_store :: store where
  "demo_doc_store q =
     (if starts_with q ''MATCH (f:Function)'' then Inr [[''a.rs::t'', ''3'']]
      else if starts_with q ''CALL table_info'' then Inr [[''0'', ''target_context''], [''1'', ''cfg_gate'']]
      else Inr [[''test'', []]])"

definition demo_doc_claim :: DocClaim where
  "demo_doc_claim = \<lparr>doc_id = ''c0'', doc_text = ''one test'', doc_file = ''README.md'', doc_line = 1, doc_kind = ''test_count'', doc_subject = [],
     doc_expected = ''1''\<rparr>"

lemma demo_row_certain: "certain demo_doc_store demo_repo demo_reader ''/r'' TESTS [''a.rs::t'', ''3'']"
proof -
  have "confine demo_repo ''/r'' ''a.rs'' = Inr ''/r/a.rs''" by code_simp
  moreover have "from_utf8 ''source'' = Some ''source''" by code_simp
  ultimately have load: "load_file demo_repo ''/r'' ''a.rs'' = Inr ''source''"
    by (simp add: load_file_def demo_repo_def MAX_PARSE_BYTES_def)
  have first: "hd (split_on ''::'' ''a.rs::t'') = ''a.rs''" by code_simp
  have line: "line_of ''3'' = 3" by (simp add: line_of_def parse_dec_def digit_value_def byte_simps)
  have columns: "has_column demo_doc_store ''File'' ''target_context''" "has_column demo_doc_store ''File'' ''cfg_gate''"
    by code_simp+
  have row: "rows_of demo_doc_store (file_row_query ''a.rs'') = [[''test'', []]]" by code_simp
  have "ends_with ''a.rs'' ''.rs''" by code_simp
  then show ?thesis
    by (simp add: certain_def first line columns row load TESTS_def demo_reader_def)
qed

lemma demo_count:
  assumes "parse_expected raw = Some e"
  shows "\<exists>fs' answer. entry_count demo_doc_store demo_repo demo_reader (demo_doc_claim\<lparr>doc_expected := raw\<rparr>) TESTS (no_cache ''/r'') = (fs', answer) \<and>
    parse_expected (doc_expected (demo_doc_claim\<lparr>doc_expected := raw\<rparr>)) = Some e \<and>
    demo_doc_store (entries_query TESTS (doc_subject (demo_doc_claim\<lparr>doc_expected := raw\<rparr>))) = Inr [[''a.rs::t'', ''3'']]"
proof -
  have "demo_doc_store (entries_query TESTS []) = Inr [[''a.rs::t'', ''3'']]" by code_simp
  then show ?thesis using assms by (simp add: demo_doc_claim_def)
qed

lemma harness_count_exact_witness:
  "outcome_verdict (snd (entry_count demo_doc_store demo_repo demo_reader demo_doc_claim TESTS (no_cache ''/r''))) = Supported \<and>
   outcome_verdict (snd (entry_count demo_doc_store demo_repo demo_reader (demo_doc_claim\<lparr>doc_expected := ''0''\<rparr>) TESTS (no_cache ''/r''))) = Contradicted \<and>
   outcome_verdict (snd (entry_count demo_doc_store demo_repo demo_reader (demo_doc_claim\<lparr>doc_expected := ''>=2''\<rparr>) TESTS (no_cache ''/r''))) = NotVerifiable"
proof -
  have one: "filter (certain demo_doc_store demo_repo demo_reader (repo_dir (no_cache ''/r'')) TESTS) [[''a.rs::t'', ''3'']] = [[''a.rs::t'', ''3'']]"
    by (simp add: demo_row_certain)
  have v: "(v = Contradicted \<longleftrightarrow> (\<exists>n. e = Exact n \<and> n < 1)) \<and> (v = Supported \<longleftrightarrow> (case e of Exact n \<Rightarrow> n = 1 | AtLeast n \<Rightarrow> n \<le> 1)) \<and>
      v \<in> {Contradicted, Supported, NotVerifiable}"
    if e: "parse_expected raw = Some e"
      and v: "v = outcome_verdict (snd (entry_count demo_doc_store demo_repo demo_reader (demo_doc_claim\<lparr>doc_expected := raw\<rparr>) TESTS (no_cache ''/r'')))"
    for raw e v
  proof -
    obtain fs' answer where
      run: "entry_count demo_doc_store demo_repo demo_reader (demo_doc_claim\<lparr>doc_expected := raw\<rparr>) TESTS (no_cache ''/r'') = (fs', answer)"
      and e': "parse_expected (doc_expected (demo_doc_claim\<lparr>doc_expected := raw\<rparr>)) = Some e"
      and rs: "demo_doc_store (entries_query TESTS (doc_subject (demo_doc_claim\<lparr>doc_expected := raw\<rparr>))) = Inr [[''a.rs::t'', ''3'']]"
      using demo_count [OF e] by blast
    show ?thesis
      using harness_count_exact [OF no_cache_sound(1) e' rs run] unfolding v run one
      by (auto simp: demo_row_certain split: Expected.splits)
  qed
  have same: "demo_doc_claim = demo_doc_claim\<lparr>doc_expected := ''1''\<rparr>" by (simp add: demo_doc_claim_def)
  show ?thesis
    using v [OF parse_expected_examples(10) refl] v [OF parse_expected_examples(9) refl] v [OF parse_expected_examples(7) refl]
    by (subst same) auto
qed

text \<open>The variants of an enum: a build compiles all ungated variants and any of the gated ones.\<close>

fun meets :: "Expected \<Rightarrow> nat \<Rightarrow> bool" where
  "meets (Exact n) k \<longleftrightarrow> k = n"
| "meets (AtLeast n) k \<longleftrightarrow> n \<le> k"

fun number_of :: "Expected \<Rightarrow> nat" where
  "number_of (Exact n) = n"
| "number_of (AtLeast n) = n"

lemma parse_expected_bound: "parse_expected raw = Some e \<Longrightarrow> number_of e < 2 ^ 64"
  by (auto simp: parse_expected_def parse_u64_def parse_dec_def Let_def split: option.splits if_splits)

lemma variant_verdict_cases:
  assumes "gated \<le> decl" "decl < 2 ^ 64"
  shows "outcome_verdict (variant_verdict e decl gated claimed ev) = Contradicted \<longleftrightarrow> (\<forall>k. decl - gated \<le> k \<and> k \<le> decl \<longrightarrow> \<not> meets e k)"
    and "outcome_verdict (variant_verdict e decl gated claimed ev) = Supported \<longleftrightarrow> (\<forall>k. decl - gated \<le> k \<and> k \<le> decl \<longrightarrow> meets e k)"
    and "outcome_verdict (variant_verdict e decl gated claimed ev) \<in> {Contradicted, Supported, NotVerifiable}"
proof -
  have range: "decl - gated \<le> decl" "decl - gated \<le> 2 ^ 64 - 1" using assms by auto
  have all: "(\<forall>k. decl - gated \<le> k \<and> k \<le> decl \<longrightarrow> k = n) \<longleftrightarrow> gated = 0 \<and> decl = n" for n
    using assms by (metis diff_le_self diff_zero le_antisym le_add_diff_inverse2 add_cancel_right_right order_refl)
  show "outcome_verdict (variant_verdict e decl gated claimed ev) = Contradicted \<longleftrightarrow> (\<forall>k. decl - gated \<le> k \<and> k \<le> decl \<longrightarrow> \<not> meets e k)"
  proof (cases e)
    case (Exact n)
    then show ?thesis using range by (auto simp: variant_verdict_def Let_def)
  next
    case (AtLeast n)
    have "(\<forall>k. decl - gated \<le> k \<and> k \<le> decl \<longrightarrow> \<not> n \<le> k) \<longleftrightarrow> decl < n"
      using range by (metis le_trans not_le order_refl)
    then show ?thesis using AtLeast range by (simp add: variant_verdict_def Let_def)
  qed
  show "outcome_verdict (variant_verdict e decl gated claimed ev) = Supported \<longleftrightarrow> (\<forall>k. decl - gated \<le> k \<and> k \<le> decl \<longrightarrow> meets e k)"
  proof (cases e)
    case (Exact n)
    then show ?thesis using range by (auto simp: variant_verdict_def Let_def all)
  next
    case (AtLeast n)
    then show ?thesis using range by (auto simp: variant_verdict_def Let_def)
  qed
  show "outcome_verdict (variant_verdict e decl gated claimed ev) \<in> {Contradicted, Supported, NotVerifiable}"
    by (cases e) (auto simp: variant_verdict_def Let_def)
qed

text \<open>The verdict on the number of variants of a Rust enum whose declaration agrees with the graph is exact over all
  builds: contradicted when no build has a number the claim allows, supported when every build has, and otherwise not
  verifiable. The reader counts gated variants among the variants, and an enum has fewer than \<open>2 ^ 64\<close> of them.\<close>

theorem variant_count_exact:
  assumes "cache_sound H fs" "parse_expected (doc_expected c) = Some e" "single_enum store (doc_subject c) = Inr (enum_node, ev)"
    and "cand_language enum_node = ''rust''" "store (variants_query (cand_id enum_node)) = Inr rs"
    and "load_file H (repo_dir fs) (hd (split_on ''::'' (cand_id enum_node))) = Inr src" "enum_shapes R src = Inr shapes"
    and "find (\<lambda>s. shape_line s = cand_line enum_node) shapes = Some shape"
    and "shape_variants shape = length rs" "shape_gated shape \<le> shape_variants shape" "shape_variants shape < 2 ^ 64"
    and "variant_count store H R c fs = (fs', answer)"
  shows "(outcome_verdict answer = Contradicted \<longleftrightarrow>
      (\<forall>k. shape_variants shape - shape_gated shape \<le> k \<and> k \<le> shape_variants shape \<longrightarrow> \<not> meets e k)) \<and>
    (outcome_verdict answer = Supported \<longleftrightarrow>
      (\<forall>k. shape_variants shape - shape_gated shape \<le> k \<and> k \<le> shape_variants shape \<longrightarrow> meets e k)) \<and>
    outcome_verdict answer \<in> {Contradicted, Supported, NotVerifiable}"
proof -
  have "snd (rust_gated_variants H R (cand_id enum_node) (cand_line enum_node) (length rs) fs) =
      Inr (shape_gated shape, hd (split_on ''::'' (cand_id enum_node)) @ '':'' @ dec (cand_line enum_node))"
  proof -
    obtain fs1 where "read_file H (hd (split_on ''::'' (cand_id enum_node))) fs = (fs1, Inr src)"
      using read_file_gives(1) [OF assms(1), of "hd (split_on ''::'' (cand_id enum_node))"] assms(6) by (metis prod.collapse)
    then show ?thesis using assms(7-9) by (simp add: rust_gated_variants_def Let_def)
  qed
  then obtain location fs1 where
    "rust_gated_variants H R (cand_id enum_node) (cand_line enum_node) (length rs) fs = (fs1, Inr (shape_gated shape, location))"
    by (metis prod.collapse)
  then obtain claimed ev' where "answer = variant_verdict e (length rs) (shape_gated shape) claimed ev'"
    using assms by (auto simp: variant_count_def Let_def)
  with variant_verdict_cases [of "shape_gated shape" "length rs" e claimed ev'] assms(9-11) show ?thesis by simp
qed

definition demo_enum_store :: store where
  "demo_enum_store q =
     (if starts_with q ''MATCH (n:Enum)'' then Inr [[''a.rs::E'', ''a.rs::E'', ''pub'', ''rust'', [], ''3'']]
      else if starts_with q ''MATCH (e:Enum)'' then Inr [[''A''], [''B'']] else Inr [])"

definition demo_enum_claim :: DocClaim where
  "demo_enum_claim = \<lparr>doc_id = ''c0'', doc_text = ''two'', doc_file = ''README.md'', doc_line = 1, doc_kind = ''enum_variant_count'',
     doc_subject = ''E'', doc_expected = ''2''\<rparr>"

definition demo_enum_node :: Candidate where
  "demo_enum_node = \<lparr>cand_id = ''a.rs::E'', cand_plain = ''a.rs::E'', cand_label = ''Enum'', cand_visibility = ''pub'', cand_language = ''rust'',
     cand_trait = [], cand_line = 3\<rparr>"

lemma demo_enum_found: "\<exists>ev. single_enum demo_enum_store ''E'' = Inr (demo_enum_node, ev)"
proof -
  have line: "line_of ''3'' = 3" by (simp add: line_of_def parse_dec_def digit_value_def byte_simps)
  have rows: "demo_enum_store (lookup_query demo_enum_store ''Enum'' (after_colons ''E'')) = Inr [[''a.rs::E'', ''a.rs::E'', ''pub'', ''rust'', [], ''3'']]"
    by code_simp
  have "strip_cfg_gates ''a.rs::E'' = ''a.rs::E''" "trim ''pub'' = ''pub''" by code_simp+
  then have cand: "candidate_of ''Enum'' [''a.rs::E'', ''a.rs::E'', ''pub'', ''rust'', [], ''3''] = Some demo_enum_node"
    by (simp add: line demo_enum_node_def)
  have subject: "matches_subject ''E'' demo_enum_node" by (simp add: matches_subject_def) code_simp
  have nonempty: "trim ''E'' \<noteq> []" by code_simp
  obtain ev where "lookup_labels demo_enum_store ''E'' [''Enum''] = Inr ([demo_enum_node], ev)"
    using rows cand subject by (simp add: Let_def and_then_def)
  then show ?thesis using nonempty by (simp add: single_enum_def lookup_symbol_def and_then_def)
qed

lemma demo_enum_read:
  "cand_language demo_enum_node = ''rust''" "demo_enum_store (variants_query (cand_id demo_enum_node)) = Inr [[''A''], [''B'']]"
  "load_file demo_repo ''/r'' (hd (split_on ''::'' (cand_id demo_enum_node))) = Inr ''source''"
  "enum_shapes demo_reader ''source'' = Inr [\<lparr>shape_line = 3, shape_variants = 2, shape_gated = 1\<rparr>]"
  "find (\<lambda>s. shape_line s = cand_line demo_enum_node) [\<lparr>shape_line = 3, shape_variants = 2, shape_gated = 1\<rparr>] =
     Some \<lparr>shape_line = 3, shape_variants = 2, shape_gated = 1\<rparr>"
proof -
  have "confine demo_repo ''/r'' ''a.rs'' = Inr ''/r/a.rs''" "from_utf8 ''source'' = Some ''source''" "hd (split_on ''::'' ''a.rs::E'') = ''a.rs''"
    by code_simp+
  then show "load_file demo_repo ''/r'' (hd (split_on ''::'' (cand_id demo_enum_node))) = Inr ''source''"
    by (simp add: load_file_def demo_repo_def MAX_PARSE_BYTES_def demo_enum_node_def)
  show "demo_enum_store (variants_query (cand_id demo_enum_node)) = Inr [[''A''], [''B'']]" by code_simp
qed (simp_all add: demo_enum_node_def demo_reader_def)

text \<open>Two variants, one of them gated: exactly two and at least two depend on the build, at least one holds, three are
  never there.\<close>

lemma variant_count_exact_witness:
  "outcome_verdict (snd (variant_count demo_enum_store demo_repo demo_reader demo_enum_claim (no_cache ''/r''))) = NotVerifiable \<and>
   outcome_verdict (snd (variant_count demo_enum_store demo_repo demo_reader (demo_enum_claim\<lparr>doc_expected := ''>=2''\<rparr>) (no_cache ''/r''))) = NotVerifiable \<and>
   outcome_verdict (snd (variant_count demo_enum_store demo_repo demo_reader (demo_enum_claim\<lparr>doc_expected := ''>=3''\<rparr>) (no_cache ''/r''))) = Contradicted"
proof -
  let ?shape = "\<lparr>shape_line = 3, shape_variants = 2, shape_gated = 1\<rparr>"
  have v: "(v = Contradicted \<longleftrightarrow> \<not> meets e 1 \<and> \<not> meets e 2) \<and> (v = Supported \<longleftrightarrow> meets e 1 \<and> meets e 2) \<and>
      v \<in> {Contradicted, Supported, NotVerifiable}"
    if e: "parse_expected raw = Some e"
      and v: "v = outcome_verdict (snd (variant_count demo_enum_store demo_repo demo_reader (demo_enum_claim\<lparr>doc_expected := raw\<rparr>) (no_cache ''/r'')))"
    for raw e v
  proof -
    let ?c = "demo_enum_claim\<lparr>doc_expected := raw\<rparr>"
    obtain ev where node: "single_enum demo_enum_store (doc_subject ?c) = Inr (demo_enum_node, ev)"
      using demo_enum_found by (auto simp: demo_enum_claim_def)
    obtain fs' answer where run: "variant_count demo_enum_store demo_repo demo_reader ?c (no_cache ''/r'') = (fs', answer)"
      by (cases "variant_count demo_enum_store demo_repo demo_reader ?c (no_cache ''/r'')")
    have e': "parse_expected (doc_expected ?c) = Some e" using e by simp
    have len: "shape_variants ?shape = length [[''A''], [''B'']]" and le: "shape_gated ?shape \<le> shape_variants ?shape" "shape_variants ?shape < 2 ^ 64"
      by simp_all
    have load: "load_file demo_repo (repo_dir (no_cache ''/r'')) (hd (split_on ''::'' (cand_id demo_enum_node))) = Inr ''source''"
      using demo_enum_read(3) by simp
    have range: "(\<forall>k. Suc 0 \<le> k \<and> k \<le> 2 \<longrightarrow> P k) \<longleftrightarrow> P (Suc 0) \<and> P 2" for P :: "nat \<Rightarrow> bool"
      by (auto dest: le_antisym simp: le_Suc_eq numeral_2_eq_2)
    show ?thesis
      using variant_count_exact [OF no_cache_sound(1) e' node demo_enum_read(1,2) load demo_enum_read(4,5) len le run]
      unfolding v run by (auto simp add: range)
  qed
  have same: "demo_enum_claim = demo_enum_claim\<lparr>doc_expected := ''2''\<rparr>" by (simp add: demo_enum_claim_def)
  show ?thesis
    using v [OF parse_expected_examples(11) refl] v [OF parse_expected_examples(7) refl] v [OF parse_expected_examples(8) refl]
    by (subst same) auto
qed

section \<open>Contradictions\<close>

lemma tally_visibility_cases:
  "tally_visibility cs = (n, whys, unknown) \<Longrightarrow> n + length whys \<le> length cs \<and> (length whys = length cs \<longrightarrow> (\<forall>c \<in> set cs. \<exists>why. declared c = NotPub why))"
  by (induction cs arbitrary: n whys unknown) (fastforce split: prod.splits Declared.splits)+

lemma declared_NotPub:
  "declared c = NotPub why \<Longrightarrow>
     cand_label c \<in> set VISIBILITY_LABELS \<and> cand_language c = ''rust'' \<and> (cand_visibility c = [] \<or> starts_with (cand_visibility c) ''pub('')"
  by (simp add: declared_def Let_def split: if_splits)

lemma judge_contradicted:
  assumes "outcome_verdict (judge_visibility found) = Contradicted" "lookup_candidates found \<noteq> []"
  shows "\<forall>k \<in> set (lookup_candidates found). cand_label k \<in> set VISIBILITY_LABELS \<and> cand_language k = ''rust'' \<and>
     (cand_visibility k = [] \<or> starts_with (cand_visibility k) ''pub('')"
proof -
  obtain n whys unknown where t: "tally_visibility (lookup_candidates found) = (n, whys, unknown)" by (metis prod_cases3)
  with assms have "length whys = length (lookup_candidates found)"
    by (simp add: judge_visibility_def Let_def split: if_splits)
  with tally_visibility_cases [OF t] show ?thesis using declared_NotPub by blast
qed

lemma is_public_contradicted:
  assumes "outcome_verdict (is_public store subject) = Contradicted"
  shows "\<exists>found. lookup_symbol store subject SEARCHABLE_LABELS = Inr found \<and> lookup_candidates found \<noteq> [] \<and>
     (\<forall>k \<in> set (lookup_candidates found). cand_label k \<in> set VISIBILITY_LABELS \<and> cand_language k = ''rust'' \<and>
        (cand_visibility k = [] \<or> starts_with (cand_visibility k) ''pub(''))"
  using assms judge_contradicted by (auto simp: is_public_def split: sum.splits if_splits)

lemma entry_count_contradicted:
  assumes "cache_sound H fs" "outcome_verdict (snd (entry_count store H R c harness fs)) = Contradicted"
  shows "\<exists>n rs. parse_expected (doc_expected c) = Some (Exact n) \<and> store (entries_query harness (doc_subject c)) = Inr rs \<and>
     n < length (filter (certain store H R (repo_dir fs) harness) rs)"
proof -
  obtain e rs where e: "parse_expected (doc_expected c) = Some e" and rs: "store (entries_query harness (doc_subject c)) = Inr rs"
    using assms(2) by (auto simp: entry_count_def Let_def split: option.splits sum.splits)
  obtain ev where "snd (entry_count store H R c harness fs) = count_verdict e (length rs) (length (filter (certain store H R (repo_dir fs) harness) rs)) ev"
    using entry_count_verdict [where store = store and harness = harness and c = c, OF assms(1) e rs] by (metis prod.collapse)
  with assms(2) e rs show ?thesis by (auto simp: count_verdict_cases)
qed

lemma unread_not_contradicted [simp]: "outcome_verdict (unread_language_verdict e decl lang ev) \<noteq> Contradicted"
  by (simp add: unread_language_verdict_def)

text \<open>The one enum of the name, read from its source with as many variants as the graph holds, and the number claimed.\<close>

definition enum_rules_out :: "store \<Rightarrow> repo_host \<Rightarrow> item_reader \<Rightarrow> string \<Rightarrow> DocClaim \<Rightarrow> bool" where
  "enum_rules_out store H R dir c \<longleftrightarrow>
     (\<exists>e enum_node ev rs src shapes shape. parse_expected (doc_expected c) = Some e \<and>
        single_enum store (doc_subject c) = Inr (enum_node, ev) \<and> cand_language enum_node = ''rust'' \<and>
        store (variants_query (cand_id enum_node)) = Inr rs \<and>
        load_file H dir (hd (split_on ''::'' (cand_id enum_node))) = Inr src \<and> enum_shapes R src = Inr shapes \<and>
        find (\<lambda>s. shape_line s = cand_line enum_node) shapes = Some shape \<and> shape_variants shape = length rs \<and>
        (\<forall>k. shape_variants shape - shape_gated shape \<le> k \<and> k \<le> shape_variants shape \<longrightarrow> \<not> meets e k))"

lemma variant_verdict_contradicted:
  assumes "outcome_verdict (variant_verdict e decl gated claimed ev) = Contradicted" "decl < 2 ^ 64"
  shows "\<forall>k. decl - gated \<le> k \<and> k \<le> decl \<longrightarrow> \<not> meets e k"
proof (cases e)
  case (Exact n)
  then show ?thesis using assms(1) by (auto simp: variant_verdict_def Let_def split: if_splits)
next
  case (AtLeast n)
  have "\<not> 2 ^ 64 - 1 < decl - gated" using assms(2) by simp
  then show ?thesis using AtLeast assms(1) by (auto simp: variant_verdict_def Let_def split: if_splits)
qed

lemma rust_gated_read:
  assumes "cache_sound H fs" "snd (rust_gated_variants H R enum_id line decl fs) = Inr (gated, location)"
  shows "\<exists>src shapes shape. load_file H (repo_dir fs) (hd (split_on ''::'' enum_id)) = Inr src \<and> enum_shapes R src = Inr shapes \<and>
    find (\<lambda>s. shape_line s = line) shapes = Some shape \<and> shape_variants shape = decl \<and> shape_gated shape = gated"
proof -
  obtain fs1 r where step: "read_file H (hd (split_on ''::'' enum_id)) fs = (fs1, r)" by (cases "read_file H (hd (split_on ''::'' enum_id)) fs")
  then have "r = load_file H (repo_dir fs) (hd (split_on ''::'' enum_id))"
    using read_file_gives(1) [OF assms(1), of "hd (split_on ''::'' enum_id)"] by simp
  then show ?thesis
    using assms(2) step by (auto simp: rust_gated_variants_def Let_def split: sum.splits option.splits if_splits)
qed

lemma variant_count_contradicted:
  assumes "cache_sound H fs" "outcome_verdict (snd (variant_count store H R c fs)) = Contradicted"
    and "\<And>src shapes. enum_shapes R src = Inr shapes \<Longrightarrow> list_all (\<lambda>s. shape_variants s < 2 ^ 64) shapes"
  shows "enum_rules_out store H R (repo_dir fs) c"
proof -
  have stuck: "outcome_verdict answer \<noteq> Contradicted" if "single_enum store (doc_subject c) = Inl answer" for answer
    using that by (auto simp: single_enum_def split: if_splits sum.splits list.splits)
  obtain e enum_node ev rs where e: "parse_expected (doc_expected c) = Some e" and
    node: "single_enum store (doc_subject c) = Inr (enum_node, ev)" "cand_language enum_node = ''rust''" and
    rs: "store (variants_query (cand_id enum_node)) = Inr rs"
    using assms(2) stuck by (auto simp: variant_count_def Let_def split: option.splits sum.splits prod.splits if_splits)
  obtain fs1 read where run: "rust_gated_variants H R (cand_id enum_node) (cand_line enum_node) (length rs) fs = (fs1, read)"
    by (cases "rust_gated_variants H R (cand_id enum_node) (cand_line enum_node) (length rs) fs")
  with assms(2) e node rs obtain gated location claimed ev' where
    read: "read = Inr (gated, location)" and bad: "outcome_verdict (variant_verdict e (length rs) gated claimed ev') = Contradicted"
    by (auto simp: variant_count_def Let_def split: sum.splits)
  obtain src shapes shape where shape: "load_file H (repo_dir fs) (hd (split_on ''::'' (cand_id enum_node))) = Inr src"
    "enum_shapes R src = Inr shapes" "find (\<lambda>s. shape_line s = cand_line enum_node) shapes = Some shape"
    "shape_variants shape = length rs" "shape_gated shape = gated"
    using rust_gated_read [OF assms(1), of R "cand_id enum_node" "cand_line enum_node" "length rs"] run read by auto
  have "shape \<in> set shapes" using shape(3) by (auto simp: find_Some_iff)
  then have "length rs < 2 ^ 64" using assms(3) [OF shape(2)] shape(4) by (auto simp: list_all_iff)
  from variant_verdict_contradicted [OF bad this] show ?thesis
    unfolding enum_rules_out_def using e node rs shape by metis
qed

text \<open>C31: nothing absent contradicts a claim. A claim is contradicted only by declarations the graph holds: all symbols of
  the name are Rust declarations with a visibility that is not \<open>pub\<close>, or more declarations than claimed are certain, or
  the one enum of the name was read from its Rust source at the line of the graph, with as many variants as the graph
  holds, and whichever of its gated variants are compiled the number is none that the claim allows. (The reader counts
  fewer than \<open>2 ^ 64\<close> variants.)\<close>

theorem contradicted_only_by_declarations:
  assumes "cache_sound H fs" "check_one store H R c fs = (fs', answer)" "outcome_verdict answer = Contradicted"
    and "\<And>src shapes. enum_shapes R src = Inr shapes \<Longrightarrow> list_all (\<lambda>s. shape_variants s < 2 ^ 64) shapes"
  shows "(doc_kind c = ''is_public'' \<and>
      (\<exists>found. lookup_symbol store (doc_subject c) SEARCHABLE_LABELS = Inr found \<and> lookup_candidates found \<noteq> [] \<and>
         list_all (\<lambda>k. cand_label k \<in> set VISIBILITY_LABELS \<and> cand_language k = ''rust'' \<and>
           (cand_visibility k = [] \<or> starts_with (cand_visibility k) ''pub('')) (lookup_candidates found))) \<or>
    (\<exists>harness n rs. (doc_kind c, harness) \<in> {(''test_count'', TESTS), (''proof_count'', PROOFS)} \<and>
       parse_expected (doc_expected c) = Some (Exact n) \<and> store (entries_query harness (doc_subject c)) = Inr rs \<and>
       n < length (filter (certain store H R (repo_dir fs) harness) rs)) \<or>
    (doc_kind c = ''enum_variant_count'' \<and> enum_rules_out store H R (repo_dir fs) c)"
proof -
  let ?fs = "fst (read_file H (doc_file c) fs)"
  have fs: "cache_sound H ?fs" "repo_dir ?fs = repo_dir fs" using assms(1) by simp_all
  have kind: "outcome_verdict (snd (check_kind store H R c ?fs)) = Contradicted"
    using assms(2,3) by (auto simp: check_one_def Let_def split: prod.splits sum.splits)
  consider "doc_kind c = ''is_public''" | "doc_kind c = ''test_count''" | "doc_kind c = ''proof_count''" | "doc_kind c = ''enum_variant_count''"
    using kind by (auto simp: check_kind_def Let_def split: if_splits)
  then show ?thesis
  proof cases
    case 1
    then have "outcome_verdict (is_public store (doc_subject c)) = Contradicted" using kind by (simp add: check_kind_def)
    from is_public_contradicted [OF this] 1 show ?thesis by (auto simp: list_all_iff)
  next
    case 2
    then have "outcome_verdict (snd (entry_count store H R c TESTS ?fs)) = Contradicted" using kind by (simp add: check_kind_def)
    from entry_count_contradicted [OF fs(1) this] 2 fs(2) show ?thesis by auto
  next
    case 3
    then have "outcome_verdict (snd (entry_count store H R c PROOFS ?fs)) = Contradicted" using kind by (simp add: check_kind_def)
    from entry_count_contradicted [OF fs(1) this] 3 fs(2) show ?thesis by auto
  next
    case 4
    then have "outcome_verdict (snd (variant_count store H R c ?fs)) = Contradicted" using kind by (simp add: check_kind_def)
    from variant_count_contradicted [OF fs(1) this assms(4)] 4 fs(2) show ?thesis by simp
  qed
qed

text \<open>At least three variants are claimed of an enum that declares two.\<close>

lemma contradicted_only_by_declarations_witness:
  "\<exists>fs' answer. check_one demo_enum_store demo_repo demo_reader
       (demo_enum_claim\<lparr>doc_text := ''source'', doc_expected := ''>=3''\<rparr>) (no_cache ''/r'') = (fs', answer) \<and>
     outcome_verdict answer = Contradicted \<and>
     enum_rules_out demo_enum_store demo_repo demo_reader ''/r'' (demo_enum_claim\<lparr>doc_text := ''source'', doc_expected := ''>=3''\<rparr>)"
proof -
  let ?c = "demo_enum_claim\<lparr>doc_text := ''source'', doc_expected := ''>=3''\<rparr>"
  have e: "parse_expected (doc_expected ?c) = Some (AtLeast 3)" using parse_expected_examples by simp
  have "confine demo_repo ''/r'' ''README.md'' = Inr ''/r/README.md''" "from_utf8 ''source'' = Some ''source''" by code_simp+
  then have load: "load_file demo_repo ''/r'' ''README.md'' = Inr ''source''" by (simp add: load_file_def demo_repo_def MAX_PARSE_BYTES_def)
  obtain fs1 r where step: "read_file demo_repo ''README.md'' (no_cache ''/r'') = (fs1, r)"
    by (cases "read_file demo_repo ''README.md'' (no_cache ''/r'')")
  have fs1: "cache_sound demo_repo fs1" "repo_dir fs1 = ''/r''" and "r = Inr ''source''"
    using read_file_gives [OF no_cache_sound(1), of demo_repo "''README.md''" "''/r''"] unfolding step by (simp_all add: load)
  then have read: "read_file demo_repo (doc_file ?c) (no_cache ''/r'') = (fs1, Inr ''source'')" using step by (simp add: demo_enum_claim_def)
  have anchor: "anchor_holds ''source'' (doc_line ?c) (doc_text ?c) = Inr ()" by code_simp
  obtain ev where node: "single_enum demo_enum_store (doc_subject ?c) = Inr (demo_enum_node, ev)"
    using demo_enum_found by (auto simp: demo_enum_claim_def)
  obtain fs2 a where count: "variant_count demo_enum_store demo_repo demo_reader ?c fs1 = (fs2, a)"
    by (cases "variant_count demo_enum_store demo_repo demo_reader ?c fs1")
  have "outcome_verdict a = Contradicted"
    using variant_count_exact [OF fs1(1) e node demo_enum_read(1,2) demo_enum_read(3) [folded fs1(2)] demo_enum_read(4,5) _ _ _ count] by simp
  then have run: "check_one demo_enum_store demo_repo demo_reader ?c (no_cache ''/r'') =
      (fs2, a\<lparr>outcome_evidence := repo_evidence (doc_file ?c @ '':'' @ dec (doc_line ?c)) (JStr ''text found verbatim'') # outcome_evidence a\<rparr>)"
    and bad: "outcome_verdict a = Contradicted"
    using read anchor count by (simp_all add: check_one_def Let_def and_then_def check_kind_def demo_enum_claim_def)
  have shapes: "list_all (\<lambda>s. shape_variants s < 2 ^ 64) l" if "enum_shapes demo_reader src = Inr l" for src l
    using that by (auto simp: demo_reader_def)
  have kind: "doc_kind ?c = ''enum_variant_count''" by (simp add: demo_enum_claim_def)
  from contradicted_only_by_declarations [OF no_cache_sound(1) run _ shapes] bad kind run show ?thesis by simp
qed

section \<open>The report\<close>

definition steady :: "repo_host \<Rightarrow> string \<Rightarrow> (RepoFiles \<Rightarrow> RepoFiles \<times> 'a) \<Rightarrow> bool" where
  "steady H dir op \<longleftrightarrow> (\<exists>r. gives H dir op r)"

named_theorems steady_intro

lemma steady_pure [steady_intro]: "steady H dir (\<lambda>fs. (fs, r))"
  by (auto simp: steady_def intro: gives_pure)

lemma steady_read [steady_intro]: "steady H dir (read_file H rel)"
  by (auto simp: steady_def intro: gives_read)

lemma steady_then [steady_intro]:
  assumes "steady H dir op" and "\<And>x. steady H dir (k x)"
  shows "steady H dir (\<lambda>fs. case op fs of (fs', x) \<Rightarrow> k x fs')"
  using assms gives_then unfolding steady_def by metis

lemma steady_dir [steady_intro]: "(\<And>fs. repo_dir fs = dir \<Longrightarrow> f fs = r) \<Longrightarrow> steady H dir (\<lambda>fs. (fs, f fs))"
  by (auto simp: steady_def gives_def)

lemma steady_if [steady_intro]: "steady H dir f \<Longrightarrow> steady H dir g \<Longrightarrow> steady H dir (\<lambda>fs. if b then f fs else g fs)"
  by (cases b) simp_all

lemma steady_option [steady_intro]:
  "steady H dir f \<Longrightarrow> (\<And>y. steady H dir (g y)) \<Longrightarrow> steady H dir (\<lambda>fs. case x of None \<Rightarrow> f fs | Some y \<Rightarrow> g y fs)"
  by (cases x) simp_all

lemma steady_sum [steady_intro]:
  "(\<And>e. steady H dir (f e)) \<Longrightarrow> (\<And>y. steady H dir (g y)) \<Longrightarrow> steady H dir (\<lambda>fs. case x of Inl e \<Rightarrow> f e fs | Inr y \<Rightarrow> g y fs)"
  by (cases x) simp_all

lemma steady_prod [steady_intro]: "(\<And>a b. steady H dir (f a b)) \<Longrightarrow> steady H dir (\<lambda>fs. case x of (a, b) \<Rightarrow> f a b fs)"
  by (cases x) simp_all

lemma steady_no_cache: "steady H dir op \<Longrightarrow> gives H dir op (snd (op (no_cache dir)))"
  unfolding steady_def by (metis givesD no_cache_sound)

lemma steady_floor: "steady H dir (\<lambda>fs. floor_of_files store H R harness m fs n excluded)"
proof (induction m arbitrary: n excluded)
  case (Cons g m)
  obtain f ls where g: "g = (f, ls)" by (cases g)
  have "steady H dir (file_gates store H R harness f)" unfolding steady_def by (rule exI) (rule gives_file_gates)
  then show ?case by (simp add: g Let_def) (intro steady_then Cons.IH)
qed (simp add: steady_pure)

lemma steady_entry_count: "steady H dir (entry_count store H R c harness)"
  unfolding entry_count_def [abs_def] Let_def compiled_floor_def by (intro steady_intro steady_floor)

lemma steady_gated: "steady H dir (rust_gated_variants H R i line decl)"
  unfolding rust_gated_variants_def [abs_def] Let_def by (intro steady_intro)

lemma steady_variant_count: "steady H dir (variant_count store H R c)"
  unfolding variant_count_def [abs_def] Let_def by (intro steady_intro steady_gated)

lemma steady_check_kind: "steady H dir (check_kind store H R c)"
proof -
  have "steady H dir (\<lambda>fs. (fs, file_exists store H fs s))" for s
  proof (rule steady_dir [where r = "file_exists store H (no_cache dir) s"])
    fix fs :: RepoFiles
    assume "repo_dir fs = dir"
    then have "file_in_repo H s fs = file_in_repo H s (no_cache dir)" by (simp add: file_in_repo_def)
    then show "file_exists store H fs s = file_exists store H (no_cache dir) s" by (simp only: file_exists_def)
  qed
  then show ?thesis
    unfolding check_kind_def [abs_def] Let_def by (intro steady_if steady_pure steady_entry_count steady_variant_count)
qed

lemma steady_check_one: "steady H dir (check_one store H R c)"
  unfolding check_one_def [abs_def] Let_def by (intro steady_intro steady_check_kind)

lemma gives_check_rows:
  "gives H dir (check_rows store H R cs) (map (\<lambda>c. \<lparr>row_claim = c, row_outcome = snd (check_one store H R c (no_cache dir))\<rparr>) cs)"
proof (induction cs)
  case (Cons c cs)
  have one: "gives H dir (check_one store H R c) (snd (check_one store H R c (no_cache dir)))"
    by (rule steady_no_cache [OF steady_check_one])
  show ?case
    unfolding check_rows.simps [abs_def]
    by (rule gives_then [OF one], rule gives_then [OF Cons.IH]) (simp add: gives_pure)
qed (simp add: gives_def)

lemma verdict_str_inj: "verdict_str v = verdict_str w \<longleftrightarrow> v = w"
  by (cases v; cases w) simp_all

lemma map_of_bump:
  "map_of m (verdict_str v) = Some n \<Longrightarrow>
     map_of (bump_verdict r m) (verdict_str v) = Some (n + (if outcome_verdict (row_outcome r) = v then 1 else 0))"
  by (auto simp: bump_verdict_def Let_def map_of_btree_insert verdict_str_inj)

lemma map_of_counts:
  "map_of m (verdict_str v) = Some n \<Longrightarrow>
     map_of (fold bump_verdict rows m) (verdict_str v) = Some (n + length (filter (\<lambda>r. outcome_verdict (row_outcome r) = v) rows))"
proof (induction rows arbitrary: m n)
  case (Cons r rows)
  from Cons.IH [OF map_of_bump [OF Cons.prems]] show ?case by (simp add: add.assoc)
qed simp

lemma verdict_counts_exact: "map_of (verdict_counts rows) (verdict_str v) = Some (length (filter (\<lambda>r. outcome_verdict (row_outcome r) = v) rows))"
proof -
  have "map_of (fold (\<lambda>v. btree_insert (verdict_str v) 0) ALL_VERDICTS []) (verdict_str v) = Some (0 :: nat)"
    by (cases v) (simp_all add: ALL_VERDICTS_def map_of_btree_insert)
  from map_of_counts [OF this] show ?thesis by (simp add: verdict_counts_def)
qed

text \<open>A report holds each claim once, by file, line and id, with the verdict the claim gets when it is checked alone:
  the files cached by the claims before it change nothing. The counts are those of the rows.\<close>

theorem report_exact:
  assumes "check_claims store H R dir cs = Inr rows"
  shows "\<exists>root. canonicalize H dir = Some root \<and> sorted (map row_order rows) \<and>
     mset rows = mset (map (\<lambda>c. \<lparr>row_claim = c, row_outcome = snd (check_one store H R c \<lparr>repo_dir = root, repo_cache = Map.empty\<rparr>)\<rparr>) cs) \<and>
     map (\<lambda>v. map_of (verdict_counts rows) (verdict_str v)) ALL_VERDICTS =
       map (\<lambda>v. Some (length (filter (\<lambda>r. outcome_verdict (row_outcome r) = v) rows))) ALL_VERDICTS"
proof -
  obtain root where root: "canonicalize H dir = Some root" and rows: "rows = sort_key row_order (snd (check_rows store H R cs (no_cache root)))"
    using assms by (auto simp: check_claims_def new_repo_files_def no_cache_def and_then_def split: option.splits if_splits sum.splits)
  have "snd (check_rows store H R cs (no_cache root)) =
      map (\<lambda>c. \<lparr>row_claim = c, row_outcome = snd (check_one store H R c (no_cache root))\<rparr>) cs"
    by (rule givesD [OF gives_check_rows]) simp_all
  with rows root show ?thesis by (simp add: verdict_counts_exact no_cache_def)
qed

lemma report_exact_witness:
  "\<exists>rows. check_claims demo_enum_store demo_repo demo_reader ''/r'' [demo_enum_claim] = Inr rows \<and> map row_claim rows = [demo_enum_claim]"
proof -
  obtain rows where run: "check_claims demo_enum_store demo_repo demo_reader ''/r'' [demo_enum_claim] = Inr rows"
    by (auto simp: check_claims_def new_repo_files_def demo_repo_def and_then_def)
  have "mset (map row_claim rows) = {#demo_enum_claim#}"
    using report_exact [OF run] by (auto simp: mset_map)
  with run show ?thesis by (auto simp: mset_map [symmetric] simp del: mset_map)
qed

section \<open>Anchors\<close>

lemma newlines_append [simp]: "newlines (a @ b) = newlines a + newlines b"
  by (simp add: newlines_def)

lemma newlines_0 [simp]: "newlines a = 0 \<longleftrightarrow> CHR 0x0A \<notin> set a"
  by (auto simp: newlines_def filter_empty_conv)

lemma newlines_join: "\<forall>l \<in> set ls. CHR 0x0A \<notin> set l \<Longrightarrow> newlines (join_with [CHR 0x0A] ls) = length ls - 1"
proof (induction "[CHR 0x0A]" ls rule: join_with.induct)
  case (3 x y xs)
  then have "newlines x = 0" by simp
  with 3 show ?case by (simp add: newlines_def)
qed (auto simp: newlines_def filter_empty_conv)

lemma set_strip_cr: "set (strip_cr l) \<subseteq> set l"
  by (auto simp: strip_cr_def dest: in_set_butlastD)

lemma line_pieces_no_newline: "CHR 0x0A \<notin> set acc \<Longrightarrow> \<forall>l \<in> set (line_pieces acc s). CHR 0x0A \<notin> set l"
proof (induction acc s rule: line_pieces.induct)
  case (2 acc c s)
  then show ?case using set_strip_cr [of "rev acc"] by auto
qed auto

lemma join_take:
  "n \<le> length ls \<Longrightarrow> 0 < n \<Longrightarrow> \<exists>rest. join_with [CHR 0x0A] ls = join_with [CHR 0x0A] (take n ls) @ rest \<and> (n < length ls \<longrightarrow> rest \<noteq> [] \<and> hd rest = CHR 0x0A) \<and> (n = length ls \<longrightarrow> rest = [])"
proof (induction "[CHR 0x0A]" ls arbitrary: n rule: join_with.induct)
  case (3 x y xs)
  show ?case
  proof (cases "n = 1")
    case False
    then obtain m where m: "n = Suc m" "0 < m" "m \<le> length (y # xs)" using 3 by (cases n) auto
    have "take (Suc m) (x # y # xs) = x # y # take (m - 1) xs" using m by (cases m) auto
    moreover have "take m (y # xs) = y # take (m - 1) xs" using m by (cases m) auto
    ultimately show ?thesis using 3(1) [OF m(3,2)] m by auto
  qed auto
qed (auto simp: take_Cons')

lemma window_starts:
  fixes t :: string
  defines "n \<equiv> newlines t + 1"
  assumes lines: "\<forall>l \<in> set ls. CHR 0x0A \<notin> set l" and ls: "ls \<noteq> []"
  shows "contains (join_with [CHR 0x0A] (take n ls)) t \<longleftrightarrow>
     (\<exists>before after. join_with [CHR 0x0A] ls = before @ t @ after \<and> CHR 0x0A \<notin> set before)"
proof -
  let ?W = "join_with [CHR 0x0A] (take n ls)"
  have "min n (length ls) \<le> length ls" "0 < min n (length ls)" using ls by (auto simp: n_def)
  from join_take [OF this] obtain rest where rest: "join_with [CHR 0x0A] ls = ?W @ rest"
    and more: "min n (length ls) < length ls \<longrightarrow> rest \<noteq> [] \<and> hd rest = CHR 0x0A" and whole: "min n (length ls) = length ls \<longrightarrow> rest = []"
    by (metis min.commute take_all_iff min_def order_refl)
  have "\<forall>l \<in> set (take n ls). CHR 0x0A \<notin> set l" using lines by (auto dest: in_set_takeD)
  from newlines_join [OF this] have W: "newlines ?W = min n (length ls) - 1" by (simp add: min.commute)
  show ?thesis
  proof
    assume "contains ?W t"
    then obtain a b where ab: "?W = a @ t @ b" by (auto simp: contains_iff)
    have "newlines a + (newlines t + newlines b) = min n (length ls) - 1" using W unfolding ab newlines_append .
    moreover have "min n (length ls) - 1 \<le> newlines t" by (simp add: n_def)
    ultimately have "newlines a = 0" by linarith
    with ab rest show "\<exists>before after. join_with [CHR 0x0A] ls = before @ t @ after \<and> CHR 0x0A \<notin> set before"
      by (metis append.assoc newlines_0)
  next
    assume "\<exists>before after. join_with [CHR 0x0A] ls = before @ t @ after \<and> CHR 0x0A \<notin> set before"
    then obtain a b where ab: "?W @ rest = (a @ t) @ b" and a: "newlines a = 0" using rest by auto
    from append_eq_append_conv2 [THEN iffD1, OF ab] obtain us where
      "?W = (a @ t) @ us \<or> (?W @ us = a @ t \<and> rest = us @ b)" by blast
    then show "contains ?W t"
    proof
      assume "?W = (a @ t) @ us"
      then show ?thesis by (auto simp: contains_iff)
    next
      assume us: "?W @ us = a @ t \<and> rest = us @ b"
      show ?thesis
      proof (cases "us = []")
        case True
        with us have "?W = a @ t @ []" by simp
        then show ?thesis unfolding contains_iff by blast
      next
        case False
        then have "rest \<noteq> []" using us by auto
        with more whole have short: "n < length ls" and "hd us = CHR 0x0A"
          using us False by (auto simp: min_def split: if_splits)
        then have "1 \<le> newlines us" using False by (cases us) (auto simp: newlines_def)
        moreover have "newlines ?W + newlines us = newlines t" using us a by (metis add_0 newlines_append)
        moreover have "newlines ?W = newlines t" using W short by (simp add: n_def)
        ultimately show ?thesis by linarith
      qed
    qed
  qed
qed

text \<open>An anchor holds exactly when its text is not blank, its line is one of the file, and the text is found in the lines
  from there on, starting on that line; how many lines it spans does not matter.\<close>

theorem anchor_exact:
  "anchor_holds content line t = Inr () \<longleftrightarrow>
     trim t \<noteq> [] \<and> 0 < line \<and> line \<le> length (lines_of content) \<and>
     (\<exists>before after. join_with [CHR 0x0A] (drop (line - 1) (lines_of content)) = before @ t @ after \<and> CHR 0x0A \<notin> set before)"
proof (cases "0 < line \<and> line \<le> length (lines_of content)")
  case True
  have "\<forall>l \<in> set (lines_of content). CHR 0x0A \<notin> set l"
    using line_pieces_no_newline [of "[]" content] by (simp add: lines_of_def)
  then have "\<forall>l \<in> set (drop (line - 1) (lines_of content)). CHR 0x0A \<notin> set l" by (auto dest: in_set_dropD)
  moreover have "drop (line - 1) (lines_of content) \<noteq> []" using True by auto
  ultimately have "contains (join_with [CHR 0x0A] (take (newlines t + 1) (drop (line - 1) (lines_of content)))) t \<longleftrightarrow>
      (\<exists>before after. join_with [CHR 0x0A] (drop (line - 1) (lines_of content)) = before @ t @ after \<and> CHR 0x0A \<notin> set before)"
    (is "?contains \<longleftrightarrow> ?found")
    by (rule window_starts)
  moreover have "anchor_holds content line t = Inr () \<longleftrightarrow> trim t \<noteq> [] \<and> ?contains"
    using True by (simp add: anchor_holds_def Let_def)
  ultimately show ?thesis using True by blast
qed (auto simp: anchor_holds_def Let_def)

text \<open>The lines lose their carriage returns, the text of the claim does not.\<close>

theorem crlf_text_rejected:
  "anchor_holds [CHR ''a'', CHR 0x0D, CHR 0x0A, CHR ''b''] 1 [CHR ''a'', CHR 0x0D, CHR 0x0A, CHR ''b''] = Inl ''text_not_at_line''"
  by code_simp

text \<open>Of a file that is not in the graph, none of whose tests are known, the claim that it has none is supported.\<close>

theorem no_rows_support_zero:
  assumes "parse_expected (doc_expected c) = Some (Exact 0)" "store (entries_query harness (doc_subject c)) = Inr []"
  shows "outcome_verdict (snd (entry_count store H R c harness fs)) = Supported"
  using assms by (simp add: entry_count_def Let_def compiled_floor_def lines_by_file_def count_verdict_def)

end
