(* ===== verification/Spec2Isabelle.thy ===== *)
theory Spec2Isabelle
  imports Main Prelude ReadOnlyGate CfgLex CfgExpr CfgCompact FindingProps VerificationProps
    GitDiff CargoFeatures Clustering Processes GraphGate AmbiguityPolicy
    FileScope Protocol Impact SemanticDiff Coverage LspSession Paging GraphCache Freshness SecurityGates Zera
    Cochange History DiffImpact PrdValidator DocClaims
begin

text \<open>
  A verification development of automatised-pipeline, a server that indexes a codebase into a property graph and
  answers questions about it to a coding agent. The program is the Rust crate under \<open>src/src\<close>; every theory names the
  files it models.

  \<^bold>\<open>The program.\<close> A full run walks the codebase, parses each file, writes nodes and edges to a graph database, decides
  which \<open>#[cfg]\<close> twins a plain build compiles, resolves calls, clusters the symbols into communities and traces the call
  chains of the entry points; an incremental run classifies the files against a manifest and repeats this for what
  changed. Read-only tools then query the graph (Cypher, impact of a symbol, semantic diff of two graphs, security
  gates), each answer cut to a byte budget and stamped with a freshness receipt. Beside the graph stand the tools of
  a finding: extraction, refinement and a clarification session with the user, all kept in JSON files. A language
  server may be asked for definitions and diagnostics.

  \<^bold>\<open>Conventions.\<close> A string is the list of its UTF-8 bytes; a \<open>Result<T, E>\<close> is \<open>'e + 't\<close> with the error left; a struct
  is a record, an enum a datatype. Sizes and counters that cannot reach their bound are naturals, and where a bound
  matters it is written out (saturating and checked arithmetic, \<open>64 word\<close> in \<open>HandlerUtil\<close>). The file system is a
  function from paths to contents that each operation returns updated. What is not code of the repository is a
  parameter: the graph database (a function from a statement to rows or an error), \<open>f64\<close>, SHA-256, the printer and
  parser of JSON, tree-sitter, git, \<open>cargo metadata\<close>, the clock and the language server.

  \<^bold>\<open>Shared theories.\<close>
  \<^item> \<open>Prelude\<close>: bytes, ASCII case, splitting, trimming, decimal numbers, ordered maps, worklists; the collection
    \<open>byte_simps\<close>. \<open>Json\<close>: \<open>serde_json::Value\<close> and its accessors.
  \<^item> \<open>PercentCodec\<close>, \<open>Closure\<close>: the interfaces (locales) of percent encoding and of graph searches, interpreted in
    \<open>CfgCompact\<close>, \<open>LspWire\<close>, \<open>CargoFeatures\<close> and \<open>Communities\<close>.

  \<^bold>\<open>Indexing.\<close>
  \<^item> \<open>CfgLex\<close>, \<open>CfgExpr\<close>, \<open>CfgCompact\<close> (\<open>parser/cfg_lex.rs\<close>, \<open>cfg_expr.rs\<close>, \<open>cfg_compact.rs\<close>): the predicates of
    \<open>#[cfg]\<close>. Proved: three-valued evaluation is sound for every build the profile allows, the compact text
    reads back, canonical forms are normal forms.
  \<^item> \<open>CfgTwins\<close>, \<open>CfgVerdict\<close> (\<open>graph_store/cfg_twins.rs\<close>, \<open>cfg_active.rs\<close>, \<open>indexer/cfg_active.rs\<close>,
    \<open>resolver/cfg_verdict.rs\<close>, \<open>cfg_select.rs\<close>, \<open>cfg_twins.rs\<close>): gates in the id of an item, the recorded verdicts, and
    the choice of the one twin a caller can be bound to.
  \<^item> \<open>CargoFeatures\<close>, \<open>ModuleTree\<close>, \<open>FileScope\<close> (\<open>indexer/cargo_features.rs\<close>, \<open>feature_gated.rs\<close>, \<open>file_scope.rs\<close>): the
    default features as a least fixpoint, the files only non-default features compile, and the gate and module
    path of each file. The walk of \<open>file_scope\<close> is shown to return exactly when no file declares itself again below
    itself.
  \<^item> \<open>Incremental\<close> (\<open>indexer/manifest.rs\<close>, \<open>incremental/classify.rs\<close>): the files of two manifests are partitioned into
    unchanged, modified, renamed, added and deleted. \<open>Coverage\<close> (\<open>indexer/coverage.rs\<close>, \<open>incremental/coverage.rs\<close>):
    the report of what the graph misses; an incremental report has the files of a full one exactly when the report
    before it holds the gaps of the files that are not parsed again.
  \<^item> \<open>AmbiguityPolicy\<close> (\<open>ambiguity_policy.rs\<close>, \<open>call_evidence.rs\<close>): which candidate a call is bound to.
  \<^item> \<open>GraphSchema\<close>, \<open>GraphColumns\<close>, \<open>GraphWrite\<close>, \<open>GraphGate\<close> (\<open>graph_store/schema.rs\<close>, \<open>ddl.rs\<close>, \<open>columns.rs\<close>,
    \<open>writes.rs\<close>, \<open>serialize.rs\<close>): tables, columns and statements. The bulk writers are instances of the
    locale \<open>row_builder\<close>; \<open>GraphGate\<close> joins the escape of literals with the read-only gate.
  \<^item> \<open>Adjacency\<close>, \<open>Louvain\<close>, \<open>Communities\<close>, \<open>ClusterStore\<close>, \<open>Clustering\<close>, \<open>Processes\<close> (\<open>clustering/\<close>): the
    communities, whose repair makes each of them connected, and the breadth-first call chains.

  \<^bold>\<open>Questions.\<close>
  \<^item> \<open>ReadOnlyGate\<close> (\<open>query_handlers/read_only_gate.rs\<close>): a Cypher text that passes holds no mutating keyword outside
    literals, comments and identifiers. \<open>Paging\<close> (\<open>query_handlers.rs\<close>, \<open>response_budget.rs\<close>): a reader that follows the
    cursors comes to an end, and gets every row once when the query declares an order (locale \<open>cursor\<close>).
  \<^item> \<open>GraphCache\<close>, \<open>Freshness\<close> (\<open>graph_cache.rs\<close>, \<open>graph_freshness.rs\<close>, \<open>git_provenance.rs\<close>): a cached handle is
    that of an earlier opening whose fingerprint (newest time and size) the graph still has; when an answer may be called
    fresh, and that the check looks nowhere outside of the root its sidecar names.
  \<^item> \<open>Impact\<close> (\<open>clustering/impact*.rs\<close>, \<open>epistemic.rs\<close>), \<open>Tarjan\<close> and \<open>SemanticDiff\<close> (\<open>semantic_diff.rs\<close>), \<open>GitDiff\<close>
    (\<open>git_diff.rs\<close>), \<open>SecurityGates\<close> (\<open>security_gates/\<close>, \<open>search/name_lookup.rs\<close>): the analyses, with what they
    may leave out. The iterative search of \<open>Tarjan\<close> is proved equal to mutual reachability.
  \<^item> \<open>DiffImpact\<close> (\<open>git_diff.rs\<close>, \<open>graph_store/membership.rs\<close>): of the symbols a file defines itself, a diff
    reports exactly those whose lines it touches. \<open>History\<close> (\<open>history/\<close>): the versions of each entity form one chain from
    the newest commit to the oldest. \<open>Cochange\<close>
    (\<open>cochange.rs\<close>): the counters of file pairs refine a count over the commits seen, whole or in increments.
    \<open>PrdValidator\<close> (\<open>prd_validator/\<close>): what the status of a checked PRD means. \<open>DocClaims\<close> (\<open>doc_claims/\<close>): when a claim of
    a document is supported or contradicted; the cache of files changes no verdict.
  \<^item> \<open>Zera\<close> (\<open>crates/zera/\<close>): the canonical bytes of a graph, the code book and the grammar of its compact form read
    back.
  \<^item> \<open>LspWire\<close>, \<open>LspSession\<close> (\<open>lsp_client.rs\<close>, \<open>lsp_client/\<close>): frames and URIs, and the conversation against an arbitrary
    server and clock.

  \<^bold>\<open>Findings.\<close> \<open>HandlerUtil\<close>, \<open>FindingStore\<close>, \<open>FindingProps\<close> (stage 1: \<open>finding_*.rs\<close>) and \<open>Verification\<close>,
  \<open>VerificationProps\<close>, \<open>Protocol\<close> (stage 2: \<open>verification_core.rs\<close>, \<open>verification_ops.rs\<close>). The locale \<open>session_tool\<close>
  is the contract of a tool on the session files; the six tools are its instances, so a session file stays well
  formed under all of them. Its laws label what a tool does to a session file with an act (start, question, answer,
  finalize, abort); \<open>Protocol\<close> shows that any list of requests runs the abstract state machine by the acts it asks for,
  and by every act it acknowledges.

  \<^bold>\<open>Loops and bounds.\<close> Loops of the source are structural recursions or \<open>function\<close>s with a measure (unvisited nodes,
  remaining bytes, remaining work). Four kinds may run for ever or as long as a peer lets them: the walk of
  \<open>FileScope.scope_walk\<close> has fuel, and the property says for which trees some fuel is enough; the searches of
  \<open>Tarjan\<close>, the waiting loops of \<open>LspSession\<close> and the reader \<open>Paging.read_all\<close> are \<open>partial_function\<close>s that are shown to
  return (for the waiting loops by the deadline, locale \<open>poll_loop\<close>). \<open>Processes.MAX_BFS_DEPTH\<close>, \<open>GraphWrite.BULK_BATCH_SIZE\<close>
  and the other limits are the constants of the source.

  \<^bold>\<open>Not modelled.\<close> The walkers over tree-sitter trees (\<open>parser/\<close> without the cfg texts), because everything they do
  is a function of a tree that the library builds; the walk of directories and the writing of parsed files
  (\<open>indexer/walk.rs\<close>, \<open>indexer/persist/\<close>); the passes of the resolver beyond the choice of a candidate; the full-text and
  vector indices; the matching of findings to symbols when a PRD is written (\<open>prd_input/\<close>); argument schemas, prompts, the command line
  and the loop over standard input. Threads are not modelled: each operation runs on its own.
\<close>

end
